(* ===== verification/Prelude.thy ===== *)
theory Prelude
  imports
    Main
    "HOL-Library.Char_ord"
    "HOL-Library.List_Lexorder"
    "HOL-Library.Product_Lexorder"
    "HOL-Library.Multiset"
    "HOL-Library.AList"
    "HOL-Library.Word"
begin

text \<open>
  What every component shares: the reading of Go's basic types, the lemmas on
  association lists, sorting and searching that the component proofs use, and two
  generic interfaces (a machine with an invariant, a codec).

  \<^item> A Go \<open>string\<close> is a byte sequence, here \<^typ>\<open>string\<close>; the order of
    \<open>Char_ord\<close> and \<open>List_Lexorder\<close> is Go's byte-wise string order.
  \<^item> A \<open>time.Time\<close> is its distance in nanoseconds from Go's zero Time, an
    \<^typ>\<open>int\<close>; \<open>IsZero\<close> is the comparison with 0. A \<open>time.Duration\<close> is an
    \<^typ>\<open>int\<close> of nanoseconds; where the code multiplies durations the 64 bit
    wrap-around is written out (\<open>wrap64\<close>), and \<open>Time.Sub\<close> saturates (\<open>tm_sub\<close>),
    as in the standard library.
  \<^item> A Go map is an association list with distinct keys, and the order of the list is
    the order of a \<open>range\<close> over it, which Go leaves open: a lemma for every list is a
    lemma for every iteration order.
  \<^item> \<open>sort.Strings\<close> is \<^const>\<open>sort\<close>. \<open>sort.Slice\<close> is \<^const>\<open>sort_key\<close>;
    Go does not fix the order of equal keys, so no property reads it.
\<close>

section \<open>Rewrite collections\<close>

named_theorems side_simps "rewrite rules for the two sides of a slot"
named_theorems frame_simps "fields an operation leaves unchanged"

section \<open>Time and durations\<close>

type_synonym time = int
type_synonym dur = int

definition is_zero :: "time \<Rightarrow> bool" where
  is_zero_iff [simp]: "is_zero t \<longleftrightarrow> t = 0"

definition max_int64 :: int where "max_int64 = 2 ^ 63 - 1"

definition min_int64 :: int where "min_int64 = - (2 ^ 63)"

definition sat64 :: "int \<Rightarrow> int" where
  "sat64 x = (if x > max_int64 then max_int64 else if x < min_int64 then min_int64 else x)"

definition wrap64 :: "int \<Rightarrow> int" where
  "wrap64 x = (x + 2 ^ 63) mod 2 ^ 64 - 2 ^ 63"

definition tm_sub :: "time \<Rightarrow> time \<Rightarrow> dur" where
  "tm_sub a b = sat64 (a - b)"

definition tm_add :: "time \<Rightarrow> dur \<Rightarrow> time" where
  tm_add_eq [simp]: "tm_add t d = t + d"

definition tm_before :: "time \<Rightarrow> time \<Rightarrow> bool" where
  tm_before_iff [simp]: "tm_before a b \<longleftrightarrow> a < b"

definition second :: dur where "second = 1000000000"

definition millisecond :: dur where "millisecond = 1000000"

lemma sat64_bounds: "min_int64 \<le> sat64 x" "sat64 x \<le> max_int64"
  by (simp_all add: sat64_def min_int64_def max_int64_def)

lemma sat64_id: "min_int64 \<le> x \<Longrightarrow> x \<le> max_int64 \<Longrightarrow> sat64 x = x"
  by (simp add: sat64_def)

lemma sat64_mono: "x \<le> y \<Longrightarrow> sat64 x \<le> sat64 y"
  by (simp add: sat64_def min_int64_def max_int64_def)

lemma sat64_ge: "d \<le> max_int64 \<Longrightarrow> d \<le> x \<Longrightarrow> d \<le> sat64 x"
  by (simp add: sat64_def min_int64_def max_int64_def)

lemma tm_sub_self [simp]: "tm_sub t t = 0"
  by (simp add: tm_sub_def sat64_def min_int64_def max_int64_def)

lemma sat64_ge_iff: "min_int64 < d \<Longrightarrow> d \<le> max_int64 \<Longrightarrow> d \<le> sat64 x \<longleftrightarrow> d \<le> x"
  by (auto simp add: sat64_def min_int64_def max_int64_def)

lemma wrap64_id: "min_int64 \<le> x \<Longrightarrow> x \<le> max_int64 \<Longrightarrow> wrap64 x = x"
  by (simp add: wrap64_def min_int64_def max_int64_def)

lemma wrap64_bounds: "min_int64 \<le> wrap64 x" "wrap64 x \<le> max_int64"
  by (simp_all add: wrap64_def min_int64_def max_int64_def)

section \<open>Go maps\<close>

type_synonym ('k, 'v) gomap = "('k \<times> 'v) list"

definition gm_wf :: "('k, 'v) gomap \<Rightarrow> bool" where
  "gm_wf m \<longleftrightarrow> distinct (map fst m)"

text \<open>Reading a \<open>map[K]int\<close> at a missing key gives 0; \<open>m[k]++\<close> starts there.\<close>

definition gm_incr :: "'k \<Rightarrow> ('k, nat) gomap \<Rightarrow> ('k, nat) gomap" where
  "gm_incr k m = AList.update k (case map_of m k of None \<Rightarrow> 1 | Some n \<Rightarrow> Suc n) m"

text \<open>Reading a \<open>map[K][]V\<close> at a missing key gives the nil slice; \<open>m[k] = append(m[k], v)\<close>.\<close>

definition gm_list :: "('k, 'v list) gomap \<Rightarrow> 'k \<Rightarrow> 'v list" where
  "gm_list m k = (case map_of m k of None \<Rightarrow> [] | Some vs \<Rightarrow> vs)"

definition gm_append :: "'k \<Rightarrow> 'v \<Rightarrow> ('k, 'v list) gomap \<Rightarrow> ('k, 'v list) gomap" where
  "gm_append k v m = AList.update k (gm_list m k @ [v]) m"

lemma gm_list_append:
  "gm_list (gm_append k v m) k' = (if k' = k then gm_list m k @ [v] else gm_list m k')"
  by (simp add: gm_append_def gm_list_def update_conv)

lemma gm_wf_Nil [simp]: "gm_wf []"
  by (simp add: gm_wf_def)

lemma gm_wf_Cons: "gm_wf ((k, v) # m) \<longleftrightarrow> k \<notin> fst ` set m \<and> gm_wf m"
  by (simp add: gm_wf_def)

lemma gm_wf_update [intro]: "gm_wf m \<Longrightarrow> gm_wf (AList.update k v m)"
  by (simp add: gm_wf_def distinct_update)

lemma gm_wf_filter [intro]: "gm_wf m \<Longrightarrow> gm_wf (filter P m)"
  by (auto simp: gm_wf_def distinct_map intro: inj_on_subset)

lemma gm_wf_map_val [simp]: "gm_wf (map (\<lambda>(k, v). (k, f k v)) m) = gm_wf m"
  by (simp add: gm_wf_def case_prod_beta comp_def)

lemma gm_wf_append [intro]: "gm_wf m \<Longrightarrow> gm_wf (gm_append k v m)"
  by (auto simp: gm_append_def)

lemma gm_wf_incr [intro]: "gm_wf m \<Longrightarrow> gm_wf (gm_incr k m)"
  by (auto simp: gm_incr_def)

lemma map_of_gm_incr:
  "map_of (gm_incr k m) k' =
     (if k' = k then Some (case map_of m k of None \<Rightarrow> 1 | Some n \<Rightarrow> Suc n) else map_of m k')"
  by (simp add: gm_incr_def update_conv)

lemma gm_wf_map_of: "gm_wf m \<Longrightarrow> (k, v) \<in> set m \<longleftrightarrow> map_of m k = Some v"
  by (simp add: gm_wf_def)

lemma map_of_filter_fst:
  "map_of (filter (\<lambda>(k, v). P k) m) k = (if P k then map_of m k else None)"
  by (induction m) auto

lemma map_of_map_val: "map_of (map (\<lambda>(k, v). (k, f k v)) m) k = map_option (f k) (map_of m k)"
  by (induction m) auto

lemma set_update_snd:
  "(k', v') \<in> set (AList.update k v m) \<Longrightarrow> (k', v') = (k, v) \<or> (k', v') \<in> set m"
  by (induction m) (auto split: if_splits)

lemma fst_set_update: "fst ` set (AList.update k v m) = insert k (fst ` set m)"
  by (induction m) auto

lemma fst_gm_append [simp]: "fst ` set (gm_append k v m) = insert k (fst ` set m)"
  by (simp add: gm_append_def fst_set_update)

lemma length_alist_update:
  "length (AList.update k v m) = (if k \<in> fst ` set m then length m else Suc (length m))"
  by (induction m) auto

lemma card_fst_gm_wf: "gm_wf m \<Longrightarrow> card (fst ` set m) = length m"
  unfolding gm_wf_def by (metis distinct_card length_map list.set_map)

lemma gm_wf_perm: "mset m = mset m' \<Longrightarrow> gm_wf m = gm_wf m'"
  unfolding gm_wf_def by (metis mset_eq_imp_distinct_iff mset_map)

lemma map_of_perm: "gm_wf m \<Longrightarrow> mset m = mset m' \<Longrightarrow> map_of m = map_of m'"
  by (metis gm_wf_def gm_wf_perm map_of_inject_set set_mset_mset)

section \<open>Lists, searching and sorting\<close>

lemma find_SomeD: "List.find P xs = Some x \<Longrightarrow> x \<in> set xs \<and> P x"
  by (induction xs) (auto split: if_splits)

lemma find_NoneD: "List.find P xs = None \<Longrightarrow> x \<in> set xs \<Longrightarrow> \<not> P x"
  by (simp add: find_None_iff)

lemma find_key_None_iff: "List.find (\<lambda>x. f x = k) xs = None \<longleftrightarrow> k \<notin> f ` set xs"
  by (auto simp: find_None_iff)

lemma find_None_mono:
  "List.find P xs = None \<Longrightarrow> (\<And>x. x \<in> set xs \<Longrightarrow> Q x \<Longrightarrow> P x) \<Longrightarrow> List.find Q xs = None"
  by (auto simp: find_None_iff)

lemma find_cong_set:
  "(\<And>x. x \<in> set xs \<Longrightarrow> P x = Q x) \<Longrightarrow> List.find P xs = List.find Q xs"
  by (induction xs) auto

lemma sort_key_perm_eq:
  assumes "mset xs = mset ys" and "inj_on f (set xs)"
  shows "sort_key f xs = sort_key f ys"
proof (rule properties_for_sort_key)
  show "mset (sort_key f ys) = mset xs" using assms(1) by simp
  show "sorted (map f (sort_key f ys))" by simp
  have eq: "set ys = set xs" using assms(1) by (metis set_mset_mset)
  show "filter (\<lambda>x. f k = f x) (sort_key f ys) = filter (\<lambda>x. f k = f x) xs"
    if "k \<in> set (sort_key f ys)" for k
  proof -
    have k: "k \<in> set xs" using that eq by simp
    have only: "x = k" if "x \<in> set xs" "f k = f x" for x
      using assms(2) that k by (metis inj_onD)
    have "mset (filter (\<lambda>x. f k = f x) (sort_key f ys)) = mset (filter (\<lambda>x. f k = f x) xs)"
      using assms(1) by (simp add: mset_filter)
    moreover have "filter (\<lambda>x. f k = f x) zs = replicate (length (filter (\<lambda>x. f k = f x) zs)) k"
      if "set zs \<subseteq> set xs" for zs
      using that only by (induction zs) auto
    ultimately show ?thesis
      using eq by (metis order_refl set_sort size_mset)
  qed
qed

lemma distinct_sort_map: "distinct (map f xs) \<Longrightarrow> distinct (map f (sort_key f xs))"
  by (metis mset_eq_imp_distinct_iff mset_map mset_sort)

lemma sorted_distinct_strict:
  "sorted xs \<Longrightarrow> distinct xs \<Longrightarrow> sorted_wrt (<) xs"
  for xs :: "'a::linorder list"
  by (simp add: strict_sorted_iff)

lemma sort_perm_eq: "mset xs = mset ys \<Longrightarrow> sort xs = sort ys"
  for xs :: "'a::linorder list"
  by (rule properties_for_sort) simp_all

lemma fold_preserves:
  "(\<And>x s. x \<in> set xs \<Longrightarrow> P s \<Longrightarrow> P (f x s)) \<Longrightarrow> P s \<Longrightarrow> P (fold f xs s)"
  by (induction xs arbitrary: s) auto

section \<open>Text\<close>

text \<open>\<open>strings.HasPrefix\<close>, \<open>strings.TrimPrefix\<close> and \<open>strings.Join\<close>.\<close>

definition has_prefix :: "string \<Rightarrow> string \<Rightarrow> bool" where
  "has_prefix s p \<longleftrightarrow> take (length p) s = p"

definition trim_prefix :: "string \<Rightarrow> string \<Rightarrow> string" where
  "trim_prefix s p = (if has_prefix s p then drop (length p) s else s)"

fun join :: "string \<Rightarrow> string list \<Rightarrow> string" where
  "join sep [] = []"
| "join sep [s] = s"
| "join sep (s # t # ss) = s @ sep @ join sep (t # ss)"

lemma has_prefix_Nil [simp]: "has_prefix [] (c # cs) = False"
  by (simp add: has_prefix_def)

section \<open>Decimal text\<close>

text \<open>\<open>fmt\<close>'s \<open>%d\<close> on an integer.\<close>

fun digits10 :: "nat \<Rightarrow> nat list" where
  "digits10 n = (if n < 10 then [n] else digits10 (n div 10) @ [n mod 10])"

declare digits10.simps [simp del]

definition digit_char :: "nat \<Rightarrow> char" where
  "digit_char d = char_of (48 + d)"

definition show_nat :: "nat \<Rightarrow> string" where
  "show_nat n = map digit_char (digits10 n)"

definition show_int :: "int \<Rightarrow> string" where
  "show_int i = (if i < 0 then ''-'' @ show_nat (nat (- i)) else show_nat (nat i))"

definition show_bool :: "bool \<Rightarrow> string" where
  "show_bool b = (if b then ''true'' else ''false'')"

fun undigits10 :: "nat list \<Rightarrow> nat \<Rightarrow> nat" where
  "undigits10 [] acc = acc"
| "undigits10 (d # ds) acc = undigits10 ds (10 * acc + d)"

lemma undigits10_append: "undigits10 (xs @ ys) acc = undigits10 ys (undigits10 xs acc)"
  by (induction xs arbitrary: acc) auto

lemma undigits10_digits10: "undigits10 (digits10 n) 0 = n"
proof (induction n rule: digits10.induct)
  case (1 n)
  show ?case
  proof (cases "n < 10")
    case True
    then show ?thesis by (simp add: digits10.simps)
  next
    case False
    with 1 show ?thesis by (simp add: digits10.simps [of n] undigits10_append)
  qed
qed

lemma digits10_lt: "d \<in> set (digits10 n) \<Longrightarrow> d < 10"
proof (induction n rule: digits10.induct)
  case (1 n)
  then show ?case
    by (cases "n < 10") (auto simp: digits10.simps [of n])
qed

lemma digits10_inject: "digits10 m = digits10 n \<Longrightarrow> m = n"
  by (metis undigits10_digits10)

lemma of_char_digit_char: "d < 10 \<Longrightarrow> of_char (digit_char d) = 48 + d"
  by (simp add: digit_char_def)

lemma show_nat_inject: "show_nat m = show_nat n \<Longrightarrow> m = n"
proof -
  assume "show_nat m = show_nat n"
  then have "map (\<lambda>d. (of_char (digit_char d) :: nat)) (digits10 m)
           = map (\<lambda>d. of_char (digit_char d)) (digits10 n)"
    unfolding show_nat_def by (metis (mono_tags, lifting) comp_apply map_map map_eq_conv)
  then have "map (\<lambda>d. 48 + d) (digits10 m) = map (\<lambda>d. 48 + d) (digits10 n)"
    by (metis (no_types, lifting) digits10_lt map_eq_conv of_char_digit_char)
  then have "digits10 m = digits10 n" by (simp add: inj_map_eq_map)
  then show "m = n" by (rule digits10_inject)
qed

lemma show_nat_nonempty [simp]: "show_nat n \<noteq> []"
  by (simp add: show_nat_def digits10.simps [of n])

section \<open>Splitting text\<close>

text \<open>The text before and after the last occurrence of a character.\<close>

definition split_last :: "char \<Rightarrow> string \<Rightarrow> (string \<times> string) option" where
  "split_last c s =
     (if c \<in> set s
      then Some (rev (tl (dropWhile (\<lambda>x. x \<noteq> c) (rev s))), rev (takeWhile (\<lambda>x. x \<noteq> c) (rev s)))
      else None)"

text \<open>\<open>filepath.Ext\<close>: from the last dot of the last path element.\<close>

definition path_ext :: "string \<Rightarrow> string" where
  "path_ext path =
     (let base = rev (takeWhile (\<lambda>c. c \<noteq> CHR ''/'') (rev path))
      in (case split_last (CHR ''.'') base of None \<Rightarrow> [] | Some (_, e) \<Rightarrow> CHR ''.'' # e))"

text \<open>\<open>strings.Split\<close> with a separator of one byte.\<close>

fun split_on :: "char \<Rightarrow> string \<Rightarrow> string list" where
  "split_on c [] = [[]]"
| "split_on c (x # xs) =
     (if x = c then [] # split_on c xs
      else (case split_on c xs of [] \<Rightarrow> [[x]] | w # ws \<Rightarrow> (x # w) # ws))"

lemma split_last_append: "split_last c s = Some (p, q) \<Longrightarrow> p @ c # q = s"
proof -
  assume s: "split_last c s = Some (p, q)"
  then have c: "c \<in> set (rev s)"
    and p: "p = rev (tl (dropWhile (\<lambda>x. x \<noteq> c) (rev s)))"
    and q: "q = rev (takeWhile (\<lambda>x. x \<noteq> c) (rev s))"
    by (auto simp: split_last_def split: if_splits)
  have ne: "dropWhile (\<lambda>x. x \<noteq> c) (rev s) \<noteq> []" using c by (simp add: dropWhile_eq_Nil_conv)
  have "hd (dropWhile (\<lambda>x. x \<noteq> c) (rev s)) = c" using hd_dropWhile [OF ne] by simp
  then have "dropWhile (\<lambda>x. x \<noteq> c) (rev s) = c # rev p" using ne p by (metis list.collapse rev_rev_ident)
  then have "rev s = rev q @ c # rev p"
    using q takeWhile_dropWhile_id [of "\<lambda>x. x \<noteq> c" "rev s"] by simp
  then have "s = rev (rev q @ c # rev p)" by (metis rev_rev_ident)
  then show ?thesis by simp
qed

lemma split_on_nonempty [simp]: "split_on c s \<noteq> []"
  by (induction s) (auto split: list.splits)

lemma join_Cons: "join sep (w # ws) = (if ws = [] then w else w @ sep @ join sep ws)"
  by (cases ws) simp_all

lemma join_split_on: "join [c] (split_on c s) = s"
  by (induction s) (auto simp: join_Cons split: list.splits)

section \<open>Generic interfaces\<close>

text \<open>
  A component whose operations all keep an invariant: any sequence of operations keeps it.
  Each stateful component interprets this on its own step function.
\<close>

locale inv_machine =
  fixes step :: "'e \<Rightarrow> 's \<Rightarrow> 's" and inv :: "'s \<Rightarrow> bool"
  assumes step_keeps: "inv s \<Longrightarrow> inv (step e s)"
begin

lemma run_keeps: "inv s \<Longrightarrow> inv (fold step es s)"
  by (induction es arbitrary: s) (auto intro: step_keeps)

end

text \<open>The same where only some events can happen; every machine without that condition is one.\<close>

locale guarded_machine =
  fixes step :: "'e \<Rightarrow> 's \<Rightarrow> 's" and ok :: "'e \<Rightarrow> bool" and inv :: "'s \<Rightarrow> bool"
  assumes step_keeps_ok: "inv s \<Longrightarrow> ok e \<Longrightarrow> inv (step e s)"
begin

lemma run_keeps_ok: "inv s \<Longrightarrow> list_all ok es \<Longrightarrow> inv (fold step es s)"
  by (induction es arbitrary: s) (auto intro: step_keeps_ok)

end

sublocale inv_machine \<subseteq> unguarded: guarded_machine step "\<lambda>_. True" inv
  by unfold_locales (rule step_keeps)

text \<open>A partial decoder that inverts an encoder on the valid values, of a fixed width.\<close>

locale fixed_codec =
  fixes enc :: "'a \<Rightarrow> 'b list" and dec :: "'b list \<Rightarrow> 'a option" and width :: nat
  assumes dec_enc_app: "dec (enc x @ rest) = Some x"
    and enc_width: "length (enc x) = width"
begin

lemma dec_enc: "dec (enc x) = Some x"
  using dec_enc_app [of x "[]"] by simp

lemma enc_inject: "enc x = enc y \<Longrightarrow> x = y"
  by (metis dec_enc option.inject)

lemma enc_prefix_free: "enc x @ r = enc y @ r' \<Longrightarrow> x = y \<and> r = r'"
  by (metis append_eq_append_conv dec_enc_app enc_width option.inject)

end

end
