(* ===== verification/Numerics.thy ===== *)
theory Numerics
  imports Prelude
begin

unbundle bit_operations_syntax

text \<open>
  The numeric parts of Go's standard library the code computes with: finite float64 values
  (\<open>math.Floor\<close>, \<open>math.Ceil\<close>, multiplication with rounding, \<open>%.4f\<close>), the 32 bit
  FNV-1a hash of \<open>hash/fnv\<close>, SHA-256 of \<open>crypto/sha256\<close> with \<open>encoding/hex\<close>, and
  \<open>strconv.Atoi\<close>. Each is written to its published definition; they carry no entry of
  the source map. NaN, the infinities and the exponent range of float64 are not modelled.
\<close>

section \<open>Finite float64 values\<close>

text \<open>\<open>F64 m e\<close> is the number \<open>m * 2 ^ e\<close>.\<close>

datatype f64 = F64 (f_mant: int) (f_expo: int)

fun bit_len :: "nat \<Rightarrow> nat" where
  "bit_len n = (if n = 0 then 0 else Suc (bit_len (n div 2)))"

declare bit_len.simps [simp del]

text \<open>Division by a power of two, rounding to nearest, ties to even.\<close>

definition half_even :: "int \<Rightarrow> int \<Rightarrow> int" where
  "half_even n d =
     (let q = n div d; r = n mod d
      in if 2 * r > d \<or> (2 * r = d \<and> odd q) then q + 1 else q)"

text \<open>Rounding to a 53 bit significand.\<close>

definition f64_round :: "int \<Rightarrow> int \<Rightarrow> f64" where
  "f64_round m e =
     (let n = bit_len (nat \<bar>m\<bar>)
      in if n \<le> 53 then F64 m e
         else F64 (sgn m * half_even \<bar>m\<bar> (2 ^ (n - 53))) (e + int (n - 53)))"

definition f64_of_int :: "int \<Rightarrow> f64" where
  "f64_of_int i = f64_round i 0"

definition f64_mul :: "f64 \<Rightarrow> f64 \<Rightarrow> f64" where
  "f64_mul a b = f64_round (f_mant a * f_mant b) (f_expo a + f_expo b)"

definition f64_floor :: "f64 \<Rightarrow> int" where
  "f64_floor x =
     (if f_expo x \<ge> 0 then f_mant x * 2 ^ nat (f_expo x) else f_mant x div 2 ^ nat (- f_expo x))"

definition f64_ceil :: "f64 \<Rightarrow> int" where
  "f64_ceil x = - f64_floor (F64 (- f_mant x) (f_expo x))"

definition f64_less :: "f64 \<Rightarrow> f64 \<Rightarrow> bool" where
  "f64_less a b =
     (let e = min (f_expo a) (f_expo b)
      in f_mant a * 2 ^ nat (f_expo a - e) < f_mant b * 2 ^ nat (f_expo b - e))"

definition f64_le :: "f64 \<Rightarrow> f64 \<Rightarrow> bool" where
  "f64_le a b \<longleftrightarrow> \<not> f64_less b a"

text \<open>\<open>fmt\<close>'s \<open>%.4f\<close>.\<close>

definition fmt_f4 :: "f64 \<Rightarrow> string" where
  "fmt_f4 x =
     (let m = \<bar>f_mant x\<bar> * 10000;
          s = (if f_expo x \<ge> 0 then m * 2 ^ nat (f_expo x) else half_even m (2 ^ nat (- f_expo x)));
          frac = show_nat (nat (s mod 10000))
      in (if f_mant x < 0 then ''-'' else []) @ show_int (s div 10000) @ ''.''
         @ replicate (4 - length frac) (CHR ''0'') @ frac)"

lemma f64_less_zero_iff: "f64_less (F64 0 0) x \<longleftrightarrow> 0 < f_mant x"
  by (auto simp: f64_less_def Let_def zero_less_mult_iff)

lemma f64_mul_zero: "f_mant b = 0 \<Longrightarrow> f64_floor (f64_mul a b) = 0 \<and> f64_ceil (f64_mul a b) = 0"
  by (simp add: f64_mul_def f64_round_def bit_len.simps [of 0] f64_ceil_def f64_floor_def)

section \<open>FNV-1a, 32 bits\<close>

definition fnv1a :: "string \<Rightarrow> 32 word" where
  "fnv1a s = foldl (\<lambda>h c. (h XOR of_nat (of_char c)) * 16777619) 2166136261 s"

lemma fnv1a_examples:
  "fnv1a [] = 2166136261" "fnv1a ''a'' = 3826002220" "fnv1a ''foobar'' = 3214735720"
  by code_simp+

section \<open>SHA-256\<close>

definition sha_k :: "32 word list" where
  "sha_k =
   [1116352408, 1899447441, 3049323471, 3921009573, 961987163, 1508970993,
    2453635748, 2870763221, 3624381080, 310598401, 607225278, 1426881987,
    1925078388, 2162078206, 2614888103, 3248222580, 3835390401, 4022224774,
    264347078, 604807628, 770255983, 1249150122, 1555081692, 1996064986,
    2554220882, 2821834349, 2952996808, 3210313671, 3336571891, 3584528711,
    113926993, 338241895, 666307205, 773529912, 1294757372, 1396182291,
    1695183700, 1986661051, 2177026350, 2456956037, 2730485921, 2820302411,
    3259730800, 3345764771, 3516065817, 3600352804, 4094571909, 275423344,
    430227734, 506948616, 659060556, 883997877, 958139571, 1322822218,
    1537002063, 1747873779, 1955562222, 2024104815, 2227730452, 2361852424,
    2428436474, 2756734187, 3204031479, 3329325298]"

definition sha_init :: "32 word list" where
  "sha_init =
   [1779033703, 3144134277, 1013904242, 2773480762, 1359893119, 2600822924,
    528734635, 1541459225]"

definition be_bytes :: "nat \<Rightarrow> nat \<Rightarrow> 8 word list" where
  "be_bytes n x = map (\<lambda>i. of_nat (x div 256 ^ (n - Suc i))) [0..<n]"

fun be_nat :: "8 word list \<Rightarrow> nat \<Rightarrow> nat" where
  "be_nat [] acc = acc"
| "be_nat (b # bs) acc = be_nat bs (256 * acc + unat b)"

definition sha_pad :: "8 word list \<Rightarrow> 8 word list" where
  "sha_pad bs =
     bs @ [128] @ replicate ((119 - length bs mod 64) mod 64) 0 @ be_bytes 8 (8 * length bs)"

fun sha_chunks :: "nat \<Rightarrow> nat \<Rightarrow> 'a list \<Rightarrow> 'a list list" where
  "sha_chunks 0 n xs = []"
| "sha_chunks (Suc k) n xs = (if xs = [] then [] else take n xs # sha_chunks k n (drop n xs))"

fun sha_expand :: "nat \<Rightarrow> 32 word list \<Rightarrow> 32 word list" where
  "sha_expand 0 ws = ws"
| "sha_expand (Suc k) ws =
     (let t = length ws;
          a = ws ! (t - 15); b = ws ! (t - 2);
          s0 = word_rotr 7 a XOR word_rotr 18 a XOR drop_bit 3 a;
          s1 = word_rotr 17 b XOR word_rotr 19 b XOR drop_bit 10 b
      in sha_expand k (ws @ [ws ! (t - 16) + s0 + ws ! (t - 7) + s1]))"

fun sha_round :: "32 word list \<Rightarrow> 32 word \<times> 32 word \<Rightarrow> 32 word list" where
  "sha_round [a, b, c, d, e, f, g, h] (k, w) =
     (let s1 = word_rotr 6 e XOR word_rotr 11 e XOR word_rotr 25 e;
          ch = (e AND f) XOR (NOT e AND g);
          t1 = h + s1 + ch + k + w;
          s0 = word_rotr 2 a XOR word_rotr 13 a XOR word_rotr 22 a;
          maj = (a AND b) XOR (a AND c) XOR (b AND c)
      in [t1 + s0 + maj, a, b, c, d + t1, e, f, g])"
| "sha_round st _ = st"

definition sha_block :: "32 word list \<Rightarrow> 8 word list \<Rightarrow> 32 word list" where
  "sha_block st blk =
     (let ws = sha_expand 48 (map (\<lambda>b. of_nat (be_nat b 0)) (sha_chunks 16 4 blk))
      in map2 (+) st (foldl sha_round st (zip sha_k ws)))"

definition sha256 :: "string \<Rightarrow> 8 word list" where
  "sha256 s =
     (let p = sha_pad (map (\<lambda>c. of_nat (of_char c)) s)
      in concat (map (\<lambda>w. be_bytes 4 (unat w))
           (foldl sha_block sha_init (sha_chunks (length p) 64 p))))"

definition hex_digit :: "nat \<Rightarrow> char" where
  "hex_digit d = (if d < 10 then char_of (48 + d) else char_of (87 + d))"

definition hex_string :: "8 word list \<Rightarrow> string" where
  "hex_string bs = concat (map (\<lambda>b. [hex_digit (unat b div 16), hex_digit (unat b mod 16)]) bs)"

text \<open>\<open>hex.EncodeToString(sum[:8])\<close> of the SHA-256 sum: both fingerprints of the code.\<close>

definition short_sha :: "string \<Rightarrow> string" where
  "short_sha s = hex_string (take 8 (sha256 s))"

section \<open>strconv.Atoi\<close>

definition is_digit :: "char \<Rightarrow> bool" where
  "is_digit c \<longleftrightarrow> CHR ''0'' \<le> c \<and> c \<le> CHR ''9''"

definition atoi :: "string \<Rightarrow> int option" where
  "atoi s =
     (let (neg, ds) = (case s of [] \<Rightarrow> (False, [])
            | c # cs \<Rightarrow> if c = CHR ''-'' then (True, cs) else if c = CHR ''+'' then (False, cs)
                        else (False, s));
          n = int (undigits10 (map (\<lambda>c. of_char c - 48) ds) 0);
          v = (if neg then - n else n)
      in if ds = [] \<or> \<not> list_all is_digit ds then None
         else if v < min_int64 \<or> v > max_int64 then None else Some v)"

section \<open>More of float64 and integers\<close>

definition f64_add :: "f64 \<Rightarrow> f64 \<Rightarrow> f64" where
  "f64_add a b =
     (let e = min (f_expo a) (f_expo b)
      in f64_round (f_mant a * 2 ^ nat (f_expo a - e) + f_mant b * 2 ^ nat (f_expo b - e)) e)"

text \<open>
  Division: a quotient of at least 54 bits, with a last bit that is set when the division left a
  remainder, rounds to what the exact quotient rounds to. The divisor is not 0 where it is used.
\<close>

definition f64_div :: "f64 \<Rightarrow> f64 \<Rightarrow> f64" where
  "f64_div a b =
     (let k = 55 + bit_len (nat \<bar>f_mant b\<bar>);
          n = \<bar>f_mant a\<bar> * 2 ^ k; d = \<bar>f_mant b\<bar>;
          q = 2 * (n div d) + (if n mod d = 0 then 0 else 1)
      in f64_round (sgn (f_mant a) * sgn (f_mant b) * q) (f_expo a - f_expo b - int k - 1))"

text \<open>The conversion \<open>int(x)\<close> drops the fraction; integer division truncates towards zero.\<close>

definition f64_trunc :: "f64 \<Rightarrow> int" where
  "f64_trunc x = (if f_mant x < 0 then f64_ceil x else f64_floor x)"

definition go_div :: "int \<Rightarrow> int \<Rightarrow> int" where
  "go_div a b = sgn a * sgn b * (\<bar>a\<bar> div \<bar>b\<bar>)"

lemma go_div_nonneg: "0 \<le> a \<Longrightarrow> 0 < b \<Longrightarrow> go_div a b = a div b"
  by (cases "a = 0") (auto simp: go_div_def)

lemma go_div_mono: "0 \<le> a \<Longrightarrow> a \<le> b \<Longrightarrow> 0 < n \<Longrightarrow> go_div a n \<le> go_div b n"
  by (simp add: go_div_nonneg zdiv_mono1)

lemma go_div_between:
  assumes "0 \<le> lo" "0 < n" "lo * n \<le> a" "a \<le> hi * n"
  shows "lo \<le> go_div a n" "go_div a n \<le> hi"
proof -
  have "0 \<le> lo * n" using assms(1,2) by simp
  then have a: "0 \<le> a" using assms(3) by linarith
  have "lo \<le> a div n" "a div n \<le> hi"
    using zdiv_mono1 [OF assms(3,2)] zdiv_mono1 [OF assms(4,2)] assms(2) by simp_all
  with a assms(2) show "lo \<le> go_div a n" "go_div a n \<le> hi" by (simp_all add: go_div_nonneg)
qed

text \<open>Small integers are exact.\<close>

lemma bit_len_bound: "n < 2 ^ k \<Longrightarrow> bit_len n \<le> k"
proof (induction n arbitrary: k rule: bit_len.induct)
  case (1 n)
  show ?case
  proof (cases "n = 0")
    case False
    with "1.prems" obtain j where k: "k = Suc j" by (cases k) auto
    with "1.prems" have "n div 2 < 2 ^ j" by auto
    with "1.IH" False k show ?thesis by (simp add: bit_len.simps [of n])
  qed (simp add: bit_len.simps)
qed

lemma f64_round_small: "\<bar>m\<bar> < 2 ^ 53 \<Longrightarrow> f64_round m e = F64 m e"
proof -
  assume "\<bar>m\<bar> < 2 ^ 53"
  then have "nat \<bar>m\<bar> < 2 ^ 53" by (simp add: nat_less_iff)
  from bit_len_bound [OF this] show ?thesis by (simp add: f64_round_def)
qed

text \<open>Big-endian numbers.\<close>

lemma be_bytes_Suc: "be_bytes (Suc n) x = of_nat (x div 256 ^ n) # be_bytes n x"
  by (simp add: be_bytes_def upt_conv_Cons flip: map_Suc_upt del: upt_Suc)

lemma length_be_bytes [simp]: "length (be_bytes n x) = n"
  by (simp add: be_bytes_def)

lemma be_nat_bytes: "be_nat (be_bytes n x) acc = acc * 256 ^ n + x mod 256 ^ n"
proof (induction n arbitrary: acc)
  case (Suc n)
  have "unat (of_nat (x div 256 ^ n) :: 8 word) = x div 256 ^ n mod 256"
    by (simp add: unat_of_nat)
  moreover have "x mod 256 ^ Suc n = 256 ^ n * (x div 256 ^ n mod 256) + x mod 256 ^ n"
    by (metis mod_mult2_eq mult.commute power_Suc)
  ultimately show ?case by (simp add: be_bytes_Suc Suc.IH algebra_simps)
qed (simp add: be_bytes_def)

section \<open>Doubling delays\<close>

text \<open>The loop of an exponential backoff: doubling until the attempt is reached or the limit passed.\<close>

function backoff_loop :: "int \<Rightarrow> int \<Rightarrow> dur \<Rightarrow> dur \<Rightarrow> dur" where
  "backoff_loop i attempt d hi =
     (if i < attempt \<and> d < hi then backoff_loop (i + 1) attempt (wrap64 (d * 2)) hi else d)"
  by pat_completeness auto

termination by (relation "measure (\<lambda>(i, attempt, _, _). nat (attempt - i))") auto

declare backoff_loop.simps [simp del]

text \<open>A duration, or a default when it is not set.\<close>

definition dur_or :: "dur \<Rightarrow> dur \<Rightarrow> dur" where
  "dur_or d x = (if x \<le> 0 then d else x)"

lemma backoff_loop_pow:
  assumes "0 < d" "hi \<le> 2 ^ 62" "i \<le> attempt"
  shows "min hi (backoff_loop i attempt d hi) = min hi (d * 2 ^ nat (attempt - i)) \<and> 0 < backoff_loop i attempt d hi"
  using assms
proof (induction i attempt d hi rule: backoff_loop.induct)
  case (1 i attempt d hi)
  show ?case
  proof (cases "i < attempt \<and> d < hi")
    case True
    with "1.prems" have w: "wrap64 (d * 2) = d * 2" by (intro wrap64_id) (simp_all add: min_int64_def max_int64_def)
    have "nat (attempt - i) = Suc (nat (attempt - (i + 1)))" using True by linarith
    with True "1.IH" "1.prems" w show ?thesis by (simp add: backoff_loop.simps [of i] mult.assoc mult.commute)
  next
    case False
    have "d * 1 \<le> d * 2 ^ nat (attempt - i)" using "1.prems"(1) by (intro mult_left_mono) simp_all
    then have "hi \<le> d \<longrightarrow> hi \<le> d * 2 ^ nat (attempt - i)" by linarith
    with False "1.prems" show ?thesis by (auto simp: backoff_loop.simps [of i] min_def)
  qed
qed

end
