(* ===== verification/Probe.thy ===== *)
theory Probe
  imports Numerics
begin

text \<open>
  Models \<open>internal/probe/header.go\<close> and \<open>internal/probe/probe.go\<close>: the payload header the
  probers and the responder share, the classification of network errors, and the rolling window
  that turns raw samples into statistics. A byte is an \<^typ>\<open>8 word\<close>; \<open>SendNanos\<close> is the
  \<^typ>\<open>64 word\<close> the wire carries. \<open>time.Now()\<close> is an argument.
\<close>

section \<open>Error classes\<close>

datatype err_class = ErrNone | ErrTimeout | ErrResolve | ErrUnreachable | ErrRefused | ErrPermission | ErrInternal

datatype errno = ECONNREFUSED | EHOSTUNREACH | ENETUNREACH | EPERM | EACCES | OtherErrno

text \<open>
  An error is the chain \<open>errors.Unwrap\<close> gives. Of one link the code reads: is it a
  \<open>*net.DNSError\<close>; is it a \<open>net.Error\<close>, and then what \<open>Timeout()\<close> answers; the errno it is.
\<close>

record err_link =
  el_dns :: bool
  el_net :: "bool option"
  el_errno :: "errno option"

definition err_is :: "err_link list \<Rightarrow> errno \<Rightarrow> bool" where
  "err_is chain no \<longleftrightarrow> (\<exists>l \<in> set chain. el_errno l = Some no)"

text \<open>\<open>errors.As\<close> takes the first link that is a \<open>net.Error\<close>.\<close>

definition net_timeout :: "err_link list \<Rightarrow> bool" where
  "net_timeout chain =
     (case List.find (\<lambda>l. el_net l \<noteq> None) chain of None \<Rightarrow> False | Some l \<Rightarrow> el_net l = Some True)"

definition classify :: "err_link list option \<Rightarrow> err_class" where
  "classify e =
     (case e of None \<Rightarrow> ErrNone
      | Some chain \<Rightarrow>
          if list_ex el_dns chain then ErrResolve
          else if net_timeout chain then ErrTimeout
          else if err_is chain ECONNREFUSED then ErrRefused
          else if err_is chain EHOSTUNREACH \<or> err_is chain ENETUNREACH then ErrUnreachable
          else if err_is chain EPERM \<or> err_is chain EACCES then ErrPermission
          else ErrInternal)"

section \<open>Targets and cycles\<close>

datatype kind = KindICMP | KindUDP | KindTCP

record target =
  ta_host :: string
  ta_address :: string
  ta_port :: int

text \<open>\<open>Addr\<close>, with \<open>net.JoinHostPort\<close>: an address with a colon or a percent sign is bracketed.\<close>

definition target_addr :: "target \<Rightarrow> string" where
  "target_addr t =
     (if CHR '':'' \<in> set (ta_address t) \<or> CHR ''%'' \<in> set (ta_address t)
      then ''['' @ ta_address t @ '']:'' @ show_int (ta_port t)
      else ta_address t @ '':'' @ show_int (ta_port t))"

record probe_params =
  pp_kind :: kind
  pp_count :: int
  pp_interval :: dur
  pp_timeout :: dur
  pp_payload :: int
  pp_port :: int
  pp_mode :: string
  pp_ttl :: int
  pp_df :: bool

record cycle =
  cy_kind :: kind
  cy_target :: target
  cy_started :: time
  cy_sent :: int
  cy_received :: int
  cy_lost :: int
  cy_reordered :: int
  cy_rtt :: "dur list"
  cy_connect :: "dur list"
  cy_err :: "err_link list option"
  cy_class :: err_class

definition cycle_ok :: "cycle \<Rightarrow> bool" where
  "cycle_ok c \<longleftrightarrow> cy_received c > 0"

definition new_cycle :: "kind \<Rightarrow> target \<Rightarrow> time \<Rightarrow> cycle" where
  "new_cycle k t now =
     \<lparr>cy_kind = k, cy_target = t, cy_started = now, cy_sent = 0, cy_received = 0, cy_lost = 0,
      cy_reordered = 0, cy_rtt = [], cy_connect = [], cy_err = None, cy_class = ErrNone\<rparr>"

section \<open>The header\<close>

definition magic :: "8 word list" where
  "magic = [109, 101, 115, 104]"

definition header_size :: nat where "header_size = 16"

record header =
  hd_magic :: "8 word list"
  hd_seq :: "32 word"
  hd_nanos :: "64 word"

datatype header_error =
    PayloadBelowHeader int | BufferBelowPayload int | BufferBelowHeader | PayloadBelowMagic | MagicMismatch

text \<open>The three writes into the first 16 bytes.\<close>

definition header_bytes :: "header \<Rightarrow> 8 word list" where
  "header_bytes h = magic @ be_bytes 4 (unat (hd_seq h)) @ be_bytes 8 (unat (hd_nanos h))"

definition encode_header :: "8 word list \<Rightarrow> header \<Rightarrow> int \<Rightarrow> header_error + 8 word list" where
  "encode_header buf h n =
     (if n < int header_size then Inl (PayloadBelowHeader n)
      else if int (length buf) < n then Inl (BufferBelowPayload n)
      else Inr (header_bytes h @ map of_nat [header_size..<nat n] @ drop (nat n) buf))"

definition encode_header_prefix :: "8 word list \<Rightarrow> header \<Rightarrow> header_error + 8 word list" where
  "encode_header_prefix buf h =
     (if length buf < header_size then Inl BufferBelowHeader
      else Inr (header_bytes h @ drop header_size buf))"

definition decode_header :: "8 word list \<Rightarrow> header_error + header" where
  "decode_header buf =
     (if length buf < header_size then Inl PayloadBelowMagic
      else if take 4 buf \<noteq> magic then Inl MagicMismatch
      else Inr \<lparr>hd_magic = take 4 buf,
                hd_seq = of_nat (be_nat (take 4 (drop 4 buf)) 0),
                hd_nanos = of_nat (be_nat (take 8 (drop 8 buf)) 0)\<rparr>)"

lemma length_magic [simp]: "length magic = 4"
  by (simp add: magic_def)

lemma length_header_bytes [simp]: "length (header_bytes h) = header_size"
  by (simp add: header_bytes_def header_size_def)

lemma be_nat_word32: "of_nat (be_nat (be_bytes 4 (unat (w :: 32 word))) 0) = w"
proof -
  have "unat w < 256 ^ 4" using unsigned_less [of w] by simp
  then show ?thesis by (simp add: be_nat_bytes)
qed

lemma be_nat_word64: "of_nat (be_nat (be_bytes 8 (unat (w :: 64 word))) 0) = w"
proof -
  have "unat w < 256 ^ 8" using unsigned_less [of w] by simp
  then show ?thesis by (simp add: be_nat_bytes)
qed

lemma decode_header_bytes:
  "decode_header (header_bytes h @ rest) = Inr (h\<lparr>hd_magic := magic\<rparr>)"
  by (simp add: decode_header_def header_bytes_def header_size_def be_nat_word32 be_nat_word64)

lemma encode_headerD:
  assumes "encode_header buf h n = Inr out"
  shows "16 \<le> n" "nat n \<le> length buf"
    "out = header_bytes h @ map of_nat [16..<nat n] @ drop (nat n) buf"
  using assms by (auto simp: encode_header_def header_size_def split: if_splits)

text \<open>What the wire carries of a header, as a fixed-width codec.\<close>

definition wire_enc :: "32 word \<times> 64 word \<Rightarrow> 8 word list" where
  "wire_enc v = header_bytes \<lparr>hd_magic = magic, hd_seq = fst v, hd_nanos = snd v\<rparr>"

definition wire_dec :: "8 word list \<Rightarrow> (32 word \<times> 64 word) option" where
  "wire_dec buf = (case decode_header buf of Inl _ \<Rightarrow> None | Inr h \<Rightarrow> Some (hd_seq h, hd_nanos h))"

interpretation wire: fixed_codec wire_enc wire_dec header_size
  by unfold_locales (simp_all add: wire_enc_def wire_dec_def decode_header_bytes)

text \<open>
  C18: the header survives the wire. Encoding into a buffer fails exactly when the payload is
  smaller than a header or the buffer smaller than the payload; otherwise the buffer keeps its
  length, the bytes after the payload are untouched, and decoding the payload gives back the
  sequence number and the timestamp with the magic value. Two headers with one encoding agree on
  both. Rewriting only the header of a payload keeps its length and every byte after the header.
\<close>

theorem header_roundtrip:
  "((\<exists>e. encode_header buf h n = Inl e) \<longleftrightarrow> n < 16 \<or> int (length buf) < n)
   \<and> (encode_header buf h n = Inr out \<longrightarrow>
        length out = length buf \<and> drop (nat n) out = drop (nat n) buf
        \<and> decode_header (take (nat n) out) = Inr (h\<lparr>hd_magic := magic\<rparr>)
        \<and> (encode_header buf g n = Inr out \<longrightarrow> hd_seq g = hd_seq h \<and> hd_nanos g = hd_nanos h))
   \<and> (16 \<le> length buf \<longrightarrow>
        (\<exists>out. encode_header_prefix buf h = Inr out \<and> length out = length buf
          \<and> drop 16 out = drop 16 buf \<and> decode_header out = Inr (h\<lparr>hd_magic := magic\<rparr>)))"
proof (intro conjI impI)
  show "(\<exists>e. encode_header buf h n = Inl e) \<longleftrightarrow> n < 16 \<or> int (length buf) < n"
    by (simp add: encode_header_def header_size_def)
  show "\<exists>out. encode_header_prefix buf h = Inr out \<and> length out = length buf
      \<and> drop 16 out = drop 16 buf \<and> decode_header out = Inr (h\<lparr>hd_magic := magic\<rparr>)" if "16 \<le> length buf"
    using that by (simp add: encode_header_prefix_def header_size_def decode_header_bytes)
  assume e: "encode_header buf h n = Inr out"
  note n = encode_headerD(1,2) [OF e] and out = encode_headerD(3) [OF e]
  have t: "take (nat n) out = header_bytes h @ map of_nat [16..<nat n]"
    using n by (simp add: out header_size_def)
  show "drop (nat n) out = drop (nat n) buf" "length out = length buf"
    using n by (simp_all add: out header_size_def)
  show "decode_header (take (nat n) out) = Inr (h\<lparr>hd_magic := magic\<rparr>)"
    by (simp add: t decode_header_bytes)
  assume "encode_header buf g n = Inr out"
  then have "wire_enc (hd_seq g, hd_nanos g) @ map of_nat [16..<nat n] @ drop (nat n) buf
      = wire_enc (hd_seq h, hd_nanos h) @ map of_nat [16..<nat n] @ drop (nat n) buf"
    using encode_headerD(3) [of buf g n out] out by (simp add: wire_enc_def header_bytes_def)
  from wire.enc_prefix_free [OF this] show "hd_seq g = hd_seq h" "hd_nanos g = hd_nanos h" by simp_all
qed

theorem header_roundtrip_witness:
  "\<exists>out. encode_header (replicate 20 0) \<lparr>hd_magic = [], hd_seq = 7, hd_nanos = 258\<rparr> 18 = Inr out
     \<and> decode_header (take 18 out) = Inr \<lparr>hd_magic = magic, hd_seq = 7, hd_nanos = 258\<rparr>
     \<and> drop 18 out = replicate 2 0"
proof -
  let ?h = "\<lparr>hd_magic = [], hd_seq = 7, hd_nanos = 258\<rparr>" and ?b = "replicate 20 0 :: 8 word list"
  obtain out where out: "encode_header ?b ?h 18 = Inr out"
    by (simp add: encode_header_def header_size_def)
  from header_roundtrip [of ?b ?h 18 out ?h] out show ?thesis by (intro exI [of _ out]) auto
qed

end
