(* ===== verification/Window.thy ===== *)
theory Window
  imports Probe
begin

text \<open>
  Models the rolling window of \<open>internal/probe/probe.go\<close>: samples and counters in the order they
  were added, expiry, and the statistics the exporter publishes. Durations are int64 values and
  their sums wrap around; the counters are \<^typ>\<open>64 word\<close>s. The one loop of \<open>Stats\<close> over the
  samples is a fold for each of its accumulators. The keys of the percentile map are compared as
  they are written. The mutex is not modelled: each operation is one step.
\<close>

section \<open>State and operations\<close>

record wentry =
  en_at :: time
  en_rtt :: dur
  en_connect :: dur
  en_has :: bool

record wcounter =
  ce_at :: time
  ce_sent :: "64 word"
  ce_received :: "64 word"
  ce_lost :: "64 word"
  ce_reordered :: "64 word"
  ce_class :: err_class

record window =
  wn_dur :: dur
  wn_samples :: "wentry list"
  wn_counters :: "wcounter list"
  wn_last_ok :: time

definition new_window :: "dur \<Rightarrow> window" where
  "new_window d =
     \<lparr>wn_dur = (if d \<le> 0 then 60 * second else d), wn_samples = [], wn_counters = [], wn_last_ok = 0\<rparr>"

text \<open>\<open>expire\<close> drops a prefix: it stops at the first entry that is recent enough.\<close>

definition window_expire :: "time \<Rightarrow> window \<Rightarrow> window" where
  "window_expire now w =
     (let cut = tm_add now (- wn_dur w)
      in w\<lparr>wn_samples := dropWhile (\<lambda>e. tm_before (en_at e) cut) (wn_samples w),
           wn_counters := dropWhile (\<lambda>c. tm_before (ce_at c) cut) (wn_counters w)\<rparr>)"

definition cycle_entries :: "time \<Rightarrow> cycle \<Rightarrow> wentry list" where
  "cycle_entries at c =
     map (\<lambda>(i, rtt).
         if i < length (cy_connect c)
         then \<lparr>en_at = at, en_rtt = rtt, en_connect = cy_connect c ! i, en_has = True\<rparr>
         else \<lparr>en_at = at, en_rtt = rtt, en_connect = 0, en_has = False\<rparr>)
       (enumerate 0 (cy_rtt c))"

definition cycle_counter :: "time \<Rightarrow> cycle \<Rightarrow> wcounter" where
  "cycle_counter at c =
     \<lparr>ce_at = at, ce_sent = of_int (cy_sent c), ce_received = of_int (cy_received c),
      ce_lost = of_int (cy_lost c), ce_reordered = of_int (cy_reordered c), ce_class = cy_class c\<rparr>"

definition window_add :: "time \<Rightarrow> cycle \<Rightarrow> window \<Rightarrow> window" where
  "window_add now c w =
     (let at = (if is_zero (cy_started c) then now else cy_started c);
          w1 = w\<lparr>wn_samples := wn_samples w @ cycle_entries at c,
                 wn_counters := wn_counters w @ [cycle_counter at c]\<rparr>;
          w2 = (if cy_received c > 0 then w1\<lparr>wn_last_ok := at\<rparr> else w1)
      in window_expire now w2)"

definition window_reset :: "window \<Rightarrow> window" where
  "window_reset w = w\<lparr>wn_samples := [], wn_counters := [], wn_last_ok := 0\<rparr>"

record pstats =
  pt_samples :: nat
  pt_sent :: "64 word"
  pt_received :: "64 word"
  pt_lost :: "64 word"
  pt_reordered :: "64 word"
  pt_loss_ratio :: f64
  pt_min :: dur
  pt_max :: dur
  pt_mean :: dur
  pt_jitter :: dur
  pt_percentiles :: "(f64, dur) gomap"
  pt_connect_mean :: dur
  pt_last_success :: time
  pt_errors :: "(err_class, 64 word) gomap"

definition quantile :: "dur list \<Rightarrow> f64 \<Rightarrow> dur" where
  "quantile xs q =
     (if xs = [] then 0
      else
        let i = f64_trunc (f64_add (f64_mul q (f64_of_int (int (length xs - 1)))) (F64 1 (-1)));
            i1 = (if i < 0 then 0 else i);
            i2 = (if i1 \<ge> int (length xs) then int (length xs) - 1 else i1)
        in xs ! nat i2)"

definition dur_sum :: "dur list \<Rightarrow> dur" where
  "dur_sum xs = fold (\<lambda>x t. wrap64 (t + x)) xs 0"

definition abs_diff :: "dur \<times> dur \<Rightarrow> dur" where
  "abs_diff p = (let d = wrap64 (snd p - fst p) in if d < 0 then wrap64 (- d) else d)"

definition count_class :: "wcounter \<Rightarrow> (err_class, 64 word) gomap \<Rightarrow> (err_class, 64 word) gomap" where
  "count_class c m =
     (if ce_class c = ErrNone then m
      else AList.update (ce_class c) (case map_of m (ce_class c) of None \<Rightarrow> 1 | Some n \<Rightarrow> n + 1) m)"

definition counter_stats :: "window \<Rightarrow> pstats" where
  "counter_stats w =
     (let sent = fold (\<lambda>c t. t + ce_sent c) (wn_counters w) 0;
          lost = fold (\<lambda>c t. t + ce_lost c) (wn_counters w) 0
      in \<lparr>pt_samples = length (wn_samples w), pt_sent = sent,
          pt_received = fold (\<lambda>c t. t + ce_received c) (wn_counters w) 0, pt_lost = lost,
          pt_reordered = fold (\<lambda>c t. t + ce_reordered c) (wn_counters w) 0,
          pt_loss_ratio =
            (if sent > 0 then f64_div (f64_of_int (uint lost)) (f64_of_int (uint sent)) else F64 0 0),
          pt_min = 0, pt_max = 0, pt_mean = 0, pt_jitter = 0, pt_percentiles = [], pt_connect_mean = 0,
          pt_last_success = wn_last_ok w, pt_errors = fold count_class (wn_counters w) []\<rparr>)"

definition sample_stats :: "f64 list \<Rightarrow> wentry list \<Rightarrow> pstats \<Rightarrow> pstats" where
  "sample_stats percentiles samples st =
     (let rtts = map en_rtt samples;
          n = int (length samples);
          conns = map en_connect (filter en_has samples);
          sorted = sort rtts
      in st\<lparr>pt_min := fold (\<lambda>r m. if r < m then r else m) rtts (hd rtts),
            pt_max := fold (\<lambda>r m. if r > m then r else m) rtts (hd rtts),
            pt_mean := go_div (dur_sum rtts) n,
            pt_jitter := (if n > 1 then go_div (dur_sum (map abs_diff (zip rtts (tl rtts)))) (n - 1) else 0),
            pt_connect_mean := (if conns \<noteq> [] then go_div (dur_sum conns) (int (length conns)) else 0),
            pt_percentiles := fold (\<lambda>q m. AList.update q (quantile sorted q) m) percentiles []\<rparr>)"

definition window_stats :: "time \<Rightarrow> f64 list \<Rightarrow> window \<Rightarrow> pstats \<times> window" where
  "window_stats now percentiles w =
     (let w1 = window_expire now w; st = counter_stats w1
      in (if wn_samples w1 = [] then st else sample_stats percentiles (wn_samples w1) st, w1))"

section \<open>Quantiles\<close>

lemma nat_length_pred: "nat (int (length xs) - 1) = length xs - 1"
  by linarith

lemma quantile_mem: "xs \<noteq> [] \<Longrightarrow> quantile xs q \<in> set xs"
proof -
  assume "xs \<noteq> []"
  then have "0 < int (length xs)" by simp
  then have "nat (if (if i < 0 then 0 else i) \<ge> int (length xs) then int (length xs) - 1 else if i < 0 then 0 else i)
      < length xs" for i by (auto simp: nat_length_pred)
  then show ?thesis using \<open>xs \<noteq> []\<close> by (simp only: quantile_def Let_def if_False nth_mem)
qed

lemma quantile_float:
  assumes "0 \<le> n" "n < 2 ^ 52"
  shows "f64_trunc (f64_add (f64_mul (F64 0 0) (f64_of_int n)) (F64 1 (-1))) = 0"
    and "f64_trunc (f64_add (f64_mul (F64 1 0) (f64_of_int n)) (F64 1 (-1))) = n"
proof -
  have i: "f64_of_int n = F64 n 0" using assms by (simp add: f64_of_int_def f64_round_small)
  have m: "f64_mul (F64 0 0) (F64 n 0) = F64 0 0" "f64_mul (F64 1 0) (F64 n 0) = F64 n 0"
    using assms by (simp_all add: f64_mul_def f64_round_small)
  have "\<bar>n * 2 + 1\<bar> < 2 ^ 53" using assms by simp
  then have a: "f64_add (F64 n 0) (F64 1 (-1)) = F64 (n * 2 + 1) (-1)" "f64_add (F64 0 0) (F64 1 (-1)) = F64 1 (-1)"
    by (simp_all add: f64_add_def f64_round_small)
  show "f64_trunc (f64_add (f64_mul (F64 0 0) (f64_of_int n)) (F64 1 (-1))) = 0"
    "f64_trunc (f64_add (f64_mul (F64 1 0) (f64_of_int n)) (F64 1 (-1))) = n"
    using assms by (simp_all add: i m a f64_trunc_def f64_floor_def)
qed

lemma quantile_ends:
  assumes "xs \<noteq> []" "length xs \<le> 2 ^ 52"
  shows "quantile xs (F64 0 0) = hd xs" and "quantile xs (F64 1 0) = last xs"
proof -
  have n: "0 \<le> int (length xs - 1)" "int (length xs - 1) < 2 ^ 52" using assms by (auto simp: Suc_le_eq)
  note f = quantile_float [OF n]
  show "quantile xs (F64 0 0) = hd xs"
    using assms(1) by (simp only: quantile_def Let_def f) (simp add: hd_conv_nth)
  show "quantile xs (F64 1 0) = last xs"
    using assms(1) by (simp only: quantile_def Let_def f) (simp add: last_conv_nth of_nat_diff Suc_le_eq nat_length_pred)
qed

section \<open>Bounds\<close>

lemma fold_min: "fold (\<lambda>r m. if r < m then r else m) xs (m :: int) = Min (insert m (set xs))"
proof (induction xs arbitrary: m)
  case (Cons x xs)
  have "Min (insert (if x < m then x else m) (set xs)) = Min (insert m (insert x (set xs)))"
    by (cases "set xs = {}") (auto simp: min_def)
  then show ?case by (simp only: fold_simps Cons.IH comp_apply list.set)
qed simp

lemma fold_max: "fold (\<lambda>r m. if r > m then r else m) xs (m :: int) = Max (insert m (set xs))"
proof (induction xs arbitrary: m)
  case (Cons x xs)
  have "Max (insert (if x > m then x else m) (set xs)) = Max (insert m (insert x (set xs)))"
    by (cases "set xs = {}") (auto simp: max_def)
  then show ?case by (simp only: fold_simps Cons.IH comp_apply list.set)
qed simp

text \<open>A sum of bounded durations that cannot overflow is the sum.\<close>

lemma dur_sum_between:
  assumes "\<forall>x \<in> set xs. lo \<le> x \<and> x \<le> hi" "0 \<le> lo" "hi * int (length xs) \<le> max_int64"
  shows "lo * int (length xs) \<le> dur_sum xs \<and> dur_sum xs \<le> hi * int (length xs)"
proof -
  have "lo * (int (length ys) + k) \<le> fold (\<lambda>x t. wrap64 (t + x)) ys t
      \<and> fold (\<lambda>x t. wrap64 (t + x)) ys t \<le> hi * (int (length ys) + k)"
    if "\<forall>x \<in> set ys. lo \<le> x \<and> x \<le> hi" "lo * k \<le> t" "t \<le> hi * k" "0 \<le> k"
      "hi * (int (length ys) + k) \<le> max_int64" for ys k t
    using that
  proof (induction ys arbitrary: k t)
    case (Cons y ys)
    have y: "lo \<le> y" "y \<le> hi" using Cons.prems(1) by auto
    have hi: "0 \<le> hi" using y assms(2) by linarith
    have up: "t + y \<le> hi * (k + 1)" and low: "lo * (k + 1) \<le> t + y"
      using y Cons.prems(2,3) by (simp_all add: algebra_simps)
    have "hi * (k + 1) \<le> hi * (int (length (y # ys)) + k)" using hi by (intro mult_left_mono) auto
    then have "t + y \<le> max_int64" using up Cons.prems(5) by linarith
    moreover have "0 \<le> lo * (k + 1)" using assms(2) Cons.prems(4) by simp
    then have "min_int64 \<le> t + y" using low by (simp add: min_int64_def)
    ultimately have w: "wrap64 (t + y) = t + y" by (intro wrap64_id)
    have len: "int (length (y # ys)) + k = int (length ys) + (k + 1)" by simp
    show ?case
      unfolding fold_simps comp_apply w len
    proof (rule Cons.IH)
      show "hi * (int (length ys) + (k + 1)) \<le> max_int64" using Cons.prems(5) unfolding len .
    qed (use Cons.prems up low in auto)
  qed auto
  from this [of xs 0 0] assms show ?thesis by (simp add: dur_sum_def)
qed

lemma abs_diff_bound:
  assumes "lo \<le> a" "a \<le> hi" "lo \<le> b" "b \<le> hi" "0 \<le> lo" "hi \<le> max_int64"
  shows "0 \<le> abs_diff (a, b) \<and> abs_diff (a, b) \<le> hi - lo"
proof -
  have "wrap64 (b - a) = b - a" "b - a < 0 \<Longrightarrow> wrap64 (- (b - a)) = - (b - a)"
    using assms by (auto intro!: wrap64_id simp: min_int64_def max_int64_def)
  then show ?thesis using assms by (auto simp: abs_diff_def Let_def)
qed

lemma expired_min_max:
  assumes "samples \<noteq> []"
  shows "pt_min (sample_stats qs samples st) = Min (en_rtt ` set samples)"
    "pt_max (sample_stats qs samples st) = Max (en_rtt ` set samples)"
proof -
  have h: "insert (hd (map en_rtt samples)) (set (map en_rtt samples)) = en_rtt ` set samples"
    using assms by (cases samples) auto
  have "pt_min (sample_stats qs samples st)
      = fold (\<lambda>r m. if r < m then r else m) (map en_rtt samples) (hd (map en_rtt samples))"
    "pt_max (sample_stats qs samples st)
      = fold (\<lambda>r m. if r > m then r else m) (map en_rtt samples) (hd (map en_rtt samples))"
    by (simp_all add: sample_stats_def Let_def)
  then show "pt_min (sample_stats qs samples st) = Min (en_rtt ` set samples)"
    "pt_max (sample_stats qs samples st) = Max (en_rtt ` set samples)"
    by (simp_all only: fold_min fold_max h)
qed

lemma sorted_ends:
  assumes "sorted (xs :: int list)" "xs \<noteq> []"
  shows "hd xs = Min (set xs)" "last xs = Max (set xs)"
proof -
  have "\<forall>x \<in> set xs. hd xs \<le> x" using assms by (cases xs) auto
  then show "hd xs = Min (set xs)" using assms(2) by (intro Min_eqI [symmetric]) auto
  have "\<forall>x \<in> set xs. x \<le> last xs"
    using assms by (induction xs) (auto split: if_splits)
  then show "last xs = Max (set xs)" using assms(2) by (intro Max_eqI [symmetric]) auto
qed

lemma percentile_lookup:
  "map_of (fold (\<lambda>q m. AList.update q (f q) m) qs m) q = (if q \<in> set qs then Some (f q) else map_of m q)"
  by (induction qs arbitrary: m) (auto simp: update_conv)

lemma window_stats_samples:
  "wn_samples (window_expire now w) \<noteq> [] \<Longrightarrow>
     fst (window_stats now qs w) = sample_stats qs (wn_samples (window_expire now w)) (counter_stats (window_expire now w))"
  by (simp add: window_stats_def Let_def)

text \<open>
  The published statistics bound each other. When the window has samples and their sum cannot
  overflow, the minimum and the maximum are those of the samples, the mean lies between them, the
  jitter is at most their distance, and every published percentile is one of the samples between
  the minimum and the maximum: the minimum for the quantile 0, the maximum for the quantile 1.
\<close>

theorem stats_bounds:
  assumes s: "samples = wn_samples (window_expire now w)" "samples \<noteq> []"
    and r: "\<forall>e \<in> set samples. 0 \<le> en_rtt e \<and> en_rtt e * int (length samples) \<le> max_int64"
    and st: "st = fst (window_stats now qs w)"
  shows "pt_min st = Min (en_rtt ` set samples) \<and> pt_max st = Max (en_rtt ` set samples)
    \<and> pt_min st \<le> pt_mean st \<and> pt_mean st \<le> pt_max st
    \<and> 0 \<le> pt_jitter st \<and> pt_jitter st \<le> pt_max st - pt_min st
    \<and> (\<forall>q v. map_of (pt_percentiles st) q = Some v \<longrightarrow>
         q \<in> set qs \<and> v \<in> en_rtt ` set samples \<and> pt_min st \<le> v \<and> v \<le> pt_max st
         \<and> (length samples \<le> 2 ^ 52 \<longrightarrow>
              (q = F64 0 0 \<longrightarrow> v = pt_min st) \<and> (q = F64 1 0 \<longrightarrow> v = pt_max st)))"
proof -
  let ?rs = "map en_rtt samples" and ?n = "int (length samples)"
  define lo hi where "lo = Min (en_rtt ` set samples)" and "hi = Max (en_rtt ` set samples)"
  have st: "st = sample_stats qs samples (counter_stats (window_expire now w))"
    using st s window_stats_samples [of now w qs] by simp
  have mm: "pt_min st = lo" "pt_max st = hi" using expired_min_max [OF s(2)] by (simp_all add: st lo_def hi_def)
  have ne: "en_rtt ` set samples \<noteq> {}" "finite (en_rtt ` set samples)" using s(2) by auto
  have btw: "\<forall>x \<in> set ?rs. lo \<le> x \<and> x \<le> hi" using ne by (simp add: lo_def hi_def)
  have lo: "0 \<le> lo" and hi: "hi * ?n \<le> max_int64" "lo \<le> hi"
  proof -
    have "lo \<in> en_rtt ` set samples" "hi \<in> en_rtt ` set samples"
      using ne by (auto simp only: lo_def hi_def intro!: Min_in Max_in)
    then show "0 \<le> lo" "hi * ?n \<le> max_int64" "lo \<le> hi" using r btw by auto
  qed
  have n: "0 < ?n" using s(2) by simp
  have "hi * 1 \<le> hi * ?n" using n lo hi(2) by (intro mult_left_mono) linarith+
  then have him: "hi \<le> max_int64" using hi(1) by simp
  have sum: "lo * ?n \<le> dur_sum ?rs" "dur_sum ?rs \<le> hi * ?n"
    using dur_sum_between [OF btw lo] hi(1) by auto
  have mean: "pt_mean st = go_div (dur_sum ?rs) ?n" by (simp add: st sample_stats_def Let_def)
  have jit: "0 \<le> pt_jitter st \<and> pt_jitter st \<le> hi - lo"
  proof (cases "?n > 1")
    case True
    let ?ds = "map abs_diff (zip ?rs (tl ?rs))"
    have b: "\<forall>d \<in> set ?ds. 0 \<le> d \<and> d \<le> hi - lo"
    proof
      fix d assume "d \<in> set ?ds"
      then obtain a b where d: "d = abs_diff (a, b)" "(a, b) \<in> set (zip ?rs (tl ?rs))" by auto
      from d(2) have a: "a \<in> set ?rs" by (rule set_zip_leftD)
      have "?rs \<noteq> []" using s(2) by simp
      then have b: "b \<in> set ?rs" using set_zip_rightD [OF d(2)] by (rule list.set_sel(2))
      with a btw abs_diff_bound [of lo a hi b] lo him d(1) show "0 \<le> d \<and> d \<le> hi - lo" by auto
    qed
    have len: "int (length ?ds) = ?n - 1" using True by simp
    have "(hi - lo) * (?n - 1) \<le> hi * ?n" using lo hi(2) True by (intro mult_mono) linarith+
    then have "(hi - lo) * int (length ?ds) \<le> max_int64" using hi(1) len by simp
    from dur_sum_between [OF b _ this] have "0 * (?n - 1) \<le> dur_sum ?ds" "dur_sum ?ds \<le> (hi - lo) * (?n - 1)"
      unfolding len by auto
    then have "0 \<le> go_div (dur_sum ?ds) (?n - 1)" "go_div (dur_sum ?ds) (?n - 1) \<le> hi - lo"
      using go_div_between [of 0 "?n - 1" "dur_sum ?ds" "hi - lo"] True by auto
    moreover have "pt_jitter st = go_div (dur_sum ?ds) (?n - 1)"
      using True by (simp add: st sample_stats_def Let_def)
    ultimately show ?thesis by simp
  next
    case False
    then have "pt_jitter st = 0" by (simp add: st sample_stats_def Let_def)
    with hi(2) show ?thesis by simp
  qed
  have pct: "q \<in> set qs \<and> v \<in> en_rtt ` set samples \<and> lo \<le> v \<and> v \<le> hi
      \<and> (length samples \<le> 2 ^ 52 \<longrightarrow> (q = F64 0 0 \<longrightarrow> v = lo) \<and> (q = F64 1 0 \<longrightarrow> v = hi))"
    if "map_of (pt_percentiles st) q = Some v" for q v
  proof -
    have q: "q \<in> set qs" "v = quantile (sort ?rs) q"
      using that by (auto simp: st sample_stats_def Let_def percentile_lookup split: if_splits)
    have "sort ?rs \<noteq> []" using s(2) by (metis length_0_conv length_sort map_is_Nil_conv)
    note sorted = quantile_mem [OF this, of q] quantile_ends [OF this]
    have "v \<in> set ?rs" using q(2) sorted(1) by simp
    moreover have "hd (sort ?rs) = lo" "last (sort ?rs) = hi"
      using sorted_ends [OF sorted_sort \<open>sort ?rs \<noteq> []\<close>] by (simp_all add: lo_def hi_def)
    ultimately show ?thesis using q sorted(2,3) btw by auto
  qed
  show ?thesis
    using go_div_between [OF lo n sum] mm jit pct by (simp add: mean lo_def hi_def)
qed

theorem stats_bounds_witness:
  "\<exists>w. wn_samples (window_expire 100 w) \<noteq> [] \<and> pt_min (fst (window_stats 100 [F64 1 0] w)) = 5
     \<and> 5 \<le> pt_mean (fst (window_stats 100 [F64 1 0] w)) \<and> pt_mean (fst (window_stats 100 [F64 1 0] w)) \<le> 9
     \<and> map_of (pt_percentiles (fst (window_stats 100 [F64 1 0] w))) (F64 1 0) = Some 9"
proof -
  define s :: "wentry list" where "s = map (\<lambda>r. \<lparr>en_at = 90, en_rtt = r, en_connect = 0, en_has = False\<rparr>) [7, 5, 9]"
  define w where "w = \<lparr>wn_dur = 50, wn_samples = s, wn_counters = [], wn_last_ok = 0\<rparr>"
  have e: "s = wn_samples (window_expire 100 w)" by (simp add: w_def s_def window_expire_def Let_def)
  have ne: "s \<noteq> []" and r: "\<forall>e \<in> set s. 0 \<le> en_rtt e \<and> en_rtt e * int (length s) \<le> max_int64"
    by (simp_all add: s_def max_int64_def)
  let ?st = "fst (window_stats 100 [F64 1 0] w)"
  note b = stats_bounds [OF e ne r refl, of "[F64 1 0]"]
  have m: "Min (en_rtt ` set s) = 5" "Max (en_rtt ` set s) = 9" by (simp_all add: s_def)
  have "map_of (pt_percentiles ?st) (F64 1 0) \<noteq> None"
    using e ne window_stats_samples [of 100 w "[F64 1 0]"]
    by (simp add: sample_stats_def Let_def percentile_lookup)
  then obtain v where v: "map_of (pt_percentiles ?st) (F64 1 0) = Some v" by blast
  have "length s \<le> 2 ^ 52" by (simp add: s_def)
  with b v have "v = pt_max ?st" by blast
  with b v m e ne show ?thesis by (intro exI [of _ w]) simp
qed

section \<open>The window as a view of the history\<close>

text \<open>
  The specification: all samples and counters added since the last reset, without expiry, together
  with the time the window was last expired.
\<close>

datatype window_op = WAdd time cycle | WStats time "f64 list" | WReset

fun window_do :: "window_op \<Rightarrow> window \<Rightarrow> window" where
  "window_do (WAdd now c) w = window_add now c w"
| "window_do (WStats now qs) w = snd (window_stats now qs w)"
| "window_do WReset w = window_reset w"

definition cycle_at :: "time \<Rightarrow> cycle \<Rightarrow> time" where
  "cycle_at now c = (if is_zero (cy_started c) then now else cy_started c)"

fun hist_do :: "window_op \<Rightarrow> wentry list \<times> wcounter list \<Rightarrow> wentry list \<times> wcounter list" where
  "hist_do (WAdd now c) h = (fst h @ cycle_entries (cycle_at now c) c, snd h @ [cycle_counter (cycle_at now c) c])"
| "hist_do (WStats now qs) h = h"
| "hist_do WReset h = ([], [])"

text \<open>The clock reads of a run: they do not go back, and no cycle starts before an earlier one or later than it is added.\<close>

fun orderly :: "time \<Rightarrow> time \<Rightarrow> window_op list \<Rightarrow> bool" where
  "orderly clock started [] \<longleftrightarrow> True"
| "orderly clock started (WAdd now c # ops) \<longleftrightarrow>
     clock \<le> now \<and> started \<le> cycle_at now c \<and> orderly now (cycle_at now c) ops"
| "orderly clock started (WStats now qs # ops) \<longleftrightarrow> clock \<le> now \<and> orderly now started ops"
| "orderly clock started (WReset # ops) \<longleftrightarrow> orderly clock started ops"

fun op_clock :: "window_op list \<Rightarrow> time \<Rightarrow> time" where
  "op_clock [] clock = clock"
| "op_clock (WAdd now c # ops) clock = op_clock ops now"
| "op_clock (WStats now qs # ops) clock = op_clock ops now"
| "op_clock (WReset # ops) clock = op_clock ops clock"

text \<open>In a list sorted by time, dropping the expired prefix keeps exactly the recent entries.\<close>

lemma dropWhile_sorted:
  "sorted (map f xs) \<Longrightarrow> dropWhile (\<lambda>x. f x < (t :: int)) xs = filter (\<lambda>x. t \<le> f x) xs"
  by (induction xs) (fastforce simp: not_less intro!: filter_True [symmetric])+

lemma filter_recent:
  "a \<le> (b :: int) \<Longrightarrow> filter (\<lambda>x. b \<le> f x) (filter (\<lambda>x. a \<le> f x) xs) = filter (\<lambda>x. b \<le> f x) xs"
  by (auto simp: filter_filter intro: filter_cong)

lemma sorted_filter_map: "sorted (map f xs) \<Longrightarrow> sorted (map f (filter P xs))"
  by (induction xs) auto

lemma recent_again:
  assumes "sorted (map f (xs @ ys))" "a \<le> (b :: int)"
  shows "dropWhile (\<lambda>x. f x < b) (filter (\<lambda>x. a \<le> f x) xs @ ys) = filter (\<lambda>x. b \<le> f x) (xs @ ys)"
proof -
  have "sorted (map f (filter (\<lambda>x. a \<le> f x) xs @ ys))"
    using assms(1) by (auto simp: sorted_append intro: sorted_filter_map)
  then show ?thesis
    unfolding filter_append filter_recent [OF assms(2), of f xs, symmetric] by (simp add: dropWhile_sorted)
qed

lemma cycle_entries_at: "e \<in> set (cycle_entries at c) \<Longrightarrow> en_at e = at"
  by (auto simp: cycle_entries_def split: if_splits)

lemma sorted_at_entries: "sorted (map en_at (cycle_entries at c))"
proof -
  have "map en_at (cycle_entries at c) = replicate (length (cycle_entries at c)) at"
    using map_replicate_const [of at "cycle_entries at c"] by (metis (no_types, lifting) cycle_entries_at map_cong)
  then show ?thesis by simp
qed

text \<open>What links a window to the history it shows.\<close>

definition views :: "dur \<Rightarrow> time \<Rightarrow> wentry list \<times> wcounter list \<Rightarrow> window \<Rightarrow> bool" where
  "views d clock h w \<longleftrightarrow> wn_dur w = d
     \<and> wn_samples w = filter (\<lambda>e. clock - d \<le> en_at e) (fst h)
     \<and> wn_counters w = filter (\<lambda>c. clock - d \<le> ce_at c) (snd h)"

definition hist_sorted :: "time \<Rightarrow> wentry list \<times> wcounter list \<Rightarrow> bool" where
  "hist_sorted started h \<longleftrightarrow> sorted (map en_at (fst h)) \<and> sorted (map ce_at (snd h))
     \<and> (\<forall>e \<in> set (fst h). en_at e \<le> started) \<and> (\<forall>c \<in> set (snd h). ce_at c \<le> started)"

lemma hist_sorted_add:
  "hist_sorted started h \<Longrightarrow> started \<le> cycle_at now c \<Longrightarrow> hist_sorted (cycle_at now c) (hist_do (WAdd now c) h)"
  using sorted_at_entries [of "cycle_at now c" c]
  by (fastforce simp: hist_sorted_def sorted_append cycle_counter_def dest: cycle_entries_at)

lemma expire_views:
  assumes "wn_dur w = d" "wn_samples w = filter (\<lambda>e. clock - d \<le> en_at e) xs @ ys"
    "wn_counters w = filter (\<lambda>c. clock - d \<le> ce_at c) us @ vs"
    and "hist_sorted started (xs @ ys, us @ vs)" "clock \<le> now"
  shows "views d now (xs @ ys, us @ vs) (window_expire now w)"
  using assms recent_again [of en_at xs ys "clock - d" "now - d"] recent_again [of ce_at us vs "clock - d" "now - d"]
  by (simp add: views_def hist_sorted_def window_expire_def Let_def)

lemma add_views:
  assumes "views d clock h w" "hist_sorted started h" "clock \<le> now" "started \<le> cycle_at now c"
  shows "views d now (hist_do (WAdd now c) h) (window_add now c w)"
proof -
  let ?at = "cycle_at now c"
  have srt: "hist_sorted ?at (fst h @ cycle_entries ?at c, snd h @ [cycle_counter ?at c])"
    using hist_sorted_add [OF assms(2,4)] by simp
  show ?thesis
    unfolding hist_do.simps window_add_def Let_def cycle_at_def [symmetric]
    using assms(1) by (intro expire_views [OF _ _ _ srt assms(3)]) (auto simp: views_def)
qed

lemma stats_views:
  assumes "views d clock h w" "hist_sorted started h" "clock \<le> now"
  shows "views d now h (window_expire now w)"
  using expire_views [of w d clock "fst h" "[]" "snd h" "[]" started now] assms by (simp add: views_def)

lemma run_views:
  assumes "orderly clock started ops" "views d clock h w" "hist_sorted started h"
  shows "views d (op_clock ops clock) (fold hist_do ops h) (fold window_do ops w)
    \<and> (\<exists>s. hist_sorted s (fold hist_do ops h))"
  using assms
proof (induction ops arbitrary: clock started h w)
  case (Cons op ops)
  show ?case
  proof (cases op)
    case (WAdd now c)
    with Cons.prems show ?thesis
      using Cons.IH [OF _ add_views hist_sorted_add] by (simp del: hist_do.simps)
  next
    case (WStats now qs)
    with Cons.prems(1) have now: "clock \<le> now" "orderly now started ops" by simp_all
    from Cons.IH [OF now(2) stats_views [OF Cons.prems(2,3) now(1)] Cons.prems(3)] WStats show ?thesis
      by (simp add: window_stats_def Let_def)
  next
    case WReset
    have "views d clock ([], []) (window_reset w)" "hist_sorted started ([], [])"
      using Cons.prems(2) by (simp_all add: views_def hist_sorted_def window_reset_def)
    with Cons.prems(1) WReset show ?thesis using Cons.IH [of clock started "([], [])" "window_reset w"] by simp
  qed
qed auto

lemma fold_counter_sum:
  "fold (\<lambda>c t. t + f c) cs (t0 :: 64 word) = t0 + sum_list (map f cs)"
  by (induction cs arbitrary: t0) (simp_all add: algebra_simps)

text \<open>
  C13: the window refines the unbounded history. Whatever cycles were added, whenever statistics were
  read and wherever it was reset, as long as the clock does not go back, the statistics read at
  \<open>now\<close> count exactly the samples and the packets of the cycles since the last reset that are not
  older than the duration; the reader sees nothing of what came before the reset or expired, and
  the window's own storage never holds more than that.
\<close>

theorem window_history:
  assumes "orderly clock clock ops" "op_clock ops clock \<le> now" "0 < d"
    and "fold hist_do ops ([], []) = (entries, counters)"
    and "window_stats now qs (fold window_do ops (new_window d)) = (st, w)"
  shows "wn_samples w = filter (\<lambda>e. now - d \<le> en_at e) entries
    \<and> pt_samples st = length (filter (\<lambda>e. now - d \<le> en_at e) entries)
    \<and> pt_sent st = (\<Sum>c\<leftarrow>filter (\<lambda>c. now - d \<le> ce_at c) counters. ce_sent c)
    \<and> pt_received st = (\<Sum>c\<leftarrow>filter (\<lambda>c. now - d \<le> ce_at c) counters. ce_received c)
    \<and> pt_lost st = (\<Sum>c\<leftarrow>filter (\<lambda>c. now - d \<le> ce_at c) counters. ce_lost c)
    \<and> ((\<forall>c \<in> set counters. ce_sent c = ce_received c + ce_lost c) \<longrightarrow> pt_sent st = pt_received st + pt_lost st)"
proof -
  have 1: "views d clock ([], []) (new_window d)" "hist_sorted clock ([], [])"
    using assms(3) by (simp_all add: views_def hist_sorted_def new_window_def)
  from run_views [OF assms(1) this] obtain s
    where v: "views d (op_clock ops clock) (entries, counters) (fold window_do ops (new_window d))"
      and s: "hist_sorted s (entries, counters)" unfolding assms(4) by auto
  have w: "w = window_expire now (fold window_do ops (new_window d))"
    using assms(5) by (simp add: window_stats_def Let_def)
  from stats_views [OF v s assms(2)]
  have view: "wn_samples w = filter (\<lambda>e. now - d \<le> en_at e) entries"
    "wn_counters w = filter (\<lambda>c. now - d \<le> ce_at c) counters" unfolding w by (simp_all add: views_def)
  have st: "st = (if wn_samples w = [] then counter_stats w else sample_stats qs (wn_samples w) (counter_stats w))"
    using arg_cong [OF assms(5), of fst] by (simp add: window_stats_def Let_def w split: if_splits)
  have "pt_samples st = length (wn_samples w)" "pt_sent st = (\<Sum>c\<leftarrow>wn_counters w. ce_sent c)"
    "pt_received st = (\<Sum>c\<leftarrow>wn_counters w. ce_received c)" "pt_lost st = (\<Sum>c\<leftarrow>wn_counters w. ce_lost c)"
    by (simp_all add: st counter_stats_def sample_stats_def Let_def fold_counter_sum)
  moreover have "(\<Sum>c\<leftarrow>cs. ce_sent c) = (\<Sum>c\<leftarrow>cs. ce_received c) + (\<Sum>c\<leftarrow>cs. ce_lost c)"
    if "\<forall>c \<in> set cs. ce_sent c = ce_received c + ce_lost c" for cs using that by (induction cs) auto
  from this [of "wn_counters w"] have
    "(\<forall>c \<in> set counters. ce_sent c = ce_received c + ce_lost c) \<longrightarrow>
      (\<Sum>c\<leftarrow>wn_counters w. ce_sent c) = (\<Sum>c\<leftarrow>wn_counters w. ce_received c) + (\<Sum>c\<leftarrow>wn_counters w. ce_lost c)"
    by (simp add: view)
  ultimately show ?thesis by (simp add: view)
qed

theorem window_history_witness:
  "\<exists>st w. window_stats 130 [] (fold window_do
        [WAdd 20 (new_cycle KindUDP (target.make [] [] 0) 15), WReset,
         WAdd 60 (new_cycle KindUDP (target.make [] [] 0) 50\<lparr>cy_sent := 2, cy_received := 1, cy_lost := 1, cy_rtt := [7]\<rparr>),
         WStats 70 [], WAdd 120 (new_cycle KindUDP (target.make [] [] 0) 110\<lparr>cy_sent := 3, cy_lost := 3\<rparr>)]
        (new_window 40)) = (st, w)
      \<and> pt_samples st = 0 \<and> pt_sent st = 3 \<and> pt_lost st = 3"
proof -
  define a where "a = new_cycle KindUDP (target.make [] [] 0) 15"
  define b where "b = new_cycle KindUDP (target.make [] [] 0) 50\<lparr>cy_sent := 2, cy_received := 1, cy_lost := 1, cy_rtt := [7]\<rparr>"
  define c where "c = new_cycle KindUDP (target.make [] [] 0) 110\<lparr>cy_sent := 3, cy_lost := 3\<rparr>"
  let ?ops = "[WAdd 20 a, WReset, WAdd 60 b, WStats 70 [], WAdd 120 c]"
  have o: "orderly 0 0 ?ops" "op_clock ?ops 0 \<le> 130"
    by (simp_all add: a_def b_def c_def cycle_at_def new_cycle_def)
  obtain st w where r: "window_stats 130 [] (fold window_do ?ops (new_window 40)) = (st, w)" by fastforce
  from window_history [OF o _ surjective_pairing r] show ?thesis
    using r unfolding a_def b_def c_def
    by (intro exI [of _ st] exI [of _ w])
      (simp add: cycle_entries_def cycle_counter_def cycle_at_def new_cycle_def del: window_do.simps)
qed

end
