(* ===== verification/Probers.thy ===== *)
theory Probers
  imports Window
begin

text \<open>
  Models the UDP and TCP probers (\<open>internal/probe/udp/udp.go\<close>, \<open>internal/probe/tcp/tcp.go\<close>). What a
  run sees of the outside is an argument: the clock reads, the errors of the socket calls and the
  datagrams or bytes read, one record for each pass of a loop. A pause between two packets shows
  only in the clock reads. A read loop consumes a list of read results and is \<open>None\<close>, still
  waiting, when the list ends before the loop does. Packet counts are those of a validated
  configuration, not negative.
\<close>

type_synonym err = "err_link list"

text \<open>An error made by \<open>fmt.Errorf\<close> or \<open>errors.New\<close>.\<close>

definition plain_err :: err where
  "plain_err = [\<lparr>el_dns = False, el_net = None, el_errno = None\<rparr>]"

text \<open>The first error of a cycle is the one it reports.\<close>

definition note_err :: "err \<Rightarrow> cycle \<Rightarrow> cycle" where
  "note_err e c = (if cy_err c = None then c\<lparr>cy_err := Some e, cy_class := classify (Some e)\<rparr> else c)"

definition payload_size :: "probe_params \<Rightarrow> int" where
  "payload_size pr = (if pp_payload pr < int header_size then int header_size else pp_payload pr)"

section \<open>What every prober promises\<close>

text \<open>
  The contract of \<open>Prober\<close> the window and the runner rely on, over the cycles a prober can return:
  a cycle names its kind and its target, every packet sent is received or lost, and there is one
  sample for each packet received.
\<close>

locale prober =
  fixes returns :: "target \<Rightarrow> probe_params \<Rightarrow> cycle \<Rightarrow> bool" and own :: kind
  assumes returns_kind: "returns t pr c \<Longrightarrow> cy_kind c = own"
    and returns_target: "returns t pr c \<Longrightarrow> cy_target c = t"
    and returns_counts: "returns t pr c \<Longrightarrow> cy_sent c = cy_received c + cy_lost c
        \<and> 0 \<le> cy_received c \<and> 0 \<le> cy_lost c \<and> cy_received c = int (length (cy_rtt c))"
begin

lemma returns_ok: "returns t pr c \<Longrightarrow> cycle_ok c \<longleftrightarrow> cy_rtt c \<noteq> []"
  using returns_counts [of t pr c] by (auto simp: cycle_ok_def)

lemma counter_conserved:
  "returns t pr c \<Longrightarrow> ce_sent (cycle_counter at c) = ce_received (cycle_counter at c) + ce_lost (cycle_counter at c)"
  using returns_counts [of t pr c] by (simp add: cycle_counter_def)

lemma entries_received: "returns t pr c \<Longrightarrow> int (length (cycle_entries at c)) = cy_received c"
  using returns_counts [of t pr c] by (simp add: cycle_entries_def)

end

section \<open>UDP\<close>

record packet_env =
  pk_cancelled :: bool
  pk_nanos :: "64 word"
  pk_at :: time
  pk_write :: "err option"

text \<open>One pass of the read loop: \<open>SetReadDeadline\<close> fails, the read fails, or a datagram comes.\<close>

datatype read_event = DeadlineFailed err | ReadFailed err | Datagram "8 word list" time

record udp_env =
  ue_started :: time
  ue_dial :: "err option"
  ue_packet :: "nat \<Rightarrow> packet_env"
  ue_reads :: "read_event list"

definition udp_send :: "packet_env \<Rightarrow> 32 word \<Rightarrow> int \<Rightarrow> err + 8 word list \<times> time" where
  "udp_send env seq n =
     (case encode_header (replicate (nat n) 0) \<lparr>hd_magic = [], hd_seq = seq, hd_nanos = pk_nanos env\<rparr> n of
        Inl _ \<Rightarrow> Inl plain_err
      | Inr buf \<Rightarrow> (case pk_write env of Some e \<Rightarrow> Inl e | None \<Rightarrow> Inr (buf, pk_at env)))"

text \<open>The send loop: the cycle, the map and the order it fills, and the datagrams it wrote.\<close>

record udp_burst =
  ub_cycle :: cycle
  ub_sent :: "(32 word, time) gomap"
  ub_order :: "32 word list"
  ub_wire :: "8 word list list"

fun udp_burst_loop :: "(nat \<Rightarrow> packet_env) \<Rightarrow> int \<Rightarrow> nat list \<Rightarrow> udp_burst \<Rightarrow> udp_burst" where
  "udp_burst_loop env n [] b = b"
| "udp_burst_loop env n (i # is) b =
     (if pk_cancelled (env i) then b
      else let seq = of_nat (i + 1)
           in case udp_send (env i) seq n of
                Inl e \<Rightarrow> udp_burst_loop env n is (b\<lparr>ub_cycle := note_err e (ub_cycle b)\<rparr>)
              | Inr (buf, at) \<Rightarrow>
                  udp_burst_loop env n is
                    (b\<lparr>ub_cycle := (ub_cycle b)\<lparr>cy_sent := cy_sent (ub_cycle b) + 1\<rparr>,
                       ub_sent := AList.update seq at (ub_sent b),
                       ub_order := ub_order b @ [seq],
                       ub_wire := ub_wire b @ [buf]\<rparr>))"

record udp_replies =
  ur_out :: "(32 word, dur) gomap"
  ur_reordered :: int
  ur_highest :: "32 word"

definition udp_accept :: "(32 word, time) gomap \<Rightarrow> 8 word list \<Rightarrow> time \<Rightarrow> udp_replies \<Rightarrow> udp_replies" where
  "udp_accept sent buf now r =
     (case decode_header buf of
        Inl _ \<Rightarrow> r
      | Inr h \<Rightarrow>
          (case map_of sent (hd_seq h) of
             None \<Rightarrow> r
           | Some at \<Rightarrow>
               if map_of (ur_out r) (hd_seq h) \<noteq> None then r
               else let r1 = r\<lparr>ur_out := AList.update (hd_seq h) (tm_sub now at) (ur_out r)\<rparr>
                    in if hd_seq h < ur_highest r then r1\<lparr>ur_reordered := ur_reordered r + 1\<rparr>
                       else r1\<lparr>ur_highest := hd_seq h\<rparr>))"

fun udp_receive ::
  "(32 word, time) gomap \<Rightarrow> read_event list \<Rightarrow> udp_replies \<Rightarrow> (udp_replies \<times> err option) option" where
  "udp_receive sent evs r =
     (if length (ur_out r) \<ge> length sent then Some (r, None)
      else case evs of
             [] \<Rightarrow> None
           | DeadlineFailed e # _ \<Rightarrow> Some (r, Some e)
           | ReadFailed e # _ \<Rightarrow> Some (r, if net_timeout e then None else Some e)
           | Datagram buf now # evs' \<Rightarrow> udp_receive sent evs' (udp_accept sent buf now r))"

declare udp_receive.simps [simp del]

lemmas receive_steps =
  udp_receive.simps [of sent "[]" r for sent r] udp_receive.simps [of sent "DeadlineFailed e # evs" r for sent e evs r]
  udp_receive.simps [of sent "ReadFailed e # evs" r for sent e evs r]
  udp_receive.simps [of sent "Datagram buf now # evs" r for sent buf now evs r]

text \<open>The samples in the order the packets were sent.\<close>

definition udp_collect :: "32 word list \<Rightarrow> (32 word, dur) gomap \<Rightarrow> cycle \<Rightarrow> cycle" where
  "udp_collect order rtts c =
     fold (\<lambda>seq c. case map_of rtts seq of
             Some d \<Rightarrow> c\<lparr>cy_rtt := cy_rtt c @ [d], cy_received := cy_received c + 1\<rparr>
           | None \<Rightarrow> c\<lparr>cy_lost := cy_lost c + 1\<rparr>) order c"

definition udp_no_replies :: udp_replies where
  "udp_no_replies = \<lparr>ur_out = [], ur_reordered = 0, ur_highest = 0\<rparr>"

definition udp_burst :: "udp_env \<Rightarrow> target \<Rightarrow> probe_params \<Rightarrow> udp_burst" where
  "udp_burst env t pr =
     udp_burst_loop (ue_packet env) (payload_size pr) [0..<nat (pp_count pr)]
       \<lparr>ub_cycle = new_cycle KindUDP t (ue_started env), ub_sent = [], ub_order = [], ub_wire = []\<rparr>"

definition udp_probe :: "udp_env \<Rightarrow> target \<Rightarrow> probe_params \<Rightarrow> cycle option" where
  "udp_probe env t pr =
     (case ue_dial env of
        Some e \<Rightarrow> Some (note_err e (new_cycle KindUDP t (ue_started env)))
      | None \<Rightarrow>
          let b = udp_burst env t pr
          in if cy_sent (ub_cycle b) = 0 then Some (ub_cycle b)
             else case udp_receive (ub_sent b) (ue_reads env) udp_no_replies of
                    None \<Rightarrow> None
                  | Some (r, failed) \<Rightarrow>
                      let c = (case failed of None \<Rightarrow> ub_cycle b | Some e \<Rightarrow> note_err e (ub_cycle b))
                      in Some ((udp_collect (ub_order b) (ur_out r) c)\<lparr>cy_reordered := ur_reordered r\<rparr>))"

section \<open>TCP\<close>

record dial_env =
  de_cancelled :: bool
  de_start :: time
  de_dial :: "err option"
  de_connected :: time
  de_deadline :: "err option"
  de_nanos :: "64 word"
  de_send_at :: time
  de_write :: "err option"
  de_reply :: "err + 8 word list"
  de_reply_at :: time

definition connect_once :: "dial_env \<Rightarrow> err + dur" where
  "connect_once env =
     (case de_dial env of Some e \<Rightarrow> Inl e | None \<Rightarrow> Inr (tm_sub (de_connected env) (de_start env)))"

text \<open>The times the Go function returns beside an error are not used by its caller.\<close>

definition echo_once :: "dial_env \<Rightarrow> probe_params \<Rightarrow> err + dur \<times> dur" where
  "echo_once env pr =
     (case de_dial env of
        Some e \<Rightarrow> Inl e
      | None \<Rightarrow>
          let connect = tm_sub (de_connected env) (de_start env); n = payload_size pr
          in case de_deadline env of
               Some e \<Rightarrow> Inl e
             | None \<Rightarrow>
                 (case encode_header (replicate (nat n) 0)
                         \<lparr>hd_magic = [], hd_seq = 1, hd_nanos = de_nanos env\<rparr> n of
                    Inl _ \<Rightarrow> Inl plain_err
                  | Inr buf \<Rightarrow>
                      (case de_write env of
                         Some e \<Rightarrow> Inl e
                       | None \<Rightarrow>
                           (case de_reply env of
                              Inl e \<Rightarrow> Inl e
                            | Inr reply \<Rightarrow>
                                (case decode_header reply of
                                   Inl _ \<Rightarrow> Inl plain_err
                                 | Inr _ \<Rightarrow> Inr (connect, tm_sub (de_reply_at env) (de_send_at env)))))))"

definition tcp_once :: "dial_env \<Rightarrow> probe_params \<Rightarrow> err + dur \<times> dur" where
  "tcp_once env pr =
     (if pp_mode pr = ''echo'' then echo_once env pr
      else case connect_once env of Inl e \<Rightarrow> Inl e | Inr d \<Rightarrow> Inr (d, d))"

fun tcp_loop :: "(nat \<Rightarrow> dial_env) \<Rightarrow> probe_params \<Rightarrow> nat list \<Rightarrow> cycle \<Rightarrow> cycle" where
  "tcp_loop env pr [] c = c"
| "tcp_loop env pr (i # is) c =
     (if de_cancelled (env i) then c
      else let c1 = c\<lparr>cy_sent := cy_sent c + 1\<rparr>
           in tcp_loop env pr is
                (case tcp_once (env i) pr of
                   Inl e \<Rightarrow> note_err e (c1\<lparr>cy_lost := cy_lost c1 + 1\<rparr>)
                 | Inr (connect, rtt) \<Rightarrow>
                     c1\<lparr>cy_received := cy_received c1 + 1, cy_rtt := cy_rtt c1 @ [rtt],
                        cy_connect := cy_connect c1 @ [connect]\<rparr>))"

definition tcp_probe :: "time \<Rightarrow> (nat \<Rightarrow> dial_env) \<Rightarrow> target \<Rightarrow> probe_params \<Rightarrow> cycle" where
  "tcp_probe started env t pr =
     tcp_loop env pr [0..<nat (pp_count pr)] (new_cycle KindTCP t started)"

section \<open>Counting\<close>

lemma note_err_simps [simp]:
  "cy_kind (note_err e c) = cy_kind c" "cy_target (note_err e c) = cy_target c"
  "cy_sent (note_err e c) = cy_sent c" "cy_received (note_err e c) = cy_received c"
  "cy_lost (note_err e c) = cy_lost c" "cy_rtt (note_err e c) = cy_rtt c"
  "cy_started (note_err e c) = cy_started c" "cy_reordered (note_err e c) = cy_reordered c" "cy_connect (note_err e c) = cy_connect c"
  by (simp_all add: note_err_def)

lemma new_cycle_simps [simp]:
  "cy_kind (new_cycle k t s) = k" "cy_target (new_cycle k t s) = t" "cy_sent (new_cycle k t s) = 0"
  "cy_received (new_cycle k t s) = 0" "cy_lost (new_cycle k t s) = 0" "cy_rtt (new_cycle k t s) = []"
  "cy_started (new_cycle k t s) = s" "cy_reordered (new_cycle k t s) = 0" "cy_connect (new_cycle k t s) = []"
  by (simp_all add: new_cycle_def)

text \<open>What the send loop keeps: nothing is received yet, and the map, the order and the count agree.\<close>

definition carries :: "8 word list \<Rightarrow> 32 word \<Rightarrow> bool" where
  "carries buf q \<longleftrightarrow> (\<exists>h. decode_header buf = Inr h \<and> hd_seq h = q)"

definition burst_inv :: "target \<Rightarrow> time \<Rightarrow> udp_burst \<Rightarrow> bool" where
  "burst_inv t s b \<longleftrightarrow> cy_kind (ub_cycle b) = KindUDP \<and> cy_target (ub_cycle b) = t
     \<and> cy_started (ub_cycle b) = s
     \<and> cy_sent (ub_cycle b) = int (length (ub_order b)) \<and> cy_received (ub_cycle b) = 0
     \<and> cy_lost (ub_cycle b) = 0 \<and> cy_reordered (ub_cycle b) = 0 \<and> cy_rtt (ub_cycle b) = []
     \<and> gm_wf (ub_sent b) \<and> fst ` set (ub_sent b) = set (ub_order b)
     \<and> list_all2 carries (ub_wire b) (ub_order b)"

lemma carries_length: "list_all2 carries bs qs \<Longrightarrow> length bs = length qs"
  by (rule list_all2_lengthD)

lemma udp_send_carries: "udp_send p seq n = Inr (buf, at) \<Longrightarrow> carries buf seq"
  by (auto simp: udp_send_def carries_def encode_header_def decode_header_bytes split: option.splits if_splits)

lemma burst_step_inv:
  "burst_inv t s b \<Longrightarrow> burst_inv t s (b\<lparr>ub_cycle := note_err e (ub_cycle b)\<rparr>)"
  "burst_inv t s b \<Longrightarrow> carries buf seq \<Longrightarrow> burst_inv t s (b\<lparr>ub_cycle := (ub_cycle b)\<lparr>cy_sent := cy_sent (ub_cycle b) + 1\<rparr>,
     ub_sent := AList.update seq at (ub_sent b), ub_order := ub_order b @ [seq], ub_wire := ub_wire b @ [buf]\<rparr>)"
  by (auto simp: burst_inv_def gm_wf_def distinct_update dom_update list_all2_appendI)

lemma burst_loop_inv: "burst_inv t s b \<Longrightarrow> burst_inv t s (udp_burst_loop env n is b)"
proof (induction env n "is" b rule: udp_burst_loop.induct)
  case (2 env n i "is" b)
  show ?case
  proof (cases "pk_cancelled (env i)")
    case False
    show ?thesis
    proof (cases "udp_send (env i) (of_nat (i + 1)) n")
      case (Inl e)
      with False 2 show ?thesis by (simp add: burst_step_inv Let_def)
    next
      case (Inr p)
      with False 2 show ?thesis
        using udp_send_carries by (cases p) (fastforce simp: Let_def intro: burst_step_inv)
    qed
  qed (use 2 in simp)
qed simp

lemma udp_burst_inv: "burst_inv t (ue_started env) (udp_burst env t pr)"
  unfolding udp_burst_def by (rule burst_loop_inv) (simp add: burst_inv_def gm_wf_def)

lemma collect_fields:
  "cy_rtt (udp_collect order rtts c) = cy_rtt c @ List.map_filter (map_of rtts) order"
  "cy_received (udp_collect order rtts c) = cy_received c + int (length (List.map_filter (map_of rtts) order))"
  "cy_lost (udp_collect order rtts c)
     = cy_lost c + (int (length order) - int (length (List.map_filter (map_of rtts) order)))"
  "cy_sent (udp_collect order rtts c) = cy_sent c" "cy_kind (udp_collect order rtts c) = cy_kind c"
  "cy_target (udp_collect order rtts c) = cy_target c" "cy_started (udp_collect order rtts c) = cy_started c"
  unfolding udp_collect_def
  by (induction order arbitrary: c) (simp_all add: map_filter_simps split: option.splits)

lemma map_filter_length: "length (List.map_filter f xs) \<le> length xs"
  by (induction xs) (simp_all add: map_filter_simps split: option.splits)

text \<open>A returned cycle, stage by stage.\<close>

lemma udp_probe_cases:
  assumes "udp_probe env t pr = Some c"
  obtains (dial) e where "ue_dial env = Some e" "c = note_err e (new_cycle KindUDP t (ue_started env))"
  | (unsent) "ue_dial env = None" "cy_sent (ub_cycle (udp_burst env t pr)) = 0" "c = ub_cycle (udp_burst env t pr)"
  | (received) r failed where "ue_dial env = None" "cy_sent (ub_cycle (udp_burst env t pr)) \<noteq> 0"
      "udp_receive (ub_sent (udp_burst env t pr)) (ue_reads env) udp_no_replies = Some (r, failed)"
      "c = (udp_collect (ub_order (udp_burst env t pr)) (ur_out r)
             (case failed of None \<Rightarrow> ub_cycle (udp_burst env t pr)
              | Some e \<Rightarrow> note_err e (ub_cycle (udp_burst env t pr))))\<lparr>cy_reordered := ur_reordered r\<rparr>"
  using assms by (fastforce simp: udp_probe_def Let_def split: option.splits if_splits)

lemma burst_err_inv:
  "burst_inv t s b \<Longrightarrow> burst_inv t s (b\<lparr>ub_cycle := (case failed of None \<Rightarrow> ub_cycle b | Some e \<Rightarrow> note_err e (ub_cycle b))\<rparr>)"
  by (cases failed) (simp_all add: burst_step_inv)

definition udp_returns :: "target \<Rightarrow> probe_params \<Rightarrow> cycle \<Rightarrow> bool" where
  "udp_returns t pr c \<longleftrightarrow> (\<exists>env. udp_probe env t pr = Some c)"

definition tcp_returns :: "target \<Rightarrow> probe_params \<Rightarrow> cycle \<Rightarrow> bool" where
  "tcp_returns t pr c \<longleftrightarrow> (\<exists>started env. tcp_probe started env t pr = c)"

definition counted :: "kind \<Rightarrow> target \<Rightarrow> cycle \<Rightarrow> bool" where
  "counted k t c \<longleftrightarrow> cy_kind c = k \<and> cy_target c = t \<and> cy_sent c = cy_received c + cy_lost c
     \<and> 0 \<le> cy_received c \<and> 0 \<le> cy_lost c \<and> cy_received c = int (length (cy_rtt c))"

lemma udp_counted:
  assumes "udp_probe env t pr = Some c"
  shows "counted KindUDP t c"
  using assms
proof (cases rule: udp_probe_cases)
  case unsent
  with udp_burst_inv [of t env pr] show ?thesis by (simp add: burst_inv_def counted_def)
next
  case (received r failed)
  show ?thesis
    using burst_err_inv [OF udp_burst_inv [of t env pr], of failed]
      map_filter_length [of "map_of (ur_out r)" "ub_order (udp_burst env t pr)"]
    unfolding received(4) by (simp add: burst_inv_def counted_def collect_fields)
qed (simp add: counted_def)

lemma tcp_loop_counted: "counted k t c \<Longrightarrow> counted k t (tcp_loop env pr is c)"
  by (induction env pr "is" c rule: tcp_loop.induct)
    (auto simp: counted_def Let_def split: sum.splits)

interpretation udp: prober udp_returns KindUDP
  by unfold_locales (auto simp: udp_returns_def counted_def dest: udp_counted)

interpretation tcp: prober tcp_returns KindTCP
proof -
  have "counted KindTCP t (new_cycle KindTCP t started)" for t started by (simp add: counted_def)
  then have "counted KindTCP t c" if "tcp_returns t pr c" for t pr c
    using that tcp_loop_counted by (fastforce simp: tcp_returns_def tcp_probe_def)
  then show "prober tcp_returns KindTCP"
    by unfold_locales (auto simp: counted_def)
qed

section \<open>Replies\<close>

text \<open>
  The specification of the read loop: the well-formed datagrams up to the first failure, with the
  time each was read; the answer to a packet is the first of them with its number. \<open>arrivals\<close> lists
  the numbers answered, in the order of the answers; one is late when a higher number came before.
\<close>

fun replies :: "read_event list \<Rightarrow> (32 word \<times> time) list" where
  "replies (Datagram buf now # evs) =
     (case decode_header buf of Inl _ \<Rightarrow> replies evs | Inr h \<Rightarrow> (hd_seq h, now) # replies evs)"
| "replies evs = []"

definition answer :: "(32 word, time) gomap \<Rightarrow> (32 word \<times> time) list \<Rightarrow> 32 word \<Rightarrow> dur option" where
  "answer sent rs seq =
     (case (map_of sent seq, map_of rs seq) of (Some at, Some now) \<Rightarrow> Some (tm_sub now at) | _ \<Rightarrow> None)"

definition arrivals :: "(32 word, time) gomap \<Rightarrow> (32 word \<times> time) list \<Rightarrow> 32 word list \<Rightarrow> 32 word list" where
  "arrivals sent rs acc =
     fold (\<lambda>(seq, _) acc. if map_of sent seq = None \<or> seq \<in> set acc then acc else acc @ [seq]) rs acc"

definition late :: "'a :: linorder list \<Rightarrow> nat" where
  "late xs = card {i. i < length xs \<and> (\<exists>j < i. xs ! i < xs ! j)}"

lemma late_Nil [simp]: "late [] = 0"
  by (simp add: late_def)

lemma late_snoc: "late (xs @ [x]) = late xs + (if \<exists>y \<in> set xs. x < y then 1 else 0)"
proof -
  let ?n = "length xs" and ?ys = "xs @ [x]"
  have old: "(\<exists>j < i. ?ys ! i < ?ys ! j) \<longleftrightarrow> (\<exists>j < i. xs ! i < xs ! j)" if "i < ?n" for i
  proof -
    have "?ys ! j = xs ! j" if "j \<le> i" for j using that \<open>i < ?n\<close> by (simp add: nth_append)
    then show ?thesis by (metis less_imp_le order_refl)
  qed
  have "(\<exists>j < ?n. x < xs ! j) \<longleftrightarrow> (\<exists>y \<in> set xs. x < y)" by (metis in_set_conv_nth)
  then have new: "(\<exists>j < ?n. ?ys ! ?n < ?ys ! j) \<longleftrightarrow> (\<exists>y \<in> set xs. x < y)"
    by (simp add: nth_append cong: conj_cong)
  have "i < length ?ys \<and> (\<exists>j < i. ?ys ! i < ?ys ! j)
      \<longleftrightarrow> i < ?n \<and> (\<exists>j < i. xs ! i < xs ! j) \<or> i = ?n \<and> (\<exists>y \<in> set xs. x < y)" for i
  proof (cases "i = ?n")
    case False
    then show ?thesis using old [of i] by (cases "i < ?n") simp_all
  qed (use new in simp)
  then have "{i. i < length ?ys \<and> (\<exists>j < i. ?ys ! i < ?ys ! j)}
      = {i. i < ?n \<and> (\<exists>j < i. xs ! i < xs ! j)} \<union> {i. i = ?n \<and> (\<exists>y \<in> set xs. x < y)}"
    by (intro set_eqI) (simp only: mem_Collect_eq Un_iff)
  then show ?thesis by (auto simp: late_def card_insert_if)
qed

text \<open>What the read loop keeps of its accumulator.\<close>

definition replies_inv :: "(32 word, time) gomap \<Rightarrow> udp_replies \<Rightarrow> bool" where
  "replies_inv sent r \<longleftrightarrow> gm_wf (ur_out r) \<and> fst ` set (ur_out r) \<subseteq> fst ` set sent
     \<and> ur_reordered r = int (late (map fst (ur_out r)))
     \<and> (\<forall>s \<in> fst ` set (ur_out r). s \<le> ur_highest r)
     \<and> (ur_out r \<noteq> [] \<longrightarrow> ur_highest r \<in> fst ` set (ur_out r)) \<and> (ur_out r = [] \<longrightarrow> ur_highest r = 0)"

lemma update_new: "k \<notin> fst ` set m \<Longrightarrow> AList.update k v m = m @ [(k, v)]"
  by (induction m) auto

lemma accept_eq:
  assumes "replies_inv sent r"
  shows "udp_accept sent buf now r =
    (case decode_header buf of Inl _ \<Rightarrow> r
     | Inr h \<Rightarrow> (case map_of sent (hd_seq h) of None \<Rightarrow> r
        | Some at \<Rightarrow> if hd_seq h \<in> fst ` set (ur_out r) then r
            else \<lparr>ur_out = ur_out r @ [(hd_seq h, tm_sub now at)],
                  ur_reordered = ur_reordered r + (if \<exists>s \<in> fst ` set (ur_out r). hd_seq h < s then 1 else 0),
                  ur_highest = max (hd_seq h) (ur_highest r)\<rparr>))"
proof -
  have "(\<exists>s \<in> fst ` set (ur_out r). q < s) \<longleftrightarrow> q < ur_highest r" for q
  proof (cases "ur_out r = []")
    case False
    with assms have "ur_highest r \<in> fst ` set (ur_out r)" "\<forall>s \<in> fst ` set (ur_out r). s \<le> ur_highest r"
      by (simp_all add: replies_inv_def)
    then show ?thesis by (meson less_le_trans)
  qed (use assms in \<open>simp add: replies_inv_def\<close>)
  moreover have "map_of (ur_out r) q \<noteq> None \<longleftrightarrow> q \<in> fst ` set (ur_out r)" for q
    by (simp add: map_of_eq_None_iff)
  ultimately show ?thesis
    by (cases r) (auto simp: udp_accept_def Let_def update_new max_def split: sum.split option.split)
qed

lemma accept_inv:
  assumes "replies_inv sent r"
  shows "replies_inv sent (udp_accept sent buf now r)"
proof (cases "decode_header buf")
  case (Inr h)
  show ?thesis
  proof (cases "map_of sent (hd_seq h)")
    case (Some at)
    then have "hd_seq h \<in> fst ` set sent" by (metis map_of_eq_None_iff option.distinct(1))
    with assms Inr Some show ?thesis
      unfolding accept_eq [OF assms]
      by (auto simp: replies_inv_def gm_wf_def late_snoc max_def)
  qed (use assms Inr in \<open>simp add: accept_eq\<close>)
qed (use assms in \<open>simp add: accept_eq\<close>)

lemma accept_arrivals:
  assumes "replies_inv sent r"
  shows "map fst (ur_out (udp_accept sent buf now r))
    = arrivals sent (replies [Datagram buf now]) (map fst (ur_out r))"
  unfolding accept_eq [OF assms] by (auto simp: arrivals_def split: sum.split option.split)

lemma accept_answer:
  assumes "replies_inv sent r"
  shows "map_of (ur_out (udp_accept sent buf now r)) q
    = (case map_of (ur_out r) q of Some d \<Rightarrow> Some d | None \<Rightarrow> answer sent (replies [Datagram buf now]) q)"
proof -
  have "map_of (ur_out r) q = None \<longleftrightarrow> q \<notin> fst ` set (ur_out r)" by (simp add: map_of_eq_None_iff)
  then show ?thesis
    unfolding accept_eq [OF assms]
    by (auto simp: answer_def map_add_def split: sum.split option.split)
qed

lemma replies_Cons: "replies (Datagram buf now # evs) = replies [Datagram buf now] @ replies evs"
  by (simp split: sum.split)

lemma answer_append: "answer sent (xs @ ys) q = (case answer sent xs q of Some d \<Rightarrow> Some d | None \<Rightarrow> answer sent ys q)"
  by (auto simp: answer_def map_add_def split: option.split)

lemma arrivals_append: "arrivals sent (xs @ ys) acc = arrivals sent ys (arrivals sent xs acc)"
  by (simp add: arrivals_def)

text \<open>When every packet is answered no later datagram changes anything.\<close>

lemma all_answered:
  assumes "replies_inv sent r" "gm_wf sent" "length sent \<le> length (ur_out r)"
  shows "fst ` set (ur_out r) = fst ` set sent"
proof -
  have "card (fst ` set (ur_out r)) = length (ur_out r)" "card (fst ` set sent) = length sent"
    using assms(1,2) distinct_card [of "map fst (ur_out r)"] distinct_card [of "map fst sent"]
    by (simp_all add: replies_inv_def gm_wf_def)
  then show ?thesis using assms by (intro card_seteq) (simp_all add: replies_inv_def)
qed

lemma arrivals_all:
  "fst ` set sent \<subseteq> set acc \<Longrightarrow> arrivals sent rs acc = acc"
  unfolding arrivals_def
proof (induction rs)
  case (Cons p rs)
  then have "map_of sent (fst p) = None \<or> fst p \<in> set acc" by (auto simp: map_of_eq_None_iff)
  with Cons show ?case by (auto simp: case_prod_beta)
qed simp

lemma receive_done:
  assumes "replies_inv sent r" "gm_wf sent" "length sent \<le> length (ur_out r)"
  shows "replies_inv sent r \<and> map fst (ur_out r) = arrivals sent rs (map fst (ur_out r))
    \<and> (\<forall>q. map_of (ur_out r) q
          = (case map_of (ur_out r) q of Some d \<Rightarrow> Some d | None \<Rightarrow> answer sent rs q))"
proof -
  note all = all_answered [OF assms]
  have "arrivals sent rs (map fst (ur_out r)) = map fst (ur_out r)"
    by (rule arrivals_all) (simp add: all)
  moreover have "map_of sent q = None" if "map_of (ur_out r) q = None" for q
    using that all by (simp add: map_of_eq_None_iff)
  then have "map_of (ur_out r) q = (case map_of (ur_out r) q of Some d \<Rightarrow> Some d | None \<Rightarrow> answer sent rs q)" for q
    by (auto simp: answer_def split: option.split)
  ultimately show ?thesis using assms(1) by auto
qed

lemma receive_spec:
  assumes "udp_receive sent evs r = Some (r', failed)" "replies_inv sent r" "gm_wf sent"
  shows "replies_inv sent r' \<and> map fst (ur_out r') = arrivals sent (replies evs) (map fst (ur_out r))
    \<and> (\<forall>q. map_of (ur_out r') q
          = (case map_of (ur_out r) q of Some d \<Rightarrow> Some d | None \<Rightarrow> answer sent (replies evs) q))"
  using assms
proof (induction evs arbitrary: r)
  case Nil
  then have "length sent \<le> length (ur_out r)" "r' = r"
    by (auto simp: receive_steps split: if_splits)
  with receive_done [OF Nil.prems(2,3)] show ?case by simp
next
  case (Cons ev evs)
  show ?case
  proof (cases "length sent \<le> length (ur_out r)")
    case True
    with Cons.prems(1) have "r' = r" by (cases ev) (simp_all add: receive_steps)
    with receive_done [OF Cons.prems(2,3) True] show ?thesis by simp
  next
    case False
    show ?thesis
    proof (cases ev)
      case (Datagram buf now)
      with False Cons.prems(1) have "udp_receive sent evs (udp_accept sent buf now r) = Some (r', failed)"
        by (simp add: receive_steps)
      from Cons.IH [OF this accept_inv [OF Cons.prems(2)] Cons.prems(3)] show ?thesis
        unfolding Datagram replies_Cons [of buf now evs] arrivals_append answer_append
          accept_arrivals [OF Cons.prems(2)] accept_answer [OF Cons.prems(2)]
        by (auto split: option.split)
    qed (use Cons.prems False in \<open>auto simp: receive_steps arrivals_def answer_def
          split: option.split\<close>)
  qed
qed

text \<open>The loop returns once a read fails, which the deadline makes certain.\<close>

lemma receive_returns:
  "\<exists>ev \<in> set evs. \<forall>buf now. ev \<noteq> Datagram buf now \<Longrightarrow> udp_receive sent evs r \<noteq> None"
proof (induction evs arbitrary: r)
  case (Cons ev evs)
  then show ?case by (cases ev) (auto simp: receive_steps)
qed simp

lemma no_replies_inv: "replies_inv sent udp_no_replies"
  by (simp add: replies_inv_def udp_no_replies_def gm_wf_def)

lemma udp_outcome:
  assumes "udp_probe env t pr = Some c" "ue_dial env = None"
  defines "b \<equiv> udp_burst env t pr" and "rs \<equiv> replies (ue_reads env)"
  shows "cy_sent c = int (length (ub_wire b)) \<and> cy_sent c = int (length (ub_order b))
    \<and> cy_rtt c = List.map_filter (answer (ub_sent b) rs) (ub_order b)
    \<and> cy_reordered c = int (late (arrivals (ub_sent b) rs []))"
proof -
  note inv = udp_burst_inv [of t env pr, folded b_def, unfolded burst_inv_def]
  then have len: "length (ub_wire b) = length (ub_order b)" by (simp add: carries_length)
  from assms(1) show ?thesis
  proof (cases rule: udp_probe_cases)
    case unsent
    with inv have "ub_order b = []" "ub_sent b = []" by (auto simp: b_def)
    then show ?thesis using inv len unsent by (simp add: map_filter_simps arrivals_all b_def)
  next
    case (received r failed)
    have wf: "gm_wf (ub_sent b)" using inv by simp
    from receive_spec [OF received(3) [folded b_def] no_replies_inv wf]
    have "ur_reordered r = int (late (arrivals (ub_sent b) rs []))" "map_of (ur_out r) = answer (ub_sent b) rs"
      by (auto simp: replies_inv_def udp_no_replies_def rs_def)
    then show ?thesis using inv len unfolding received(4) b_def [symmetric]
      by (cases failed) (simp_all add: collect_fields)
  qed (use assms(2) in simp)
qed

text \<open>
  C14: a UDP cycle is exact. Once a read fails, as it does at the deadline, the probe returns, and a
  cycle that got past the dial counts every datagram written, has for each of them, in the order they
  were sent, the time to the first well-formed reply with its number, and counts the others as lost;
  foreign, damaged and repeated datagrams change nothing. Reordered are exactly the answers that came
  after the answer to a packet sent later.
\<close>

theorem udp_cycle_exact:
  "((\<exists>ev \<in> set (ue_reads env). \<forall>buf now. ev \<noteq> Datagram buf now) \<longrightarrow> udp_probe env t pr \<noteq> None)
   \<and> (udp_probe env t pr = Some c \<and> ue_dial env = None \<longrightarrow>
        (let b = udp_burst env t pr; rs = replies (ue_reads env)
         in cy_sent c = int (length (ub_wire b))
            \<and> cy_rtt c = List.map_filter (answer (ub_sent b) rs) (ub_order b)
            \<and> cy_received c = int (length (cy_rtt c)) \<and> cy_sent c = cy_received c + cy_lost c
            \<and> cy_reordered c = int (late (arrivals (ub_sent b) rs []))))"
proof (intro conjI impI)
  let ?b = "udp_burst env t pr" and ?rs = "replies (ue_reads env)"
  assume "\<exists>ev \<in> set (ue_reads env). \<forall>buf now. ev \<noteq> Datagram buf now"
  then have "udp_receive (ub_sent ?b) (ue_reads env) udp_no_replies \<noteq> None" by (rule receive_returns)
  then show "udp_probe env t pr \<noteq> None" by (auto simp: udp_probe_def Let_def split: option.split)
next
  let ?b = "udp_burst env t pr" and ?rs = "replies (ue_reads env)"
  assume a: "udp_probe env t pr = Some c \<and> ue_dial env = None"
  have c: "counted KindUDP t c" using udp_counted a by blast
  from a udp_outcome [of env t pr c] have "cy_sent c = int (length (ub_wire ?b)) \<and> cy_rtt c = List.map_filter (answer (ub_sent ?b) ?rs) (ub_order ?b)
      \<and> cy_reordered c = int (late (arrivals (ub_sent ?b) ?rs []))" by simp
  with c show "let b = ?b; rs = ?rs
    in cy_sent c = int (length (ub_wire b)) \<and> cy_rtt c = List.map_filter (answer (ub_sent b) rs) (ub_order b)
      \<and> cy_received c = int (length (cy_rtt c)) \<and> cy_sent c = cy_received c + cy_lost c
      \<and> cy_reordered c = int (late (arrivals (ub_sent b) rs []))"
    by (simp add: counted_def Let_def)
qed

section \<open>The samples of a burst\<close>

text \<open>A burst in which nothing fails.\<close>

definition clean :: "packet_env \<Rightarrow> bool" where
  "clean p \<longleftrightarrow> \<not> pk_cancelled p \<and> pk_write p = None"

lemma clean_send: "clean p \<Longrightarrow> 16 \<le> n \<Longrightarrow> \<exists>buf. udp_send p seq n = Inr (buf, pk_at p)"
  by (simp add: clean_def udp_send_def encode_header_def header_size_def)

lemma clean_burst:
  assumes "\<forall>i \<in> set is. clean (env i)" "16 \<le> n" "distinct (map (\<lambda>i. of_nat (i + 1) :: 32 word) is)"
  shows "ub_order (udp_burst_loop env n is b) = ub_order b @ map (\<lambda>i. of_nat (i + 1)) is
    \<and> (\<forall>i \<in> set is. map_of (ub_sent (udp_burst_loop env n is b)) (of_nat (i + 1)) = Some (pk_at (env i)))
    \<and> (\<forall>q. q \<notin> (\<lambda>i. of_nat (i + 1)) ` set is \<longrightarrow>
          map_of (ub_sent (udp_burst_loop env n is b)) q = map_of (ub_sent b) q)"
  using assms
proof (induction "is" arbitrary: b)
  case (Cons i "is")
  then obtain buf where "udp_send (env i) (of_nat (i + 1)) n = Inr (buf, pk_at (env i))"
    using clean_send [of "env i" n] by fastforce
  moreover have "\<not> pk_cancelled (env i)" using Cons.prems(1) by (simp add: clean_def)
  ultimately show ?case
    using Cons.IH Cons.prems by (auto simp: Let_def update_conv)
qed simp

lemma distinct_seqs:
  assumes "n < 2 ^ 32"
  shows "distinct (map (\<lambda>i. of_nat (i + 1) :: 32 word) [0..<n])"
proof -
  have "inj_on (\<lambda>i. of_nat (i + 1) :: 32 word) {0..<n}"
  proof (rule inj_onI)
    fix i j assume "i \<in> {0..<n}" "j \<in> {0..<n}" "(of_nat (i + 1) :: 32 word) = of_nat (j + 1)"
    then have "unat (of_nat (i + 1) :: 32 word) = unat (of_nat (j + 1) :: 32 word)" "i + 1 < 2 ^ 32" "j + 1 < 2 ^ 32"
      using assms by auto
    then show "i = j" by (simp add: unat_of_nat del: of_nat_Suc of_nat_add)
  qed
  then show ?thesis by (simp add: distinct_map)
qed

lemma replies_read: "(q, now) \<in> set (replies evs) \<Longrightarrow> \<exists>buf. Datagram buf now \<in> set evs"
  by (induction evs rule: replies.induct) (auto split: sum.splits)

lemma map_filter_full:
  "length (List.map_filter f xs) = length xs \<Longrightarrow> i < length xs \<Longrightarrow> f (xs ! i) = Some (List.map_filter f xs ! i)"
proof (induction xs arbitrary: i)
  case (Cons x xs)
  have "f x \<noteq> None" using Cons.prems(1) map_filter_length [of f xs] by (cases "f x") (auto simp: map_filter_simps)
  with Cons show ?case by (cases i) (auto simp: map_filter_simps)
qed simp

lemma spaced:
  assumes "\<And>i. Suc i < n \<Longrightarrow> at i + d \<le> (at (Suc i) :: int)" "i + k < n"
  shows "at i + int k * d \<le> at (i + k)"
  using assms(2)
proof (induction k)
  case (Suc k)
  then show ?case using assms(1) [of "i + k"] by (simp add: algebra_simps)
qed simp

text \<open>
  The round trip times of a UDP burst contain the rest of the burst. Nothing is read before the
  last packet is sent, and a reply is timed when it is read; so in a burst in which every packet is
  written and answered, the sample of a packet is at least the time from its own sending to the last
  one, one interval for each packet after it, however fast the reply came.
\<close>

theorem udp_rtt_includes_burst:
  assumes "udp_probe env t pr = Some c" "ue_dial env = None" "cy_lost c = 0"
    and n: "nat (pp_count pr) = n" "n < 2 ^ 32" "\<forall>i < n. clean (ue_packet env i)"
    and gap: "\<forall>i. Suc i < n \<longrightarrow> pk_at (ue_packet env i) + pp_interval pr \<le> pk_at (ue_packet env (Suc i))"
    and reads: "\<forall>buf now. Datagram buf now \<in> set (ue_reads env) \<longrightarrow> pk_at (ue_packet env (n - 1)) \<le> now"
    and d: "0 \<le> pp_interval pr" "int n * pp_interval pr \<le> max_int64"
    and i: "i < n"
  shows "int (n - 1 - i) * pp_interval pr \<le> cy_rtt c ! i"
proof -
  let ?b = "udp_burst env t pr" and ?rs = "replies (ue_reads env)" and ?at = "\<lambda>i. pk_at (ue_packet env i)"
  have c: "counted KindUDP t c" using udp_counted assms(1) by blast
  have size: "16 \<le> payload_size pr" by (simp add: payload_size_def header_size_def)
  from udp_outcome [OF assms(1,2)]
  have rtt: "cy_rtt c = List.map_filter (answer (ub_sent ?b) ?rs) (ub_order ?b)"
    and full: "length (List.map_filter (answer (ub_sent ?b) ?rs) (ub_order ?b)) = length (ub_order ?b)"
    using c assms(3) by (simp_all add: counted_def)
  have clean: "\<forall>i \<in> set [0..<n]. clean (ue_packet env i)" using n(3) by simp
  from clean_burst [OF clean size distinct_seqs [OF n(2)]] i
  have order: "ub_order ?b = map (\<lambda>i. of_nat (i + 1)) [0..<n]"
    and sent: "map_of (ub_sent ?b) (of_nat (i + 1)) = Some (?at i)"
    by (simp_all add: udp_burst_def n(1))
  from map_filter_full [OF full, of i] i
  have "answer (ub_sent ?b) ?rs (of_nat (i + 1)) = Some (cy_rtt c ! i)" by (simp add: order rtt)
  then obtain now where now: "map_of ?rs (of_nat (i + 1)) = Some now" "cy_rtt c ! i = tm_sub now (?at i)"
    unfolding answer_def sent by (auto split: option.splits)
  then have "?at (n - 1) \<le> now" using reads replies_read map_of_SomeD by metis
  moreover have "?at i + int (n - 1 - i) * pp_interval pr \<le> ?at (n - 1)"
    using spaced [of n ?at "pp_interval pr" i "n - 1 - i"] gap i by simp
  moreover have "int (n - 1 - i) * pp_interval pr \<le> int n * pp_interval pr" using d(1) by (intro mult_right_mono) auto
  moreover have "0 \<le> int (n - 1 - i) * pp_interval pr" using d(1) by simp
  ultimately show ?thesis unfolding now(2) using d(2)
    by (auto simp: tm_sub_def sat64_def min_int64_def)
qed

text \<open>A run: two packets 1000 apart, the second answered at once, the first after that.\<close>

definition demo_reply :: "32 word \<Rightarrow> 8 word list" where
  "demo_reply q = header_bytes \<lparr>hd_magic = magic, hd_seq = q, hd_nanos = 0\<rparr>"

definition demo_udp :: udp_env where
  "demo_udp = \<lparr>ue_started = 90, ue_dial = None,
     ue_packet = (\<lambda>i. \<lparr>pk_cancelled = False, pk_nanos = 0, pk_at = (if i = 0 then 100 else 1100), pk_write = None\<rparr>),
     ue_reads = [Datagram (demo_reply 2) 1101, Datagram (demo_reply 1) 1102]\<rparr>"

definition demo_target :: target where
  "demo_target = \<lparr>ta_host = ''b'', ta_address = ''10.0.0.2'', ta_port = 8472\<rparr>"

definition demo_params :: probe_params where
  "demo_params = \<lparr>pp_kind = KindUDP, pp_count = 2, pp_interval = 1000, pp_timeout = 1000, pp_payload = 16,
     pp_port = 8472, pp_mode = [], pp_ttl = 0, pp_df = False\<rparr>"

lemma decode_demo_reply: "decode_header (demo_reply q) = Inr \<lparr>hd_magic = magic, hd_seq = q, hd_nanos = 0\<rparr>"
  using decode_header_bytes [of _ "[]"] by (simp add: demo_reply_def)

lemma demo_burst:
  "ub_order (udp_burst demo_udp t demo_params) = [1, 2]"
  "ub_sent (udp_burst demo_udp t demo_params) = [(1, 100), (2, 1100)]"
  by (simp_all add: udp_burst_def demo_udp_def demo_params_def payload_size_def header_size_def upt_rec
      udp_send_def encode_header_def Let_def)

lemma demo_fields:
  "ue_dial demo_udp = None"
  "ue_reads demo_udp = [Datagram (demo_reply 2) 1101, Datagram (demo_reply 1) 1102]"
  "replies (ue_reads demo_udp) = [(2, 1101), (1, 1102)]"
  by (simp_all add: demo_udp_def decode_demo_reply)

lemma demo_answers:
  "answer [(1, 100), (2, 1100)] [(2, 1101), (1, 1102)] 1 = Some 1002"
  "answer [(1, 100), (2, 1100)] [(2, 1101), (1, 1102)] 2 = Some 1"
  by (simp_all add: answer_def tm_sub_def sat64_def max_int64_def min_int64_def)

lemma demo_probe: "\<exists>c. udp_probe demo_udp t demo_params = Some c"
proof -
  have "udp_receive (ub_sent (udp_burst demo_udp t demo_params)) (ue_reads demo_udp) udp_no_replies \<noteq> None"
    by (simp add: demo_burst demo_fields receive_steps udp_accept_def decode_demo_reply udp_no_replies_def Let_def)
  then show ?thesis by (auto simp: udp_probe_def Let_def demo_fields(1) split: option.split)
qed

theorem udp_cycle_exact_witness:
  "\<exists>c. udp_probe demo_udp demo_target demo_params = Some c \<and> cy_sent c = 2 \<and> cy_rtt c = [1002, 1] \<and> cy_reordered c = 1"
proof -
  obtain c where c: "udp_probe demo_udp demo_target demo_params = Some c" using demo_probe by blast
  have "late [2, 1 :: 32 word] = 1" using late_snoc [of "[2]" "1 :: 32 word"] late_snoc [of "[]" "2 :: 32 word"] by simp
  then have "arrivals [(1, 100), (2, 1100)] [(2, 1101), (1, 1102)] [] = [2, 1]" by (simp add: arrivals_def)
  moreover have "length (ub_wire (udp_burst demo_udp demo_target demo_params)) = 2"
    using udp_burst_inv [of demo_target demo_udp demo_params] carries_length by (fastforce simp: burst_inv_def demo_burst)
  ultimately show ?thesis using udp_cycle_exact [of demo_udp demo_target demo_params c] c \<open>late [2, 1] = 1\<close>
    by (auto simp: Let_def demo_burst demo_fields decode_demo_reply demo_answers map_filter_simps)
qed

theorem udp_rtt_includes_burst_witness:
  "\<exists>c. udp_probe demo_udp demo_target demo_params = Some c \<and> 1000 \<le> cy_rtt c ! 0"
proof -
  obtain c where c: "udp_probe demo_udp demo_target demo_params = Some c" using demo_probe by blast
  from udp_outcome [OF c demo_fields(1)] udp_counted [OF c] have lost: "cy_lost c = 0"
    by (simp add: demo_burst demo_fields decode_demo_reply demo_answers map_filter_simps counted_def)
  have n: "nat (pp_count demo_params) = 2" "pp_interval demo_params = 1000" by (simp_all add: demo_params_def)
  have "1000 \<le> cy_rtt c ! 0"
    using udp_rtt_includes_burst [OF c demo_fields(1) lost n(1), of 0] n(2)
    by (simp add: demo_udp_def clean_def max_int64_def)
  with c show ?thesis by blast
qed

end
