(* ===== verification/Inventory.thy ===== *)
theory Inventory
  imports Prelude
begin

text \<open>
  Models \<open>internal/inventory/inventory.go\<close>: host records, the per-source sets, the
  merge into one canonical list and the store with its cached snapshot. The lemmas show
  that the merge is a sorted union by host ID, which record wins a collision, when the
  result does not depend on the iteration order of the source map, that every snapshot
  is well formed (its index agrees with its list), and that the cache is coherent.
\<close>

section \<open>Host records and sets\<close>

record host_record =
  hr_id :: string
  hr_address :: string
  hr_attributes :: "(string, string) gomap"
  hr_source :: string
  hr_healthy :: bool
  hr_reason :: string
  hr_seen_at :: time
  hr_priority :: int

definition attr :: "host_record \<Rightarrow> string \<Rightarrow> string option" where
  "attr h key = map_of (hr_attributes h) key"

text \<open>\<open>Clone\<close> copies the attribute map key by key into a fresh map.\<close>

definition clone_host :: "host_record \<Rightarrow> host_record" where
  "clone_host h =
     h\<lparr>hr_attributes := fold (\<lambda>(k, v) m. AList.update k v m) (hr_attributes h) []\<rparr>"

record host_set =
  hs_source :: string
  hs_hosts :: "host_record list"
  hs_fetch_at :: time
  hs_stale :: bool
  hs_last_error :: string

record source_status =
  ss_source :: string
  ss_hosts :: nat
  ss_fetch_at :: time
  ss_stale :: bool
  ss_last_error :: string

record snapshot =
  sn_hosts :: "host_record list"
  sn_by_id :: "(string, nat) gomap"
  sn_generation :: "64 word"
  sn_taken_at :: time
  sn_collisions :: nat
  sn_sources :: "(string, source_status) gomap"

definition snap_get :: "snapshot \<Rightarrow> string \<Rightarrow> host_record option" where
  "snap_get s hid = (case map_of (sn_by_id s) hid of None \<Rightarrow> None | Some i \<Rightarrow> Some (sn_hosts s ! i))"

definition snap_len :: "snapshot \<Rightarrow> nat" where
  "snap_len s = length (sn_hosts s)"

definition snap_filter :: "snapshot \<Rightarrow> (host_record \<Rightarrow> bool) \<Rightarrow> host_record list" where
  "snap_filter s pred = filter pred (sn_hosts s)"

section \<open>The merge\<close>

definition merge_host ::
  "host_record \<Rightarrow> (string, host_record) gomap \<times> nat \<Rightarrow> (string, host_record) gomap \<times> nat" where
  "merge_host h acc =
     (case acc of (by_id, collisions) \<Rightarrow>
       (case map_of by_id (hr_id h) of
          None \<Rightarrow> (AList.update (hr_id h) (clone_host h) by_id, collisions)
        | Some prev \<Rightarrow>
            (if hr_priority h > hr_priority prev
             then (AList.update (hr_id h) (clone_host h) by_id, Suc collisions)
             else (by_id, Suc collisions))))"

definition merge_sets :: "(string, host_set) gomap \<Rightarrow> host_record list \<times> nat" where
  "merge_sets sets =
     (case fold (\<lambda>(_, hset) acc. fold merge_host (hs_hosts hset) acc) sets ([], 0) of
        (by_id, collisions) \<Rightarrow> (sort_key hr_id (map snd by_id), collisions))"

section \<open>The store\<close>

record inv_store =
  is_sets :: "(string, host_set) gomap"
  is_gen :: "64 word"
  is_snap :: "snapshot option"

definition new_inv_store :: inv_store where
  "new_inv_store = \<lparr>is_sets = [], is_gen = 0, is_snap = None\<rparr>"

definition inv_replace :: "host_set \<Rightarrow> inv_store \<Rightarrow> inv_store" where
  "inv_replace hset s =
     s\<lparr>is_sets := AList.update (hs_source hset) hset (is_sets s), is_gen := is_gen s + 1,
       is_snap := None\<rparr>"

definition inv_remove :: "string \<Rightarrow> inv_store \<Rightarrow> inv_store" where
  "inv_remove source s =
     (if map_of (is_sets s) source = None then s
      else s\<lparr>is_sets := AList.delete source (is_sets s), is_gen := is_gen s + 1,
             is_snap := None\<rparr>)"

definition inv_generation :: "inv_store \<Rightarrow> 64 word" where
  "inv_generation s = is_gen s"

definition status_of :: "string \<Rightarrow> host_set \<Rightarrow> source_status" where
  "status_of name hset =
     \<lparr>ss_source = name, ss_hosts = length (hs_hosts hset), ss_fetch_at = hs_fetch_at hset,
      ss_stale = hs_stale hset, ss_last_error = hs_last_error hset\<rparr>"

definition index_hosts :: "host_record list \<Rightarrow> (string, nat) gomap" where
  "index_hosts hosts =
     fold (\<lambda>(i, h) m. AList.update (hr_id h) i m) (enumerate 0 hosts) []"

definition build_snapshot :: "time \<Rightarrow> inv_store \<Rightarrow> snapshot" where
  "build_snapshot now s =
     (case merge_sets (is_sets s) of (hosts, collisions) \<Rightarrow>
       \<lparr>sn_hosts = hosts, sn_by_id = index_hosts hosts, sn_generation = is_gen s,
        sn_taken_at = now, sn_collisions = collisions,
        sn_sources = map (\<lambda>(name, hset). (name, status_of name hset)) (is_sets s)\<rparr>)"

text \<open>\<open>Snapshot\<close> returns the cached view when there is one and fills the cache otherwise.\<close>

definition inv_snapshot :: "time \<Rightarrow> inv_store \<Rightarrow> snapshot \<times> inv_store" where
  "inv_snapshot now s =
     (case is_snap s of
        Some snap \<Rightarrow> (snap, s)
      | None \<Rightarrow> (let snap = build_snapshot now s in (snap, s\<lparr>is_snap := Some snap\<rparr>)))"

datatype inv_op = InvReplace host_set | InvRemove string | InvSnapshot time

fun inv_step :: "inv_op \<Rightarrow> inv_store \<Rightarrow> inv_store" where
  "inv_step (InvReplace hset) s = inv_replace hset s"
| "inv_step (InvRemove source) s = inv_remove source s"
| "inv_step (InvSnapshot now) s = snd (inv_snapshot now s)"

section \<open>Clone\<close>

lemma map_of_fold_update:
  "gm_wf kvs \<Longrightarrow> map_of (fold (\<lambda>(k, v) m. AList.update k v m) kvs m) = map_of m ++ map_of kvs"
proof (induction kvs arbitrary: m)
  case Nil
  then show ?case by simp
next
  case (Cons kv kvs)
  obtain k v where kv: "kv = (k, v)" by (cases kv)
  have "k \<notin> dom (map_of kvs)" using Cons.prems by (simp add: kv gm_wf_Cons dom_map_of_conv_image_fst)
  then have upd: "map_of (AList.update k v m) ++ map_of kvs = map_of m ++ map_of (kv # kvs)"
    by (auto simp: kv update_conv map_add_def fun_eq_iff split: option.splits)
  have "map_of (fold (\<lambda>(k, v) m. AList.update k v m) (kv # kvs) m)
      = map_of (AList.update k v m) ++ map_of kvs"
    using Cons by (simp add: kv gm_wf_Cons)
  then show ?case unfolding upd .
qed

lemma clone_host_simps [simp]:
  "hr_id (clone_host h) = hr_id h" "hr_address (clone_host h) = hr_address h"
  "hr_source (clone_host h) = hr_source h" "hr_healthy (clone_host h) = hr_healthy h"
  "hr_reason (clone_host h) = hr_reason h" "hr_seen_at (clone_host h) = hr_seen_at h"
  "hr_priority (clone_host h) = hr_priority h"
  by (simp_all add: clone_host_def)

lemma attr_clone_host: "gm_wf (hr_attributes h) \<Longrightarrow> attr (clone_host h) k = attr h k"
  by (simp add: attr_def clone_host_def map_of_fold_update)

section \<open>What the merge computes\<close>

text \<open>All records of all sources, in the order the loops meet them.\<close>

definition all_records :: "(string, host_set) gomap \<Rightarrow> host_record list" where
  "all_records sets = concat (map (\<lambda>(_, hset). hs_hosts hset) sets)"

lemma merge_sets_flat:
  "merge_sets sets =
     (case fold merge_host (all_records sets) ([], 0) of
        (by_id, collisions) \<Rightarrow> (sort_key hr_id (map snd by_id), collisions))"
proof -
  have "fold (\<lambda>(_, hset) acc. fold merge_host (hs_hosts hset) acc) sets acc
      = fold merge_host (all_records sets) acc" for acc
    by (induction sets arbitrary: acc) (auto simp: all_records_def)
  then show ?thesis by (simp add: merge_sets_def)
qed

text \<open>
  The abstract merge: the winner for an ID is the first record of maximal priority, and
  the collisions are the records beyond the first of each ID.
\<close>

fun winner :: "string \<Rightarrow> host_record list \<Rightarrow> host_record option \<Rightarrow> host_record option" where
  "winner hid [] w = w"
| "winner hid (h # hs) w =
     (if hr_id h \<noteq> hid then winner hid hs w
      else winner hid hs
        (case w of None \<Rightarrow> Some h
         | Some p \<Rightarrow> if hr_priority h > hr_priority p then Some h else Some p))"

definition merge_inv :: "(string, host_record) gomap \<Rightarrow> bool" where
  "merge_inv m \<longleftrightarrow> gm_wf m \<and> (\<forall>(k, h) \<in> set m. hr_id h = k)"

lemma merge_inv_update:
  "merge_inv m \<Longrightarrow> hr_id h = k \<Longrightarrow> merge_inv (AList.update k h m)"
  by (auto simp: merge_inv_def dest!: set_update_snd)

lemma merge_host_inv: "merge_inv m \<Longrightarrow> merge_inv (fst (merge_host h (m, c)))"
  by (auto simp: merge_host_def merge_inv_update split: option.splits)

lemma fold_merge_inv: "merge_inv m \<Longrightarrow> merge_inv (fst (fold merge_host hs (m, c)))"
proof (induction hs arbitrary: m c)
  case (Cons h hs)
  then show ?case
    using Cons.IH [of "fst (merge_host h (m, c))" "snd (merge_host h (m, c))"]
    by (simp add: merge_host_inv)
qed simp

lemma fold_merge_winner:
  "map_of (fst (fold merge_host hs (m, c))) hid
     = map_option clone_host (winner hid hs w)"
  if "map_of m hid = map_option clone_host w"
  using that
proof (induction hs arbitrary: m c w)
  case (Cons h hs)
  obtain m' c' where s: "merge_host h (m, c) = (m', c')" by fastforce
  show ?case
  proof (cases "hr_id h = hid")
    case True
    let ?w = "case w of None \<Rightarrow> Some h
         | Some p \<Rightarrow> if hr_priority h > hr_priority p then Some h else Some p"
    have "map_of m' hid = map_option clone_host ?w"
      using s True Cons.prems
      by (auto simp: merge_host_def update_conv split: option.splits if_splits)
    from Cons.IH [OF this] show ?thesis using s True by simp
  next
    case False
    have "map_of m' hid = map_option clone_host w"
      using s False Cons.prems
      by (auto simp: merge_host_def update_conv split: option.splits if_splits)
    from Cons.IH [OF this] show ?thesis using s False by simp
  qed
qed simp

lemma winner_None: "winner hid hs None = None \<longleftrightarrow> hid \<notin> hr_id ` set hs"
proof -
  have some: "winner hid hs (Some p) \<noteq> None" for p hs
    by (induction hs arbitrary: p) auto
  show ?thesis
    by (induction hs) (auto simp: some)
qed

lemma winner_mem: "winner hid hs w = Some h \<Longrightarrow> (h \<in> set hs \<and> hr_id h = hid) \<or> w = Some h"
  by (induction hs arbitrary: w) (fastforce split: if_splits option.splits)+

lemma winner_max:
  "winner hid hs w = Some h \<Longrightarrow>
     (\<forall>g \<in> set hs. hr_id g = hid \<longrightarrow> hr_priority g \<le> hr_priority h)
     \<and> (\<forall>p. w = Some p \<longrightarrow> hr_priority p \<le> hr_priority h)"
proof (induction hs arbitrary: w)
  case (Cons g hs)
  show ?case
  proof (cases "hr_id g = hid")
    case True
    let ?w = "case w of None \<Rightarrow> Some g
         | Some p \<Rightarrow> if hr_priority g > hr_priority p then Some g else Some p"
    from Cons.prems True have "winner hid hs ?w = Some h" by simp
    from Cons.IH [OF this] show ?thesis
      by (cases w) (auto split: if_splits)
  next
    case False
    with Cons show ?thesis by auto
  qed
qed simp

lemma merge_host_fst: "fst ` set (fst (merge_host h (m, c))) = insert (hr_id h) (fst ` set m)"
proof -
  have "x \<in> fst ` set m" if "map_of m x = Some p" for x p
    using that by (metis fst_conv imageI map_of_SomeD)
  then show ?thesis
    by (auto simp: merge_host_def fst_set_update split: option.splits)
qed

lemma merge_host_size:
  "merge_host h (m, c) = (m', c') \<Longrightarrow> length m' + c' = Suc (length m + c)"
  by (auto simp: merge_host_def length_alist_update map_of_eq_None_iff
      split: option.splits if_splits dest!: map_of_SomeD)
    (metis fst_conv imageI)+

lemma fold_merge_fst:
  "fst ` set (fst (fold merge_host hs (m, c))) = hr_id ` set hs \<union> fst ` set m"
proof (induction hs arbitrary: m c)
  case (Cons h hs)
  obtain m' c' where s: "merge_host h (m, c) = (m', c')" by fastforce
  then show ?case
    using Cons.IH [of m' c'] merge_host_fst [of h m c] by auto
qed simp

lemma fold_merge_size:
  "fold merge_host hs (m, c) = (m', c') \<Longrightarrow> length m' + c' = length hs + length m + c"
proof (induction hs arbitrary: m c)
  case (Cons h hs)
  obtain m1 c1 where s: "merge_host h (m, c) = (m1, c1)" by fastforce
  then show ?case
    using Cons.IH [of m1 c1] Cons.prems merge_host_size [OF s] by simp
qed simp

lemma merge_sets_obtain:
  obtains m c where "fold merge_host (all_records sets) ([], 0) = (m, c)"
    and "merge_sets sets = (sort_key hr_id (map snd m), c)" and "merge_inv m"
    and "fst ` set m = hr_id ` set (all_records sets)"
    and "\<And>i. map_of m i = map_option clone_host (winner i (all_records sets) None)"
proof -
  obtain m c where mc: "fold merge_host (all_records sets) ([], 0) = (m, c)" by fastforce
  have "merge_inv []" by (simp add: merge_inv_def)
  then have "merge_inv m" using fold_merge_inv [of "[]" "all_records sets" 0] mc by simp
  moreover have "fst ` set m = hr_id ` set (all_records sets)"
    using fold_merge_fst [of "all_records sets" "[]" 0] mc by simp
  moreover have "map_of m i = map_option clone_host (winner i (all_records sets) None)" for i
    using fold_merge_winner [of "[]" i None "all_records sets" 0] mc by simp
  moreover have "merge_sets sets = (sort_key hr_id (map snd m), c)"
    using mc by (simp add: merge_sets_flat)
  ultimately show thesis using mc that by blast
qed

lemma merge_inv_map_id: "merge_inv m \<Longrightarrow> map hr_id (map snd m) = map fst m"
  by (auto simp: merge_inv_def)

lemma merge_sets_ids:
  "sorted_wrt (<) (map hr_id (fst (merge_sets sets)))"
  "hr_id ` set (fst (merge_sets sets)) = hr_id ` set (all_records sets)"
proof -
  obtain m c where m: "merge_sets sets = (sort_key hr_id (map snd m), c)" "merge_inv m"
    "fst ` set m = hr_id ` set (all_records sets)" by (rule merge_sets_obtain [of sets]) blast
  have d: "distinct (map hr_id (map snd m))"
    unfolding merge_inv_map_id [OF m(2)] using m(2) by (simp add: merge_inv_def gm_wf_def)
  show "sorted_wrt (<) (map hr_id (fst (merge_sets sets)))"
    using sorted_distinct_strict [of "map hr_id (sort_key hr_id (map snd m))"]
      distinct_sort_map [OF d] m(1) by simp
  have "hr_id ` set (map snd m) = set (map fst m)"
    by (metis list.set_map merge_inv_map_id m(2))
  then show "hr_id ` set (fst (merge_sets sets)) = hr_id ` set (all_records sets)"
    using m(1,3) by (simp add: image_image)
qed

lemma merge_sets_member:
  "h \<in> set (fst (merge_sets sets)) \<longleftrightarrow>
     map_option clone_host (winner (hr_id h) (all_records sets) None) = Some h"
proof -
  obtain m c where m: "merge_sets sets = (sort_key hr_id (map snd m), c)" "merge_inv m"
    "\<And>i. map_of m i = map_option clone_host (winner i (all_records sets) None)"
    by (rule merge_sets_obtain [of sets]) blast
  have "h \<in> set (map snd m) \<longleftrightarrow> (hr_id h, h) \<in> set m"
    using m(2) by (auto simp: merge_inv_def rev_image_eqI)
  also have "\<dots> \<longleftrightarrow> map_of m (hr_id h) = Some h"
    using m(2) gm_wf_map_of [of m] by (auto simp: merge_inv_def)
  finally show ?thesis using m(1,3) by simp
qed

text \<open>
  The merged inventory is the union of all sources, one record per host ID, in strictly
  increasing ID order: the canonical order every deterministic scan of the system relies on.
\<close>

theorem merge_canonical:
  "sorted_wrt (<) (map hr_id (fst (merge_sets sets)))
   \<and> hr_id ` set (fst (merge_sets sets)) = hr_id ` set (all_records sets)"
  by (simp add: merge_sets_ids)

lemma merge_count:
  "snd (merge_sets sets) + card (hr_id ` set (all_records sets)) = length (all_records sets)"
proof -
  obtain m c where m: "fold merge_host (all_records sets) ([], 0) = (m, c)"
    "merge_sets sets = (sort_key hr_id (map snd m), c)" "merge_inv m"
    "fst ` set m = hr_id ` set (all_records sets)" by (rule merge_sets_obtain [of sets]) blast
  have "card (fst ` set m) = length m"
    using m(3) by (simp add: merge_inv_def card_fst_gm_wf)
  then show ?thesis using fold_merge_size [OF m(1)] m(2,4) by simp
qed

text \<open>
  A collision is resolved by priority: the record kept for an ID is (a clone of) a record
  some source provides for that ID, and no source provides one of a higher priority. The
  collision counter is the number of records beyond the first of each ID.
\<close>

theorem merge_highest_priority:
  assumes "h \<in> set (fst (merge_sets sets))"
  shows "(\<exists>g \<in> set (all_records sets). h = clone_host g
            \<and> (\<forall>g' \<in> set (all_records sets).
                 hr_id g' = hr_id h \<longrightarrow> hr_priority g' \<le> hr_priority h))
         \<and> snd (merge_sets sets) + card (hr_id ` set (all_records sets))
             = length (all_records sets)"
proof -
  from assms obtain g where g: "winner (hr_id h) (all_records sets) None = Some g" "h = clone_host g"
    by (auto simp: merge_sets_member)
  then have "g \<in> set (all_records sets)" using winner_mem [OF g(1)] by simp
  moreover from winner_max [OF g(1)] g(2)
  have "\<forall>g' \<in> set (all_records sets). hr_id g' = hr_id h \<longrightarrow> hr_priority g' \<le> hr_priority h"
    by simp
  ultimately show ?thesis using g(2) merge_count by blast
qed

theorem merge_highest_priority_witness:
  "\<exists>h g. h \<in> set (fst (merge_sets
       [(''file'', \<lparr>hs_source = ''file'', hs_hosts = [g], hs_fetch_at = 1, hs_stale = False,
                    hs_last_error = []\<rparr>)]))
     \<and> (\<exists>k \<in> {g}. h = clone_host k)"
proof -
  let ?g = "\<lparr>hr_id = ''a'', hr_address = [], hr_attributes = [], hr_source = ''file'',
             hr_healthy = True, hr_reason = [], hr_seen_at = 1, hr_priority = 10\<rparr>"
  let ?sets = "[(''file'', \<lparr>hs_source = ''file'', hs_hosts = [?g], hs_fetch_at = 1,
             hs_stale = False, hs_last_error = []\<rparr>)]"
  have mem: "clone_host ?g \<in> set (fst (merge_sets ?sets))"
    by (simp add: merge_sets_def merge_host_def)
  from merge_highest_priority [OF mem]
  have "\<exists>k \<in> {?g}. clone_host ?g = clone_host k" by (simp add: all_records_def)
  with mem show ?thesis by blast
qed

section \<open>Iteration order\<close>

text \<open>
  The merge ranges over a Go map of sources, in an order Go does not fix. Where no two
  records of one ID share a priority, the winner is unique and the result is the same for
  every order.
\<close>

definition no_ties :: "(string, host_set) gomap \<Rightarrow> bool" where
  "no_ties sets \<longleftrightarrow>
     (\<forall>g \<in> set (all_records sets). \<forall>h \<in> set (all_records sets).
        hr_id g = hr_id h \<longrightarrow> hr_priority g = hr_priority h \<longrightarrow> g = h)"

lemma all_records_perm: "mset sets = mset sets' \<Longrightarrow> mset (all_records sets) = mset (all_records sets')"
proof -
  have "mset (all_records sets) = sum_mset (image_mset (\<lambda>(_, s). mset (hs_hosts s)) (mset sets))" for sets
    by (induction sets) (auto simp: all_records_def)
  then show "mset sets = mset sets' \<Longrightarrow> ?thesis" by simp
qed

lemma sort_map_snd_eq:
  assumes "merge_inv m" "merge_inv m'" "map_of m = map_of m'"
  shows "sort_key hr_id (map snd m) = sort_key hr_id (map snd m')"
proof (rule sort_key_perm_eq)
  have "set m = set m'" using assms by (metis gm_wf_def map_of_inject_set merge_inv_def)
  then have "mset m = mset m'"
    using assms(1,2) by (metis distinct_map merge_inv_def gm_wf_def set_eq_iff_mset_eq_distinct)
  then show "mset (map snd m) = mset (map snd m')" by simp
  show "inj_on hr_id (set (map snd m))"
    using assms(1) by (metis distinct_map gm_wf_def merge_inv_def merge_inv_map_id)
qed

lemma winner_perm:
  assumes "no_ties sets" and "set (all_records sets') = set (all_records sets)"
  shows "winner i (all_records sets) None = winner i (all_records sets') None"
proof (cases "winner i (all_records sets) None")
  case None
  then have "winner i (all_records sets') None = None"
    using assms(2) winner_None by metis
  with None show ?thesis by simp
next
  case (Some g)
  then obtain h where h: "winner i (all_records sets') None = Some h"
    using assms(2) winner_None by (metis not_None_eq)
  have "g = h"
    using assms winner_mem [OF Some] winner_mem [OF h] winner_max [OF Some] winner_max [OF h]
    unfolding no_ties_def by (metis dual_order.antisym option.distinct(1))
  with Some h show ?thesis by simp
qed

text \<open>
  With no two records of one ID at the same priority the merged inventory is the same
  for every iteration order of the source map, so two nodes with the same sources agree.
\<close>

theorem merge_order_independent:
  assumes "mset sets = mset sets'" and "no_ties sets"
  shows "merge_sets sets = merge_sets sets'"
proof -
  have recs: "mset (all_records sets) = mset (all_records sets')"
    using assms(1) by (rule all_records_perm)
  then have set_eq: "set (all_records sets') = set (all_records sets)" by (metis set_mset_mset)
  obtain m c where m: "merge_sets sets = (sort_key hr_id (map snd m), c)" "merge_inv m"
    "\<And>i. map_of m i = map_option clone_host (winner i (all_records sets) None)"
    by (rule merge_sets_obtain [of sets]) blast
  obtain m' c' where m': "merge_sets sets' = (sort_key hr_id (map snd m'), c')" "merge_inv m'"
    "\<And>i. map_of m' i = map_option clone_host (winner i (all_records sets') None)"
    by (rule merge_sets_obtain [of sets']) blast
  have "map_of m = map_of m'"
    using m(3) m'(3) winner_perm [OF assms(2) set_eq] by auto
  then have "fst (merge_sets sets) = fst (merge_sets sets')"
    using sort_map_snd_eq [OF m(2) m'(2)] m(1) m'(1) by simp
  moreover have "snd (merge_sets sets) = snd (merge_sets sets')"
    using merge_count [of sets] merge_count [of sets'] set_eq recs
    by (metis add_right_cancel size_mset)
  ultimately show ?thesis by (rule prod_eqI)
qed

text \<open>The hypotheses hold together: two sources that both provide one host, at different priorities.\<close>

definition one_host :: "string \<Rightarrow> int \<Rightarrow> string \<Rightarrow> host_set" where
  "one_host source prio addr =
     \<lparr>hs_source = source,
      hs_hosts = [\<lparr>hr_id = ''a'', hr_address = addr, hr_attributes = [], hr_source = source,
                   hr_healthy = True, hr_reason = [], hr_seen_at = 1, hr_priority = prio\<rparr>],
      hs_fetch_at = 1, hs_stale = False, hs_last_error = []\<rparr>"

theorem merge_order_independent_witness:
  "merge_sets [(''file'', one_host ''file'' 10 ''x''), (''http'', one_host ''http'' 20 ''y'')]
   = merge_sets [(''http'', one_host ''http'' 20 ''y''), (''file'', one_host ''file'' 10 ''x'')]
   \<and> hr_address (hd (fst (merge_sets
        [(''file'', one_host ''file'' 10 ''x''), (''http'', one_host ''http'' 20 ''y'')]))) = ''y''"
proof -
  let ?s = "[(''file'', one_host ''file'' 10 ''x''), (''http'', one_host ''http'' 20 ''y'')]"
  let ?t = "[(''http'', one_host ''http'' 20 ''y''), (''file'', one_host ''file'' 10 ''x'')]"
  have "mset ?s = mset ?t" by simp
  moreover have "no_ties ?s" by (simp add: no_ties_def all_records_def one_host_def)
  ultimately have "merge_sets ?s = merge_sets ?t" by (rule merge_order_independent)
  then show ?thesis by (simp add: merge_sets_def merge_host_def one_host_def)
qed

text \<open>
  Without that condition the result does depend on the order: two sources that provide
  one host at the same priority give different inventories (here, different addresses) for
  the two iteration orders of the same map.
\<close>

theorem merge_tie_depends_on_order:
  "\<exists>sets sets'. mset sets = mset sets' \<and> gm_wf sets \<and> merge_sets sets \<noteq> merge_sets sets'"
proof (intro exI conjI)
  let ?s = "[(''file'', one_host ''file'' 10 ''x''), (''http'', one_host ''http'' 10 ''y'')]"
  let ?t = "[(''http'', one_host ''http'' 10 ''y''), (''file'', one_host ''file'' 10 ''x'')]"
  show "mset ?s = mset ?t" "gm_wf ?s" by (simp_all add: gm_wf_def)
  show "merge_sets ?s \<noteq> merge_sets ?t"
    by (simp add: merge_sets_def merge_host_def one_host_def clone_host_def)
qed

section \<open>Snapshots\<close>

definition snap_wf :: "snapshot \<Rightarrow> bool" where
  "snap_wf s \<longleftrightarrow>
     sorted_wrt (<) (map hr_id (sn_hosts s)) \<and>
     (\<forall>k i. map_of (sn_by_id s) k = Some i \<longleftrightarrow> i < length (sn_hosts s) \<and> hr_id (sn_hosts s ! i) = k)"

lemma index_hosts_lookup:
  assumes "distinct (map hr_id hosts)"
  shows "map_of (index_hosts hosts) k = Some i \<longleftrightarrow> i < length hosts \<and> hr_id (hosts ! i) = k"
proof -
  have "map_of (fold (\<lambda>(i, h) m. AList.update (hr_id h) i m) (enumerate n hs) m) k = Some i
        \<longleftrightarrow> (if k \<in> hr_id ` set hs then n \<le> i \<and> i - n < length hs \<and> hr_id (hs ! (i - n)) = k
            else map_of m k = Some i)"
    if "distinct (map hr_id hs)" for n hs m
    using that
  proof (induction hs arbitrary: n m)
    case (Cons h hs)
    have nth: "hr_id ((h # hs) ! (i - n)) = hr_id (hs ! (i - Suc n))" if "Suc n \<le> i"
      using that by (simp add: nth_Cons' )
    show ?case
    proof (cases "k \<in> hr_id ` set hs")
      case True
      with Cons.prems have "hr_id h \<noteq> k" by auto
      then have "(n \<le> i \<and> i - n < length (h # hs) \<and> hr_id ((h # hs) ! (i - n)) = k)
          \<longleftrightarrow> (Suc n \<le> i \<and> i - Suc n < length hs \<and> hr_id (hs ! (i - Suc n)) = k)"
        by (cases "i = n") (auto simp: nth)
      with True Cons show ?thesis by simp
    next
      case False
      have "hr_id (hs ! j) \<noteq> k" if "j < length hs" for j
        using False that by (auto simp: image_iff)
      then show ?thesis using False Cons
        by (auto simp: update_conv nth_Cons' split: if_splits)
    qed
  qed simp
  from this [OF assms, of 0 "[]"] show ?thesis
    by (auto simp: index_hosts_def image_iff dest: nth_mem)
qed

lemma build_snapshot_wf: "snap_wf (build_snapshot now s)"
proof -
  have s: "sorted_wrt (<) (map hr_id (fst (merge_sets (is_sets s))))" by (rule merge_sets_ids)
  then have "distinct (map hr_id (fst (merge_sets (is_sets s))))" by (simp add: strict_sorted_iff)
  with s show ?thesis
    by (auto simp: snap_wf_def build_snapshot_def index_hosts_lookup split: prod.splits)
qed

text \<open>
  What the rest of the system uses of a snapshot: a lookup by ID that agrees with the list.
\<close>

locale host_view =
  fixes wf :: "'s \<Rightarrow> bool" and lookup :: "'s \<Rightarrow> string \<Rightarrow> host_record option"
    and hosts :: "'s \<Rightarrow> host_record list"
  assumes lookup_iff: "wf s \<Longrightarrow> lookup s k = Some h \<longleftrightarrow> h \<in> set (hosts s) \<and> hr_id h = k"
begin

lemma lookup_None_iff: "wf s \<Longrightarrow> lookup s k = None \<longleftrightarrow> k \<notin> hr_id ` set (hosts s)"
  by (metis (no_types, opaque_lifting) imageE lookup_iff not_Some_eq rev_image_eqI)

lemma id_unique: "wf s \<Longrightarrow> g \<in> set (hosts s) \<Longrightarrow> h \<in> set (hosts s) \<Longrightarrow> hr_id g = hr_id h \<Longrightarrow> g = h"
  by (metis lookup_iff option.inject)

lemma lookup_id: "wf s \<Longrightarrow> lookup s k = Some h \<Longrightarrow> hr_id h = k"
  by (simp add: lookup_iff)

end

interpretation sv: host_view snap_wf snap_get sn_hosts
proof
  fix s k h
  assume "snap_wf s"
  then show "snap_get s k = Some h \<longleftrightarrow> h \<in> set (sn_hosts s) \<and> hr_id h = k"
    unfolding snap_get_def snap_wf_def
    by (auto simp: in_set_conv_nth strict_sorted_iff distinct_conv_nth split: option.splits)
      (metis option.distinct(1))
qed

section \<open>The store\<close>

definition store_inv :: "inv_store \<Rightarrow> bool" where
  "store_inv s \<longleftrightarrow>
     gm_wf (is_sets s) \<and>
     (\<forall>name hset. (name, hset) \<in> set (is_sets s) \<longrightarrow> hs_source hset = name) \<and>
     (\<forall>snap. is_snap s = Some snap \<longrightarrow> snap = build_snapshot (sn_taken_at snap) s)"

lemma build_snapshot_cong:
  "is_sets s = is_sets t \<Longrightarrow> is_gen s = is_gen t \<Longrightarrow> build_snapshot now s = build_snapshot now t"
  by (simp add: build_snapshot_def)

lemma sn_taken_at_build [simp]: "sn_taken_at (build_snapshot now s) = now"
  by (simp add: build_snapshot_def split: prod.splits)

lemma store_inv_new: "store_inv new_inv_store"
  by (simp add: store_inv_def new_inv_store_def)

lemma store_inv_replace: "store_inv s \<Longrightarrow> store_inv (inv_replace hset s)"
  by (auto simp: store_inv_def inv_replace_def dest!: set_update_snd)

lemma store_inv_remove: "store_inv s \<Longrightarrow> store_inv (inv_remove source s)"
  by (auto simp: store_inv_def inv_remove_def AList.delete_eq gm_wf_filter)

lemma store_inv_snapshot: "store_inv s \<Longrightarrow> store_inv (snd (inv_snapshot now s))"
  by (auto simp: store_inv_def inv_snapshot_def Let_def split: option.splits
      intro: build_snapshot_cong)

interpretation ism: inv_machine inv_step store_inv
proof
  show "store_inv s \<Longrightarrow> store_inv (inv_step e s)" for s e
    by (cases e) (simp_all add: store_inv_replace store_inv_remove store_inv_snapshot)
qed

text \<open>
  After any sequence of replacements, removals and reads, a snapshot taken from the store
  is the merge of the sets installed at that moment, under the current generation: the cache
  never serves a view from before the last change. It is also well formed, so a lookup by ID
  agrees with the canonical list.
\<close>

theorem snapshot_coherent:
  fixes ops :: "inv_op list"
  defines "s \<equiv> fold inv_step ops new_inv_store"
  shows "sn_hosts (fst (inv_snapshot now s)) = fst (merge_sets (is_sets s))
         \<and> sn_generation (fst (inv_snapshot now s)) = inv_generation s
         \<and> snap_wf (fst (inv_snapshot now s))"
proof -
  have inv: "store_inv s" unfolding s_def by (rule ism.run_keeps [OF store_inv_new])
  obtain t where t: "fst (inv_snapshot now s) = build_snapshot t s"
    using inv by (cases "is_snap s") (auto simp: inv_snapshot_def Let_def store_inv_def)
  show ?thesis
    unfolding t by (auto simp: build_snapshot_wf inv_generation_def)
      (simp_all add: build_snapshot_def split: prod.splits)
qed

text \<open>
  Replacing the set of a source is atomic and local: the new set is installed whole, the
  sets of the other sources are untouched, and the generation moves, as it does when an
  existing source is removed; removing an absent source changes nothing.
\<close>

theorem replace_remove_local:
  "map_of (is_sets (inv_replace hset s)) = (map_of (is_sets s))(hs_source hset \<mapsto> hset)
   \<and> map_of (is_sets (inv_remove src s)) = (map_of (is_sets s))(src := None)
   \<and> inv_generation (inv_replace hset s) = inv_generation s + 1
   \<and> inv_generation (inv_remove src s)
       = (if map_of (is_sets s) src = None then inv_generation s else inv_generation s + 1)
   \<and> (map_of (is_sets s) src = None \<longleftrightarrow> inv_remove src s = s)"
proof -
  have del: "map_of (AList.delete src (is_sets s)) = (map_of (is_sets s))(src := None)"
    by (simp add: delete_conv')
  have ne: "inv_remove src s \<noteq> s" if "map_of (is_sets s) src \<noteq> None"
  proof
    assume "inv_remove src s = s"
    then have "is_gen s + 1 = is_gen s"
      using that by (metis (no_types, lifting) inv_remove_def inv_store.select_convs(2)
          inv_store.surjective inv_store.update_convs(1-3))
    then show False by simp
  qed
  show ?thesis
    using del ne by (auto simp: inv_replace_def inv_remove_def inv_generation_def update_conv
        fun_upd_idem)
qed

end
