(* ===== verification/Config.thy ===== *)
theory Config
  imports Prelude Numerics
begin

text \<open>
  Models \<open>internal/config\<close>: the configuration structs of \<open>config.go\<close>, the defaults
  of \<open>defaults.go\<close>, and from \<open>load.go\<close> \<open>normalise\<close>, \<open>Validate\<close>,
  \<open>Equal\<close>, \<open>TopologyChanged\<close> and \<open>Redacted\<close>. The JSON form is in
  \<open>ConfigJson\<close>; here \<open>Parse\<close> starts from the decoded value. \<open>Validate\<close> returns the list of
  the problems it finds, one value of \<open>cfg_error\<close> for each message of the code.
\<close>

section \<open>The configuration\<close>

record file_config =
  fc_enabled :: bool
  fc_path :: string
  fc_interval :: dur
  fc_priority :: int

record http_config =
  hc_enabled :: bool
  hc_url :: string
  hc_interval :: dur
  hc_timeout :: dur
  hc_cache_path :: string
  hc_cache_max_age :: dur
  hc_auth_header :: string
  hc_auth_header_file :: string
  hc_ca_file :: string
  hc_insecure_tls :: bool
  hc_backoff_min :: dur
  hc_backoff_max :: dur
  hc_priority :: int

record k8s_config =
  kc_enabled :: bool
  kc_cluster_name :: string
  kc_kubeconfig :: string
  kc_resync :: dur
  kc_interval :: dur
  kc_debounce :: dur
  kc_label_selector :: string
  kc_address_order :: "string list"
  kc_taint_deny :: "string list"
  kc_annotation_allow :: "string list"
  kc_priority :: int

record providers_config =
  pv_file :: file_config
  pv_http :: http_config
  pv_k8s :: k8s_config

record zone_key_spec =
  zk_key :: string
  zk_transform :: string

record zone_config =
  zc_keys :: "zone_key_spec list"
  zc_separator :: string
  zc_missing :: string

record pairings_config =
  pc_intra_zone :: bool
  pc_include :: "string list"
  pc_exclude :: "string list"
  pc_max_pairings :: int

record slots_config =
  sc_count :: int
  sc_anchor_ratio :: f64
  sc_anchor_rounding :: string
  sc_super_hosts :: int
  sc_super_selector :: "(string, string) gomap"
  sc_super_max_targets :: int
  sc_allow_reuse :: bool
  sc_rebalance_on_add :: bool

record health_config =
  he_unhealthy_after :: int
  he_release_hold :: dur
  he_healthy_after :: int
  he_initial_grace :: dur
  he_missing_grace :: dur
  he_dns_grace :: dur
  he_flap_threshold :: int
  he_flap_window :: dur
  he_flap_cooldown :: dur
  he_pairing_removal_hold :: dur
  he_reclaim :: bool

record icmp_config =
  ic_enabled :: bool
  ic_interval :: dur
  ic_count :: int
  ic_payload_bytes :: int
  ic_timeout :: dur
  ic_ttl :: int
  ic_df :: bool

record udp_config =
  uc_enabled :: bool
  uc_interval :: dur
  uc_count :: int
  uc_payload_bytes :: int
  uc_port :: int
  uc_timeout :: dur

record tcp_config =
  tc_enabled :: bool
  tc_interval :: dur
  tc_count :: int
  tc_payload_bytes :: int
  tc_port :: int
  tc_timeout :: dur
  tc_mode :: string

record probes_config =
  pr_cycle :: dur
  pr_window :: dur
  pr_icmp :: icmp_config
  pr_udp :: udp_config
  pr_tcp :: tcp_config

record responder_config =
  rc_enabled :: bool
  rc_udp_listen :: string
  rc_tcp_listen :: string

record meshping_config =
  mp_path :: string
  mp_restart_backoff_min :: dur
  mp_restart_backoff_max :: dur
  mp_hello_timeout :: dur

record persist_config =
  ps_path :: string
  ps_debounce :: dur
  ps_max_delay :: dur

record metrics_config =
  mc_max_series :: int
  mc_rtt_buckets :: "f64 list"
  mc_percentiles :: "f64 list"

record log_config =
  lc_level :: string
  lc_format :: string

record config =
  cf_node_id :: string
  cf_providers :: providers_config
  cf_zone :: zone_config
  cf_pairings :: pairings_config
  cf_slots :: slots_config
  cf_health :: health_config
  cf_probes :: probes_config
  cf_responder :: responder_config
  cf_meshping :: meshping_config
  cf_reconcile_interval :: dur
  cf_persist :: persist_config
  cf_api_listen :: string
  cf_metrics :: metrics_config
  cf_log :: log_config

section \<open>Defaults\<close>

definition half :: f64 where "half = F64 1 (-1)"

text \<open>Float literals, as the nearest float64.\<close>

definition default_buckets :: "f64 list" where
  "default_buckets =
     [F64 1152921504606847 (-61), F64 1152921504606847 (-60), F64 1152921504606847 (-59),
      F64 5764607523034235 (-60), F64 5764607523034235 (-59), F64 3602879701896397 (-57),
      F64 3602879701896397 (-56), F64 3602879701896397 (-55), F64 1 (-2), half, F64 1 0]"

definition default_percentiles :: "f64 list" where
  "default_percentiles = [half, F64 8106479329266893 (-53), F64 4458563631096791 (-52)]"

definition default_probes :: probes_config where
  "default_probes =
     \<lparr>pr_cycle = 15 * second, pr_window = 60 * second,
      pr_icmp = \<lparr>ic_enabled = True, ic_interval = second, ic_count = 10, ic_payload_bytes = 56,
                 ic_timeout = second, ic_ttl = 64, ic_df = False\<rparr>,
      pr_udp = \<lparr>uc_enabled = True, uc_interval = second, uc_count = 10, uc_payload_bytes = 64,
                uc_port = 8472, uc_timeout = second\<rparr>,
      pr_tcp = \<lparr>tc_enabled = True, tc_interval = 5 * second, tc_count = 5,
                tc_payload_bytes = 64, tc_port = 9100, tc_timeout = 2 * second,
                tc_mode = ''connect''\<rparr>\<rparr>"

definition default_config :: config where
  "default_config =
     \<lparr>cf_node_id = [],
      cf_providers =
        \<lparr>pv_file = \<lparr>fc_enabled = False, fc_path = ''/etc/meshd/inventory.json'',
                    fc_interval = 60 * second, fc_priority = 10\<rparr>,
         pv_http = \<lparr>hc_enabled = False, hc_url = [], hc_interval = 60 * second,
                    hc_timeout = 10 * second, hc_cache_path = ''/var/lib/meshd/inventory.json'',
                    hc_cache_max_age = 24 * 3600 * second, hc_auth_header = [],
                    hc_auth_header_file = [], hc_ca_file = [], hc_insecure_tls = False,
                    hc_backoff_min = 5 * second, hc_backoff_max = 300 * second,
                    hc_priority = 20\<rparr>,
         pv_k8s = \<lparr>kc_enabled = False, kc_cluster_name = [], kc_kubeconfig = [],
                   kc_resync = 300 * second, kc_interval = 60 * second,
                   kc_debounce = 2 * second, kc_label_selector = [],
                   kc_address_order = [''InternalIP'', ''Hostname''],
                   kc_taint_deny = [''node.kubernetes.io/unreachable'',
                     ''node.kubernetes.io/not-ready'', ''node.kubernetes.io/unschedulable''],
                   kc_annotation_allow = [], kc_priority = 30\<rparr>\<rparr>,
      cf_zone = \<lparr>zc_keys = [\<lparr>zk_key = ''metro'', zk_transform = []\<rparr>,
                            \<lparr>zk_key = ''dc_instance'', zk_transform = []\<rparr>],
                 zc_separator = ''/'', zc_missing = ''exclude''\<rparr>,
      cf_pairings = \<lparr>pc_intra_zone = False, pc_include = [], pc_exclude = [],
                     pc_max_pairings = 5000\<rparr>,
      cf_slots = \<lparr>sc_count = 4, sc_anchor_ratio = half, sc_anchor_rounding = ''up'',
                  sc_super_hosts = 0, sc_super_selector = [], sc_super_max_targets = 50,
                  sc_allow_reuse = True, sc_rebalance_on_add = False\<rparr>,
      cf_health = \<lparr>he_unhealthy_after = 3, he_release_hold = 60 * second, he_healthy_after = 2,
                   he_initial_grace = 90 * second, he_missing_grace = 60 * second,
                   he_dns_grace = 120 * second, he_flap_threshold = 3,
                   he_flap_window = 600 * second, he_flap_cooldown = 900 * second,
                   he_pairing_removal_hold = 300 * second, he_reclaim = False\<rparr>,
      cf_probes = default_probes,
      cf_responder = \<lparr>rc_enabled = True, rc_udp_listen = ''0.0.0.0:8472'',
                      rc_tcp_listen = ''0.0.0.0:9100''\<rparr>,
      cf_meshping = \<lparr>mp_path = ''/usr/local/bin/meshping'', mp_restart_backoff_min = second,
                     mp_restart_backoff_max = 30 * second, mp_hello_timeout = 5 * second\<rparr>,
      cf_reconcile_interval = 30 * second,
      cf_persist = \<lparr>ps_path = ''/var/lib/meshd/state.json'', ps_debounce = 60 * second,
                    ps_max_delay = 300 * second\<rparr>,
      cf_api_listen = ''0.0.0.0:9101'',
      cf_metrics = \<lparr>mc_max_series = 200000, mc_rtt_buckets = default_buckets,
                    mc_percentiles = default_percentiles\<rparr>,
      cf_log = \<lparr>lc_level = ''info'', lc_format = ''json''\<rparr>\<rparr>"

section \<open>Normalisation\<close>

text \<open>\<open>hostname\<close> is what \<open>os.Hostname\<close> answers, \<open>None\<close> for its error.\<close>

definition norm_node :: "string option \<Rightarrow> config \<Rightarrow> config" where
  "norm_node hostname c =
     (if cf_node_id c = [] then
        (case hostname of Some h \<Rightarrow> c\<lparr>cf_node_id := h\<rparr> | None \<Rightarrow> c) else c)"

definition norm_zone :: "zone_config \<Rightarrow> zone_config" where
  "norm_zone z =
     (let z1 = (if zc_separator z = [] then z\<lparr>zc_separator := ''/''\<rparr> else z)
      in if zc_missing z1 = [] then z1\<lparr>zc_missing := ''exclude''\<rparr> else z1)"

definition norm_slots :: "slots_config \<Rightarrow> slots_config" where
  "norm_slots s = (if sc_anchor_rounding s = [] then s\<lparr>sc_anchor_rounding := ''up''\<rparr> else s)"

definition norm_probes :: "probes_config \<Rightarrow> probes_config" where
  "norm_probes p =
     (if tc_mode (pr_tcp p) = [] then p\<lparr>pr_tcp := (pr_tcp p)\<lparr>tc_mode := ''connect''\<rparr>\<rparr> else p)"

definition norm_persist :: "persist_config \<Rightarrow> persist_config" where
  "norm_persist q =
     (if ps_max_delay q < ps_debounce q
      then q\<lparr>ps_max_delay := wrap64 (5 * ps_debounce q)\<rparr> else q)"

definition normalise :: "string option \<Rightarrow> config \<Rightarrow> config" where
  "normalise hostname c =
     (let c1 = norm_node hostname c
      in c1\<lparr>cf_zone := norm_zone (cf_zone c1), cf_slots := norm_slots (cf_slots c1),
            cf_probes := norm_probes (cf_probes c1), cf_persist := norm_persist (cf_persist c1)\<rparr>)"

section \<open>Validation\<close>

datatype probe_name = PnICMP | PnUDP | PnTCP

datatype cfg_error =
    NodeIdEmpty | NoProvider | FilePathEmpty | HttpUrlEmpty | HttpUrlScheme | HttpCachePathEmpty
  | HttpIntervalShort | K8sClusterEmpty | ZoneKeysEmpty | ZoneKeyEmpty nat | ZoneMissingBad
  | MaxPairingsBad | SlotsCountBad | AnchorRatioBad | AnchorRoundingBad | SuperHostsBad
  | SuperMaxTargetsBad | UnhealthyAfterBad | HealthyAfterBad | CycleBad | WindowShort | NoProbe
  | ProbeCountBad probe_name | ProbePayloadBad probe_name | ProbeTimeoutBad probe_name
  | ProbeIntervalBad probe_name | UdpPortBad | TcpPortBad | TcpModeBad | MeshPingPathEmpty
  | PersistPathEmpty | DebounceBad | ApiListenEmpty | MaxSeriesBad | PercentileBad

definition report :: "bool \<Rightarrow> 'e \<Rightarrow> 'e list" where
  "report b e = (if b then [e] else [])"

definition validate_providers :: "providers_config \<Rightarrow> cfg_error list" where
  "validate_providers p =
     (let f = pv_file p; h = pv_http p; k = pv_k8s p
      in report (\<not> fc_enabled f \<and> \<not> hc_enabled h \<and> \<not> kc_enabled k) NoProvider
       @ report (fc_enabled f \<and> fc_path f = []) FilePathEmpty
       @ (if hc_enabled h then
            (if hc_url h = [] then [HttpUrlEmpty]
             else report (\<not> has_prefix (hc_url h) ''http://'' \<and> \<not> has_prefix (hc_url h) ''https://'')
                    HttpUrlScheme)
            @ report (hc_cache_path h = []) HttpCachePathEmpty
            @ report (hc_interval h < second) HttpIntervalShort
          else [])
       @ report (kc_enabled k \<and> kc_cluster_name k = []) K8sClusterEmpty)"

definition validate_zone :: "zone_config \<Rightarrow> cfg_error list" where
  "validate_zone z =
     report (zc_keys z = []) ZoneKeysEmpty
     @ concat (map (\<lambda>(i, k). report (zk_key k = []) (ZoneKeyEmpty i)) (enumerate 0 (zc_keys z)))
     @ report (\<not> (zc_missing z = ''exclude'' \<or> zc_missing z = ''empty''
               \<or> has_prefix (zc_missing z) ''literal:'')) ZoneMissingBad"

definition validate_slots :: "slots_config \<Rightarrow> cfg_error list" where
  "validate_slots s =
     report (sc_count s \<le> 0) SlotsCountBad
     @ report (f64_less (sc_anchor_ratio s) (F64 0 0) \<or> f64_less (F64 1 0) (sc_anchor_ratio s))
         AnchorRatioBad
     @ report (sc_anchor_rounding s \<noteq> ''up'' \<and> sc_anchor_rounding s \<noteq> ''down'') AnchorRoundingBad
     @ report (sc_super_hosts s < 0) SuperHostsBad
     @ report (sc_super_max_targets s \<le> 0) SuperMaxTargetsBad"

definition validate_probe ::
  "probe_name \<Rightarrow> bool \<Rightarrow> int \<Rightarrow> int \<Rightarrow> dur \<Rightarrow> dur \<Rightarrow> cfg_error list" where
  "validate_probe name enabled cnt payload iv tmo =
     (if \<not> enabled then []
      else report (cnt \<le> 0) (ProbeCountBad name) @ report (payload < 8) (ProbePayloadBad name)
           @ report (tmo \<le> 0) (ProbeTimeoutBad name) @ report (iv < 0) (ProbeIntervalBad name))"

definition validate_probes :: "probes_config \<Rightarrow> cfg_error list" where
  "validate_probes p =
     (let i = pr_icmp p; u = pr_udp p; t = pr_tcp p
      in report (pr_cycle p \<le> 0) CycleBad
       @ report (pr_window p < pr_cycle p) WindowShort
       @ report (\<not> ic_enabled i \<and> \<not> uc_enabled u \<and> \<not> tc_enabled t) NoProbe
       @ validate_probe PnICMP (ic_enabled i) (ic_count i) (ic_payload_bytes i) (ic_interval i)
           (ic_timeout i)
       @ validate_probe PnUDP (uc_enabled u) (uc_count u) (uc_payload_bytes u) (uc_interval u)
           (uc_timeout u)
       @ validate_probe PnTCP (tc_enabled t) (tc_count t) (tc_payload_bytes t) (tc_interval t)
           (tc_timeout t)
       @ report (uc_enabled u \<and> (uc_port u \<le> 0 \<or> uc_port u > 65535)) UdpPortBad
       @ (if tc_enabled t then
            report (tc_port t \<le> 0 \<or> tc_port t > 65535) TcpPortBad
            @ report (tc_mode t \<noteq> ''connect'' \<and> tc_mode t \<noteq> ''echo'') TcpModeBad
          else []))"

definition validate :: "config \<Rightarrow> cfg_error list" where
  "validate c =
     report (cf_node_id c = []) NodeIdEmpty
     @ validate_providers (cf_providers c)
     @ validate_zone (cf_zone c)
     @ report (pc_max_pairings (cf_pairings c) \<le> 0) MaxPairingsBad
     @ validate_slots (cf_slots c)
     @ report (he_unhealthy_after (cf_health c) \<le> 0) UnhealthyAfterBad
     @ report (he_healthy_after (cf_health c) \<le> 0) HealthyAfterBad
     @ validate_probes (cf_probes c)
     @ report (ic_enabled (pr_icmp (cf_probes c)) \<and> mp_path (cf_meshping c) = []) MeshPingPathEmpty
     @ report (ps_path (cf_persist c) = []) PersistPathEmpty
     @ report (ps_debounce (cf_persist c) \<le> 0) DebounceBad
     @ report (cf_api_listen c = []) ApiListenEmpty
     @ report (mc_max_series (cf_metrics c) \<le> 0) MaxSeriesBad
     @ concat (map (\<lambda>q. report (f64_le q (F64 0 0) \<or> f64_le (F64 1 0) q) PercentileBad)
         (mc_percentiles (cf_metrics c)))"

text \<open>\<open>Parse\<close> after the decoding: normalise, validate, and return no invalid value.\<close>

definition parse_config :: "string option \<Rightarrow> config \<Rightarrow> cfg_error list + config" where
  "parse_config hostname decoded =
     (let c = normalise hostname decoded; errs = validate c
      in if errs \<noteq> [] then Inl errs else Inr c)"

section \<open>Comparison and redaction\<close>

text \<open>
  \<open>reflect.DeepEqual\<close>, where the selector map is compared as a map. (It also tells a nil slice
  or map from an empty one, which the model does not.)
\<close>

definition slots_equal :: "slots_config \<Rightarrow> slots_config \<Rightarrow> bool" where
  "slots_equal a b \<longleftrightarrow>
     a\<lparr>sc_super_selector := []\<rparr> = b\<lparr>sc_super_selector := []\<rparr>
     \<and> set (sc_super_selector a) = set (sc_super_selector b)"

definition config_equal :: "config option \<Rightarrow> config option \<Rightarrow> bool" where
  "config_equal c d =
     (case (c, d) of
        (Some a, Some b) \<Rightarrow> a\<lparr>cf_slots := cf_slots b\<rparr> = b \<and> slots_equal (cf_slots a) (cf_slots b)
      | (None, None) \<Rightarrow> True
      | _ \<Rightarrow> False)"

definition topology_changed :: "config option \<Rightarrow> config option \<Rightarrow> bool" where
  "topology_changed c d =
     (case (c, d) of
        (Some a, Some b) \<Rightarrow> cf_zone a \<noteq> cf_zone b \<or> cf_pairings a \<noteq> cf_pairings b
                            \<or> \<not> slots_equal (cf_slots a) (cf_slots b)
      | _ \<Rightarrow> True)"

definition redacted :: "config \<Rightarrow> config" where
  "redacted c =
     (let p = cf_providers c; h = pv_http p
      in if hc_auth_header h \<noteq> []
         then c\<lparr>cf_providers := p\<lparr>pv_http := h\<lparr>hc_auth_header := ''[redacted]''\<rparr>\<rparr>\<rparr> else c)"

section \<open>What validation promises\<close>

lemma report_Nil [simp]: "report b e = [] \<longleftrightarrow> \<not> b"
  by (simp add: report_def)

text \<open>The conditions of a usable configuration, stated positively.\<close>

definition probe_ok :: "int \<Rightarrow> int \<Rightarrow> dur \<Rightarrow> dur \<Rightarrow> bool" where
  "probe_ok cnt payload iv tmo \<longleftrightarrow> 0 < cnt \<and> 8 \<le> payload \<and> 0 < tmo \<and> 0 \<le> iv"

definition providers_ok :: "providers_config \<Rightarrow> bool" where
  "providers_ok p \<longleftrightarrow>
     (fc_enabled (pv_file p) \<or> hc_enabled (pv_http p) \<or> kc_enabled (pv_k8s p))
     \<and> (fc_enabled (pv_file p) \<longrightarrow> fc_path (pv_file p) \<noteq> [])
     \<and> (hc_enabled (pv_http p) \<longrightarrow>
          (has_prefix (hc_url (pv_http p)) ''http://'' \<or> has_prefix (hc_url (pv_http p)) ''https://'')
          \<and> hc_cache_path (pv_http p) \<noteq> [] \<and> second \<le> hc_interval (pv_http p))
     \<and> (kc_enabled (pv_k8s p) \<longrightarrow> kc_cluster_name (pv_k8s p) \<noteq> [])"

definition zone_ok :: "zone_config \<Rightarrow> bool" where
  "zone_ok z \<longleftrightarrow>
     zc_keys z \<noteq> [] \<and> (\<forall>k \<in> set (zc_keys z). zk_key k \<noteq> [])
     \<and> (zc_missing z = ''exclude'' \<or> zc_missing z = ''empty'' \<or> has_prefix (zc_missing z) ''literal:'')"

definition slots_ok :: "slots_config \<Rightarrow> bool" where
  "slots_ok s \<longleftrightarrow>
     0 < sc_count s \<and> f64_le (F64 0 0) (sc_anchor_ratio s) \<and> f64_le (sc_anchor_ratio s) (F64 1 0)
     \<and> (sc_anchor_rounding s = ''up'' \<or> sc_anchor_rounding s = ''down'')
     \<and> 0 \<le> sc_super_hosts s \<and> 0 < sc_super_max_targets s"

definition probes_ok :: "probes_config \<Rightarrow> bool" where
  "probes_ok p \<longleftrightarrow>
     0 < pr_cycle p \<and> pr_cycle p \<le> pr_window p
     \<and> (ic_enabled (pr_icmp p) \<or> uc_enabled (pr_udp p) \<or> tc_enabled (pr_tcp p))
     \<and> (ic_enabled (pr_icmp p) \<longrightarrow> probe_ok (ic_count (pr_icmp p)) (ic_payload_bytes (pr_icmp p))
          (ic_interval (pr_icmp p)) (ic_timeout (pr_icmp p)))
     \<and> (uc_enabled (pr_udp p) \<longrightarrow> probe_ok (uc_count (pr_udp p)) (uc_payload_bytes (pr_udp p))
          (uc_interval (pr_udp p)) (uc_timeout (pr_udp p))
          \<and> 0 < uc_port (pr_udp p) \<and> uc_port (pr_udp p) \<le> 65535)
     \<and> (tc_enabled (pr_tcp p) \<longrightarrow> probe_ok (tc_count (pr_tcp p)) (tc_payload_bytes (pr_tcp p))
          (tc_interval (pr_tcp p)) (tc_timeout (pr_tcp p))
          \<and> 0 < tc_port (pr_tcp p) \<and> tc_port (pr_tcp p) \<le> 65535
          \<and> (tc_mode (pr_tcp p) = ''connect'' \<or> tc_mode (pr_tcp p) = ''echo''))"

definition config_ok :: "config \<Rightarrow> bool" where
  "config_ok c \<longleftrightarrow>
     cf_node_id c \<noteq> [] \<and> providers_ok (cf_providers c) \<and> zone_ok (cf_zone c)
     \<and> 0 < pc_max_pairings (cf_pairings c) \<and> slots_ok (cf_slots c)
     \<and> 0 < he_unhealthy_after (cf_health c) \<and> 0 < he_healthy_after (cf_health c)
     \<and> probes_ok (cf_probes c)
     \<and> (ic_enabled (pr_icmp (cf_probes c)) \<longrightarrow> mp_path (cf_meshping c) \<noteq> [])
     \<and> ps_path (cf_persist c) \<noteq> [] \<and> 0 < ps_debounce (cf_persist c) \<and> cf_api_listen c \<noteq> []
     \<and> 0 < mc_max_series (cf_metrics c)
     \<and> (\<forall>q \<in> set (mc_percentiles (cf_metrics c)). f64_less (F64 0 0) q \<and> f64_less q (F64 1 0))"

lemma validate_providers_ok: "validate_providers p = [] \<longleftrightarrow> providers_ok p"
  by (auto simp: validate_providers_def providers_ok_def Let_def not_less)

lemma validate_zone_ok: "validate_zone z = [] \<longleftrightarrow> zone_ok z"
proof -
  have "(\<forall>i k. (i, k) \<in> set (enumerate n ks) \<longrightarrow> P k) \<longleftrightarrow> (\<forall>k \<in> set ks. P k)" for n ks and P :: "zone_key_spec \<Rightarrow> bool"
    by (induction ks arbitrary: n) auto
  from this [of 0 "zc_keys z" "\<lambda>k. zk_key k \<noteq> []"] show ?thesis
    by (auto simp: validate_zone_def zone_ok_def)
qed

lemma validate_slots_ok: "validate_slots s = [] \<longleftrightarrow> slots_ok s"
  by (auto simp: validate_slots_def slots_ok_def f64_le_def not_less not_le)

lemma validate_probe_ok: "validate_probe n e c p iv t = [] \<longleftrightarrow> (e \<longrightarrow> probe_ok c p iv t)"
  by (auto simp: validate_probe_def probe_ok_def not_less not_le)

lemma validate_probes_ok: "validate_probes p = [] \<longleftrightarrow> probes_ok p"
  by (auto simp: validate_probes_def probes_ok_def Let_def validate_probe_ok not_less not_le)

text \<open>
  \<open>Validate\<close> reports no problem exactly for the configurations that satisfy every
  condition of the specification, so nothing invalid passes and nothing valid is refused.
\<close>

theorem validate_iff_ok: "validate c = [] \<longleftrightarrow> config_ok c"
  by (auto simp: validate_def config_ok_def validate_providers_ok validate_zone_ok
      validate_slots_ok validate_probes_ok f64_le_def not_less not_le)

lemma norm_node_frame [simp]:
  "cf_zone (norm_node h c) = cf_zone c" "cf_slots (norm_node h c) = cf_slots c"
  "cf_probes (norm_node h c) = cf_probes c" "cf_persist (norm_node h c) = cf_persist c"
  by (simp_all add: norm_node_def split: option.split)

lemma norm_idem:
  "norm_zone (norm_zone z) = norm_zone z" "norm_slots (norm_slots s) = norm_slots s"
  "norm_probes (norm_probes p) = norm_probes p" "norm_persist (norm_persist q) = norm_persist q"
  by (simp_all add: norm_zone_def norm_slots_def norm_probes_def norm_persist_def Let_def)

lemma norm_node_normalise: "norm_node h (normalise h c) = normalise h c"
  by (cases h) (simp_all add: norm_node_def normalise_def Let_def)

lemma normalise_idem: "normalise h (normalise h c) = normalise h c"
proof -
  let ?n = "normalise h c"
  have z: "norm_zone (cf_zone ?n) = cf_zone ?n" "norm_slots (cf_slots ?n) = cf_slots ?n"
    "norm_probes (cf_probes ?n) = cf_probes ?n" "norm_persist (cf_persist ?n) = cf_persist ?n"
    by (simp_all add: normalise_def Let_def norm_idem)
  have "normalise h ?n = ?n\<lparr>cf_zone := cf_zone ?n, cf_slots := cf_slots ?n,
          cf_probes := cf_probes ?n, cf_persist := cf_persist ?n\<rparr>"
    using z by (simp add: normalise_def [of h ?n] norm_node_normalise Let_def)
  then show ?thesis by simp
qed

text \<open>
  A configuration that \<open>Parse\<close> returns is valid, is a fixed point of the normalisation
  (parsing what was parsed changes nothing), and its write postponement bound is not below the
  debounce unless five times the debounce overflows 64 bits.
\<close>

theorem parse_config_valid:
  assumes "parse_config h d = Inr c"
  shows "config_ok c \<and> parse_config h c = Inr c
         \<and> (5 * ps_debounce (cf_persist c) \<le> max_int64 \<longrightarrow>
              ps_debounce (cf_persist c) \<le> ps_max_delay (cf_persist c))"
proof -
  from assms have c: "c = normalise h d" and v: "validate c = []"
    by (auto simp: parse_config_def Let_def split: if_splits)
  from v have ok: "config_ok c" by (simp add: validate_iff_ok)
  have again: "parse_config h c = Inr c"
    using v by (simp add: parse_config_def c normalise_idem)
  have q: "cf_persist c = norm_persist (cf_persist d)"
    by (simp add: c normalise_def Let_def)
  have "ps_debounce (cf_persist c) \<le> ps_max_delay (cf_persist c)"
    if "5 * ps_debounce (cf_persist c) \<le> max_int64"
  proof -
    have pos: "0 < ps_debounce (cf_persist c)" using ok by (simp add: config_ok_def)
    then have "wrap64 (5 * ps_debounce (cf_persist c)) = 5 * ps_debounce (cf_persist c)"
      using that by (intro wrap64_id) (auto simp: min_int64_def)
    then show ?thesis using pos by (auto simp: q norm_persist_def)
  qed
  with ok again show ?thesis by blast
qed

text \<open>The defaults with the file provider on are such a configuration.\<close>

definition file_only :: config where
  "file_only = default_config
     \<lparr>cf_providers := (cf_providers default_config)
        \<lparr>pv_file := (pv_file (cf_providers default_config))\<lparr>fc_enabled := True\<rparr>\<rparr>\<rparr>"

theorem parse_config_valid_witness:
  "\<exists>c. parse_config (Some ''n1'') file_only = Inr c \<and> config_ok c \<and> cf_node_id c = ''n1''
     \<and> ps_debounce (cf_persist c) \<le> ps_max_delay (cf_persist c)"
proof -
  let ?c = "normalise (Some ''n1'') file_only"
  have v: "validate ?c = []" by code_simp
  then have p: "parse_config (Some ''n1'') file_only = Inr ?c" by (simp add: parse_config_def)
  have "5 * ps_debounce (cf_persist ?c) \<le> max_int64" "cf_node_id ?c = ''n1''" by code_simp+
  with parse_config_valid [OF p] p show ?thesis by blast
qed

end
