(* ===== verification/Slot.thy ===== *)
theory Slot
  imports Inventory Config
begin

text \<open>
  Models \<open>internal/slot/slot.go\<close>: the class layout of a slot table, the candidate list of
  one side of a pairing with its use counts, the three-rank scan that picks a host for an empty
  side, the anchor pick and the choice of super hosts. The lemmas show that a layout splits the
  slot count, what each rank of a pick promises and when nothing is picked, and that the super
  hosts are sticky, eligible members of the zone, as many as possible.
\<close>

section \<open>Classes, sides, ranks\<close>

definition class_anchor :: string where "class_anchor = ''anchor''"
definition class_diverse :: string where "class_diverse = ''diverse''"
definition class_super :: string where "class_super = ''super''"

datatype side = SideA | SideB

fun side_string :: "side \<Rightarrow> string" where
  "side_string SideA = ''a''"
| "side_string SideB = ''b''"

instantiation side :: linorder
begin

definition less_eq_side :: "side \<Rightarrow> side \<Rightarrow> bool" where
  "less_eq_side s t \<longleftrightarrow> s = SideA \<or> t = SideB"

definition less_side :: "side \<Rightarrow> side \<Rightarrow> bool" where
  "less_side s t \<longleftrightarrow> s = SideA \<and> t = SideB"

instance
proof
  fix x y z :: side
  show "x < y \<longleftrightarrow> x \<le> y \<and> \<not> y \<le> x" "x \<le> x" "x \<le> y \<Longrightarrow> y \<le> z \<Longrightarrow> x \<le> z"
    "x \<le> y \<Longrightarrow> y \<le> x \<Longrightarrow> x = y" "x \<le> y \<or> y \<le> x"
    by (cases x; cases y; cases z; simp add: less_eq_side_def less_side_def)+
qed

end

definition rank_unfilled :: int where "rank_unfilled = 0"
definition rank_unique :: int where "rank_unique = 1"
definition rank_min_use :: int where "rank_min_use = 2"
definition rank_any :: int where "rank_any = 3"

lemmas rank_defs = rank_unfilled_def rank_unique_def rank_min_use_def rank_any_def
lemmas class_defs = class_anchor_def class_diverse_def class_super_def

section \<open>The layout\<close>

record layout =
  ly_total :: int
  ly_anchors :: int
  ly_diverse :: int

definition compute_layout :: "slots_config \<Rightarrow> layout" where
  "compute_layout cfg =
     (let total = (if sc_count cfg < 0 then 0 else sc_count cfg);
          raw = f64_mul (f64_of_int total) (sc_anchor_ratio cfg);
          a0 = (if sc_anchor_rounding cfg = ''down'' then f64_floor raw else f64_ceil raw);
          a1 = (if a0 > total then total else a0);
          a2 = (if a1 < 0 then 0 else a1);
          a3 = (if a2 = 0 \<and> f64_less (F64 0 0) (sc_anchor_ratio cfg) \<and> total > 0 then 1 else a2)
      in \<lparr>ly_total = total, ly_anchors = a3, ly_diverse = total - a3\<rparr>)"

definition class_at :: "layout \<Rightarrow> int \<Rightarrow> string" where
  "class_at l i = (if i < ly_anchors l then class_anchor else class_diverse)"

section \<open>Candidates\<close>

record candidates =
  cd_zone :: string
  cd_hosts :: "string list"
  cd_use :: "(string, nat) gomap"

definition use_count :: "candidates \<Rightarrow> string \<Rightarrow> nat" where
  "use_count c h = (case map_of (cd_use c) h of None \<Rightarrow> 0 | Some n \<Rightarrow> n)"

definition eligible_by :: "(string \<Rightarrow> bool) option \<Rightarrow> string \<Rightarrow> bool" where
  "eligible_by eligible h = (case eligible of None \<Rightarrow> True | Some f \<Rightarrow> f h)"

definition new_candidates :: "string \<Rightarrow> string list \<Rightarrow> (string \<Rightarrow> bool) option \<Rightarrow> candidates" where
  "new_candidates z ms eligible =
     \<lparr>cd_zone = z, cd_hosts = filter (eligible_by eligible) ms, cd_use = []\<rparr>"

definition use_host :: "string \<Rightarrow> candidates \<Rightarrow> candidates" where
  "use_host h c = c\<lparr>cd_use := gm_incr h (cd_use c)\<rparr>"

definition release_host :: "string \<Rightarrow> candidates \<Rightarrow> candidates" where
  "release_host h c =
     (if use_count c h > 0 then c\<lparr>cd_use := AList.update h (use_count c h - 1) (cd_use c)\<rparr> else c)"

definition has_host :: "candidates \<Rightarrow> string \<Rightarrow> bool" where
  "has_host c h \<longleftrightarrow> list_ex (\<lambda>x. x = h) (cd_hosts c)"

text \<open>\<open>minUse\<close>; \<open>None\<close> stands for the initial \<open>math.MaxInt\<close>.\<close>

definition min_use :: "candidates \<Rightarrow> nat" where
  "min_use c =
     (case fold (\<lambda>h m. case m of None \<Rightarrow> Some (use_count c h)
                       | Some k \<Rightarrow> if use_count c h < k then Some (use_count c h) else Some k)
             (cd_hosts c) None of
        None \<Rightarrow> 0 | Some k \<Rightarrow> k)"

section \<open>The scan\<close>

definition start_offset :: "string \<Rightarrow> nat \<Rightarrow> nat" where
  "start_offset pk n = (if n = 0 then 0 else unat (fnv1a pk mod of_nat n))"

definition scan_order :: "string list \<Rightarrow> nat \<Rightarrow> string list" where
  "scan_order hosts start = map (\<lambda>i. hosts ! ((start + i) mod length hosts)) [0..<length hosts]"

definition scan :: "candidates \<Rightarrow> nat \<Rightarrow> string set \<Rightarrow> (string \<Rightarrow> bool) \<Rightarrow> string option" where
  "scan c start exclude pred =
     List.find (\<lambda>h. h \<notin> exclude \<and> pred h) (scan_order (cd_hosts c) start)"

definition pick :: "slots_config \<Rightarrow> string \<Rightarrow> candidates \<Rightarrow> string set \<Rightarrow> string \<times> int" where
  "pick cfg pk c exclude =
     (if cd_hosts c = [] then ([], rank_unfilled)
      else let start = start_offset pk (length (cd_hosts c))
      in case scan c start exclude (\<lambda>h. use_count c h = 0) of
           Some h \<Rightarrow> (h, rank_unique)
         | None \<Rightarrow>
             if \<not> sc_allow_reuse cfg then ([], rank_unfilled)
             else (case scan c start exclude (\<lambda>h. use_count c h = min_use c) of
                     Some h \<Rightarrow> (h, rank_min_use)
                   | None \<Rightarrow>
                       (case scan c start exclude (\<lambda>_. True) of
                          Some h \<Rightarrow> (h, rank_any)
                        | None \<Rightarrow> ([], rank_unfilled))))"

definition pick_anchor :: "string \<Rightarrow> candidates \<Rightarrow> string set \<Rightarrow> string \<times> int" where
  "pick_anchor pk c exclude =
     (if cd_hosts c = [] then ([], rank_unfilled)
      else case scan c (start_offset pk (length (cd_hosts c))) exclude (\<lambda>_. True) of
             Some h \<Rightarrow> (h, if use_count c h > 0 then rank_min_use else rank_unique)
           | None \<Rightarrow> ([], rank_unfilled))"

section \<open>Super hosts\<close>

definition match_selector :: "host_record \<Rightarrow> (string, string) gomap \<Rightarrow> bool" where
  "match_selector h sel = list_all (\<lambda>(k, want). attr h k = Some want) sel"

fun super_keep :: "nat \<Rightarrow> (string \<Rightarrow> bool) \<Rightarrow> string list \<Rightarrow> string list \<Rightarrow> string list" where
  "super_keep want ok out [] = out"
| "super_keep want ok out (h # hs) =
     (if length out \<ge> want then out
      else super_keep want ok (if ok h then out @ [h] else out) hs)"

text \<open>The code's \<open>chosen\<close> map always holds the elements of \<open>out\<close>.\<close>

fun super_fill :: "nat \<Rightarrow> (string \<Rightarrow> bool) \<Rightarrow> string list \<Rightarrow> string list \<Rightarrow> string list" where
  "super_fill want ok out [] = out"
| "super_fill want ok out (h # hs) =
     (if length out \<ge> want then out
      else super_fill want ok (if h \<in> set out \<or> \<not> ok h then out else out @ [h]) hs)"

definition pick_super ::
  "slots_config \<Rightarrow> string list \<Rightarrow> snapshot \<Rightarrow> string list \<Rightarrow> (string \<Rightarrow> bool) option \<Rightarrow> string list" where
  "pick_super cfg ms snap current eligible =
     (if sc_super_hosts cfg \<le> 0 then []
      else let want = nat (sc_super_hosts cfg);
               elig = eligible_by eligible;
               kept = super_keep want (\<lambda>h. h \<in> set ms \<and> elig h) [] current
      in if length kept \<ge> want then kept
         else let sel = (if sc_super_selector cfg = [] then kept
                         else super_fill want
                           (\<lambda>h. elig h \<and> (case snap_get snap h of None \<Rightarrow> False
                                 | Some r \<Rightarrow> match_selector r (sc_super_selector cfg))) kept ms)
              in sort (super_fill want elig sel ms))"

section \<open>Layout bounds\<close>

lemma compute_layout_simps:
  "ly_total (compute_layout cfg) = max 0 (sc_count cfg)"
  "ly_diverse (compute_layout cfg) = ly_total (compute_layout cfg) - ly_anchors (compute_layout cfg)"
  by (simp_all add: compute_layout_def Let_def)

lemma compute_layout_anchors:
  "0 \<le> ly_anchors (compute_layout cfg)" "ly_anchors (compute_layout cfg) \<le> ly_total (compute_layout cfg)"
  by (simp_all add: compute_layout_def Let_def)

lemma compute_layout_no_ratio:
  "f_mant (sc_anchor_ratio cfg) = 0 \<Longrightarrow> ly_anchors (compute_layout cfg) = 0"
  using f64_mul_zero [of "sc_anchor_ratio cfg"]
  by (simp add: compute_layout_def Let_def f64_less_zero_iff)

text \<open>
  The layout splits the configured slot count, negative counts being read as zero: the
  anchors and the diverse slots are not negative and add up to it, a positive ratio gives at
  least one anchor slot where there is a slot, a zero ratio gives none, and exactly the first
  indices, as many as there are anchors, have the anchor class.
\<close>

theorem layout_split:
  fixes cfg :: slots_config
  defines "l \<equiv> compute_layout cfg"
  shows "ly_total l = max 0 (sc_count cfg) \<and> 0 \<le> ly_anchors l \<and> 0 \<le> ly_diverse l
    \<and> ly_anchors l + ly_diverse l = ly_total l
    \<and> (0 < f_mant (sc_anchor_ratio cfg) \<and> 0 < sc_count cfg \<longrightarrow> 1 \<le> ly_anchors l)
    \<and> (f_mant (sc_anchor_ratio cfg) = 0 \<longrightarrow> ly_anchors l = 0)
    \<and> {i. 0 \<le> i \<and> i < ly_total l \<and> class_at l i = class_anchor} = {0..<ly_anchors l}"
proof -
  have "1 \<le> ly_anchors l" if "0 < f_mant (sc_anchor_ratio cfg)" "0 < sc_count cfg"
    using that by (simp add: l_def compute_layout_def Let_def f64_less_zero_iff)
  then show ?thesis
    using compute_layout_anchors [of cfg] compute_layout_no_ratio [of cfg]
    by (auto simp: l_def compute_layout_simps class_at_def class_defs)
qed

theorem layout_split_witness:
  "ly_anchors (compute_layout (cf_slots default_config)) = 2
   \<and> ly_anchors (compute_layout ((cf_slots default_config)\<lparr>sc_count := 1, sc_anchor_rounding := ''down''\<rparr>)) \<ge> 1"
proof -
  let ?c = "(cf_slots default_config)\<lparr>sc_count := 1, sc_anchor_rounding := ''down''\<rparr>"
  have "0 < f_mant (sc_anchor_ratio ?c) \<and> 0 < sc_count ?c" by code_simp
  then have "1 \<le> ly_anchors (compute_layout ?c)" using layout_split [of ?c] by blast
  moreover have "ly_anchors (compute_layout (cf_slots default_config)) = 2" by code_simp
  ultimately show ?thesis by blast
qed

section \<open>What a pick promises\<close>

lemma start_offset_less:
  assumes "0 < n" and "n < 2 ^ 32"
  shows "start_offset pk n < n"
proof -
  have u: "unat (of_nat n :: 32 word) = n"
    using assms(2) by (simp add: unsigned_of_nat take_bit_nat_eq_self)
  then have "unat (fnv1a pk mod of_nat n) = unat (fnv1a pk) mod n"
    by (simp add: unat_mod)
  then show ?thesis using assms(1) by (simp add: start_offset_def)
qed

lemma scan_order_rotate: "scan_order hosts start = rotate start hosts"
  by (rule nth_equalityI) (simp_all add: scan_order_def nth_rotate)

lemma set_scan_order [simp]: "set (scan_order hosts start) = set hosts"
  by (simp add: scan_order_rotate)

lemma scan_SomeD:
  "scan c start ex P = Some h \<Longrightarrow> h \<in> set (cd_hosts c) \<and> h \<notin> ex \<and> P h"
  by (auto simp: scan_def dest: find_SomeD)

lemma scan_None_iff:
  "scan c start ex P = None \<longleftrightarrow> (\<forall>h \<in> set (cd_hosts c). h \<notin> ex \<longrightarrow> \<not> P h)"
  by (auto simp: scan_def find_None_iff)

lemma min_use_le: "h \<in> set (cd_hosts c) \<Longrightarrow> min_use c \<le> use_count c h"
  and min_use_attained: "cd_hosts c \<noteq> [] \<Longrightarrow> \<exists>h \<in> set (cd_hosts c). use_count c h = min_use c"
proof -
  let ?step = "\<lambda>h m. case m of None \<Rightarrow> Some (use_count c h)
                  | Some k \<Rightarrow> if use_count c h < k then Some (use_count c h) else Some k"
  have *: "\<exists>j. fold ?step hs (Some k) = Some j \<and> j \<le> k \<and> (\<forall>h \<in> set hs. j \<le> use_count c h)
             \<and> (j = k \<or> (\<exists>h \<in> set hs. use_count c h = j))" for hs k
  proof (induction hs arbitrary: k)
    case (Cons h hs)
    show ?case
      using Cons.IH [of "min (use_count c h) k"] by (auto simp: min_def split: if_splits)
  qed simp
  have "\<exists>j. fold ?step (cd_hosts c) None = Some j \<and> (\<forall>h \<in> set (cd_hosts c). j \<le> use_count c h)
            \<and> (\<exists>h \<in> set (cd_hosts c). use_count c h = j)" if ne: "cd_hosts c \<noteq> []"
  proof -
    obtain h hs where hs: "cd_hosts c = h # hs" using ne by (cases "cd_hosts c") auto
    from * [of hs "use_count c h"] show ?thesis by (auto simp: hs)
  qed
  then show "h \<in> set (cd_hosts c) \<Longrightarrow> min_use c \<le> use_count c h"
    and "cd_hosts c \<noteq> [] \<Longrightarrow> \<exists>h \<in> set (cd_hosts c). use_count c h = min_use c"
    by (fastforce simp: min_use_def)+
qed

definition admissible :: "candidates \<Rightarrow> string set \<Rightarrow> string \<Rightarrow> bool" where
  "admissible c ex h \<longleftrightarrow> h \<in> set (cd_hosts c) \<and> h \<notin> ex"

lemma pick_cases:
  obtains (unique) h where "pick cfg pk c ex = (h, rank_unique)" "admissible c ex h" "use_count c h = 0"
  | (least) h where "pick cfg pk c ex = (h, rank_min_use)" "admissible c ex h" "sc_allow_reuse cfg"
      "use_count c h = min_use c" "\<And>g. admissible c ex g \<Longrightarrow> 0 < use_count c g"
  | (any) h where "pick cfg pk c ex = (h, rank_any)" "admissible c ex h" "sc_allow_reuse cfg"
      "\<And>g. admissible c ex g \<Longrightarrow> min_use c < use_count c g"
  | (unfilled) "pick cfg pk c ex = ([], rank_unfilled)"
      "\<And>g. admissible c ex g \<Longrightarrow> \<not> sc_allow_reuse cfg \<and> 0 < use_count c g"
proof (cases "cd_hosts c = []")
  case True
  then show thesis by (intro unfilled) (simp_all add: pick_def admissible_def)
next
  case ne: False
  let ?st = "start_offset pk (length (cd_hosts c))"
  show thesis
  proof (cases "scan c ?st ex (\<lambda>h. use_count c h = 0)")
    case (Some h)
    from scan_SomeD [OF this] Some ne show thesis
      by (intro unique [of h]) (simp_all add: pick_def Let_def admissible_def)
  next
    case n1: None
    then have used: "\<And>g. admissible c ex g \<Longrightarrow> 0 < use_count c g"
      by (auto simp: scan_None_iff admissible_def)
    show thesis
    proof (cases "sc_allow_reuse cfg")
      case no: False
      with n1 ne used show thesis by (intro unfilled) (auto simp: pick_def Let_def)
    next
      case yes: True
      show thesis
      proof (cases "scan c ?st ex (\<lambda>h. use_count c h = min_use c)")
        case (Some h)
        from scan_SomeD [OF this] Some n1 ne yes used show thesis
          by (intro least [of h]) (auto simp: pick_def Let_def admissible_def)
      next
        case n2: None
        then have gt: "\<And>g. admissible c ex g \<Longrightarrow> min_use c < use_count c g"
          by (auto simp: scan_None_iff admissible_def le_neq_implies_less min_use_le)
        show thesis
        proof (cases "scan c ?st ex (\<lambda>_. True)")
          case (Some h)
          from scan_SomeD [OF this] Some n1 n2 ne yes gt show thesis
            by (intro any [of h]) (auto simp: pick_def Let_def admissible_def)
        next
          case None
          then have "pick cfg pk c ex = ([], rank_unfilled)"
            using n1 n2 ne yes by (simp add: pick_def Let_def)
          with None show thesis by (intro unfilled) (auto simp: admissible_def scan_None_iff)
        qed
      qed
    qed
  qed
qed

text \<open>
  What each rank of a pick means. A picked host is a candidate that is not excluded. Rank 1
  is given whenever a candidate that is not excluded is unused, and only to such a host; rank 2
  to a host with the lowest use count of all candidates, when none is unused; rank 3 when the
  lowest count is held by excluded hosts only; and a side stays empty exactly when there is
  nothing to pick, or reuse is off and every candidate is used.
\<close>

theorem pick_rank_meaning:
  fixes cfg pk c ex h r
  assumes "pick cfg pk c ex = (h, r)"
  shows "(r = rank_unfilled \<longleftrightarrow>
           (\<forall>g. admissible c ex g \<longrightarrow> \<not> sc_allow_reuse cfg \<and> 0 < use_count c g))
    \<and> (r \<noteq> rank_unfilled \<longrightarrow> admissible c ex h)
    \<and> (r = rank_unique \<longleftrightarrow> (\<exists>g. admissible c ex g \<and> use_count c g = 0))
    \<and> (r = rank_unique \<longrightarrow> use_count c h = 0)
    \<and> (r = rank_min_use \<longrightarrow> (\<forall>g \<in> set (cd_hosts c). use_count c h \<le> use_count c g))
    \<and> (r = rank_any \<longrightarrow> (\<forall>g. admissible c ex g \<longrightarrow> min_use c < use_count c g))"
proof (cases rule: pick_cases [of cfg pk c ex])
  case (unique g)
  with assms show ?thesis by (auto simp: rank_defs)
next
  case (least g)
  with assms min_use_le show ?thesis by (fastforce simp: rank_defs)
next
  case (any g)
  then have "\<And>g. admissible c ex g \<Longrightarrow> 0 < use_count c g" by (metis gr_zeroI not_less_zero)
  with any assms show ?thesis by (auto simp: rank_defs)
next
  case unfilled
  with assms show ?thesis by (auto simp: rank_defs)
qed

definition abc_candidates :: "(string, nat) gomap \<Rightarrow> candidates" where
  "abc_candidates uses = \<lparr>cd_zone = ''z'', cd_hosts = [''a'', ''b'', ''c''], cd_use = uses\<rparr>"

theorem pick_rank_meaning_witness:
  "\<exists>h. pick (cf_slots default_config) ''x|z'' (abc_candidates [(''a'', 1), (''b'', 1)]) {} = (h, rank_unique)
     \<and> use_count (abc_candidates [(''a'', 1), (''b'', 1)]) h = 0"
proof -
  let ?c = "abc_candidates [(''a'', 1), (''b'', 1)]"
  obtain h r where p: "pick (cf_slots default_config) ''x|z'' ?c {} = (h, r)" by fastforce
  have "\<exists>g. admissible ?c {} g \<and> use_count ?c g = 0"
    by (rule exI [of _ "''c''"]) (simp add: admissible_def abc_candidates_def use_count_def)
  then have "r = rank_unique"
    by (rule pick_rank_meaning [OF p, THEN conjunct2, THEN conjunct2, THEN conjunct1, THEN iffD2])
  moreover from this have "use_count ?c h = 0"
    by (rule pick_rank_meaning [OF p, THEN conjunct2, THEN conjunct2, THEN conjunct2,
          THEN conjunct1, THEN mp])
  ultimately show ?thesis using p by blast
qed

text \<open>
  Rank 3 does not mean that no better candidate existed: with the least used host excluded
  (it is on the other side of an intra-zone slot), the pick takes the first host of the scan,
  here one used five times, although another admissible host is used only once.
\<close>

theorem rank_any_not_least:
  "\<exists>pk c ex h g. pick (cf_slots default_config) pk c ex = (h, rank_any)
     \<and> admissible c ex g \<and> use_count c g < use_count c h"
proof (intro exI conjI)
  let ?c = "abc_candidates [(''a'', 5), (''b'', 0), (''c'', 1)]"
  show "pick (cf_slots default_config) ''k'' ?c {''b''} = (''a'', rank_any)" by code_simp
  show "admissible ?c {''b''} ''c''" by (simp add: admissible_def abc_candidates_def)
  show "use_count ?c ''c'' < use_count ?c ''a''" by code_simp
qed

section \<open>Super hosts\<close>

lemma super_keep_take:
  "length out \<le> want \<Longrightarrow> super_keep want ok out hs = take want (out @ filter ok hs)"
  by (induction hs arbitrary: out) (auto simp: take_Cons')

lemma super_fill_spec:
  assumes "length out \<le> want" and "distinct out"
  shows "distinct (super_fill want ok out hs) \<and> length (super_fill want ok out hs) \<le> want
    \<and> set out \<subseteq> set (super_fill want ok out hs)
    \<and> set (super_fill want ok out hs) \<subseteq> set out \<union> {h \<in> set hs. ok h}
    \<and> (length (super_fill want ok out hs) = want
        \<or> {h \<in> set hs. ok h} \<subseteq> set (super_fill want ok out hs))"
  using assms
proof (induction hs arbitrary: out)
  case (Cons h hs)
  show ?case
  proof (cases "length out \<ge> want")
    case True
    with Cons.prems show ?thesis by auto
  next
    case False
    let ?out = "if h \<in> set out \<or> \<not> ok h then out else out @ [h]"
    have "length ?out \<le> want" "distinct ?out" using False Cons.prems by auto
    from Cons.IH [OF this] False show ?thesis by (auto split: if_splits)
  qed
qed auto

lemma length_min_card:
  assumes "distinct xs" "set xs \<subseteq> A" "finite A" "length xs \<le> n" "length xs = n \<or> A \<subseteq> set xs"
  shows "length xs = min n (card A)"
proof -
  have "length xs \<le> card A" using assms(1-3) by (metis card_mono distinct_card)
  moreover have "card A \<le> length xs" if "A \<subseteq> set xs"
    using that by (metis card_length card_mono le_trans List.finite_set)
  ultimately show ?thesis using assms(4,5) by auto
qed

definition super_valid :: "string list \<Rightarrow> (string \<Rightarrow> bool) option \<Rightarrow> string \<Rightarrow> bool" where
  "super_valid ms eligible h \<longleftrightarrow> h \<in> set ms \<and> eligible_by eligible h"

text \<open>
  The super hosts of a zone are distinct eligible members of it, as many as were asked for
  or as there are; a current selection without repetitions is sticky: its members that are
  still eligible and in the zone stay, the first ones when there are too many.
\<close>

theorem pick_super_sticky:
  fixes cfg ms snap current eligible
  assumes "distinct current"
  defines "out \<equiv> pick_super cfg ms snap current eligible"
  shows "distinct out \<and> (\<forall>h \<in> set out. super_valid ms eligible h)
    \<and> length out = min (nat (sc_super_hosts cfg)) (card {h. super_valid ms eligible h})
    \<and> set (take (nat (sc_super_hosts cfg)) (filter (super_valid ms eligible) current)) \<subseteq> set out"
proof -
  let ?w = "nat (sc_super_hosts cfg)"
  let ?V = "{h. super_valid ms eligible h}"
  let ?k = "take ?w (filter (super_valid ms eligible) current)"
  have fin: "finite ?V" by (rule finite_subset [of _ "set ms"]) (auto simp: super_valid_def)
  have kept: "super_keep ?w (\<lambda>h. h \<in> set ms \<and> eligible_by eligible h) [] current = ?k"
    by (simp add: super_keep_take super_valid_def [abs_def])
  have k: "distinct ?k" "length ?k \<le> ?w" "set ?k \<subseteq> ?V"
    using assms(1) by (auto dest: in_set_takeD)
  have "distinct out \<and> set out \<subseteq> ?V \<and> length out \<le> ?w
          \<and> (length out = ?w \<or> ?V \<subseteq> set out) \<and> set ?k \<subseteq> set out"
  proof (cases "?w \<le> length ?k")
    case True
    then have "out = ?k"
      using kept by (auto simp: out_def pick_super_def Let_def)
    with True k show ?thesis by auto
  next
    case False
    then have pos: "\<not> sc_super_hosts cfg \<le> 0" by auto
    define sel where "sel = (if sc_super_selector cfg = [] then ?k
       else super_fill ?w (\<lambda>h. eligible_by eligible h \<and> (case snap_get snap h of None \<Rightarrow> False
                                 | Some r \<Rightarrow> match_selector r (sc_super_selector cfg))) ?k ms)"
    define full where "full = super_fill ?w (eligible_by eligible) sel ms"
    have out: "out = sort full"
      using False pos kept by (simp add: out_def full_def sel_def pick_super_def Let_def)
    have sel: "distinct sel" "length sel \<le> ?w" "set ?k \<subseteq> set sel" "set sel \<subseteq> ?V"
      using k super_fill_spec [of ?k ?w "\<lambda>h. eligible_by eligible h \<and> (case snap_get snap h of
          None \<Rightarrow> False | Some r \<Rightarrow> match_selector r (sc_super_selector cfg))" ms]
      by (auto simp: sel_def super_valid_def split: if_splits)
    have V: "?V = {h \<in> set ms. eligible_by eligible h}" by (auto simp: super_valid_def)
    from super_fill_spec [OF sel(2,1), of "eligible_by eligible" ms] sel(3,4)
    show ?thesis unfolding out full_def [symmetric] by (auto simp: V)
  qed
  then show ?thesis using length_min_card [OF _ _ fin] by auto
qed

theorem pick_super_sticky_witness:
  "\<exists>snap. set (pick_super ((cf_slots default_config)\<lparr>sc_super_hosts := 1\<rparr>) [''a'', ''b'', ''c''] snap
       [''b''] None) \<supseteq> {''b''}"
proof -
  let ?cfg = "(cf_slots default_config)\<lparr>sc_super_hosts := 1\<rparr>"
  let ?snap = "build_snapshot 1 new_inv_store"
  have "distinct [''b'']" by simp
  from pick_super_sticky [OF this, of ?cfg "[''a'', ''b'', ''c'']" ?snap None]
  have "set (take (nat (sc_super_hosts ?cfg)) (filter (super_valid [''a'', ''b'', ''c''] None) [''b'']))
      \<subseteq> set (pick_super ?cfg [''a'', ''b'', ''c''] ?snap [''b''] None)" by blast
  moreover have "set (take (nat (sc_super_hosts ?cfg))
        (filter (super_valid [''a'', ''b'', ''c''] None) [''b''])) = {''b''}"
    by (simp add: super_valid_def eligible_by_def)
  ultimately show ?thesis by blast
qed

end
