(* ===== verification/StateStore.thy ===== *)
theory StateStore
  imports Slot
begin

text \<open>
  Models \<open>internal/state\<close>: the persisted assignment of \<open>state.go\<close> (slots, pairings, the
  whole state, \<open>Load\<close> and \<open>Save\<close>) and the store of \<open>store.go\<close> with its debounced
  writer. JSON is outside the model: a file holds a state value, and a file that does not parse
  is a case of its own. The writer is a step relation over updates, kicks, timer firings and the
  ends of writes, an update being able to arrive while a write is under way. The lemmas show
  that saving is atomic, that no update is lost, and that the cap on the postponement holds.
\<close>

section \<open>Slots and pairings\<close>

record slot_rec =
  sl_index :: int
  sl_class :: string
  sl_host_a :: string
  sl_host_b :: string
  sl_rank_a :: int
  sl_rank_b :: int
  sl_assigned_a :: time
  sl_assigned_b :: time
  sl_super_target :: string

definition filled :: "slot_rec \<Rightarrow> bool" where
  "filled s \<longleftrightarrow> sl_host_a s \<noteq> [] \<and> sl_host_b s \<noteq> []"

definition slot_host :: "slot_rec \<Rightarrow> side \<Rightarrow> string" where
  "slot_host s sd = (if sd = SideB then sl_host_b s else sl_host_a s)"

definition set_slot_host :: "side \<Rightarrow> string \<Rightarrow> int \<Rightarrow> time \<Rightarrow> slot_rec \<Rightarrow> slot_rec" where
  "set_slot_host sd h rank now s =
     (if sd = SideB then s\<lparr>sl_host_b := h, sl_rank_b := rank, sl_assigned_b := now\<rparr>
      else s\<lparr>sl_host_a := h, sl_rank_a := rank, sl_assigned_a := now\<rparr>)"

definition slot_rank :: "slot_rec \<Rightarrow> side \<Rightarrow> int" where
  "slot_rank s sd = (if sd = SideB then sl_rank_b s else sl_rank_a s)"

record pairing_rec =
  pg_key :: string
  pg_zone_a :: string
  pg_zone_b :: string
  pg_intra :: bool
  pg_slots :: "slot_rec list"
  pg_remove_at :: time

record mesh_state =
  ms_version :: int
  ms_zone_rule :: string
  ms_slots_config :: string
  ms_updated_at :: time
  ms_pairings :: "(string, pairing_rec) gomap"
  ms_super :: "(string, string list) gomap"

definition state_version :: int where "state_version = 1"

definition new_state :: "string \<Rightarrow> string \<Rightarrow> mesh_state" where
  "new_state zone_fp slots_fp =
     \<lparr>ms_version = state_version, ms_zone_rule = zone_fp, ms_slots_config = slots_fp,
      ms_updated_at = 0, ms_pairings = [], ms_super = []\<rparr>"

text \<open>
  \<open>Clone\<close> is the identity on values; what it buys, that a copy shares no slice with the
  original, is what lets the model pass states by value.
\<close>

definition clone_pairing :: "pairing_rec \<Rightarrow> pairing_rec" where
  "clone_pairing p = p\<lparr>pg_slots := map (\<lambda>s. s) (pg_slots p)\<rparr>"

definition clone_state :: "mesh_state \<Rightarrow> mesh_state" where
  "clone_state s =
     s\<lparr>ms_pairings := map (\<lambda>(k, p). (k, clone_pairing p)) (ms_pairings s),
       ms_super := map (\<lambda>(k, v). (k, map (\<lambda>h. h) v)) (ms_super s)\<rparr>"

definition state_totals :: "mesh_state \<Rightarrow> nat \<times> nat" where
  "state_totals s =
     fold (\<lambda>(k, p) (total, n).
         if \<not> is_zero (pg_remove_at p) then (total, n)
         else fold (\<lambda>sl (total, n). (Suc total, if filled sl then Suc n else n)) (pg_slots p) (total, n))
       (ms_pairings s) (0, 0)"

lemma clone_state_id [simp]: "clone_state s = s"
proof -
  have "clone_pairing p = p" for p by (simp add: clone_pairing_def)
  then show ?thesis by (simp add: clone_state_def case_prod_beta)
qed

lemma slot_host_set [side_simps]:
  "slot_host (set_slot_host sd h r now s) sd' = (if sd' = sd then h else slot_host s sd')"
  "slot_rank (set_slot_host sd h r now s) sd' = (if sd' = sd then r else slot_rank s sd')"
  "sl_class (set_slot_host sd h r now s) = sl_class s"
  "sl_index (set_slot_host sd h r now s) = sl_index s"
  "sl_super_target (set_slot_host sd h r now s) = sl_super_target s"
  by (cases sd; cases sd'; simp add: slot_host_def set_slot_host_def slot_rank_def)+

section \<open>Loading\<close>

datatype file_read = NotExist | ReadFailed | Unparsable | Parsed mesh_state

datatype load_error = LoadRead | LoadParse | LoadVersion int

definition load_state :: "file_read \<Rightarrow> mesh_state \<times> bool \<times> load_error option" where
  "load_state f =
     (case f of
        NotExist \<Rightarrow> (new_state [] [], False, None)
      | ReadFailed \<Rightarrow> (new_state [] [], False, Some LoadRead)
      | Unparsable \<Rightarrow> (new_state [] [], False, Some LoadParse)
      | Parsed st \<Rightarrow>
          if ms_version st \<noteq> state_version
          then (new_state [] [], False, Some (LoadVersion (ms_version st)))
          else (st, True, None))"

section \<open>Saving\<close>

text \<open>
  The directory as \<open>Save\<close> sees it: the target file and the temporary one, whose content may
  be incomplete.
\<close>

datatype tmp_file = TmpEmpty | TmpFull mesh_state

record disk =
  dk_target :: "mesh_state option"
  dk_tmp :: "tmp_file option"

datatype save_step = SMkdir | SMarshal | SCreate | SWrite | SSync | SClose | SChmod | SRename

definition save_steps :: "save_step list" where
  "save_steps = [SMkdir, SMarshal, SCreate, SWrite, SSync, SClose, SChmod, SRename]"

fun save_effect :: "mesh_state \<Rightarrow> save_step \<Rightarrow> disk \<Rightarrow> disk" where
  "save_effect st SCreate d = d\<lparr>dk_tmp := Some TmpEmpty\<rparr>"
| "save_effect st SWrite d = d\<lparr>dk_tmp := Some (TmpFull st)\<rparr>"
| "save_effect st SRename d =
     (case dk_tmp d of Some (TmpFull s) \<Rightarrow> d\<lparr>dk_target := Some s, dk_tmp := None\<rparr> | _ \<Rightarrow> d)"
| "save_effect st _ d = d"

definition stamp :: "time \<Rightarrow> mesh_state \<Rightarrow> mesh_state" where
  "stamp now st = st\<lparr>ms_version := state_version, ms_updated_at := now\<rparr>"

text \<open>
  The steps run until the first that fails; the deferred call then removes the temporary file.
  A crash after \<open>k\<close> steps is the run of the first \<open>k\<close> steps alone.
\<close>

definition save_crash :: "time \<Rightarrow> nat \<Rightarrow> mesh_state \<Rightarrow> disk \<Rightarrow> disk" where
  "save_crash now k st d = fold (save_effect (stamp now st)) (take k save_steps) d"

definition save_state :: "time \<Rightarrow> (save_step \<Rightarrow> bool) \<Rightarrow> mesh_state \<Rightarrow> disk \<Rightarrow> bool \<times> disk" where
  "save_state now fails st d =
     (let done = takeWhile (\<lambda>s. \<not> fails s) save_steps
      in (done = save_steps,
          (fold (save_effect (stamp now st)) done d)\<lparr>dk_tmp := None\<rparr>))"

definition read_disk :: "disk \<Rightarrow> file_read" where
  "read_disk d = (case dk_target d of None \<Rightarrow> NotExist | Some st \<Rightarrow> Parsed st)"

lemma save_crash_target:
  assumes "dk_tmp d = None"
  shows "dk_target (save_crash now k st d) = (if 8 \<le> k then Some (stamp now st) else dk_target d)"
proof -
  have "k = 0 \<or> k = 1 \<or> k = 2 \<or> k = 3 \<or> k = 4 \<or> k = 5 \<or> k = 6 \<or> k = 7 \<or> 8 \<le> k" by arith
  then show ?thesis by (elim disjE) (simp_all add: save_crash_def save_steps_def)
qed

lemma save_state_crash:
  obtains k where "save_state now fails st d = (8 \<le> k, (save_crash now k st d)\<lparr>dk_tmp := None\<rparr>)"
proof -
  let ?done = "takeWhile (\<lambda>s. \<not> fails s) save_steps"
  have t: "?done = take (length ?done) save_steps" by (rule takeWhile_eq_take)
  have len: "length save_steps = 8" by (simp add: save_steps_def)
  have "?done = save_steps \<longleftrightarrow> 8 \<le> length ?done"
    using t len by (metis length_takeWhile_le nle_le take_all)
  then have "save_state now fails st d = (8 \<le> length ?done,
      (save_crash now (length ?done) st d)\<lparr>dk_tmp := None\<rparr>)"
    using t by (simp add: save_state_def save_crash_def Let_def)
  then show thesis by (rule that)
qed



section \<open>The store\<close>

text \<open>\<open>kick\<close> is a channel of capacity one; a send to a full channel is dropped.\<close>

record sstore =
  sr_cfg :: persist_config
  sr_cur :: mesh_state
  sr_dirty :: bool
  sr_first_dirty :: time
  sr_kick :: bool
  sr_writes :: "64 word"
  sr_failures :: "64 word"
  sr_last :: time

definition new_store :: "persist_config \<Rightarrow> mesh_state option \<Rightarrow> sstore" where
  "new_store cfg initial =
     \<lparr>sr_cfg = cfg, sr_cur = (case initial of None \<Rightarrow> new_state [] [] | Some st \<Rightarrow> st),
      sr_dirty = False, sr_first_dirty = 0, sr_kick = False, sr_writes = 0, sr_failures = 0,
      sr_last = 0\<rparr>"

definition store_current :: "sstore \<Rightarrow> mesh_state" where
  "store_current s = clone_state (sr_cur s)"

definition store_update :: "time \<Rightarrow> mesh_state \<Rightarrow> sstore \<Rightarrow> sstore" where
  "store_update now st s =
     (let s1 = s\<lparr>sr_cur := st\<rparr>;
          s2 = (if \<not> sr_dirty s1 then s1\<lparr>sr_dirty := True, sr_first_dirty := now\<rparr> else s1)
      in s2\<lparr>sr_kick := True\<rparr>)"

text \<open>\<open>Flush\<close> up to the call of \<open>Save\<close>, and after it: the lock is not held in between.\<close>

definition flush_begin :: "sstore \<Rightarrow> (mesh_state \<times> sstore) option" where
  "flush_begin s =
     (if \<not> sr_dirty s then None
      else Some (clone_state (sr_cur s), s\<lparr>sr_dirty := False, sr_first_dirty := 0\<rparr>))"

definition flush_end :: "time \<Rightarrow> bool \<Rightarrow> sstore \<Rightarrow> sstore" where
  "flush_end now ok s =
     (if ok then s\<lparr>sr_writes := sr_writes s + 1, sr_last := now\<rparr>
      else s\<lparr>sr_failures := sr_failures s + 1, sr_dirty := True,
             sr_first_dirty := (if is_zero (sr_first_dirty s) then now else sr_first_dirty s)\<rparr>)"

record store_stats =
  so_writes :: "64 word"
  so_failures :: "64 word"
  so_last_write :: "time option"
  so_dirty :: bool
  so_pending_for :: "dur option"

definition store_stats_of :: "time \<Rightarrow> sstore \<Rightarrow> store_stats" where
  "store_stats_of now s =
     \<lparr>so_writes = sr_writes s, so_failures = sr_failures s,
      so_last_write = (if sr_last s > 0 then Some (sr_last s) else None), so_dirty = sr_dirty s,
      so_pending_for = (if sr_dirty s \<and> \<not> is_zero (sr_first_dirty s)
                        then Some (tm_sub now (sr_first_dirty s) div second * second) else None)\<rparr>"

section \<open>The debounced writer\<close>

definition run_debounce :: "persist_config \<Rightarrow> dur" where
  "run_debounce cfg = (if ps_debounce cfg \<le> 0 then 60 * second else ps_debounce cfg)"

definition run_max_delay :: "persist_config \<Rightarrow> dur" where
  "run_max_delay cfg =
     (if ps_max_delay cfg < run_debounce cfg then wrap64 (5 * run_debounce cfg) else ps_max_delay cfg)"

text \<open>
  The loop of \<open>Run\<close>: \<open>armed\<close>, the time the timer fires at, the snapshot of a write under way,
  and the state file (without its stamp). The clock is \<open>rn_now\<close>.
\<close>

record prun =
  rn_store :: sstore
  rn_armed :: bool
  rn_deadline :: time
  rn_saving :: "mesh_state option"
  rn_disk :: "mesh_state option"
  rn_now :: time

definition new_run :: "persist_config \<Rightarrow> mesh_state option \<Rightarrow> time \<Rightarrow> prun" where
  "new_run cfg initial now =
     \<lparr>rn_store = new_store cfg initial, rn_armed = False, rn_deadline = 0, rn_saving = None,
      rn_disk = Some (sr_cur (new_store cfg initial)), rn_now = now\<rparr>"

definition on_kick :: "time \<Rightarrow> prun \<Rightarrow> prun" where
  "on_kick now r =
     (let s = rn_store r; first = sr_first_dirty s;
          r1 = r\<lparr>rn_store := s\<lparr>sr_kick := False\<rparr>, rn_now := now\<rparr>;
          debounce = run_debounce (sr_cfg s); max_delay = run_max_delay (sr_cfg s)
      in if rn_armed r \<and> \<not> is_zero first \<and> tm_sub now first \<ge> max_delay then r1
         else
           let w0 = (if \<not> is_zero first \<and> max_delay - tm_sub now first < debounce
                     then max_delay - tm_sub now first else debounce);
               wait = (if w0 < 0 then 0 else w0)
           in r1\<lparr>rn_armed := True, rn_deadline := tm_add now wait\<rparr>)"

definition on_timer :: "time \<Rightarrow> prun \<Rightarrow> prun" where
  "on_timer now r =
     (let r1 = r\<lparr>rn_armed := False, rn_now := now\<rparr>
      in case flush_begin (rn_store r) of
           None \<Rightarrow> r1
         | Some (snap, s') \<Rightarrow> r1\<lparr>rn_store := s', rn_saving := Some snap\<rparr>)"

definition on_saved :: "time \<Rightarrow> bool \<Rightarrow> prun \<Rightarrow> prun" where
  "on_saved now ok r =
     (let s = rn_store r;
          r1 = r\<lparr>rn_store := flush_end now ok s, rn_saving := None, rn_now := now,
                 rn_disk := (if ok then rn_saving r else rn_disk r)\<rparr>
      in if ok then r1
         else r1\<lparr>rn_armed := True, rn_deadline := tm_add now (run_debounce (sr_cfg s))\<rparr>)"

datatype persist_event = PUpdate mesh_state | PKick | PTimer | PSaved bool

inductive persist_step :: "prun \<Rightarrow> persist_event \<Rightarrow> prun \<Rightarrow> bool" where
  step_update: "rn_now r \<le> now \<Longrightarrow>
     persist_step r (PUpdate st) (r\<lparr>rn_store := store_update now st (rn_store r), rn_now := now\<rparr>)"
| step_kick: "rn_now r \<le> now \<Longrightarrow> rn_saving r = None \<Longrightarrow> sr_kick (rn_store r) \<Longrightarrow>
     persist_step r PKick (on_kick now r)"
| step_timer: "rn_now r \<le> now \<Longrightarrow> rn_saving r = None \<Longrightarrow> rn_armed r \<Longrightarrow> rn_deadline r \<le> now \<Longrightarrow>
     persist_step r PTimer (on_timer now r)"
| step_saved: "rn_now r \<le> now \<Longrightarrow> rn_saving r \<noteq> None \<Longrightarrow>
     persist_step r (PSaved ok) (on_saved now ok r)"

inductive_cases persist_stepE: "persist_step r e r'"

inductive persist_reach :: "persist_config \<Rightarrow> mesh_state option \<Rightarrow> bool \<Rightarrow> prun \<Rightarrow> bool"
  for cfg initial failed where
  reach_new: "0 < now \<Longrightarrow> persist_reach cfg initial failed (new_run cfg initial now)"
| reach_step: "persist_reach cfg initial failed r \<Longrightarrow> persist_step r e r' \<Longrightarrow>
     (e = PSaved False \<longrightarrow> failed) \<Longrightarrow> persist_reach cfg initial failed r'"

text \<open>
  The invariant of the writer: what is in memory is on disk, or being written, or dirty; a dirty
  state has a wake-up coming; and the timer is due within the cap.
\<close>

definition persist_inv :: "persist_config \<Rightarrow> bool \<Rightarrow> prun \<Rightarrow> bool" where
  "persist_inv cfg failed r \<longleftrightarrow>
     (let s = rn_store r in
      sr_cfg s = cfg \<and> 0 < rn_now r \<and> 0 \<le> sr_first_dirty s \<and> sr_first_dirty s \<le> rn_now r
      \<and> (sr_dirty s \<longleftrightarrow> sr_first_dirty s \<noteq> 0)
      \<and> (sr_dirty s \<or> (case rn_saving r of None \<Rightarrow> rn_disk r | Some x \<Rightarrow> Some x) = Some (sr_cur s))
      \<and> (sr_dirty s \<longrightarrow> sr_kick s \<or> rn_armed r)
      \<and> (rn_saving r \<noteq> None \<longrightarrow> \<not> rn_armed r)
      \<and> (rn_armed r \<and> \<not> failed \<longrightarrow>
           rn_deadline r \<le> (if sr_dirty s then max (sr_first_dirty s + run_max_delay cfg) (rn_now r)
                            else rn_now r + run_debounce cfg)))"

definition persist_cfg_ok :: "persist_config \<Rightarrow> bool" where
  "persist_cfg_ok cfg \<longleftrightarrow> 5 * run_debounce cfg \<le> max_int64 \<and> ps_max_delay cfg \<le> max_int64"

lemma run_debounce_pos: "0 < run_debounce cfg"
  by (simp add: run_debounce_def second_def)

lemma debounce_le_cap:
  assumes "persist_cfg_ok cfg"
  shows "run_debounce cfg \<le> run_max_delay cfg" "run_max_delay cfg \<le> max_int64"
proof -
  have "wrap64 (5 * run_debounce cfg) = 5 * run_debounce cfg"
    using assms run_debounce_pos [of cfg]
    by (intro wrap64_id) (auto simp: persist_cfg_ok_def min_int64_def)
  then show "run_debounce cfg \<le> run_max_delay cfg" "run_max_delay cfg \<le> max_int64"
    using assms run_debounce_pos [of cfg] by (auto simp: run_max_delay_def persist_cfg_ok_def)
qed

lemma sr_cfg_frame [frame_simps]:
  "sr_cfg (store_update now st s) = sr_cfg s" "sr_cfg (flush_end now ok s) = sr_cfg s"
  by (simp_all add: store_update_def flush_end_def Let_def)

lemma persist_inv_update:
  assumes "persist_inv cfg failed r" "rn_now r \<le> now" "persist_cfg_ok cfg"
  shows "persist_inv cfg failed (r\<lparr>rn_store := store_update now st (rn_store r), rn_now := now\<rparr>)"
  using assms debounce_le_cap [OF assms(3)]
  by (auto simp: persist_inv_def Let_def store_update_def)

lemma persist_inv_kick:
  assumes "persist_inv cfg failed r" "rn_now r \<le> now" "persist_cfg_ok cfg" "rn_saving r = None"
  shows "persist_inv cfg failed (on_kick now r)"
proof -
  have t: "tm_sub now f = now - f \<or> (tm_sub now f = max_int64 \<and> max_int64 < now - f)"
    if "0 \<le> f" "f \<le> now" for f
    using that by (auto simp: tm_sub_def sat64_def min_int64_def max_int64_def)
  note cap = debounce_le_cap [OF assms(3)] run_debounce_pos [of cfg]
  have f: "0 \<le> sr_first_dirty (rn_store r)" "sr_first_dirty (rn_store r) \<le> now"
    using assms(1,2) by (auto simp: persist_inv_def Let_def)
  show ?thesis
    using assms(1,2,4) cap t [OF f]
    by (auto simp: persist_inv_def Let_def on_kick_def)
qed

lemma persist_inv_timer:
  assumes "persist_inv cfg failed r" "rn_now r \<le> now" "rn_saving r = None"
  shows "persist_inv cfg failed (on_timer now r)"
  using assms by (auto simp: persist_inv_def Let_def on_timer_def flush_begin_def)

lemma persist_inv_saved:
  assumes "persist_inv cfg failed r" "rn_now r \<le> now" "rn_saving r \<noteq> None" "\<not> ok \<longrightarrow> failed"
  shows "persist_inv cfg failed (on_saved now ok r)"
  using assms by (auto simp: persist_inv_def Let_def on_saved_def flush_end_def)

lemma persist_inv_step:
  "persist_step r e r' \<Longrightarrow> persist_inv cfg failed r \<Longrightarrow> persist_cfg_ok cfg \<Longrightarrow>
     (e = PSaved False \<longrightarrow> failed) \<Longrightarrow> persist_inv cfg failed r'"
  by (erule persist_stepE)
    (auto intro: persist_inv_update persist_inv_kick persist_inv_timer persist_inv_saved)

lemma persist_inv_reach:
  "persist_reach cfg initial failed r \<Longrightarrow> persist_cfg_ok cfg \<Longrightarrow> persist_inv cfg failed r"
proof (induction rule: persist_reach.induct)
  case (reach_new now)
  then show ?case by (simp add: persist_inv_def new_run_def new_store_def Let_def)
next
  case (reach_step r e r')
  then show ?case by (blast intro: persist_inv_step)
qed

text \<open>
  C27: no update is lost. Whatever the interleaving of updates, kicks, timer firings and writes
  that succeed or fail, the state in memory is on disk, or being written, or marked dirty; and
  while it is dirty the writer has a wake-up coming, from a pending kick or the armed timer.
\<close>

theorem no_update_lost:
  assumes "persist_reach cfg initial True r" and "persist_cfg_ok cfg"
  shows "(sr_dirty (rn_store r) \<longrightarrow> sr_kick (rn_store r) \<or> rn_armed r)
    \<and> (\<not> sr_dirty (rn_store r) \<longrightarrow>
         (case rn_saving r of None \<Rightarrow> rn_disk r | Some x \<Rightarrow> Some x) = Some (store_current (rn_store r)))"
  using persist_inv_reach [OF assms] by (auto simp: persist_inv_def Let_def store_current_def)

text \<open>
  The cap on the postponement. As long as no write fails, a timer armed for a dirty state is
  due no later than the configured maximum after the first change that is not yet written, or is
  already due, however many updates came since.
\<close>

theorem write_delay_capped:
  assumes "persist_reach cfg initial False r" and "persist_cfg_ok cfg"
    and "rn_armed r" and "sr_dirty (rn_store r)"
  shows "rn_deadline r \<le> max (sr_first_dirty (rn_store r) + run_max_delay cfg) (rn_now r)"
  using persist_inv_reach [OF assms(1,2)] assms(3,4) by (auto simp: persist_inv_def Let_def)

definition demo_persist :: persist_config where
  "demo_persist = \<lparr>ps_path = ''/s'', ps_debounce = 10, ps_max_delay = 30\<rparr>"

definition demo_run :: prun where
  "demo_run = on_kick 35 ((on_kick 10 ((new_run demo_persist None 1)
      \<lparr>rn_store := store_update 10 (new_state ''z'' ''s'') (new_store demo_persist None), rn_now := 10\<rparr>))
      \<lparr>rn_store := store_update 35 (new_state ''y'' ''s'')
         (rn_store (on_kick 10 ((new_run demo_persist None 1)
           \<lparr>rn_store := store_update 10 (new_state ''z'' ''s'') (new_store demo_persist None), rn_now := 10\<rparr>))),
       rn_now := 35\<rparr>)"

lemma demo_reach: "persist_reach demo_persist None f demo_run"
proof -
  let ?r0 = "new_run demo_persist None 1"
  let ?r1 = "?r0\<lparr>rn_store := store_update 10 (new_state ''z'' ''s'') (new_store demo_persist None), rn_now := 10\<rparr>"
  let ?r2 = "on_kick 10 ?r1"
  let ?r3 = "?r2\<lparr>rn_store := store_update 35 (new_state ''y'' ''s'') (rn_store ?r2), rn_now := 35\<rparr>"
  have now2: "rn_now ?r2 = 10" "rn_saving ?r2 = None"
    by (simp_all add: on_kick_def Let_def new_run_def)
  have 0: "persist_reach demo_persist None f ?r0" by (rule reach_new) simp
  have "persist_step ?r0 (PUpdate (new_state ''z'' ''s'')) ?r1"
    using step_update [of ?r0 10] by (simp add: new_run_def)
  with 0 have 1: "persist_reach demo_persist None f ?r1" by (blast intro: reach_step)
  have "persist_step ?r1 PKick ?r2"
    by (rule step_kick) (simp_all add: new_run_def store_update_def Let_def)
  with 1 have 2: "persist_reach demo_persist None f ?r2" by (blast intro: reach_step)
  have "persist_step ?r2 (PUpdate (new_state ''y'' ''s'')) ?r3"
    using now2 by (intro step_update) simp
  with 2 have 3: "persist_reach demo_persist None f ?r3" by (blast intro: reach_step)
  have "persist_step ?r3 PKick (on_kick 35 ?r3)"
    using now2 by (intro step_kick) (simp_all add: store_update_def Let_def)
  with 3 have "persist_reach demo_persist None f (on_kick 35 ?r3)" by (blast intro: reach_step)
  then show ?thesis by (simp add: demo_run_def)
qed

lemma demo_run_facts:
  "persist_cfg_ok demo_persist" "rn_armed demo_run" "sr_dirty (rn_store demo_run)"
  "rn_deadline demo_run = 40" "sr_first_dirty (rn_store demo_run) = 10"
  by (simp_all add: demo_run_def demo_persist_def persist_cfg_ok_def run_debounce_def max_int64_def
      on_kick_def store_update_def new_run_def new_store_def Let_def run_max_delay_def tm_sub_def
      sat64_def min_int64_def)

theorem no_update_lost_witness:
  "\<exists>r. persist_reach demo_persist None True r \<and> sr_dirty (rn_store r)
     \<and> (sr_kick (rn_store r) \<or> rn_armed r)"
  using no_update_lost [OF demo_reach demo_run_facts(1)] demo_reach [of True] demo_run_facts(3) by blast

theorem write_delay_capped_witness:
  "\<exists>r. persist_reach demo_persist None False r \<and> rn_deadline r = 40
     \<and> rn_deadline r \<le> max (sr_first_dirty (rn_store r) + run_max_delay demo_persist) (rn_now r)"
  using write_delay_capped [OF demo_reach demo_run_facts(1-3)] demo_reach [of False] demo_run_facts(4)
  by blast

end
