(* ===== verification/Health.thy ===== *)
theory Health
  imports Inventory Config
begin

text \<open>
  Models \<open>internal/health/health.go\<close>: the health record of a host, the transition with its
  flap detection, and every operation of the tracker. The tracker is its host map and its
  configuration; the clock's answer is an argument of the operations that read it. The lemmas
  give the only ways a host can lose eligibility, the hold before a failing host is released,
  the cooldown of a flapping host, and what the next deadline promises the reconcile loop.
\<close>

section \<open>States and records\<close>

datatype hstate =
  StateUnknown | StateHealthy | StateSuspect | StatePending | StateUnhealthy | StateCooldown
  | StateIneligible

fun state_string :: "hstate \<Rightarrow> string" where
  "state_string StateHealthy = ''healthy''"
| "state_string StateSuspect = ''suspect''"
| "state_string StatePending = ''pending''"
| "state_string StateUnhealthy = ''unhealthy''"
| "state_string StateCooldown = ''cooldown''"
| "state_string StateIneligible = ''ineligible''"
| "state_string StateUnknown = ''unknown''"

record hstatus =
  hl_host :: string
  hl_state :: hstate
  hl_reason :: string
  hl_source :: string
  hl_first_seen :: time
  hl_last_seen :: time
  hl_last_success :: time
  hl_last_failure :: time
  hl_fail_streak :: int
  hl_ok_streak :: int
  hl_marked_at :: time
  hl_release_at :: time
  hl_cooldown_end :: time
  hl_transitions :: int
  hl_present :: bool
  hl_missing_at :: time
  hl_resolve_fail :: time
  hl_flap_marks :: "time list"
  hl_assigned_at :: time

definition new_status :: "string \<Rightarrow> time \<Rightarrow> hstatus" where
  "new_status h now =
     \<lparr>hl_host = h, hl_state = StateUnknown, hl_reason = [], hl_source = [], hl_first_seen = now,
      hl_last_seen = 0, hl_last_success = 0, hl_last_failure = 0, hl_fail_streak = 0,
      hl_ok_streak = 0, hl_marked_at = 0, hl_release_at = 0, hl_cooldown_end = 0,
      hl_transitions = 0, hl_present = False, hl_missing_at = 0, hl_resolve_fail = 0,
      hl_flap_marks = [], hl_assigned_at = 0\<rparr>"

fun state_eligible :: "hstate \<Rightarrow> bool" where
  "state_eligible StateHealthy = True"
| "state_eligible StateSuspect = True"
| "state_eligible StatePending = True"
| "state_eligible StateUnknown = True"
| "state_eligible StateUnhealthy = False"
| "state_eligible StateCooldown = False"
| "state_eligible StateIneligible = False"

definition st_eligible :: "hstatus \<Rightarrow> bool" where
  "st_eligible st = state_eligible (hl_state st)"

record tracker =
  tk_cfg :: health_config
  tk_hosts :: "(string, hstatus) gomap"

definition new_tracker :: "health_config \<Rightarrow> tracker" where
  "new_tracker cfg = \<lparr>tk_cfg = cfg, tk_hosts = []\<rparr>"

section \<open>Transitions\<close>

definition transition ::
  "health_config \<Rightarrow> hstate \<Rightarrow> string \<Rightarrow> time \<Rightarrow> hstatus \<Rightarrow> hstatus" where
  "transition cfg to reason now st =
     (if hl_state st = to then (if reason \<noteq> [] then st\<lparr>hl_reason := reason\<rparr> else st)
      else
        let st1 = st\<lparr>hl_state := to, hl_reason := reason\<rparr>;
            st2 = (if to = StateHealthy
                   then st1\<lparr>hl_reason := [], hl_marked_at := 0, hl_release_at := 0\<rparr> else st1)
        in if st_eligible st = st_eligible st2 then st2
           else
             let keep = filter (\<lambda>m. tm_sub now m \<le> he_flap_window cfg) (hl_flap_marks st2 @ [now]);
                 st3 = st2\<lparr>hl_flap_marks := keep, hl_transitions := int (length keep)\<rparr>
             in if he_flap_threshold cfg > 0 \<and> int (length keep) > he_flap_threshold cfg
                   \<and> to \<noteq> StateIneligible \<and> to \<noteq> StateCooldown
                then st3\<lparr>hl_state := StateCooldown, hl_reason := ''flapping'',
                         hl_cooldown_end := tm_add now (he_flap_cooldown cfg)\<rparr>
                else st3)"

section \<open>Operations\<close>

text \<open>A change of one record through its pointer, for every record of the map.\<close>

definition map_hosts :: "(string \<Rightarrow> hstatus \<Rightarrow> hstatus) \<Rightarrow> tracker \<Rightarrow> tracker" where
  "map_hosts f t = t\<lparr>tk_hosts := map (\<lambda>(k, st). (k, f k st)) (tk_hosts t)\<rparr>"

definition put_host :: "string \<Rightarrow> hstatus \<Rightarrow> tracker \<Rightarrow> tracker" where
  "put_host h st t = t\<lparr>tk_hosts := AList.update h st (tk_hosts t)\<rparr>"

definition hget :: "tracker \<Rightarrow> string \<Rightarrow> hstatus option" where
  "hget t h = map_of (tk_hosts t) h"

definition set_health_config :: "health_config \<Rightarrow> tracker \<Rightarrow> tracker" where
  "set_health_config cfg t =
     map_hosts (\<lambda>_ st.
       if hl_state st = StatePending \<and> \<not> is_zero (hl_marked_at st)
       then st\<lparr>hl_release_at := tm_add (hl_marked_at st) (he_release_hold cfg)\<rparr> else st)
       (t\<lparr>tk_cfg := cfg\<rparr>)"

definition observe_status :: "health_config \<Rightarrow> time \<Rightarrow> host_record \<Rightarrow> hstatus \<Rightarrow> hstatus" where
  "observe_status cfg now h st =
     (let st1 = st\<lparr>hl_source := hr_source h, hl_last_seen := now, hl_present := True,
                   hl_missing_at := 0\<rparr>
      in if \<not> hr_healthy h then transition cfg StateIneligible (hr_reason h) now st1
         else if hl_state st1 = StateIneligible then transition cfg StateUnknown [] now st1
         else st1)"

definition observe_host :: "time \<Rightarrow> host_record \<Rightarrow> tracker \<Rightarrow> tracker" where
  "observe_host now h t =
     (let st = (case hget t (hr_id h) of None \<Rightarrow> new_status (hr_id h) now | Some st \<Rightarrow> st)
      in put_host (hr_id h) (observe_status (tk_cfg t) now h st) t)"

definition absent_host :: "health_config \<Rightarrow> time \<Rightarrow> hstatus \<Rightarrow> hstatus" where
  "absent_host cfg now st =
     (let st1 = (if hl_present st then st\<lparr>hl_present := False, hl_missing_at := now\<rparr> else st)
      in if \<not> is_zero (hl_missing_at st1) \<and> tm_sub now (hl_missing_at st1) \<ge> he_missing_grace cfg
         then transition cfg StateIneligible ''absent from provider'' now st1 else st1)"

definition observe :: "time \<Rightarrow> snapshot \<Rightarrow> tracker \<Rightarrow> tracker" where
  "observe now snap t =
     (let t1 = fold (observe_host now) (sn_hosts snap) t
      in map_hosts (\<lambda>k st. if k \<in> hr_id ` set (sn_hosts snap) then st
                           else absent_host (tk_cfg t) now st) t1)"

definition forget_host :: "string \<Rightarrow> tracker \<Rightarrow> tracker" where
  "forget_host h t = t\<lparr>tk_hosts := AList.delete h (tk_hosts t)\<rparr>"

definition probe_ok_status :: "health_config \<Rightarrow> time \<Rightarrow> hstatus \<Rightarrow> hstatus" where
  "probe_ok_status cfg now st =
     (let st1 = st\<lparr>hl_last_success := now, hl_ok_streak := hl_ok_streak st + 1,
                   hl_fail_streak := 0\<rparr>
      in if hl_state st1 = StateIneligible \<or> hl_state st1 = StateCooldown then st1
         else if hl_ok_streak st1 \<ge> he_healthy_after cfg
         then transition cfg StateHealthy [] now st1 else st1)"

definition probe_failed_status :: "health_config \<Rightarrow> time \<Rightarrow> hstatus \<Rightarrow> hstatus" where
  "probe_failed_status cfg now st =
     (let st1 = st\<lparr>hl_last_failure := now, hl_fail_streak := hl_fail_streak st + 1,
                   hl_ok_streak := 0\<rparr>
      in if hl_state st1 = StateIneligible \<or> hl_state st1 = StateCooldown then st1
         else if hl_fail_streak st1 < he_unhealthy_after cfg
         then transition cfg StateSuspect ''probe failing'' now st1
         else if hl_state st1 \<noteq> StatePending \<and> hl_state st1 \<noteq> StateUnhealthy
         then (transition cfg StatePending ''probe failed repeatedly'' now st1)
                \<lparr>hl_marked_at := now, hl_release_at := tm_add now (he_release_hold cfg)\<rparr>
         else st1)"

definition record_probe :: "time \<Rightarrow> string \<Rightarrow> bool \<Rightarrow> tracker \<Rightarrow> tracker" where
  "record_probe now h ok t =
     (let st = (case hget t h of None \<Rightarrow> new_status h now | Some st \<Rightarrow> st)
      in put_host h ((if ok then probe_ok_status else probe_failed_status) (tk_cfg t) now st) t)"

definition resolve_status :: "health_config \<Rightarrow> time \<Rightarrow> bool \<Rightarrow> hstatus \<Rightarrow> hstatus" where
  "resolve_status cfg now ok st =
     (if ok then st\<lparr>hl_resolve_fail := 0\<rparr>
      else if is_zero (hl_resolve_fail st) then st\<lparr>hl_resolve_fail := now\<rparr>
      else if tm_sub now (hl_resolve_fail st) \<ge> he_dns_grace cfg \<and> st_eligible st
      then transition cfg StateUnhealthy ''address does not resolve'' now st else st)"

definition record_resolve :: "time \<Rightarrow> string \<Rightarrow> bool \<Rightarrow> tracker \<Rightarrow> tracker" where
  "record_resolve now h ok t =
     (case hget t h of None \<Rightarrow> t | Some st \<Rightarrow> put_host h (resolve_status (tk_cfg t) now ok st) t)"

definition mark_assigned :: "time \<Rightarrow> string \<Rightarrow> tracker \<Rightarrow> tracker" where
  "mark_assigned now h t =
     (case hget t h of
        None \<Rightarrow> t
      | Some st \<Rightarrow> if is_zero (hl_assigned_at st) then put_host h (st\<lparr>hl_assigned_at := now\<rparr>) t else t)"

definition is_eligible :: "tracker \<Rightarrow> string \<Rightarrow> bool" where
  "is_eligible t h = (case hget t h of None \<Rightarrow> False | Some st \<Rightarrow> st_eligible st)"

text \<open>The predicate over a copy of the eligibility map: a missing key reads as false.\<close>

definition eligible_func :: "tracker \<Rightarrow> string \<Rightarrow> bool" where
  "eligible_func t =
     (let elig = map (\<lambda>(k, st). (k, st_eligible st)) (tk_hosts t)
      in (\<lambda>h. case map_of elig h of None \<Rightarrow> False | Some b \<Rightarrow> b))"

definition all_status :: "tracker \<Rightarrow> hstatus list" where
  "all_status t = sort_key hl_host (map snd (tk_hosts t))"

definition state_counts :: "tracker \<Rightarrow> (hstate, nat) gomap" where
  "state_counts t = fold (\<lambda>(k, st) m. gm_incr (hl_state st) m) (tk_hosts t) []"

definition consider_time :: "time \<Rightarrow> time \<Rightarrow> time" where
  "consider_time v next = (if is_zero v then next else if is_zero next \<or> tm_before v next then v else next)"

definition consider_status :: "health_config \<Rightarrow> hstatus \<Rightarrow> time \<Rightarrow> time" where
  "consider_status cfg st next =
     (let n1 = (if hl_state st = StatePending then consider_time (hl_release_at st) next else next);
          n2 = (if hl_state st = StateCooldown then consider_time (hl_cooldown_end st) n1 else n1)
      in if \<not> is_zero (hl_missing_at st) \<and> hl_state st \<noteq> StateIneligible
         then consider_time (tm_add (hl_missing_at st) (he_missing_grace cfg)) n2 else n2)"

definition next_deadline :: "tracker \<Rightarrow> time option" where
  "next_deadline t =
     (let next = fold (\<lambda>(k, st). consider_status (tk_cfg t) st) (tk_hosts t) 0
      in if is_zero next then None else Some next)"

definition tick_status :: "health_config \<Rightarrow> time \<Rightarrow> hstatus \<Rightarrow> hstatus" where
  "tick_status cfg now st =
     (let st1 = (if hl_state st = StatePending then
                   (if \<not> is_zero (hl_release_at st) \<and> \<not> tm_before now (hl_release_at st)
                    then transition cfg StateUnhealthy (hl_reason st) now st else st)
                 else if hl_state st = StateCooldown then
                   (if \<not> is_zero (hl_cooldown_end st) \<and> \<not> tm_before now (hl_cooldown_end st)
                    then (transition cfg StateUnknown [] now st)
                           \<lparr>hl_ok_streak := 0, hl_fail_streak := 0\<rparr>
                    else st)
                 else st)
      in if \<not> is_zero (hl_missing_at st1) \<and> hl_state st1 \<noteq> StateIneligible
            \<and> tm_sub now (hl_missing_at st1) \<ge> he_missing_grace cfg
         then transition cfg StateIneligible ''absent from provider'' now st1 else st1)"

definition tick :: "time \<Rightarrow> tracker \<Rightarrow> string list \<times> tracker" where
  "tick now t =
     (let f = tick_status (tk_cfg t) now
      in (sort (map fst (filter (\<lambda>(k, st). st_eligible (f st) \<noteq> st_eligible st) (tk_hosts t))),
          map_hosts (\<lambda>_. f) t))"

datatype health_op =
    HSetConfig health_config | HObserve time snapshot | HForget string | HProbe time string bool
  | HResolve time string bool | HAssigned time string | HTick time

fun health_step :: "health_op \<Rightarrow> tracker \<Rightarrow> tracker" where
  "health_step (HSetConfig cfg) t = set_health_config cfg t"
| "health_step (HObserve now snap) t = observe now snap t"
| "health_step (HForget h) t = forget_host h t"
| "health_step (HProbe now h ok) t = record_probe now h ok t"
| "health_step (HResolve now h ok) t = record_resolve now h ok t"
| "health_step (HAssigned now h) t = mark_assigned now h t"
| "health_step (HTick now) t = snd (tick now t)"

section \<open>One record\<close>

lemma transition_eligibleD:
  "st_eligible (transition cfg to r now st) \<Longrightarrow> state_eligible to"
  by (auto simp: transition_def st_eligible_def Let_def split: if_splits)

lemma transition_keeps_eligible:
  "st_eligible st \<Longrightarrow> state_eligible to \<Longrightarrow> st_eligible (transition cfg to r now st)"
  by (auto simp: transition_def st_eligible_def Let_def)

lemma transition_pendingD:
  "hl_state (transition cfg to r now st) = StatePending \<Longrightarrow> to = StatePending"
  by (auto simp: transition_def Let_def split: if_splits)

lemma transition_state:
  "state_eligible to \<Longrightarrow> st_eligible st \<Longrightarrow> hl_state (transition cfg to r now st) = to"
  by (auto simp: transition_def st_eligible_def Let_def)

lemma transition_frame [frame_simps]:
  "hl_host (transition cfg to r now st) = hl_host st"
  "hl_missing_at (transition cfg to r now st) = hl_missing_at st"
  "hl_present (transition cfg to r now st) = hl_present st"
  "hl_resolve_fail (transition cfg to r now st) = hl_resolve_fail st"
  "hl_fail_streak (transition cfg to r now st) = hl_fail_streak st"
  "hl_ok_streak (transition cfg to r now st) = hl_ok_streak st"
  by (simp_all add: transition_def Let_def)

lemma probe_keeps_eligible:
  assumes "st_eligible st"
  shows "st_eligible (probe_ok_status cfg now st)" "st_eligible (probe_failed_status cfg now st)"
proof -
  have upd: "st_eligible (f st) = st_eligible st" if "hl_state (f st) = hl_state st" for f
    using that by (simp add: st_eligible_def)
  show "st_eligible (probe_ok_status cfg now st)"
    using assms by (auto simp: probe_ok_status_def Let_def st_eligible_def
        intro!: transition_keeps_eligible [unfolded st_eligible_def])
  show "st_eligible (probe_failed_status cfg now st)"
    using assms by (auto simp: probe_failed_status_def Let_def st_eligible_def
        intro!: transition_keeps_eligible [unfolded st_eligible_def])
qed

lemma absent_loses:
  assumes "st_eligible st" "\<not> st_eligible (absent_host cfg now st)"
  shows "if hl_present st then now \<noteq> 0 \<and> he_missing_grace cfg \<le> 0
         else hl_missing_at st \<noteq> 0 \<and> he_missing_grace cfg \<le> tm_sub now (hl_missing_at st)"
  using assms
  by (auto simp: absent_host_def Let_def st_eligible_def split: if_splits)

lemma resolve_loses:
  assumes "st_eligible st" "\<not> st_eligible (resolve_status cfg now ok st)"
  shows "\<not> ok \<and> hl_resolve_fail st \<noteq> 0 \<and> he_dns_grace cfg \<le> tm_sub now (hl_resolve_fail st)"
  using assms by (auto simp: resolve_status_def st_eligible_def split: if_splits)

lemma tick_loses:
  assumes "st_eligible st" "\<not> st_eligible (tick_status cfg now st)"
  shows "(hl_state st = StatePending \<and> hl_release_at st \<noteq> 0 \<and> hl_release_at st \<le> now)
       \<or> (hl_missing_at st \<noteq> 0 \<and> he_missing_grace cfg \<le> tm_sub now (hl_missing_at st))"
proof (rule ccontr)
  assume *: "\<not> ?thesis"
  moreover have "hl_state st \<noteq> StateCooldown" using assms(1) by (auto simp: st_eligible_def)
  ultimately have "tick_status cfg now st = st"
    by (auto simp: tick_status_def Let_def)
  with assms show False by simp
qed

section \<open>The host map\<close>

lemma hget_put [simp]: "hget (put_host h st t) k = (if k = h then Some st else hget t k)"
  by (simp add: hget_def put_host_def update_conv)

lemma hget_map [simp]: "hget (map_hosts f t) k = map_option (f k) (hget t k)"
  by (simp add: hget_def map_hosts_def map_of_map_val)

lemma hget_forget: "hget (forget_host h t) k = (if k = h then None else hget t k)"
  by (simp add: hget_def forget_host_def delete_conv')

lemma tk_cfg_frame [frame_simps]:
  "tk_cfg (put_host h st t) = tk_cfg t" "tk_cfg (map_hosts f t) = tk_cfg t"
  "tk_cfg (observe_host now r t) = tk_cfg t" "tk_cfg (forget_host h t) = tk_cfg t"
  "tk_cfg (record_probe now h ok t) = tk_cfg t" "tk_cfg (record_resolve now h ok t) = tk_cfg t"
  "tk_cfg (mark_assigned now h t) = tk_cfg t"
  by (simp_all add: put_host_def map_hosts_def observe_host_def forget_host_def record_probe_def
      record_resolve_def mark_assigned_def Let_def split: option.split)

lemma tk_cfg_fold_observe [frame_simps]: "tk_cfg (fold (observe_host now) rs t) = tk_cfg t"
  by (induction rs arbitrary: t) (simp_all add: frame_simps)

lemma is_eligible_Some: "is_eligible t h \<longleftrightarrow> (\<exists>st. hget t h = Some st \<and> st_eligible st)"
  by (auto simp: is_eligible_def split: option.split)

lemma hget_tick [simp]: "hget (snd (tick now t)) k = map_option (tick_status (tk_cfg t) now) (hget t k)"
  by (simp add: tick_def Let_def)

lemma fold_observe_other:
  "h \<notin> hr_id ` set rs \<Longrightarrow> hget (fold (observe_host now) rs t) h = hget t h"
  by (induction rs arbitrary: t) (auto simp: observe_host_def Let_def)

lemma observe_host_eligible:
  "is_eligible t h \<Longrightarrow> (hr_id r = h \<Longrightarrow> hr_healthy r) \<Longrightarrow> is_eligible (observe_host now r t) h"
  by (auto simp: is_eligible_Some observe_host_def observe_status_def Let_def st_eligible_def)

lemma fold_observe_eligible:
  "is_eligible t h \<Longrightarrow> (\<forall>r \<in> set rs. hr_id r = h \<longrightarrow> hr_healthy r) \<Longrightarrow>
     is_eligible (fold (observe_host now) rs t) h"
  by (induction rs arbitrary: t) (auto intro!: observe_host_eligible)

text \<open>
  The causes by which one operation can take the eligibility of a host away, given its record
  before the operation.
\<close>

fun loss_cause :: "health_config \<Rightarrow> string \<Rightarrow> hstatus \<Rightarrow> health_op \<Rightarrow> bool" where
  "loss_cause cfg h st (HForget k) = (k = h)"
| "loss_cause cfg h st (HObserve now snap) =
     ((\<exists>r \<in> set (sn_hosts snap). hr_id r = h \<and> \<not> hr_healthy r)
      \<or> h \<notin> hr_id ` set (sn_hosts snap)
        \<and> (if hl_present st then now \<noteq> 0 \<and> he_missing_grace cfg \<le> 0
           else hl_missing_at st \<noteq> 0 \<and> he_missing_grace cfg \<le> tm_sub now (hl_missing_at st)))"
| "loss_cause cfg h st (HResolve now k ok) =
     (k = h \<and> \<not> ok \<and> hl_resolve_fail st \<noteq> 0 \<and> he_dns_grace cfg \<le> tm_sub now (hl_resolve_fail st))"
| "loss_cause cfg h st (HTick now) =
     ((hl_state st = StatePending \<and> hl_release_at st \<noteq> 0 \<and> hl_release_at st \<le> now)
      \<or> (hl_missing_at st \<noteq> 0 \<and> he_missing_grace cfg \<le> tm_sub now (hl_missing_at st)))"
| "loss_cause cfg h st (HSetConfig _) = False"
| "loss_cause cfg h st (HProbe _ _ _) = False"
| "loss_cause cfg h st (HAssigned _ _) = False"

lemma observe_loses:
  assumes t: "hget t h = Some st" "st_eligible st" and lost: "\<not> is_eligible (observe now snap t) h"
  shows "(h \<in> hr_id ` set (sn_hosts snap) \<longrightarrow> (\<exists>r \<in> set (sn_hosts snap). hr_id r = h \<and> \<not> hr_healthy r))
    \<and> (h \<notin> hr_id ` set (sn_hosts snap) \<longrightarrow> \<not> st_eligible (absent_host (tk_cfg t) now st))"
proof (cases "h \<in> hr_id ` set (sn_hosts snap)")
  case True
  have elig: "is_eligible t h" using t by (simp add: is_eligible_Some)
  have "\<exists>r \<in> set (sn_hosts snap). hr_id r = h \<and> \<not> hr_healthy r"
  proof (rule ccontr)
    assume "\<not> ?thesis"
    with fold_observe_eligible [OF elig, of "sn_hosts snap" now]
    have "is_eligible (fold (observe_host now) (sn_hosts snap) t) h" by blast
    with True lost show False by (auto simp: observe_def Let_def is_eligible_Some)
  qed
  with True show ?thesis by simp
next
  case False
  have "hget (observe now snap t) h = Some (absent_host (tk_cfg t) now st)"
    using False t(1) by (simp add: observe_def Let_def fold_observe_other frame_simps)
  with False lost show ?thesis by (simp add: is_eligible_Some)
qed

text \<open>
  The only ways a host loses its eligibility: it is forgotten, a provider reports it
  unhealthy, it has been absent from the inventory for the missing grace, its address has not
  resolved for the DNS grace, or the release time of a pending host has come at a tick. No
  number of failed probes, no change of configuration and no assignment does it by itself.
\<close>

theorem eligibility_lost_only_by:
  assumes "hget t h = Some st" and "st_eligible st" and "\<not> is_eligible (health_step e t) h"
  shows "loss_cause (tk_cfg t) h st e"
proof -
  show ?thesis
  proof (cases e)
    case (HSetConfig cfg)
    have "hget (set_health_config cfg t) h = map_option (\<lambda>st.
       if hl_state st = StatePending \<and> \<not> is_zero (hl_marked_at st)
       then st\<lparr>hl_release_at := tm_add (hl_marked_at st) (he_release_hold cfg)\<rparr> else st) (hget t h)"
      by (simp add: set_health_config_def) (simp add: hget_def)
    with HSetConfig assms show ?thesis by (auto simp: is_eligible_Some st_eligible_def split: if_splits)
  next
    case (HObserve now snap)
    with observe_loses [OF assms(1,2), of now snap] assms(3) absent_loses [OF assms(2)]
    show ?thesis by (cases "h \<in> hr_id ` set (sn_hosts snap)") auto
  next
    case (HProbe now k ok)
    with assms show ?thesis
      by (auto simp: is_eligible_Some record_probe_def Let_def probe_keeps_eligible split: if_splits)
  next
    case (HResolve now k ok)
    with assms have "k = h" "\<not> st_eligible (resolve_status (tk_cfg t) now ok st)"
      by (auto simp: is_eligible_Some record_resolve_def split: option.splits if_splits)
    with resolve_loses [OF assms(2) this(2)] HResolve show ?thesis by simp
  next
    case (HAssigned now k)
    with assms show ?thesis
      by (auto simp: is_eligible_Some mark_assigned_def st_eligible_def split: option.splits if_splits)
  next
    case (HTick now)
    with assms have "\<not> st_eligible (tick_status (tk_cfg t) now st)"
      by (auto simp: is_eligible_Some)
    from tick_loses [OF assms(2) this] HTick show ?thesis by simp
  next
    case (HForget k)
    with assms show ?thesis by (auto simp: is_eligible_Some hget_forget split: if_splits)
  qed
qed

theorem eligibility_lost_only_by_witness:
  "\<exists>t st. hget t ''a'' = Some st \<and> st_eligible st \<and> \<not> is_eligible (health_step (HTick 100) t) ''a''
     \<and> loss_cause (tk_cfg t) ''a'' st (HTick 100)"
proof -
  let ?st = "(new_status ''a'' 1)\<lparr>hl_state := StatePending, hl_marked_at := 40, hl_release_at := 100\<rparr>"
  let ?t = "\<lparr>tk_cfg = cf_health default_config, tk_hosts = [(''a'', ?st)]\<rparr>"
  have a: "hget ?t ''a'' = Some ?st" "st_eligible ?st"
    by (simp_all add: hget_def st_eligible_def)
  have b: "\<not> is_eligible (health_step (HTick 100) ?t) ''a''"
    by (simp add: is_eligible_def hget_def tick_def map_hosts_def tick_status_def transition_def
        st_eligible_def new_status_def Let_def)
  from eligibility_lost_only_by [OF a b] a b show ?thesis by blast
qed

section \<open>The release hold\<close>

definition pend_ok :: "health_config \<Rightarrow> hstatus \<Rightarrow> bool" where
  "pend_ok cfg st \<longleftrightarrow>
     (hl_state st = StatePending \<longrightarrow>
        0 < hl_marked_at st \<and> hl_release_at st = hl_marked_at st + he_release_hold cfg)
     \<and> 0 \<le> hl_missing_at st"

definition track_inv :: "tracker \<Rightarrow> bool" where
  "track_inv t \<longleftrightarrow>
     gm_wf (tk_hosts t) \<and> (\<forall>k st. hget t k = Some st \<longrightarrow> pend_ok (tk_cfg t) st)"

text \<open>The operations with a clock reading after Go's zero Time.\<close>

fun health_ok :: "health_op \<Rightarrow> bool" where
  "health_ok (HSetConfig _) = True"
| "health_ok (HObserve now _) = (0 < now)"
| "health_ok (HForget _) = True"
| "health_ok (HProbe now _ _) = (0 < now)"
| "health_ok (HResolve now _ _) = (0 < now)"
| "health_ok (HAssigned now _) = (0 < now)"
| "health_ok (HTick now) = (0 < now)"

lemma pend_ok_transition:
  "0 \<le> hl_missing_at st \<Longrightarrow> to \<noteq> StatePending \<Longrightarrow> pend_ok cfg (transition cfg to r now st)"
  by (auto simp: pend_ok_def frame_simps dest: transition_pendingD)

lemma pend_ok_upd [simp]:
  "pend_ok cfg (st\<lparr>hl_source := a\<rparr>) = pend_ok cfg st"
  "pend_ok cfg (st\<lparr>hl_last_seen := i\<rparr>) = pend_ok cfg st"
  "pend_ok cfg (st\<lparr>hl_last_success := i\<rparr>) = pend_ok cfg st"
  "pend_ok cfg (st\<lparr>hl_last_failure := i\<rparr>) = pend_ok cfg st"
  "pend_ok cfg (st\<lparr>hl_ok_streak := i\<rparr>) = pend_ok cfg st"
  "pend_ok cfg (st\<lparr>hl_fail_streak := i\<rparr>) = pend_ok cfg st"
  "pend_ok cfg (st\<lparr>hl_present := b\<rparr>) = pend_ok cfg st"
  "pend_ok cfg (st\<lparr>hl_resolve_fail := i\<rparr>) = pend_ok cfg st"
  "pend_ok cfg (st\<lparr>hl_assigned_at := i\<rparr>) = pend_ok cfg st"
  by (simp_all add: pend_ok_def)

lemma pend_ok_set_missing: "0 \<le> i \<Longrightarrow> pend_ok cfg st \<Longrightarrow> pend_ok cfg (st\<lparr>hl_missing_at := i\<rparr>)"
  by (simp add: pend_ok_def)

lemma pend_ok_new: "pend_ok cfg (new_status h now)"
  by (simp add: pend_ok_def new_status_def)

lemma pend_ok_missing: "pend_ok cfg st \<Longrightarrow> 0 \<le> hl_missing_at st"
  by (simp add: pend_ok_def)

lemma pend_ok_observe: "pend_ok cfg st \<Longrightarrow> pend_ok cfg (observe_status cfg now r st)"
  by (auto simp: observe_status_def Let_def intro!: pend_ok_transition pend_ok_set_missing)

lemma pend_ok_absent: "0 < now \<Longrightarrow> pend_ok cfg st \<Longrightarrow> pend_ok cfg (absent_host cfg now st)"
  by (auto simp: absent_host_def Let_def intro!: pend_ok_transition pend_ok_set_missing
      dest: pend_ok_missing)

lemma pend_ok_probe:
  "0 < now \<Longrightarrow> pend_ok cfg st \<Longrightarrow> pend_ok cfg (probe_ok_status cfg now st)"
  "0 < now \<Longrightarrow> pend_ok cfg st \<Longrightarrow> pend_ok cfg (probe_failed_status cfg now st)"
proof -
  assume "0 < now" "pend_ok cfg st"
  then show "pend_ok cfg (probe_ok_status cfg now st)"
    by (auto simp: probe_ok_status_def Let_def intro!: pend_ok_transition dest: pend_ok_missing)
  have m: "0 \<le> hl_missing_at st" using \<open>pend_ok cfg st\<close> by (rule pend_ok_missing)
  have p: "pend_ok cfg (s\<lparr>hl_marked_at := now, hl_release_at := now + he_release_hold cfg\<rparr>)"
    if "0 \<le> hl_missing_at s" for s
    using that \<open>0 < now\<close> by (simp add: pend_ok_def)
  show "pend_ok cfg (probe_failed_status cfg now st)"
    using \<open>pend_ok cfg st\<close> m
    by (auto simp: probe_failed_status_def Let_def frame_simps intro!: pend_ok_transition p)
qed

lemma pend_ok_resolve: "pend_ok cfg st \<Longrightarrow> pend_ok cfg (resolve_status cfg now ok st)"
  by (auto simp: resolve_status_def intro!: pend_ok_transition pend_ok_set_missing
      dest: pend_ok_missing)

lemma pend_ok_tick: "pend_ok cfg st \<Longrightarrow> pend_ok cfg (tick_status cfg now st)"
proof -
  assume p: "pend_ok cfg st"
  note m = pend_ok_missing [OF p]
  have z: "pend_ok cfg (s\<lparr>hl_ok_streak := 0, hl_fail_streak := 0\<rparr>)" if "pend_ok cfg s" for s
    using that by (simp add: pend_ok_def)
  show ?thesis
    using p m by (auto simp: tick_status_def Let_def frame_simps intro!: pend_ok_transition z)
qed

lemma track_inv_put:
  "track_inv t \<Longrightarrow> pend_ok (tk_cfg t) st \<Longrightarrow> track_inv (put_host h st t)"
  by (auto simp: track_inv_def frame_simps) (simp add: put_host_def gm_wf_update)

lemma track_inv_map:
  assumes "gm_wf (tk_hosts t)" and "\<And>k st. hget t k = Some st \<Longrightarrow> pend_ok (tk_cfg t) (f k st)"
  shows "track_inv (map_hosts f t)"
  using assms by (auto simp: track_inv_def frame_simps) (simp add: map_hosts_def)

lemma track_inv_observe_host: "track_inv t \<Longrightarrow> track_inv (observe_host now r t)"
proof -
  assume inv: "track_inv t"
  then have "pend_ok (tk_cfg t) (case hget t (hr_id r) of None \<Rightarrow> new_status (hr_id r) now | Some st \<Rightarrow> st)"
    by (auto simp: track_inv_def pend_ok_new split: option.split)
  with inv show ?thesis
    by (simp add: observe_host_def Let_def track_inv_put pend_ok_observe)
qed

lemma track_inv_fold_observe: "track_inv t \<Longrightarrow> track_inv (fold (observe_host now) rs t)"
  by (rule fold_preserves) (auto intro: track_inv_observe_host)

lemma track_inv_step:
  assumes inv: "track_inv t" and ok: "health_ok e"
  shows "track_inv (health_step e t)"
proof -
  have wf: "gm_wf (tk_hosts t)" and p: "\<And>k st. hget t k = Some st \<Longrightarrow> pend_ok (tk_cfg t) st"
    using inv by (auto simp: track_inv_def)
  show ?thesis
  proof (cases e)
    case (HSetConfig cfg)
    have "track_inv (set_health_config cfg t)"
      unfolding set_health_config_def
    proof (rule track_inv_map)
      show "gm_wf (tk_hosts (t\<lparr>tk_cfg := cfg\<rparr>))" using wf by simp
      fix k st assume "hget (t\<lparr>tk_cfg := cfg\<rparr>) k = Some st"
      then have "pend_ok (tk_cfg t) st" using p by (simp add: hget_def)
      then show "pend_ok (tk_cfg (t\<lparr>tk_cfg := cfg\<rparr>))
         (if hl_state st = StatePending \<and> \<not> is_zero (hl_marked_at st)
          then st\<lparr>hl_release_at := tm_add (hl_marked_at st) (he_release_hold cfg)\<rparr> else st)"
        by (auto simp: pend_ok_def)
    qed
    with HSetConfig show ?thesis by simp
  next
    case (HObserve now snap)
    let ?t = "fold (observe_host now) (sn_hosts snap) t"
    have "track_inv ?t" using inv by (rule track_inv_fold_observe)
    then have "track_inv (observe now snap t)"
      using HObserve ok unfolding observe_def Let_def
      by (intro track_inv_map) (auto simp: track_inv_def frame_simps intro!: pend_ok_absent)
    with HObserve show ?thesis by simp
  next
    case (HForget h)
    have "track_inv (forget_host h t)"
      using wf p unfolding track_inv_def
      by (auto simp: hget_forget frame_simps) (simp add: forget_host_def AList.delete_eq gm_wf_filter)
    with HForget show ?thesis by simp
  next
    case (HProbe now h b)
    have "pend_ok (tk_cfg t) (case hget t h of None \<Rightarrow> new_status h now | Some st \<Rightarrow> st)"
      using p by (simp add: pend_ok_new split: option.split)
    with HProbe ok inv show ?thesis
      by (simp add: record_probe_def Let_def track_inv_put pend_ok_probe)
  next
    case (HResolve now h b)
    with inv p show ?thesis
      by (auto simp: record_resolve_def intro!: track_inv_put pend_ok_resolve split: option.split)
  next
    case (HAssigned now h)
    with inv p show ?thesis
      by (auto simp: mark_assigned_def intro!: track_inv_put split: option.split)
  next
    case (HTick now)
    with wf p show ?thesis by (auto simp: tick_def Let_def intro!: track_inv_map pend_ok_tick)
  qed
qed

interpretation htm: guarded_machine health_step health_ok track_inv
  by unfold_locales (rule track_inv_step)

lemma track_inv_new: "track_inv (new_tracker cfg)"
  by (simp add: track_inv_def new_tracker_def hget_def)

lemmas track_inv_reachable = htm.run_keeps_ok [OF track_inv_new]

lemma tick_mem:
  "h \<in> set (fst (tick now t)) \<longleftrightarrow>
     (\<exists>st. (h, st) \<in> set (tk_hosts t)
         \<and> st_eligible (tick_status (tk_cfg t) now st) \<noteq> st_eligible st)"
proof -
  have "set (fst (tick now t)) = fst ` {p \<in> set (tk_hosts t).
      st_eligible (tick_status (tk_cfg t) now (snd p)) \<noteq> st_eligible (snd p)}"
    by (simp add: tick_def Let_def split_beta)
  moreover have "h \<in> fst ` {p \<in> A. P (snd p)} \<longleftrightarrow> (\<exists>v. (h, v) \<in> A \<and> P v)" for A and P :: "hstatus \<Rightarrow> bool"
    by force
  ultimately show ?thesis by (simp only:)
qed

text \<open>
  C26: the release hold. In every state the tracker can reach, a tick takes the eligibility of
  a host that is present in the inventory only when the host was marked pending at least the
  configured hold ago, the hold being the one of the configuration now in force.
\<close>

theorem release_hold_respected:
  assumes "list_all health_ok ops" and t: "t = fold health_step ops (new_tracker cfg)"
    and st: "hget t h = Some st" "st_eligible st" "hl_missing_at st = 0"
    and lost: "h \<in> set (fst (tick now t))"
  shows "hl_state st = StatePending \<and> 0 < hl_marked_at st
         \<and> hl_marked_at st + he_release_hold (tk_cfg t) \<le> now"
proof -
  have inv: "track_inv t" unfolding t by (rule track_inv_reachable) (rule assms(1))
  then have p: "pend_ok (tk_cfg t) st" and wf: "gm_wf (tk_hosts t)"
    using st by (auto simp: track_inv_def)
  from lost have "\<exists>s. (h, s) \<in> set (tk_hosts t)
      \<and> st_eligible (tick_status (tk_cfg t) now s) \<noteq> st_eligible s"
    by (simp only: tick_mem)
  with st wf have "\<not> st_eligible (tick_status (tk_cfg t) now st)"
    by (simp add: gm_wf_map_of hget_def)
  from tick_loses [OF st(2) this] st(3) p show ?thesis by (auto simp: pend_ok_def)
qed

text \<open>A failing host marked at its third failure, and the first tick after the hold.\<close>

definition failing_ops :: "health_op list" where
  "failing_ops = [HProbe second ''a'' False, HProbe (2 * second) ''a'' False,
                  HProbe (3 * second) ''a'' False]"

lemma failing_run:
  "tk_hosts (fold health_step failing_ops (new_tracker (cf_health default_config)))
   = [(''a'', (new_status ''a'' second)\<lparr>hl_state := StatePending,
        hl_reason := ''probe failed repeatedly'', hl_last_failure := 3 * second,
        hl_fail_streak := 3, hl_marked_at := 3 * second, hl_release_at := 63 * second\<rparr>)]"
  "tk_cfg (fold health_step failing_ops (new_tracker (cf_health default_config)))
   = cf_health default_config"
  by (simp_all add: failing_ops_def new_tracker_def record_probe_def put_host_def hget_def Let_def
      new_status_def probe_failed_status_def transition_def st_eligible_def default_config_def
      second_def)

theorem release_hold_respected_witness:
  "\<exists>t st. hget t ''a'' = Some st \<and> ''a'' \<in> set (fst (tick (63 * second) t))
     \<and> hl_marked_at st + he_release_hold (tk_cfg t) \<le> 63 * second"
proof -
  let ?t = "fold health_step failing_ops (new_tracker (cf_health default_config))"
  obtain st where st: "hget ?t ''a'' = Some st" "st_eligible st" "hl_missing_at st = 0"
    by (simp add: hget_def failing_run new_status_def st_eligible_def)
  have lost: "''a'' \<in> set (fst (tick (63 * second) ?t))"
    by (simp add: tick_def failing_run tick_status_def transition_def st_eligible_def Let_def
        new_status_def second_def)
  have "list_all health_ok failing_ops" by (simp add: failing_ops_def second_def)
  from release_hold_respected [OF this refl st lost] st(1) lost show ?thesis by blast
qed

section \<open>A failed probe\<close>

text \<open>
  A failed probe can give eligibility back. A host released as unhealthy that answers one
  probe (two are needed to be healthy again) and then fails the next is moved from unhealthy to
  suspect, which is eligible: its failure streak starts again from one.
\<close>

theorem failed_probe_restores_eligibility:
  "\<exists>ops now t. list_all health_ok ops
     \<and> t = fold health_step ops (new_tracker (cf_health default_config))
     \<and> \<not> is_eligible t ''a''
     \<and> is_eligible (record_probe now ''a'' False t) ''a''
     \<and> map_option hl_state (hget t ''a'') = Some StateUnhealthy"
proof (intro exI conjI)
  let ?ops = "failing_ops @ [HTick (63 * second), HProbe (64 * second) ''a'' True]"
  show "list_all health_ok ?ops" by (simp add: failing_ops_def second_def)
  let ?t = "fold health_step ?ops (new_tracker (cf_health default_config))"
  show "?t = ?t" ..
  have t: "hget ?t ''a'' = Some (probe_ok_status (cf_health default_config) (64 * second)
      (tick_status (cf_health default_config) (63 * second)
        ((new_status ''a'' second)\<lparr>hl_state := StatePending,
        hl_reason := ''probe failed repeatedly'', hl_last_failure := 3 * second,
        hl_fail_streak := 3, hl_marked_at := 3 * second, hl_release_at := 63 * second\<rparr>)))"
    and c: "tk_cfg ?t = cf_health default_config"
    by (simp_all add: record_probe_def Let_def frame_simps failing_run tick_def map_hosts_def hget_def
        put_host_def)
  show "\<not> is_eligible ?t ''a''" "map_option hl_state (hget ?t ''a'') = Some StateUnhealthy"
    unfolding is_eligible_def t
    by (simp_all add: tick_status_def transition_def st_eligible_def
        probe_ok_status_def new_status_def default_config_def second_def)
  show "is_eligible (record_probe (65 * second) ''a'' False ?t) ''a''"
    unfolding is_eligible_def record_probe_def t c
    by (simp add: tick_status_def transition_def
        st_eligible_def probe_ok_status_def probe_failed_status_def new_status_def
        default_config_def second_def)
qed

section \<open>The initial grace\<close>

text \<open>
  The initial grace has no effect: the moment of an assignment is recorded and never read.
  A host assigned at second 1, under an initial grace of 90 seconds, is released as unhealthy
  62 seconds later, and whatever the state, recording an assignment changes the eligibility of
  no host.
\<close>

theorem initial_grace_not_applied:
  "he_initial_grace (cf_health default_config) = 90 * second
   \<and> \<not> is_eligible (snd (tick (63 * second) (mark_assigned second ''a''
         (fold health_step failing_ops (new_tracker (cf_health default_config)))))) ''a''
   \<and> is_eligible (mark_assigned now h t) = is_eligible t"
proof (intro conjI)
  show "he_initial_grace (cf_health default_config) = 90 * second"
    by (simp add: default_config_def)
  show "\<not> is_eligible (snd (tick (63 * second) (mark_assigned second ''a''
         (fold health_step failing_ops (new_tracker (cf_health default_config)))))) ''a''"
    by (simp add: is_eligible_def mark_assigned_def failing_run put_host_def hget_def new_status_def
        second_def tick_def map_hosts_def Let_def tick_status_def transition_def st_eligible_def)
  show "is_eligible (mark_assigned now h t) = is_eligible t"
    by (rule ext) (auto simp: is_eligible_Some mark_assigned_def st_eligible_def split: option.split)
qed

section \<open>Ticks and deadlines\<close>

lemma eligible_func_eq: "eligible_func t h = is_eligible t h"
proof -
  have "map_of (map (\<lambda>(k, st). (k, st_eligible st)) m) h = map_option st_eligible (map_of m h)"
    for m :: "(string \<times> hstatus) list"
    by (induction m) auto
  then show ?thesis
    by (simp add: eligible_func_def is_eligible_def hget_def Let_def split: option.split)
qed

text \<open>The times a record contributes to the next deadline.\<close>

definition deadlines :: "health_config \<Rightarrow> hstatus \<Rightarrow> time list" where
  "deadlines cfg st =
     (if hl_state st = StatePending then [hl_release_at st] else [])
     @ (if hl_state st = StateCooldown then [hl_cooldown_end st] else [])
     @ (if hl_missing_at st \<noteq> 0 \<and> hl_state st \<noteq> StateIneligible
        then [hl_missing_at st + he_missing_grace cfg] else [])"

lemma consider_status_fold: "consider_status cfg st next = fold consider_time (deadlines cfg st) next"
  by (simp add: consider_status_def deadlines_def Let_def)

lemma next_deadline_fold:
  "next_deadline t =
     (let next = fold consider_time (concat (map (\<lambda>(k, st). deadlines (tk_cfg t) st) (tk_hosts t))) 0
      in if next = 0 then None else Some next)"
proof -
  have "fold (\<lambda>(k, st). consider_status cfg st) m n
      = fold consider_time (concat (map (\<lambda>(k, st). deadlines cfg st) m)) n"
    for cfg n and m :: "(string \<times> hstatus) list"
    by (induction m arbitrary: n) (auto simp: consider_status_fold)
  then show ?thesis by (simp add: next_deadline_def)
qed

lemma fold_consider:
  "(n \<noteq> 0 \<longrightarrow> fold consider_time vs n \<noteq> 0 \<and> fold consider_time vs n \<le> n)
   \<and> (\<forall>v \<in> set vs. v \<noteq> 0 \<longrightarrow> fold consider_time vs n \<noteq> 0 \<and> fold consider_time vs n \<le> v)"
proof (induction vs arbitrary: n)
  case (Cons v vs)
  show ?case
    using Cons.IH [of "consider_time v n"] by (auto simp: consider_time_def split: if_splits)
qed simp

lemma tick_status_idle:
  assumes "\<And>v. v \<in> set (deadlines cfg st) \<Longrightarrow> v \<noteq> 0 \<Longrightarrow> now < v"
    and "0 \<le> hl_missing_at st" "0 \<le> he_missing_grace cfg" "he_missing_grace cfg \<le> max_int64"
  shows "tick_status cfg now st = st"
proof -
  have "\<not> he_missing_grace cfg \<le> tm_sub now (hl_missing_at st)"
    if "hl_missing_at st \<noteq> 0" "hl_state st \<noteq> StateIneligible"
  proof -
    have "now < hl_missing_at st + he_missing_grace cfg"
      using that assms(2,3) by (intro assms(1)) (auto simp: deadlines_def)
    then show ?thesis
      using assms(3,4) by (simp add: tm_sub_def sat64_ge_iff min_int64_def)
  qed
  moreover have "hl_release_at st = 0 \<or> now < hl_release_at st" if "hl_state st = StatePending"
    using that assms(1) by (auto simp: deadlines_def)
  moreover have "hl_cooldown_end st = 0 \<or> now < hl_cooldown_end st" if "hl_state st = StateCooldown"
    using that assms(1) by (auto simp: deadlines_def)
  ultimately show ?thesis by (auto simp: tick_status_def Let_def)
qed

lemma next_deadline_idle:
  assumes inv: "track_inv t" and "0 \<le> he_missing_grace (tk_cfg t)" "he_missing_grace (tk_cfg t) \<le> max_int64"
    and "\<forall>d. next_deadline t = Some d \<longrightarrow> now < d"
  shows "tick now t = ([], t)"
proof -
  have idle: "tick_status (tk_cfg t) now st = st" if mem: "(k, st) \<in> set (tk_hosts t)" for k st
  proof (rule tick_status_idle)
    have "hget t k = Some st" using inv mem by (simp add: hget_def track_inv_def gm_wf_map_of)
    with inv show "0 \<le> hl_missing_at st" by (auto simp: track_inv_def pend_ok_def)
    fix v assume v: "v \<in> set (deadlines (tk_cfg t) st)" "v \<noteq> 0"
    let ?vs = "concat (map (\<lambda>(k, st). deadlines (tk_cfg t) st) (tk_hosts t))"
    have "v \<in> set ?vs" using v mem by auto
    with v(2) fold_consider [of 0 ?vs] have "fold consider_time ?vs 0 \<noteq> 0" "fold consider_time ?vs 0 \<le> v"
      by blast+
    moreover from this have "next_deadline t = Some (fold consider_time ?vs 0)"
      by (simp add: next_deadline_fold Let_def)
    ultimately show "now < v" using assms(4) by fastforce
  qed (use assms(2,3) in auto)
  have "map (\<lambda>(k, st). (k, tick_status (tk_cfg t) now st)) (tk_hosts t) = tk_hosts t"
    using idle by (intro map_idI) auto
  moreover have "filter (\<lambda>(k, st). st_eligible (tick_status (tk_cfg t) now st) \<noteq> st_eligible st)
      (tk_hosts t) = []"
    using idle by (auto simp: filter_empty_conv)
  ultimately show ?thesis by (simp add: tick_def map_hosts_def Let_def)
qed

text \<open>
  Waking at the next deadline misses nothing. In every reachable state, a tick before the
  deadline, or at any time when there is none, changes no record and reports no host.
\<close>

theorem next_deadline_safe:
  assumes "list_all health_ok ops" and t: "t = fold health_step ops (new_tracker cfg)"
    and "0 \<le> he_missing_grace (tk_cfg t)" "he_missing_grace (tk_cfg t) \<le> max_int64"
    and "\<forall>d. next_deadline t = Some d \<longrightarrow> now < d"
  shows "tick now t = ([], t)"
proof (rule next_deadline_idle)
  show "track_inv t" unfolding t by (rule track_inv_reachable) (rule assms(1))
qed (use assms(3-5) in auto)

theorem next_deadline_safe_witness:
  "\<exists>t. next_deadline t = Some (63 * second) \<and> tick (62 * second) t = ([], t)"
proof -
  let ?t = "fold health_step failing_ops (new_tracker (cf_health default_config))"
  have ok: "list_all health_ok failing_ops" by (simp add: failing_ops_def second_def)
  have d: "next_deadline ?t = Some (63 * second)"
    by (simp add: next_deadline_def failing_run consider_status_def consider_time_def new_status_def
        second_def)
  have g: "0 \<le> he_missing_grace (tk_cfg ?t)" "he_missing_grace (tk_cfg ?t) \<le> max_int64"
    unfolding failing_run by (simp_all add: default_config_def second_def max_int64_def)
  have "\<forall>d. next_deadline ?t = Some d \<longrightarrow> 62 * second < d" by (simp add: d second_def)
  from next_deadline_safe [OF ok refl g this] d show ?thesis by blast
qed

text \<open>
  A tick reports exactly the hosts whose eligibility it changed, each once, in order, and
  the predicate handed to a reconcile agrees with the eligibility of every host.
\<close>

theorem tick_reports_changes:
  assumes "list_all health_ok ops" and t: "t = fold health_step ops (new_tracker cfg)"
  shows "sorted_wrt (<) (fst (tick now t))
    \<and> set (fst (tick now t)) = {h. is_eligible (snd (tick now t)) h \<noteq> is_eligible t h}
    \<and> eligible_func t = is_eligible t"
proof -
  have "track_inv t" unfolding t by (rule track_inv_reachable) (rule assms(1))
  then have wf: "gm_wf (tk_hosts t)" by (simp add: track_inv_def)
  let ?f = "tick_status (tk_cfg t) now"
  have "distinct (map fst (filter (\<lambda>(k, st). st_eligible (?f st) \<noteq> st_eligible st) (tk_hosts t)))"
    using gm_wf_filter [OF wf] by (simp add: gm_wf_def)
  then have "sorted_wrt (<) (fst (tick now t))"
    by (simp add: tick_def Let_def strict_sorted_iff)
  moreover have "h \<in> set (fst (tick now t)) \<longleftrightarrow> is_eligible (snd (tick now t)) h \<noteq> is_eligible t h" for h
  proof -
    have "h \<in> set (fst (tick now t)) \<longleftrightarrow>
        (\<exists>st. (h, st) \<in> set (tk_hosts t) \<and> st_eligible (?f st) \<noteq> st_eligible st)"
      by (rule tick_mem)
    also have "\<dots> \<longleftrightarrow> (\<exists>st. hget t h = Some st \<and> st_eligible (?f st) \<noteq> st_eligible st)"
      using wf by (simp add: gm_wf_map_of hget_def)
    finally show ?thesis by (auto simp: is_eligible_Some)
  qed
  ultimately show ?thesis by (auto simp: eligible_func_eq)
qed

theorem tick_reports_changes_witness:
  "\<exists>t. ''a'' \<in> set (fst (tick (63 * second) t)) \<and> is_eligible t ''a''
     \<and> \<not> is_eligible (snd (tick (63 * second) t)) ''a''"
proof -
  let ?t = "fold health_step failing_ops (new_tracker (cf_health default_config))"
  have ok: "list_all health_ok failing_ops" by (simp add: failing_ops_def second_def)
  have "is_eligible ?t ''a''" "\<not> is_eligible (snd (tick (63 * second) ?t)) ''a''"
    by (simp_all add: is_eligible_def hget_def failing_run new_status_def st_eligible_def tick_def
        map_hosts_def Let_def tick_status_def transition_def second_def)
  with tick_reports_changes [OF ok refl, of "63 * second"] show ?thesis by blast
qed

section \<open>Flapping\<close>

lemma fold_observe_hget:
  "distinct (map hr_id rs) \<Longrightarrow> r \<in> set rs \<Longrightarrow> hget t (hr_id r) = Some st \<Longrightarrow>
     hget (fold (observe_host now) rs t) (hr_id r) = Some (observe_status (tk_cfg t) now r st)"
proof (induction rs arbitrary: t)
  case (Cons x rs)
  show ?case
  proof (cases "x = r")
    case True
    with Cons.prems have "hr_id r \<notin> hr_id ` set rs" by auto
    with True Cons.prems(3) show ?thesis
      by (simp add: fold_observe_other) (simp add: observe_host_def Let_def)
  next
    case False
    with Cons.prems have "r \<in> set rs" "hr_id x \<noteq> hr_id r" by auto
    then show ?thesis
      using Cons.IH [of "observe_host now x t"] Cons.prems
      by (simp add: frame_simps) (simp add: observe_host_def Let_def)
  qed
qed simp

lemma transition_ineligible: "\<not> state_eligible to \<Longrightarrow> \<not> st_eligible (transition cfg to r now st)"
  by (blast dest: transition_eligibleD)

definition recent_flaps :: "health_config \<Rightarrow> time \<Rightarrow> hstatus \<Rightarrow> nat" where
  "recent_flaps cfg now st =
     length (filter (\<lambda>m. tm_sub now m \<le> he_flap_window cfg) (hl_flap_marks st @ [now]))"

text \<open>
  A host that regains eligibility once more than the flap threshold within the flap window
  goes to cooldown instead, until the cooldown has passed; and from cooldown no probe, no
  resolution, no inventory, no configuration makes it eligible again: only a tick at or after
  the end of the cooldown does.
\<close>

theorem flap_cooldown:
  assumes "hget t h = Some st" and "hl_state st = StateCooldown"
    and "\<forall>now snap. e = HObserve now snap \<longrightarrow> snap_wf snap"
  shows "(is_eligible (health_step e t) h \<longrightarrow>
            (\<exists>now. e = HTick now \<and> hl_cooldown_end st \<noteq> 0 \<and> hl_cooldown_end st \<le> now))
    \<and> (state_eligible to \<and> \<not> st_eligible s \<and> 0 < he_flap_threshold cfg
         \<and> he_flap_threshold cfg < int (recent_flaps cfg now s) \<longrightarrow>
       hl_state (transition cfg to r now s) = StateCooldown
       \<and> hl_cooldown_end (transition cfg to r now s) = now + he_flap_cooldown cfg)"
proof (intro conjI impI)
  assume el: "is_eligible (health_step e t) h"
  have ne: "\<not> st_eligible st" using assms(2) by (simp add: st_eligible_def)
  show "\<exists>now. e = HTick now \<and> hl_cooldown_end st \<noteq> 0 \<and> hl_cooldown_end st \<le> now"
  proof (cases e)
    case (HSetConfig cfg)
    have "hget (t\<lparr>tk_cfg := cfg\<rparr>) h = Some st" using assms(1) by (simp add: hget_def)
    with HSetConfig el assms(2) ne show ?thesis
      by (simp add: is_eligible_Some set_health_config_def)
  next
    case (HObserve now snap)
    show ?thesis
    proof (cases "h \<in> hr_id ` set (sn_hosts snap)")
      case True
      then obtain r where r: "r \<in> set (sn_hosts snap)" "hr_id r = h" by blast
      have "distinct (map hr_id (sn_hosts snap))"
        using assms(3) HObserve by (simp add: snap_wf_def strict_sorted_iff)
      with fold_observe_hget [OF this r(1), of t st now] r assms(1) el HObserve True assms(2)
      have "st_eligible (observe_status (tk_cfg t) now r st)"
        by (simp add: is_eligible_Some observe_def Let_def)
      with assms(2) show ?thesis
        by (simp add: observe_status_def Let_def st_eligible_def
            transition_ineligible [unfolded st_eligible_def] split: if_splits)
    next
      case False
      with el HObserve assms(1) have "st_eligible (absent_host (tk_cfg t) now st)"
        by (simp add: is_eligible_Some observe_def Let_def fold_observe_other frame_simps)
      with assms(2) show ?thesis
        by (simp add: absent_host_def Let_def st_eligible_def
            transition_ineligible [unfolded st_eligible_def] split: if_splits)
    qed
  next
    case (HForget k)
    with el assms(1) ne show ?thesis by (simp add: is_eligible_Some hget_forget split: if_splits)
  next
    case (HProbe now k ok)
    with el assms ne show ?thesis
      by (auto simp: is_eligible_Some record_probe_def probe_ok_status_def probe_failed_status_def
          Let_def st_eligible_def split: if_splits)
  next
    case (HResolve now k ok)
    with el assms(1,2) ne show ?thesis
      by (auto simp: is_eligible_Some record_resolve_def resolve_status_def st_eligible_def
          split: if_splits option.splits)
  next
    case (HAssigned now k)
    with el assms(1,2) ne show ?thesis
      by (auto simp: is_eligible_Some mark_assigned_def st_eligible_def split: if_splits option.splits)
  next
    case (HTick now)
    with el assms(1) have "st_eligible (tick_status (tk_cfg t) now st)"
      by (simp add: is_eligible_Some)
    with assms(2) ne have "hl_cooldown_end st \<noteq> 0 \<and> hl_cooldown_end st \<le> now"
      by (auto simp: tick_status_def Let_def transition_ineligible split: if_splits)
    with HTick show ?thesis by simp
  qed
next
  assume "state_eligible to \<and> \<not> st_eligible s \<and> 0 < he_flap_threshold cfg
         \<and> he_flap_threshold cfg < int (recent_flaps cfg now s)"
  then show "hl_state (transition cfg to r now s) = StateCooldown"
    "hl_cooldown_end (transition cfg to r now s) = now + he_flap_cooldown cfg"
    by (auto simp: transition_def recent_flaps_def Let_def st_eligible_def)
qed

theorem flap_cooldown_witness:
  "\<exists>t. map_option hl_state (hget t ''a'') = Some StateCooldown
     \<and> \<not> is_eligible (health_step (HProbe 5 ''a'' True) t) ''a''"
proof -
  let ?st = "(new_status ''a'' 1)\<lparr>hl_state := StateCooldown, hl_cooldown_end := 100\<rparr>"
  let ?t = "\<lparr>tk_cfg = cf_health default_config, tk_hosts = [(''a'', ?st)]\<rparr>"
  have a: "hget ?t ''a'' = Some ?st" "hl_state ?st = StateCooldown" by (simp_all add: hget_def)
  have "\<forall>now snap. HProbe 5 ''a'' True = HObserve now snap \<longrightarrow> snap_wf snap" by simp
  from flap_cooldown [OF a this] have "\<not> is_eligible (health_step (HProbe 5 ''a'' True) ?t) ''a''"
    by blast
  with a show ?thesis by (intro exI [of _ ?t]) simp
qed

end
