(* ===== verification/Runner.thy ===== *)
theory Runner
  imports Probers StateStore Health
begin

text \<open>
  Models \<open>internal/runner/runner.go\<close>: the tasks a state asks of a node, the change from one task set to
  the next, and one measurement cycle with what it tells the health tracker and the metrics. The map
  of tasks is an association list; the order in which Go ranges over it does not matter to the result.
  A task's goroutine is present in its cycles, each one event; that a stopped goroutine is waited
  for, for up to 30 seconds, is not modelled. A prober is what it returned.
\<close>

section \<open>Tasks\<close>

record task_key =
  ky_pairing :: string
  ky_slot :: int
  ky_kind :: kind
  ky_forward :: bool

definition kind_label :: "kind \<Rightarrow> string" where
  "kind_label k = (case k of KindICMP \<Rightarrow> ''icmp'' | KindUDP \<Rightarrow> ''udp'' | KindTCP \<Rightarrow> ''tcp'')"

definition key_string :: "task_key \<Rightarrow> string" where
  "key_string k = ky_pairing k @ ''#'' @ show_int (ky_slot k) @ ''/'' @ kind_label (ky_kind k) @ ''/''
     @ (if ky_forward k then ''ab'' else ''ba'')"

record task =
  rt_key :: task_key
  rt_src :: target
  rt_dst :: target
  rt_zone_src :: string
  rt_zone_dst :: string
  rt_class :: string
  rt_rank :: int
  rt_params :: probe_params
  rt_window :: window
  rt_started :: time

definition ident :: "task \<Rightarrow> string" where
  "ident t = ta_host (rt_src t) @ ''>'' @ ta_host (rt_dst t) @ ''@'' @ target_addr (rt_dst t)"

definition task_params :: "probes_config \<Rightarrow> kind \<Rightarrow> probe_params \<times> int" where
  "task_params cfg k =
     (case k of
        KindICMP \<Rightarrow> let c = pr_icmp cfg in
          (\<lparr>pp_kind = k, pp_count = ic_count c, pp_interval = ic_interval c, pp_timeout = ic_timeout c,
            pp_payload = ic_payload_bytes c, pp_port = 0, pp_mode = [], pp_ttl = ic_ttl c, pp_df = ic_df c\<rparr>, 0)
      | KindUDP \<Rightarrow> let c = pr_udp cfg in
          (\<lparr>pp_kind = k, pp_count = uc_count c, pp_interval = uc_interval c, pp_timeout = uc_timeout c,
            pp_payload = uc_payload_bytes c, pp_port = uc_port c, pp_mode = [], pp_ttl = 0, pp_df = False\<rparr>, uc_port c)
      | KindTCP \<Rightarrow> let c = pr_tcp cfg in
          (\<lparr>pp_kind = k, pp_count = tc_count c, pp_interval = tc_interval c, pp_timeout = tc_timeout c,
            pp_payload = tc_payload_bytes c, pp_port = tc_port c, pp_mode = tc_mode c, pp_ttl = 0, pp_df = False\<rparr>,
           tc_port c))"

definition enabled_kinds :: "probes_config \<Rightarrow> kind list" where
  "enabled_kinds cfg =
     (if ic_enabled (pr_icmp cfg) then [KindICMP] else []) @
     (if uc_enabled (pr_udp cfg) then [KindUDP] else []) @
     (if tc_enabled (pr_tcp cfg) then [KindTCP] else [])"

section \<open>The desired tasks\<close>

text \<open>A direction of a slot: whether side A is the source, the two hosts, the two zones and the rank.\<close>

definition directions :: "pairing_rec \<Rightarrow> slot_rec \<Rightarrow> (bool \<times> string \<times> string \<times> string \<times> string \<times> int) list" where
  "directions p s =
     [(True, sl_host_a s, sl_host_b s, pg_zone_a p, pg_zone_b p, sl_rank_a s),
      (False, sl_host_b s, sl_host_a s, pg_zone_b p, pg_zone_a p, sl_rank_b s)]"

definition make_task ::
  "config \<Rightarrow> string \<Rightarrow> slot_rec \<Rightarrow> host_record \<Rightarrow> bool \<times> string \<times> string \<times> string \<times> string \<times> int \<Rightarrow> kind \<Rightarrow> task" where
  "make_task cfg key s dst d k =
     (case d of (forward, src, dest, zs, zd, rank) \<Rightarrow>
        case task_params (cf_probes cfg) k of (params, port) \<Rightarrow>
          \<lparr>rt_key = \<lparr>ky_pairing = key, ky_slot = sl_index s, ky_kind = k, ky_forward = forward\<rparr>,
           rt_src = \<lparr>ta_host = src, ta_address = [], ta_port = 0\<rparr>,
           rt_dst = \<lparr>ta_host = dest, ta_address = hr_address dst, ta_port = port\<rparr>,
           rt_zone_src = zs, rt_zone_dst = zd, rt_class = sl_class s, rt_rank = rank,
           rt_params = params, rt_window = new_window (pr_window (cf_probes cfg)), rt_started = 0\<rparr>)"

definition direction_tasks ::
  "config \<Rightarrow> string \<Rightarrow> snapshot \<Rightarrow> string \<Rightarrow> slot_rec \<Rightarrow> bool \<times> string \<times> string \<times> string \<times> string \<times> int \<Rightarrow> task list" where
  "direction_tasks cfg node snap key s d =
     (if fst (snd d) \<noteq> node then []
      else case snap_get snap (fst (snd (snd d))) of
             None \<Rightarrow> []
           | Some dst \<Rightarrow> map (make_task cfg key s dst d) (enabled_kinds (cf_probes cfg)))"

definition slot_tasks :: "config \<Rightarrow> string \<Rightarrow> snapshot \<Rightarrow> string \<Rightarrow> pairing_rec \<Rightarrow> slot_rec \<Rightarrow> task list" where
  "slot_tasks cfg node snap key p s =
     (if \<not> filled s then [] else concat (map (direction_tasks cfg node snap key s) (directions p s)))"

definition wanted_tasks :: "config \<Rightarrow> string \<Rightarrow> mesh_state \<Rightarrow> snapshot \<Rightarrow> task list" where
  "wanted_tasks cfg node st snap =
     concat (map (\<lambda>(key, p).
       if \<not> is_zero (pg_remove_at p) then []
       else concat (map (slot_tasks cfg node snap key p) (pg_slots p))) (ms_pairings st))"

definition desired :: "config \<Rightarrow> string \<Rightarrow> mesh_state \<Rightarrow> snapshot \<Rightarrow> (task_key, task) gomap" where
  "desired cfg node st snap = fold (\<lambda>t m. AList.update (rt_key t) t m) (wanted_tasks cfg node st snap) []"

section \<open>The runner\<close>

record runner =
  rn_ready :: bool
  rn_probers :: "kind list"
  rn_tasks :: "(task_key, task) gomap"

definition new_runner :: "kind list \<Rightarrow> runner" where
  "new_runner probers = \<lparr>rn_ready = False, rn_probers = probers, rn_tasks = []\<rparr>"

definition task_moved :: "task \<Rightarrow> task \<Rightarrow> bool" where
  "task_moved nt cur \<longleftrightarrow> ident nt \<noteq> ident cur \<or> rt_params nt \<noteq> rt_params cur"

text \<open>\<open>startTask\<close> does nothing for a kind without a prober or a key that is taken.\<close>

definition start_task :: "time \<Rightarrow> task \<Rightarrow> runner \<Rightarrow> runner" where
  "start_task now t r =
     (if \<not> rn_ready r then r
      else if map_of (rn_tasks r) (rt_key t) \<noteq> None then r
      else if ky_kind (rt_key t) \<notin> set (rn_probers r) then r
      else r\<lparr>rn_tasks := AList.update (rt_key t) (t\<lparr>rt_started := now\<rparr>) (rn_tasks r)\<rparr>)"

text \<open>\<open>stopTask\<close>, with the task whose metric series are dropped.\<close>

definition stop_task :: "task_key \<Rightarrow> runner \<Rightarrow> runner \<times> task list" where
  "stop_task k r =
     (r\<lparr>rn_tasks := AList.delete k (rn_tasks r)\<rparr>,
      case map_of (rn_tasks r) k of None \<Rightarrow> [] | Some t \<Rightarrow> [t])"

definition stop_all :: "task_key list \<Rightarrow> runner \<Rightarrow> runner \<times> task list" where
  "stop_all ks r = fold (\<lambda>k (r, gone). case stop_task k r of (r', ts) \<Rightarrow> (r', gone @ ts)) ks (r, [])"

definition keys_to_stop :: "(task_key, task) gomap \<Rightarrow> (task_key, task) gomap \<Rightarrow> task_key list" where
  "keys_to_stop want tasks =
     map fst (filter (\<lambda>(k, cur). case map_of want k of None \<Rightarrow> True | Some nt \<Rightarrow> task_moved nt cur) tasks)"

definition tasks_to_start :: "(task_key, task) gomap \<Rightarrow> (task_key, task) gomap \<Rightarrow> task list" where
  "tasks_to_start want tasks =
     List.map_filter (\<lambda>(k, cur). case map_of want k of
         None \<Rightarrow> None | Some nt \<Rightarrow> if task_moved nt cur then Some nt else None) tasks
     @ map snd (filter (\<lambda>(k, nt). map_of tasks k = None) want)"

definition refresh_labels :: "(task_key, task) gomap \<Rightarrow> (task_key, task) gomap \<Rightarrow> (task_key, task) gomap" where
  "refresh_labels want tasks =
     map (\<lambda>(k, cur). (k, case map_of want k of
         None \<Rightarrow> cur
       | Some nt \<Rightarrow> if task_moved nt cur then cur else cur\<lparr>rt_class := rt_class nt, rt_rank := rt_rank nt\<rparr>)) tasks"

text \<open>\<open>Apply\<close>: the new runner, the tasks stopped, and the tasks given to \<open>startTask\<close>.\<close>

definition apply_tasks :: "time \<Rightarrow> (task_key, task) gomap \<Rightarrow> runner \<Rightarrow> runner \<times> task list \<times> task list" where
  "apply_tasks now want r =
     (let stopping = keys_to_stop want (rn_tasks r);
          starting = tasks_to_start want (rn_tasks r);
          (r1, gone) = stop_all stopping (r\<lparr>rn_tasks := refresh_labels want (rn_tasks r)\<rparr>)
      in (fold (start_task now) starting r1, gone, starting))"

definition runner_apply ::
  "time \<Rightarrow> config \<Rightarrow> string \<Rightarrow> mesh_state \<Rightarrow> snapshot \<Rightarrow> runner \<Rightarrow> runner \<times> task list \<times> task list" where
  "runner_apply now cfg node st snap r =
     (if \<not> rn_ready r then (r, [], []) else apply_tasks now (desired cfg node st snap) r)"

text \<open>\<open>Run\<close>: the context is set; when it is cancelled every task is stopped.\<close>

definition runner_begin :: "runner \<Rightarrow> runner" where
  "runner_begin r = r\<lparr>rn_ready := True\<rparr>"

definition runner_end :: "runner \<Rightarrow> runner \<times> task list" where
  "runner_end r = stop_all (map fst (rn_tasks r)) r"

section \<open>One cycle\<close>

definition cycle_budget :: "probe_params \<Rightarrow> dur" where
  "cycle_budget pr = wrap64 (wrap64 (pp_count pr * wrap64 (pp_interval pr + pp_timeout pr)) + 10 * second)"

definition finish_cycle :: "time \<Rightarrow> cycle \<Rightarrow> err option \<Rightarrow> cycle" where
  "finish_cycle now c failed =
     (let c1 = (case failed of None \<Rightarrow> c | Some e \<Rightarrow> c\<lparr>cy_err := Some e, cy_class := classify (Some e)\<rparr>)
      in if is_zero (cy_started c1) then c1\<lparr>cy_started := now\<rparr> else c1)"

definition tell_health :: "time \<Rightarrow> string \<Rightarrow> cycle \<Rightarrow> tracker \<Rightarrow> tracker" where
  "tell_health now host c h =
     (let h1 = record_probe now host (cycle_ok c) h
      in if cy_class c = ErrResolve then record_resolve now host False h1
         else if cycle_ok c then record_resolve now host True h1 else h1)"

text \<open>
  \<open>runCycle\<close> of the task at \<open>k\<close>: what the prober returned, the clock, and the runner, the tracker and
  the statistics published after it.
\<close>

definition run_cycle ::
  "time \<Rightarrow> f64 list \<Rightarrow> task_key \<Rightarrow> cycle \<Rightarrow> err option \<Rightarrow> runner \<times> tracker \<Rightarrow> (runner \<times> tracker) \<times> (cycle \<times> pstats) option" where
  "run_cycle now percentiles k c failed rh =
     (case rh of (r, h) \<Rightarrow>
        case map_of (rn_tasks r) k of
          None \<Rightarrow> (rh, None)
        | Some t \<Rightarrow>
            let c1 = finish_cycle now c failed;
                (st, w) = window_stats now percentiles (window_add now c1 (rt_window t))
            in ((r\<lparr>rn_tasks := AList.update k (t\<lparr>rt_window := w\<rparr>) (rn_tasks r)\<rparr>,
                 tell_health now (ta_host (rt_dst t)) c1 h),
                Some (c1, st)))"

text \<open>The delay of the first cycle: 15 seconds stand in for a cycle that is not positive.\<close>

definition cycle_length :: "dur \<Rightarrow> dur" where
  "cycle_length d = (if d \<le> 0 then 15 * second else d)"

definition task_offset :: "task_key \<Rightarrow> dur \<Rightarrow> dur" where
  "task_offset k cyc = int (unat (fnv1a (key_string k))) mod cyc"

record task_info =
  ti_key :: string
  ti_src :: string
  ti_dst :: string
  ti_zone_src :: string
  ti_zone_dst :: string
  ti_kind :: string
  ti_class :: string
  ti_rank :: int
  ti_started :: time
  ti_stats :: pstats

definition task_info_of :: "time \<Rightarrow> f64 list \<Rightarrow> task \<Rightarrow> task_info" where
  "task_info_of now percentiles t =
     \<lparr>ti_key = key_string (rt_key t), ti_src = ta_host (rt_src t), ti_dst = ta_host (rt_dst t),
      ti_zone_src = rt_zone_src t, ti_zone_dst = rt_zone_dst t, ti_kind = kind_label (ky_kind (rt_key t)),
      ti_class = rt_class t, ti_rank = rt_rank t, ti_started = rt_started t,
      ti_stats = fst (window_stats now percentiles (rt_window t))\<rparr>"

text \<open>\<open>Tasks\<close>, for the API: sorted by the text of the key.\<close>

definition runner_tasks :: "time \<Rightarrow> f64 list \<Rightarrow> runner \<Rightarrow> task_info list" where
  "runner_tasks now percentiles r = sort_key ti_key (map (task_info_of now percentiles \<circ> snd) (rn_tasks r))"

definition task_count :: "runner \<Rightarrow> nat" where
  "task_count r = length (rn_tasks r)"

section \<open>Maps of tasks\<close>

text \<open>Each task sits under its own key, and its kind has a prober.\<close>

definition keyed :: "(task_key, task) gomap \<Rightarrow> bool" where
  "keyed m \<longleftrightarrow> gm_wf m \<and> (\<forall>k t. map_of m k = Some t \<longrightarrow> rt_key t = k)"

definition runner_inv :: "runner \<Rightarrow> bool" where
  "runner_inv r \<longleftrightarrow> keyed (rn_tasks r)
     \<and> (\<forall>k. map_of (rn_tasks r) k \<noteq> None \<longrightarrow> ky_kind k \<in> set (rn_probers r))"

lemma keyed_lookup: "keyed m \<Longrightarrow> map_of m k = Some t \<Longrightarrow> rt_key t = k"
  by (simp add: keyed_def)

lemma keyed_update: "keyed m \<Longrightarrow> rt_key t = k \<Longrightarrow> keyed (AList.update k t m)"
  by (auto simp: keyed_def update_conv gm_wf_update split: if_splits)

lemma gm_wf_delete: "gm_wf m \<Longrightarrow> gm_wf (AList.delete k m)"
  by (simp add: gm_wf_def distinct_delete)

lemma map_of_delete_if: "map_of (AList.delete k m) q = (if q = k then None else map_of m q)"
  by (simp add: delete_conv')

lemma keyed_delete: "keyed m \<Longrightarrow> keyed (AList.delete k m)"
  by (simp add: keyed_def map_of_delete_if gm_wf_delete)

text \<open>The map a list of tasks makes.\<close>

definition by_key :: "task list \<Rightarrow> task_key \<Rightarrow> task option" where
  "by_key ts = map_of (map (\<lambda>t. (rt_key t, t)) ts)"

lemma by_key_None: "by_key ts k = None \<longleftrightarrow> k \<notin> rt_key ` set ts"
  by (auto simp: by_key_def map_of_eq_None_iff image_image)

lemma by_key_key: "by_key ts k = Some t \<Longrightarrow> rt_key t = k \<and> t \<in> set ts"
  by (auto simp: by_key_def dest: map_of_SomeD)

lemma by_key_mem: "distinct (map rt_key ts) \<Longrightarrow> t \<in> set ts \<Longrightarrow> by_key ts (rt_key t) = Some t"
  by (auto simp: by_key_def comp_def intro: map_of_is_SomeI)

lemma by_key_Cons: "by_key (t # ts) k = (if k = rt_key t then Some t else by_key ts k)"
  by (simp add: by_key_def)

lemma desired_fold:
  "keyed m \<Longrightarrow> keyed (fold (\<lambda>t m. AList.update (rt_key t) t m) ts m)
     \<and> (distinct (map rt_key ts) \<longrightarrow>
         map_of (fold (\<lambda>t m. AList.update (rt_key t) t m) ts m) k
           = (case by_key ts k of None \<Rightarrow> map_of m k | Some t \<Rightarrow> Some t))
     \<and> (map_of (fold (\<lambda>t m. AList.update (rt_key t) t m) ts m) k = Some t' \<longrightarrow> t' \<in> set ts \<or> map_of m k = Some t')"
proof (induction ts arbitrary: m)
  case (Cons t ts)
  have "by_key ts (rt_key t) = None" if "distinct (map rt_key (t # ts))" using that by (simp add: by_key_None)
  with Cons.IH [OF keyed_update [OF Cons.prems refl, of t]] show ?case
    by (auto simp: by_key_Cons update_conv split: option.splits if_splits)
qed (simp add: by_key_def)

lemma keyed_Nil: "keyed []"
  by (simp add: keyed_def)

lemma desired_keyed: "keyed (desired cfg node st snap)"
  unfolding desired_def using desired_fold [OF keyed_Nil] by blast

lemma desired_mem: "map_of (desired cfg node st snap) k = Some t \<Longrightarrow> t \<in> set (wanted_tasks cfg node st snap)"
  using desired_fold [OF keyed_Nil, of "wanted_tasks cfg node st snap" k t] by (simp add: desired_def)

section \<open>Stopping and starting\<close>

lemma stop_all_from:
  "fold (\<lambda>k (r, gone). case stop_task k r of (r', ts) \<Rightarrow> (r', gone @ ts)) ks (r, gone0)
     = (fst (stop_all ks r), gone0 @ snd (stop_all ks r))"
  unfolding stop_all_def
proof (induction ks arbitrary: r gone0)
  case (Cons k ks)
  show ?case
    using Cons [of "fst (stop_task k r)" "gone0 @ snd (stop_task k r)"] Cons [of "fst (stop_task k r)" "snd (stop_task k r)"]
    by (simp add: case_prod_beta)
qed simp

lemma stop_all_Cons:
  "stop_all (k # ks) r = (fst (stop_all ks (fst (stop_task k r))), snd (stop_task k r) @ snd (stop_all ks (fst (stop_task k r))))"
  using stop_all_from [of ks "fst (stop_task k r)" "snd (stop_task k r)"]
  by (simp add: stop_all_def [of "k # ks"] case_prod_beta)

lemma stop_all_Nil: "stop_all [] r = (r, [])"
  by (simp add: stop_all_def)

lemma stop_all_tasks:
  "map_of (rn_tasks (fst (stop_all ks r))) k = (if k \<in> set ks then None else map_of (rn_tasks r) k)"
  "keyed (rn_tasks r) \<Longrightarrow> keyed (rn_tasks (fst (stop_all ks r)))"
  "rn_ready (fst (stop_all ks r)) = rn_ready r" "rn_probers (fst (stop_all ks r)) = rn_probers r"
  by (induction ks arbitrary: r)
    (auto simp: stop_all_Cons stop_all_Nil stop_task_def map_of_delete_if keyed_delete)

lemma map_filter_cong: "(\<And>x. x \<in> set xs \<Longrightarrow> f x = g x) \<Longrightarrow> List.map_filter f xs = List.map_filter g xs"
  by (induction xs) (auto simp: map_filter_simps split: option.split)

lemma set_map_filter: "y \<in> set (List.map_filter f xs) \<longleftrightarrow> (\<exists>x \<in> set xs. f x = Some y)"
  by (induction xs) (auto simp: map_filter_simps split: option.split)

lemma stop_all_gone:
  "distinct ks \<Longrightarrow> snd (stop_all ks r) = List.map_filter (map_of (rn_tasks r)) ks"
proof (induction ks arbitrary: r)
  case (Cons k ks)
  have "List.map_filter (map_of (AList.delete k (rn_tasks r))) ks = List.map_filter (map_of (rn_tasks r)) ks"
    using Cons.prems by (intro map_filter_cong) (auto simp: map_of_delete_if)
  with Cons show ?case by (auto simp: stop_all_Cons stop_task_def map_filter_simps split: option.split)
qed (simp add: stop_all_Nil map_filter_simps)

lemma start_task_simps [simp]:
  "rn_ready (start_task now t r) = rn_ready r" "rn_probers (start_task now t r) = rn_probers r"
  by (simp_all add: start_task_def)

lemma start_task_inv: "runner_inv r \<Longrightarrow> runner_inv (start_task now t r)"
  by (auto simp: runner_inv_def start_task_def keyed_update update_conv)

lemma start_all_inv: "runner_inv r \<Longrightarrow> runner_inv (fold (start_task now) ts r)"
  by (induction ts arbitrary: r) (simp_all add: start_task_inv)

lemma start_all_tasks:
  assumes "rn_ready r" "distinct (map rt_key ts)"
  shows "map_of (rn_tasks (fold (start_task now) ts r)) k =
    (case map_of (rn_tasks r) k of
       Some t \<Rightarrow> Some t
     | None \<Rightarrow> if ky_kind k \<in> set (rn_probers r) then map_option (\<lambda>t. t\<lparr>rt_started := now\<rparr>) (by_key ts k) else None)"
  using assms
proof (induction ts arbitrary: r)
  case Nil
  then show ?case by (simp add: by_key_def split: option.split)
next
  case (Cons t ts)
  have "by_key ts (rt_key t) = None" using Cons.prems by (simp add: by_key_None)
  with Cons show ?case
    by (auto simp: by_key_Cons start_task_def update_conv split: option.split)
qed

section \<open>Applying a task set\<close>

text \<open>What becomes of the task at a key: the specification of \<open>Apply\<close>.\<close>

definition applied ::
  "time \<Rightarrow> (task_key, task) gomap \<Rightarrow> kind list \<Rightarrow> (task_key, task) gomap \<Rightarrow> task_key \<Rightarrow> task option" where
  "applied now want probers tasks k =
     (case map_of want k of
        None \<Rightarrow> None
      | Some nt \<Rightarrow>
          (case map_of tasks k of
             None \<Rightarrow> if ky_kind k \<in> set probers then Some (nt\<lparr>rt_started := now\<rparr>) else None
           | Some cur \<Rightarrow>
               if task_moved nt cur then Some (nt\<lparr>rt_started := now\<rparr>)
               else Some (cur\<lparr>rt_class := rt_class nt, rt_rank := rt_rank nt\<rparr>)))"

text \<open>The tasks whose series the metrics drop: those not wanted and those that moved.\<close>

definition dropped :: "(task_key, task) gomap \<Rightarrow> (task_key, task) gomap \<Rightarrow> task set" where
  "dropped want tasks =
     {t. \<exists>k. map_of tasks k = Some t \<and> (\<forall>nt. map_of want k = Some nt \<longrightarrow> task_moved nt t)}"

lemma keys_to_stop_mem:
  "gm_wf tasks \<Longrightarrow> k \<in> set (keys_to_stop want tasks) \<longleftrightarrow>
     (\<exists>cur. map_of tasks k = Some cur \<and> (\<forall>nt. map_of want k = Some nt \<longrightarrow> task_moved nt cur))"
  by (force simp: keys_to_stop_def gm_wf_map_of [symmetric] split: option.splits)

lemma keys_to_stop_distinct: "gm_wf tasks \<Longrightarrow> distinct (keys_to_stop want tasks)"
  unfolding keys_to_stop_def using gm_wf_filter by (auto simp: gm_wf_def)

lemma refresh_lookup:
  "map_of (refresh_labels want tasks) k =
     map_option (\<lambda>cur. case map_of want k of
         None \<Rightarrow> cur
       | Some nt \<Rightarrow> if task_moved nt cur then cur else cur\<lparr>rt_class := rt_class nt, rt_rank := rt_rank nt\<rparr>)
       (map_of tasks k)"
  by (induction tasks) (auto simp: refresh_labels_def split: option.split)

lemma refresh_keyed: "keyed tasks \<Longrightarrow> keyed (refresh_labels want tasks)"
  unfolding keyed_def refresh_lookup
  by (auto simp: refresh_labels_def split: option.splits if_splits)

lemma start_keys:
  assumes "keyed tasks" "keyed want"
  shows "map rt_key (tasks_to_start want tasks)
    = map fst (filter (\<lambda>(k, cur). \<exists>nt. map_of want k = Some nt \<and> task_moved nt cur) tasks)
      @ map fst (filter (\<lambda>(k, nt). map_of tasks k = None) want)"
proof -
  have "map rt_key (List.map_filter (\<lambda>(k, cur). case map_of want k of
         None \<Rightarrow> None | Some nt \<Rightarrow> if task_moved nt cur then Some nt else None) ts)
      = map fst (filter (\<lambda>(k, cur). \<exists>nt. map_of want k = Some nt \<and> task_moved nt cur) ts)" for ts
    by (induction ts) (auto simp: map_filter_simps keyed_lookup [OF assms(2)] split: option.splits if_splits)
  moreover have "\<forall>(k, t) \<in> set want. rt_key t = k"
    using assms(2) gm_wf_map_of by (fastforce simp: keyed_def)
  then have "map rt_key (map snd (filter (\<lambda>(k, nt). map_of tasks k = None) want))
      = map fst (filter (\<lambda>(k, nt). map_of tasks k = None) want)" by (auto intro: map_cong)
  ultimately show ?thesis by (simp only: tasks_to_start_def map_append)
qed

lemma start_keys_distinct:
  assumes "keyed tasks" "keyed want"
  shows "distinct (map rt_key (tasks_to_start want tasks))"
proof -
  have "gm_wf tasks" "gm_wf want" using assms by (simp_all add: keyed_def)
  then have "distinct (map fst (filter P tasks))" "distinct (map fst (filter P want))" for P
    by (simp_all add: gm_wf_filter [unfolded gm_wf_def] gm_wf_def)
  moreover have "map_of tasks k \<noteq> None" if "(k, t) \<in> set tasks" for k t
    using weak_map_of_SomeI [OF that] by auto
  ultimately show ?thesis unfolding start_keys [OF assms] by (auto simp: image_iff) fastforce
qed

lemma start_lookup:
  assumes "keyed tasks" "keyed want"
  shows "by_key (tasks_to_start want tasks) k =
    (case map_of want k of
       None \<Rightarrow> None
     | Some nt \<Rightarrow> (case map_of tasks k of None \<Rightarrow> Some nt | Some cur \<Rightarrow> if task_moved nt cur then Some nt else None))"
proof -
  let ?ts = "tasks_to_start want tasks"
  note wf = assms [unfolded keyed_def]
  have "t \<in> set ?ts \<longleftrightarrow>
      (\<exists>k cur. (k, cur) \<in> set tasks \<and> map_of want k = Some t \<and> task_moved t cur)
      \<or> (\<exists>k. (k, t) \<in> set want \<and> map_of tasks k = None)" for t
    by (force simp: tasks_to_start_def set_map_filter split: option.splits if_splits)
  moreover have "(\<exists>cur. map_of tasks k = Some cur \<and> map_of want k = Some t \<and> task_moved t cur)
      \<or> (map_of want k = Some t \<and> map_of tasks k = None)
      \<longleftrightarrow> map_of want k = Some t \<and> (\<forall>cur. map_of tasks k = Some cur \<longrightarrow> task_moved t cur)" for k t
    by (cases "map_of tasks k") auto
  ultimately have mem: "t \<in> set ?ts \<longleftrightarrow> (\<exists>k. map_of want k = Some t \<and>
      (\<forall>cur. map_of tasks k = Some cur \<longrightarrow> task_moved t cur))" for t
    unfolding gm_wf_map_of [OF conjunct1 [OF wf(1)]] gm_wf_map_of [OF conjunct1 [OF wf(2)]] by (simp only: ex_disj_distrib [symmetric])
  show ?thesis
  proof (cases "by_key ?ts k")
    case None
    show ?thesis
    proof (cases "map_of want k")
      case (Some nt)
      then have "rt_key nt = k" by (rule keyed_lookup [OF assms(2)])
      with None have "nt \<notin> set ?ts" by (auto simp: by_key_None)
      with mem Some obtain cur where "map_of tasks k = Some cur" "\<not> task_moved nt cur" by blast
      then show ?thesis using None Some by simp
    qed (use None in simp)
  next
    case (Some t)
    then have "rt_key t = k" "t \<in> set ?ts" using by_key_key by auto
    then show ?thesis using Some mem keyed_lookup [OF assms(2)] by (auto split: option.splits)
  qed
qed

lemma apply_tasks_spec:
  assumes r: "runner_inv r" "rn_ready r" and want: "keyed want"
    and out: "apply_tasks now want r = (r', gone, starting)"
  shows "runner_inv r' \<and> rn_ready r' \<and> rn_probers r' = rn_probers r"
    and "map_of (rn_tasks r') k = applied now want (rn_probers r) (rn_tasks r) k"
    and "set gone = dropped want (rn_tasks r)"
proof -
  let ?T = "rn_tasks r" let ?R = "r\<lparr>rn_tasks := refresh_labels want ?T\<rparr>" and ?ks = "keys_to_stop want ?T"
  let ?r1 = "fst (stop_all ?ks ?R)"
  have tasks: "keyed ?T" "gm_wf ?T" using r(1) by (simp_all add: runner_inv_def keyed_def)
  have r': "r' = fold (start_task now) (tasks_to_start want ?T) ?r1" and gone: "gone = snd (stop_all ?ks ?R)"
    using out by (auto simp: apply_tasks_def Let_def case_prod_beta)
  have stopped: "map_of (rn_tasks ?r1) k = (if k \<in> set ?ks then None else map_of (refresh_labels want ?T) k)" for k
    by (simp add: stop_all_tasks)
  have inv1: "runner_inv ?r1"
    using r(1) stop_all_tasks(2) [of ?R ?ks] refresh_keyed [OF tasks(1), of want]
    by (auto simp: runner_inv_def stop_all_tasks refresh_lookup)
  have ready: "rn_ready ?r1" by (simp add: stop_all_tasks r(2))
  have "rn_ready (fold (start_task now) ts q) = rn_ready q" "rn_probers (fold (start_task now) ts q) = rn_probers q" for ts q
    by (induction ts arbitrary: q) simp_all
  with start_all_inv [OF inv1] ready show "runner_inv r' \<and> rn_ready r' \<and> rn_probers r' = rn_probers r"
    by (simp add: r' stop_all_tasks)
  have kind: "ky_kind k \<in> set (rn_probers r)" if "map_of ?T k \<noteq> None"
    using r(1) that by (simp add: runner_inv_def)
  show "map_of (rn_tasks r') k = applied now want (rn_probers r) ?T k"
    unfolding r' start_all_tasks [OF ready start_keys_distinct [OF tasks(1) want]] start_lookup [OF tasks(1) want]
      stopped stop_all_tasks(4) runner.simps refresh_lookup keys_to_stop_mem [OF tasks(2)] applied_def
    using kind by (cases "map_of want k"; cases "map_of ?T k") auto
  have "map_of (refresh_labels want ?T) k = map_of ?T k" if "k \<in> set ?ks" for k
    using that by (auto simp: keys_to_stop_mem [OF tasks(2)] refresh_lookup split: option.split)
  then have "gone = List.map_filter (map_of ?T) ?ks"
    by (simp add: gone stop_all_gone keys_to_stop_distinct tasks(2) cong: map_filter_cong)
  then have "t \<in> set gone \<longleftrightarrow> (\<exists>k \<in> set ?ks. map_of ?T k = Some t)" for t by (simp add: set_map_filter)
  then show "set gone = dropped want ?T"
    unfolding dropped_def Bex_def keys_to_stop_mem [OF tasks(2)] by fastforce
qed

lemma moved_simps [simp]:
  "task_moved nt (cur\<lparr>rt_started := s\<rparr>) = task_moved nt cur"
  "task_moved nt (cur\<lparr>rt_class := c, rt_rank := k\<rparr>) = task_moved nt cur"
  "task_moved nt (cur\<lparr>rt_window := w\<rparr>) = task_moved nt cur" "\<not> task_moved nt nt"
  by (simp_all add: task_moved_def ident_def)

text \<open>
  C10: \<open>Apply\<close> brings the running tasks to the state, and interrupts nothing else. Afterwards the task
  at a key is the desired one, freshly started, where none ran (if its kind has a prober) or the
  endpoints or parameters changed; the running one with its window, with only the class and the rank
  renewed, where they did not; and none where the state asks for none. The metrics forget exactly the
  tasks that were not wanted or changed. Applying the same state again stops no task and changes none.
\<close>

theorem apply_converges:
  assumes r: "runner_inv r" "rn_ready r" and out: "runner_apply now cfg node st snap r = (r', gone, starting)"
  shows "runner_inv r' \<and> rn_ready r'
    \<and> (\<forall>k. map_of (rn_tasks r') k = applied now (desired cfg node st snap) (rn_probers r) (rn_tasks r) k)
    \<and> set gone = dropped (desired cfg node st snap) (rn_tasks r)
    \<and> (\<forall>later r'' gone' starting'. runner_apply later cfg node st snap r' = (r'', gone', starting') \<longrightarrow>
          gone' = [] \<and> map_of (rn_tasks r'') = map_of (rn_tasks r'))"
proof -
  let ?want = "desired cfg node st snap"
  have "apply_tasks now ?want r = (r', gone, starting)" using r(2) out by (simp add: runner_apply_def)
  note s = apply_tasks_spec [OF r desired_keyed this]
  have "gone' = [] \<and> map_of (rn_tasks r'') = map_of (rn_tasks r')"
    if "runner_apply later cfg node st snap r' = (r'', gone', starting')" for later r'' gone' starting'
  proof -
    from s(1) that have r': "runner_inv r'" "rn_ready r'" "apply_tasks later ?want r' = (r'', gone', starting')"
      "rn_probers r' = rn_probers r"
      by (simp_all add: runner_apply_def)
    note s' = apply_tasks_spec [OF r'(1,2) desired_keyed r'(3)]
    have "dropped ?want (rn_tasks r') = {}"
      unfolding dropped_def s(2) applied_def by (auto split: option.splits if_splits)
    moreover have "map_of (rn_tasks r'') k = map_of (rn_tasks r') k" for k
      unfolding s'(2) r'(4) applied_def [of later] s(2)
      unfolding applied_def by (auto split: option.splits if_splits)
    ultimately show ?thesis using s'(3) by auto
  qed
  with s show ?thesis by blast
qed

section \<open>What a state asks of a node\<close>

lemma make_task_simps [simp]:
  "rt_key (make_task cfg key s dst d k)
     = \<lparr>ky_pairing = key, ky_slot = sl_index s, ky_kind = k, ky_forward = fst d\<rparr>"
  "ta_host (rt_src (make_task cfg key s dst d k)) = fst (snd d)"
  "ta_host (rt_dst (make_task cfg key s dst d k)) = fst (snd (snd d))"
  "ta_address (rt_dst (make_task cfg key s dst d k)) = hr_address dst"
  "rt_window (make_task cfg key s dst d k) = new_window (pr_window (cf_probes cfg))"
  by (simp_all add: make_task_def split: prod.split)

text \<open>The side a direction starts from, and the direction itself.\<close>

definition source_side :: "bool \<Rightarrow> side" where
  "source_side forward = (if forward then SideA else SideB)"

definition direction :: "bool \<Rightarrow> pairing_rec \<Rightarrow> slot_rec \<Rightarrow> bool \<times> string \<times> string \<times> string \<times> string \<times> int" where
  "direction forward p s = directions p s ! (if forward then 0 else 1)"

lemma direction_simps [simp]:
  "fst (direction f p s) = f" "fst (snd (direction f p s)) = slot_host s (source_side f)"
  "fst (snd (snd (direction f p s))) = slot_host s (source_side (\<not> f))"
  by (simp_all add: direction_def directions_def source_side_def slot_host_def)

lemma wanted_mem:
  "t \<in> set (wanted_tasks cfg node st snap) \<longleftrightarrow>
     (\<exists>key p s f dst k. (key, p) \<in> set (ms_pairings st) \<and> is_zero (pg_remove_at p) \<and> s \<in> set (pg_slots p)
        \<and> filled s \<and> slot_host s (source_side f) = node \<and> snap_get snap (slot_host s (source_side (\<not> f))) = Some dst
        \<and> k \<in> set (enabled_kinds (cf_probes cfg)) \<and> t = make_task cfg key s dst (direction f p s) k)"
proof -
  have dir: "directions p s = [direction True p s, direction False p s]" for p s
    by (simp add: directions_def direction_def)
  have one: "t \<in> set (direction_tasks cfg node snap key s d) \<longleftrightarrow>
      fst (snd d) = node \<and> (\<exists>dst. snap_get snap (fst (snd (snd d))) = Some dst
        \<and> (\<exists>k. k \<in> set (enabled_kinds (cf_probes cfg)) \<and> t = make_task cfg key s dst d k))" for key s d
    by (cases "snap_get snap (fst (snd (snd d)))") (auto simp: direction_tasks_def)
  have slot: "t \<in> set (slot_tasks cfg node snap key p s) \<longleftrightarrow>
      (\<exists>f dst k. filled s \<and> slot_host s (source_side f) = node
         \<and> snap_get snap (slot_host s (source_side (\<not> f))) = Some dst
         \<and> k \<in> set (enabled_kinds (cf_probes cfg)) \<and> t = make_task cfg key s dst (direction f p s) k)" for key p s
    by (simp add: slot_tasks_def dir one ex_bool_eq)
  have "t \<in> set (wanted_tasks cfg node st snap) \<longleftrightarrow> (\<exists>key p s. (key, p) \<in> set (ms_pairings st)
      \<and> is_zero (pg_remove_at p) \<and> s \<in> set (pg_slots p) \<and> t \<in> set (slot_tasks cfg node snap key p s))"
    by (force simp: wanted_tasks_def)
  then show ?thesis unfolding slot by blast
qed

lemma desired_covers: "t \<in> set ts \<Longrightarrow> map_of (fold (\<lambda>t m. AList.update (rt_key t) t m) ts m) (rt_key t) \<noteq> None"
proof (induction ts arbitrary: m)
  case (Cons a ts)
  have "map_of m k \<noteq> None \<Longrightarrow> map_of (fold (\<lambda>t m. AList.update (rt_key t) t m) ts m) k \<noteq> None" for k m
    by (induction ts arbitrary: m) (simp_all add: update_conv)
  with Cons show ?case by (auto simp: update_conv)
qed simp

lemma wanted_at:
  assumes wf: "gm_wf (ms_pairings st)"
  shows "t \<in> set (wanted_tasks cfg node st snap) \<and> rt_key t = \<lparr>ky_pairing = key, ky_slot = i, ky_kind = k, ky_forward = f\<rparr> \<longleftrightarrow>
    (\<exists>p s dst. map_of (ms_pairings st) key = Some p \<and> is_zero (pg_remove_at p) \<and> s \<in> set (pg_slots p)
       \<and> sl_index s = i \<and> filled s \<and> slot_host s (source_side f) = node
       \<and> snap_get snap (slot_host s (source_side (\<not> f))) = Some dst \<and> k \<in> set (enabled_kinds (cf_probes cfg))
       \<and> t = make_task cfg key s dst (direction f p s) k)"
    (is "_ \<and> rt_key t = ?k \<longleftrightarrow> ?R t")
  unfolding wanted_mem gm_wf_map_of [OF wf]
proof (intro iffI; (elim conjE exE)?)
  fix key' p s f' dst k'
  assume "rt_key t = ?k" "map_of (ms_pairings st) key' = Some p" "is_zero (pg_remove_at p)" "s \<in> set (pg_slots p)"
    "filled s" "slot_host s (source_side f') = node" "snap_get snap (slot_host s (source_side (\<not> f'))) = Some dst"
    "k' \<in> set (enabled_kinds (cf_probes cfg))" "t = make_task cfg key' s dst (direction f' p s) k'"
  moreover from this have "key' = key" "sl_index s = i" "k' = k" "f' = f" by simp_all
  ultimately show "?R t" by blast
next
  fix p s dst
  assume "map_of (ms_pairings st) key = Some p" "is_zero (pg_remove_at p)" "s \<in> set (pg_slots p)"
    "sl_index s = i" "filled s" "slot_host s (source_side f) = node"
    "snap_get snap (slot_host s (source_side (\<not> f))) = Some dst"
    "k \<in> set (enabled_kinds (cf_probes cfg))" "t = make_task cfg key s dst (direction f p s) k"
  moreover from this have "rt_key t = ?k" by simp
  ultimately show "(\<exists>key p s f dst k. map_of (ms_pairings st) key = Some p \<and> is_zero (pg_remove_at p)
      \<and> s \<in> set (pg_slots p) \<and> filled s \<and> slot_host s (source_side f) = node
      \<and> snap_get snap (slot_host s (source_side (\<not> f))) = Some dst
      \<and> k \<in> set (enabled_kinds (cf_probes cfg)) \<and> t = make_task cfg key s dst (direction f p s) k)
    \<and> rt_key t = ?k" by blast
qed

text \<open>
  C12: a state asks of a node exactly its own half of the measurements. With the slots of a pairing
  numbered apart, there is a task at a key if and only if the pairing is present and not marked for
  removal, its slot with that number is filled, the node is the host on the side the direction
  starts from, the inventory knows the other host, and the kind is enabled; the task measures the
  address of that other host. So for a slot whose hosts are both known, the two nodes together run
  each enabled kind once in each direction, and no third node runs any.
\<close>

theorem tasks_cover_slots:
  assumes wf: "gm_wf (ms_pairings st)"
    and slots: "\<forall>key p. map_of (ms_pairings st) key = Some p \<longrightarrow> distinct (map sl_index (pg_slots p))"
  shows "map_of (desired cfg node st snap) \<lparr>ky_pairing = key, ky_slot = i, ky_kind = k, ky_forward = f\<rparr> = Some t \<longleftrightarrow>
    (\<exists>p s dst. map_of (ms_pairings st) key = Some p \<and> is_zero (pg_remove_at p) \<and> s \<in> set (pg_slots p)
       \<and> sl_index s = i \<and> filled s \<and> slot_host s (source_side f) = node
       \<and> snap_get snap (slot_host s (source_side (\<not> f))) = Some dst \<and> k \<in> set (enabled_kinds (cf_probes cfg))
       \<and> t = make_task cfg key s dst (direction f p s) k)"
    (is "map_of ?D ?k = Some t \<longleftrightarrow> ?R t")
proof -
  note mem = wanted_at [OF wf, of _ cfg node snap key i k f]
  have one: "t = t'" if "?R t" "?R t'" for t t'
  proof -
    from that obtain p s s' dst dst' where p: "map_of (ms_pairings st) key = Some p" "s \<in> set (pg_slots p)" "s' \<in> set (pg_slots p)"
      "sl_index s = i" "sl_index s' = i" "snap_get snap (slot_host s (source_side (\<not> f))) = Some dst"
      "snap_get snap (slot_host s' (source_side (\<not> f))) = Some dst'"
      "t = make_task cfg key s dst (direction f p s) k" "t' = make_task cfg key s' dst' (direction f p s') k" by auto
    from slots p(1) have "inj_on sl_index (set (pg_slots p))" by (simp add: distinct_map)
    then have "s = s'" using p(2-5) by (simp add: inj_on_def)
    with p(6-9) show ?thesis by simp
  qed
  show ?thesis
  proof
    assume "map_of ?D ?k = Some t"
    from desired_mem [OF this] keyed_lookup [OF desired_keyed this] show "?R t" by (intro mem [THEN iffD1] conjI)
  next
    assume r: "?R t"
    from mem [THEN iffD2, OF r] have t: "t \<in> set (wanted_tasks cfg node st snap)" "rt_key t = ?k" by simp_all
    then have "map_of ?D ?k \<noteq> None" using desired_covers [OF t(1), of "[]"] by (simp add: desired_def)
    then obtain t' where t': "map_of ?D ?k = Some t'" by auto
    from desired_mem [OF this] keyed_lookup [OF desired_keyed this] have "?R t'" by (intro mem [THEN iffD1] conjI)
    from one [OF r this] t' show "map_of ?D ?k = Some t" by simp
  qed
qed

section \<open>A run\<close>

text \<open>Two hosts that share one slot.\<close>

definition demo_host :: "string \<Rightarrow> host_record" where
  "demo_host h = \<lparr>hr_id = h, hr_address = ''10.0.0.'' @ h, hr_attributes = [], hr_source = [], hr_healthy = True,
     hr_reason = [], hr_seen_at = 0, hr_priority = 0\<rparr>"

definition demo_hosts :: snapshot where
  "demo_hosts = \<lparr>sn_hosts = [demo_host ''1'', demo_host ''2''], sn_by_id = [(''1'', 0), (''2'', 1)],
     sn_generation = 1, sn_taken_at = 0, sn_collisions = 0, sn_sources = []\<rparr>"

definition demo_slot :: slot_rec where
  "demo_slot = \<lparr>sl_index = 0, sl_class = ''anchor'', sl_host_a = ''1'', sl_host_b = ''2'', sl_rank_a = 1, sl_rank_b = 1,
     sl_assigned_a = 0, sl_assigned_b = 0, sl_super_target = []\<rparr>"

definition demo_paired :: pairing_rec where
  "demo_paired = \<lparr>pg_key = ''x|y'', pg_zone_a = ''x'', pg_zone_b = ''y'', pg_intra = False, pg_slots = [demo_slot],
     pg_remove_at = 0\<rparr>"

definition demo_table :: mesh_state where
  "demo_table = (new_state [] [])\<lparr>ms_pairings := [(''x|y'', demo_paired)]\<rparr>"

definition demo_key :: task_key where
  "demo_key = \<lparr>ky_pairing = ''x|y'', ky_slot = 0, ky_kind = KindUDP, ky_forward = True\<rparr>"

definition demo_task :: task where
  "demo_task = make_task default_config ''x|y'' demo_slot (demo_host ''2'') (direction True demo_paired demo_slot) KindUDP"

lemma demo_kinds: "enabled_kinds (cf_probes default_config) = [KindICMP, KindUDP, KindTCP]"
  by (simp add: default_config_def default_probes_def enabled_kinds_def)

lemma demo_facts: "filled demo_slot" "slot_host demo_slot (source_side True) = ''1''"
  "slot_host demo_slot (source_side False) = ''2''" "snap_get demo_hosts ''2'' = Some (demo_host ''2'')"
  by (simp_all add: demo_slot_def filled_def slot_host_def source_side_def snap_get_def demo_hosts_def)

lemma demo_desired: "map_of (desired default_config ''1'' demo_table demo_hosts) demo_key = Some demo_task"
proof -
  let ?D = "desired default_config ''1'' demo_table demo_hosts"
  have st: "ms_pairings demo_table = [(''x|y'', demo_paired)]" "pg_slots demo_paired = [demo_slot]" "pg_remove_at demo_paired = 0"
    by (simp_all add: demo_table_def demo_paired_def)
  have mem: "t \<in> set (wanted_tasks default_config ''1'' demo_table demo_hosts) \<and> rt_key t = demo_key \<longleftrightarrow> t = demo_task" for t
    unfolding wanted_mem
    by (auto simp: st demo_facts demo_kinds demo_key_def demo_task_def ex_bool_eq)
      (auto simp: demo_slot_def)
  then have "rt_key demo_task = demo_key" "demo_task \<in> set (wanted_tasks default_config ''1'' demo_table demo_hosts)" by blast+
  then have "map_of ?D demo_key \<noteq> None"
    using desired_covers [of demo_task "wanted_tasks default_config ''1'' demo_table demo_hosts" "[]"] by (simp add: desired_def)
  then obtain t where t: "map_of ?D demo_key = Some t" by auto
  from desired_mem [OF t] keyed_lookup [OF desired_keyed t] mem t show ?thesis by auto
qed

theorem tasks_cover_slots_witness:
  "\<exists>t. map_of (desired default_config ''1'' demo_table demo_hosts) demo_key = Some t \<and> ta_host (rt_dst t) = ''2''"
proof -
  have "gm_wf (ms_pairings demo_table)" "\<forall>key p. map_of (ms_pairings demo_table) key = Some p \<longrightarrow> distinct (map sl_index (pg_slots p))"
    by (simp_all add: demo_table_def demo_paired_def gm_wf_def)
  note c = tasks_cover_slots [OF this, where cfg = default_config and node = "''1''" and snap = demo_hosts
      and key = "''x|y''" and i = 0 and k = KindUDP and f = True and t = demo_task]
  have "\<exists>p s dst. map_of (ms_pairings demo_table) ''x|y'' = Some p \<and> is_zero (pg_remove_at p) \<and> s \<in> set (pg_slots p)
      \<and> sl_index s = 0 \<and> filled s \<and> slot_host s (source_side True) = ''1''
      \<and> snap_get demo_hosts (slot_host s (source_side (\<not> True))) = Some dst
      \<and> KindUDP \<in> set (enabled_kinds (cf_probes default_config))
      \<and> demo_task = make_task default_config ''x|y'' s dst (direction True p s) KindUDP"
    by (intro exI [of _ demo_paired] exI [of _ demo_slot] exI [of _ "demo_host ''2''"])
      (simp add: demo_facts demo_kinds demo_task_def demo_table_def, simp add: demo_paired_def demo_slot_def)
  then have "map_of (desired default_config ''1'' demo_table demo_hosts) demo_key = Some demo_task"
    unfolding demo_key_def c .
  moreover have "ta_host (rt_dst demo_task) = ''2''" using demo_facts(3) by (simp add: demo_task_def)
  ultimately show ?thesis by blast
qed

definition demo_runner :: runner where
  "demo_runner = runner_begin (new_runner [KindUDP])"

lemma demo_runner_inv: "runner_inv demo_runner" "rn_ready demo_runner" "rn_probers demo_runner = [KindUDP]" "rn_tasks demo_runner = []"
  by (simp_all add: demo_runner_def runner_begin_def new_runner_def runner_inv_def keyed_def)

theorem apply_converges_witness:
  "\<exists>r' gone starting. runner_apply 5 default_config ''1'' demo_table demo_hosts demo_runner = (r', gone, starting)
     \<and> map_of (rn_tasks r') demo_key = Some (demo_task\<lparr>rt_started := 5\<rparr>)
     \<and> fst (snd (runner_apply 9 default_config ''1'' demo_table demo_hosts r')) = []"
proof -
  obtain r' gone starting where a: "runner_apply 5 default_config ''1'' demo_table demo_hosts demo_runner = (r', gone, starting)"
    using prod_cases3 by blast
  obtain r'' gone' starting' where b: "runner_apply 9 default_config ''1'' demo_table demo_hosts r' = (r'', gone', starting')"
    using prod_cases3 by blast
  have "ky_kind demo_key = KindUDP" by (simp add: demo_key_def)
  with apply_converges [OF demo_runner_inv(1,2) a] have
    "map_of (rn_tasks r') demo_key = Some (demo_task\<lparr>rt_started := 5\<rparr>)"
    by (auto simp: applied_def demo_desired demo_runner_inv)
  moreover have "gone' = []" using apply_converges [OF demo_runner_inv(1,2) a] b by blast
  ultimately show ?thesis using a b by auto
qed

end
