(* ===== verification/MeshPing.thy ===== *)
theory MeshPing
  imports Probers
begin

text \<open>
  Models the privileged helper (\<open>cmd/meshping/main.go\<close>) and the messages it speaks
  (\<open>pkg/pingproto/proto.go\<close>). Jobs, the pending map and the receive loops share the samples by
  pointer, so the samples live in a store and everything else holds their addresses. One event is one
  critical section or one step between two: a request arrives, a packet of a job is sent, a reply is
  read, a job ends. Resolving a name and
  the sockets are outside; the text of a message is in \<open>Protocol\<close>, the start and the end of the helper in \<open>Session\<close>.
\<close>

section \<open>Messages\<close>

record request =
  rq_id :: string
  rq_target :: string
  rq_count :: int
  rq_interval_ms :: int
  rq_payload :: int
  rq_timeout_ms :: int
  rq_ttl :: int
  rq_df :: bool
  rq_ipv6 :: bool

record ping_result =
  pr_id :: string
  pr_target :: string
  pr_resolved :: string
  pr_sent :: int
  pr_received :: int
  pr_lost :: int
  pr_reordered :: int
  pr_rtt_us :: "int list"
  pr_error :: string
  pr_class :: err_class

datatype request_error =
    EmptyId | EmptyTarget | BadCount int | BadInterval int | BadTimeout int | BadPayload int | BadTTL int

definition validate_request :: "request \<Rightarrow> request_error option" where
  "validate_request r =
     (if rq_id r = [] then Some EmptyId
      else if rq_target r = [] then Some EmptyTarget
      else if rq_count r \<le> 0 \<or> rq_count r > 1000 then Some (BadCount (rq_count r))
      else if rq_interval_ms r < 0 \<or> rq_interval_ms r > 60000 then Some (BadInterval (rq_interval_ms r))
      else if rq_timeout_ms r \<le> 0 \<or> rq_timeout_ms r > 60000 then Some (BadTimeout (rq_timeout_ms r))
      else if rq_payload r < 8 \<or> rq_payload r > 65000 then Some (BadPayload (rq_payload r))
      else if rq_ttl r < 0 \<or> rq_ttl r > 255 then Some (BadTTL (rq_ttl r))
      else None)"

section \<open>Payloads\<close>

definition build_payload :: "int \<Rightarrow> 16 word \<Rightarrow> 64 word \<Rightarrow> 8 word list" where
  "build_payload n0 seq nanos =
     (let n = nat (if n0 < 8 then 8 else n0)
      in magic @ be_bytes 2 (unat seq) @ [0, 0]
         @ (if n \<ge> 16 then be_bytes 8 (unat nanos) else replicate (n - 8) 0)
         @ map of_nat [16..<n])"

definition has_magic :: "8 word list \<Rightarrow> bool" where
  "has_magic b \<longleftrightarrow> length b \<ge> 4 \<and> take 4 b = magic"

section \<open>Addresses and errors\<close>

text \<open>
  \<open>net.ResolveIPAddr\<close> is an argument: for IPv6 or not and a target, the error class or the address and
  whether it is an IPv4 one. A target without an IPv4 address is tried for IPv6.
\<close>

definition resolve_target ::
  "(bool \<Rightarrow> string \<Rightarrow> err_class + string \<times> bool) \<Rightarrow> string \<Rightarrow> bool \<Rightarrow> err_class + string \<times> bool" where
  "resolve_target lookup host force_v6 =
     (case lookup force_v6 host of
        Inr (a, is_v4) \<Rightarrow> Inr (a, \<not> is_v4)
      | Inl e \<Rightarrow>
          if force_v6 then Inl e
          else (case lookup True host of Inr (a, is_v4) \<Rightarrow> Inr (a, \<not> is_v4) | Inl _ \<Rightarrow> Inl e))"

definition contains :: "string \<Rightarrow> string \<Rightarrow> bool" where
  "contains msg sub \<longleftrightarrow> list_ex (\<lambda>i. has_prefix (drop i msg) sub) [0..<length msg + 1]"

text \<open>An error is its chain, its text, and whether it is \<open>os.ErrPermission\<close>.\<close>

definition ping_classify :: "(err \<times> string \<times> bool) option \<Rightarrow> err_class" where
  "ping_classify e =
     (case e of None \<Rightarrow> ErrNone
      | Some (chain, msg, permission) \<Rightarrow>
          if list_ex el_dns chain then ErrResolve
          else if net_timeout chain then ErrTimeout
          else if permission then ErrPermission
          else if contains msg ''connection refused'' then ErrRefused
          else if contains msg ''unreachable'' then ErrUnreachable
          else if contains msg ''permission denied'' \<or> contains msg ''operation not permitted'' then ErrPermission
          else ErrInternal)"

section \<open>The pinger\<close>

record sample =
  sm_seq :: "16 word"
  sm_job :: string
  sm_sent_at :: time
  sm_recv_at :: time
  sm_received :: bool
  sm_order :: nat

text \<open>A job holds the addresses of its samples; an error is its text and its class.\<close>

record job =
  jb_req :: request
  jb_resolved :: string
  jb_sent :: "nat list"
  jb_error :: "(string \<times> err_class) option"
  jb_cancelled :: bool

record pinger =
  pn_seq :: "32 word"
  pn_inflight :: "(string, job) gomap"
  pn_pending :: "(16 word, nat) gomap"
  pn_samples :: "sample list"

definition new_pinger :: pinger where
  "new_pinger = \<lparr>pn_seq = 0, pn_inflight = [], pn_pending = [], pn_samples = []\<rparr>"

datatype start_error = Unresolved err_class | NoIPv6 | NoIPv4 | Duplicate

text \<open>\<open>start\<close>, with the address \<open>resolve\<close> gave and the sockets there are.\<close>

definition start_job :: "request \<Rightarrow> err_class + string \<times> bool \<Rightarrow> bool \<Rightarrow> bool \<Rightarrow> pinger \<Rightarrow> start_error + pinger" where
  "start_job req resolved v4 v6 p =
     (case resolved of
        Inl c \<Rightarrow> Inl (Unresolved c)
      | Inr (addr, is_v6) \<Rightarrow>
          if is_v6 \<and> \<not> v6 then Inl NoIPv6
          else if \<not> is_v6 \<and> \<not> v4 then Inl NoIPv4
          else if map_of (pn_inflight p) (rq_id req) \<noteq> None then Inl Duplicate
          else Inr (p\<lparr>pn_inflight := AList.update (rq_id req)
                 \<lparr>jb_req = req, jb_resolved = addr, jb_sent = [], jb_error = None, jb_cancelled = False\<rparr> (pn_inflight p)\<rparr>))"

definition note_ping_error :: "string \<times> err_class \<Rightarrow> job \<Rightarrow> job" where
  "note_ping_error e j = (if jb_error j = None then j\<lparr>jb_error := Some e\<rparr> else j)"

text \<open>A cancelled job sends no more; its result is still emitted.\<close>

definition cancel_job :: "string \<Rightarrow> pinger \<Rightarrow> pinger" where
  "cancel_job hid p =
     (case map_of (pn_inflight p) hid of
        None \<Rightarrow> p
      | Some j \<Rightarrow> p\<lparr>pn_inflight := AList.update hid (j\<lparr>jb_cancelled := True\<rparr>) (pn_inflight p)\<rparr>)"

text \<open>
  One pass of the send loop of \<open>run\<close>: the sample is stored and pending before the message is built;
  \<open>sentAt\<close> stays the zero time when it cannot be built.
\<close>

datatype send_outcome = Marshalled time "(string \<times> err_class) option" | NotMarshalled string

definition send_packet :: "string \<Rightarrow> send_outcome \<Rightarrow> pinger \<Rightarrow> pinger" where
  "send_packet hid out p =
     (case map_of (pn_inflight p) hid of
        None \<Rightarrow> p
      | Some j \<Rightarrow>
          if jb_cancelled j then p else
          let n = pn_seq p + 1; seq = ucast n; i = length (pn_samples p);
              at = (case out of Marshalled t _ \<Rightarrow> t | NotMarshalled _ \<Rightarrow> 0);
              s = \<lparr>sm_seq = seq, sm_job = hid, sm_sent_at = at, sm_recv_at = 0, sm_received = False,
                   sm_order = length (jb_sent j)\<rparr>;
              j1 = j\<lparr>jb_sent := jb_sent j @ [i]\<rparr>;
              j2 = (case out of
                      NotMarshalled msg \<Rightarrow> note_ping_error (msg, ErrInternal) j1
                    | Marshalled _ (Some e) \<Rightarrow> note_ping_error e j1
                    | Marshalled _ None \<Rightarrow> j1)
          in p\<lparr>pn_seq := n, pn_samples := pn_samples p @ [s],
               pn_pending := AList.update seq i (pn_pending p),
               pn_inflight := AList.update hid j2 (pn_inflight p)\<rparr>)"

text \<open>
  A datagram as \<open>recvLoop\<close> sees it: what \<open>ParseMessage\<close> makes of it, an echo reply or not, its sequence
  number and data.
\<close>

datatype icmp_message = Unparsed | OtherBody | EchoBody bool int "8 word list"

definition receive_reply :: "icmp_message \<Rightarrow> time \<Rightarrow> pinger \<Rightarrow> pinger" where
  "receive_reply msg now p =
     (case msg of
        EchoBody True q payload \<Rightarrow>
          if length payload \<ge> 8 \<and> \<not> has_magic payload then p
          else (case map_of (pn_pending p) (of_int q) of
                  None \<Rightarrow> p
                | Some i \<Rightarrow>
                    if sm_received (pn_samples p ! i) then p
                    else p\<lparr>pn_samples := (pn_samples p)[i := (pn_samples p ! i)\<lparr>sm_received := True, sm_recv_at := now\<rparr>],
                           pn_pending := AList.delete (of_int q) (pn_pending p)\<rparr>)
      | _ \<Rightarrow> p)"

definition micros :: "dur \<Rightarrow> int" where
  "micros d = go_div d 1000"

text \<open>The loop of \<open>collect\<close>, with \<open>lastOrder\<close>.\<close>

definition collect_sample :: "sample \<Rightarrow> ping_result \<times> int \<Rightarrow> ping_result \<times> int" where
  "collect_sample s acc =
     (case acc of (res, last_order) \<Rightarrow>
        if \<not> sm_received s then (res\<lparr>pr_lost := pr_lost res + 1\<rparr>, last_order)
        else let res1 = res\<lparr>pr_received := pr_received res + 1,
                            pr_rtt_us := pr_rtt_us res @ [micros (tm_sub (sm_recv_at s) (sm_sent_at s))]\<rparr>
             in if int (sm_order s) < last_order then (res1\<lparr>pr_reordered := pr_reordered res1 + 1\<rparr>, last_order)
                else (res1, int (sm_order s)))"

definition collect :: "sample list \<Rightarrow> job \<Rightarrow> ping_result" where
  "collect store j =
     fst (fold collect_sample (map ((!) store) (jb_sent j))
       (\<lparr>pr_id = rq_id (jb_req j), pr_target = rq_target (jb_req j), pr_resolved = jb_resolved j,
         pr_sent = int (length (jb_sent j)), pr_received = 0, pr_lost = 0, pr_reordered = 0, pr_rtt_us = [],
         pr_error = [], pr_class = ErrNone\<rparr>, -1))"

text \<open>The end of \<open>run\<close>: the job leaves the maps and its result is emitted.\<close>

definition finish_job :: "string \<Rightarrow> pinger \<Rightarrow> pinger \<times> ping_result option" where
  "finish_job hid p =
     (case map_of (pn_inflight p) hid of
        None \<Rightarrow> (p, None)
      | Some j \<Rightarrow>
          let res = collect (pn_samples p) j;
              out = (case jb_error j of
                       Some (msg, c) \<Rightarrow>
                         if pr_received res = 0 then res\<lparr>pr_error := msg, pr_class := c\<rparr> else res
                     | None \<Rightarrow>
                         if pr_received res = 0 \<and> pr_sent res > 0
                         then res\<lparr>pr_error := ''no replies'', pr_class := ErrTimeout\<rparr> else res)
          in (p\<lparr>pn_pending := fold (\<lambda>i. AList.delete (sm_seq (pn_samples p ! i))) (jb_sent j) (pn_pending p),
                pn_inflight := AList.delete hid (pn_inflight p)\<rparr>, Some out))"

text \<open>A line of standard input after decoding, and what the read loop does with it.\<close>

datatype ping_message = PingUndecoded string | PingRequest request | PingCancel string | PingShutdown | PingUnknown

datatype ping_reply = PingRefused string err_class

definition start_error_class :: "start_error \<Rightarrow> err_class" where
  "start_error_class e = (case e of Unresolved c \<Rightarrow> c | _ \<Rightarrow> ErrInternal)"

definition dispatch ::
  "(request \<Rightarrow> err_class + string \<times> bool) \<Rightarrow> bool \<Rightarrow> bool \<Rightarrow> ping_message \<Rightarrow> pinger \<Rightarrow> pinger \<times> ping_reply list \<times> bool" where
  "dispatch look v4 v6 msg p =
     (case msg of
        PingUndecoded hid \<Rightarrow> (p, [PingRefused hid ErrInternal], True)
      | PingRequest req \<Rightarrow>
          (case validate_request req of
             Some _ \<Rightarrow> (p, [PingRefused (rq_id req) ErrInternal], True)
           | None \<Rightarrow>
               (case start_job req (look req) v4 v6 p of
                  Inl e \<Rightarrow> (p, [PingRefused (rq_id req) (start_error_class e)], True)
                | Inr p' \<Rightarrow> (p', [], True)))
      | PingCancel hid \<Rightarrow> (cancel_job hid p, [], True)
      | PingShutdown \<Rightarrow> (p, [], False)
      | PingUnknown \<Rightarrow> (p, [], True))"

section \<open>The events of a run\<close>

datatype ping_event =
    EvMessage "request \<Rightarrow> err_class + string \<times> bool" bool bool ping_message
  | EvSend string send_outcome
  | EvReply icmp_message time
  | EvFinish string

fun ping_step :: "ping_event \<Rightarrow> pinger \<Rightarrow> pinger" where
  "ping_step (EvMessage look v4 v6 msg) p = fst (dispatch look v4 v6 msg p)"
| "ping_step (EvSend hid out) p = send_packet hid out p"
| "ping_step (EvReply msg now) p = receive_reply msg now p"
| "ping_step (EvFinish hid) p = fst (finish_job hid p)"

text \<open>
  The invariant: a job in flight is filed under its own id, its samples are its own, numbered in the
  order they were sent, and a pending entry leads to a sample with that number that is not received.
\<close>

definition job_ok :: "sample list \<Rightarrow> string \<Rightarrow> job \<Rightarrow> bool" where
  "job_ok store hid j \<longleftrightarrow> rq_id (jb_req j) = hid
     \<and> (\<forall>n < length (jb_sent j). jb_sent j ! n < length store
          \<and> sm_order (store ! (jb_sent j ! n)) = n \<and> sm_job (store ! (jb_sent j ! n)) = hid)"

definition pn_inv :: "pinger \<Rightarrow> bool" where
  "pn_inv p \<longleftrightarrow> (\<forall>hid j. map_of (pn_inflight p) hid = Some j \<longrightarrow> job_ok (pn_samples p) hid j)
     \<and> (\<forall>q i. map_of (pn_pending p) q = Some i \<longrightarrow> i < length (pn_samples p)
          \<and> sm_seq (pn_samples p ! i) = q \<and> \<not> sm_received (pn_samples p ! i))"

lemma job_ok_append: "job_ok store hid j \<Longrightarrow> job_ok (store @ [s]) hid j"
  by (auto simp: job_ok_def nth_append)

lemma note_ping_error_simps [simp]:
  "jb_req (note_ping_error e j) = jb_req j" "jb_sent (note_ping_error e j) = jb_sent j"
  by (simp_all add: note_ping_error_def)

lemma job_ok_send:
  assumes "job_ok store hid j" "sm_order s = length (jb_sent j)" "sm_job s = hid"
    "jb_req j' = jb_req j" "jb_sent j' = jb_sent j @ [length store]"
  shows "job_ok (store @ [s]) hid j'"
  using assms by (auto simp: job_ok_def nth_append less_Suc_eq)

lemma map_of_del: "map_of (AList.delete k m) q = (if q = k then None else map_of m q)"
  by (simp add: delete_conv')

lemma map_of_del_all: "map_of (fold (\<lambda>i. AList.delete (f i)) xs m) q = (if q \<in> f ` set xs then None else map_of m q)"
  by (induction xs arbitrary: m) (auto simp: map_of_del)

lemma send_packet_inv:
  assumes "pn_inv p"
  shows "pn_inv (send_packet hid out p)"
proof (cases "map_of (pn_inflight p) hid")
  case (Some j)
  show ?thesis
  proof (cases "jb_cancelled j")
    case False
    let ?s = "\<lparr>sm_seq = ucast (pn_seq p + 1), sm_job = hid,
        sm_sent_at = (case out of Marshalled t _ \<Rightarrow> t | NotMarshalled _ \<Rightarrow> 0), sm_recv_at = 0, sm_received = False,
        sm_order = length (jb_sent j)\<rparr>"
    let ?j1 = "j\<lparr>jb_sent := jb_sent j @ [length (pn_samples p)]\<rparr>"
    let ?j2 = "case out of NotMarshalled msg \<Rightarrow> note_ping_error (msg, ErrInternal) ?j1
        | Marshalled _ (Some e) \<Rightarrow> note_ping_error e ?j1 | Marshalled _ None \<Rightarrow> ?j1"
    have eq: "send_packet hid out p = p\<lparr>pn_seq := pn_seq p + 1, pn_samples := pn_samples p @ [?s],
        pn_pending := AList.update (ucast (pn_seq p + 1)) (length (pn_samples p)) (pn_pending p),
        pn_inflight := AList.update hid ?j2 (pn_inflight p)\<rparr>"
      by (simp only: send_packet_def Some False Let_def option.case if_False)
    have "job_ok (pn_samples p) hid j" using assms Some by (simp add: pn_inv_def)
    then have "job_ok (pn_samples p @ [?s]) hid ?j2"
      by (rule job_ok_send) (auto split: send_outcome.split option.split)
    with assms show ?thesis unfolding eq
      by (auto simp: pn_inv_def update_conv nth_append job_ok_append intro: less_SucI)
  qed (use assms Some in \<open>simp add: send_packet_def\<close>)
qed (use assms in \<open>simp add: send_packet_def\<close>)

lemma nth_update_field: "(\<And>x. f (g x) = f x) \<Longrightarrow> f (xs[i := g (xs ! i)] ! m) = f (xs ! m)"
  by (cases "i < length xs") (simp_all add: nth_list_update list_update_beyond not_less)

lemma receive_reply_inv:
  assumes "pn_inv p"
  shows "pn_inv (receive_reply msg now p)"
proof -
  have "job_ok (store[i := (store ! i)\<lparr>sm_received := True, sm_recv_at := now\<rparr>]) hid j"
    if "job_ok store hid j" for store i hid j
    using that nth_update_field [of sm_order "\<lambda>s. s\<lparr>sm_received := True, sm_recv_at := now\<rparr>" store i]
      nth_update_field [of sm_job "\<lambda>s. s\<lparr>sm_received := True, sm_recv_at := now\<rparr>" store i]
    by (simp add: job_ok_def)
  moreover have "q = q'" if "map_of (pn_pending p) q = Some i" "map_of (pn_pending p) q' = Some i" for q q' i
    using that assms by (metis pn_inv_def)
  ultimately show ?thesis using assms
    by (auto simp: pn_inv_def receive_reply_def map_of_del nth_list_update split: icmp_message.split bool.split option.split)
qed

lemma dispatch_inv: "pn_inv p \<Longrightarrow> pn_inv (fst (dispatch look v4 v6 msg p))"
  by (auto simp: pn_inv_def dispatch_def start_job_def cancel_job_def update_conv job_ok_def
      split: ping_message.split option.splits sum.splits if_splits)

lemma finish_job_inv: "pn_inv p \<Longrightarrow> pn_inv (fst (finish_job hid p))"
  by (auto simp: pn_inv_def finish_job_def Let_def map_of_del map_of_del_all split: option.split)

interpretation pinging: inv_machine ping_step pn_inv
proof
  show "pn_inv (ping_step ev p)" if "pn_inv p" for ev p
    using that by (cases ev) (simp_all add: dispatch_inv send_packet_inv receive_reply_inv finish_job_inv)
qed

lemma new_pinger_inv: "pn_inv new_pinger"
  by (simp add: pn_inv_def new_pinger_def)

section \<open>Results\<close>

definition sample_rtt :: "sample \<Rightarrow> int" where
  "sample_rtt s = micros (tm_sub (sm_recv_at s) (sm_sent_at s))"

text \<open>Samples come to \<open>collect\<close> in the order they were sent, so none counts as reordered.\<close>

lemma collect_fold:
  assumes "sorted_wrt (<) (map sm_order ss)" "\<forall>s \<in> set ss. l \<le> int (sm_order s)"
  shows "fst (fold collect_sample ss (res, l)) =
    res\<lparr>pr_received := pr_received res + int (length (filter sm_received ss)),
        pr_lost := pr_lost res + int (length (filter (\<lambda>s. \<not> sm_received s) ss)),
        pr_rtt_us := pr_rtt_us res @ map sample_rtt (filter sm_received ss)\<rparr>"
  using assms
proof (induction ss arbitrary: res l)
  case (Cons s ss)
  have less: "\<forall>s' \<in> set ss. int (sm_order s) \<le> int (sm_order s')" using Cons.prems(1) by auto
  show ?case
  proof (cases "sm_received s")
    case True
    with Cons.prems(2) have "collect_sample s (res, l) = (res\<lparr>pr_received := pr_received res + 1,
        pr_rtt_us := pr_rtt_us res @ [sample_rtt s]\<rparr>, int (sm_order s))"
      by (simp add: collect_sample_def sample_rtt_def Let_def)
    with Cons.IH [of "int (sm_order s)"] Cons.prems(1) less True show ?thesis by simp
  next
    case False
    then have "collect_sample s (res, l) = (res\<lparr>pr_lost := pr_lost res + 1\<rparr>, l)" by (simp add: collect_sample_def)
    with Cons.IH [of l] Cons.prems False show ?thesis by simp
  qed
qed simp

definition job_samples :: "pinger \<Rightarrow> string \<Rightarrow> sample list" where
  "job_samples p hid =
     (case map_of (pn_inflight p) hid of None \<Rightarrow> [] | Some j \<Rightarrow> map ((!) (pn_samples p)) (jb_sent j))"

lemma collect_exact:
  assumes "job_ok store hid j"
  defines "ss \<equiv> map ((!) store) (jb_sent j)"
  shows "pr_id (collect store j) = hid \<and> pr_sent (collect store j) = int (length ss)
    \<and> pr_received (collect store j) = int (length (filter sm_received ss))
    \<and> pr_lost (collect store j) = int (length (filter (\<lambda>s. \<not> sm_received s) ss))
    \<and> pr_rtt_us (collect store j) = map sample_rtt (filter sm_received ss) \<and> pr_reordered (collect store j) = 0
    \<and> pr_error (collect store j) = []"
proof -
  have "map sm_order ss = [0..<length (jb_sent j)]"
    using assms(1) by (intro nth_equalityI) (auto simp: job_ok_def ss_def)
  then have "sorted_wrt (<) (map sm_order ss)" by simp
  from collect_fold [OF this, of "-1"] assms(1) show ?thesis
    by (simp add: collect_def ss_def job_ok_def)
qed

lemma finish_exact:
  assumes inv: "pn_inv p" and fin: "finish_job hid p = (p', Some res)"
  shows "pr_id res = hid \<and> pr_sent res = int (length (job_samples p hid))
    \<and> pr_sent res = pr_received res + pr_lost res \<and> pr_received res = int (length (pr_rtt_us res))
    \<and> pr_rtt_us res = map sample_rtt (filter sm_received (job_samples p hid))
    \<and> pr_reordered res = 0
    \<and> map_of (pn_inflight p') hid = None
    \<and> (\<forall>q i j. map_of (pn_inflight p) hid = Some j \<and> map_of (pn_pending p') q = Some i \<longrightarrow> i \<notin> set (jb_sent j))"
proof -
  obtain j where j: "map_of (pn_inflight p) hid = Some j" using fin by (auto simp: finish_job_def split: option.splits)
  with inv have ok: "job_ok (pn_samples p) hid j" by (simp add: pn_inv_def)
  have same: "pr_id res = pr_id (collect (pn_samples p) j)" "pr_sent res = pr_sent (collect (pn_samples p) j)"
    "pr_received res = pr_received (collect (pn_samples p) j)" "pr_lost res = pr_lost (collect (pn_samples p) j)"
    "pr_rtt_us res = pr_rtt_us (collect (pn_samples p) j)" "pr_reordered res = pr_reordered (collect (pn_samples p) j)"
    using fin j by (auto simp: finish_job_def Let_def split: option.splits if_splits)
  have p': "p' = fst (finish_job hid p)" using fin by simp
  have "i \<notin> set (jb_sent j)" if "map_of (pn_pending p') q = Some i" for q i
  proof -
    from that j have "map_of (pn_pending p) q = Some i" "q \<notin> (\<lambda>i. sm_seq (pn_samples p ! i)) ` set (jb_sent j)"
      by (auto simp: p' finish_job_def Let_def map_of_del_all split: if_splits)
    moreover from inv this(1) have "sm_seq (pn_samples p ! i) = q" by (simp add: pn_inv_def)
    ultimately show ?thesis by blast
  qed
  moreover have "map_of (pn_inflight p') hid = None" by (simp add: p' finish_job_def Let_def j map_of_del)
  ultimately show ?thesis
    using collect_exact [OF ok] j sum_length_filter_compl [of sm_received "job_samples p hid"]
    by (simp add: same job_samples_def flip: of_nat_add)
qed

text \<open>
  C16: a result of the helper accounts for every packet of its job. In whatever order requests,
  packets, replies and cancellations of any number of jobs come, the result of a job counts the
  packets it sent as received or lost, has the round trip times of the received ones in the order
  they were sent, and no reply that comes later reaches a sample of the job. The reorder count is 0,
  in whatever order the replies came.
\<close>

theorem ping_result_exact:
  assumes "p = fold ping_step evs new_pinger" "finish_job hid p = (p', Some res)"
  shows "pr_id res = hid \<and> pr_sent res = int (length (job_samples p hid))
    \<and> pr_sent res = pr_received res + pr_lost res \<and> pr_received res = int (length (pr_rtt_us res))
    \<and> pr_rtt_us res = map sample_rtt (filter sm_received (job_samples p hid))
    \<and> pr_reordered res = 0
    \<and> map_of (pn_inflight p') hid = None
    \<and> (\<forall>q i j. map_of (pn_inflight p) hid = Some j \<and> map_of (pn_pending p') q = Some i \<longrightarrow> i \<notin> set (jb_sent j))"
  by (rule finish_exact) (use assms pinging.run_keeps [OF new_pinger_inv] in simp_all)

text \<open>Two packets, the second answered first.\<close>

definition demo_request :: request where
  "demo_request = \<lparr>rq_id = ''7'', rq_target = ''b'', rq_count = 2, rq_interval_ms = 1, rq_payload = 56,
     rq_timeout_ms = 1000, rq_ttl = 64, rq_df = False, rq_ipv6 = False\<rparr>"

definition demo_events :: "ping_event list" where
  "demo_events = [EvMessage (\<lambda>_. Inr (''10.0.0.2'', False)) True False (PingRequest demo_request),
     EvSend ''7'' (Marshalled 1000000 None), EvSend ''7'' (Marshalled 2000000 None),
     EvReply (EchoBody True 2 []) 2500000, EvReply (EchoBody True 1 []) 3000000]"

lemma demo_pinger:
  "map_of (pn_inflight (fold ping_step demo_events new_pinger)) ''7'' =
     Some \<lparr>jb_req = demo_request, jb_resolved = ''10.0.0.2'', jb_sent = [0, 1], jb_error = None, jb_cancelled = False\<rparr>"
  "map sample_rtt (filter sm_received (map ((!) (pn_samples (fold ping_step demo_events new_pinger))) [0, 1])) = [2000, 500]"
  by code_simp+

theorem ping_result_exact_witness:
  "\<exists>p' res. finish_job ''7'' (fold ping_step demo_events new_pinger) = (p', Some res)
     \<and> pr_sent res = 2 \<and> pr_rtt_us res = [2000, 500] \<and> pr_reordered res = 0"
proof -
  let ?p = "fold ping_step demo_events new_pinger"
  obtain p' res where f: "finish_job ''7'' ?p = (p', Some res)"
    by (simp add: finish_job_def demo_pinger(1) Let_def)
  from ping_result_exact [OF refl f] f demo_pinger(2) show ?thesis
    by (simp add: job_samples_def demo_pinger(1))
qed

end
