(* ===== verification/IcmpClient.thy ===== *)
theory IcmpClient
  imports MeshPing Config
begin

text \<open>
  Models the client of the helper process (\<open>internal/probe/icmp/client.go\<close>): the requests in flight and
  their waiters, the messages of the child, its exits, and the restart delay. A waiter is a mailbox
  that takes one result, at an address the map and the probe share. The steps are the critical
  sections; a probe is two of them, the request and what ended the wait for its result. The text of
  the messages is in \<open>Protocol\<close>, the sessions of the process in \<open>Session\<close>.
\<close>

section \<open>The restart delay\<close>

definition client_backoff :: "int \<Rightarrow> dur \<Rightarrow> dur \<Rightarrow> dur" where
  "client_backoff attempt lo hi =
     (let lo1 = dur_or second lo; hi1 = dur_or (30 * second) hi;
          d = backoff_loop 1 attempt lo1 hi1
      in if d > hi1 then hi1 else d)"

text \<open>
  The helper is restarted with a bounded exponential delay. The wait before restart \<open>n\<close> is the
  configured minimum doubled \<open>n - 1\<close> times, but never more than the maximum (with one and thirty
  seconds for what is not set); so it never shrinks, is never 0 and, once at the maximum, stays there.
\<close>

theorem restart_delay:
  assumes "1 \<le> attempt" "hi \<le> 2 ^ 62"
  shows "client_backoff attempt lo hi = min (dur_or (30 * second) hi) (dur_or second lo * 2 ^ nat (attempt - 1))
    \<and> 0 < client_backoff attempt lo hi \<and> client_backoff attempt lo hi \<le> dur_or (30 * second) hi
    \<and> client_backoff attempt lo hi \<le> client_backoff (attempt + 1) lo hi"
proof -
  define lo1 hi1 where "lo1 = dur_or second lo" and "hi1 = dur_or (30 * second) hi"
  have lo: "0 < lo1" and hi: "0 < hi1" "hi1 \<le> 2 ^ 62"
    using assms(2) by (simp_all add: lo1_def hi1_def dur_or_def second_def)
  have eq: "client_backoff n lo hi = min hi1 (lo1 * 2 ^ nat (n - 1))" if "1 \<le> n" for n
    using backoff_loop_pow [OF lo hi(2) that] unfolding client_backoff_def lo1_def [symmetric] hi1_def [symmetric] Let_def
    by (auto simp: min_def split: if_splits)
  have "nat attempt = Suc (nat (attempt - 1))" using assms(1) by linarith
  moreover have "0 < lo1 * 2 ^ nat (attempt - 1)" using lo by simp
  ultimately show ?thesis using hi lo assms(1) by (auto simp: eq min_def lo1_def [symmetric] hi1_def [symmetric])
qed

theorem restart_delay_witness:
  "client_backoff 3 second (30 * second) = 4 * second \<and> client_backoff 9 second (30 * second) = 30 * second"
  using restart_delay [of 3 "30 * second" second] restart_delay [of 9 "30 * second" second] by (simp add: second_def dur_or_def)

section \<open>State\<close>

text \<open>A waiter: the id it was made for, and its mailbox. \<open>once.Do\<close> keeps the first result.\<close>

record waiter =
  wt_id :: string
  wt_box :: "ping_result option"

datatype priv_mode = PrivRaw | PrivDatagram | PrivNone

record hello =
  he_version :: string
  he_priv :: priv_mode

record client =
  cl_cfg :: meshping_config
  cl_enc :: bool
  cl_waiting :: "(string, nat) gomap"
  cl_waiters :: "waiter list"
  cl_hello :: "hello option"
  cl_avail :: bool
  cl_restarts :: "64 word"
  cl_seq :: "64 word"
  cl_fatal :: bool

definition new_client :: "meshping_config \<Rightarrow> client" where
  "new_client cfg = \<lparr>cl_cfg = cfg, cl_enc = False, cl_waiting = [], cl_waiters = [], cl_hello = None,
     cl_avail = False, cl_restarts = 0, cl_seq = 0, cl_fatal = False\<rparr>"

definition deliver :: "ping_result \<Rightarrow> waiter \<Rightarrow> waiter" where
  "deliver r w = (if wt_box w = None then w\<lparr>wt_box := Some r\<rparr> else w)"

text \<open>A result made by the client or from an error message: only its id and its error.\<close>

definition error_result :: "string \<Rightarrow> string \<Rightarrow> err_class \<Rightarrow> ping_result" where
  "error_result hid msg c =
     \<lparr>pr_id = hid, pr_target = [], pr_resolved = [], pr_sent = 0, pr_received = 0, pr_lost = 0, pr_reordered = 0,
      pr_rtt_us = [], pr_error = msg, pr_class = c\<rparr>"

text \<open>Take the waiter of an id off the map and give it a result.\<close>

definition settle_waiter :: "string \<Rightarrow> ping_result \<Rightarrow> client \<Rightarrow> client" where
  "settle_waiter hid r c =
     c\<lparr>cl_waiting := AList.delete hid (cl_waiting c),
       cl_waiters := (case map_of (cl_waiting c) hid of
           None \<Rightarrow> cl_waiters c | Some i \<Rightarrow> (cl_waiters c)[i := deliver r (cl_waiters c ! i)])\<rparr>"

section \<open>The child\<close>

datatype child_message =
    ChildHello hello | ChildResult ping_result | ChildError string string err_class | ChildUndecoded | ChildOther

text \<open>One pass of \<open>readLoop\<close>: the client, and whether the loop ends with an error. A hello that does not decode ends it too.\<close>

definition child_message :: "child_message \<Rightarrow> client \<Rightarrow> client \<times> bool" where
  "child_message msg c =
     (case msg of
        ChildHello h \<Rightarrow>
          let c1 = c\<lparr>cl_hello := Some h\<rparr>
          in if he_priv h = PrivNone then (c1\<lparr>cl_fatal := True\<rparr>, True)
             else if he_version h \<noteq> ''1'' then (c1\<lparr>cl_fatal := True\<rparr>, True)
             else (c1\<lparr>cl_avail := True\<rparr>, False)
      | ChildResult r \<Rightarrow> (settle_waiter (pr_id r) r c, False)
      | ChildError hid msg cls \<Rightarrow> (settle_waiter hid (error_result hid msg cls) c, False)
      | ChildUndecoded \<Rightarrow> (c, False)
      | ChildOther \<Rightarrow> (c, False))"

definition session_start :: "client \<Rightarrow> client" where
  "session_start c = c\<lparr>cl_enc := True\<rparr>"

text \<open>\<open>failAllWaiters\<close>, over the old map.\<close>

abbreviation exit_result :: "string \<Rightarrow> ping_result" where
  "exit_result hid \<equiv> error_result hid ''meshping exited'' ErrInternal"

definition fail_waiter :: "string \<times> nat \<Rightarrow> waiter list \<Rightarrow> waiter list" where
  "fail_waiter p ws = ws[snd p := deliver (exit_result (fst p)) (ws ! snd p)]"

definition fail_all :: "client \<Rightarrow> client" where
  "fail_all c =
     c\<lparr>cl_waiting := [],
       cl_waiters := fold fail_waiter (cl_waiting c) (cl_waiters c)\<rparr>"

text \<open>
  The part of \<open>Run\<close> after a session: with the context still live, the client either gives up for good
  or counts a restart and waits.
\<close>

definition child_exit :: "int \<Rightarrow> client \<Rightarrow> client \<times> (int \<times> dur) option" where
  "child_exit attempt c =
     (let c1 = fail_all (c\<lparr>cl_avail := False\<rparr>)
      in if cl_fatal c1 then (c1, None)
         else (c1\<lparr>cl_restarts := cl_restarts c1 + 1\<rparr>,
               Some (attempt + 1, client_backoff (attempt + 1)
                  (mp_restart_backoff_min (cl_cfg c)) (mp_restart_backoff_max (cl_cfg c)))))"

section \<open>A probe\<close>

definition request_of :: "string \<Rightarrow> target \<Rightarrow> probe_params \<Rightarrow> request" where
  "request_of hid t pr =
     \<lparr>rq_id = hid, rq_target = ta_address t, rq_count = pp_count pr,
      rq_interval_ms = go_div (pp_interval pr) millisecond, rq_payload = pp_payload pr,
      rq_timeout_ms = go_div (pp_timeout pr) millisecond, rq_ttl = pp_ttl pr, rq_df = pp_df pr, rq_ipv6 = False\<rparr>"

text \<open>
  \<open>Probe\<close> up to its \<open>select\<close>: the cycle it returns at once, or the waiter it waits at and the request it
  wrote. The error of \<open>Encode\<close> is an argument.
\<close>

definition icmp_begin ::
  "time \<Rightarrow> target \<Rightarrow> probe_params \<Rightarrow> err option \<Rightarrow> client \<Rightarrow> (cycle + nat \<times> request) \<times> client" where
  "icmp_begin now t pr encode c =
     (let cyc = new_cycle KindICMP t now
      in if \<not> cl_avail c then (Inl (cyc\<lparr>cy_err := Some plain_err, cy_class := ErrPermission\<rparr>), c)
         else let n = cl_seq c + 1; hid = show_nat (unat n); c1 = c\<lparr>cl_seq := n\<rparr>
              in if \<not> cl_enc c then (Inl (cyc\<lparr>cy_err := Some plain_err, cy_class := ErrInternal\<rparr>), c1)
                 else let i = length (cl_waiters c);
                          c2 = c1\<lparr>cl_waiting := AList.update hid i (cl_waiting c),
                                  cl_waiters := cl_waiters c @ [\<lparr>wt_id = hid, wt_box = None\<rparr>]\<rparr>
                      in case encode of
                           Some e \<Rightarrow> (Inl (cyc\<lparr>cy_err := Some e, cy_class := classify (Some e)\<rparr>),
                                      c2\<lparr>cl_waiting := AList.delete hid (cl_waiting c2)\<rparr>)
                         | None \<Rightarrow> (Inr (i, request_of hid t pr), c2))"

definition wait_limit :: "probe_params \<Rightarrow> dur" where
  "wait_limit pr = wrap64 (wrap64 (pp_count pr * wrap64 (pp_interval pr + pp_timeout pr)) + 5 * second)"

text \<open>What ended the wait: the context, the limit, or the mailbox.\<close>

datatype wait_end = WaitContext err | WaitLimit | WaitResult

definition result_cycle :: "ping_result \<Rightarrow> cycle \<Rightarrow> cycle" where
  "result_cycle r cyc =
     (let c1 = cyc\<lparr>cy_sent := pr_sent r, cy_received := pr_received r, cy_lost := pr_lost r,
                   cy_reordered := pr_reordered r, cy_rtt := map (\<lambda>us. wrap64 (us * 1000)) (pr_rtt_us r)\<rparr>
      in if pr_error r \<noteq> [] then c1\<lparr>cy_err := Some plain_err, cy_class := pr_class r\<rparr> else c1)"

text \<open>The end of \<open>Probe\<close>; \<open>None\<close> when the mailbox is still empty. \<open>abandon\<close> also asks the child to cancel.\<close>

definition icmp_end :: "wait_end \<Rightarrow> nat \<Rightarrow> cycle \<Rightarrow> client \<Rightarrow> (cycle \<times> client \<times> string option) option" where
  "icmp_end how i cyc c =
     (let w = cl_waiters c ! i; hid = wt_id w;
          c1 = c\<lparr>cl_waiting := AList.delete hid (cl_waiting c)\<rparr>; cancel = (if cl_enc c then Some hid else None)
      in case how of
           WaitContext e \<Rightarrow> Some (cyc\<lparr>cy_err := Some e, cy_class := ErrTimeout\<rparr>, c1, cancel)
         | WaitLimit \<Rightarrow> Some (cyc\<lparr>cy_err := Some plain_err, cy_class := ErrTimeout\<rparr>, c1, cancel)
         | WaitResult \<Rightarrow> (case wt_box w of None \<Rightarrow> None | Some r \<Rightarrow> Some (result_cycle r cyc, c, None)))"

section \<open>Waiters and results\<close>

datatype client_event =
    CBegin time target probe_params "err option"
  | CEnd wait_end nat cycle
  | CMessage child_message
  | CStart
  | CExit int

fun client_step :: "client_event \<Rightarrow> client \<Rightarrow> client" where
  "client_step (CBegin now t pr e) c = snd (icmp_begin now t pr e c)"
| "client_step (CEnd how i cyc) c = (case icmp_end how i cyc c of None \<Rightarrow> c | Some (_, c', _) \<Rightarrow> c')"
| "client_step (CMessage msg) c = fst (child_message msg c)"
| "client_step CStart c = session_start c"
| "client_step (CExit n) c = fst (child_exit n c)"

text \<open>A waiter on the map has an empty mailbox and is filed under its id; a mailbox holds a result for its id.\<close>

definition waiters_ok :: "waiter list \<Rightarrow> bool" where
  "waiters_ok ws \<longleftrightarrow> (\<forall>w \<in> set ws. \<forall>r. wt_box w = Some r \<longrightarrow> pr_id r = wt_id w)"

definition filed :: "(string, nat) gomap \<Rightarrow> waiter list \<Rightarrow> bool" where
  "filed m ws \<longleftrightarrow> (\<forall>(hid, i) \<in> set m. i < length ws \<and> wt_id (ws ! i) = hid \<and> wt_box (ws ! i) = None)"

definition cl_inv :: "client \<Rightarrow> bool" where
  "cl_inv c \<longleftrightarrow> gm_wf (cl_waiting c) \<and> filed (cl_waiting c) (cl_waiters c) \<and> waiters_ok (cl_waiters c)"

lemma deliver_simps [simp]: "wt_id (deliver r w) = wt_id w" "wt_box w = Some x \<Longrightarrow> wt_box (deliver r w) = Some x"
  "wt_box w = None \<Longrightarrow> wt_box (deliver r w) = Some r"
  by (simp_all add: deliver_def)

lemma waiters_ok_deliver:
  "waiters_ok ws \<Longrightarrow> i < length ws \<Longrightarrow> wt_id (ws ! i) = pr_id r \<Longrightarrow> waiters_ok (ws[i := deliver r (ws ! i)])"
  by (auto simp: waiters_ok_def deliver_def dest!: set_update_subset_insert [THEN subsetD] split: if_splits)

lemma filed_delete: "filed m ws \<Longrightarrow> filed (AList.delete k m) ws"
  by (auto simp: filed_def AList.delete_eq)

lemma filed_settle:
  assumes "gm_wf m" "filed m ws" "map_of m hid = Some i"
  shows "filed (AList.delete hid m) (ws[i := deliver r (ws ! i)])"
proof -
  have i: "wt_id (ws ! i) = hid" using assms by (auto simp: filed_def dest!: map_of_SomeD)
  have "j \<noteq> i" if "(k, j) \<in> set m" "k \<noteq> hid" for k j using assms(2) that i by (auto simp: filed_def)
  with assms(2) show ?thesis by (fastforce simp: filed_def AList.delete_eq)
qed

lemma settle_inv:
  assumes "cl_inv c" "pr_id r = hid"
  shows "cl_inv (settle_waiter hid r c)"
proof (cases "map_of (cl_waiting c) hid")
  case None
  with assms show ?thesis
    by (simp add: cl_inv_def settle_waiter_def filed_delete distinct_delete gm_wf_def)
next
  case (Some i)
  with assms have "i < length (cl_waiters c)" "wt_id (cl_waiters c ! i) = hid"
    by (auto simp: cl_inv_def filed_def dest!: map_of_SomeD)
  with assms Some show ?thesis
    by (simp add: cl_inv_def settle_waiter_def filed_settle waiters_ok_deliver distinct_delete gm_wf_def)
qed

lemma fail_fold:
  assumes "filed m ws" "gm_wf m"
  shows "length (fold fail_waiter m ws) = length ws
    \<and> (\<forall>j < length ws. fold fail_waiter m ws ! j
          = (if j \<in> snd ` set m then deliver (exit_result (wt_id (ws ! j))) (ws ! j) else ws ! j))"
  using assms
proof (induction m arbitrary: ws)
  case (Cons p m)
  have i: "snd p < length ws" "wt_id (ws ! snd p) = fst p" using Cons.prems(1) by (auto simp: filed_def)
  have other: "j \<noteq> snd p" if "(k, j) \<in> set m" for k j
  proof -
    from that Cons.prems(2) have "k \<noteq> fst p" by (auto simp: gm_wf_def image_iff)
    with that Cons.prems(1) i show ?thesis by (auto simp: filed_def)
  qed
  then have "filed m (fail_waiter p ws)" using Cons.prems(1) by (fastforce simp: filed_def fail_waiter_def)
  moreover have "gm_wf m" using Cons.prems(2) by (simp add: gm_wf_def)
  ultimately have IH: "length (fold fail_waiter m (fail_waiter p ws)) = length (fail_waiter p ws)"
    "\<And>j. j < length (fail_waiter p ws) \<Longrightarrow> fold fail_waiter m (fail_waiter p ws) ! j
       = (if j \<in> snd ` set m then deliver (exit_result (wt_id (fail_waiter p ws ! j))) (fail_waiter p ws ! j)
          else fail_waiter p ws ! j)" using Cons.IH by blast+
  have new: "snd p \<notin> snd ` set m" using other by force
  have v: "length (fail_waiter p ws) = length ws"
    "fail_waiter p ws ! snd p = deliver (exit_result (fst p)) (ws ! snd p)"
    "\<And>j. j \<noteq> snd p \<Longrightarrow> fail_waiter p ws ! j = ws ! j" using i(1) by (simp_all add: fail_waiter_def)
  show ?case
  proof (intro conjI allI impI)
    show "length (fold fail_waiter (p # m) ws) = length ws" using IH(1) v(1) by simp
    fix j assume "j < length ws"
    then show "fold fail_waiter (p # m) ws ! j
        = (if j \<in> snd ` set (p # m) then deliver (exit_result (wt_id (ws ! j))) (ws ! j) else ws ! j)"
      using IH(2) [of j] v i(2) new by (cases "j = snd p") simp_all
  qed
qed simp

lemma fail_all_inv:
  assumes "cl_inv c"
  shows "cl_inv (fail_all c)"
proof -
  note f = fail_fold [of "cl_waiting c" "cl_waiters c"]
  have "waiters_ok (fold fail_waiter (cl_waiting c) (cl_waiters c))"
  proof -
    have "pr_id r = wt_id (fold fail_waiter (cl_waiting c) (cl_waiters c) ! j)"
      if "j < length (cl_waiters c)" "wt_box (fold fail_waiter (cl_waiting c) (cl_waiters c) ! j) = Some r" for j r
      using that assms f by (auto simp: cl_inv_def waiters_ok_def deliver_def error_result_def split: if_splits)
    with assms f show ?thesis by (auto simp: cl_inv_def waiters_ok_def in_set_conv_nth)
  qed
  then show ?thesis by (simp add: cl_inv_def fail_all_def filed_def gm_wf_def)
qed

lemma begin_inv: "cl_inv c \<Longrightarrow> cl_inv (snd (icmp_begin now t pr e c))"
proof -
  assume inv: "cl_inv c"
  let ?hid = "show_nat (unat (cl_seq c + 1))" and ?ws = "cl_waiters c @ [\<lparr>wt_id = show_nat (unat (cl_seq c + 1)), wt_box = None\<rparr>]"
  have "filed (AList.update ?hid (length (cl_waiters c)) (cl_waiting c)) ?ws"
    using inv by (auto simp: cl_inv_def filed_def nth_append gm_wf_map_of [OF gm_wf_update] update_conv
        gm_wf_map_of [symmetric] split: if_splits)
  moreover have "waiters_ok ?ws" using inv by (auto simp: cl_inv_def waiters_ok_def)
  moreover have "gm_wf (AList.update ?hid (length (cl_waiters c)) (cl_waiting c))" using inv by (auto simp: cl_inv_def)
  ultimately show ?thesis
    using inv by (auto simp: icmp_begin_def Let_def cl_inv_def filed_delete gm_wf_def distinct_delete split: option.split)
qed

lemma client_step_inv: "cl_inv c \<Longrightarrow> cl_inv (client_step ev c)"
proof (cases ev)
  case (CEnd how i cyc)
  assume inv: "cl_inv c"
  have "cl_inv (c\<lparr>cl_waiting := AList.delete k (cl_waiting c)\<rparr>)" for k
    using inv by (simp add: cl_inv_def filed_delete gm_wf_def distinct_delete)
  with inv show ?thesis by (auto simp: CEnd icmp_end_def Let_def split: wait_end.splits option.splits)
next
  case (CMessage msg)
  assume inv: "cl_inv c"
  have "cl_inv (settle_waiter a (error_result a b d) c)" for a b d
    by (rule settle_inv [OF inv]) (simp add: error_result_def)
  with inv settle_inv [OF inv] show ?thesis
    by (cases msg) (simp_all add: CMessage child_message_def Let_def, simp_all add: cl_inv_def)
next
  case (CExit n)
  assume inv: "cl_inv c"
  then have "cl_inv (fail_all (c\<lparr>cl_avail := False\<rparr>))" by (intro fail_all_inv) (simp add: cl_inv_def)
  then show ?thesis by (simp add: CExit child_exit_def Let_def cl_inv_def)
next
  case (CBegin now t pr e)
  then show "cl_inv c \<Longrightarrow> ?thesis" by (simp add: begin_inv)
qed (simp add: session_start_def cl_inv_def)

interpretation client: inv_machine client_step cl_inv
  by unfold_locales (rule client_step_inv)

lemma new_client_inv: "cl_inv (new_client cfg)"
  by (simp add: cl_inv_def new_client_def filed_def waiters_ok_def)

text \<open>A mailbox with a result keeps it.\<close>

lemma box_kept:
  assumes "cl_inv c" "i < length (cl_waiters c)" "wt_box (cl_waiters c ! i) = Some r"
  shows "i < length (cl_waiters (client_step ev c)) \<and> wt_box (cl_waiters (client_step ev c) ! i) = Some r"
proof -
  have settle: "i < length (cl_waiters (settle_waiter hid r' c)) \<and> wt_box (cl_waiters (settle_waiter hid r' c) ! i) = Some r" for hid r'
  proof (cases "map_of (cl_waiting c) hid")
    case (Some j)
    with assms(2,3) show ?thesis by (cases "j = i") (simp_all add: settle_waiter_def)
  qed (use assms(2,3) in \<open>simp add: settle_waiter_def\<close>)
  show ?thesis
  proof (cases ev)
    case (CBegin now t pr e)
    with assms show ?thesis by (auto simp: icmp_begin_def Let_def nth_append split: option.split)
  next
    case (CEnd how j cyc)
    with assms show ?thesis by (auto simp: icmp_end_def Let_def split: wait_end.split option.split)
  next
    case (CMessage msg)
    with assms settle show ?thesis by (cases msg) (simp_all add: child_message_def Let_def)
  next
    case CStart
    with assms show ?thesis by (simp add: session_start_def)
  next
    case (CExit n)
    from assms(1) fail_fold [of "cl_waiting c" "cl_waiters c"] assms(2,3) CExit show ?thesis
      by (simp add: child_exit_def fail_all_def Let_def cl_inv_def)
  qed
qed

lemma exit_settles:
  assumes "cl_inv c" "map_of (cl_waiting c) hid = Some i"
  shows "wt_box (cl_waiters (fst (child_exit n c)) ! i) = Some (exit_result hid)
    \<and> cl_waiting (fst (child_exit n c)) = []"
proof -
  have mem: "(hid, i) \<in> set (cl_waiting c)" using assms(2) by (rule map_of_SomeD)
  then have i: "i < length (cl_waiters c)" "wt_id (cl_waiters c ! i) = hid" "wt_box (cl_waiters c ! i) = None"
    using assms(1) by (auto simp: cl_inv_def filed_def)
  moreover have "i \<in> snd ` set (cl_waiting c)" using mem by force
  ultimately show ?thesis
    using fail_fold [of "cl_waiting c" "cl_waiters c"] assms(1)
    by (simp add: child_exit_def fail_all_def Let_def cl_inv_def)
qed


text \<open>A probe waits, and the child exits.\<close>

definition demo_ping_params :: probe_params where
  "demo_ping_params = \<lparr>pp_kind = KindICMP, pp_count = 2, pp_interval = 1, pp_timeout = 1, pp_payload = 56,
     pp_port = 0, pp_mode = [], pp_ttl = 64, pp_df = False\<rparr>"


section \<open>The contract of a prober\<close>

text \<open>A result the client can be given: one the helper made, or an error.\<close>

definition genuine :: "ping_result \<Rightarrow> bool" where
  "genuine r \<longleftrightarrow> (\<exists>hid msg cls. r = error_result hid msg cls)
     \<or> (\<exists>evs hid p'. finish_job hid (fold ping_step evs new_pinger) = (p', Some r))"

definition icmp_returns :: "target \<Rightarrow> probe_params \<Rightarrow> cycle \<Rightarrow> bool" where
  "icmp_returns t pr cyc \<longleftrightarrow> (\<exists>now e c c'. icmp_begin now t pr e c = (Inl cyc, c'))
     \<or> (\<exists>now how i c c' out. icmp_end how i (new_cycle KindICMP t now) c = Some (cyc, c', out)
           \<and> (\<forall>r. wt_box (cl_waiters c ! i) = Some r \<longrightarrow> genuine r))"

lemma genuine_counts:
  assumes "genuine r"
  shows "pr_sent r = pr_received r + pr_lost r \<and> 0 \<le> pr_received r \<and> 0 \<le> pr_lost r
     \<and> pr_received r = int (length (pr_rtt_us r))"
  using assms unfolding genuine_def
proof (elim disjE exE)
  fix evs hid p'
  assume fin: "finish_job hid (fold ping_step evs new_pinger) = (p', Some r)"
  note e = finish_exact [OF pinging.run_keeps [OF new_pinger_inv] fin]
  have "length (pr_rtt_us r) \<le> length (job_samples (fold ping_step evs new_pinger) hid)"
    using e by (simp add: length_filter_le)
  with e show ?thesis by linarith
qed (simp add: error_result_def)

lemma icmp_begin_cycle:
  assumes "icmp_begin now t pr e c = (Inl cyc, c')"
  shows "\<exists>er cls. cyc = (new_cycle KindICMP t now)\<lparr>cy_err := Some er, cy_class := cls\<rparr>"
  using assms by (auto simp: icmp_begin_def Let_def split: if_splits option.splits)

lemma icmp_counted:
  assumes "icmp_returns t pr cyc"
  shows "counted KindICMP t cyc"
  using assms unfolding icmp_returns_def
proof (elim disjE exE conjE)
  fix now e c c' assume "icmp_begin now t pr e c = (Inl cyc, c')"
  from icmp_begin_cycle [OF this] show ?thesis by (auto simp: counted_def)
next
  fix now how i c c' out
  assume "icmp_end how i (new_cycle KindICMP t now) c = Some (cyc, c', out)"
    "\<forall>r. wt_box (cl_waiters c ! i) = Some r \<longrightarrow> genuine r"
  then show ?thesis using genuine_counts
    by (auto simp: icmp_end_def Let_def counted_def result_cycle_def split: wait_end.splits option.splits if_splits)
qed

interpretation icmp: prober icmp_returns KindICMP
  by unfold_locales (auto simp: counted_def dest: icmp_counted)

end
