(* ===== verification/Measure.thy ===== *)
theory Measure
  imports Runner IcmpClient
begin

text \<open>
  The runner with its probers: what holds of every running task when each cycle is one its prober can
  return, and what the cycles of a prober without its helper do to the health of their targets.
\<close>

section \<open>Windows\<close>

text \<open>What the prober of a kind can return.\<close>

definition returned :: "kind \<Rightarrow> target \<Rightarrow> probe_params \<Rightarrow> cycle \<Rightarrow> bool" where
  "returned k t pr c =
     (case k of KindICMP \<Rightarrow> icmp_returns t pr c | KindUDP \<Rightarrow> udp_returns t pr c | KindTCP \<Rightarrow> tcp_returns t pr c)"

lemma returned_target: "returned k t pr c \<Longrightarrow> cy_target c = t \<and> cy_kind c = k"
  using icmp.returns_target icmp.returns_kind udp.returns_target udp.returns_kind tcp.returns_target tcp.returns_kind
  by (cases k) (auto simp: returned_def)

lemma returned_conserved:
  "returned k t pr c \<Longrightarrow> ce_sent (cycle_counter at c) = ce_received (cycle_counter at c) + ce_lost (cycle_counter at c)"
  using icmp.counter_conserved udp.counter_conserved tcp.counter_conserved by (cases k) (auto simp: returned_def)

text \<open>The states the runner and the tracker can reach together.\<close>

inductive measuring :: "runner \<times> tracker \<Rightarrow> bool" where
  created: "measuring (new_runner probers, h)"
| started: "measuring (r, h) \<Longrightarrow> measuring (runner_begin r, h)"
| applied_state: "measuring (r, h) \<Longrightarrow> measuring (fst (runner_apply now cfg node st snap r), h)"
| cycle_run: "measuring (r, h) \<Longrightarrow> map_of (rn_tasks r) k = Some t
    \<Longrightarrow> returned (ky_kind k) (rt_dst t) (rt_params t) c
    \<Longrightarrow> measuring (fst (run_cycle now qs k c failed (r, h)))"
| health_changed: "measuring (r, h) \<Longrightarrow> measuring (r, h')"
| ended: "measuring (r, h) \<Longrightarrow> measuring (fst (runner_end r), h)"

text \<open>A window made by cycles that satisfy a predicate, and reads.\<close>

definition made_of :: "(cycle \<Rightarrow> bool) \<Rightarrow> window \<Rightarrow> bool" where
  "made_of P w \<longleftrightarrow> (\<exists>d ops. w = fold window_do ops (new_window d) \<and> (\<forall>now c. WAdd now c \<in> set ops \<longrightarrow> P c))"

lemma made_of_new: "made_of P (new_window d)"
  unfolding made_of_def by (intro exI [of _ d] exI [of _ "[]"]) simp

lemma made_of_do:
  assumes "made_of P w" "\<And>now c. op = WAdd now c \<Longrightarrow> P c"
  shows "made_of P (window_do op w)"
proof -
  from assms(1) obtain d ops where "w = fold window_do ops (new_window d)" "\<forall>now c. WAdd now c \<in> set ops \<longrightarrow> P c"
    by (auto simp: made_of_def)
  with assms(2) show ?thesis unfolding made_of_def
    by (intro exI [of _ d] exI [of _ "ops @ [op]"]) auto
qed

text \<open>The cycles a task's window may hold: those its prober returned for its destination.\<close>

definition own_cycle :: "task \<Rightarrow> cycle \<Rightarrow> bool" where
  "own_cycle t c \<longleftrightarrow> cy_target c = rt_dst t \<and> cy_kind c = ky_kind (rt_key t)
     \<and> (\<forall>at. ce_sent (cycle_counter at c) = ce_received (cycle_counter at c) + ce_lost (cycle_counter at c))"

definition pure_windows :: "runner \<Rightarrow> bool" where
  "pure_windows r \<longleftrightarrow> (\<forall>k t. map_of (rn_tasks r) k = Some t \<longrightarrow> made_of (own_cycle t) (rt_window t))"

lemma finish_cycle_simps:
  "cy_target (finish_cycle now c failed) = cy_target c" "cy_kind (finish_cycle now c failed) = cy_kind c"
  "cy_sent (finish_cycle now c failed) = cy_sent c" "cy_received (finish_cycle now c failed) = cy_received c"
  "cy_lost (finish_cycle now c failed) = cy_lost c"
  by (simp_all add: finish_cycle_def Let_def split: option.split)

lemma own_finished: "returned (ky_kind (rt_key t)) (rt_dst t) (rt_params t) c \<Longrightarrow> own_cycle t (finish_cycle now c failed)"
  using returned_target returned_conserved
  by (fastforce simp: own_cycle_def finish_cycle_simps cycle_counter_def)

lemma own_cycle_upd [simp]:
  "own_cycle (t\<lparr>rt_started := s\<rparr>) = own_cycle t" "own_cycle (t\<lparr>rt_window := w\<rparr>) = own_cycle t"
  "own_cycle (t\<lparr>rt_class := cl, rt_rank := rk\<rparr>) = own_cycle t"
  by (simp_all add: own_cycle_def fun_eq_iff)

lemma run_cycle_runner:
  assumes "map_of (rn_tasks r) k = Some t"
  shows "fst (run_cycle now qs k c failed (r, h)) =
    (r\<lparr>rn_tasks := AList.update k (t\<lparr>rt_window := window_do (WStats now qs)
        (window_do (WAdd now (finish_cycle now c failed)) (rt_window t))\<rparr>) (rn_tasks r)\<rparr>,
     tell_health now (ta_host (rt_dst t)) (finish_cycle now c failed) h)"
  using assms by (simp add: run_cycle_def Let_def case_prod_beta)

lemma desired_window: "map_of (desired cfg node st snap) k = Some t \<Longrightarrow> made_of P (rt_window t)"
  by (drule desired_mem) (auto simp: wanted_mem made_of_new)

lemma apply_pure:
  assumes "runner_inv r" "pure_windows r"
  shows "runner_inv (fst (runner_apply now cfg node st snap r)) \<and> pure_windows (fst (runner_apply now cfg node st snap r))"
proof (cases "rn_ready r")
  case True
  obtain r' gone starting where out: "apply_tasks now (desired cfg node st snap) r = (r', gone, starting)"
    using prod_cases3 by blast
  note s = apply_tasks_spec [OF assms(1) True desired_keyed out]
  have "made_of (own_cycle t) (rt_window t)" if t: "map_of (rn_tasks r') k = Some t" for k t
    using t assms(2) desired_window unfolding s(2) applied_def pure_windows_def
    by (auto split: option.splits if_splits)
  with s(1) out True show ?thesis by (simp add: runner_apply_def pure_windows_def)
qed (use assms in \<open>simp add: runner_apply_def\<close>)

lemma measuring_inv: "measuring rh \<Longrightarrow> runner_inv (fst rh) \<and> pure_windows (fst rh)"
proof (induction rule: measuring.induct)
  case (created probers h)
  then show ?case by (simp add: new_runner_def runner_inv_def keyed_def pure_windows_def)
next
  case (started r h)
  then show ?case by (simp add: runner_begin_def runner_inv_def pure_windows_def)
next
  case (applied_state r h now cfg node st snap)
  then show ?case using apply_pure by simp
next
  case (cycle_run r h k t c now qs failed)
  then have inv: "runner_inv r" "pure_windows r" and key: "rt_key t = k" using keyed_lookup by (auto simp: runner_inv_def)
  have "made_of (own_cycle t) (window_do (WStats now qs) (window_do (WAdd now (finish_cycle now c failed)) (rt_window t)))"
    using inv(2) cycle_run.hyps(2,3) key own_finished [of t c now failed]
    by (intro made_of_do) (auto simp: pure_windows_def simp del: window_do.simps)
  with inv cycle_run.hyps(2) key show ?case
    unfolding run_cycle_runner [OF cycle_run.hyps(2)]
    by (auto simp: runner_inv_def pure_windows_def update_conv keyed_update simp del: window_do.simps)
next
  case (ended r h)
  then show ?case
    by (auto simp: runner_end_def runner_inv_def pure_windows_def stop_all_tasks)
qed simp

text \<open>Counters come from the cycles added, and the statistics are their sums.\<close>

lemma made_of_counters:
  assumes "made_of P w" "ce \<in> set (wn_counters w)"
  shows "\<exists>at c. P c \<and> ce = cycle_counter at c"
proof -
  obtain d ops where w: "w = fold window_do ops (new_window d)" "\<forall>now c. WAdd now c \<in> set ops \<longrightarrow> P c"
    using assms(1) by (auto simp: made_of_def)
  have "\<exists>at now c. WAdd now c \<in> set ops \<and> ce = cycle_counter at c"
    if "ce \<in> set (wn_counters (fold window_do ops w0))" "ce \<notin> set (wn_counters w0)" for w0
    using that
  proof (induction ops arbitrary: w0)
    case (Cons op ops)
    show ?case
    proof (cases "ce \<in> set (wn_counters (window_do op w0))")
      case True
      with Cons.prems(2) have "\<exists>now c. op = WAdd now c \<and> ce = cycle_counter (cycle_at now c) c"
        by (cases op) (auto simp: window_add_def window_stats_def window_expire_def window_reset_def Let_def
            cycle_at_def dest!: set_dropWhileD split: if_splits)
      then show ?thesis by auto
    next
      case False
      with Cons show ?thesis by fastforce
    qed
  qed simp
  from this [of "new_window d"] w assms(2) show ?thesis by (auto simp: new_window_def)
qed

lemma stats_conserved:
  assumes "\<forall>c \<in> set (wn_counters w). ce_sent c = ce_received c + ce_lost c"
  shows "pt_sent (fst (window_stats now qs w)) = pt_received (fst (window_stats now qs w)) + pt_lost (fst (window_stats now qs w))"
proof -
  let ?cs = "wn_counters (window_expire now w)"
  have "sum_list (map ce_sent cs) = sum_list (map ce_received cs) + sum_list (map ce_lost cs)"
    if "\<forall>c \<in> set cs. ce_sent c = ce_received c + ce_lost c" for cs using that by (induction cs) auto
  moreover have "\<forall>c \<in> set ?cs. ce_sent c = ce_received c + ce_lost c"
    using assms by (auto simp: window_expire_def Let_def dest: set_dropWhileD)
  ultimately show ?thesis
    by (simp add: window_stats_def Let_def sample_stats_def counter_stats_def fold_counter_sum)
qed

text \<open>
  C11: samples of two hosts never meet in one series. However states are applied and cycles run, the
  window of a running task was made, from an empty one, by cycles of the task's own kind against its
  own destination; and the statistics it publishes account for every packet: sent is received plus
  lost.
\<close>

theorem windows_never_mix:
  assumes "measuring (r, h)" "map_of (rn_tasks r) k = Some t"
  shows "(\<exists>d ops. rt_window t = fold window_do ops (new_window d)
        \<and> (\<forall>now c. WAdd now c \<in> set ops \<longrightarrow> cy_target c = rt_dst t \<and> cy_kind c = ky_kind k))
    \<and> (\<forall>now qs. let st = fst (window_stats now qs (rt_window t)) in pt_sent st = pt_received st + pt_lost st)"
proof -
  have made: "made_of (own_cycle t) (rt_window t)" and key: "rt_key t = k"
    using measuring_inv [OF assms(1)] assms(2) keyed_lookup by (auto simp: pure_windows_def runner_inv_def)
  from made obtain d ops where "rt_window t = fold window_do ops (new_window d)"
    "\<forall>now c. WAdd now c \<in> set ops \<longrightarrow> own_cycle t c" by (auto simp: made_of_def)
  moreover have "\<forall>c \<in> set (wn_counters (rt_window t)). ce_sent c = ce_received c + ce_lost c"
    using made_of_counters [OF made] by (fastforce simp: own_cycle_def)
  from stats_conserved [OF this]
  have "\<forall>now qs. let st = fst (window_stats now qs (rt_window t)) in pt_sent st = pt_received st + pt_lost st"
    by (simp add: Let_def)
  ultimately show ?thesis unfolding own_cycle_def key by blast
qed

section \<open>A helper that is not there\<close>

text \<open>The cycle an ICMP probe returns while the helper is not available.\<close>

definition no_helper_cycle :: "client \<Rightarrow> target \<Rightarrow> probe_params \<Rightarrow> time \<Rightarrow> cycle" where
  "no_helper_cycle c t pr now = projl (fst (icmp_begin now t pr None c))"

lemma no_helper_told:
  assumes "\<not> cl_avail c"
  shows "tell_health now host (finish_cycle now (no_helper_cycle c t pr now) None) h = record_probe now host False h"
  using assms by (simp add: no_helper_cycle_def icmp_begin_def Let_def tell_health_def finish_cycle_def cycle_ok_def new_cycle_def)

lemma failing_status:
  assumes "st_eligible st" "he_unhealthy_after cfg \<le> hl_fail_streak st + int (length ts)" "ts \<noteq> []"
  shows "hl_state (fold (probe_failed_status cfg) ts st) = StatePending"
  using assms
proof (induction ts arbitrary: st)
  case (Cons now ts)
  let ?st = "probe_failed_status cfg now st"
  have e: "st_eligible ?st" and n: "hl_fail_streak ?st = hl_fail_streak st + 1"
    and p: "he_unhealthy_after cfg \<le> hl_fail_streak st + 1 \<Longrightarrow> hl_state ?st = StatePending"
    using Cons.prems(1)
    by (cases "hl_state st"; auto simp: probe_failed_status_def Let_def transition_def st_eligible_def)+
  show ?case
  proof (cases "ts = []")
    case True
    with p Cons.prems(2) show ?thesis by simp
  next
    case False
    with Cons.IH [OF e] n Cons.prems(2) show ?thesis by simp
  qed
qed simp

lemma record_fails:
  "hget h host = Some st \<Longrightarrow>
     hget (fold (\<lambda>now. record_probe now host False) ts h) host = Some (fold (probe_failed_status (tk_cfg h)) ts st)
     \<and> tk_cfg (fold (\<lambda>now. record_probe now host False) ts h) = tk_cfg h"
  by (induction ts arbitrary: h st) (simp_all add: record_probe_def Let_def put_host_def hget_def update_conv)

lemma no_helper_run:
  assumes "\<not> cl_avail c" "map_of (rn_tasks r) k = Some t" "rt_dst t = dst" "rt_params t = pr"
  shows "snd (fold (\<lambda>now rh. fst (run_cycle now qs k (no_helper_cycle c dst pr now) None rh)) ts (r, h))
    = fold (\<lambda>now. record_probe now (ta_host dst) False) ts h"
  using assms(2-4)
proof (induction ts arbitrary: r h t)
  case (Cons now ts)
  show ?case
    unfolding fold_simps comp_apply run_cycle_runner [OF Cons.prems(1)] Cons.prems(2) no_helper_told [OF assms(1)]
    by (rule Cons.IH, simp add: update_conv del: window_do.simps, simp_all add: Cons.prems(2,3) del: window_do.simps)
qed simp

text \<open>
  A node without ICMP permission takes its targets out of service. The documentation calls a
  missing helper a supported mode in which ICMP is disabled, but the tasks keep running and each of
  their cycles counts as a failed probe of the target. After as many cycles as the configuration
  allows failures, an eligible target is pending, and at the end of the hold it is released, though
  no packet was ever sent to it.
\<close>

theorem missing_helper_releases_hosts:
  assumes c: "\<not> cl_avail c" and task: "map_of (rn_tasks r) k = Some t"
    and host: "hget h (ta_host (rt_dst t)) = Some st" "st_eligible st" "0 \<le> hl_fail_streak st"
    and enough: "he_unhealthy_after (tk_cfg h) \<le> int (length ts)" "ts \<noteq> []"
    and run: "fold (\<lambda>now rh. fst (run_cycle now qs k (no_helper_cycle c (rt_dst t) (rt_params t) now) None rh)) ts (r, h) = (r', h')"
  shows "\<exists>st'. hget h' (ta_host (rt_dst t)) = Some st' \<and> hl_state st' = StatePending
    \<and> (\<forall>now. \<not> is_zero (hl_release_at st') \<and> hl_release_at st' \<le> now \<longrightarrow>
          \<not> is_eligible (snd (tick now h')) (ta_host (rt_dst t)))"
proof -
  let ?st = "fold (probe_failed_status (tk_cfg h)) ts st"
  have h': "h' = fold (\<lambda>now. record_probe now (ta_host (rt_dst t)) False) ts h"
    using no_helper_run [OF c task refl refl, of qs ts h] run by simp
  with record_fails [OF host(1)] have get: "hget h' (ta_host (rt_dst t)) = Some ?st" "tk_cfg h' = tk_cfg h" by auto
  have pending: "hl_state ?st = StatePending" using failing_status [OF host(2)] host(3) enough by simp
  have "\<not> st_eligible (tick_status cfg now ?st)" if "\<not> is_zero (hl_release_at ?st)" "hl_release_at ?st \<le> now" for cfg now
    using that pending transition_ineligible [of StateUnhealthy cfg "hl_reason ?st" now ?st]
      transition_ineligible [of StateIneligible cfg]
    by (simp add: tick_status_def Let_def)
  with get pending show ?thesis by (auto simp: is_eligible_Some)
qed

section \<open>Runs\<close>

text \<open>A UDP task runs once, its second packet answered first.\<close>

definition demo_applied :: runner where
  "demo_applied = fst (runner_apply 5 default_config ''1'' demo_table demo_hosts demo_runner)"

lemma demo_applied_task: "map_of (rn_tasks demo_applied) demo_key = Some (demo_task\<lparr>rt_started := 5\<rparr>)"
proof -
  obtain r' gone starting where a: "apply_tasks 5 (desired default_config ''1'' demo_table demo_hosts) demo_runner = (r', gone, starting)"
    using prod_cases3 by blast
  note s = apply_tasks_spec(2) [OF demo_runner_inv(1,2) desired_keyed a, of demo_key]
  have "ky_kind demo_key = KindUDP" by (simp add: demo_key_def)
  with s a show ?thesis by (simp add: demo_applied_def runner_apply_def demo_runner_inv applied_def demo_desired)
qed

lemma measuring_demo: "measuring (demo_applied, h)"
proof -
  have "measuring (demo_runner, h)" unfolding demo_runner_def by (intro started created)
  then show ?thesis unfolding demo_applied_def by (rule applied_state)
qed

theorem windows_never_mix_witness:
  "\<exists>t. map_of (rn_tasks demo_applied) demo_key = Some t
     \<and> (\<exists>d ops. rt_window t = fold window_do ops (new_window d)
          \<and> (\<forall>now c. WAdd now c \<in> set ops \<longrightarrow> cy_target c = rt_dst t \<and> cy_kind c = KindUDP))"
proof -
  have k: "ky_kind demo_key = KindUDP" by (simp add: demo_key_def)
  from windows_never_mix [OF measuring_demo demo_applied_task] k demo_applied_task show ?thesis by auto
qed

theorem missing_helper_releases_hosts_witness:
  "\<exists>r' h' st'. fold (\<lambda>now rh. fst (run_cycle now [] demo_key
        (no_helper_cycle (new_client (cf_meshping default_config)) (rt_dst demo_task) (rt_params demo_task) now) None rh))
      [10 * second, 25 * second, 40 * second]
      (demo_applied, record_probe second ''2'' True (new_tracker (cf_health default_config))) = (r', h')
    \<and> hget h' ''2'' = Some st' \<and> hl_state st' = StatePending"
proof -
  let ?c = "new_client (cf_meshping default_config)" and ?t = "demo_task\<lparr>rt_started := 5\<rparr>"
  let ?h = "record_probe second ''2'' True (new_tracker (cf_health default_config))"
  have host: "ta_host (rt_dst ?t) = ''2''" using demo_facts(3) by (simp add: demo_task_def)
  obtain r' h' where run: "fold (\<lambda>now rh. fst (run_cycle now [] demo_key
        (no_helper_cycle ?c (rt_dst ?t) (rt_params ?t) now) None rh)) [10 * second, 25 * second, 40 * second]
      (demo_applied, ?h) = (r', h')" by fastforce
  have c: "\<not> cl_avail ?c" by (simp add: new_client_def)
  have st: "\<exists>st. hget ?h ''2'' = Some st \<and> st_eligible st \<and> 0 \<le> hl_fail_streak st"
    by (simp add: record_probe_def new_tracker_def put_host_def hget_def Let_def probe_ok_status_def new_status_def
        st_eligible_def transition_def)
  have n: "he_unhealthy_after (tk_cfg ?h) \<le> 3"
    by (simp add: record_probe_def put_host_def new_tracker_def Let_def default_config_def)
  from st obtain st where "hget ?h (ta_host (rt_dst ?t)) = Some st" "st_eligible st" "0 \<le> hl_fail_streak st"
    unfolding host by auto
  from missing_helper_releases_hosts [OF c demo_applied_task this _ _ run] n host run show ?thesis by auto
qed

end
