(* ===== verification/Responder.thy ===== *)
theory Responder
  imports Probers Config
begin

text \<open>
  Models \<open>internal/responder/responder.go\<close>: the echo loops over UDP datagrams and TCP connections, and
  \<open>Run\<close> with what its listeners and loops return. One event is one pass of a loop: what the context
  said, what the read gave, the clock and what the write gave. The loops fold over the events; a loop
  that has not returned is \<open>Serving\<close>.
\<close>

section \<open>State\<close>

record responder_stats =
  rs_udp_packets :: "64 word"
  rs_udp_rejected :: "64 word"
  rs_tcp_conns :: "64 word"
  rs_tcp_rejected :: "64 word"

definition new_server :: responder_stats where
  "new_server = \<lparr>rs_udp_packets = 0, rs_udp_rejected = 0, rs_tcp_conns = 0, rs_tcp_rejected = 0\<rparr>"

datatype serving = Serving | Returned "err option"

text \<open>\<open>stamp\<close>: the reply is at least a header long, so the rewriting cannot fail.\<close>

definition echo_stamp :: "8 word list \<Rightarrow> header \<Rightarrow> 64 word \<Rightarrow> 8 word list" where
  "echo_stamp buf h nanos =
     (case encode_header_prefix buf \<lparr>hd_magic = [], hd_seq = hd_seq h, hd_nanos = nanos\<rparr> of
        Inl _ \<Rightarrow> buf | Inr out \<Rightarrow> out)"

section \<open>UDP\<close>

text \<open>A failed call: the error, whether it is \<open>net.ErrClosed\<close>, and whether the context is done by then.\<close>

record failure =
  fl_err :: err
  fl_closed :: bool
  fl_done :: bool

datatype udp_event =
    UdpDone
  | UdpFailed failure
  | UdpPacket "8 word list" string "64 word" "failure option"

text \<open>The error of a read or an accept: stop quietly, go on, or fail.\<close>

definition read_failed :: "failure \<Rightarrow> serving" where
  "read_failed f =
     (if fl_done f \<or> fl_closed f then Returned None
      else if net_timeout (fl_err f) then Serving else Returned (Some (fl_err f)))"

fun serve_udp ::
  "udp_event list \<Rightarrow> responder_stats \<Rightarrow> (string \<times> 8 word list) list
     \<Rightarrow> responder_stats \<times> (string \<times> 8 word list) list \<times> serving" where
  "serve_udp [] s out = (s, out, Serving)"
| "serve_udp (UdpDone # evs) s out = (s, out, Returned None)"
| "serve_udp (UdpFailed f # evs) s out =
     (case read_failed f of Serving \<Rightarrow> serve_udp evs s out | Returned e \<Rightarrow> (s, out, Returned e))"
| "serve_udp (UdpPacket buf addr nanos w # evs) s out =
     (case decode_header buf of
        Inl _ \<Rightarrow> serve_udp evs (s\<lparr>rs_udp_rejected := rs_udp_rejected s + 1\<rparr>) out
      | Inr h \<Rightarrow>
          (case w of
             Some f \<Rightarrow> if fl_done f then (s, out, Returned None) else serve_udp evs s out
           | None \<Rightarrow> serve_udp evs (s\<lparr>rs_udp_packets := rs_udp_packets s + 1\<rparr>) (out @ [(addr, echo_stamp buf h nanos)])))"

section \<open>TCP\<close>

datatype accept_event = Accepted | AcceptFailed failure

text \<open>Each accepted connection is handed to \<open>handle_conn\<close>.\<close>

fun serve_tcp :: "accept_event list \<Rightarrow> responder_stats \<Rightarrow> responder_stats \<times> serving" where
  "serve_tcp [] s = (s, Serving)"
| "serve_tcp (Accepted # evs) s = serve_tcp evs (s\<lparr>rs_tcp_conns := rs_tcp_conns s + 1\<rparr>)"
| "serve_tcp (AcceptFailed f # evs) s =
     (case read_failed f of Serving \<Rightarrow> serve_tcp evs s | Returned e \<Rightarrow> (s, Returned e))"

text \<open>
  One pass over a connection: the context is done, a deadline cannot be set, or a read gives bytes,
  perhaps with an error, and the write of the reply succeeds or not.
\<close>

datatype conn_event = ConnDone | ConnDeadlineFailed | ConnRead "8 word list" "err option" "64 word" bool

text \<open>The result: the statistics, the replies written, and whether the connection is still open.\<close>

fun handle_conn ::
  "conn_event list \<Rightarrow> responder_stats \<Rightarrow> 8 word list list \<Rightarrow> responder_stats \<times> 8 word list list \<times> bool" where
  "handle_conn [] s out = (s, out, True)"
| "handle_conn (ConnDone # evs) s out = (s, out, False)"
| "handle_conn (ConnDeadlineFailed # evs) s out = (s, out, False)"
| "handle_conn (ConnRead buf e nanos written # evs) s out =
     (if buf = [] then (if e = None then handle_conn evs s out else (s, out, False))
      else case decode_header buf of
             Inl _ \<Rightarrow> (s\<lparr>rs_tcp_rejected := rs_tcp_rejected s + 1\<rparr>, out, False)
           | Inr h \<Rightarrow>
               if \<not> written then (s, out, False)
               else let out' = out @ [echo_stamp buf h nanos]
                    in if e = None then handle_conn evs s out' else (s, out', False))"

section \<open>Run\<close>

text \<open>
  \<open>Run\<close> returns at once when disabled or when a listener cannot be opened; otherwise it waits for the
  loops, whose errors come in the order \<open>served\<close>, and reports the first unless it was cancelled.
\<close>

definition responder_run ::
  "responder_config \<Rightarrow> err option \<Rightarrow> err option \<Rightarrow> err option list \<Rightarrow> bool \<Rightarrow> err option" where
  "responder_run cfg udp_listen tcp_listen served cancelled =
     (if \<not> rc_enabled cfg then None
      else if rc_udp_listen cfg \<noteq> [] \<and> udp_listen \<noteq> None then udp_listen
      else if rc_tcp_listen cfg \<noteq> [] \<and> tcp_listen \<noteq> None then tcp_listen
      else if cancelled then None
      else fold (\<lambda>e first. if first = None \<and> e \<noteq> None then e else first) served None)"

section \<open>What an echo is\<close>

lemma stamp_decoded:
  assumes "decode_header buf = Inr h"
  shows "length (echo_stamp buf h nanos) = length buf" "drop 16 (echo_stamp buf h nanos) = drop 16 buf"
    "decode_header (echo_stamp buf h nanos) = Inr \<lparr>hd_magic = magic, hd_seq = hd_seq h, hd_nanos = nanos\<rparr>"
proof -
  have "header_size \<le> length buf" using assms by (auto simp: decode_header_def split: if_splits)
  then show "length (echo_stamp buf h nanos) = length buf" "drop 16 (echo_stamp buf h nanos) = drop 16 buf"
    "decode_header (echo_stamp buf h nanos) = Inr \<lparr>hd_magic = magic, hd_seq = hd_seq h, hd_nanos = nanos\<rparr>"
    by (simp_all add: echo_stamp_def encode_header_prefix_def decode_header_bytes header_size_def)
qed

lemma stamp_carries: "carries buf q \<Longrightarrow> decode_header buf = Inr h \<Longrightarrow> carries (echo_stamp buf h nanos) q"
  by (auto simp: carries_def stamp_decoded)

text \<open>The reply a pass of the UDP loop sends, the passes after which it goes on, and those it rejects.\<close>

definition udp_echo :: "udp_event \<Rightarrow> (string \<times> 8 word list) option" where
  "udp_echo ev =
     (case ev of
        UdpPacket buf addr nanos None \<Rightarrow>
          (case decode_header buf of Inl _ \<Rightarrow> None | Inr h \<Rightarrow> Some (addr, echo_stamp buf h nanos))
      | _ \<Rightarrow> None)"

definition udp_goes_on :: "udp_event \<Rightarrow> bool" where
  "udp_goes_on ev \<longleftrightarrow>
     (case ev of UdpDone \<Rightarrow> False | UdpFailed f \<Rightarrow> read_failed f = Serving
      | UdpPacket buf _ _ (Some f) \<Rightarrow> \<not> fl_done f \<or> (\<exists>e. decode_header buf = Inl e)
      | UdpPacket _ _ _ None \<Rightarrow> True)"

definition udp_rejects :: "udp_event \<Rightarrow> bool" where
  "udp_rejects ev \<longleftrightarrow> (case ev of UdpPacket buf _ _ _ \<Rightarrow> (\<exists>e. decode_header buf = Inl e) | _ \<Rightarrow> False)"

lemma serve_udp_echoes:
  "list_all udp_goes_on evs \<Longrightarrow>
     serve_udp evs s out =
       (s\<lparr>rs_udp_packets := rs_udp_packets s + of_nat (length (List.map_filter udp_echo evs)),
          rs_udp_rejected := rs_udp_rejected s + of_nat (length (filter udp_rejects evs))\<rparr>,
        out @ List.map_filter udp_echo evs, Serving)"
proof (induction evs s out rule: serve_udp.induct)
  case (4 buf addr nanos w evs s out)
  then show ?case
    by (cases "decode_header buf"; cases w)
      (auto simp: map_filter_simps udp_goes_on_def udp_echo_def udp_rejects_def algebra_simps)
qed (auto simp: map_filter_simps udp_goes_on_def udp_echo_def udp_rejects_def)

text \<open>
  The UDP responder answers what the probers send, and only that. As long as no read fails for
  good, the loop goes on; it sends exactly one reply for every datagram with the magic value that can
  be written, to the sender and in order, and drops every other one; the replies and the rejections
  are counted. A reply has the size of its request, the same sequence number, the receive time and
  every byte after the header unchanged.
\<close>

theorem udp_responder_echoes:
  "(list_all udp_goes_on evs \<longrightarrow>
     (\<exists>s'. serve_udp evs s out = (s', out @ List.map_filter udp_echo evs, Serving)
        \<and> rs_udp_packets s' = rs_udp_packets s + of_nat (length (List.map_filter udp_echo evs))
        \<and> rs_udp_rejected s' = rs_udp_rejected s + of_nat (length (filter udp_rejects evs))))
   \<and> (\<forall>ev addr reply. udp_echo ev = Some (addr, reply) \<longrightarrow>
        (\<exists>buf h nanos. ev = UdpPacket buf addr nanos None \<and> decode_header buf = Inr h
           \<and> length reply = length buf \<and> drop 16 reply = drop 16 buf
           \<and> decode_header reply = Inr \<lparr>hd_magic = magic, hd_seq = hd_seq h, hd_nanos = nanos\<rparr>))"
proof (intro conjI impI allI)
  assume "list_all udp_goes_on evs"
  from serve_udp_echoes [OF this] show
    "\<exists>s'. serve_udp evs s out = (s', out @ List.map_filter udp_echo evs, Serving)
        \<and> rs_udp_packets s' = rs_udp_packets s + of_nat (length (List.map_filter udp_echo evs))
        \<and> rs_udp_rejected s' = rs_udp_rejected s + of_nat (length (filter udp_rejects evs))" by simp
next
  fix ev addr reply assume "udp_echo ev = Some (addr, reply)"
  then obtain buf h nanos where ev: "ev = UdpPacket buf addr nanos None" "decode_header buf = Inr h"
      "reply = echo_stamp buf h nanos" by (auto simp: udp_echo_def split: udp_event.splits option.splits sum.splits)
  with stamp_decoded [OF ev(2)] show "\<exists>buf h nanos. ev = UdpPacket buf addr nanos None \<and> decode_header buf = Inr h
      \<and> length reply = length buf \<and> drop 16 reply = drop 16 buf
      \<and> decode_header reply = Inr \<lparr>hd_magic = magic, hd_seq = hd_seq h, hd_nanos = nanos\<rparr>"
    by (intro exI [of _ buf] exI [of _ h] exI [of _ nanos]) simp
qed

theorem udp_responder_echoes_witness:
  "\<exists>s' reply. serve_udp [UdpPacket [1, 2] ''x'' 5 None, UdpPacket (demo_reply 3) ''a'' 9 None] new_server []
     = (s', [(''a'', reply)], Serving)
   \<and> rs_udp_packets s' = 1 \<and> rs_udp_rejected s' = 1
   \<and> decode_header reply = Inr \<lparr>hd_magic = magic, hd_seq = 3, hd_nanos = 9\<rparr>"
proof -
  let ?evs = "[UdpPacket [1, 2] ''x'' 5 None, UdpPacket (demo_reply 3) ''a'' 9 None]"
  have "decode_header [1, 2] = Inl PayloadBelowMagic" by (simp add: decode_header_def header_size_def)
  with udp_responder_echoes [of ?evs new_server "[]"] show ?thesis
    by (auto simp: udp_goes_on_def udp_echo_def udp_rejects_def decode_demo_reply map_filter_simps
        new_server_def stamp_decoded)
qed

section \<open>A prober and a responder\<close>

text \<open>The responder at \<open>addr\<close> reads the datagrams of a burst and can write.\<close>

definition delivered :: "string \<Rightarrow> 8 word list list \<Rightarrow> 64 word list \<Rightarrow> udp_event list" where
  "delivered addr wire clock = map2 (\<lambda>buf nanos. UdpPacket buf addr nanos None) wire clock"

lemma delivered_replies:
  assumes "list_all2 carries wire order" "length clock = length wire"
  shows "list_all2 carries (map snd (List.map_filter udp_echo (delivered addr wire clock))) order"
  using assms
proof (induction wire order arbitrary: clock rule: list_all2_induct)
  case (Cons buf wire q order)
  then obtain nanos clock' where clock: "clock = nanos # clock'" "length clock' = length wire" by (cases clock) auto
  from Cons.hyps(1) obtain h where h: "decode_header buf = Inr h" by (auto simp: carries_def)
  with Cons.hyps(1) Cons.IH [OF clock(2)] show ?case
    by (simp add: clock delivered_def map_filter_simps udp_echo_def stamp_carries)
qed (simp add: delivered_def map_filter_simps)

lemma replies_complete:
  assumes "list_all (\<lambda>ev. \<exists>buf now. ev = Datagram buf now) evs" "Datagram buf now \<in> set evs" "carries buf q"
  shows "map_of (replies evs) q \<noteq> None"
  using assms
proof (induction evs)
  case (Cons ev evs)
  then show ?case by (cases ev) (auto simp: carries_def map_of_eq_None_iff split: sum.split)
qed simp

lemma map_filter_total: "\<forall>x \<in> set xs. f x \<noteq> None \<Longrightarrow> length (List.map_filter f xs) = length xs"
  by (induction xs) (auto simp: map_filter_simps)

text \<open>
  C15: a responder answers a prober without loss. When the responder reads every datagram of a burst
  and the prober reads each of the replies, among whatever else and in whatever order, the cycle
  counts no loss and one sample for each packet sent.
\<close>

theorem echo_without_loss:
  assumes "udp_probe env t pr = Some c" "ue_dial env = None"
    and clock: "length clock = length (ub_wire (udp_burst env t pr))"
    and served: "serve_udp (delivered addr (ub_wire (udp_burst env t pr)) clock) s [] = (s', out, r)"
    and reads: "list_all (\<lambda>ev. \<exists>buf now. ev = Datagram buf now) (ue_reads env)"
      "\<forall>reply \<in> snd ` set out. \<exists>now. Datagram reply now \<in> set (ue_reads env)"
  shows "cy_lost c = 0 \<and> cy_received c = cy_sent c \<and> length (cy_rtt c) = length (ub_wire (udp_burst env t pr))
    \<and> rs_udp_packets s' = rs_udp_packets s + of_nat (length (ub_wire (udp_burst env t pr))) \<and> r = Serving"
proof -
  let ?b = "udp_burst env t pr"
  note inv = udp_burst_inv [of t env pr, unfolded burst_inv_def]
  then have wire: "list_all2 carries (ub_wire ?b) (ub_order ?b)" by simp
  have go: "list_all udp_goes_on (delivered addr (ub_wire ?b) clock)"
    by (auto simp: delivered_def list_all_iff udp_goes_on_def)
  from serve_udp_echoes [OF go, of s "[]"] served have
    out: "out = List.map_filter udp_echo (delivered addr (ub_wire ?b) clock)" "r = Serving"
    and s': "rs_udp_packets s' = rs_udp_packets s + of_nat (length out)" by auto
  have echo: "list_all2 carries (map snd out) (ub_order ?b)"
    using delivered_replies [OF wire clock, of addr] by (simp add: out(1))
  have "answer (ub_sent ?b) (replies (ue_reads env)) q \<noteq> None" if "q \<in> set (ub_order ?b)" for q
  proof -
    from that echo obtain reply where reply: "reply \<in> snd ` set out" "carries reply q"
      by (auto simp: list_all2_conv_all_nth in_set_conv_nth) (metis nth_mem image_eqI)
    with reads(2) obtain now where "Datagram reply now \<in> set (ue_reads env)" by auto
    from replies_complete [OF reads(1) this reply(2)] have "map_of (replies (ue_reads env)) q \<noteq> None" .
    moreover have "map_of (ub_sent ?b) q \<noteq> None" using inv that by (auto simp: map_of_eq_None_iff)
    ultimately show ?thesis by (auto simp: answer_def)
  qed
  then have "length (List.map_filter (answer (ub_sent ?b) (replies (ue_reads env))) (ub_order ?b)) = length (ub_order ?b)"
    by (intro map_filter_total) auto
  with udp_outcome [OF assms(1,2)] have rtt: "length (cy_rtt c) = length (ub_order ?b)" by simp
  have len: "length (ub_wire ?b) = length (ub_order ?b)" "length out = length (ub_order ?b)"
    using list_all2_lengthD [OF wire] list_all2_lengthD [OF echo] by simp_all
  moreover have "cy_sent c = int (length (ub_order ?b))" using udp_outcome [OF assms(1,2)] by simp
  moreover have "cy_sent c = cy_received c + cy_lost c" "cy_received c = int (length (cy_rtt c))"
    using udp_counted [OF assms(1)] by (simp_all add: counted_def)
  ultimately show ?thesis using rtt s' out(2) by simp
qed

text \<open>The run of the prober above against the responder, the replies read in the other order.\<close>

definition demo_stamped :: "32 word \<Rightarrow> 64 word \<Rightarrow> 8 word list" where
  "demo_stamped q nanos = echo_stamp (demo_reply q) \<lparr>hd_magic = magic, hd_seq = q, hd_nanos = 0\<rparr> nanos"

definition demo_env :: udp_env where
  "demo_env = demo_udp\<lparr>ue_reads := [Datagram (demo_stamped 2 8) 1101, Datagram (demo_stamped 1 7) 1102]\<rparr>"

lemma demo_env_burst: "udp_burst demo_env t demo_params = udp_burst demo_udp t demo_params" "ue_dial demo_env = None"
  "ue_reads demo_env = [Datagram (demo_stamped 2 8) 1101, Datagram (demo_stamped 1 7) 1102]"
  by (simp_all add: demo_env_def udp_burst_def demo_udp_def)

lemma demo_wire: "ub_wire (udp_burst demo_udp t demo_params) = [demo_reply 1, demo_reply 2]"
  by (simp add: udp_burst_def demo_udp_def demo_params_def payload_size_def header_size_def upt_rec
      udp_send_def encode_header_def Let_def demo_reply_def header_bytes_def)

lemma decode_demo_stamped:
  "decode_header (demo_stamped q nanos) = Inr \<lparr>hd_magic = magic, hd_seq = q, hd_nanos = nanos\<rparr>"
  by (simp add: demo_stamped_def stamp_decoded decode_demo_reply)

lemma demo_served:
  "serve_udp (delivered a [demo_reply 1, demo_reply 2] [7, 8]) s [] =
     (s\<lparr>rs_udp_packets := rs_udp_packets s + 1 + 1\<rparr>, [(a, demo_stamped 1 7), (a, demo_stamped 2 8)], Serving)"
  by (simp add: delivered_def decode_demo_reply demo_stamped_def)

lemma demo_env_probe: "\<exists>c. udp_probe demo_env t demo_params = Some c"
proof -
  have "udp_receive (ub_sent (udp_burst demo_env t demo_params)) (ue_reads demo_env) udp_no_replies \<noteq> None"
    by (simp add: demo_burst demo_env_burst receive_steps udp_accept_def decode_demo_stamped udp_no_replies_def Let_def)
  then show ?thesis by (auto simp: udp_probe_def Let_def demo_env_burst(2) split: option.split)
qed

theorem echo_without_loss_witness:
  "\<exists>c s'. udp_probe demo_env demo_target demo_params = Some c
     \<and> serve_udp (delivered ''p'' (ub_wire (udp_burst demo_env demo_target demo_params)) [7, 8]) new_server []
         = (s', [(''p'', demo_stamped 1 7), (''p'', demo_stamped 2 8)], Serving)
     \<and> cy_lost c = 0 \<and> length (cy_rtt c) = 2 \<and> rs_udp_packets s' = 2"
proof -
  obtain c where c: "udp_probe demo_env demo_target demo_params = Some c" using demo_env_probe by blast
  have w: "ub_wire (udp_burst demo_env demo_target demo_params) = [demo_reply 1, demo_reply 2]"
    by (simp add: demo_env_burst demo_wire)
  have served: "serve_udp (delivered ''p'' (ub_wire (udp_burst demo_env demo_target demo_params)) [7, 8]) new_server []
      = (new_server\<lparr>rs_udp_packets := rs_udp_packets new_server + 1 + 1\<rparr>,
         [(''p'', demo_stamped 1 7), (''p'', demo_stamped 2 8)], Serving)" by (simp only: w demo_served)
  from echo_without_loss [OF c demo_env_burst(2) _ served]
  have "cy_lost c = 0 \<and> length (cy_rtt c) = 2" by (auto simp: w demo_env_burst(3) numeral_2_eq_2)
  then show ?thesis using c served by (auto simp: new_server_def)
qed

section \<open>A payload in two segments\<close>

lemma padding_rejected:
  assumes "16 \<le> k" "k < n"
  shows "\<exists>e. decode_header (map of_nat [k..<n]) = Inl e"
proof (cases "n - k < 16")
  case False
  then have four: "take 4 (map of_nat [k..<n] :: 8 word list) = [of_nat k, of_nat (k + 1), of_nat (k + 2), of_nat (k + 3)]"
    by (simp add: take_map upt_conv_Cons numeral_eq_Suc)
  have "(of_nat k :: 8 word) = 109 \<longrightarrow> of_nat (k + 1) \<noteq> (101 :: 8 word)" by auto
  with four False show ?thesis by (auto simp: decode_header_def header_size_def magic_def)
qed (simp add: decode_header_def header_size_def)

text \<open>
  The TCP responder loses a payload that arrives in two reads. A payload a prober writes is a
  header and padding; when the connection delivers it in two pieces, the responder echoes at most the
  first piece, rejects the second because it has no header of its own, and closes the connection, so
  the prober never reads back as many bytes as it sent.
\<close>

theorem tcp_split_payload_lost:
  assumes "encode_header buf h n = Inr out" "payload = take (nat n) out" "0 < k" "k < length payload"
    and "handle_conn (ConnRead (take k payload) None t1 w1 # ConnRead (drop k payload) e t2 w2 # evs) s []
      = (s', rs, still_open)"
  shows "\<not> still_open \<and> length (concat rs) \<le> k \<and> length (concat rs) < length payload"
proof -
  note n = encode_headerD(1,2) [OF assms(1)]
  have payload: "payload = header_bytes h @ map of_nat [16..<nat n]"
    using n by (simp add: assms(2) encode_headerD(3) [OF assms(1)] header_size_def)
  have len: "length payload = nat n" using n by (simp add: payload header_size_def)
  have pieces: "take k payload \<noteq> []" "drop k payload \<noteq> []" using assms(3,4) by auto
  show ?thesis
  proof (cases "k < 16")
    case True
    then have "length (take k payload) < 16" by simp
    then have "decode_header (take k payload) = Inl PayloadBelowMagic" by (simp only: decode_header_def header_size_def if_True)
    with assms(3-5) pieces show ?thesis by auto
  next
    case False
    then have "drop k payload = map of_nat [k..<nat n]" by (simp add: payload header_size_def drop_map drop_upt)
    then obtain x where x: "decode_header (drop k payload) = Inl x"
      using padding_rejected [of k "nat n"] False assms(4) len by auto
    have "take k payload = header_bytes h @ take (k - 16) (map of_nat [16..<nat n])"
      using False by (simp add: payload header_size_def)
    then obtain g where "decode_header (take k payload) = Inr g" by (simp add: decode_header_bytes)
    with assms(3-5) pieces x stamp_decoded(1) [OF this, of t1] show ?thesis
      by (auto simp: Let_def split: if_splits)
  qed
qed

theorem tcp_split_payload_lost_witness:
  "\<exists>payload s' rs. length payload = 20
     \<and> handle_conn [ConnRead (take 18 payload) None 5 True, ConnRead (drop 18 payload) None 6 True] new_server []
        = (s', rs, False) \<and> length (concat rs) < 20"
proof -
  let ?h = "\<lparr>hd_magic = [], hd_seq = 1, hd_nanos = 0\<rparr>" and ?b = "replicate 20 0 :: 8 word list"
  obtain out where out: "encode_header ?b ?h 20 = Inr out" "length out = 20"
    by (simp add: encode_header_def header_size_def)
  let ?p = "take (nat 20) out"
  obtain s' r p where h: "handle_conn [ConnRead (take 18 ?p) None 5 True, ConnRead (drop 18 ?p) None 6 True] new_server []
      = (s', r, p)" using prod_cases3 by blast
  from tcp_split_payload_lost [OF out(1) refl _ _ h] out(2) have "\<not> p" "length (concat r) < 20" by auto
  with h out(2) show ?thesis by (intro exI [of _ ?p] exI [of _ s'] exI [of _ r]) auto
qed

end
