(* ===== verification/Zone.thy ===== *)
theory Zone
  imports Inventory Config
begin

text \<open>
  Models \<open>internal/zone/zone.go\<close>: a zone rule compiled from the configuration, its
  application to one host, and the index of a whole snapshot. The lemmas show that the
  index partitions the hosts by the key the rule gives them, that member lists keep the
  canonical order, that the zone list is sorted, and that a host without a zone is reported
  with an attribute it lacks. Regular expressions (\<open>regexp\<close>) are a parameter \<open>rx\<close>:
  for a pattern, \<open>None\<close> when it does not compile, else its \<open>ReplaceAllString\<close>. The case
  mappings and \<open>TrimSpace\<close> are those of ASCII text.
\<close>

section \<open>Rules\<close>

datatype missing_policy = MissingExclude | MissingEmpty | MissingLiteral

record key_spec =
  ks_key :: string
  ks_transform :: "(string \<Rightarrow> string) option"
  ks_raw :: string

record rule =
  ru_keys :: "key_spec list"
  ru_sep :: string
  ru_missing :: missing_policy
  ru_literal :: string
  ru_desc :: string
  ru_fp :: string

datatype transform_error = BadPrefixLength | NoReplacement | BadRegex | UnknownTransform

datatype zone_error =
  ZoneNoKeys | ZoneBadPolicy | ZoneKeyBlank nat | ZoneTransformBad nat transform_error

type_synonym regex = "string \<Rightarrow> (string \<Rightarrow> string \<Rightarrow> string) option"

definition lower_char :: "char \<Rightarrow> char" where
  "lower_char c = (if CHR ''A'' \<le> c \<and> c \<le> CHR ''Z'' then char_of (of_char c + 32 :: nat) else c)"

definition upper_char :: "char \<Rightarrow> char" where
  "upper_char c = (if CHR ''a'' \<le> c \<and> c \<le> CHR ''z'' then char_of (of_char c - 32 :: nat) else c)"

definition is_space :: "char \<Rightarrow> bool" where
  "is_space c \<longleftrightarrow> c = CHR '' '' \<or> (CHR 0x09 \<le> c \<and> c \<le> CHR 0x0D)"

definition trim_space :: "string \<Rightarrow> string" where
  "trim_space s = rev (dropWhile is_space (rev (dropWhile is_space s)))"

definition compile_transform ::
  "regex \<Rightarrow> string \<Rightarrow> transform_error + (string \<Rightarrow> string)" where
  "compile_transform rx spec =
     (if spec = ''lower'' then Inr (map lower_char)
      else if spec = ''upper'' then Inr (map upper_char)
      else if spec = ''trim'' then Inr trim_space
      else if has_prefix spec ''prefix:'' then
        (case atoi (trim_prefix spec ''prefix:'') of
           None \<Rightarrow> Inl BadPrefixLength
         | Some n \<Rightarrow> if n \<le> 0 then Inl BadPrefixLength
                     else Inr (\<lambda>s. if int (length s) \<le> n then s else take (nat n) s))
      else if has_prefix spec ''regex:'' then
        (case split_last (CHR '':'') (trim_prefix spec ''regex:'') of
           None \<Rightarrow> Inl NoReplacement
         | Some (pat, repl) \<Rightarrow>
             (case rx pat of None \<Rightarrow> Inl BadRegex | Some replace \<Rightarrow> Inr (\<lambda>s. replace s repl)))
      else Inl UnknownTransform)"

text \<open>The loop of \<open>NewRule\<close> over the keys: the compiled keys and the parts of the description.\<close>

fun rule_keys ::
  "regex \<Rightarrow> nat \<Rightarrow> zone_key_spec list \<Rightarrow> zone_error + key_spec list \<times> string list" where
  "rule_keys rx i [] = Inr ([], [])"
| "rule_keys rx i (k # ks) =
     (if zk_key k = [] then Inl (ZoneKeyBlank i)
      else if zk_transform k \<noteq> [] then
        (case compile_transform rx (zk_transform k) of
           Inl e \<Rightarrow> Inl (ZoneTransformBad i e)
         | Inr t \<Rightarrow>
             (case rule_keys rx (Suc i) ks of
                Inl e \<Rightarrow> Inl e
              | Inr (specs, parts) \<Rightarrow>
                  Inr (\<lparr>ks_key = zk_key k, ks_transform = Some t, ks_raw = zk_transform k\<rparr> # specs,
                       (zk_key k @ ''|'' @ zk_transform k) # parts)))
      else
        (case rule_keys rx (Suc i) ks of
           Inl e \<Rightarrow> Inl e
         | Inr (specs, parts) \<Rightarrow>
             Inr (\<lparr>ks_key = zk_key k, ks_transform = None, ks_raw = zk_transform k\<rparr> # specs,
                  zk_key k # parts)))"

definition missing_of :: "string \<Rightarrow> (missing_policy \<times> string) option" where
  "missing_of m =
     (if m = [] \<or> m = ''exclude'' then Some (MissingExclude, [])
      else if m = ''empty'' then Some (MissingEmpty, [])
      else if has_prefix m ''literal:'' then Some (MissingLiteral, trim_prefix m ''literal:'')
      else None)"

definition new_rule :: "regex \<Rightarrow> zone_config \<Rightarrow> zone_error + rule" where
  "new_rule rx cfg =
     (if zc_keys cfg = [] then Inl ZoneNoKeys
      else let sep = (if zc_separator cfg = [] then ''/'' else zc_separator cfg)
      in (case missing_of (zc_missing cfg) of
            None \<Rightarrow> Inl ZoneBadPolicy
          | Some (policy, literal) \<Rightarrow>
              (case rule_keys rx 0 (zc_keys cfg) of
                 Inl e \<Rightarrow> Inl e
               | Inr (specs, parts) \<Rightarrow>
                   let desc = join '','' parts @ '' sep='' @ sep @ '' missing='' @ zc_missing cfg
                   in Inr \<lparr>ru_keys = specs, ru_sep = sep, ru_missing = policy,
                           ru_literal = literal, ru_desc = desc, ru_fp = short_sha desc\<rparr>)))"

definition lacks :: "host_record \<Rightarrow> key_spec \<Rightarrow> bool" where
  "lacks h ks \<longleftrightarrow> attr h (ks_key ks) = None \<or> attr h (ks_key ks) = Some []"

fun apply_keys :: "rule \<Rightarrow> host_record \<Rightarrow> key_spec list \<Rightarrow> string list option" where
  "apply_keys r h [] = Some []"
| "apply_keys r h (ks # kss) =
     (if lacks h ks \<and> ru_missing r = MissingExclude then None
      else let v = (if lacks h ks then (if ru_missing r = MissingEmpty then [] else ru_literal r)
                    else the (attr h (ks_key ks)));
               w = (case ks_transform ks of None \<Rightarrow> v | Some t \<Rightarrow> t v)
      in (case apply_keys r h kss of None \<Rightarrow> None | Some ws \<Rightarrow> Some (w # ws)))"

definition apply_rule :: "rule \<Rightarrow> host_record \<Rightarrow> string option" where
  "apply_rule r h = map_option (join (ru_sep r)) (apply_keys r h (ru_keys r))"

definition missing_key :: "rule \<Rightarrow> host_record \<Rightarrow> string" where
  "missing_key r h = (case List.find (lacks h) (ru_keys r) of None \<Rightarrow> [] | Some ks \<Rightarrow> ks_key ks)"

definition rule_attrs :: "rule \<Rightarrow> string list" where
  "rule_attrs r = map ks_key (ru_keys r)"

section \<open>The index of a snapshot\<close>

record unresolved =
  un_host :: string
  un_missing :: string

record zindex =
  zi_rule :: rule
  zi_zones :: "string list"
  zi_members :: "(string, string list) gomap"
  zi_host_zone :: "(string, string) gomap"
  zi_unresolved :: "unresolved list"

definition index_host :: "rule \<Rightarrow> host_record \<Rightarrow> zindex \<Rightarrow> zindex" where
  "index_host r h idx =
     (case apply_rule r h of
        None \<Rightarrow> idx\<lparr>zi_unresolved :=
                  zi_unresolved idx @ [\<lparr>un_host = hr_id h, un_missing = missing_key r h\<rparr>]\<rparr>
      | Some k \<Rightarrow> idx\<lparr>zi_members := gm_append k (hr_id h) (zi_members idx),
                      zi_host_zone := AList.update (hr_id h) k (zi_host_zone idx)\<rparr>)"

definition zone_build :: "rule \<Rightarrow> snapshot \<Rightarrow> zindex" where
  "zone_build r snap =
     (let idx = fold (index_host r) (sn_hosts snap)
            \<lparr>zi_rule = r, zi_zones = [], zi_members = [], zi_host_zone = [], zi_unresolved = []\<rparr>
      in idx\<lparr>zi_zones := sort (map fst (zi_members idx))\<rparr>)"

definition members :: "zindex \<Rightarrow> string \<Rightarrow> string list" where
  "members idx k = gm_list (zi_members idx) k"

definition member_count :: "zindex \<Rightarrow> string \<Rightarrow> nat" where
  "member_count idx k = length (members idx k)"

definition zone_of :: "zindex \<Rightarrow> string \<Rightarrow> string option" where
  "zone_of idx hid = map_of (zi_host_zone idx) hid"

section \<open>The rule\<close>

lemma apply_keys_None:
  "apply_keys r h kss = None \<longleftrightarrow> ru_missing r = MissingExclude \<and> (\<exists>ks \<in> set kss. lacks h ks)"
  by (induction kss) (auto simp: Let_def split: option.splits)

lemma apply_keys_length: "apply_keys r h kss = Some ws \<Longrightarrow> length ws = length kss"
  by (induction kss arbitrary: ws) (auto simp: Let_def split: option.splits if_splits)

lemma rule_keys_nonblank:
  "rule_keys rx i ks = Inr (specs, parts) \<Longrightarrow>
     map ks_key specs = map zk_key ks \<and> (\<forall>s \<in> set specs. ks_key s \<noteq> [])"
  by (induction rx i ks arbitrary: specs parts rule: rule_keys.induct)
    (auto split: if_splits sum.splits prod.splits)

lemma new_rule_keys:
  assumes "new_rule rx cfg = Inr r"
  shows "rule_attrs r = map zk_key (zc_keys cfg)" and "rule_attrs r \<noteq> []"
    and "\<And>ks. ks \<in> set (ru_keys r) \<Longrightarrow> ks_key ks \<noteq> []"
proof -
  obtain specs parts where "rule_keys rx 0 (zc_keys cfg) = Inr (specs, parts)" "ru_keys r = specs"
    and ne: "zc_keys cfg \<noteq> []"
    using assms by (auto simp: new_rule_def Let_def split: if_splits option.splits sum.splits)
  then show eq: "rule_attrs r = map zk_key (zc_keys cfg)"
    and "\<And>ks. ks \<in> set (ru_keys r) \<Longrightarrow> ks_key ks \<noteq> []"
    by (auto simp: rule_attrs_def dest: rule_keys_nonblank)
  with ne show "rule_attrs r \<noteq> []" by simp
qed

lemma missing_key_lacks:
  assumes "\<And>ks. ks \<in> set (ru_keys r) \<Longrightarrow> ks_key ks \<noteq> []"
  shows "missing_key r h \<noteq> [] \<longleftrightarrow> (\<exists>ks \<in> set (ru_keys r). lacks h ks)"
  using assms
  by (auto simp: missing_key_def find_None_iff dest: find_SomeD split: option.splits)

text \<open>
  Under a compiled rule a host has no zone exactly when the policy is to exclude and the
  host lacks an attribute the rule reads; the key reported for it is then one of the rule's,
  absent or empty on that host. And the zone depends on nothing but the attributes the rule reads.
\<close>

theorem rule_resolution:
  assumes "new_rule rx cfg = Inr r"
  shows "(apply_rule r h = None \<longleftrightarrow> ru_missing r = MissingExclude \<and> missing_key r h \<noteq> [])
    \<and> (apply_rule r h = None \<longrightarrow>
         missing_key r h \<in> set (rule_attrs r)
         \<and> (attr h (missing_key r h) = None \<or> attr h (missing_key r h) = Some []))
    \<and> ((\<forall>k \<in> set (rule_attrs r). attr h k = attr h' k) \<longrightarrow> apply_rule r h = apply_rule r h')"
proof (intro conjI impI)
  note keys = new_rule_keys [OF assms]
  show none: "apply_rule r h = None \<longleftrightarrow> ru_missing r = MissingExclude \<and> missing_key r h \<noteq> []"
    using missing_key_lacks [OF keys(3)] by (simp add: apply_rule_def apply_keys_None)
  assume "apply_rule r h = None"
  with none have "missing_key r h \<noteq> []" by simp
  then obtain ks where ks: "List.find (lacks h) (ru_keys r) = Some ks" "missing_key r h = ks_key ks"
    by (auto simp: missing_key_def split: option.splits)
  show "missing_key r h \<in> set (rule_attrs r)"
    "attr h (missing_key r h) = None \<or> attr h (missing_key r h) = Some []"
    using find_SomeD [OF ks(1)] ks(2) by (auto simp: rule_attrs_def lacks_def)
next
  have same: "apply_keys r h kss = apply_keys r h' kss"
    if "\<forall>ks \<in> set kss. attr h (ks_key ks) = attr h' (ks_key ks)" for kss
    using that by (induction kss) (auto simp: lacks_def Let_def split: option.splits)
  assume "\<forall>k \<in> set (rule_attrs r). attr h k = attr h' k"
  then show "apply_rule r h = apply_rule r h'"
    using same [of "ru_keys r"] by (simp add: apply_rule_def rule_attrs_def)
qed

definition plain_host :: "string \<Rightarrow> (string, string) gomap \<Rightarrow> host_record" where
  "plain_host hid attrs =
     \<lparr>hr_id = hid, hr_address = hid, hr_attributes = attrs, hr_source = ''file'',
      hr_healthy = True, hr_reason = [], hr_seen_at = 1, hr_priority = 10\<rparr>"

theorem rule_resolution_witness:
  "\<exists>r. apply_rule r (plain_host ''h'' [(''metro'', ''sjcx''), (''dc'', ''01'')]) = Some ''sjc/01''
     \<and> apply_rule r (plain_host ''g'' [(''metro'', ''sjc'')]) = None
     \<and> missing_key r (plain_host ''g'' [(''metro'', ''sjc'')]) = ''dc''"
proof -
  let ?cfg = "\<lparr>zc_keys = [\<lparr>zk_key = ''metro'', zk_transform = ''prefix:3''\<rparr>,
                 \<lparr>zk_key = ''dc'', zk_transform = []\<rparr>],
      zc_separator = ''/'', zc_missing = ''exclude''\<rparr>"
  let ?g = "plain_host ''g'' [(''metro'', ''sjc'')]"
  let ?h = "plain_host ''h'' [(''metro'', ''sjcx''), (''dc'', ''01'')]"
  have n: "atoi ''3'' = Some 3" by code_simp
  obtain r where r: "new_rule (\<lambda>_. None) ?cfg = Inr r" "ru_missing r = MissingExclude"
    "missing_key r ?g = ''dc''" "apply_rule r ?h = Some ''sjc/01''"
    by (simp add: new_rule_def missing_of_def compile_transform_def has_prefix_def trim_prefix_def n
        Let_def missing_key_def lacks_def attr_def plain_host_def apply_rule_def)
  from rule_resolution [OF r(1), of ?g] r show ?thesis by auto
qed

section \<open>The partition\<close>

definition zone_hosts :: "rule \<Rightarrow> string \<Rightarrow> host_record list \<Rightarrow> string list" where
  "zone_hosts r k hs = map hr_id (filter (\<lambda>h. apply_rule r h = Some k) hs)"

definition unresolved_of :: "rule \<Rightarrow> host_record list \<Rightarrow> unresolved list" where
  "unresolved_of r hs =
     map (\<lambda>h. \<lparr>un_host = hr_id h, un_missing = missing_key r h\<rparr>)
       (filter (\<lambda>h. apply_rule r h = None) hs)"

lemma fold_index_members:
  "gm_list (zi_members (fold (index_host r) hs idx)) k
     = gm_list (zi_members idx) k @ zone_hosts r k hs"
  by (induction hs arbitrary: idx)
    (auto simp: index_host_def zone_hosts_def gm_list_append split: option.splits)

lemma fold_index_keys:
  "fst ` set (zi_members (fold (index_host r) hs idx))
     = fst ` set (zi_members idx) \<union> {k. \<exists>h \<in> set hs. apply_rule r h = Some k}"
  by (induction hs arbitrary: idx) (auto simp: index_host_def split: option.splits)

lemma fold_index_wf:
  "gm_wf (zi_members idx) \<Longrightarrow> gm_wf (zi_members (fold (index_host r) hs idx))"
  by (rule fold_preserves [where P = "\<lambda>idx. gm_wf (zi_members idx)"])
    (auto simp: index_host_def gm_wf_append split: option.splits)

lemma fold_index_unresolved:
  "zi_unresolved (fold (index_host r) hs idx) = zi_unresolved idx @ unresolved_of r hs"
  by (induction hs arbitrary: idx) (auto simp: index_host_def unresolved_of_def split: option.splits)

lemma fold_index_rule: "zi_rule (fold (index_host r) hs idx) = zi_rule idx"
  by (induction hs arbitrary: idx) (auto simp: index_host_def split: option.splits)

lemma fold_index_zone_of:
  assumes "distinct (map hr_id hs)"
  shows "map_of (zi_host_zone (fold (index_host r) hs idx)) hid
     = (case List.find (\<lambda>h. hr_id h = hid) hs of
          None \<Rightarrow> map_of (zi_host_zone idx) hid
        | Some h \<Rightarrow> (case apply_rule r h of
             None \<Rightarrow> map_of (zi_host_zone idx) hid | Some k \<Rightarrow> Some k))"
  using assms
proof (induction hs arbitrary: idx)
  case (Cons h hs)
  show ?case
  proof (cases "hr_id h = hid")
    case True
    with Cons.prems have "List.find (\<lambda>h. hr_id h = hid) hs = None"
      by (auto simp: find_None_iff) (metis imageI)
    with Cons True show ?thesis
      by (auto simp: index_host_def update_conv split: option.splits)
  next
    case False
    with Cons show ?thesis
      by (auto simp: index_host_def update_conv split: option.splits)
  qed
qed simp

lemma snap_wf_distinct: "snap_wf snap \<Longrightarrow> distinct (map hr_id (sn_hosts snap))"
  by (simp add: snap_wf_def strict_sorted_iff)

lemma members_build: "members (zone_build r snap) k = zone_hosts r k (sn_hosts snap)"
  by (simp add: members_def zone_build_def Let_def fold_index_members) (simp add: gm_list_def)

lemma unresolved_build: "zi_unresolved (zone_build r snap) = unresolved_of r (sn_hosts snap)"
  by (simp add: zone_build_def Let_def fold_index_unresolved)

lemma rule_build [simp]: "zi_rule (zone_build r snap) = r"
  by (simp add: zone_build_def Let_def fold_index_rule)

lemma zone_of_build:
  assumes "snap_wf snap"
  shows "zone_of (zone_build r snap) hid
     = (case List.find (\<lambda>h. hr_id h = hid) (sn_hosts snap) of
          None \<Rightarrow> None | Some h \<Rightarrow> apply_rule r h)"
  unfolding zone_of_def zone_build_def Let_def
  by (simp add: fold_index_zone_of [OF snap_wf_distinct [OF assms]] split: option.split)

lemma zone_of_host:
  assumes "snap_wf snap" and "h \<in> set (sn_hosts snap)"
  shows "zone_of (zone_build r snap) (hr_id h) = apply_rule r h"
proof -
  obtain g where g: "List.find (\<lambda>g. hr_id g = hr_id h) (sn_hosts snap) = Some g"
    using assms(2) by (metis (mono_tags, lifting) find_None_iff option.exhaust)
  with find_SomeD [OF g] have "g = h" using assms sv.id_unique by blast
  with g show ?thesis by (simp add: zone_of_build [OF assms(1)])
qed

lemma zone_of_None_other:
  "snap_wf snap \<Longrightarrow> hid \<notin> hr_id ` set (sn_hosts snap) \<Longrightarrow> zone_of (zone_build r snap) hid = None"
  by (auto simp: zone_of_build split: option.split dest: find_SomeD)

lemma zones_build:
  "sorted_wrt (<) (zi_zones (zone_build r snap))"
  "set (zi_zones (zone_build r snap)) = {k. \<exists>h \<in> set (sn_hosts snap). apply_rule r h = Some k}"
proof -
  let ?i = "fold (index_host r) (sn_hosts snap)
    \<lparr>zi_rule = r, zi_zones = [], zi_members = [], zi_host_zone = [], zi_unresolved = []\<rparr>"
  have z: "zi_zones (zone_build r snap) = sort (map fst (zi_members ?i))"
    by (simp add: zone_build_def Let_def)
  have "gm_wf (zi_members ?i)" by (rule fold_index_wf) simp
  then show "sorted_wrt (<) (zi_zones (zone_build r snap))"
    by (simp add: z gm_wf_def strict_sorted_iff)
  show "set (zi_zones (zone_build r snap)) = {k. \<exists>h \<in> set (sn_hosts snap). apply_rule r h = Some k}"
    unfolding z by (simp add: fold_index_keys)
qed

lemma zone_hosts_set:
  "hid \<in> set (zone_hosts r k hs) \<longleftrightarrow> (\<exists>h \<in> set hs. hr_id h = hid \<and> apply_rule r h = Some k)"
  by (auto simp: zone_hosts_def)

lemma zone_hosts_member:
  assumes "snap_wf snap"
  shows "hid \<in> set (zone_hosts r k (sn_hosts snap)) \<longleftrightarrow> zone_of (zone_build r snap) hid = Some k"
proof (cases "hid \<in> hr_id ` set (sn_hosts snap)")
  case True
  then obtain h where h: "h \<in> set (sn_hosts snap)" "hr_id h = hid" by blast
  then show ?thesis
    using zone_of_host [OF assms h(1), of r] sv.id_unique [OF assms]
    by (auto simp: zone_hosts_set)
next
  case False
  then show ?thesis
    using zone_of_None_other [OF assms False] by (auto simp: zone_hosts_set)
qed

lemma members_distinct: "snap_wf snap \<Longrightarrow> distinct (members (zone_build r snap) k)"
  by (auto simp: members_build zone_hosts_def distinct_map
      dest!: snap_wf_distinct intro: inj_on_subset)

text \<open>
  The index of a snapshot partitions its hosts by the key the rule gives them. The member
  list of a zone is exactly the hosts with that key, in the canonical order of the snapshot;
  the zone of a host is the key the rule gives it; the hosts without a key are the unresolved
  ones, each once, with the missing attribute; and the zone list is the strictly sorted list
  of the zones that have a member.
\<close>

theorem zone_build_partition:
  assumes "snap_wf snap"
  shows "members (zone_build r snap) k = zone_hosts r k (sn_hosts snap)
    \<and> (hid \<in> set (members (zone_build r snap) k) \<longleftrightarrow> zone_of (zone_build r snap) hid = Some k)
    \<and> (h \<in> set (sn_hosts snap) \<longrightarrow> zone_of (zone_build r snap) (hr_id h) = apply_rule r h)
    \<and> zi_unresolved (zone_build r snap) = unresolved_of r (sn_hosts snap)
    \<and> sorted_wrt (<) (zi_zones (zone_build r snap))
    \<and> (k \<in> set (zi_zones (zone_build r snap)) \<longleftrightarrow> 0 < member_count (zone_build r snap) k)"
proof -
  have "k \<in> set (zi_zones (zone_build r snap)) \<longleftrightarrow> 0 < member_count (zone_build r snap) k"
    by (auto simp: zones_build(2) member_count_def members_build zone_hosts_def filter_empty_conv)
  then show ?thesis
    using zone_of_host [OF assms] zone_hosts_member [OF assms]
    by (simp add: members_build unresolved_build zones_build(1))
qed

theorem zone_build_partition_witness:
  "\<exists>r snap. snap_wf snap \<and> members (zone_build r snap) ''x'' = [''a'', ''c'']
     \<and> zi_zones (zone_build r snap) = [''x'', ''y'']
     \<and> zone_of (zone_build r snap) ''c'' = Some ''x''
     \<and> zi_unresolved (zone_build r snap) = [\<lparr>un_host = ''d'', un_missing = ''z''\<rparr>]"
proof -
  let ?r = "\<lparr>ru_keys = [\<lparr>ks_key = ''z'', ks_transform = None, ks_raw = []\<rparr>], ru_sep = ''/'',
             ru_missing = MissingExclude, ru_literal = [], ru_desc = [], ru_fp = []\<rparr>"
  let ?st = "inv_replace \<lparr>hs_source = ''file'',
      hs_hosts = [plain_host ''c'' [(''z'', ''x'')], plain_host ''a'' [(''z'', ''x'')],
                  plain_host ''b'' [(''z'', ''y'')], plain_host ''d'' []],
      hs_fetch_at = 1, hs_stale = False, hs_last_error = []\<rparr> new_inv_store"
  let ?snap = "build_snapshot 1 ?st"
  have wf: "snap_wf ?snap" by (rule build_snapshot_wf)
  have hosts: "map hr_id (sn_hosts ?snap) = [''a'', ''b'', ''c'', ''d'']"
    "members (zone_build ?r ?snap) ''x'' = [''a'', ''c'']"
    "zi_zones (zone_build ?r ?snap) = [''x'', ''y'']"
    by code_simp+
  have u: "unresolved_of ?r (sn_hosts ?snap) = [\<lparr>un_host = ''d'', un_missing = ''z''\<rparr>]"
    by code_simp
  from zone_build_partition [OF wf, of ?r "''x''" "''c''"] hosts u wf
  have "members (zone_build ?r ?snap) ''x'' = [''a'', ''c'']"
    "zone_of (zone_build ?r ?snap) ''c'' = Some ''x''"
    "zi_unresolved (zone_build ?r ?snap) = [\<lparr>un_host = ''d'', un_missing = ''z''\<rparr>]"
    by auto
  with wf hosts show ?thesis by blast
qed

end
