(* ===== verification/PathMatch.thy ===== *)
theory PathMatch
  imports Prelude
begin

text \<open>
  The standard library's \<open>path.Match\<close>, which the pairing filters use: chunks of a pattern
  between stars, each star standing for a sequence without \<open>/\<close>. \<open>None\<close> is
  \<open>ErrBadPattern\<close>. Names and patterns are taken as ASCII, so a rune is a byte. It is
  written after the library's source and carries no entry of the source map.
\<close>

section \<open>Character classes\<close>

fun get_esc :: "string \<Rightarrow> (char \<times> string) option" where
  "get_esc [] = None"
| "get_esc (c # cs) =
     (if c = CHR ''-'' \<or> c = CHR '']'' then None
      else (case (if c = CHR 0x5C then cs else c # cs) of
              [] \<Rightarrow> None
            | r # rest \<Rightarrow> if rest = [] then None else Some (r, rest)))"

lemma get_esc_shorter: "get_esc cs = Some (r, rest) \<Longrightarrow> length rest < length cs"
  by (cases cs) (auto split: if_splits list.splits)

text \<open>The ranges of a class up to its closing bracket: whether one holds \<open>r\<close>, and the rest.\<close>

function scan_class :: "char \<Rightarrow> bool \<Rightarrow> bool \<Rightarrow> string \<Rightarrow> (bool \<times> string) option" where
  "scan_class r seen hit cs =
     (if seen \<and> cs \<noteq> [] \<and> hd cs = CHR '']'' then Some (hit, tl cs)
      else case get_esc cs of
        None \<Rightarrow> None
      | Some (lo, rest) \<Rightarrow>
          (if hd rest = CHR ''-'' then
             (case get_esc (tl rest) of
                None \<Rightarrow> None
              | Some (hi, rest') \<Rightarrow> scan_class r True (hit \<or> (lo \<le> r \<and> r \<le> hi)) rest')
           else scan_class r True (hit \<or> lo = r) rest))"
  by pat_completeness auto
termination
  by (relation "measure (\<lambda>(r, seen, hit, cs). length cs)")
    (auto dest!: get_esc_shorter simp: tl_def split: list.splits)

declare scan_class.simps [simp del]

lemma scan_class_shorter: "scan_class r seen hit cs = Some (b, rest) \<Longrightarrow> length rest < length cs"
proof (induction "length cs" arbitrary: seen hit cs rule: less_induct)
  case less
  note step = less.prems [unfolded scan_class.simps [of r seen hit cs]]
  show ?case
  proof (cases "seen \<and> cs \<noteq> [] \<and> hd cs = CHR '']''")
    case True
    with step show ?thesis by (cases cs) auto
  next
    case False
    with step obtain lo more where lo: "get_esc cs = Some (lo, more)"
      by (auto split: option.splits)
    from get_esc_shorter [OF this] have more: "length more < length cs" .
    show ?thesis
    proof (cases "hd more = CHR ''-''")
      case True
      with step False lo obtain hi more' where hi: "get_esc (tl more) = Some (hi, more')"
        and rec: "scan_class r True (hit \<or> (lo \<le> r \<and> r \<le> hi)) more' = Some (b, rest)"
        by (auto split: option.splits)
      from get_esc_shorter [OF hi] more have "length more' < length cs" by simp
      from less.hyps [OF this rec] this show ?thesis by simp
    next
      case no: False
      with step False lo have "scan_class r True (hit \<or> lo = r) more = Some (b, rest)"
        by simp
      from less.hyps [OF more this] more show ?thesis by simp
    qed
  qed
qed

section \<open>Chunks\<close>

text \<open>
  \<open>match_chunk failed chunk s\<close>: after a mismatch (\<open>failed\<close>) the chunk is still read to its
  end, to find a malformed pattern.
\<close>

function match_chunk :: "bool \<Rightarrow> string \<Rightarrow> string \<Rightarrow> (bool \<times> string) option" where
  "match_chunk failed [] s = Some (\<not> failed, if failed then [] else s)"
| "match_chunk failed (c # cs) s =
     (let fl = failed \<or> s = [];
          s' = (if fl then s else tl s)
      in if c = CHR ''['' then
           (let neg = (cs \<noteq> [] \<and> hd cs = CHR ''^'');
                r = (if fl then CHR 0x00 else hd s)
            in case scan_class r False False (if neg then tl cs else cs) of
                 None \<Rightarrow> None
               | Some (hit, rest) \<Rightarrow> match_chunk (fl \<or> hit = neg) rest s')
         else if c = CHR ''?'' then match_chunk (fl \<or> hd s = CHR ''/'') cs s'
         else if c = CHR 0x5C then
           (case cs of [] \<Rightarrow> None | d # ds \<Rightarrow> match_chunk (fl \<or> d \<noteq> hd s) ds s')
         else match_chunk (fl \<or> c \<noteq> hd s) cs s')"
  by pat_completeness auto
termination
  by (relation "measure (\<lambda>(failed, cs, s). length cs)")
    (auto dest!: scan_class_shorter split: if_splits)

fun chunk_end :: "bool \<Rightarrow> string \<Rightarrow> string \<times> string" where
  "chunk_end inr [] = ([], [])"
| "chunk_end inr [c] = (if c = CHR ''*'' \<and> \<not> inr then ([], [c]) else ([c], []))"
| "chunk_end inr (c # d # cs) =
     (if c = CHR 0x5C then (case chunk_end inr cs of (a, b) \<Rightarrow> (c # d # a, b))
      else if c = CHR ''*'' \<and> \<not> inr then ([], c # d # cs)
      else (case chunk_end (if c = CHR ''['' then True else if c = CHR '']'' then False else inr)
                   (d # cs) of (a, b) \<Rightarrow> (c # a, b)))"

definition scan_chunk :: "string \<Rightarrow> bool \<times> string \<times> string" where
  "scan_chunk p =
     (p \<noteq> [] \<and> hd p = CHR ''*'', chunk_end False (dropWhile (\<lambda>c. c = CHR ''*'') p))"

lemma chunk_end_append: "chunk_end inr p = (a, b) \<Longrightarrow> a @ b = p"
  by (induction inr p arbitrary: a b rule: chunk_end.induct) (auto split: if_splits prod.splits)

lemma chunk_end_nonempty:
  "chunk_end False p = (a, b) \<Longrightarrow> p \<noteq> [] \<Longrightarrow> hd p \<noteq> CHR ''*'' \<Longrightarrow> a \<noteq> []"
  by (induction False p rule: chunk_end.induct) (auto split: if_splits prod.splits)

lemma scan_chunk_shorter:
  assumes "scan_chunk p = (star, chunk, rest)" and "p \<noteq> []"
  shows "length rest < length p"
proof -
  let ?d = "dropWhile (\<lambda>c. c = CHR ''*'') p"
  from assms(1) have d: "chunk_end False ?d = (chunk, rest)" by (simp add: scan_chunk_def)
  then have "length chunk + length rest = length ?d"
    using chunk_end_append by (metis length_append)
  moreover have "length ?d < length p \<or> chunk \<noteq> []"
  proof (cases "hd p = CHR ''*''")
    case True
    then have "?d = dropWhile (\<lambda>c. c = CHR ''*'') (tl p)" using assms(2) by (cases p) auto
    then have "length ?d \<le> length (tl p)" using length_dropWhile_le [of _ "tl p"] by metis
    then show ?thesis using assms(2) by (cases p) auto
  next
    case False
    then have "?d = p" using assms(2) by (cases p) auto
    then show ?thesis using chunk_end_nonempty [OF d] False assms(2) by simp
  qed
  moreover have "length ?d \<le> length p" by (rule length_dropWhile_le)
  ultimately show ?thesis by (cases chunk) auto
qed

section \<open>The match\<close>

fun star_skip :: "string \<Rightarrow> bool \<Rightarrow> string \<Rightarrow> string option option" where
  "star_skip chunk more [] = Some None"
| "star_skip chunk more (c # cs) =
     (if c = CHR ''/'' then Some None
      else case match_chunk False chunk cs of
        None \<Rightarrow> None
      | Some (ok, t) \<Rightarrow> if ok \<and> (t = [] \<or> more) then Some (Some t) else star_skip chunk more cs)"

function check_rest :: "string \<Rightarrow> bool option" where
  "check_rest p =
     (if p = [] then Some False
      else case scan_chunk p of (star, chunk, rest) \<Rightarrow>
        (if match_chunk False chunk [] = None then None else check_rest rest))"
  by pat_completeness auto
termination
  by (relation "measure length") (auto dest: scan_chunk_shorter [OF sym])

function path_match :: "string \<Rightarrow> string \<Rightarrow> bool option" where
  "path_match p s =
     (if p = [] then Some (s = [])
      else case scan_chunk p of (star, chunk, rest) \<Rightarrow>
        if star \<and> chunk = [] then Some (CHR ''/'' \<notin> set s)
        else case match_chunk False chunk s of
          None \<Rightarrow> None
        | Some (ok, t) \<Rightarrow>
            if ok \<and> (t = [] \<or> rest \<noteq> []) then path_match rest t
            else if star then
              (case star_skip chunk (rest \<noteq> []) s of
                 None \<Rightarrow> None
               | Some (Some t') \<Rightarrow> path_match rest t'
               | Some None \<Rightarrow> check_rest rest)
            else check_rest rest)"
  by pat_completeness auto
termination
  by (relation "measure (\<lambda>(p, s). length p)") (auto dest: scan_chunk_shorter [OF sym])

declare check_rest.simps [simp del] path_match.simps [simp del]

lemma path_match_examples:
  "path_match ''sjc|*'' ''sjc|iad'' = Some True"
  "path_match ''sjc|*'' ''sjc|iad/01'' = Some False"
  "path_match ''*'' ''a'' = Some True" "path_match ''[a-c]?'' ''bx'' = Some True"
  "path_match ''[^a-c]*x*'' ''zaxb'' = Some True" "path_match ''a[]'' ''a'' = None"
  "path_match ''*a*/b'' ''xxa/b'' = Some True" "path_match ''x*[a'' ''y'' = None"
  by code_simp+

end
