(* ===== verification/Pairing.thy ===== *)
theory Pairing
  imports Zone PathMatch
begin

text \<open>
  Models \<open>internal/pairing/pairing.go\<close>: pairing keys, the include and exclude filters and the
  set of pairings of a zone index under its limit. The lemmas show when a key identifies its two
  zones, that the built list is exactly the wanted pairs in strict key order, and that only the
  zone list (and, for intra-zone pairings, which zones have two members) enters it.
\<close>

section \<open>Keys\<close>

definition make_key :: "string \<Rightarrow> string \<Rightarrow> string" where
  "make_key a b = (if a \<le> b then a @ ''|'' @ b else b @ ''|'' @ a)"

definition split_key :: "string \<Rightarrow> string \<times> string" where
  "split_key s =
     (if CHR ''|'' \<in> set s
      then (takeWhile (\<lambda>c. c \<noteq> CHR ''|'') s, tl (dropWhile (\<lambda>c. c \<noteq> CHR ''|'') s))
      else (s, s))"

definition key_intra :: "string \<Rightarrow> bool" where
  "key_intra k = (case split_key k of (a, b) \<Rightarrow> a = b)"

record pairing =
  pa_key :: string
  pa_zone_a :: string
  pa_zone_b :: string
  pa_intra :: bool

datatype pairing_error = TooManyPairings | BadInclude nat | BadExclude nat

section \<open>Filters\<close>

record pfilter =
  pf_include :: "string list"
  pf_exclude :: "string list"

definition bad_pattern :: "string \<Rightarrow> bool" where
  "bad_pattern p \<longleftrightarrow> path_match p ''x'' = None"

definition new_filter :: "pairings_config \<Rightarrow> pairing_error + pfilter" where
  "new_filter cfg =
     (case List.find (\<lambda>(i, p). bad_pattern p) (enumerate 0 (pc_include cfg)) of
        Some (i, _) \<Rightarrow> Inl (BadInclude i)
      | None \<Rightarrow>
          (case List.find (\<lambda>(i, p). bad_pattern p) (enumerate 0 (pc_exclude cfg)) of
             Some (i, _) \<Rightarrow> Inl (BadExclude i)
           | None \<Rightarrow> Inr \<lparr>pf_include = pc_include cfg, pf_exclude = pc_exclude cfg\<rparr>))"

definition match_filter :: "pfilter option \<Rightarrow> string \<Rightarrow> bool" where
  "match_filter f k =
     (case f of
        None \<Rightarrow> True
      | Some fl \<Rightarrow>
          (pf_include fl = [] \<or> list_ex (\<lambda>p. path_match p k = Some True) (pf_include fl))
          \<and> \<not> list_ex (\<lambda>p. path_match p k = Some True) (pf_exclude fl))"

section \<open>The desired pairings\<close>

definition pair_count :: "int \<Rightarrow> bool \<Rightarrow> int" where
  "pair_count zones intra =
     (if zones < 0 then 0
      else let n = zones * (zones - 1) div 2 in if intra then n + zones else n)"

definition intra_pairing :: "zindex \<Rightarrow> pairings_config \<Rightarrow> pfilter option \<Rightarrow> string \<Rightarrow> pairing list" where
  "intra_pairing idx cfg f z =
     (if pc_intra_zone cfg \<and> member_count idx z \<ge> 2 \<and> match_filter f (make_key z z)
      then [\<lparr>pa_key = make_key z z, pa_zone_a = z, pa_zone_b = z, pa_intra = True\<rparr>] else [])"

definition cross_pairing :: "pfilter option \<Rightarrow> string \<Rightarrow> string \<Rightarrow> pairing list" where
  "cross_pairing f z z' =
     (let k = make_key z z'
      in if \<not> match_filter f k then []
         else case split_key k of (a, b) \<Rightarrow>
           [\<lparr>pa_key = k, pa_zone_a = a, pa_zone_b = b, pa_intra = False\<rparr>])"

fun pairs_from :: "zindex \<Rightarrow> pairings_config \<Rightarrow> pfilter option \<Rightarrow> string list \<Rightarrow> pairing list" where
  "pairs_from idx cfg f [] = []"
| "pairs_from idx cfg f (z # zs) =
     intra_pairing idx cfg f z @ concat (map (cross_pairing f z) zs) @ pairs_from idx cfg f zs"

definition pairing_build ::
  "zindex \<Rightarrow> pairings_config \<Rightarrow> pfilter option \<Rightarrow> pairing_error + pairing list" where
  "pairing_build idx cfg f =
     (let n = pair_count (int (length (zi_zones idx))) (pc_intra_zone cfg)
      in if pc_max_pairings cfg > 0 \<and> n > pc_max_pairings cfg then Inl TooManyPairings
         else let out = sort_key pa_key (pairs_from idx cfg f (zi_zones idx))
              in if pc_max_pairings cfg > 0 \<and> int (length out) > pc_max_pairings cfg
                 then Inl TooManyPairings else Inr out)"

section \<open>Keys and zones\<close>

definition bar_free :: "string \<Rightarrow> bool" where
  "bar_free z \<longleftrightarrow> CHR ''|'' \<notin> set z"

lemma split_key_bar: "bar_free a \<Longrightarrow> split_key (a @ ''|'' @ b) = (a, b)"
  by (auto simp: split_key_def bar_free_def takeWhile_append dropWhile_append)

lemma make_key_min_max: "make_key a b = min a b @ ''|'' @ max a b"
  by (auto simp: make_key_def min_def max_def)

lemma make_key_commute: "make_key a b = make_key b a"
  by (simp add: make_key_min_max min.commute max.commute)

lemma split_make_key:
  "bar_free a \<Longrightarrow> bar_free b \<Longrightarrow> split_key (make_key a b) = (min a b, max a b)"
  using split_key_bar [of "min a b" "max a b"] by (simp add: make_key_min_max min_def)

text \<open>
  A pairing key does not depend on the order of its zones, and for zone keys without a
  vertical bar it determines them: \<open>Split\<close> gives the smaller and the larger zone back, two
  pairs have the same key only when they are the same unordered pair, and \<open>Intra\<close> tells
  whether the two are one zone.
\<close>

theorem key_roundtrip:
  assumes "bar_free a" "bar_free b" "bar_free c" "bar_free d"
  shows "make_key a b = make_key b a
    \<and> split_key (make_key a b) = (min a b, max a b)
    \<and> (make_key a b = make_key c d \<longleftrightarrow> {a, b} = {c, d})
    \<and> (key_intra (make_key a b) \<longleftrightarrow> a = b)"
proof -
  have s: "split_key (make_key a b) = (min a b, max a b)" "split_key (make_key c d) = (min c d, max c d)"
    using assms by (simp_all add: split_make_key)
  have "{a, b} = {c, d} \<longleftrightarrow> min a b = min c d \<and> max a b = max c d"
    by (auto simp: min_def max_def doubleton_eq_iff)
  then have "make_key a b = make_key c d \<longleftrightarrow> {a, b} = {c, d}"
    using s by (metis make_key_min_max prod.inject)
  moreover have "key_intra (make_key a b) \<longleftrightarrow> a = b"
    by (auto simp: key_intra_def s min_def max_def)
  ultimately show ?thesis using s make_key_commute by blast
qed

theorem key_roundtrip_witness:
  "split_key (make_key ''sjc/02'' ''iad/01'') = (''iad/01'', ''sjc/02'')
   \<and> make_key ''sjc/02'' ''iad/01'' \<noteq> make_key ''sjc/02'' ''iad/02''"
proof -
  have "bar_free ''sjc/02''" "bar_free ''iad/01''" "bar_free ''iad/02''"
    by (simp_all add: bar_free_def)
  from key_roundtrip [OF this(1,2,1,3)] show ?thesis
    by (auto simp: min_def max_def doubleton_eq_iff)
qed

text \<open>
  For a zone key with a vertical bar, which nothing rejects, this fails: the key of two
  zones splits into two strings that are not those zones, and two different pairs of zones
  share a key.
\<close>

theorem key_with_bar_ambiguous:
  "\<exists>a b c d. a < b \<and> c < d \<and> {a, b} \<noteq> {c, d} \<and> make_key a b = make_key c d
     \<and> split_key (make_key c d) \<noteq> (c, d)"
proof (intro exI conjI)
  show "(''a'' :: string) < ''b|c''" "(''a|b'' :: string) < ''c''"
    "make_key ''a'' ''b|c'' = make_key ''a|b'' ''c''"
    "split_key (make_key ''a|b'' ''c'') \<noteq> (''a|b'', ''c'')"
    by code_simp+
  show "{''a'', ''b|c''} \<noteq> {''a|b'', ''c''}" by (auto simp: doubleton_eq_iff)
qed

section \<open>The built list\<close>

definition mk_pairing :: "string \<Rightarrow> string \<Rightarrow> pairing" where
  "mk_pairing a b = \<lparr>pa_key = make_key a b, pa_zone_a = a, pa_zone_b = b, pa_intra = (a = b)\<rparr>"

lemma pa_key_mk [simp]: "pa_key (mk_pairing a b) = make_key a b"
  by (simp add: mk_pairing_def)

lemma cross_pairing_mk:
  "bar_free a \<Longrightarrow> bar_free b \<Longrightarrow> a < b \<Longrightarrow>
     cross_pairing f a b = (if match_filter f (make_key a b) then [mk_pairing a b] else [])"
  using split_make_key [of a b]
  by (auto simp: cross_pairing_def Let_def mk_pairing_def min_def max_def split: prod.splits)

lemma intra_pairing_mk:
  "intra_pairing idx cfg f z =
     (if pc_intra_zone cfg \<and> member_count idx z \<ge> 2 \<and> match_filter f (make_key z z)
      then [mk_pairing z z] else [])"
  by (simp add: intra_pairing_def mk_pairing_def)

lemma concat_cross:
  assumes "bar_free z" and "\<forall>z' \<in> set zs. bar_free z' \<and> z < z'"
  shows "concat (map (cross_pairing f z) zs)
    = map (mk_pairing z) (filter (\<lambda>z'. match_filter f (make_key z z')) zs)"
  using assms(2) by (induction zs) (auto simp: cross_pairing_mk [OF assms(1)])

definition wanted_pair :: "zindex \<Rightarrow> pairings_config \<Rightarrow> pfilter option \<Rightarrow> string \<Rightarrow> string \<Rightarrow> bool" where
  "wanted_pair idx cfg f a b \<longleftrightarrow>
     (a < b \<or> a = b \<and> pc_intra_zone cfg \<and> 2 \<le> member_count idx a) \<and> match_filter f (make_key a b)"

lemma set_pairs_from:
  assumes "sorted_wrt (<) zs" and "\<forall>z \<in> set zs. bar_free z"
  shows "set (pairs_from idx cfg f zs)
    = {mk_pairing a b | a b. a \<in> set zs \<and> b \<in> set zs \<and> wanted_pair idx cfg f a b}"
  using assms
proof (induction zs)
  case (Cons z zs)
  have "concat (map (cross_pairing f z) zs)
      = map (mk_pairing z) (filter (\<lambda>z'. match_filter f (make_key z z')) zs)"
    using Cons.prems by (intro concat_cross) auto
  with Cons show ?case
    by (auto simp: intra_pairing_mk wanted_pair_def dest: order.asym) blast
qed simp

lemma split_make_key_le:
  "bar_free a \<Longrightarrow> a \<le> b \<Longrightarrow> split_key (make_key a b) = (a, b)"
  using split_key_bar [of a b] by (simp add: make_key_def)

lemma pair_key_inject:
  "bar_free a \<Longrightarrow> bar_free c \<Longrightarrow> a \<le> b \<Longrightarrow> c \<le> d \<Longrightarrow>
     make_key a b = make_key c d \<longleftrightarrow> a = c \<and> b = d"
  by (metis prod.inject split_make_key_le)

lemma distinct_pairs_from:
  assumes "sorted_wrt (<) zs" and "\<forall>z \<in> set zs. bar_free z"
  shows "distinct (map pa_key (pairs_from idx cfg f zs))"
  using assms
proof (induction zs)
  case (Cons z zs)
  have lt: "\<forall>z' \<in> set zs. z < z'" using Cons.prems by simp
  have c: "concat (map (cross_pairing f z) zs)
      = map (mk_pairing z) (filter (\<lambda>z'. match_filter f (make_key z z')) zs)"
    using Cons.prems by (intro concat_cross) auto
  have "distinct zs" using Cons.prems(1) by (auto simp: strict_sorted_iff)
  then have "distinct (map (make_key z) (filter P zs))" for P
    using Cons.prems lt by (auto simp: distinct_map intro!: inj_onI)
      (metis insert_iff less_imp_le pair_key_inject)
  moreover have "make_key z z \<noteq> make_key z b" if "b \<in> set zs" for b
    using Cons.prems lt that by (auto simp: pair_key_inject less_imp_le)
  moreover have "make_key z b \<noteq> make_key c d"
    if "b = z \<or> b \<in> set zs" "c \<in> set zs" "d \<in> set zs" "wanted_pair idx cfg f c d" for b c d
  proof -
    have "c \<le> d" using that(4) by (auto simp: wanted_pair_def)
    then show ?thesis
      using Cons.prems lt that pair_key_inject [of z c b d] by (auto simp: less_imp_le)
  qed
  ultimately show ?case
    using Cons.IH Cons.prems by (auto simp: c intra_pairing_mk set_pairs_from comp_def)
qed simp

lemma length_pairs_from:
  "int (length (pairs_from idx cfg f zs)) \<le> pair_count (int (length zs)) (pc_intra_zone cfg)"
proof (induction zs)
  case (Cons z zs)
  have "length (concat (map (cross_pairing f z) zs)) \<le> length zs"
    by (induction zs) (auto simp: cross_pairing_def Let_def split: prod.split)
  moreover have "length (intra_pairing idx cfg f z) \<le> (if pc_intra_zone cfg then 1 else 0)"
    by (simp add: intra_pairing_def)
  moreover have "pair_count (int (length (z # zs))) i
      = pair_count (int (length zs)) i + int (length zs) + (if i then 1 else 0)" for i
  proof -
    have "(1 + x) * x div 2 = x * (x - 1) div 2 + x" for x :: int
    proof -
      have "(1 + x) * x = x * (x - 1) + x * 2" by (simp add: algebra_simps)
      then show ?thesis by simp
    qed
    then show ?thesis by (simp add: pair_count_def Let_def algebra_simps)
  qed
  ultimately show ?case using Cons.IH by (simp split: if_splits)
qed (simp add: pair_count_def)

lemma pairing_build_eq:
  "pairing_build idx cfg f =
     (if pc_max_pairings cfg > 0
         \<and> pair_count (int (length (zi_zones idx))) (pc_intra_zone cfg) > pc_max_pairings cfg
      then Inl TooManyPairings else Inr (sort_key pa_key (pairs_from idx cfg f (zi_zones idx))))"
  using length_pairs_from [of idx cfg f "zi_zones idx"] by (auto simp: pairing_build_def Let_def)

text \<open>
  The pairing set is refused exactly when the number of zone pairs, counted before any
  filter, exceeds the limit (so the check after the filters never fires); otherwise it is the
  wanted pairs of zones, each once, in strict key order: the smaller zone on side A, the
  intra-zone pairs only where asked for and only for zones with two members.
\<close>

theorem pairing_build_wanted:
  assumes "sorted_wrt (<) (zi_zones idx)" and "\<forall>z \<in> set (zi_zones idx). bar_free z"
  shows "(pairing_build idx cfg f = Inl TooManyPairings \<longleftrightarrow>
           0 < pc_max_pairings cfg
           \<and> pc_max_pairings cfg < pair_count (int (length (zi_zones idx))) (pc_intra_zone cfg))
    \<and> (pairing_build idx cfg f = Inr ps \<longrightarrow>
         sorted_wrt (<) (map pa_key ps)
         \<and> set ps = {mk_pairing a b | a b. a \<in> set (zi_zones idx) \<and> b \<in> set (zi_zones idx)
                                          \<and> wanted_pair idx cfg f a b}
         \<and> (0 < pc_max_pairings cfg \<longrightarrow> int (length ps) \<le> pc_max_pairings cfg))"
proof (intro conjI impI)
  assume ps: "pairing_build idx cfg f = Inr ps"
  then have eq: "ps = sort_key pa_key (pairs_from idx cfg f (zi_zones idx))"
    by (simp add: pairing_build_eq split: if_splits)
  have "distinct (map pa_key (pairs_from idx cfg f (zi_zones idx)))"
    using assms by (rule distinct_pairs_from)
  from distinct_sort_map [OF this] show "sorted_wrt (<) (map pa_key ps)"
    by (simp add: eq strict_sorted_iff)
  show "set ps = {mk_pairing a b | a b. a \<in> set (zi_zones idx) \<and> b \<in> set (zi_zones idx)
                                        \<and> wanted_pair idx cfg f a b}"
    using set_pairs_from [OF assms] by (simp add: eq)
  show "int (length ps) \<le> pc_max_pairings cfg" if "0 < pc_max_pairings cfg"
    using ps that length_pairs_from [of idx cfg f "zi_zones idx"]
    by (auto simp: pairing_build_eq split: if_splits)
qed (auto simp: pairing_build_eq)

definition zones_index :: "string list \<Rightarrow> zindex" where
  "zones_index zs =
     \<lparr>zi_rule = \<lparr>ru_keys = [], ru_sep = [], ru_missing = MissingExclude, ru_literal = [],
        ru_desc = [], ru_fp = []\<rparr>,
      zi_zones = zs, zi_members = map (\<lambda>z. (z, [z @ ''1'', z @ ''2''])) zs, zi_host_zone = [],
      zi_unresolved = []\<rparr>"

theorem pairing_build_wanted_witness:
  "\<exists>ps. pairing_build (zones_index [''a'', ''b'', ''c''])
      \<lparr>pc_intra_zone = True, pc_include = [], pc_exclude = [''a|*''], pc_max_pairings = 6\<rparr>
      (Some \<lparr>pf_include = [], pf_exclude = [''a|*'']\<rparr>) = Inr ps
    \<and> map pa_key ps = [''b|b'', ''b|c'', ''c|c''] \<and> sorted_wrt (<) (map pa_key ps)"
proof -
  let ?idx = "zones_index [''a'', ''b'', ''c'']"
  let ?cfg = "\<lparr>pc_intra_zone = True, pc_include = [], pc_exclude = [''a|*''], pc_max_pairings = 6\<rparr>"
  let ?f = "Some \<lparr>pf_include = [], pf_exclude = [''a|*'']\<rparr>"
  let ?ps = "sort_key pa_key (pairs_from ?idx ?cfg ?f [''a'', ''b'', ''c''])"
  have a: "sorted_wrt (<) (zi_zones ?idx)" "\<forall>z \<in> set (zi_zones ?idx). bar_free z"
    by (simp_all add: zones_index_def bar_free_def)
  have c: "\<not> (pair_count (int (length (zi_zones ?idx))) True > 6)" "zi_zones ?idx = [''a'', ''b'', ''c'']"
    by code_simp+
  have ps: "pairing_build ?idx ?cfg ?f = Inr ?ps"
    using c by (simp add: pairing_build_eq)
  have keys: "map pa_key (pairs_from ?idx ?cfg ?f [''a'', ''b'', ''c'']) = [''b|b'', ''b|c'', ''c|c'']"
    by code_simp
  have "sorted [''b|b'', ''b|c'', ''c|c'']" by code_simp
  then have "sorted (map pa_key (pairs_from ?idx ?cfg ?f [''a'', ''b'', ''c'']))"
    by (simp only: keys)
  then have "map pa_key ?ps = map pa_key (pairs_from ?idx ?cfg ?f [''a'', ''b'', ''c''])"
    by (simp only: sort_key_id_if_sorted)
  then have k: "map pa_key ?ps = [''b|b'', ''b|c'', ''c|c'']" by (simp only: keys)
  have "sorted_wrt (<) (map pa_key ?ps)"
    by (rule pairing_build_wanted [OF a, THEN conjunct2, THEN mp, OF ps, THEN conjunct1])
  with ps k show ?thesis by (intro exI conjI)
qed

text \<open>
  Pairings are defined by the zones and not by the hosts: two indexes with the same zone
  list, in which the same zones have two members when intra-zone pairings are on, give the same
  pairings. Adding hosts to existing zones adds no measurement.
\<close>

theorem pairings_ignore_hosts:
  assumes "zi_zones idx' = zi_zones idx"
    and "pc_intra_zone cfg \<longrightarrow>
           (\<forall>z \<in> set (zi_zones idx). 2 \<le> member_count idx' z \<longleftrightarrow> 2 \<le> member_count idx z)"
  shows "pairing_build idx' cfg f = pairing_build idx cfg f"
proof -
  have "pairs_from idx' cfg f zs = pairs_from idx cfg f zs" if "set zs \<subseteq> set (zi_zones idx)" for zs
    using that assms(2) by (induction zs) (auto simp: intra_pairing_def)
  then show ?thesis by (simp add: pairing_build_eq assms(1))
qed

theorem pairings_ignore_hosts_witness:
  "pairing_build ((zones_index [''a'', ''b''])\<lparr>zi_members := [(''a'', [''x'', ''y'', ''z''])]\<rparr>)
     \<lparr>pc_intra_zone = False, pc_include = [], pc_exclude = [], pc_max_pairings = 6\<rparr> None
   = pairing_build (zones_index [''a'', ''b''])
       \<lparr>pc_intra_zone = False, pc_include = [], pc_exclude = [], pc_max_pairings = 6\<rparr> None"
  by (rule pairings_ignore_hosts) (simp_all add: zones_index_def)

text \<open>
  The include pattern \<open>sjc/01|*\<close>, which the user manual gives for pairings of one
  zone under investigation, selects no pairing of that zone with another of the manual's
  \<open>metro/dc\<close> zones: a star of \<open>path.Match\<close> does not match a slash, which is the default
  separator inside a zone key.
\<close>

theorem include_star_stops_at_slash:
  "match_filter (Some \<lparr>pf_include = [''sjc/01|*''], pf_exclude = []\<rparr>)
       (make_key ''sjc/01'' ''sjc/02'') = False
   \<and> match_filter (Some \<lparr>pf_include = [''sjc/01|*''], pf_exclude = []\<rparr>)
       (make_key ''sjc/01'' ''iad/01'') = False
   \<and> match_filter (Some \<lparr>pf_include = [''sjc/01|*/*''], pf_exclude = []\<rparr>)
       (make_key ''sjc/01'' ''sjc/02'') = True"
  by (intro conjI) code_simp+

end
