(* ===== verification/Reconcile.thy ===== *)
theory Reconcile
  imports Pairing Slot StateStore
begin

text \<open>
  Models \<open>internal/reconcile/reconcile.go\<close>: the pure function that computes the next slot
  assignment and the list of changes. Each stage works on one pairing at a time and gives the
  new pairing with the changes it appended to the delta; a stage over the map of pairings is
  that function at every entry, with the changes in iteration order (\<open>fillSides\<close> goes by
  sorted key). This theory holds the definitions; \<open>ReconcileProps\<close> holds what they satisfy.
\<close>

section \<open>Changes, input, output\<close>

datatype reason =
    NewSlot | HostGone | HostUnhealthy | ZoneChanged | ClassChanged | AnchorReset | Rebalance
  | SuperChanged | Unfilled

record side_change =
  sg_pairing :: string
  sg_slot :: int
  sg_side :: side
  sg_class :: string
  sg_old :: string
  sg_new :: string
  sg_reason :: reason
  sg_rank :: int

record delta =
  dl_added :: "string list"
  dl_removed :: "string list"
  dl_sides :: "side_change list"
  dl_super :: "string list"

definition delta_empty :: "delta \<Rightarrow> bool" where
  "delta_empty d \<longleftrightarrow> dl_added d = [] \<and> dl_removed d = [] \<and> dl_sides d = [] \<and> dl_super d = []"

record recon_stats =
  rs_hosts :: nat
  rs_unresolved :: nat
  rs_zones :: nat
  rs_pairings :: nat
  rs_slots_total :: nat
  rs_slots_filled :: nat
  rs_slots_unfilled :: nat
  rs_by_class :: "(string, nat) gomap"
  rs_by_rank :: "(int, nat) gomap"
  rs_duration :: dur

record recon_input =
  ri_snapshot :: snapshot
  ri_config :: config
  ri_rule :: rule
  ri_filter :: "pfilter option"
  ri_scanner :: slots_config
  ri_eligible :: "string \<Rightarrow> bool"
  ri_current :: "mesh_state option"
  ri_now :: time

record recon_output =
  ro_state :: mesh_state
  ro_delta :: delta
  ro_stats :: recon_stats
  ro_index :: zindex

definition slots_fingerprint :: "slots_config \<Rightarrow> string" where
  "slots_fingerprint c =
     ''n='' @ show_int (sc_count c) @ '' ratio='' @ fmt_f4 (sc_anchor_ratio c)
     @ '' round='' @ sc_anchor_rounding c @ '' super='' @ show_int (sc_super_hosts c)
     @ '' max='' @ show_int (sc_super_max_targets c) @ '' reuse='' @ show_bool (sc_allow_reuse c)"

definition host_present :: "snapshot \<Rightarrow> string \<Rightarrow> bool" where
  "host_present snap h \<longleftrightarrow> snap_get snap h \<noteq> None"

definition released :: "string \<Rightarrow> int \<Rightarrow> side \<Rightarrow> string \<Rightarrow> string \<Rightarrow> reason \<Rightarrow> side_change" where
  "released key i sd cls old why =
     \<lparr>sg_pairing = key, sg_slot = i, sg_side = sd, sg_class = cls, sg_old = old, sg_new = [],
      sg_reason = why, sg_rank = rank_unfilled\<rparr>"

definition taken :: "string \<Rightarrow> int \<Rightarrow> side \<Rightarrow> string \<Rightarrow> string \<Rightarrow> reason \<Rightarrow> int \<Rightarrow> side_change" where
  "taken key i sd cls new why rank =
     \<lparr>sg_pairing = key, sg_slot = i, sg_side = sd, sg_class = cls, sg_old = [], sg_new = new,
      sg_reason = why, sg_rank = rank\<rparr>"

section \<open>Slot tables\<close>

definition blank_slot :: "int \<Rightarrow> slot_rec" where
  "blank_slot i =
     \<lparr>sl_index = i, sl_class = [], sl_host_a = [], sl_host_b = [], sl_rank_a = 0, sl_rank_b = 0,
      sl_assigned_a = 0, sl_assigned_b = 0, sl_super_target = []\<rparr>"

definition drop_changes :: "string \<Rightarrow> reason \<Rightarrow> slot_rec \<Rightarrow> side_change list" where
  "drop_changes key why s =
     (if sl_host_a s \<noteq> [] then [released key (sl_index s) SideA (sl_class s) (sl_host_a s) why] else [])
     @ (if sl_host_b s \<noteq> [] then [released key (sl_index s) SideB (sl_class s) (sl_host_b s) why] else [])"

text \<open>The loop body that gives a base slot its index and class. The assignment times stay.\<close>

definition reclass_slot :: "string \<Rightarrow> layout \<Rightarrow> int \<Rightarrow> slot_rec \<Rightarrow> slot_rec \<times> side_change list" where
  "reclass_slot key l i s0 =
     (let s = s0\<lparr>sl_index := i\<rparr>; want = class_at l i
      in if sl_class s = want then (s, [])
         else
           let (s1, c1) = (if sl_host_a s \<noteq> []
                 then (s\<lparr>sl_host_a := [], sl_rank_a := rank_unfilled\<rparr>,
                       [released key i SideA want (sl_host_a s) ClassChanged])
                 else (s, []));
               (s2, c2) = (if sl_host_b s1 \<noteq> []
                 then (s1\<lparr>sl_host_b := [], sl_rank_b := rank_unfilled\<rparr>,
                       [released key i SideB want (sl_host_b s1) ClassChanged])
                 else (s1, []))
           in (s2\<lparr>sl_class := want\<rparr>, c1 @ c2))"

definition resize_slots :: "layout \<Rightarrow> pairing_rec \<Rightarrow> pairing_rec \<times> side_change list" where
  "resize_slots l p =
     (let total = nat (ly_total l);
          base0 = filter (\<lambda>s. sl_class s \<noteq> class_super) (pg_slots p);
          supers = filter (\<lambda>s. sl_class s = class_super) (pg_slots p);
          base1 = base0 @ map (\<lambda>i. blank_slot (int i)) [length base0..<total];
          dropped = concat (map (drop_changes (pg_key p) ClassChanged) (drop total base1));
          classed = map (\<lambda>(i, s). reclass_slot (pg_key p) l (int i) s) (enumerate 0 (take total base1))
      in (p\<lparr>pg_slots := map fst classed @ supers\<rparr>, dropped @ concat (map snd classed)))"

section \<open>Stages over the pairings\<close>

type_synonym pairings = "(string, pairing_rec) gomap"

definition each_pairing ::
  "(string \<Rightarrow> pairing_rec \<Rightarrow> pairing_rec \<times> side_change list) \<Rightarrow> pairings \<Rightarrow> pairings" where
  "each_pairing f ps = map (\<lambda>(k, p). (k, fst (f k p))) ps"

definition each_changes ::
  "(string \<Rightarrow> pairing_rec \<Rightarrow> pairing_rec \<times> side_change list) \<Rightarrow> pairings \<Rightarrow> side_change list" where
  "each_changes f ps = concat (map (\<lambda>(k, p). snd (f k p)) ps)"

definition new_pairing :: "pairing \<Rightarrow> pairing_rec" where
  "new_pairing p =
     \<lparr>pg_key = pa_key p, pg_zone_a = pa_zone_a p, pg_zone_b = pa_zone_b p, pg_intra = pa_intra p,
      pg_slots = [], pg_remove_at = 0\<rparr>"

definition want_pairing ::
  "layout \<Rightarrow> pairing \<Rightarrow> pairings \<times> string list \<times> side_change list
     \<Rightarrow> pairings \<times> string list \<times> side_change list" where
  "want_pairing l p acc =
     (case acc of (ps, added, chg) \<Rightarrow>
        let (cur, added') = (case map_of ps (pa_key p) of
                None \<Rightarrow> (new_pairing p, added @ [pa_key p]) | Some cur \<Rightarrow> (cur, added));
            (cur', c) = resize_slots l (cur\<lparr>pg_remove_at := 0\<rparr>)
        in (AList.update (pa_key p) cur' ps, added', chg @ c))"

definition expire_pairing ::
  "time \<Rightarrow> dur \<Rightarrow> (string \<Rightarrow> bool) \<Rightarrow> string \<Rightarrow> pairing_rec \<Rightarrow> pairing_rec option" where
  "expire_pairing now hold wanted key p =
     (if wanted key then Some p
      else if is_zero (pg_remove_at p) then Some (p\<lparr>pg_remove_at := tm_add now hold\<rparr>)
      else if \<not> tm_before now (pg_remove_at p) then None else Some p)"

definition expire_pairings ::
  "time \<Rightarrow> dur \<Rightarrow> (string \<Rightarrow> bool) \<Rightarrow> pairings \<Rightarrow> pairings \<times> string list" where
  "expire_pairings now hold wanted ps =
     (List.map_filter (\<lambda>(k, p). map_option (Pair k) (expire_pairing now hold wanted k p)) ps,
      map fst (filter (\<lambda>(k, p). expire_pairing now hold wanted k p = None) ps))"

definition diff_pairings ::
  "recon_input \<Rightarrow> pairing list \<Rightarrow> pairings \<Rightarrow> pairings \<times> string list \<times> string list \<times> side_change list" where
  "diff_pairings inp want ps =
     (let l = compute_layout (cf_slots (ri_config inp));
          (ps1, added, chg) = fold (want_pairing l) want (ps, [], []);
          (ps2, removed) = expire_pairings (ri_now inp) (he_pairing_removal_hold (cf_health (ri_config inp)))
             (\<lambda>k. k \<in> pa_key ` set want) ps1
      in (ps2, added, removed, chg))"

section \<open>Validation\<close>

definition side_reason :: "recon_input \<Rightarrow> zindex \<Rightarrow> string \<Rightarrow> string \<Rightarrow> reason option" where
  "side_reason inp idx want h =
     (if \<not> host_present (ri_snapshot inp) h then Some HostGone
      else if \<not> ri_eligible inp h then Some HostUnhealthy
      else if zone_of idx h \<noteq> Some want then Some ZoneChanged else None)"

definition check_side ::
  "recon_input \<Rightarrow> zindex \<Rightarrow> pairing_rec \<Rightarrow> side \<Rightarrow> string \<Rightarrow> slot_rec \<Rightarrow> slot_rec \<times> side_change list" where
  "check_side inp idx p sd want s =
     (let h = slot_host s sd
      in if h = [] then (s, [])
         else case side_reason inp idx want h of
                None \<Rightarrow> (s, [])
              | Some why \<Rightarrow> (set_slot_host sd [] rank_unfilled 0 s,
                             [released (pg_key p) (sl_index s) sd (sl_class s) h why]))"

definition validate_slot ::
  "recon_input \<Rightarrow> zindex \<Rightarrow> pairing_rec \<Rightarrow> slot_rec \<Rightarrow> slot_rec \<times> side_change list" where
  "validate_slot inp idx p s =
     (let (s1, c1) = check_side inp idx p SideA (pg_zone_a p) s;
          (s2, c2) = check_side inp idx p SideB (pg_zone_b p) s1
      in (s2, c1 @ c2))"

definition validate_pairing ::
  "recon_input \<Rightarrow> zindex \<Rightarrow> pairing_rec \<Rightarrow> pairing_rec \<times> side_change list" where
  "validate_pairing inp idx p =
     (if \<not> is_zero (pg_remove_at p) then (p, [])
      else let rs = map (validate_slot inp idx p) (pg_slots p)
           in (p\<lparr>pg_slots := map fst rs\<rparr>, concat (map snd rs)))"

section \<open>Super slots\<close>

definition drop_super :: "pairing_rec \<Rightarrow> pairing_rec \<times> side_change list" where
  "drop_super p =
     (p\<lparr>pg_slots := filter (\<lambda>s. sl_class s \<noteq> class_super) (pg_slots p)\<rparr>,
      concat (map (drop_changes (pg_key p) SuperChanged)
        (filter (\<lambda>s. sl_class s = class_super) (pg_slots p))))"

text \<open>The super hosts of each zone; \<open>same_strings\<close> of the code is list equality.\<close>

definition choose_super ::
  "recon_input \<Rightarrow> zindex \<Rightarrow> string \<Rightarrow> (string, string list) gomap \<times> string list
     \<Rightarrow> (string, string list) gomap \<times> string list" where
  "choose_super inp idx z acc =
     (case acc of (sp, chg) \<Rightarrow>
        let chosen = pick_super (ri_scanner inp) (members idx z) (ri_snapshot inp) (gm_list sp z)
                       (Some (ri_eligible inp))
        in if gm_list sp z = chosen then (sp, chg) else (AList.update z chosen sp, chg @ [z]))"

definition super_hosts_next ::
  "recon_input \<Rightarrow> zindex \<Rightarrow> (string, string list) gomap \<Rightarrow> (string, string list) gomap \<times> string list" where
  "super_hosts_next inp idx sp =
     (let (sup1, chg) = fold (choose_super inp idx) (zi_zones idx) (sp, []);
          gone = filter (\<lambda>k. k \<notin> fst ` set (zi_members idx)) (map fst sup1)
      in (filter (\<lambda>(k, v). k \<in> fst ` set (zi_members idx)) sup1, chg @ gone))"

definition super_dir ::
  "recon_input \<Rightarrow> zindex \<Rightarrow> (string, string list) gomap \<Rightarrow> int \<Rightarrow> string \<Rightarrow> string \<Rightarrow> (string \<times> string) list" where
  "super_dir inp idx sp mx src_zone dst_zone =
     concat (map (\<lambda>src. map (Pair src)
         (take (nat mx) (filter (\<lambda>dst. dst \<noteq> src \<and> ri_eligible inp dst) (members idx dst_zone))))
       (filter (ri_eligible inp) (gm_list sp src_zone)))"

definition super_pairs ::
  "recon_input \<Rightarrow> zindex \<Rightarrow> (string, string list) gomap \<Rightarrow> int \<Rightarrow> pairing_rec \<Rightarrow> (string \<times> string) list" where
  "super_pairs inp idx sp mx p =
     sort (super_dir inp idx sp mx (pg_zone_a p) (pg_zone_b p)
           @ (if pg_zone_a p \<noteq> pg_zone_b p then super_dir inp idx sp mx (pg_zone_b p) (pg_zone_a p)
              else []))"

definition super_key :: "string \<Rightarrow> string \<Rightarrow> string" where
  "super_key src dst = src @ ''|'' @ dst"

definition super_slot ::
  "recon_input \<Rightarrow> string \<Rightarrow> (string, slot_rec) gomap \<Rightarrow> int \<Rightarrow> string \<times> string \<Rightarrow> slot_rec \<times> side_change list" where
  "super_slot inp key existing i w =
     (case w of (src, dst) \<Rightarrow>
        (case map_of existing (super_key src dst) of
           Some s \<Rightarrow> (s\<lparr>sl_index := i\<rparr>, [])
         | None \<Rightarrow>
             (set_slot_host SideB dst rank_unique (ri_now inp)
               (set_slot_host SideA src rank_unique (ri_now inp)
                 ((blank_slot i)\<lparr>sl_class := class_super, sl_super_target := dst\<rparr>)),
              [taken key i SideA class_super src NewSlot rank_unique,
               taken key i SideB class_super dst NewSlot rank_unique])))"

definition rebuild_super ::
  "recon_input \<Rightarrow> zindex \<Rightarrow> (string, string list) gomap \<Rightarrow> pairing_rec \<Rightarrow> pairing_rec \<times> side_change list" where
  "rebuild_super inp idx sp p =
     (if \<not> is_zero (pg_remove_at p) then (p, [])
      else
        let total = nat (ly_total (compute_layout (cf_slots (ri_config inp))));
            base = take total (pg_slots p);
            existing = fold (\<lambda>s m. if sl_class s = class_super
                                   then AList.update (super_key (sl_host_a s) (sl_super_target s)) s m else m)
                         (drop total (pg_slots p)) [];
            wanted = super_pairs inp idx sp (sc_super_max_targets (cf_slots (ri_config inp))) p;
            built = map (\<lambda>(i, w). super_slot inp (pg_key p) existing (int i) w) (enumerate total wanted);
            used = map (\<lambda>(src, dst). super_key src dst) wanted;
            stale = filter (\<lambda>(k, s). k \<notin> set used) existing
        in (p\<lparr>pg_slots := base @ map fst built\<rparr>,
            concat (map snd built)
            @ concat (map (\<lambda>(k, s).
                [released (pg_key p) (sl_index s) SideA class_super (sl_host_a s) SuperChanged,
                 released (pg_key p) (sl_index s) SideB class_super (sl_host_b s) SuperChanged]) stale)))"

definition update_super ::
  "recon_input \<Rightarrow> zindex \<Rightarrow> pairings \<Rightarrow> (string, string list) gomap
     \<Rightarrow> pairings \<times> (string, string list) gomap \<times> string list \<times> side_change list" where
  "update_super inp idx ps sp =
     (if sc_super_hosts (cf_slots (ri_config inp)) \<le> 0
      then (each_pairing (\<lambda>_. drop_super) ps, [], map fst sp, each_changes (\<lambda>_. drop_super) ps)
      else let (sp', chg) = super_hosts_next inp idx sp
           in (each_pairing (\<lambda>_. rebuild_super inp idx sp') ps, sp', chg,
               each_changes (\<lambda>_. rebuild_super inp idx sp') ps))"

section \<open>Filling\<close>

definition count_side :: "side \<Rightarrow> slot_rec list \<Rightarrow> candidates \<Rightarrow> candidates" where
  "count_side sd slots c =
     fold (\<lambda>s c. if slot_host s sd \<noteq> [] then use_host (slot_host s sd) c else c) slots c"

definition other_side :: "side \<Rightarrow> side" where
  "other_side sd = (if sd = SideA then SideB else SideA)"

definition is_anchor :: "slot_rec \<Rightarrow> bool" where
  "is_anchor s \<longleftrightarrow> sl_class s = class_anchor"

text \<open>One host for every empty anchor side.\<close>

fun set_anchors ::
  "string \<Rightarrow> time \<Rightarrow> side \<Rightarrow> string \<Rightarrow> int \<Rightarrow> reason \<Rightarrow> slot_rec list \<Rightarrow> candidates
     \<Rightarrow> slot_rec list \<times> candidates \<times> side_change list" where
  "set_anchors key now sd h rank why [] c = ([], c, [])"
| "set_anchors key now sd h rank why (s # ss) c =
     (if is_anchor s \<and> slot_host s sd = [] then
        (case set_anchors key now sd h rank why ss (use_host h c) of (ss', c', chg) \<Rightarrow>
           (set_slot_host sd h rank now s # ss', c',
            taken key (sl_index s) sd class_anchor h why rank # chg))
      else (case set_anchors key now sd h rank why ss c of (ss', c', chg) \<Rightarrow> (s # ss', c', chg)))"

definition anchor_host :: "side \<Rightarrow> slot_rec list \<Rightarrow> string" where
  "anchor_host sd slots =
     (case List.find (\<lambda>s. is_anchor s \<and> slot_host s sd \<noteq> []) slots of
        None \<Rightarrow> [] | Some s \<Rightarrow> slot_host s sd)"

definition anchor_exclude :: "bool \<Rightarrow> side \<Rightarrow> slot_rec list \<Rightarrow> string set" where
  "anchor_exclude intra sd slots =
     (if intra then set (map (\<lambda>s. slot_host s (other_side sd))
        (filter (\<lambda>s. is_anchor s \<and> slot_host s (other_side sd) \<noteq> []) slots)) else {})"

text \<open>\<open>fillSide\<close>, with the scanner's anchor pick for this pairing as an argument.\<close>

definition fill_anchor_side ::
  "(candidates \<Rightarrow> string set \<Rightarrow> string \<times> int) \<Rightarrow> string \<Rightarrow> bool \<Rightarrow> time \<Rightarrow> side
     \<Rightarrow> slot_rec list \<Rightarrow> candidates \<Rightarrow> slot_rec list \<times> candidates \<times> side_change list" where
  "fill_anchor_side pick_a key intra now sd slots c =
     (let host = anchor_host sd slots
      in if host = [] then
           (case pick_a c (anchor_exclude intra sd slots) of (h, rank) \<Rightarrow>
              if h = [] then (slots, c, [])
              else set_anchors key now sd h rank NewSlot slots c)
         else set_anchors key now sd host rank_min_use AnchorReset slots c)"

definition fill_anchors ::
  "(candidates \<Rightarrow> string set \<Rightarrow> string \<times> int) \<Rightarrow> string \<Rightarrow> bool \<Rightarrow> time
     \<Rightarrow> slot_rec list \<Rightarrow> candidates \<Rightarrow> candidates
     \<Rightarrow> slot_rec list \<times> candidates \<times> candidates \<times> side_change list" where
  "fill_anchors pick_a key intra now slots ca cb =
     (if \<not> list_ex is_anchor slots then (slots, ca, cb, [])
      else case fill_anchor_side pick_a key intra now SideA slots ca of (slots1, ca', c1) \<Rightarrow>
        (case fill_anchor_side pick_a key intra now SideB slots1 cb of (slots2, cb', c2) \<Rightarrow>
           (slots2, ca', cb', c1 @ c2)))"

text \<open>One side of one diverse slot, with the scanner's pick for this pairing as an argument.\<close>

definition fill_slot_side ::
  "(candidates \<Rightarrow> string set \<Rightarrow> string \<times> int) \<Rightarrow> string \<Rightarrow> bool \<Rightarrow> time \<Rightarrow> side
     \<Rightarrow> slot_rec \<Rightarrow> candidates \<Rightarrow> slot_rec \<times> candidates \<times> side_change list" where
  "fill_slot_side pickf key intra now sd s c =
     (if slot_host s sd \<noteq> [] then (s, c, [])
      else
        let other = slot_host s (other_side sd);
            exclude = (if intra \<and> other \<noteq> [] then {other} else {})
        in case pickf c exclude of (h, rank) \<Rightarrow>
             if h = [] then (s, c, [])
             else (set_slot_host sd h rank now s, use_host h c,
                   [taken key (sl_index s) sd (sl_class s) h NewSlot rank]))"

fun fill_diverse ::
  "(candidates \<Rightarrow> string set \<Rightarrow> string \<times> int) \<Rightarrow> string \<Rightarrow> bool \<Rightarrow> time
     \<Rightarrow> slot_rec list \<Rightarrow> candidates \<Rightarrow> candidates
     \<Rightarrow> slot_rec list \<times> candidates \<times> candidates \<times> side_change list" where
  "fill_diverse pickf key intra now [] ca cb = ([], ca, cb, [])"
| "fill_diverse pickf key intra now (s # ss) ca cb =
     (if sl_class s \<noteq> class_diverse then
        (case fill_diverse pickf key intra now ss ca cb of (ss', ca', cb', chg) \<Rightarrow>
           (s # ss', ca', cb', chg))
      else
        (case fill_slot_side pickf key intra now SideA s ca of (s1, ca1, c1) \<Rightarrow>
           (case fill_slot_side pickf key intra now SideB s1 cb of (s2, cb1, c2) \<Rightarrow>
              (case fill_diverse pickf key intra now ss ca1 cb1 of (ss', ca', cb', chg) \<Rightarrow>
                 (s2 # ss', ca', cb', c1 @ c2 @ chg)))))"

definition fill_pairing ::
  "recon_input \<Rightarrow> zindex \<Rightarrow> string \<Rightarrow> pairing_rec \<Rightarrow> pairing_rec \<times> side_change list" where
  "fill_pairing inp idx key p =
     (if \<not> is_zero (pg_remove_at p) then (p, [])
      else
        let ca = count_side SideA (pg_slots p)
                   (new_candidates (pg_zone_a p) (members idx (pg_zone_a p)) (Some (ri_eligible inp)));
            cb = count_side SideB (pg_slots p)
                   (new_candidates (pg_zone_b p) (members idx (pg_zone_b p)) (Some (ri_eligible inp)))
        in case fill_anchors (pick_anchor key) (pg_key p) (pg_intra p) (ri_now inp)
                  (pg_slots p) ca cb of (slots1, ca1, cb1, c1) \<Rightarrow>
             (case fill_diverse (pick (ri_scanner inp) key) (pg_key p) (pg_intra p) (ri_now inp)
                     slots1 ca1 cb1 of (slots2, ca2, cb2, c2) \<Rightarrow>
                (p\<lparr>pg_slots := slots2\<rparr>, c1 @ c2)))"

definition fill_sides ::
  "recon_input \<Rightarrow> zindex \<Rightarrow> pairings \<Rightarrow> pairings \<times> side_change list" where
  "fill_sides inp idx ps =
     (let keys = sort (map fst (filter (\<lambda>(k, p). is_zero (pg_remove_at p)) ps))
      in (each_pairing (fill_pairing inp idx) ps,
          concat (map (\<lambda>k. snd (fill_pairing inp idx k (the (map_of ps k)))) keys)))"

section \<open>The whole\<close>

definition count_slot :: "slot_rec \<Rightarrow> recon_stats \<Rightarrow> recon_stats" where
  "count_slot s st =
     (let st1 = st\<lparr>rs_slots_total := Suc (rs_slots_total st),
                   rs_by_class := gm_incr (sl_class s) (rs_by_class st)\<rparr>
      in if filled s
         then st1\<lparr>rs_slots_filled := Suc (rs_slots_filled st1),
                  rs_by_rank := gm_incr (sl_rank_b s) (gm_incr (sl_rank_a s) (rs_by_rank st1))\<rparr>
         else st1\<lparr>rs_slots_unfilled := Suc (rs_slots_unfilled st1)\<rparr>)"

definition build_stats :: "zindex \<Rightarrow> mesh_state \<Rightarrow> recon_stats" where
  "build_stats idx st =
     fold (\<lambda>(k, p) out.
         if \<not> is_zero (pg_remove_at p) then out
         else fold count_slot (pg_slots p) (out\<lparr>rs_pairings := Suc (rs_pairings out)\<rparr>))
       (ms_pairings st)
       \<lparr>rs_hosts = 0, rs_unresolved = length (zi_unresolved idx), rs_zones = length (zi_zones idx),
        rs_pairings = 0, rs_slots_total = 0, rs_slots_filled = 0, rs_slots_unfilled = 0,
        rs_by_class = [], rs_by_rank = [], rs_duration = 0\<rparr>"

text \<open>The table the run starts from: the current one, or an empty one when a fingerprint changed.\<close>

definition start_state :: "recon_input \<Rightarrow> mesh_state" where
  "start_state inp =
     (let zfp = ru_fp (ri_rule inp); sfp = slots_fingerprint (cf_slots (ri_config inp));
          next = (case ri_current inp of None \<Rightarrow> new_state zfp sfp | Some st \<Rightarrow> clone_state st)
      in if ms_zone_rule next \<noteq> zfp \<or> ms_slots_config next \<noteq> sfp then new_state zfp sfp else next)"

definition reconcile ::
  "time \<Rightarrow> dur \<Rightarrow> recon_input \<Rightarrow> (pairing_error \<times> zindex) + recon_output" where
  "reconcile start elapsed inp0 =
     (let inp = (if is_zero (ri_now inp0) then inp0\<lparr>ri_now := start\<rparr> else inp0);
          idx = zone_build (ri_rule inp) (ri_snapshot inp)
      in case pairing_build idx (cf_pairings (ri_config inp)) (ri_filter inp) of
           Inl e \<Rightarrow> Inl (e, idx)
         | Inr want \<Rightarrow>
             let st = start_state inp;
                 (ps1, added, removed, c1) = diff_pairings inp want (ms_pairings st);
                 ps2 = each_pairing (\<lambda>_. validate_pairing inp idx) ps1;
                 c2 = each_changes (\<lambda>_. validate_pairing inp idx) ps1;
                 (ps3, sp, schg, c3) = update_super inp idx ps2 (ms_super st);
                 (ps4, c4) = fill_sides inp idx ps3;
                 next = st\<lparr>ms_pairings := ps4, ms_super := sp\<rparr>;
                 d = \<lparr>dl_added = sort added, dl_removed = sort removed,
                      dl_sides = sort_key (\<lambda>c. (sg_pairing c, sg_slot c, sg_side c)) (c1 @ c2 @ c3 @ c4),
                      dl_super = sort schg\<rparr>;
                 stats = (build_stats idx next)\<lparr>rs_hosts := snap_len (ri_snapshot inp), rs_duration := elapsed\<rparr>
             in Inr \<lparr>ro_state = next, ro_delta = d, ro_stats = stats, ro_index = idx\<rparr>)"

end
