(* ===== verification/Stages.thy ===== *)
theory Stages
  imports Reconcile
begin

text \<open>
  The stages of a reconcile on one pairing. The \<open>picker\<close> interface says what the fill stages
  need of the scanner (a picked host is an admissible candidate, and a pick that fails keeps
  failing when more hosts are used or excluded); the fill lemmas are proved from it alone and the
  scanner's two picks are interpretations of it. Each stage is then summed up by what it does to
  the host and rank on one side of a slot.
\<close>

section \<open>What the fill stages need of the scanner\<close>

definition in_use :: "candidates \<Rightarrow> string \<Rightarrow> bool" where
  "in_use c h \<longleftrightarrow> 0 < use_count c h"

definition more_used :: "candidates \<Rightarrow> candidates \<Rightarrow> bool" where
  "more_used c c' \<longleftrightarrow>
     cd_hosts c' = cd_hosts c \<and> (\<forall>h. in_use c h \<longrightarrow> in_use c' h)"

lemma more_used_refl [simp]: "more_used c c"
  by (simp add: more_used_def)

lemma more_used_trans: "more_used a b \<Longrightarrow> more_used b c \<Longrightarrow> more_used a c"
  by (simp add: more_used_def)

lemma use_count_use [simp]:
  "use_count (use_host h c) g = (if g = h then Suc (use_count c g) else use_count c g)"
  by (simp add: use_count_def use_host_def map_of_gm_incr split: option.split)

lemma cd_hosts_use [simp]: "cd_hosts (use_host h c) = cd_hosts c"
  by (simp add: use_host_def)

lemma in_use_use [simp]: "in_use (use_host h c) g \<longleftrightarrow> g = h \<or> in_use c g"
  by (simp add: in_use_def)

lemma more_used_use: "more_used c (use_host h c)"
  by (simp add: more_used_def)

locale picker =
  fixes pickf :: "candidates \<Rightarrow> string set \<Rightarrow> string \<times> int"
  assumes picked: "pickf c ex = (h, r) \<Longrightarrow> h \<noteq> [] \<Longrightarrow> admissible c ex h"
    and stuck: "pickf c ex = ([], r) \<Longrightarrow> [] \<notin> set (cd_hosts c) \<Longrightarrow> more_used c c' \<Longrightarrow> ex \<subseteq> ex' \<Longrightarrow>
      fst (pickf c' ex') = []"

lemma pick_fails_iff:
  assumes "[] \<notin> set (cd_hosts c)"
  shows "fst (pick cfg pk c ex) = [] \<longleftrightarrow>
    (\<forall>g. admissible c ex g \<longrightarrow> \<not> sc_allow_reuse cfg \<and> in_use c g)"
proof (cases rule: pick_cases [of cfg pk c ex])
  case (unique h)
  with assms show ?thesis by (auto simp: admissible_def in_use_def)
next
  case (least h)
  with assms show ?thesis by (auto simp: admissible_def)
next
  case (any h)
  with assms show ?thesis by (auto simp: admissible_def)
next
  case unfilled
  then show ?thesis by (auto simp: in_use_def)
qed

interpretation diverse: picker "pick cfg pk" for cfg pk
proof
  fix c ex h r
  assume "pick cfg pk c ex = (h, r)" "h \<noteq> []"
  then show "admissible c ex h" by (cases rule: pick_cases [of cfg pk c ex]) auto
next
  fix c ex r c' ex'
  assume *: "pick cfg pk c ex = ([], r)" "[] \<notin> set (cd_hosts c)" "more_used c c'" "ex \<subseteq> ex'"
  then have "\<forall>g. admissible c ex g \<longrightarrow> \<not> sc_allow_reuse cfg \<and> in_use c g"
    using pick_fails_iff [OF *(2), of cfg pk ex] by simp
  then have "\<forall>g. admissible c' ex' g \<longrightarrow> \<not> sc_allow_reuse cfg \<and> in_use c' g"
    using *(3,4) by (auto simp: admissible_def more_used_def)
  then show "fst (pick cfg pk c' ex') = []"
    using *(2,3) by (simp add: pick_fails_iff more_used_def)
qed

lemma pick_anchor_cases:
  obtains h r where "pick_anchor pk c ex = (h, r)" "admissible c ex h"
  | "pick_anchor pk c ex = ([], rank_unfilled)" "\<And>g. \<not> admissible c ex g"
proof (cases "cd_hosts c = []")
  case True
  then show thesis by (intro that(2)) (simp_all add: pick_anchor_def admissible_def)
next
  case ne: False
  show thesis
  proof (cases "scan c (start_offset pk (length (cd_hosts c))) ex (\<lambda>_. True)")
    case None
    then have "pick_anchor pk c ex = ([], rank_unfilled)" using ne by (simp add: pick_anchor_def)
    with None show thesis by (intro that(2)) (auto simp: admissible_def scan_None_iff)
  next
    case (Some h)
    from scan_SomeD [OF this] Some ne show thesis
      by (intro that(1)) (auto simp: pick_anchor_def admissible_def)
  qed
qed

interpretation anchor: picker "pick_anchor pk" for pk
proof
  fix c ex h r
  assume "pick_anchor pk c ex = (h, r)" "h \<noteq> []"
  then show "admissible c ex h" by (cases rule: pick_anchor_cases [of pk c ex]) auto
next
  fix c ex r c' ex'
  assume *: "pick_anchor pk c ex = ([], r)" "[] \<notin> set (cd_hosts c)" "more_used c c'" "ex \<subseteq> ex'"
  then have "\<And>g. \<not> admissible c ex g"
    by (cases rule: pick_anchor_cases [of pk c ex]) (auto simp: admissible_def)
  then have "\<And>g. \<not> admissible c' ex' g"
    using *(3,4) by (auto simp: admissible_def more_used_def)
  then show "fst (pick_anchor pk c' ex') = []"
    by (cases rule: pick_anchor_cases [of pk c' ex']) auto
qed

section \<open>Keeping what is there\<close>

text \<open>
  \<open>keeps Q s s'\<close>: the filled sides of the slot are as before, an empty side stays empty or gets
  a host with \<open>Q\<close>, and only anchor and diverse slots change at all.
\<close>

definition keeps :: "(side \<Rightarrow> string \<Rightarrow> bool) \<Rightarrow> slot_rec \<Rightarrow> slot_rec \<Rightarrow> bool" where
  "keeps Q s s' \<longleftrightarrow>
     sl_class s' = sl_class s \<and> sl_index s' = sl_index s
     \<and> (sl_class s = class_anchor \<or> sl_class s = class_diverse \<or> s' = s)
     \<and> (\<forall>sd. if slot_host s sd \<noteq> []
             then slot_host s' sd = slot_host s sd \<and> slot_rank s' sd = slot_rank s sd
             else slot_host s' sd = [] \<or> Q sd (slot_host s' sd))"

lemma keeps_refl [simp]: "keeps Q s s"
  by (simp add: keeps_def)

lemma keeps_trans: "keeps Q s t \<Longrightarrow> keeps Q t u \<Longrightarrow> keeps Q s u"
  by (fastforce simp: keeps_def split: if_splits)

lemma keeps_host: "keeps Q s s' \<Longrightarrow> slot_host s sd \<noteq> [] \<Longrightarrow> slot_host s' sd = slot_host s sd"
  by (simp add: keeps_def)

lemma keeps_set:
  "slot_host s sd = [] \<Longrightarrow> Q sd h \<Longrightarrow> sl_class s = class_anchor \<or> sl_class s = class_diverse \<Longrightarrow>
     keeps Q s (set_slot_host sd h r now s)"
  by (auto simp: keeps_def side_simps)

lemma keeps_anchor: "keeps Q s s' \<Longrightarrow> is_anchor s' = is_anchor s"
  by (simp add: keeps_def is_anchor_def)

lemma list_keeps_refl [simp]: "list_all2 (keeps Q) ss ss"
  by (simp add: list_all2_same)

lemma list_keeps_trans:
  "list_all2 (keeps Q) xs ys \<Longrightarrow> list_all2 (keeps Q) ys zs \<Longrightarrow> list_all2 (keeps Q) xs zs"
  using list_all2_trans [of "keeps Q" "keeps Q" "keeps Q" xs ys zs] keeps_trans by blast

definition sides_ok :: "(side \<Rightarrow> string \<Rightarrow> bool) \<Rightarrow> slot_rec \<Rightarrow> bool" where
  "sides_ok Q s \<longleftrightarrow> (\<forall>sd. slot_host s sd = [] \<or> Q sd (slot_host s sd))"

lemma keeps_sides_ok: "keeps Q s s' \<Longrightarrow> sides_ok Q s \<Longrightarrow> sides_ok Q s'"
  by (fastforce simp: keeps_def sides_ok_def split: if_splits)

lemma list_keeps_sides_ok:
  "list_all2 (keeps Q) xs ys \<Longrightarrow> \<forall>s \<in> set xs. is_anchor s \<longrightarrow> sides_ok Q s \<Longrightarrow>
     \<forall>s \<in> set ys. is_anchor s \<longrightarrow> sides_ok Q s"
  by (induction rule: list_all2_induct) (auto dest: keeps_anchor keeps_sides_ok)

section \<open>Anchors\<close>

lemma set_anchors_slots:
  "fst (set_anchors key now sd h rank why ss c) =
     map (\<lambda>s. if is_anchor s \<and> slot_host s sd = [] then set_slot_host sd h rank now s else s) ss"
  by (induction key now sd h rank why ss c rule: set_anchors.induct) (auto split: prod.split)

lemma set_anchors_idle:
  "(\<forall>s \<in> set ss. is_anchor s \<longrightarrow> slot_host s sd \<noteq> []) \<Longrightarrow>
     set_anchors key now sd h rank why ss c = (ss, c, [])"
  by (induction ss) auto

lemma set_anchors_used:
  "more_used c (fst (snd (set_anchors key now sd h rank why ss c)))"
proof (induction key now sd h rank why ss c rule: set_anchors.induct)
  case (2 key now sd h rank why s ss c)
  then show ?case
    by (auto split: prod.split intro: more_used_trans [OF more_used_use])
qed simp

lemma set_anchors_covers:
  "in_use (fst (snd (set_anchors key now sd h rank why ss c))) g \<Longrightarrow>
     in_use c g \<or> g = h \<and> (\<exists>s \<in> set (fst (set_anchors key now sd h rank why ss c)). slot_host s sd = g)"
proof (induction key now sd h rank why ss c rule: set_anchors.induct)
  case (2 key now sd h rank why s ss c)
  then show ?case
    by (auto simp: side_simps split: prod.splits if_splits)
qed simp

lemma anchor_hostE:
  assumes "anchor_host sd slots \<noteq> []"
  obtains s where "s \<in> set slots" "is_anchor s" "anchor_host sd slots = slot_host s sd"
  using assms by (auto simp: anchor_host_def dest!: find_SomeD split: option.splits)

lemma anchor_host_empty:
  "anchor_host sd slots = [] \<longleftrightarrow> (\<forall>s \<in> set slots. is_anchor s \<longrightarrow> slot_host s sd = [])"
  by (auto simp: anchor_host_def find_None_iff dest!: find_SomeD split: option.split)

text \<open>All anchors that are filled on a side hold one host, different on the two sides if intra-zone.\<close>

definition anchors_ok :: "bool \<Rightarrow> slot_rec list \<Rightarrow> bool" where
  "anchors_ok intra slots \<longleftrightarrow>
     (\<exists>w. (\<forall>s \<in> set slots. is_anchor s \<longrightarrow> (\<forall>sd. slot_host s sd = [] \<or> slot_host s sd = w sd))
        \<and> (intra \<longrightarrow> w SideA = w SideB \<longrightarrow> w SideA = []))"

definition anchors_uniform :: "side \<Rightarrow> slot_rec list \<Rightarrow> bool" where
  "anchors_uniform sd slots \<longleftrightarrow>
     (\<forall>s \<in> set slots. is_anchor s \<longrightarrow> slot_host s sd = anchor_host sd slots)"

lemma is_anchor_set [side_simps]: "is_anchor (set_slot_host sd h r now s) = is_anchor s"
  by (simp add: is_anchor_def side_simps)

lemma other_side_simps [side_simps]:
  "other_side SideA = SideB" "other_side SideB = SideA" "other_side sd \<noteq> sd" "sd \<noteq> other_side sd"
  by (cases sd; simp add: other_side_def)+

lemma side_cases: "(\<forall>sd. P sd) \<longleftrightarrow> P SideA \<and> P SideB"
  by (metis side.exhaust)

text \<open>The host of a side after \<open>set_anchors\<close>.\<close>

lemma anchor_host_map:
  assumes "\<forall>s \<in> set ss. is_anchor (f s) = is_anchor s \<and> (is_anchor s \<longrightarrow> slot_host (f s) sd = slot_host s sd)"
  shows "anchor_host sd (map f ss) = anchor_host sd ss"
  using assms by (induction ss) (auto simp: anchor_host_def)

context picker
begin

lemma anchor_side_cases:
  assumes "fill_anchor_side pickf key intra now sd slots c = (slots', c', chg)"
  obtains (idle) r where "slots' = slots" "c' = c" "chg = []" "anchor_host sd slots = []"
      "pickf c (anchor_exclude intra sd slots) = ([], r)"
  | (set) h rank why where "set_anchors key now sd h rank why slots c = (slots', c', chg)" "h \<noteq> []"
      "anchor_host sd slots = h \<or>
       anchor_host sd slots = [] \<and> admissible c (anchor_exclude intra sd slots) h"
proof (cases "anchor_host sd slots = []")
  case True
  obtain h r where p: "pickf c (anchor_exclude intra sd slots) = (h, r)" by fastforce
  show thesis
  proof (cases "h = []")
    case True
    with \<open>anchor_host sd slots = []\<close> p assms show thesis
      by (intro idle) (auto simp: fill_anchor_side_def)
  next
    case False
    with picked [OF p] \<open>anchor_host sd slots = []\<close> p assms show thesis
      by (intro set) (auto simp: fill_anchor_side_def)
  qed
next
  case False
  with assms show thesis by (intro set) (auto simp: fill_anchor_side_def)
qed

lemma anchor_side_keeps:
  assumes "fill_anchor_side pickf key intra now sd slots c = (slots', c', chg)"
    and "\<forall>s \<in> set slots. is_anchor s \<longrightarrow> sides_ok Q s" and "\<forall>h \<in> set (cd_hosts c). Q sd h"
  shows "list_all2 (keeps Q) slots slots'"
  using assms(1)
proof (cases rule: anchor_side_cases)
  case idle
  then show ?thesis by simp
next
  case (set h rank why)
  have "Q sd h"
    using set(3)
  proof
    assume h: "anchor_host sd slots = h"
    with set(2) obtain s where "s \<in> set slots" "is_anchor s" "anchor_host sd slots = slot_host s sd"
      by (auto elim: anchor_hostE)
    with h set(2) assms(2) show ?thesis by (auto simp: sides_ok_def)
  next
    assume "anchor_host sd slots = [] \<and> admissible c (anchor_exclude intra sd slots) h"
    with assms(3) show ?thesis by (simp add: admissible_def)
  qed
  moreover have "slots' = map (\<lambda>s. if is_anchor s \<and> slot_host s sd = [] then set_slot_host sd h rank now s else s) slots"
    using set(1) set_anchors_slots [of key now sd h rank why slots c] by simp
  ultimately show ?thesis
    by (auto simp: list_all2_map2 list_all2_same is_anchor_def intro!: keeps_set)
qed

lemma anchor_side_used:
  assumes "fill_anchor_side pickf key intra now sd slots c = (slots', c', chg)"
  shows "more_used c c'" and "in_use c' g \<Longrightarrow> in_use c g \<or> g \<noteq> [] \<and> (\<exists>s \<in> set slots'. slot_host s sd = g)"
  using assms
proof (atomize (full), cases rule: anchor_side_cases)
  case (set h rank why)
  then show "more_used c c' \<and> (in_use c' g \<longrightarrow> in_use c g \<or> g \<noteq> [] \<and> (\<exists>s \<in> set slots'. slot_host s sd = g))"
    using set_anchors_used [of c key now sd h rank why slots]
      set_anchors_covers [of key now sd h rank why slots c g] by auto
qed simp

lemma anchor_side_other:
  assumes "fill_anchor_side pickf key intra now sd slots c = (slots', c', chg)"
  shows "list_all2 (\<lambda>s s'. sl_class s' = sl_class s \<and> slot_host s' (other_side sd) = slot_host s (other_side sd)
            \<and> (\<not> is_anchor s \<longrightarrow> s' = s)) slots slots'"
  using assms
proof (cases rule: anchor_side_cases)
  case (set h rank why)
  then have "slots' = map (\<lambda>s. if is_anchor s \<and> slot_host s sd = [] then set_slot_host sd h rank now s else s) slots"
    using set_anchors_slots [of key now sd h rank why slots c] by simp
  then show ?thesis by (simp add: list_all2_map2 list_all2_same side_simps)
qed (simp add: list_all2_same)

lemma anchors_two_steps:
  assumes "fill_anchors pickf key intra now slots ca cb = (slots2, ca', cb', chg)"
  obtains slots1 c1 c2 where "fill_anchor_side pickf key intra now SideA slots ca = (slots1, ca', c1)"
    "fill_anchor_side pickf key intra now SideB slots1 cb = (slots2, cb', c2)" "chg = c1 @ c2"
proof (cases "list_ex is_anchor slots")
  case True
  with assms that show thesis by (auto simp: fill_anchors_def split: prod.splits)
next
  case False
  then have none: "\<forall>s \<in> set slots. \<not> is_anchor s" by (auto simp: list_ex_iff)
  then have "fill_anchor_side pickf key intra now sd slots c = (slots, c, [])" for sd c
    by (auto simp: fill_anchor_side_def set_anchors_idle Let_def split: prod.split)
  with assms False show thesis by (intro that) (auto simp: fill_anchors_def)
qed

lemma anchors_two_steps_eq:
  "fill_anchor_side pickf key intra now SideA slots ca = (slots, ca, []) \<Longrightarrow>
   fill_anchor_side pickf key intra now SideB slots cb = (slots, cb, []) \<Longrightarrow>
     fill_anchors pickf key intra now slots ca cb = (slots, ca, cb, [])"
  by (simp add: fill_anchors_def)

text \<open>After a side is filled its anchors all hold one host, and the two sides stay apart.\<close>

lemma anchor_side_ok:
  assumes "fill_anchor_side pickf key intra now sd slots c = (slots', c', chg)" and "anchors_ok intra slots"
  shows "anchors_ok intra slots'" and "anchors_uniform sd slots'"
    and "\<And>s. s \<in> set slots' \<Longrightarrow> slot_host s (other_side sd) \<in> (\<lambda>s. slot_host s (other_side sd)) ` set slots"
    and "anchors_uniform (other_side sd) slots \<Longrightarrow> anchors_uniform (other_side sd) slots'"
  using assms(1)
proof (atomize (full), cases rule: anchor_side_cases)
  case (idle r)
  then show "(anchors_ok intra slots' \<and> anchors_uniform sd slots')
    \<and> (\<forall>s. s \<in> set slots' \<longrightarrow> slot_host s (other_side sd) \<in> (\<lambda>s. slot_host s (other_side sd)) ` set slots)
    \<and> (anchors_uniform (other_side sd) slots \<longrightarrow> anchors_uniform (other_side sd) slots')"
    using assms(2) anchor_host_empty [of sd slots] by (auto simp: anchors_uniform_def)
next
  case (set h rank why)
  define f where "f = (\<lambda>s. if is_anchor s \<and> slot_host s sd = [] then set_slot_host sd h rank now s else s)"
  have sl: "slots' = map f slots"
    using set(1) set_anchors_slots [of key now sd h rank why slots c] by (simp add: f_def)
  obtain w where w: "\<forall>s \<in> set slots. is_anchor s \<longrightarrow> (\<forall>sd. slot_host s sd = [] \<or> slot_host s sd = w sd)"
    "intra \<longrightarrow> w SideA = w SideB \<longrightarrow> w SideA = []"
    using assms(2) by (auto simp: anchors_ok_def)
  have aw: "anchor_host d slots = [] \<or> anchor_host d slots = w d" for d
    using w(1) by (metis anchor_hostE)
  define v where "v = (\<lambda>d. if d = sd then h else anchor_host d slots)"
  have hosts: "slot_host (f s) sd = h" if "s \<in> set slots" "is_anchor s" for s
  proof (cases "slot_host s sd = []")
    case True
    with that show ?thesis by (simp add: side_simps f_def)
  next
    case False
    then have "anchor_host sd slots \<noteq> []" using that by (auto simp: anchor_host_empty)
    then have "anchor_host sd slots = w sd" using aw [of sd] by simp
    with False that w(1) set(3) \<open>anchor_host sd slots \<noteq> []\<close> show ?thesis
      by (auto simp: f_def)
  qed
  have other: "slot_host (f s) (other_side sd) = slot_host s (other_side sd)" for s
    by (simp add: side_simps f_def)
  have isa: "is_anchor (f s) = is_anchor s" for s by (simp add: side_simps f_def)
  have in_v: "slot_host s d = [] \<or> slot_host s d = v d" if in_s: "s \<in> set slots'" "is_anchor s" for s d
  proof (cases "d = sd")
    case True
    with in_s hosts isa show ?thesis by (auto simp: sl v_def)
  next
    case False
    then have d: "d = other_side sd" by (cases d; cases sd; simp add: side_simps)
    obtain t where t: "t \<in> set slots" "s = f t" using in_s by (auto simp: sl)
    then have "is_anchor t" "slot_host s d = slot_host t d" using in_s isa other d by auto
    moreover have "slot_host t d = [] \<or> slot_host t d = anchor_host d slots"
    proof (cases "slot_host t d = []")
      case f: False
      then have "anchor_host d slots \<noteq> []" using t \<open>is_anchor t\<close> by (auto simp: anchor_host_empty)
      then have "anchor_host d slots = w d" using aw [of d] by simp
      then show ?thesis using w(1) t \<open>is_anchor t\<close> by auto
    qed simp
    ultimately show ?thesis using False by (simp add: v_def)
  qed
  have sep: "v SideA = v SideB \<longrightarrow> v SideA = []" if intra
  proof -
    have "h \<noteq> anchor_host (other_side sd) slots \<or> anchor_host (other_side sd) slots = []"
    proof (rule ccontr)
      assume "\<not> ?thesis"
      then have e: "h = anchor_host (other_side sd) slots" "h \<noteq> []" by auto
      from e obtain t where t: "t \<in> set slots" "is_anchor t" "h = slot_host t (other_side sd)"
        by (metis anchor_hostE)
      from set(3) show False
      proof
        assume "anchor_host sd slots = h"
        then have "h = w sd" using aw [of sd] e(2) by auto
        moreover have "h = w (other_side sd)" using aw [of "other_side sd"] e by auto
        ultimately show False using w(2) e(2) \<open>intra\<close> by (cases sd) (auto simp: side_simps)
      next
        assume "anchor_host sd slots = [] \<and> admissible c (anchor_exclude intra sd slots) h"
        with t e(2) \<open>intra\<close> show False by (auto simp: admissible_def anchor_exclude_def)
      qed
    qed
    then show ?thesis using set(2) by (cases sd) (auto simp: v_def side_simps)
  qed
  have ok: "anchors_ok intra slots'"
    unfolding anchors_ok_def using in_v sep by (intro exI [of _ v]) blast
  have "anchor_host sd slots' = h" if "\<exists>s \<in> set slots'. is_anchor s"
  proof -
    have "\<forall>s \<in> set slots'. is_anchor s \<longrightarrow> slot_host s sd = h" using hosts isa by (auto simp: sl)
    with that set(2) show ?thesis
      by (metis anchor_hostE anchor_host_empty)
  qed
  then have un: "anchors_uniform sd slots'"
    using hosts isa by (auto simp: anchors_uniform_def sl)
  have "anchor_host (other_side sd) slots' = anchor_host (other_side sd) slots"
    unfolding sl by (rule anchor_host_map) (simp add: isa other)
  then show "(anchors_ok intra slots' \<and> anchors_uniform sd slots')
    \<and> (\<forall>s. s \<in> set slots' \<longrightarrow> slot_host s (other_side sd) \<in> (\<lambda>s. slot_host s (other_side sd)) ` set slots)
    \<and> (anchors_uniform (other_side sd) slots \<longrightarrow> anchors_uniform (other_side sd) slots')"
    using ok un isa other by (auto simp: sl anchors_uniform_def image_iff)
qed

end

section \<open>Diverse slots\<close>

definition no_self :: "slot_rec \<Rightarrow> bool" where
  "no_self s \<longleftrightarrow> (slot_host s SideA = slot_host s SideB \<longrightarrow> slot_host s SideA = [])"

context picker
begin

lemma slot_side_cases:
  assumes "fill_slot_side pickf key intra now sd s c = (s', c', chg)"
  obtains (held) "s' = s" "c' = c" "chg = []" "slot_host s sd \<noteq> []"
  | (failed) r where "s' = s" "c' = c" "chg = []" "slot_host s sd = []"
      "pickf c (if intra \<and> slot_host s (other_side sd) \<noteq> [] then {slot_host s (other_side sd)} else {}) = ([], r)"
  | (filled) h rank where "s' = set_slot_host sd h rank now s" "c' = use_host h c" "slot_host s sd = []"
      "h \<noteq> []"
      "admissible c (if intra \<and> slot_host s (other_side sd) \<noteq> [] then {slot_host s (other_side sd)} else {}) h"
proof -
  let ?ex = "if intra \<and> slot_host s (other_side sd) \<noteq> [] then {slot_host s (other_side sd)} else {}"
  obtain h r where p: "pickf c ?ex = (h, r)" by fastforce
  consider "slot_host s sd \<noteq> []" | "slot_host s sd = []" "h = []" | "slot_host s sd = []" "h \<noteq> []"
    by blast
  then show thesis
  proof cases
    case 1
    with assms show thesis by (intro held) (auto simp: fill_slot_side_def)
  next
    case 2
    with assms p show thesis by (intro failed [of r]) (auto simp: fill_slot_side_def Let_def)
  next
    case 3
    with assms p picked [OF p] show thesis
      by (intro filled [of h r]) (auto simp: fill_slot_side_def Let_def)
  qed
qed

lemma slot_side_keeps:
  assumes "fill_slot_side pickf key intra now sd s c = (s', c', chg)"
    and "\<forall>h \<in> set (cd_hosts c). Q sd h" and "sl_class s = class_diverse"
  shows "keeps Q s s'"
  using assms(1)
  by (cases rule: slot_side_cases) (use assms(2,3) in \<open>auto intro!: keeps_set simp: admissible_def\<close>)

lemma slot_side_used:
  assumes "fill_slot_side pickf key intra now sd s c = (s', c', chg)"
  shows "more_used c c'" and "in_use c' g \<Longrightarrow> in_use c g \<or> g \<noteq> [] \<and> slot_host s' sd = g"
  using assms
  by (atomize (full), cases rule: slot_side_cases) (auto simp: more_used_use side_simps)

lemma slot_side_no_self:
  assumes "fill_slot_side pickf key True now sd s c = (s', c', chg)" and "no_self s"
  shows "no_self s'"
  using assms(1)
  by (cases rule: slot_side_cases; cases sd)
    (use assms(2) in \<open>auto simp: no_self_def side_simps admissible_def split: if_splits\<close>)

lemma slot_side_other:
  assumes "fill_slot_side pickf key intra now sd s c = (s', c', chg)"
  shows "slot_host s' (other_side sd) = slot_host s (other_side sd)" and "sl_class s' = sl_class s"
  using assms by (atomize (full), cases rule: slot_side_cases) (auto simp: side_simps)

text \<open>A second run over the result, with at least the same hosts used, finds nothing to do.\<close>

lemma slot_side_again:
  assumes "fill_slot_side pickf key intra now sd s c = (s1, c1, chg)" and "[] \<notin> set (cd_hosts c)"
    and "more_used c1 c2" and "slot_host s2 sd = slot_host s1 sd"
    and "slot_host s1 (other_side sd) \<noteq> [] \<longrightarrow> slot_host s2 (other_side sd) = slot_host s1 (other_side sd)"
  shows "fill_slot_side pickf key intra now2 sd s2 c2 = (s2, c2, [])"
  using assms(1)
proof (cases rule: slot_side_cases)
  case held
  with assms(4) show ?thesis by (simp add: fill_slot_side_def)
next
  case (filled h rank)
  with assms(4) show ?thesis by (simp add: fill_slot_side_def side_simps)
next
  case (failed r)
  let ?ex = "\<lambda>s. if intra \<and> slot_host s (other_side sd) \<noteq> [] then {slot_host s (other_side sd)} else {}"
  have "?ex s \<subseteq> ?ex s2" using failed(1) assms(5) by auto
  from stuck [OF failed(5) assms(2) _ this] have "fst (pickf c2 (?ex s2)) = []"
    using assms(3) failed(2) by simp
  then obtain r2 where p: "pickf c2 (?ex s2) = ([], r2)" by (metis prod.collapse)
  have "slot_host s2 sd = []" using failed(1,4) assms(4) by simp
  then show ?thesis by (simp only: fill_slot_side_def Let_def p) simp
qed

lemma fill_diverse_keeps:
  assumes "fill_diverse pickf key intra now ss ca cb = (ss', ca', cb', chg)"
    and "\<forall>h \<in> set (cd_hosts ca). Q SideA h" and "\<forall>h \<in> set (cd_hosts cb). Q SideB h"
  shows "list_all2 (keeps Q) ss ss' \<and> (\<forall>g. in_use ca' g \<longrightarrow> in_use ca g \<or> g \<noteq> [] \<and> (\<exists>s \<in> set ss'. slot_host s SideA = g))
    \<and> (\<forall>g. in_use cb' g \<longrightarrow> in_use cb g \<or> g \<noteq> [] \<and> (\<exists>s \<in> set ss'. slot_host s SideB = g))
    \<and> more_used ca ca' \<and> more_used cb cb'"
  using assms
proof (induction ss arbitrary: ss' ca cb ca' cb' chg)
  case (Cons s ss)
  show ?case
  proof (cases "sl_class s = class_diverse")
    case False
    then obtain ts chg' where t: "fill_diverse pickf key intra now ss ca cb = (ts, ca', cb', chg')" "ss' = s # ts"
      using Cons.prems(1) by (auto split: prod.splits)
    from Cons.IH [OF t(1) Cons.prems(2,3)] t(2) show ?thesis by auto
  next
    case True
    obtain s1 ca1 c1 where A: "fill_slot_side pickf key intra now SideA s ca = (s1, ca1, c1)" by (metis prod_cases3)
    obtain s2 cb1 c2 where B: "fill_slot_side pickf key intra now SideB s1 cb = (s2, cb1, c2)" by (metis prod_cases3)
    obtain ts chg' where t: "fill_diverse pickf key intra now ss ca1 cb1 = (ts, ca', cb', chg')" "ss' = s2 # ts"
      using Cons.prems(1) True A B by (auto split: prod.splits)
    have ua: "more_used ca ca1" and ub: "more_used cb cb1" using slot_side_used(1) [OF A] slot_side_used(1) [OF B] by auto
    have k1: "keeps Q s s1" using A Cons.prems(2) True by (rule slot_side_keeps)
    have "sl_class s1 = class_diverse" using slot_side_other(2) [OF A] True by simp
    with B Cons.prems(3) have k2: "keeps Q s1 s2" by (rule slot_side_keeps)
    have "\<forall>h \<in> set (cd_hosts ca1). Q SideA h" "\<forall>h \<in> set (cd_hosts cb1). Q SideB h"
      using ua ub Cons.prems(2,3) by (auto simp: more_used_def)
    note IH = Cons.IH [OF t(1) this]
    have a2: "slot_host s2 SideA = slot_host s1 SideA" using slot_side_other(1) [OF B] by (simp add: side_simps)
    show ?thesis
      using IH t(2) keeps_trans [OF k1 k2] ua ub slot_side_used(2) [OF A] slot_side_used(2) [OF B] a2
      by (auto intro: more_used_trans)
  qed
qed simp

lemma fill_diverse_others:
  assumes "fill_diverse pickf key intra now ss ca cb = (ss', ca', cb', chg)"
  shows "filter is_anchor ss' = filter is_anchor ss"
  using assms
proof (induction ss arbitrary: ss' ca cb ca' cb' chg)
  case (Cons s ss)
  show ?case
  proof (cases "sl_class s = class_diverse")
    case False
    then obtain ts chg' where t: "fill_diverse pickf key intra now ss ca cb = (ts, ca', cb', chg')" "ss' = s # ts"
      using Cons.prems(1) by (auto split: prod.splits)
    from Cons.IH [OF t(1)] t(2) show ?thesis by simp
  next
    case True
    obtain s1 ca1 c1 where A: "fill_slot_side pickf key intra now SideA s ca = (s1, ca1, c1)" by (metis prod_cases3)
    obtain s2 cb1 c2 where B: "fill_slot_side pickf key intra now SideB s1 cb = (s2, cb1, c2)" by (metis prod_cases3)
    obtain ts chg' where t: "fill_diverse pickf key intra now ss ca1 cb1 = (ts, ca', cb', chg')" "ss' = s2 # ts"
      using Cons.prems(1) True A B by (auto split: prod.splits)
    have "sl_class s2 = class_diverse"
      using slot_side_other(2) [OF A] slot_side_other(2) [OF B] True by simp
    then have "\<not> is_anchor s2" "\<not> is_anchor s" using True by (simp_all add: is_anchor_def class_defs)
    with Cons.IH [OF t(1)] t(2) show ?thesis by simp
  qed
qed simp

lemma fill_diverse_no_self:
  assumes "fill_diverse pickf key True now ss ca cb = (ss', ca', cb', chg)"
    and "\<forall>s \<in> set ss. sl_class s = class_diverse \<longrightarrow> no_self s"
  shows "\<forall>s \<in> set ss'. sl_class s = class_diverse \<longrightarrow> no_self s"
  using assms
proof (induction ss arbitrary: ss' ca cb ca' cb' chg)
  case (Cons s ss)
  show ?case
  proof (cases "sl_class s = class_diverse")
    case False
    then obtain ts chg' where t: "fill_diverse pickf key True now ss ca cb = (ts, ca', cb', chg')" "ss' = s # ts"
      using Cons.prems(1) by (auto split: prod.splits)
    from Cons.IH [OF t(1)] Cons.prems(2) t(2) False show ?thesis by auto
  next
    case True
    obtain s1 ca1 c1 where A: "fill_slot_side pickf key True now SideA s ca = (s1, ca1, c1)" by (metis prod_cases3)
    obtain s2 cb1 c2 where B: "fill_slot_side pickf key True now SideB s1 cb = (s2, cb1, c2)" by (metis prod_cases3)
    obtain ts chg' where t: "fill_diverse pickf key True now ss ca1 cb1 = (ts, ca', cb', chg')" "ss' = s2 # ts"
      using Cons.prems(1) True A B by (auto split: prod.splits)
    have "no_self s2"
      using Cons.prems(2) True slot_side_no_self [OF A] slot_side_no_self [OF B] by simp
    with Cons.IH [OF t(1)] Cons.prems(2) t(2) show ?thesis by auto
  qed
qed simp

lemma fill_diverse_again:
  assumes "fill_diverse pickf key intra now ss ca cb = (ss', ca', cb', chg)"
    and "[] \<notin> set (cd_hosts ca)" "[] \<notin> set (cd_hosts cb)" "more_used ca' ca2" "more_used cb' cb2"
  shows "fill_diverse pickf key intra now2 ss' ca2 cb2 = (ss', ca2, cb2, [])"
  using assms
proof (induction ss arbitrary: ss' ca cb ca' cb' chg)
  case (Cons s ss)
  show ?case
  proof (cases "sl_class s = class_diverse")
    case False
    then obtain ts chg' where t: "fill_diverse pickf key intra now ss ca cb = (ts, ca', cb', chg')" "ss' = s # ts"
      using Cons.prems(1) by (auto split: prod.splits)
    from Cons.IH [OF t(1) Cons.prems(2-5)] t(2) False show ?thesis by auto
  next
    case True
    obtain s1 ca1 c1 where A: "fill_slot_side pickf key intra now SideA s ca = (s1, ca1, c1)" by (metis prod_cases3)
    obtain s2 cb1 c2 where B: "fill_slot_side pickf key intra now SideB s1 cb = (s2, cb1, c2)" by (metis prod_cases3)
    obtain ts chg' where t: "fill_diverse pickf key intra now ss ca1 cb1 = (ts, ca', cb', chg')" "ss' = s2 # ts"
      using Cons.prems(1) True A B by (auto split: prod.splits)
    have ua: "more_used ca ca1" and ub: "more_used cb cb1" using slot_side_used(1) [OF A] slot_side_used(1) [OF B] by auto
    have u': "more_used ca1 ca'" "more_used cb1 cb'"
      using fill_diverse_keeps [OF t(1), of "\<lambda>_ _. True"] by auto
    have ne: "[] \<notin> set (cd_hosts ca1)" "[] \<notin> set (cd_hosts cb1)"
      using ua ub Cons.prems(2,3) by (auto simp: more_used_def)
    have a: "slot_host s2 SideA = slot_host s1 SideA" "sl_class s2 = class_diverse"
      using slot_side_other [OF B] slot_side_other(2) [OF A] True by (auto simp: side_simps)
    have oa: "slot_host s1 SideB = slot_host s SideB" using slot_side_other(1) [OF A] by (simp add: side_simps)
    have again_a: "fill_slot_side pickf key intra now2 SideA s2 ca2 = (s2, ca2, [])"
    proof (rule slot_side_again [OF A Cons.prems(2)])
      show "more_used ca1 ca2" using u'(1) Cons.prems(4) by (rule more_used_trans)
      have "keeps (\<lambda>_ _. True) s1 s2"
        using B by (rule slot_side_keeps) (use slot_side_other(2) [OF A] True in auto)
      then show "slot_host s1 (other_side SideA) \<noteq> [] \<longrightarrow>
          slot_host s2 (other_side SideA) = slot_host s1 (other_side SideA)"
        by (simp add: keeps_host)
    qed (simp add: a)
    have again_b: "fill_slot_side pickf key intra now2 SideB s2 cb2 = (s2, cb2, [])"
    proof (rule slot_side_again [OF B Cons.prems(3)])
      show "more_used cb1 cb2" using u'(2) Cons.prems(5) by (rule more_used_trans)
    qed (simp_all add: a side_simps)
    from Cons.IH [OF t(1) ne Cons.prems(4,5)] show ?thesis
      by (simp add: t(2) a again_a again_b)
  qed
qed simp

text \<open>The anchors: a second run of one side.\<close>

lemma anchor_side_again:
  assumes "fill_anchor_side pickf key intra now sd slots c = (slots1, c1, chg)"
    and "[] \<notin> set (cd_hosts c)" "more_used c1 c2"
    and same: "map is_anchor slots2 = map is_anchor slots1"
      "map (\<lambda>s. slot_host s sd) (filter is_anchor slots2) = map (\<lambda>s. slot_host s sd) (filter is_anchor slots1)"
    and other: "list_all2 (\<lambda>s s2. is_anchor s = is_anchor s2 \<and> (is_anchor s \<and> slot_host s (other_side sd) \<noteq> [] \<longrightarrow>
          slot_host s2 (other_side sd) = slot_host s (other_side sd))) slots slots2"
    and ok: "anchors_uniform sd slots1"
  shows "fill_anchor_side pickf key intra now2 sd slots2 c2 = (slots2, c2, [])"
proof -
  have ah: "anchor_host sd slots2 = anchor_host sd slots1"
  proof -
    have "anchor_host sd ss = (case List.find (\<lambda>h. h \<noteq> []) (map (\<lambda>s. slot_host s sd) (filter is_anchor ss)) of
        None \<Rightarrow> [] | Some h \<Rightarrow> h)" for ss
      by (induction ss) (auto simp: anchor_host_def)
    with same(2) show ?thesis by simp
  qed
  have held: "\<forall>s \<in> set slots2. is_anchor s \<longrightarrow> slot_host s sd \<noteq> []" if "anchor_host sd slots1 \<noteq> []"
  proof -
    have "\<forall>h \<in> set (map (\<lambda>s. slot_host s sd) (filter is_anchor slots2)). h \<noteq> []"
      unfolding same(2) using that ok by (auto simp: anchors_uniform_def)
    then show ?thesis by auto
  qed
  show ?thesis
  proof (cases "anchor_host sd slots1 = []")
    case False
    with held ah show ?thesis by (simp add: fill_anchor_side_def set_anchors_idle)
  next
    case True
    from assms(1) show ?thesis
    proof (cases rule: anchor_side_cases)
      case (idle r)
      have "anchor_exclude intra sd slots \<subseteq> anchor_exclude intra sd slots2"
        using other by (auto simp: anchor_exclude_def list_all2_conv_all_nth in_set_conv_nth image_iff)
          metis
      from stuck [OF idle(5) assms(2) _ this] idle(2) assms(3)
      have "fst (pickf c2 (anchor_exclude intra sd slots2)) = []" by simp
      with ah True show ?thesis
        by (auto simp: fill_anchor_side_def Let_def split: prod.split)
    next
      case (set h rank why)
      define f where "f = (\<lambda>s. if is_anchor s \<and> slot_host s sd = [] then set_slot_host sd h rank now s else s)"
      have sl: "slots1 = map f slots"
        using set(1) set_anchors_slots [of key now sd h rank why slots c] by (simp add: f_def)
      have "\<not> is_anchor s" if "s \<in> set slots" for s
      proof
        assume "is_anchor s"
        then have "is_anchor (f s)" "slot_host (f s) sd \<noteq> []" using set(2) by (simp_all add: f_def side_simps)
        moreover have "f s \<in> set slots1" using that by (simp add: sl)
        ultimately show False using True by (simp add: anchor_host_empty)
      qed
      then have "\<not> (\<exists>s \<in> set slots2. is_anchor s)"
        using other by (auto simp: list_all2_conv_all_nth in_set_conv_nth) metis
      moreover from this have "anchor_exclude intra sd slots2 = {}" by (auto simp: anchor_exclude_def)
      ultimately show ?thesis
        by (auto simp: fill_anchor_side_def set_anchors_idle Let_def split: prod.split)
    qed
  qed
qed

end

section \<open>Filling one pairing\<close>

lemma anchor_host_filter: "anchor_host sd (filter is_anchor ss) = anchor_host sd ss"
proof -
  have "List.find (\<lambda>s. is_anchor s \<and> P s) (filter is_anchor ss) = List.find (\<lambda>s. is_anchor s \<and> P s) ss" for P
    by (induction ss) auto
  then show ?thesis by (simp add: anchor_host_def)
qed

lemma anchors_by_filter:
  assumes "filter is_anchor xs = filter is_anchor ys"
  shows "anchor_host sd xs = anchor_host sd ys" "anchors_ok intra xs = anchors_ok intra ys"
    "anchors_uniform sd xs = anchors_uniform sd ys"
proof -
  show h: "anchor_host sd xs = anchor_host sd ys" by (metis anchor_host_filter assms)
  have "{s \<in> set xs. is_anchor s} = {s \<in> set ys. is_anchor s}" using assms by (metis set_filter)
  then have all: "(\<forall>s \<in> set xs. is_anchor s \<longrightarrow> P s) = (\<forall>s \<in> set ys. is_anchor s \<longrightarrow> P s)" for P
    by blast
  show "anchors_ok intra xs = anchors_ok intra ys" "anchors_uniform sd xs = anchors_uniform sd ys"
    by (simp_all only: anchors_ok_def anchors_uniform_def h all)
qed

lemma count_side_use:
  "in_use (count_side sd slots c) g \<longleftrightarrow> in_use c g \<or> (g \<noteq> [] \<and> (\<exists>s \<in> set slots. slot_host s sd = g))"
  "cd_hosts (count_side sd slots c) = cd_hosts c"
  by (induction slots arbitrary: c) (auto simp: count_side_def)

definition side_zone :: "pairing_rec \<Rightarrow> side \<Rightarrow> string" where
  "side_zone p sd = (if sd = SideA then pg_zone_a p else pg_zone_b p)"

definition side_cand :: "recon_input \<Rightarrow> zindex \<Rightarrow> pairing_rec \<Rightarrow> side \<Rightarrow> candidates" where
  "side_cand inp idx p sd =
     count_side sd (pg_slots p)
       (new_candidates (side_zone p sd) (members idx (side_zone p sd)) (Some (ri_eligible inp)))"

lemma side_cand_hosts:
  "cd_hosts (side_cand inp idx p sd) = filter (ri_eligible inp) (members idx (side_zone p sd))"
proof -
  have "eligible_by (Some f) = f" for f by (rule ext) (simp add: eligible_by_def)
  then show ?thesis by (simp add: side_cand_def count_side_use new_candidates_def)
qed

lemma side_cand_use:
  "in_use (side_cand inp idx p sd) g \<longleftrightarrow> g \<noteq> [] \<and> (\<exists>s \<in> set (pg_slots p). slot_host s sd = g)"
  by (simp add: side_cand_def count_side_use) (simp add: in_use_def use_count_def new_candidates_def)

lemma fill_pairing_steps:
  assumes "pg_remove_at p = 0"
  obtains slots1 ca1 cb1 c1 slots2 ca2 cb2 c2 where
    "fill_anchors (pick_anchor k) (pg_key p) (pg_intra p) (ri_now inp) (pg_slots p)
       (side_cand inp idx p SideA) (side_cand inp idx p SideB) = (slots1, ca1, cb1, c1)"
    "fill_diverse (pick (ri_scanner inp) k) (pg_key p) (pg_intra p) (ri_now inp) slots1 ca1 cb1
       = (slots2, ca2, cb2, c2)"
    "fill_pairing inp idx k p = (p\<lparr>pg_slots := slots2\<rparr>, c1 @ c2)"
  using assms that
  by (fastforce simp: fill_pairing_def Let_def side_cand_def side_zone_def split: prod.splits)

lemma keeps_class: "list_all2 (keeps Q) xs ys \<Longrightarrow> map sl_class ys = map sl_class xs"
  by (induction rule: list_all2_induct) (auto simp: keeps_def)

lemma fill_pairing_live:
  "pg_remove_at p \<noteq> 0 \<Longrightarrow> fill_pairing inp idx k p = (p, [])"
  by (simp add: fill_pairing_def)

lemma fill_frame [simp]:
  "pg_key (fst (fill_pairing inp idx k p)) = pg_key p" "pg_zone_a (fst (fill_pairing inp idx k p)) = pg_zone_a p"
  "pg_zone_b (fst (fill_pairing inp idx k p)) = pg_zone_b p" "pg_intra (fst (fill_pairing inp idx k p)) = pg_intra p"
  "pg_remove_at (fst (fill_pairing inp idx k p)) = pg_remove_at p"
  by (simp_all add: fill_pairing_def Let_def split: prod.split)

text \<open>
  What filling a live pairing does: filled sides stay, new hosts are eligible members of the
  side's zone, the anchors of each side end up with one host, and no intra-zone slot gets one
  host on both sides.
\<close>

lemma fill_pairing_spec:
  assumes "pg_remove_at p = 0" and q: "q = fst (fill_pairing inp idx k p)"
    and Q: "\<And>sd h. h \<in> set (members idx (side_zone p sd)) \<Longrightarrow> ri_eligible inp h \<Longrightarrow> Q sd h"
    and anchors: "\<forall>s \<in> set (pg_slots p). is_anchor s \<longrightarrow> sides_ok Q s"
  shows "list_all2 (keeps Q) (pg_slots p) (pg_slots q)" and "q = p\<lparr>pg_slots := pg_slots q\<rparr>"
    and "anchors_ok (pg_intra p) (pg_slots p) \<Longrightarrow>
      anchors_ok (pg_intra p) (pg_slots q) \<and> anchors_uniform SideA (pg_slots q) \<and> anchors_uniform SideB (pg_slots q)"
    and "pg_intra p \<Longrightarrow> \<forall>s \<in> set (pg_slots p). sl_class s = class_diverse \<longrightarrow> no_self s \<Longrightarrow>
      \<forall>s \<in> set (pg_slots q). sl_class s = class_diverse \<longrightarrow> no_self s"
proof -
  have cand: "\<forall>h \<in> set (cd_hosts (side_cand inp idx p sd)). Q sd h" for sd
    using Q by (simp add: side_cand_hosts)
  obtain slots1 ca1 cb1 c1 slots2 ca2 cb2 c2 where
    st: "fill_anchors (pick_anchor k) (pg_key p) (pg_intra p) (ri_now inp) (pg_slots p)
       (side_cand inp idx p SideA) (side_cand inp idx p SideB) = (slots1, ca1, cb1, c1)"
    "fill_diverse (pick (ri_scanner inp) k) (pg_key p) (pg_intra p) (ri_now inp) slots1 ca1 cb1
       = (slots2, ca2, cb2, c2)"
    "fill_pairing inp idx k p = (p\<lparr>pg_slots := slots2\<rparr>, c1 @ c2)"
    by (rule fill_pairing_steps [OF assms(1)])
  have sq: "pg_slots q = slots2" using st(3) q by simp
  show "q = p\<lparr>pg_slots := pg_slots q\<rparr>" using st(3) q by simp
  obtain mid cA cB where A: "fill_anchor_side (pick_anchor k) (pg_key p) (pg_intra p) (ri_now inp) SideA
        (pg_slots p) (side_cand inp idx p SideA) = (mid, ca1, cA)"
    and B: "fill_anchor_side (pick_anchor k) (pg_key p) (pg_intra p) (ri_now inp) SideB mid
        (side_cand inp idx p SideB) = (slots1, cb1, cB)"
    by (rule anchor.anchors_two_steps [OF st(1)])
  have kA: "list_all2 (keeps Q) (pg_slots p) mid"
    using A anchors cand by (rule anchor.anchor_side_keeps)
  then have "\<forall>s \<in> set mid. is_anchor s \<longrightarrow> sides_ok Q s"
    using anchors by (rule list_keeps_sides_ok)
  with B have kB: "list_all2 (keeps Q) mid slots1" using cand by (rule anchor.anchor_side_keeps)
  have hosts: "cd_hosts ca1 = cd_hosts (side_cand inp idx p SideA)" "cd_hosts cb1 = cd_hosts (side_cand inp idx p SideB)"
    using anchor.anchor_side_used(1) [OF A] anchor.anchor_side_used(1) [OF B] by (simp_all add: more_used_def)
  have kD: "list_all2 (keeps Q) slots1 slots2"
    using diverse.fill_diverse_keeps [OF st(2), of Q] cand hosts by simp
  show "list_all2 (keeps Q) (pg_slots p) (pg_slots q)"
    unfolding sq using kA kB kD by (blast intro: list_keeps_trans)
  have fD: "filter is_anchor slots2 = filter is_anchor slots1" using st(2) by (rule diverse.fill_diverse_others)
  show "anchors_ok (pg_intra p) (pg_slots q) \<and> anchors_uniform SideA (pg_slots q) \<and> anchors_uniform SideB (pg_slots q)"
    if ok: "anchors_ok (pg_intra p) (pg_slots p)"
  proof -
    note okA = anchor.anchor_side_ok [OF A ok]
    note okB = anchor.anchor_side_ok [OF B okA(1)]
    have "anchors_uniform SideA slots1" using okB(4) okA(2) by (simp add: side_simps)
    with okB(1,2) show ?thesis unfolding sq anchors_by_filter [OF fD] by simp
  qed
  show "\<forall>s \<in> set (pg_slots q). sl_class s = class_diverse \<longrightarrow> no_self s"
    if intra: "pg_intra p" and ns: "\<forall>s \<in> set (pg_slots p). sl_class s = class_diverse \<longrightarrow> no_self s"
  proof -
    have same: "list_all2 (\<lambda>s s'. sl_class s' = sl_class s \<and> (\<not> is_anchor s \<longrightarrow> s' = s)) (pg_slots p) slots1"
      using anchor.anchor_side_other [OF A] anchor.anchor_side_other [OF B]
      by (auto simp: list_all2_conv_all_nth is_anchor_def)
    have "\<forall>s \<in> set slots1. sl_class s = class_diverse \<longrightarrow> no_self s"
    proof (intro ballI impI)
      fix s assume "s \<in> set slots1" "sl_class s = class_diverse"
      then obtain i where i: "i < length slots1" "slots1 ! i = s" by (auto simp: in_set_conv_nth)
      have "\<not> is_anchor (pg_slots p ! i)" "sl_class (pg_slots p ! i) = class_diverse"
        using same i \<open>sl_class s = class_diverse\<close>
        by (auto simp: list_all2_conv_all_nth is_anchor_def class_defs)
      with same i ns show "no_self s" by (auto simp: list_all2_conv_all_nth)
    qed
    with st(2) intra show ?thesis unfolding sq by (auto dest: diverse.fill_diverse_no_self)
  qed
qed

text \<open>Filling again, at any later time, changes nothing.\<close>

lemma fill_pairing_again:
  assumes "pg_remove_at p = 0" and q: "q = fst (fill_pairing inp idx k p)"
    and ne: "\<And>z. [] \<notin> set (members idx z)" and ok: "anchors_ok (pg_intra p) (pg_slots p)"
  shows "fill_pairing (inp\<lparr>ri_current := cur, ri_now := t\<rparr>) idx k q = (q, [])"
proof -
  let ?T = "\<lambda>_ _. True"
  have nec: "[] \<notin> set (cd_hosts (side_cand inp idx p sd))" for sd using ne by (simp add: side_cand_hosts)
  have ok_T: "\<forall>s \<in> set ss. is_anchor s \<longrightarrow> sides_ok ?T s" for ss by (simp add: sides_ok_def)
  obtain slots1 ca1 cb1 c1 slots2 ca2 cb2 c2 where
    st: "fill_anchors (pick_anchor k) (pg_key p) (pg_intra p) (ri_now inp) (pg_slots p)
       (side_cand inp idx p SideA) (side_cand inp idx p SideB) = (slots1, ca1, cb1, c1)"
    "fill_diverse (pick (ri_scanner inp) k) (pg_key p) (pg_intra p) (ri_now inp) slots1 ca1 cb1
       = (slots2, ca2, cb2, c2)"
    "fill_pairing inp idx k p = (p\<lparr>pg_slots := slots2\<rparr>, c1 @ c2)"
    by (rule fill_pairing_steps [OF assms(1)])
  have sq: "q = p\<lparr>pg_slots := slots2\<rparr>" using st(3) q by simp
  obtain mid cA cB where A: "fill_anchor_side (pick_anchor k) (pg_key p) (pg_intra p) (ri_now inp) SideA
        (pg_slots p) (side_cand inp idx p SideA) = (mid, ca1, cA)"
    and B: "fill_anchor_side (pick_anchor k) (pg_key p) (pg_intra p) (ri_now inp) SideB mid
        (side_cand inp idx p SideB) = (slots1, cb1, cB)"
    by (rule anchor.anchors_two_steps [OF st(1)])
  note uA = anchor.anchor_side_used [OF A] and uB = anchor.anchor_side_used [OF B]
  note okA = anchor.anchor_side_ok [OF A ok]
  note okB = anchor.anchor_side_ok [OF B okA(1)]
  note D = diverse.fill_diverse_keeps [OF st(2), of ?T]
  have kA: "list_all2 (keeps ?T) (pg_slots p) mid" and kB: "list_all2 (keeps ?T) mid slots1"
    using anchor.anchor_side_keeps [OF A ok_T] anchor.anchor_side_keeps [OF B ok_T] by auto
  have kD: "list_all2 (keeps ?T) slots1 slots2" using D by simp
  have kmid: "list_all2 (keeps ?T) mid slots2" using kB kD by (rule list_keeps_trans)
  have kall: "list_all2 (keeps ?T) (pg_slots p) slots2" using kA kmid by (rule list_keeps_trans)
  have held: "\<exists>t \<in> set ys. slot_host t sd = slot_host s sd"
    if "list_all2 (keeps ?T) xs ys" "s \<in> set xs" "slot_host s sd \<noteq> []" for xs ys s sd
    using that by (auto simp: list_all2_conv_all_nth in_set_conv_nth) (metis keeps_host nth_mem)
  have cq: "cd_hosts (side_cand inp idx q sd) = cd_hosts (side_cand inp idx p sd)" for sd
    by (simp add: side_cand_hosts sq side_zone_def)
  have useA: "more_used ca2 (side_cand inp idx q SideA)"
  proof -
    have "g \<noteq> [] \<and> (\<exists>s \<in> set slots2. slot_host s SideA = g)" if "in_use ca2 g" for g
    proof -
      have "in_use ca1 g \<or> g \<noteq> [] \<and> (\<exists>s \<in> set slots2. slot_host s SideA = g)" using D that by blast
      moreover have "in_use ca1 g \<Longrightarrow> in_use (side_cand inp idx p SideA) g \<or> g \<noteq> [] \<and> (\<exists>s \<in> set mid. slot_host s SideA = g)"
        using uA(2) by blast
      ultimately show ?thesis using held [OF kall] held [OF kmid] by (auto simp: side_cand_use)
    qed
    then show ?thesis using D uA(1) cq by (auto simp: more_used_def side_cand_use sq)
  qed
  have useB: "more_used cb2 (side_cand inp idx q SideB)"
  proof -
    have "g \<noteq> [] \<and> (\<exists>s \<in> set slots2. slot_host s SideB = g)" if "in_use cb2 g" for g
    proof -
      have "in_use cb1 g \<or> g \<noteq> [] \<and> (\<exists>s \<in> set slots2. slot_host s SideB = g)" using D that by blast
      moreover have "in_use cb1 g \<Longrightarrow> in_use (side_cand inp idx p SideB) g \<or> g \<noteq> [] \<and> (\<exists>s \<in> set slots1. slot_host s SideB = g)"
        using uB(2) by blast
      ultimately show ?thesis using held [OF kall] held [OF kD] by (auto simp: side_cand_use)
    qed
    then show ?thesis using D uB(1) cq by (auto simp: more_used_def side_cand_use sq)
  qed
  have u1: "more_used ca1 (side_cand inp idx q SideA)" "more_used cb1 (side_cand inp idx q SideB)"
    using D useA useB by (blast intro: more_used_trans)+
  have isa: "map is_anchor ys = map is_anchor xs" if "list_all2 (keeps ?T) xs ys" for xs ys
    using that by (induction rule: list_all2_induct) (auto dest: keeps_anchor)
  have fD: "filter is_anchor slots2 = filter is_anchor slots1" using st(2) by (rule diverse.fill_diverse_others)
  have hostsA: "map (\<lambda>s. slot_host s SideA) (filter is_anchor slots2) = map (\<lambda>s. slot_host s SideA) (filter is_anchor mid)"
  proof -
    have "map (\<lambda>s. slot_host s SideA) (filter is_anchor ys) = map (\<lambda>s. slot_host s SideA) (filter is_anchor xs)"
      if "list_all2 (\<lambda>s s'. sl_class s' = sl_class s \<and> slot_host s' SideA = slot_host s SideA
            \<and> (\<not> is_anchor s \<longrightarrow> s' = s)) xs ys" for xs ys
      using that by (induction rule: list_all2_induct) (auto simp: is_anchor_def)
    from this [of mid slots1] anchor.anchor_side_other [OF B] show ?thesis by (simp add: fD side_simps)
  qed
  have persist: "list_all2 (\<lambda>s s2. is_anchor s = is_anchor s2 \<and> (is_anchor s \<and> slot_host s sd \<noteq> [] \<longrightarrow>
          slot_host s2 sd = slot_host s sd)) xs ys" if "list_all2 (keeps ?T) xs ys" for xs ys sd
    using that by (rule list_all2_mono) (auto simp: keeps_def is_anchor_def)
  have a1: "fill_anchor_side (pick_anchor k) (pg_key p) (pg_intra p) t SideA slots2
      (side_cand inp idx q SideA) = (slots2, side_cand inp idx q SideA, [])"
    by (rule anchor.anchor_side_again [OF A nec u1(1) isa [OF kmid] hostsA persist [OF kall] okA(2)])
  have a2: "fill_anchor_side (pick_anchor k) (pg_key p) (pg_intra p) t SideB slots2
      (side_cand inp idx q SideB) = (slots2, side_cand inp idx q SideB, [])"
    by (rule anchor.anchor_side_again [OF B nec u1(2) isa [OF kD] _ persist [OF kmid] okB(2)]) (simp add: fD)
  have ne1: "[] \<notin> set (cd_hosts ca1)" "[] \<notin> set (cd_hosts cb1)"
    using nec uA(1) uB(1) by (auto simp: more_used_def)
  have a3: "fill_diverse (pick (ri_scanner inp) k) (pg_key p) (pg_intra p) t slots2
      (side_cand inp idx q SideA) (side_cand inp idx q SideB)
      = (slots2, side_cand inp idx q SideA, side_cand inp idx q SideB, [])"
    by (rule diverse.fill_diverse_again [OF st(2) ne1 useA useB])
  show ?thesis
    using assms(1) anchor.anchors_two_steps_eq [OF a1 a2] a3
    by (simp add: fill_pairing_def Let_def sq side_cand_def side_zone_def)
qed

end
