(* ===== verification/TableStages.thy ===== *)
theory TableStages
  imports Stages
begin

text \<open>
  The stages of a reconcile that rearrange or clear slots, on one pairing: resizing to the layout,
  validation of the sides, and the super stage. For each: what it does to the host of a side,
  that it keeps the pairing invariant, and when it changes nothing.
\<close>

section \<open>The pairing invariant\<close>

definition pairing_inv :: "pairing_rec \<Rightarrow> bool" where
  "pairing_inv p \<longleftrightarrow>
     anchors_ok (pg_intra p) (pg_slots p)
     \<and> (pg_intra p \<longrightarrow> (\<forall>s \<in> set (pg_slots p). sl_class s = class_diverse \<longrightarrow> no_self s))"

lemma anchors_okI:
  assumes "anchors_ok intra xs"
    and "\<And>s sd. s \<in> set ys \<Longrightarrow> is_anchor s \<Longrightarrow> slot_host s sd \<noteq> [] \<Longrightarrow>
      \<exists>t \<in> set xs. is_anchor t \<and> slot_host t sd = slot_host s sd"
  shows "anchors_ok intra ys"
proof -
  obtain w where w: "\<forall>s \<in> set xs. is_anchor s \<longrightarrow> (\<forall>sd. slot_host s sd = [] \<or> slot_host s sd = w sd)"
    "intra \<longrightarrow> w SideA = w SideB \<longrightarrow> w SideA = []"
    using assms(1) by (auto simp: anchors_ok_def)
  have "slot_host s sd = [] \<or> slot_host s sd = w sd" if "s \<in> set ys" "is_anchor s" for s sd
    using assms(2) [OF that, of sd] w(1) by metis
  with w(2) show ?thesis by (auto simp: anchors_ok_def)
qed

lemma pairing_invI:
  assumes "pairing_inv p" "pg_intra q = pg_intra p"
    and "\<And>s. s \<in> set (pg_slots q) \<Longrightarrow> is_anchor s \<or> sl_class s = class_diverse \<Longrightarrow>
      (\<forall>sd. slot_host s sd = []) \<or>
      (\<exists>t \<in> set (pg_slots p). sl_class t = sl_class s \<and> (\<forall>sd. slot_host s sd = [] \<or> slot_host s sd = slot_host t sd))"
  shows "pairing_inv q"
proof -
  have "anchors_ok (pg_intra p) (pg_slots q)"
  proof (rule anchors_okI)
    show "anchors_ok (pg_intra p) (pg_slots p)" using assms(1) by (simp add: pairing_inv_def)
    show "\<exists>t \<in> set (pg_slots p). is_anchor t \<and> slot_host t sd = slot_host s sd"
      if "s \<in> set (pg_slots q)" "is_anchor s" "slot_host s sd \<noteq> []" for s sd
      using assms(3) [OF that(1)] that(2,3) unfolding is_anchor_def by metis
  qed
  moreover have "no_self s" if "pg_intra p" "s \<in> set (pg_slots q)" "sl_class s = class_diverse" for s
  proof (cases "\<forall>sd. slot_host s sd = []")
    case False
    with assms(3) [OF that(2)] that(3) obtain t where t: "t \<in> set (pg_slots p)" "sl_class t = class_diverse"
      "\<forall>sd. slot_host s sd = [] \<or> slot_host s sd = slot_host t sd" by auto
    then have "no_self t" using assms(1) that(1) by (simp add: pairing_inv_def)
    with t(3) show ?thesis unfolding no_self_def by metis
  qed (simp add: no_self_def)
  ultimately show ?thesis by (simp add: pairing_inv_def assms(2))
qed

section \<open>Resizing\<close>

lemma idle_pairs: "map fst (map (\<lambda>s. (s, [])) xs) = xs" "concat (map snd (map (\<lambda>s. (s, [])) xs)) = []"
  by (simp_all add: comp_def)

lemma reclass_simps:
  "sl_class (fst (reclass_slot key l i s)) = class_at l i"
  "sl_index (fst (reclass_slot key l i s)) = i"
  "slot_host (fst (reclass_slot key l i s)) sd = (if sl_class s = class_at l i then slot_host s sd else [])"
  "sl_class s = class_at l i \<Longrightarrow> reclass_slot key l i s = (s\<lparr>sl_index := i\<rparr>, [])"
  by (simp_all add: reclass_slot_def Let_def slot_host_def)

lemma class_at_not_super: "class_at l i \<noteq> class_super"
  by (simp add: class_at_def class_defs)

lemma resize_frame [simp]:
  "pg_key (fst (resize_slots l p)) = pg_key p" "pg_zone_a (fst (resize_slots l p)) = pg_zone_a p"
  "pg_zone_b (fst (resize_slots l p)) = pg_zone_b p" "pg_intra (fst (resize_slots l p)) = pg_intra p"
  "pg_remove_at (fst (resize_slots l p)) = pg_remove_at p"
  by (simp_all add: resize_slots_def Let_def)

definition base_slots :: "pairing_rec \<Rightarrow> slot_rec list" where
  "base_slots p = filter (\<lambda>s. sl_class s \<noteq> class_super) (pg_slots p)"

definition padded :: "layout \<Rightarrow> pairing_rec \<Rightarrow> slot_rec list" where
  "padded l p = take (nat (ly_total l))
     (base_slots p @ map (\<lambda>i. blank_slot (int i)) [length (base_slots p)..<nat (ly_total l)])"

lemma length_padded [simp]: "length (padded l p) = nat (ly_total l)"
  by (simp add: padded_def)

lemma resize_slots_eq:
  "pg_slots (fst (resize_slots l p)) =
     map (\<lambda>(i, s). fst (reclass_slot (pg_key p) l (int i) s)) (enumerate 0 (padded l p))
     @ filter (\<lambda>s. sl_class s = class_super) (pg_slots p)"
  by (simp add: resize_slots_def Let_def padded_def base_slots_def split_beta comp_def)

lemma resize_nth:
  assumes "i < nat (ly_total l)"
  shows "pg_slots (fst (resize_slots l p)) ! i = fst (reclass_slot (pg_key p) l (int i) (padded l p ! i))"
  using assms by (simp add: resize_slots_eq nth_append nth_enumerate_eq)

definition laid_out :: "layout \<Rightarrow> slot_rec list \<Rightarrow> bool" where
  "laid_out l slots \<longleftrightarrow>
     nat (ly_total l) \<le> length slots
     \<and> (\<forall>i < nat (ly_total l). sl_class (slots ! i) = class_at l (int i) \<and> sl_index (slots ! i) = int i)
     \<and> (\<forall>s \<in> set (drop (nat (ly_total l)) slots). sl_class s = class_super)"

lemma resize_laid_out: "laid_out l (pg_slots (fst (resize_slots l p)))"
proof -
  let ?q = "pg_slots (fst (resize_slots l p))"
  have "drop (nat (ly_total l)) ?q = filter (\<lambda>s. sl_class s = class_super) (pg_slots p)"
    by (simp add: resize_slots_eq)
  moreover have "nat (ly_total l) \<le> length ?q" by (simp add: resize_slots_eq)
  ultimately show ?thesis by (auto simp: laid_out_def resize_nth reclass_simps)
qed

lemma laid_out_base:
  assumes "laid_out l slots"
  shows "filter (\<lambda>s. sl_class s \<noteq> class_super) slots = take (nat (ly_total l)) slots"
proof -
  let ?n = "nat (ly_total l)"
  have "sl_class s \<noteq> class_super" if "s \<in> set (take ?n slots)" for s
    using assms that by (auto simp: laid_out_def in_set_conv_nth class_at_not_super)
  then have "filter (\<lambda>s. sl_class s \<noteq> class_super) (take ?n slots @ drop ?n slots) = take ?n slots @ []"
    unfolding filter_append using assms
    by (intro arg_cong2 [where f = append]) (auto simp: filter_id_conv filter_empty_conv laid_out_def)
  then show ?thesis by simp
qed

lemma resize_same:
  assumes "i < length (base_slots p)" "i < nat (ly_total l)"
    and "sl_class (base_slots p ! i) = class_at l (int i)"
  shows "pg_slots (fst (resize_slots l p)) ! i = (base_slots p ! i)\<lparr>sl_index := int i\<rparr>"
proof -
  have "padded l p ! i = base_slots p ! i" using assms(1,2) by (simp add: padded_def nth_append)
  with assms show ?thesis by (simp add: resize_nth reclass_simps)
qed

lemma resize_idle:
  assumes "laid_out l (pg_slots p)" and "\<forall>s \<in> set (pg_slots p). sl_class s \<noteq> class_super"
  shows "resize_slots l p = (p, [])"
proof -
  let ?n = "nat (ly_total l)"
  have base: "base_slots p = pg_slots p" using assms(2) by (simp add: base_slots_def filter_id_conv)
  have "take ?n (pg_slots p) = pg_slots p"
    using laid_out_base [OF assms(1)] base by (simp add: base_slots_def)
  then have len: "length (pg_slots p) = ?n"
    using assms(1) by (metis laid_out_def le_antisym length_take min.cobounded2 min_def)
  have rec: "map (\<lambda>(i, s). reclass_slot (pg_key p) l (int i) s) (enumerate 0 (pg_slots p))
      = map (\<lambda>s. (s, [])) (pg_slots p)"
  proof (rule nth_equalityI)
    fix i assume "i < length (map (\<lambda>(i, s). reclass_slot (pg_key p) l (int i) s) (enumerate 0 (pg_slots p)))"
    then have i: "i < length (pg_slots p)" by simp
    then have "sl_class (pg_slots p ! i) = class_at l (int i)" "sl_index (pg_slots p ! i) = int i"
      using assms(1) len by (auto simp: laid_out_def)
    then show "map (\<lambda>(i, s). reclass_slot (pg_key p) l (int i) s) (enumerate 0 (pg_slots p)) ! i
        = map (\<lambda>s. (s, [])) (pg_slots p) ! i"
      using i by (simp add: nth_enumerate_eq reclass_simps)
  qed simp
  have supers: "filter (\<lambda>s. sl_class s = class_super) (pg_slots p) = []"
    using assms(2) by (auto simp: filter_empty_conv)
  show ?thesis
    using base len unfolding resize_slots_def Let_def base_slots_def
    by (simp add: rec supers idle_pairs del: map_map)
qed

lemma resize_inv: "pairing_inv p \<Longrightarrow> pairing_inv (fst (resize_slots l p))"
proof (erule pairing_invI)
  fix s assume s: "s \<in> set (pg_slots (fst (resize_slots l p)))" "is_anchor s \<or> sl_class s = class_diverse"
  from s(2) have "sl_class s \<noteq> class_super" by (auto simp: is_anchor_def class_defs)
  with s(1) obtain i where i: "i < nat (ly_total l)" "s = fst (reclass_slot (pg_key p) l (int i) (padded l p ! i))"
    by (auto simp: resize_slots_eq in_set_enumerate_eq)
  let ?t = "padded l p ! i"
  have "?t \<in> set (padded l p)" using i(1) by simp
  then have "?t \<in> set (pg_slots p) \<or> (\<exists>j. ?t = blank_slot j)"
    by (auto simp: padded_def base_slots_def dest!: in_set_takeD)
  then show "(\<forall>sd. slot_host s sd = []) \<or>
      (\<exists>t \<in> set (pg_slots p). sl_class t = sl_class s \<and> (\<forall>sd. slot_host s sd = [] \<or> slot_host s sd = slot_host t sd))"
    unfolding i(2) reclass_simps
    by (auto simp: blank_slot_def slot_host_def)
qed simp

section \<open>Validation\<close>

definition valid_side :: "recon_input \<Rightarrow> zindex \<Rightarrow> pairing_rec \<Rightarrow> side \<Rightarrow> string \<Rightarrow> bool" where
  "valid_side inp idx p sd h \<longleftrightarrow> side_reason inp idx (side_zone p sd) h = None"

lemma valid_side_iff:
  "valid_side inp idx p sd h \<longleftrightarrow>
     host_present (ri_snapshot inp) h \<and> ri_eligible inp h \<and> zone_of idx h = Some (side_zone p sd)"
  by (simp add: valid_side_def side_reason_def)

lemma check_side_simps:
  "slot_host (fst (check_side inp idx p sd z s)) sd' =
     (if sd' = sd \<and> slot_host s sd \<noteq> [] \<and> side_reason inp idx z (slot_host s sd) \<noteq> None then []
      else slot_host s sd')"
  "slot_rank (fst (check_side inp idx p sd z s)) sd' =
     (if sd' = sd \<and> slot_host s sd \<noteq> [] \<and> side_reason inp idx z (slot_host s sd) \<noteq> None then rank_unfilled
      else slot_rank s sd')"
  "sl_class (fst (check_side inp idx p sd z s)) = sl_class s"
  "sl_index (fst (check_side inp idx p sd z s)) = sl_index s"
  by (auto simp: check_side_def Let_def side_simps split: option.split)

lemma check_side_idle:
  "slot_host s sd = [] \<or> side_reason inp idx z (slot_host s sd) = None \<Longrightarrow>
     check_side inp idx p sd z s = (s, [])"
  by (auto simp: check_side_def Let_def)

text \<open>Each side is judged alone: clearing one never touches the other.\<close>

lemma validate_slot_simps:
  "slot_host (fst (validate_slot inp idx p s)) sd =
     (if slot_host s sd = [] \<or> valid_side inp idx p sd (slot_host s sd) then slot_host s sd else [])"
  "slot_host s sd = [] \<or> valid_side inp idx p sd (slot_host s sd) \<Longrightarrow>
     slot_rank (fst (validate_slot inp idx p s)) sd = slot_rank s sd"
  "sl_class (fst (validate_slot inp idx p s)) = sl_class s"
  "sl_index (fst (validate_slot inp idx p s)) = sl_index s"
  by (cases sd; auto simp: validate_slot_def split_beta check_side_simps valid_side_def side_zone_def)+

lemma validate_slot_idle:
  "sides_ok (valid_side inp idx p) s \<Longrightarrow> validate_slot inp idx p s = (s, [])"
proof -
  assume ok: "sides_ok (valid_side inp idx p) s"
  have "check_side inp idx p SideA (pg_zone_a p) s = (s, [])" "check_side inp idx p SideB (pg_zone_b p) s = (s, [])"
    using ok by (auto simp: sides_ok_def valid_side_def side_zone_def side_cases intro!: check_side_idle)
  then show ?thesis by (simp add: validate_slot_def)
qed

lemma validate_frame [simp]:
  "pg_key (fst (validate_pairing inp idx p)) = pg_key p" "pg_zone_a (fst (validate_pairing inp idx p)) = pg_zone_a p"
  "pg_zone_b (fst (validate_pairing inp idx p)) = pg_zone_b p" "pg_intra (fst (validate_pairing inp idx p)) = pg_intra p"
  "pg_remove_at (fst (validate_pairing inp idx p)) = pg_remove_at p"
  by (simp_all add: validate_pairing_def Let_def)

lemma validate_side_zone [simp]: "side_zone (fst (validate_pairing inp idx p)) = side_zone p"
  by (rule ext) (simp add: side_zone_def)

lemma validate_slots:
  "pg_remove_at p = 0 \<Longrightarrow>
     pg_slots (fst (validate_pairing inp idx p)) = map (\<lambda>s. fst (validate_slot inp idx p s)) (pg_slots p)"
  by (simp add: validate_pairing_def Let_def comp_def)

lemma validate_sides_ok:
  assumes "pg_remove_at p = 0" "s \<in> set (pg_slots (fst (validate_pairing inp idx p)))"
  shows "sides_ok (valid_side inp idx p) s"
  using assms by (auto simp: validate_slots sides_ok_def validate_slot_simps)

lemma validate_idle:
  assumes "pg_remove_at p \<noteq> 0 \<or> (\<forall>s \<in> set (pg_slots p). sides_ok (valid_side inp idx p) s)"
  shows "validate_pairing inp idx p = (p, [])"
proof (cases "pg_remove_at p = 0")
  case True
  with assms have "map (validate_slot inp idx p) (pg_slots p) = map (\<lambda>s. (s, [])) (pg_slots p)"
    by (auto simp: validate_slot_idle)
  then show ?thesis by (simp add: validate_pairing_def Let_def idle_pairs del: map_map map_eq_conv)
qed (simp add: validate_pairing_def)

lemma validate_inv: "pairing_inv p \<Longrightarrow> pairing_inv (fst (validate_pairing inp idx p))"
proof (cases "pg_remove_at p = 0")
  case True
  assume "pairing_inv p"
  then show ?thesis
  proof (rule pairing_invI)
    fix s assume "s \<in> set (pg_slots (fst (validate_pairing inp idx p)))"
    then obtain t where t: "t \<in> set (pg_slots p)" "s = fst (validate_slot inp idx p t)"
      by (auto simp: validate_slots [OF True])
    then have "sl_class t = sl_class s \<and> (\<forall>sd. slot_host s sd = [] \<or> slot_host s sd = slot_host t sd)"
      by (simp add: validate_slot_simps)
    with t(1) show "(\<forall>sd. slot_host s sd = []) \<or> (\<exists>t \<in> set (pg_slots p). sl_class t = sl_class s
        \<and> (\<forall>sd. slot_host s sd = [] \<or> slot_host s sd = slot_host t sd))" by blast
  qed simp
qed (simp add: validate_pairing_def)

lemma validate_laid_out:
  assumes "laid_out l (pg_slots p)"
  shows "laid_out l (pg_slots (fst (validate_pairing inp idx p)))"
proof (cases "pg_remove_at p = 0")
  case True
  with assms show ?thesis
    by (auto simp: laid_out_def validate_slots validate_slot_simps drop_map)
qed (use assms in \<open>simp add: validate_pairing_def\<close>)

section \<open>The super stage\<close>

definition super_stage ::
  "recon_input \<Rightarrow> zindex \<Rightarrow> (string, string list) gomap \<Rightarrow> pairing_rec \<Rightarrow> pairing_rec \<times> side_change list" where
  "super_stage inp idx sp p =
     (if sc_super_hosts (cf_slots (ri_config inp)) \<le> 0 then drop_super p
      else rebuild_super inp idx sp p)"

lemma super_stage_form: "\<exists>sl. fst (super_stage inp idx sp p) = p\<lparr>pg_slots := sl\<rparr>"
proof (cases "sc_super_hosts (cf_slots (ri_config inp)) \<le> 0")
  case True
  then show ?thesis by (auto simp: super_stage_def drop_super_def)
next
  case False
  show ?thesis
  proof (cases "pg_remove_at p = 0")
    case True
    with False show ?thesis
      unfolding super_stage_def rebuild_super_def Let_def by (simp only: is_zero_iff simp_thms not_True_eq_False if_False fst_conv) (rule exI, rule refl)
  next
    case dead: False
    with False show ?thesis
      by (intro exI [of _ "pg_slots p"]) (simp add: super_stage_def rebuild_super_def)
  qed
qed

lemma super_stage_frame [simp]:
  "pg_key (fst (super_stage inp idx sp p)) = pg_key p" "pg_zone_a (fst (super_stage inp idx sp p)) = pg_zone_a p"
  "pg_zone_b (fst (super_stage inp idx sp p)) = pg_zone_b p" "pg_intra (fst (super_stage inp idx sp p)) = pg_intra p"
  "pg_remove_at (fst (super_stage inp idx sp p)) = pg_remove_at p"
  using super_stage_form [of inp idx sp p] by auto

lemma super_stage_zone [simp]: "side_zone (fst (super_stage inp idx sp p)) = side_zone p"
  by (rule ext) (simp add: side_zone_def)

lemma existing_super:
  "map_of (fold (\<lambda>s m. if sl_class s = class_super then AList.update (f s) s m else m) ss m) k = Some s \<Longrightarrow>
     (map_of m k = Some s \<or> sl_class s = class_super)"
  by (induction ss arbitrary: m) (fastforce simp: update_conv split: if_splits)+

lemma super_slot_class:
  assumes "ex = fold (\<lambda>s m. if sl_class s = class_super then AList.update (f s) s m else m) ss []"
  shows "sl_class (fst (super_slot inp key ex i w)) = class_super"
proof -
  have "sl_class s = class_super" if "map_of ex k = Some s" for k s
    using existing_super [of f ss "[]" k s] that by (simp add: assms)
  then show ?thesis by (auto simp: super_slot_def side_simps split: prod.split option.split)
qed

text \<open>The first slots, which are not super slots, are untouched and the others are super slots.\<close>

lemma super_stage_slots:
  assumes "laid_out (compute_layout (cf_slots (ri_config inp))) (pg_slots p)"
  obtains tl where "pg_slots (fst (super_stage inp idx sp p))
      = take (nat (ly_total (compute_layout (cf_slots (ri_config inp))))) (pg_slots p) @ tl"
    and "\<forall>s \<in> set tl. sl_class s = class_super"
    and "sc_super_hosts (cf_slots (ri_config inp)) \<le> 0 \<Longrightarrow> tl = []"
proof -
  let ?n = "nat (ly_total (compute_layout (cf_slots (ri_config inp))))"
  note base = laid_out_base [OF assms]
  consider "sc_super_hosts (cf_slots (ri_config inp)) \<le> 0"
    | "\<not> sc_super_hosts (cf_slots (ri_config inp)) \<le> 0" "pg_remove_at p \<noteq> 0"
    | "\<not> sc_super_hosts (cf_slots (ri_config inp)) \<le> 0" "pg_remove_at p = 0" by blast
  then show thesis
  proof cases
    case 1
    with base show thesis by (intro that [of "[]"]) (auto simp: super_stage_def drop_super_def)
  next
    case 2
    with assms show thesis
      by (intro that [of "drop ?n (pg_slots p)"]) (auto simp: super_stage_def rebuild_super_def laid_out_def)
  next
    case 3
    define ex where "ex = fold (\<lambda>s m. if sl_class s = class_super
        then AList.update (super_key (sl_host_a s) (sl_super_target s)) s m else m) (drop ?n (pg_slots p)) []"
    let ?w = "super_pairs inp idx sp (sc_super_max_targets (cf_slots (ri_config inp))) p"
    let ?tl = "map (\<lambda>(i, w). fst (super_slot inp (pg_key p) ex (int i) w)) (enumerate ?n ?w)"
    have "sl_class s = class_super" if "s \<in> set ?tl" for s
    proof -
      from that obtain i w where "s = fst (super_slot inp (pg_key p) ex (int i) w)" by auto
      then show ?thesis using super_slot_class [OF ex_def] by simp
    qed
    moreover have "pg_slots (fst (super_stage inp idx sp p)) = take ?n (pg_slots p) @ ?tl"
      using 3 by (simp add: super_stage_def rebuild_super_def Let_def split_beta comp_def ex_def)
    ultimately show thesis using 3(1) by (intro that [of ?tl]) auto
  qed
qed

lemma super_stage_laid_out:
  assumes "laid_out (compute_layout (cf_slots (ri_config inp))) (pg_slots p)"
  shows "laid_out (compute_layout (cf_slots (ri_config inp))) (pg_slots (fst (super_stage inp idx sp p)))"
proof -
  obtain tl where "pg_slots (fst (super_stage inp idx sp p))
      = take (nat (ly_total (compute_layout (cf_slots (ri_config inp))))) (pg_slots p) @ tl"
    "\<forall>s \<in> set tl. sl_class s = class_super" by (rule super_stage_slots [OF assms])
  with assms show ?thesis by (auto simp: laid_out_def nth_append)
qed

text \<open>Whatever the layout of the table, no anchor or diverse slot is created or changed.\<close>

lemma super_stage_old:
  assumes "s \<in> set (pg_slots (fst (super_stage inp idx sp p)))" "sl_class s \<noteq> class_super"
  shows "s \<in> set (pg_slots p)"
proof (cases "sc_super_hosts (cf_slots (ri_config inp)) \<le> 0 \<or> pg_remove_at p \<noteq> 0")
  case True
  with assms show ?thesis by (auto simp: super_stage_def drop_super_def rebuild_super_def split: if_splits)
next
  case False
  let ?n = "nat (ly_total (compute_layout (cf_slots (ri_config inp))))"
  define ex where "ex = fold (\<lambda>s m. if sl_class s = class_super
      then AList.update (super_key (sl_host_a s) (sl_super_target s)) s m else m) (drop ?n (pg_slots p)) []"
  have "sl_class (fst (super_slot inp (pg_key p) ex (int i) w)) = class_super" for i w
    using super_slot_class [OF ex_def] by simp
  with False assms have "s \<in> set (take ?n (pg_slots p))"
    by (auto simp: super_stage_def rebuild_super_def Let_def split_beta ex_def)
  then show ?thesis by (rule in_set_takeD)
qed

lemma super_stage_inv: "pairing_inv p \<Longrightarrow> pairing_inv (fst (super_stage inp idx sp p))"
  by (erule pairing_invI) (auto simp: is_anchor_def class_defs dest!: super_stage_old)

lemma drop_super_idle:
  "(\<forall>s \<in> set (pg_slots p). sl_class s \<noteq> class_super) \<Longrightarrow> drop_super p = (p, [])"
  by (simp add: drop_super_def filter_id_conv filter_empty_conv)

lemma drop_super_none: "s \<in> set (pg_slots (fst (drop_super p))) \<Longrightarrow> sl_class s \<noteq> class_super"
  by (simp add: drop_super_def)

lemma fill_inv: "pairing_inv p \<Longrightarrow> pairing_inv (fst (fill_pairing inp idx k p))"
proof (cases "pg_remove_at p = 0")
  case True
  assume inv: "pairing_inv p"
  note spec = fill_pairing_spec [OF True refl, of idx inp "\<lambda>_ _. True" k]
  have "\<forall>s \<in> set (pg_slots p). is_anchor s \<longrightarrow> sides_ok (\<lambda>_ _. True) s" by (simp add: sides_ok_def)
  with spec inv show ?thesis by (simp add: pairing_inv_def)
qed (simp add: fill_pairing_live)

end
