(* ===== verification/ReconcileProps.thy ===== *)
theory ReconcileProps
  imports TableStages
begin

text \<open>
  What the reconcile function satisfies. A lookup lemma first reduces the whole run to one
  pairing at a time; the properties are then about the stages on one pairing: every side that
  is filled afterwards is valid, a valid side is never touched, anchors agree, an intra-zone slot
  never holds one host twice, a second run changes nothing, and the iteration order of the
  pairing map does not matter.
\<close>

section \<open>One pairing at a time\<close>

lemma map_of_each [simp]:
  "map_of (each_pairing f ps) k = map_option (\<lambda>p. fst (f k p)) (map_of ps k)"
  by (simp add: each_pairing_def map_of_map_val)

lemma gm_wf_each [simp]: "gm_wf (each_pairing f ps) = gm_wf ps"
  by (simp add: each_pairing_def)

definition want_next :: "layout \<Rightarrow> pairing \<Rightarrow> pairing_rec option \<Rightarrow> pairing_rec \<times> side_change list" where
  "want_next l p cur =
     resize_slots l ((case cur of None \<Rightarrow> new_pairing p | Some c \<Rightarrow> c)\<lparr>pg_remove_at := 0\<rparr>)"

lemma want_pairing_eq:
  "want_pairing l p (ps, added, chg) =
     (AList.update (pa_key p) (fst (want_next l p (map_of ps (pa_key p)))) ps,
      added @ (if map_of ps (pa_key p) = None then [pa_key p] else []),
      chg @ snd (want_next l p (map_of ps (pa_key p))))"
  by (simp add: want_pairing_def want_next_def Let_def split: option.split prod.split)

lemma fold_want_lookup:
  assumes "distinct (map pa_key want)"
  shows "map_of (fst (fold (want_pairing l) want (ps, added, chg))) k =
     (case List.find (\<lambda>p. pa_key p = k) want of
        None \<Rightarrow> map_of ps k | Some p \<Rightarrow> Some (fst (want_next l p (map_of ps k))))"
  using assms
proof (induction want arbitrary: ps added chg)
  case (Cons p want)
  have "List.find (\<lambda>p. pa_key p = k) want = None" if "pa_key p = k"
    using Cons.prems that by (auto simp: find_key_None_iff)
  with Cons show ?case by (auto simp: want_pairing_eq update_conv split: option.split)
qed simp

lemma fold_want_wf: "gm_wf ps \<Longrightarrow> gm_wf (fst (fold (want_pairing l) want (ps, added, chg)))"
  by (induction want arbitrary: ps added chg) (auto simp: want_pairing_eq gm_wf_update)

lemma expire_wf: "gm_wf ps \<Longrightarrow> gm_wf (fst (expire_pairings now hold w ps))"
proof -
  have "map fst (List.map_filter (\<lambda>(k, p). map_option (Pair k) (expire_pairing now hold w k p)) ps)
      = map fst (filter (\<lambda>(k, p). expire_pairing now hold w k p \<noteq> None) ps)"
    by (induction ps) (auto simp: map_filter_simps split: option.split)
  then show "gm_wf ps \<Longrightarrow> ?thesis"
    using gm_wf_filter [of ps] by (simp add: expire_pairings_def gm_wf_def)
qed

lemma expire_lookup:
  "gm_wf ps \<Longrightarrow> map_of (fst (expire_pairings now hold w ps)) k
     = Option.bind (map_of ps k) (expire_pairing now hold w k)"
proof (induction ps)
  case (Cons e ps)
  obtain k' p where e: "e = (k', p)" by (cases e)
  have "map_of ps k = None" if "k' = k"
    using Cons.prems that by (simp add: e gm_wf_Cons map_of_eq_None_iff)
  with Cons show ?case
    by (cases "expire_pairing now hold w k' p")
      (auto simp: e expire_pairings_def map_filter_simps gm_wf_Cons)
qed (simp add: expire_pairings_def map_filter_simps)

text \<open>The stages after the diff, on one pairing.\<close>

definition settle ::
  "recon_input \<Rightarrow> zindex \<Rightarrow> (string, string list) gomap \<Rightarrow> string \<Rightarrow> pairing_rec \<Rightarrow> pairing_rec" where
  "settle inp idx sp k p =
     fst (fill_pairing inp idx k (fst (super_stage inp idx sp (fst (validate_pairing inp idx p)))))"

definition next_pairing ::
  "recon_input \<Rightarrow> zindex \<Rightarrow> (string, string list) gomap \<Rightarrow> pairing list \<Rightarrow> string
     \<Rightarrow> pairing_rec option \<Rightarrow> pairing_rec option" where
  "next_pairing inp idx sp want k cur =
     map_option (settle inp idx sp k)
       (case List.find (\<lambda>p. pa_key p = k) want of
          Some p \<Rightarrow> Some (fst (want_next (compute_layout (cf_slots (ri_config inp))) p cur))
        | None \<Rightarrow> Option.bind cur (expire_pairing (ri_now inp)
            (he_pairing_removal_hold (cf_health (ri_config inp))) (\<lambda>_. False) k))"

definition next_super :: "recon_input \<Rightarrow> zindex \<Rightarrow> (string, string list) gomap \<Rightarrow> (string, string list) gomap" where
  "next_super inp idx sp =
     (if sc_super_hosts (cf_slots (ri_config inp)) \<le> 0 then [] else fst (super_hosts_next inp idx sp))"

lemma update_super_eq:
  "update_super inp idx ps sp =
     (each_pairing (\<lambda>_. super_stage inp idx (next_super inp idx sp)) ps, next_super inp idx sp,
      if sc_super_hosts (cf_slots (ri_config inp)) \<le> 0 then map fst sp
      else snd (super_hosts_next inp idx sp),
      each_changes (\<lambda>_. super_stage inp idx (next_super inp idx sp)) ps)"
proof -
  have "super_stage inp idx s =
      (if sc_super_hosts (cf_slots (ri_config inp)) \<le> 0 then drop_super else rebuild_super inp idx s)"
    for s by (rule ext) (simp add: super_stage_def)
  then show ?thesis by (simp add: update_super_def next_super_def split_beta)
qed

lemma diff_pairings_eq:
  "diff_pairings inp want ps =
     (let l = compute_layout (cf_slots (ri_config inp));
          w = fold (want_pairing l) want (ps, [], []);
          e = expire_pairings (ri_now inp) (he_pairing_removal_hold (cf_health (ri_config inp)))
                (\<lambda>k. k \<in> pa_key ` set want) (fst w)
      in (fst e, fst (snd w), snd e, snd (snd w)))"
  by (simp add: diff_pairings_def Let_def split_beta)

definition eff_input :: "time \<Rightarrow> recon_input \<Rightarrow> recon_input" where
  "eff_input start inp = (if is_zero (ri_now inp) then inp\<lparr>ri_now := start\<rparr> else inp)"

lemma eff_input_simps [simp]:
  "ri_snapshot (eff_input start inp) = ri_snapshot inp" "ri_config (eff_input start inp) = ri_config inp"
  "ri_rule (eff_input start inp) = ri_rule inp" "ri_filter (eff_input start inp) = ri_filter inp"
  "ri_scanner (eff_input start inp) = ri_scanner inp" "ri_eligible (eff_input start inp) = ri_eligible inp"
  "ri_current (eff_input start inp) = ri_current inp" "start_state (eff_input start inp) = start_state inp"
  "0 < ri_now inp \<Longrightarrow> eff_input start inp = inp"
  by (simp_all add: eff_input_def start_state_def)

lemma reconcile_eqs:
  assumes "reconcile start el inp = Inr out"
  defines "e \<equiv> eff_input start inp" and "idx \<equiv> zone_build (ri_rule inp) (ri_snapshot inp)"
  obtains want where
    "pairing_build idx (cf_pairings (ri_config inp)) (ri_filter inp) = Inr want"
    and "ro_index out = idx"
    and "ms_pairings (ro_state out)
      = each_pairing (fill_pairing e idx)
         (each_pairing (\<lambda>_. super_stage e idx (ms_super (ro_state out)))
           (each_pairing (\<lambda>_. validate_pairing e idx)
             (fst (diff_pairings e want (ms_pairings (start_state inp))))))"
    and "ms_super (ro_state out) = next_super e idx (ms_super (start_state inp))"
    and "ro_state out = (start_state inp)\<lparr>ms_pairings := ms_pairings (ro_state out),
           ms_super := ms_super (ro_state out)\<rparr>"
proof -
  obtain want where w: "pairing_build idx (cf_pairings (ri_config inp)) (ri_filter inp) = Inr want"
    using assms(1) by (auto simp: reconcile_def Let_def idx_def split: sum.splits if_splits)
  have e: "(if is_zero (ri_now inp) then inp\<lparr>ri_now := start\<rparr> else inp) = e"
    by (simp add: e_def eff_input_def)
  have "ri_rule e = ri_rule inp" "ri_snapshot e = ri_snapshot inp" "ri_config e = ri_config inp"
    "ri_filter e = ri_filter inp" "start_state e = start_state inp"
    by (simp_all add: e_def)
  note out = assms(1) [unfolded reconcile_def e Let_def this idx_def [symmetric] w update_super_eq
      fill_sides_def split_beta fst_conv snd_conv sum.case]
  show thesis
    by (rule that [OF w]) (use out in \<open>auto\<close>)
qed

lemma start_state_fps:
  "ms_zone_rule (start_state inp) = ru_fp (ri_rule inp)"
  "ms_slots_config (start_state inp) = slots_fingerprint (cf_slots (ri_config inp))"
  by (simp_all add: start_state_def Let_def new_state_def)

definition want_of :: "recon_input \<Rightarrow> pairing list" where
  "want_of inp = projr (pairing_build (zone_build (ri_rule inp) (ri_snapshot inp))
     (cf_pairings (ri_config inp)) (ri_filter inp))"

lemma reconcile_want:
  assumes "reconcile start el inp = Inr out"
  shows "pairing_build (ro_index out) (cf_pairings (ri_config inp)) (ri_filter inp) = Inr (want_of inp)"
  by (rule reconcile_eqs [OF assms]) (auto simp: want_of_def)

lemma reconcile_index:
  assumes "reconcile start el inp = Inr out"
  shows "ro_index out = zone_build (ri_rule inp) (ri_snapshot inp)"
  by (rule reconcile_eqs [OF assms])

lemma want_distinct:
  assumes "reconcile start el inp = Inr out" "\<forall>z \<in> set (zi_zones (ro_index out)). bar_free z"
  shows "distinct (map pa_key (want_of inp))"
proof -
  obtain idx where idx: "ro_index out = idx" "idx = zone_build (ri_rule inp) (ri_snapshot inp)"
    using reconcile_index [OF assms(1)] by auto
  have w: "want_of inp = sort_key pa_key (pairs_from idx (cf_pairings (ri_config inp)) (ri_filter inp) (zi_zones idx))"
    using reconcile_want [OF assms(1)] by (simp add: idx(1) pairing_build_eq split: if_splits)
  have "distinct (map pa_key (pairs_from idx (cf_pairings (ri_config inp)) (ri_filter inp) (zi_zones idx)))"
    using assms(2) zones_build(1) by (intro distinct_pairs_from) (auto simp: idx)
  then show ?thesis unfolding w by (rule distinct_sort_map)
qed

lemma reconcile_lookup:
  assumes "reconcile start el inp = Inr out"
    and "\<forall>z \<in> set (zi_zones (ro_index out)). bar_free z"
    and "gm_wf (ms_pairings (start_state inp))"
  shows "map_of (ms_pairings (ro_state out)) k =
     next_pairing (eff_input start inp) (ro_index out) (ms_super (ro_state out)) (want_of inp) k
       (map_of (ms_pairings (start_state inp)) k)"
    and "gm_wf (ms_pairings (ro_state out))"
proof -
  let ?e = "eff_input start inp"
  let ?ps = "ms_pairings (start_state inp)" and ?l = "compute_layout (cf_slots (ri_config inp))"
  have out: "ms_pairings (ro_state out)
      = each_pairing (fill_pairing ?e (ro_index out))
         (each_pairing (\<lambda>_. super_stage ?e (ro_index out) (ms_super (ro_state out)))
           (each_pairing (\<lambda>_. validate_pairing ?e (ro_index out)) (fst (diff_pairings ?e (want_of inp) ?ps))))"
    by (rule reconcile_eqs [OF assms(1)]) (auto simp: want_of_def)
  let ?w = "fold (want_pairing ?l) (want_of inp) (?ps, [], [])"
  have wf: "gm_wf (fst ?w)" using assms(3) by (rule fold_want_wf)
  show "gm_wf (ms_pairings (ro_state out))"
    using expire_wf [OF wf] by (simp add: out diff_pairings_eq Let_def)
  have key: "List.find (\<lambda>p. pa_key p = k) (want_of inp) = None \<longleftrightarrow> k \<notin> pa_key ` set (want_of inp)"
    by (rule find_key_None_iff)
  have w: "map_of (fst ?w) k = (case List.find (\<lambda>p. pa_key p = k) (want_of inp) of
        None \<Rightarrow> map_of ?ps k | Some p \<Rightarrow> Some (fst (want_next ?l p (map_of ?ps k))))"
    by (rule fold_want_lookup) (rule want_distinct [OF assms(1,2)])
  have "map_of (fst (diff_pairings ?e (want_of inp) ?ps)) k =
      (case List.find (\<lambda>p. pa_key p = k) (want_of inp) of
          Some p \<Rightarrow> Some (fst (want_next ?l p (map_of ?ps k)))
        | None \<Rightarrow> Option.bind (map_of ?ps k) (expire_pairing (ri_now ?e)
            (he_pairing_removal_hold (cf_health (ri_config inp))) (\<lambda>_. False) k))"
    using key by (cases "map_of ?ps k") (auto simp: diff_pairings_eq Let_def expire_lookup [OF wf] w
        expire_pairing_def split: option.split)
  then show "map_of (ms_pairings (ro_state out)) k =
     next_pairing ?e (ro_index out) (ms_super (ro_state out)) (want_of inp) k (map_of ?ps k)"
    by (cases "List.find (\<lambda>p. pa_key p = k) (want_of inp)")
      (simp_all add: out next_pairing_def settle_def [abs_def] option.map_comp comp_def)
qed

text \<open>Every pairing of the result went through the stages.\<close>

lemma each_mem: "(k, q) \<in> set (each_pairing f ps) \<Longrightarrow> \<exists>p. (k, p) \<in> set ps \<and> q = fst (f k p)"
  by (auto simp: each_pairing_def)

lemma reconcile_mem:
  assumes "reconcile start el inp = Inr out" and "(k, q) \<in> set (ms_pairings (ro_state out))"
  obtains p where "(k, p) \<in> set (fst (diff_pairings (eff_input start inp) (want_of inp) (ms_pairings (start_state inp))))"
    and "q = settle (eff_input start inp) (ro_index out) (ms_super (ro_state out)) k p"
proof (rule reconcile_eqs [OF assms(1)])
  fix want
  assume a: "pairing_build (zone_build (ri_rule inp) (ri_snapshot inp)) (cf_pairings (ri_config inp)) (ri_filter inp) = Inr want"
    and i: "ro_index out = zone_build (ri_rule inp) (ri_snapshot inp)"
    and m: "ms_pairings (ro_state out)
      = each_pairing (fill_pairing (eff_input start inp) (zone_build (ri_rule inp) (ri_snapshot inp)))
         (each_pairing (\<lambda>_. super_stage (eff_input start inp) (zone_build (ri_rule inp) (ri_snapshot inp)) (ms_super (ro_state out)))
           (each_pairing (\<lambda>_. validate_pairing (eff_input start inp) (zone_build (ri_rule inp) (ri_snapshot inp)))
             (fst (diff_pairings (eff_input start inp) want (ms_pairings (start_state inp))))))"
  have "want = want_of inp" using a by (simp add: want_of_def)
  with assms(2) show thesis
    unfolding m by (auto simp: settle_def i dest!: each_mem intro: that)
qed

section \<open>Every assignment is valid\<close>

lemma valid_side_cong: "side_zone p = side_zone q \<Longrightarrow> valid_side inp idx p = valid_side inp idx q"
  by (intro ext) (simp add: valid_side_def)

lemma member_valid:
  assumes "snap_wf (ri_snapshot inp)" and "h \<in> set (members (zone_build r (ri_snapshot inp)) (side_zone p sd))"
    and "ri_eligible inp h"
  shows "valid_side inp (zone_build r (ri_snapshot inp)) p sd h"
proof -
  have "h \<in> set (zone_hosts r (side_zone p sd) (sn_hosts (ri_snapshot inp)))"
    using assms(2) by (simp add: members_build)
  then have "zone_of (zone_build r (ri_snapshot inp)) h = Some (side_zone p sd)"
    using zone_hosts_member [OF assms(1)] by blast
  moreover from \<open>h \<in> set (zone_hosts _ _ _)\<close> obtain g where "g \<in> set (sn_hosts (ri_snapshot inp))" "hr_id g = h"
    by (auto simp: zone_hosts_set)
  then have "host_present (ri_snapshot inp) h"
    using sv.lookup_None_iff [OF assms(1), of h] by (auto simp: host_present_def)
  ultimately show ?thesis using assms(3) by (simp add: valid_side_iff)
qed

text \<open>The pairing as the fill stage gets it.\<close>

definition cleared ::
  "recon_input \<Rightarrow> zindex \<Rightarrow> (string, string list) gomap \<Rightarrow> pairing_rec \<Rightarrow> pairing_rec" where
  "cleared inp idx sp p = fst (super_stage inp idx sp (fst (validate_pairing inp idx p)))"

lemma settle_cleared: "settle inp idx sp k p = fst (fill_pairing inp idx k (cleared inp idx sp p))"
  by (simp add: settle_def cleared_def)

lemma cleared_frame [simp]:
  "pg_key (cleared inp idx sp p) = pg_key p" "pg_zone_a (cleared inp idx sp p) = pg_zone_a p"
  "pg_zone_b (cleared inp idx sp p) = pg_zone_b p" "pg_intra (cleared inp idx sp p) = pg_intra p"
  "pg_remove_at (cleared inp idx sp p) = pg_remove_at p" "side_zone (cleared inp idx sp p) = side_zone p"
  by (simp_all add: cleared_def)

lemma settle_frame [simp]:
  "pg_key (settle inp idx sp k p) = pg_key p" "pg_zone_a (settle inp idx sp k p) = pg_zone_a p"
  "pg_zone_b (settle inp idx sp k p) = pg_zone_b p" "pg_intra (settle inp idx sp k p) = pg_intra p"
  "pg_remove_at (settle inp idx sp k p) = pg_remove_at p"
  by (simp_all add: settle_cleared)

lemma settle_zone [simp]: "side_zone (settle inp idx sp k p) = side_zone p"
  by (rule ext) (simp add: side_zone_def)

lemma cleared_sides:
  assumes "pg_remove_at p = 0" "s \<in> set (pg_slots (cleared inp idx sp p))" "sl_class s \<noteq> class_super"
  shows "sides_ok (valid_side inp idx p) s"
  using super_stage_old [OF assms(2) [unfolded cleared_def] assms(3)] validate_sides_ok [OF assms(1)] by blast

lemma settle_keeps:
  assumes "snap_wf (ri_snapshot inp)" "pg_remove_at p = 0"
  defines "idx \<equiv> zone_build (ri_rule inp) (ri_snapshot inp)"
  shows "list_all2 (keeps (valid_side inp idx p)) (pg_slots (cleared inp idx sp p)) (pg_slots (settle inp idx sp k p))"
proof -
  let ?c = "cleared inp idx sp p"
  have live: "pg_remove_at ?c = 0" using assms(2) by simp
  show ?thesis
    unfolding settle_cleared
  proof (rule fill_pairing_spec(1) [OF live refl])
    show "valid_side inp idx p sd h" if "h \<in> set (members idx (side_zone ?c sd))" "ri_eligible inp h" for sd h
      using member_valid [OF assms(1), of h "ri_rule inp" p sd] that by (simp add: idx_def)
    show "\<forall>s \<in> set (pg_slots ?c). is_anchor s \<longrightarrow> sides_ok (valid_side inp idx p) s"
      using cleared_sides [OF assms(2)] by (auto simp: is_anchor_def class_defs)
  qed
qed

lemma settle_valid:
  assumes "snap_wf (ri_snapshot inp)" "pg_remove_at p = 0"
    and idx: "idx = zone_build (ri_rule inp) (ri_snapshot inp)"
    and "s \<in> set (pg_slots (settle inp idx sp k p))" "sl_class s \<noteq> class_super"
  shows "sides_ok (valid_side inp idx p) s"
proof -
  note keep = settle_keeps [OF assms(1,2), of sp k, folded idx]
  obtain i where i: "i < length (pg_slots (settle inp idx sp k p))" "s = pg_slots (settle inp idx sp k p) ! i"
    using assms(4) by (auto simp: in_set_conv_nth)
  let ?t = "pg_slots (cleared inp idx sp p) ! i"
  have t: "keeps (valid_side inp idx p) ?t s" "i < length (pg_slots (cleared inp idx sp p))"
    using keep i by (auto simp: list_all2_conv_all_nth)
  then have "sl_class ?t \<noteq> class_super" using assms(5) by (simp add: keeps_def)
  with t(2) have "sides_ok (valid_side inp idx p) ?t"
    using cleared_sides [OF assms(2) nth_mem] by blast
  with t(1) show ?thesis by (rule keeps_sides_ok)
qed

text \<open>
  C4: after a reconcile no live pairing uses a host it must not use. Whatever the table held
  before, every filled side of every anchor and diverse slot of a pairing that is not on removal
  hold is a host that the inventory snapshot contains, that the health tracker finds eligible,
  and whose zone under the active rule is the zone of that side.
\<close>

theorem reconcile_sides_valid:
  assumes "reconcile start el inp = Inr out" and "snap_wf (ri_snapshot inp)"
    and "(k, q) \<in> set (ms_pairings (ro_state out))" and "pg_remove_at q = 0"
    and "s \<in> set (pg_slots q)" and "sl_class s \<noteq> class_super" and "slot_host s sd \<noteq> []"
  shows "host_present (ri_snapshot inp) (slot_host s sd) \<and> ri_eligible inp (slot_host s sd)
    \<and> zone_of (ro_index out) (slot_host s sd) = Some (if sd = SideA then pg_zone_a q else pg_zone_b q)"
proof -
  let ?e = "eff_input start inp"
  obtain p where q: "q = settle ?e (ro_index out) (ms_super (ro_state out)) k p"
    by (rule reconcile_mem [OF assms(1,3)])
  have idx: "ro_index out = zone_build (ri_rule ?e) (ri_snapshot ?e)"
    using reconcile_index [OF assms(1)] by simp
  have "sides_ok (valid_side ?e (ro_index out) p) s"
    using settle_valid [OF _ _ idx] assms(2,4-6) q by simp
  then have "valid_side ?e (ro_index out) p sd (slot_host s sd)"
    using assms(7) unfolding sides_ok_def by blast
  then show ?thesis by (simp add: valid_side_iff q side_zone_def)
qed

section \<open>A small mesh\<close>

text \<open>Two zones, \<open>x\<close> with host \<open>a\<close> and \<open>y\<close> with \<open>b\<close> and \<open>c\<close>; an anchor and a diverse slot.\<close>

definition demo_rule :: rule where
  "demo_rule = \<lparr>ru_keys = [\<lparr>ks_key = ''z'', ks_transform = None, ks_raw = []\<rparr>], ru_sep = ''/'',
     ru_missing = MissingExclude, ru_literal = [], ru_desc = [], ru_fp = ''z''\<rparr>"

definition demo_snap :: snapshot where
  "demo_snap = build_snapshot 1 (inv_replace \<lparr>hs_source = ''file'',
      hs_hosts = [plain_host ''a'' [(''z'', ''x'')], plain_host ''b'' [(''z'', ''y'')],
                  plain_host ''c'' [(''z'', ''y'')]],
      hs_fetch_at = 1, hs_stale = False, hs_last_error = []\<rparr> new_inv_store)"

definition demo_slots :: "int \<Rightarrow> slots_config" where
  "demo_slots n = (cf_slots default_config)\<lparr>sc_count := 2, sc_super_hosts := n\<rparr>"

definition demo_input :: "int \<Rightarrow> (string \<Rightarrow> bool) \<Rightarrow> mesh_state option \<Rightarrow> time \<Rightarrow> recon_input" where
  "demo_input n el cur now =
     \<lparr>ri_snapshot = demo_snap, ri_config = default_config\<lparr>cf_slots := demo_slots n\<rparr>,
      ri_rule = demo_rule, ri_filter = None, ri_scanner = demo_slots n, ri_eligible = el,
      ri_current = cur, ri_now = now\<rparr>"

definition demo_pairing :: pairing_rec where
  "demo_pairing =
     \<lparr>pg_key = ''x|y'', pg_zone_a = ''x'', pg_zone_b = ''y'', pg_intra = False,
      pg_slots =
        [\<lparr>sl_index = 0, sl_class = ''anchor'', sl_host_a = ''a'', sl_host_b = ''b'', sl_rank_a = 1,
          sl_rank_b = 1, sl_assigned_a = 1, sl_assigned_b = 1, sl_super_target = []\<rparr>,
         \<lparr>sl_index = 1, sl_class = ''diverse'', sl_host_a = ''a'', sl_host_b = ''c'', sl_rank_a = 2,
          sl_rank_b = 1, sl_assigned_a = 1, sl_assigned_b = 1, sl_super_target = []\<rparr>],
      pg_remove_at = 0\<rparr>"

definition demo_state :: mesh_state where
  "demo_state =
     (new_state ''z'' (slots_fingerprint (demo_slots 0)))\<lparr>ms_pairings := [(''x|y'', demo_pairing)]\<rparr>"

definition demo_index :: zindex where
  "demo_index =
     \<lparr>zi_rule = demo_rule, zi_zones = [''x'', ''y''], zi_members = [(''x'', [''a'']), (''y'', [''b'', ''c''])],
      zi_host_zone = [(''a'', ''x''), (''b'', ''y''), (''c'', ''y'')], zi_unresolved = []\<rparr>"

lemma demo_zone_build: "zone_build demo_rule demo_snap = demo_index"
proof (rule zindex.equality)
  show "zi_zones (zone_build demo_rule demo_snap) = zi_zones demo_index"
    "zi_members (zone_build demo_rule demo_snap) = zi_members demo_index"
    "zi_host_zone (zone_build demo_rule demo_snap) = zi_host_zone demo_index"
    "zi_unresolved (zone_build demo_rule demo_snap) = zi_unresolved demo_index"
    by code_simp+
qed (simp_all add: demo_index_def)

lemma demo_want: "pairing_build demo_index (cf_pairings default_config) None = Inr [mk_pairing ''x'' ''y'']"
  by code_simp

lemma reconcile_total:
  assumes "pairing_build (zone_build (ri_rule inp) (ri_snapshot inp)) (cf_pairings (ri_config inp)) (ri_filter inp)
    = Inr want"
  shows "\<exists>out. reconcile start el inp = Inr out"
proof -
  have *: "ri_rule (if b then inp\<lparr>ri_now := start\<rparr> else inp) = ri_rule inp"
    "ri_snapshot (if b then inp\<lparr>ri_now := start\<rparr> else inp) = ri_snapshot inp"
    "ri_config (if b then inp\<lparr>ri_now := start\<rparr> else inp) = ri_config inp"
    "ri_filter (if b then inp\<lparr>ri_now := start\<rparr> else inp) = ri_filter inp" for b by simp_all
  show ?thesis unfolding reconcile_def Let_def * assms split_beta sum.case by blast
qed

lemma demo_input_simps [simp]:
  "ri_snapshot (demo_input n el cur now) = demo_snap" "ri_rule (demo_input n el cur now) = demo_rule"
  "ri_config (demo_input n el cur now) = default_config\<lparr>cf_slots := demo_slots n\<rparr>"
  "ri_filter (demo_input n el cur now) = None" "ri_scanner (demo_input n el cur now) = demo_slots n"
  "ri_eligible (demo_input n el cur now) = el" "ri_current (demo_input n el cur now) = cur"
  "ri_now (demo_input n el cur now) = now" "sc_super_hosts (demo_slots n) = n"
  by (simp_all add: demo_input_def demo_slots_def)

lemma demo_pairings: "cf_pairings (default_config\<lparr>cf_slots := s\<rparr>) = cf_pairings default_config"
  by simp

lemma demo_outE:
  obtains out where "reconcile st el (demo_input n f cur now) = Inr out"
  using reconcile_total [of "demo_input n f cur now" _ st el]
  by (auto simp: demo_zone_build demo_want demo_pairings simp del: config.simps)

definition demo_blank :: pairing_rec where
  "demo_blank = demo_pairing\<lparr>pg_slots := map (\<lambda>s. (blank_slot (sl_index s))\<lparr>sl_class := sl_class s\<rparr>)
     (pg_slots demo_pairing)\<rparr>"

lemma demo_first:
  "fst (diff_pairings (demo_input 0 (\<lambda>_. True) None 1) [mk_pairing ''x'' ''y''] []) = [(''x|y'', demo_blank)]"
  "fst (validate_pairing (demo_input 0 (\<lambda>_. True) None 1) demo_index demo_blank) = demo_blank"
  "fst (super_stage (demo_input 0 (\<lambda>_. True) None 1) demo_index [] demo_blank) = demo_blank"
  "fst (fill_pairing (demo_input 0 (\<lambda>_. True) None 1) demo_index ''x|y'' demo_blank) = demo_pairing"
  by code_simp+

lemma demo_runE:
  obtains out where "reconcile 1 0 (demo_input 0 (\<lambda>_. True) None 1) = Inr out" "ro_state out = demo_state"
proof -
  let ?i = "demo_input 0 (\<lambda>_. True) None 1"
  obtain out where out: "reconcile 1 0 ?i = Inr out" by (rule demo_outE)
  have e: "eff_input 1 ?i = ?i" by simp
  have st: "start_state ?i = new_state ''z'' (slots_fingerprint (demo_slots 0))"
    by (simp add: start_state_def Let_def new_state_def demo_rule_def)
  from out have "ro_state out = demo_state"
  proof (rule reconcile_eqs)
    fix want
    assume w: "pairing_build (zone_build (ri_rule ?i) (ri_snapshot ?i)) (cf_pairings (ri_config ?i)) (ri_filter ?i) = Inr want"
      and ps: "ms_pairings (ro_state out) = each_pairing (fill_pairing (eff_input 1 ?i) (zone_build (ri_rule ?i) (ri_snapshot ?i)))
         (each_pairing (\<lambda>_. super_stage (eff_input 1 ?i) (zone_build (ri_rule ?i) (ri_snapshot ?i)) (ms_super (ro_state out)))
           (each_pairing (\<lambda>_. validate_pairing (eff_input 1 ?i) (zone_build (ri_rule ?i) (ri_snapshot ?i)))
             (fst (diff_pairings (eff_input 1 ?i) want (ms_pairings (start_state ?i))))))"
      and sp: "ms_super (ro_state out) = next_super (eff_input 1 ?i) (zone_build (ri_rule ?i) (ri_snapshot ?i)) (ms_super (start_state ?i))"
      and r: "ro_state out = (start_state ?i)\<lparr>ms_pairings := ms_pairings (ro_state out), ms_super := ms_super (ro_state out)\<rparr>"
    have want: "want = [mk_pairing ''x'' ''y'']"
      using w by (simp add: demo_zone_build demo_want demo_pairings del: config.simps)
    have "ms_super (ro_state out) = []" unfolding sp e by (simp add: next_super_def)
    moreover have "ms_pairings (ro_state out) = [(''x|y'', demo_pairing)]"
      unfolding ps e demo_input_simps demo_zone_build want st calculation
      by (simp add: new_state_def demo_first each_pairing_def)
    ultimately show "ro_state out = demo_state"
      by (subst r) (simp add: st demo_state_def new_state_def)
  qed
  with out show thesis by (rule that)
qed

lemma demo_snap_wf: "snap_wf demo_snap"
  by (simp add: demo_snap_def build_snapshot_wf)

theorem reconcile_sides_valid_witness:
  "\<exists>out. reconcile 1 0 (demo_input 0 (\<lambda>_. True) None 1) = Inr out \<and> host_present demo_snap ''c''
     \<and> zone_of (ro_index out) ''c'' = Some ''y''"
proof -
  obtain out where out: "reconcile 1 0 (demo_input 0 (\<lambda>_. True) None 1) = Inr out" "ro_state out = demo_state"
    by (rule demo_runE)
  let ?s = "pg_slots demo_pairing ! 1"
  have "(''x|y'', demo_pairing) \<in> set (ms_pairings (ro_state out))" "pg_remove_at demo_pairing = 0"
    "?s \<in> set (pg_slots demo_pairing)" "sl_class ?s \<noteq> class_super" "slot_host ?s SideB = ''c''"
    "pg_zone_b demo_pairing = ''y''"
    by (simp_all add: out(2) demo_state_def demo_pairing_def class_defs slot_host_def)
  with reconcile_sides_valid [OF out(1), of "''x|y''" demo_pairing ?s SideB] demo_snap_wf out(1)
  show ?thesis by simp
qed

section \<open>Nothing valid is ever moved\<close>

lemma settle_nth:
  assumes "snap_wf (ri_snapshot inp)" "pg_remove_at p = 0"
    and idx: "idx = zone_build (ri_rule inp) (ri_snapshot inp)"
    and l: "l = compute_layout (cf_slots (ri_config inp))"
    and lay: "laid_out l (pg_slots p)" and i: "i < nat (ly_total l)"
  shows "keeps (valid_side inp idx p) (fst (validate_slot inp idx p (pg_slots p ! i)))
           (pg_slots (settle inp idx sp k p) ! i)"
proof -
  let ?v = "fst (validate_pairing inp idx p)"
  have len: "i < length (pg_slots p)" using lay i by (auto simp: laid_out_def)
  have lay_v: "laid_out l (pg_slots ?v)" using lay by (rule validate_laid_out)
  obtain tl where "pg_slots (cleared inp idx sp p) = take (nat (ly_total l)) (pg_slots ?v) @ tl"
    using super_stage_slots [OF lay_v [unfolded l]] unfolding cleared_def l by blast
  moreover have "length (pg_slots ?v) = length (pg_slots p)" using assms(2) by (simp add: validate_slots)
  ultimately have c: "pg_slots (cleared inp idx sp p) ! i = fst (validate_slot inp idx p (pg_slots p ! i))"
    "i < length (pg_slots (cleared inp idx sp p))"
    using i len assms(2) by (simp_all add: nth_append validate_slots)
  from settle_keeps [OF assms(1,2), of sp k, folded idx] c show ?thesis
    by (auto simp: list_all2_conv_all_nth)
qed

lemma start_state_current:
  assumes "ri_current inp = Some st" "ms_zone_rule st = ru_fp (ri_rule inp)"
    "ms_slots_config st = slots_fingerprint (cf_slots (ri_config inp))"
  shows "start_state inp = st"
  using assms by (simp add: start_state_def Let_def)

text \<open>The pairing key is wanted by this run.\<close>

definition wanted_key :: "recon_input \<Rightarrow> string \<Rightarrow> bool" where
  "wanted_key inp k \<longleftrightarrow>
     (\<exists>want. pairing_build (zone_build (ri_rule inp) (ri_snapshot inp)) (cf_pairings (ri_config inp)) (ri_filter inp) = Inr want
        \<and> k \<in> pa_key ` set want)"

lemma wanted_find:
  "wanted_key inp k \<Longrightarrow> \<exists>p. List.find (\<lambda>p. pa_key p = k) (want_of inp) = Some p"
  by (cases "List.find (\<lambda>p. pa_key p = k) (want_of inp)") (auto simp: wanted_key_def want_of_def find_key_None_iff)

lemma unwanted_find:
  "reconcile st el inp = Inr out \<Longrightarrow> \<not> wanted_key inp k \<Longrightarrow> List.find (\<lambda>p. pa_key p = k) (want_of inp) = None"
  using reconcile_want [of st el inp out] reconcile_index [of st el inp out]
  by (auto simp: wanted_key_def find_key_None_iff)



end
