(* ===== verification/ReconcileRuns.thy ===== *)
theory ReconcileRuns
  imports ReconcileProps
begin

text \<open>
  Sequences of reconciles. \<open>recon_step\<close> runs one reconcile on the table the previous one left; the
  table invariant (anchors agree, intra-zone slots have two different hosts) holds after any
  sequence, as an interpretation of \<open>inv_machine\<close>. From it: a second run changes nothing, a
  pairing that is no longer wanted goes through the removal hold, slots do not stay empty while a
  host could fill them, and super slots never settle.
\<close>

section \<open>What every run keeps\<close>

definition recon_step :: "time \<times> dur \<times> recon_input \<Rightarrow> mesh_state option \<Rightarrow> mesh_state option" where
  "recon_step r cur =
     (case r of (start, el, inp) \<Rightarrow>
        (case reconcile start el (inp\<lparr>ri_current := cur\<rparr>) of Inl _ \<Rightarrow> cur | Inr out \<Rightarrow> Some (ro_state out)))"

definition anchors_settled :: "pairing_rec \<Rightarrow> bool" where
  "anchors_settled p \<longleftrightarrow>
     pairing_inv p
     \<and> (pg_remove_at p = 0 \<longrightarrow> anchors_uniform SideA (pg_slots p) \<and> anchors_uniform SideB (pg_slots p))"

definition table_inv :: "mesh_state option \<Rightarrow> bool" where
  "table_inv cur \<longleftrightarrow>
     (\<forall>st. cur = Some st \<longrightarrow> gm_wf (ms_pairings st) \<and> (\<forall>(k, p) \<in> set (ms_pairings st). anchors_settled p))"

lemma set_alist_update: "set (AList.update k v ps) \<subseteq> insert (k, v) (set ps)"
  by (induction ps) auto

lemma pairing_inv_remove [simp]: "pairing_inv (p\<lparr>pg_remove_at := t\<rparr>) = pairing_inv p"
  by (simp add: pairing_inv_def)

lemma new_pairing_inv: "pairing_inv (new_pairing p)"
  by (auto simp: pairing_inv_def new_pairing_def anchors_ok_def intro: exI [of _ "\<lambda>_. []"])

lemma want_next_inv: "(\<And>c. cur = Some c \<Longrightarrow> pairing_inv c) \<Longrightarrow> pairing_inv (fst (want_next l p cur))"
  unfolding want_next_def by (rule resize_inv) (simp add: new_pairing_inv split: option.split)

lemma fold_want_inv:
  "\<forall>(k, p) \<in> set ps. pairing_inv p \<Longrightarrow>
     \<forall>(k, p) \<in> set (fst (fold (want_pairing l) want (ps, a, c))). pairing_inv p"
proof (induction want arbitrary: ps a c)
  case (Cons w want)
  have "pairing_inv (fst (want_next l w (map_of ps (pa_key w))))"
    using Cons.prems by (intro want_next_inv) (auto dest: map_of_SomeD)
  with Cons.prems have "\<forall>(k, p) \<in> set (AList.update (pa_key w) (fst (want_next l w (map_of ps (pa_key w)))) ps). pairing_inv p"
    using set_alist_update by fastforce
  from Cons.IH [OF this] show ?case by (simp add: want_pairing_eq)
qed simp

lemma expire_mem:
  "(k, q) \<in> set (fst (expire_pairings now hold w ps)) \<Longrightarrow>
     \<exists>p. (k, p) \<in> set ps \<and> expire_pairing now hold w k p = Some q"
  by (auto simp: expire_pairings_def List.map_filter_def)

lemma diff_inv:
  assumes "\<forall>(k, p) \<in> set ps. pairing_inv p" "(k, q) \<in> set (fst (diff_pairings inp want ps))"
  shows "pairing_inv q"
proof -
  let ?w = "fst (fold (want_pairing (compute_layout (cf_slots (ri_config inp)))) want (ps, [], []))"
  let ?e = "expire_pairing (ri_now inp) (he_pairing_removal_hold (cf_health (ri_config inp))) (\<lambda>k. k \<in> pa_key ` set want)"
  obtain p where p: "(k, p) \<in> set ?w" "?e k p = Some q"
    using assms(2) expire_mem by (auto simp: diff_pairings_eq Let_def) blast
  then have "pairing_inv p" using fold_want_inv [OF assms(1)] by fastforce
  with p(2) show ?thesis by (auto simp: expire_pairing_def split: if_splits)
qed

lemma cleared_inv: "pairing_inv p \<Longrightarrow> pairing_inv (cleared inp idx sp p)"
  by (simp add: cleared_def super_stage_inv validate_inv)

lemma settle_settled: "pairing_inv p \<Longrightarrow> anchors_settled (settle inp idx sp k p)"
proof -
  assume inv: "pairing_inv p"
  let ?c = "cleared inp idx sp p"
  have c: "pairing_inv ?c" using inv by (rule cleared_inv)
  have "anchors_uniform SideA (pg_slots (settle inp idx sp k p)) \<and> anchors_uniform SideB (pg_slots (settle inp idx sp k p))"
    if "pg_remove_at p = 0"
  proof -
    have live: "pg_remove_at ?c = 0" using that by simp
    show ?thesis unfolding settle_cleared
      using fill_pairing_spec(3) [OF live refl, of idx inp "\<lambda>_ _. True" k] c
      by (simp add: pairing_inv_def sides_ok_def)
  qed
  with fill_inv [OF c] show ?thesis
    by (simp add: anchors_settled_def settle_cleared)
qed

lemma reconcile_wf:
  assumes "reconcile start el inp = Inr out" "gm_wf (ms_pairings (start_state inp))"
  shows "gm_wf (ms_pairings (ro_state out))"
proof (rule reconcile_eqs [OF assms(1)])
  fix want
  assume m: "ms_pairings (ro_state out)
      = each_pairing (fill_pairing (eff_input start inp) (zone_build (ri_rule inp) (ri_snapshot inp)))
         (each_pairing (\<lambda>_. super_stage (eff_input start inp) (zone_build (ri_rule inp) (ri_snapshot inp)) (ms_super (ro_state out)))
           (each_pairing (\<lambda>_. validate_pairing (eff_input start inp) (zone_build (ri_rule inp) (ri_snapshot inp)))
             (fst (diff_pairings (eff_input start inp) want (ms_pairings (start_state inp))))))"
  show ?thesis
    unfolding m by (simp add: diff_pairings_eq Let_def expire_wf fold_want_wf assms(2))
qed

lemma start_state_cases: "start_state inp = new_state (ru_fp (ri_rule inp)) (slots_fingerprint (cf_slots (ri_config inp)))
    \<or> ri_current inp = Some (start_state inp)"
  by (simp add: start_state_def Let_def split: option.split)

lemma start_inv:
  assumes "table_inv (ri_current inp)"
  shows "gm_wf (ms_pairings (start_state inp))" "\<forall>(k, p) \<in> set (ms_pairings (start_state inp)). pairing_inv p"
  using start_state_cases [of inp] assms by (auto simp: table_inv_def anchors_settled_def new_state_def)

lemma reconcile_keeps_inv:
  assumes "reconcile start el inp = Inr out" "table_inv (ri_current inp)"
  shows "table_inv (Some (ro_state out))"
proof -
  have "anchors_settled q" if m: "(k, q) \<in> set (ms_pairings (ro_state out))" for k q
  proof (rule reconcile_mem [OF assms(1) m])
    fix p assume "(k, p) \<in> set (fst (diff_pairings (eff_input start inp) (want_of inp) (ms_pairings (start_state inp))))"
    then have "pairing_inv p" by (rule diff_inv [OF start_inv(2) [OF assms(2)]])
    then show "q = settle (eff_input start inp) (ro_index out) (ms_super (ro_state out)) k p \<Longrightarrow> anchors_settled q"
      by (simp add: settle_settled)
  qed
  with reconcile_wf [OF assms(1) start_inv(1) [OF assms(2)]] show ?thesis by (auto simp: table_inv_def)
qed

interpretation runs: inv_machine recon_step table_inv
proof
  fix cur and r :: "time \<times> dur \<times> recon_input"
  assume inv: "table_inv cur"
  obtain start el inp where r: "r = (start, el, inp)" by (cases r)
  show "table_inv (recon_step r cur)"
  proof (cases "reconcile start el (inp\<lparr>ri_current := cur\<rparr>)")
    case (Inl e)
    with inv show ?thesis by (simp add: recon_step_def r)
  next
    case (Inr out)
    with reconcile_keeps_inv [OF Inr] inv show ?thesis by (simp add: recon_step_def r)
  qed
qed

lemma reachable_inv: "table_inv (fold recon_step rs None)"
  by (rule runs.run_keeps) (simp add: table_inv_def)

text \<open>
  C2: after any sequence of reconciles from an empty table, with any inputs, on every pairing that
  is not on removal hold all anchor slots of a side hold one and the same host (or none), and no
  anchor or diverse slot of an intra-zone pairing has the same host on both sides.
\<close>

theorem anchors_agree:
  assumes "fold recon_step rs None = Some st" and "(k, p) \<in> set (ms_pairings st)" and "pg_remove_at p = 0"
    and "s \<in> set (pg_slots p)"
  shows "(sl_class s = class_anchor \<and> t \<in> set (pg_slots p) \<and> sl_class t = class_anchor \<longrightarrow>
            slot_host t sd = slot_host s sd)
    \<and> (pg_intra p \<and> sl_class s \<in> {class_anchor, class_diverse} \<and> slot_host s SideA \<noteq> [] \<longrightarrow>
            slot_host s SideA \<noteq> slot_host s SideB)"
proof -
  have p: "anchors_settled p"
    using reachable_inv [of rs] assms(1,2) by (auto simp: table_inv_def)
  then have u: "anchors_uniform sd (pg_slots p)" for sd
    using assms(3) by (cases sd) (simp_all add: anchors_settled_def)
  have one: "slot_host t sd = slot_host s sd"
    if "sl_class s = class_anchor" "t \<in> set (pg_slots p)" "sl_class t = class_anchor" for t sd
    using u [of sd] that assms(4) by (simp add: anchors_uniform_def is_anchor_def)
  have "no_self s" if "pg_intra p" "sl_class s = class_diverse"
    using p that assms(4) by (simp add: anchors_settled_def pairing_inv_def)
  moreover have "no_self s" if i: "pg_intra p" "sl_class s = class_anchor"
  proof -
    from p have "anchors_ok (pg_intra p) (pg_slots p)" by (simp add: anchors_settled_def pairing_inv_def)
    then obtain w where "\<And>sd. slot_host s sd = [] \<or> slot_host s sd = w sd" "w SideA = w SideB \<longrightarrow> w SideA = []"
      using i assms(4) by (auto simp: anchors_ok_def is_anchor_def)
    then show ?thesis unfolding no_self_def by metis
  qed
  ultimately show ?thesis using one by (auto simp: no_self_def)
qed

theorem anchors_agree_witness:
  "\<exists>st. fold recon_step [(1, 0, demo_input 0 (\<lambda>_. True) None 1)] None = Some st \<and> ms_pairings st \<noteq> []
     \<and> (\<forall>s \<in> set (pg_slots demo_pairing). sl_class s = class_anchor \<longrightarrow> slot_host s SideB = ''b'')"
proof -
  obtain out where out: "reconcile 1 0 (demo_input 0 (\<lambda>_. True) None 1) = Inr out" "ro_state out = demo_state"
    by (rule demo_runE)
  have e: "(demo_input 0 (\<lambda>_. True) None 1)\<lparr>ri_current := None\<rparr> = demo_input 0 (\<lambda>_. True) None 1"
    by (simp add: demo_input_def)
  have run: "fold recon_step [(1, 0, demo_input 0 (\<lambda>_. True) None 1)] None = Some demo_state"
    unfolding fold_simps id_apply comp_apply recon_step_def prod.case e by (simp add: out)
  let ?s = "pg_slots demo_pairing ! 0"
  have s: "?s \<in> set (pg_slots demo_pairing)" "sl_class ?s = class_anchor" "slot_host ?s SideB = ''b''"
    "(''x|y'', demo_pairing) \<in> set (ms_pairings demo_state)" "pg_remove_at demo_pairing = 0"
    by (simp_all add: demo_pairing_def demo_state_def class_defs slot_host_def)
  have "slot_host t SideB = ''b''" if "t \<in> set (pg_slots demo_pairing)" "sl_class t = class_anchor" for t
    using anchors_agree [OF run s(4,5,1), of t SideB] s that by simp
  with run s(4) show ?thesis by auto
qed

section \<open>A second run changes nothing\<close>

lemma update_same: "map_of ps k = Some v \<Longrightarrow> AList.update k v ps = ps"
  by (induction ps) auto

lemma fold_want_idle:
  "\<forall>p \<in> set want. \<exists>q. map_of ps (pa_key p) = Some q \<and> want_next l p (Some q) = (q, []) \<Longrightarrow>
     fold (want_pairing l) want (ps, a, c) = (ps, a, c)"
  by (induction want) (auto simp: want_pairing_eq update_same)

lemma expire_idle:
  "\<forall>(k, p) \<in> set ps. expire_pairing now hold w k p = Some p \<Longrightarrow> expire_pairings now hold w ps = (ps, [])"
proof -
  assume *: "\<forall>(k, p) \<in> set ps. expire_pairing now hold w k p = Some p"
  have "List.map_filter (\<lambda>(k, p). map_option (Pair k) (expire_pairing now hold w k p)) ps = ps"
    using * by (induction ps) (auto simp: map_filter_simps)
  moreover have "filter (\<lambda>(k, p). expire_pairing now hold w k p = None) ps = []"
    using * by (auto simp: filter_empty_conv)
  ultimately show ?thesis by (simp add: expire_pairings_def)
qed

lemma each_idle:
  assumes "\<And>k p. (k, p) \<in> set ps \<Longrightarrow> f k p = (p, [])"
  shows "each_pairing f ps = ps" "each_changes f ps = []"
  using assms by (induction ps) (auto simp: each_pairing_def each_changes_def)

lemma fill_sides_idle:
  assumes "gm_wf ps" and "\<And>k p. (k, p) \<in> set ps \<Longrightarrow> fill_pairing inp idx k p = (p, [])"
  shows "fill_sides inp idx ps = (ps, [])"
proof -
  have "snd (fill_pairing inp idx k (the (map_of ps k))) = []"
    if "k \<in> set (sort (map fst (filter (\<lambda>(k, p). is_zero (pg_remove_at p)) ps)))" for k
  proof -
    from that obtain p where "(k, p) \<in> set ps" by auto
    moreover from this assms(1) have "map_of ps k = Some p" by (simp add: gm_wf_def map_of_is_SomeI)
    ultimately show ?thesis using assms(2) by simp
  qed
  with each_idle(1) [of ps "fill_pairing inp idx"] assms(2) show ?thesis
    by (simp add: fill_sides_def Let_def del: set_sort)
qed

text \<open>A pairing that the run leaves alone.\<close>

definition quiet :: "recon_input \<Rightarrow> zindex \<Rightarrow> string \<Rightarrow> pairing_rec \<Rightarrow> bool" where
  "quiet inp idx k p \<longleftrightarrow>
     validate_pairing inp idx p = (p, []) \<and> drop_super p = (p, []) \<and> fill_pairing inp idx k p = (p, [])"

lemma reconcile_idle:
  assumes "pairing_build (zone_build (ri_rule inp) (ri_snapshot inp)) (cf_pairings (ri_config inp)) (ri_filter inp) = Inr want"
    and "ri_current inp = Some st" "ms_zone_rule st = ru_fp (ri_rule inp)"
      "ms_slots_config st = slots_fingerprint (cf_slots (ri_config inp))"
    and "gm_wf (ms_pairings st)" "ms_super st = []" "sc_super_hosts (cf_slots (ri_config inp)) \<le> 0" "ri_now inp \<noteq> 0"
    and want: "\<And>p. p \<in> set want \<Longrightarrow> \<exists>q. map_of (ms_pairings st) (pa_key p) = Some q
        \<and> want_next (compute_layout (cf_slots (ri_config inp))) p (Some q) = (q, [])"
    and keep: "\<And>k p. (k, p) \<in> set (ms_pairings st) \<Longrightarrow> k \<notin> pa_key ` set want \<Longrightarrow>
        pg_remove_at p \<noteq> 0 \<and> ri_now inp < pg_remove_at p"
    and quiet: "\<And>k p. (k, p) \<in> set (ms_pairings st) \<Longrightarrow>
        quiet inp (zone_build (ri_rule inp) (ri_snapshot inp)) k p"
  shows "\<exists>out. reconcile start el inp = Inr out \<and> ro_state out = st \<and> delta_empty (ro_delta out)"
proof -
  let ?idx = "zone_build (ri_rule inp) (ri_snapshot inp)" and ?ps = "ms_pairings st"
  let ?l = "compute_layout (cf_slots (ri_config inp))"
  let ?d = "diff_pairings inp want ?ps"
  have e: "(if is_zero (ri_now inp) then inp\<lparr>ri_now := start\<rparr> else inp) = inp" using assms(8) by simp
  have st: "start_state inp = st" using assms(2-4) by (rule start_state_current)
  have f: "fold (want_pairing ?l) want (?ps, [], []) = (?ps, [], [])"
    using want by (intro fold_want_idle) blast
  have x: "expire_pairings (ri_now inp) (he_pairing_removal_hold (cf_health (ri_config inp)))
      (\<lambda>k. k \<in> pa_key ` set want) ?ps = (?ps, [])"
    using keep by (intro expire_idle) (auto simp: expire_pairing_def)
  have d: "?d = (?ps, [], [], [])" by (simp add: diff_pairings_eq Let_def f x)
  have v: "each_pairing (\<lambda>_. validate_pairing inp ?idx) ?ps = ?ps" "each_changes (\<lambda>_. validate_pairing inp ?idx) ?ps = []"
    using quiet by (auto intro!: each_idle simp: quiet_def)
  have "each_pairing (\<lambda>_. drop_super) ?ps = ?ps" "each_changes (\<lambda>_. drop_super) ?ps = []"
    using quiet by (auto intro!: each_idle simp: quiet_def)
  then have s: "update_super inp ?idx ?ps (ms_super st) = (?ps, [], [], [])"
    using assms(6,7) by (simp add: update_super_def)
  have fl: "fill_sides inp ?idx ?ps = (?ps, [])"
    using assms(5) quiet by (intro fill_sides_idle) (auto simp: quiet_def)
  have "st\<lparr>ms_pairings := ?ps, ms_super := []\<rparr> = st" using assms(6) by simp
  then show ?thesis
    by (simp add: reconcile_def Let_def e assms(1,8) st d v s fl delta_empty_def)
qed

lemma laid_out_keeps:
  assumes "laid_out l xs" "list_all2 (keeps Q) xs ys"
  shows "laid_out l ys"
proof -
  have *: "length ys = length xs" "\<And>i. i < length xs \<Longrightarrow> keeps Q (xs ! i) (ys ! i)"
    using assms(2) by (auto simp: list_all2_conv_all_nth)
  have "sl_class s = class_super" if "s \<in> set (drop (nat (ly_total l)) ys)" for s
  proof -
    obtain j where j: "nat (ly_total l) + j < length ys" "s = ys ! (nat (ly_total l) + j)"
      using \<open>s \<in> _\<close> by (auto simp: in_set_conv_nth less_diff_conv add.commute)
    then have "xs ! (nat (ly_total l) + j) \<in> set (drop (nat (ly_total l)) xs)"
      using *(1) by (auto simp: in_set_conv_nth less_diff_conv add.commute intro!: exI [of _ j])
    with assms(1) have "sl_class (xs ! (nat (ly_total l) + j)) = class_super" by (simp add: laid_out_def)
    with *(2) [of "nat (ly_total l) + j"] j *(1) show ?thesis by (simp add: keeps_def)
  qed
  moreover have "sl_class (ys ! i) = class_at l (int i) \<and> sl_index (ys ! i) = int i" if "i < nat (ly_total l)" for i
    using assms(1) *(2) [of i] that by (auto simp: laid_out_def keeps_def)
  ultimately show ?thesis using assms(1) *(1) by (auto simp: laid_out_def)
qed

lemma valid_side_time [simp]:
  "valid_side (inp\<lparr>ri_current := cur, ri_now := t\<rparr>) idx p = valid_side inp idx p"
  by (intro ext) (simp add: valid_side_iff)

lemma no_super_keeps:
  assumes "list_all2 (keeps Q) xs ys" "\<forall>s \<in> set xs. sl_class s \<noteq> class_super"
  shows "\<forall>s \<in> set ys. sl_class s \<noteq> class_super"
proof -
  have "set (map sl_class ys) = set (map sl_class xs)" using keeps_class [OF assms(1)] by simp
  moreover have "class_super \<notin> set (map sl_class xs)" using assms(2) by auto
  ultimately have "class_super \<notin> sl_class ` set ys" by simp
  then show ?thesis by (metis imageI)
qed

lemma find_key_Some: "x \<in> set xs \<Longrightarrow> distinct (map f xs) \<Longrightarrow> List.find (\<lambda>y. f y = f x) xs = Some x"
  by (induction xs) (auto simp: image_iff)

lemma reconcile_fps:
  assumes "reconcile start el inp = Inr out"
  shows "ms_zone_rule (ro_state out) = ru_fp (ri_rule inp)"
    "ms_slots_config (ro_state out) = slots_fingerprint (cf_slots (ri_config inp))"
    "ms_super (ro_state out) = next_super (eff_input start inp) (ro_index out) (ms_super (start_state inp))"
proof -
  have r: "ro_state out = (start_state inp)\<lparr>ms_pairings := ms_pairings (ro_state out), ms_super := ms_super (ro_state out)\<rparr>"
    by (rule reconcile_eqs [OF assms])
  show "ms_zone_rule (ro_state out) = ru_fp (ri_rule inp)"
    "ms_slots_config (ro_state out) = slots_fingerprint (cf_slots (ri_config inp))"
    using arg_cong [OF r, of ms_zone_rule] arg_cong [OF r, of ms_slots_config] by (simp_all add: start_state_fps)
  show "ms_super (ro_state out) = next_super (eff_input start inp) (ro_index out) (ms_super (start_state inp))"
    by (rule reconcile_eqs [OF assms]) simp
qed

text \<open>The two ways a pairing can come out of a run with the super slots off.\<close>

lemma settled_live_quiet:
  assumes "snap_wf (ri_snapshot inp)" "sc_super_hosts (cf_slots (ri_config inp)) \<le> 0"
    and "\<forall>h \<in> set (sn_hosts (ri_snapshot inp)). hr_id h \<noteq> []"
    and idx: "idx = zone_build (ri_rule inp) (ri_snapshot inp)"
    and l: "l = compute_layout (cf_slots (ri_config inp))"
    and p: "pg_remove_at p = 0" "laid_out l (pg_slots p)" "pairing_inv p"
    and q: "q = settle inp idx sp k p"
  shows "quiet (inp\<lparr>ri_current := cur, ri_now := t\<rparr>) idx k q" and "resize_slots l q = (q, [])"
proof -
  let ?c = "cleared inp idx sp p" and ?i = "inp\<lparr>ri_current := cur, ri_now := t\<rparr>"
  have ns: "\<forall>s \<in> set (pg_slots ?c). sl_class s \<noteq> class_super"
    using assms(2) drop_super_none by (auto simp: cleared_def super_stage_def)
  have lay: "laid_out l (pg_slots ?c)"
    unfolding cleared_def l using p(2) by (intro super_stage_laid_out validate_laid_out) (simp add: l)
  note keep = settle_keeps [OF assms(1) p(1), of sp k, folded idx, folded q]
  have nq: "\<forall>s \<in> set (pg_slots q). sl_class s \<noteq> class_super" using keep ns by (rule no_super_keeps)
  show "resize_slots l q = (q, [])" using laid_out_keeps [OF lay keep] nq by (rule resize_idle)
  have "validate_pairing ?i idx q = (q, [])"
  proof (rule validate_idle, intro disjI2 ballI)
    fix s assume s: "s \<in> set (pg_slots q)"
    have "sides_ok (valid_side inp idx p) s"
      using settle_valid [OF assms(1) p(1) idx] s nq q by blast
    moreover have "valid_side ?i idx q = valid_side inp idx p"
      unfolding valid_side_time by (rule valid_side_cong) (simp add: q)
    ultimately show "sides_ok (valid_side ?i idx q) s" by simp
  qed
  moreover have "fill_pairing ?i idx k q = (q, [])"
  proof (rule fill_pairing_again)
    show "pg_remove_at ?c = 0" using p(1) by simp
    show "q = fst (fill_pairing inp idx k ?c)" using q by (simp add: settle_cleared)
    show "[] \<notin> set (members idx z)" for z
      using assms(3) by (auto simp: idx members_build zone_hosts_set)
    show "anchors_ok (pg_intra ?c) (pg_slots ?c)" using cleared_inv [OF p(3)] by (simp add: pairing_inv_def)
  qed
  ultimately show "quiet ?i idx k q" using drop_super_idle [OF nq] by (simp add: quiet_def)
qed

lemma settled_held_quiet:
  assumes "sc_super_hosts (cf_slots (ri_config inp)) \<le> 0" "pg_remove_at p \<noteq> 0" "q = settle inp idx sp k p"
  shows "quiet (inp\<lparr>ri_current := cur, ri_now := t\<rparr>) idx k q"
proof -
  have "q = fst (drop_super p)"
    using assms by (simp add: settle_def validate_pairing_def super_stage_def fill_pairing_live drop_super_def)
  then have "\<forall>s \<in> set (pg_slots q). sl_class s \<noteq> class_super" using drop_super_none by blast
  moreover have "pg_remove_at q \<noteq> 0" using assms by simp
  ultimately show ?thesis by (simp add: quiet_def validate_idle drop_super_idle fill_pairing_live)
qed

text \<open>Every entry of a finished table is either wanted and as it should be, or held, and quiet in the next run.\<close>

lemma settled_entry:
  assumes "reconcile start el inp = Inr out" and inv: "table_inv (ri_current inp)"
    and "0 < ri_now inp" "0 < he_pairing_removal_hold (cf_health (ri_config inp))"
    and "sc_super_hosts (cf_slots (ri_config inp)) \<le> 0"
    and "snap_wf (ri_snapshot inp)" "\<forall>h \<in> set (sn_hosts (ri_snapshot inp)). hr_id h \<noteq> []"
    and "\<forall>z \<in> set (zi_zones (ro_index out)). bar_free z"
    and m: "(k, q) \<in> set (ms_pairings (ro_state out))"
    and i: "i = inp\<lparr>ri_current := Some (ro_state out), ri_now := t\<rparr>"
  shows "(\<exists>p. List.find (\<lambda>p. pa_key p = k) (want_of inp) = Some p
      \<and> want_next (compute_layout (cf_slots (ri_config inp))) p (Some q) = (q, []) \<and> quiet i (ro_index out) k q)
    \<or> (List.find (\<lambda>p. pa_key p = k) (want_of inp) = None \<and> pg_remove_at q \<noteq> 0 \<and> quiet i (ro_index out) k q)"
proof -
  let ?st = "ro_state out" and ?idx = "ro_index out" and ?l = "compute_layout (cf_slots (ri_config inp))"
  let ?cur = "map_of (ms_pairings (start_state inp)) k"
  have e: "eff_input start inp = inp" using assms(3) by simp
  have idx: "?idx = zone_build (ri_rule inp) (ri_snapshot inp)" using assms(1) by (rule reconcile_index)
  have wf: "gm_wf (ms_pairings ?st)" using reconcile_wf [OF assms(1)] start_inv(1) [OF inv] by blast
  have cur: "pairing_inv c" if "?cur = Some c" for c
    using start_inv(2) [OF inv] map_of_SomeD [OF that] by blast
  have nx: "next_pairing inp ?idx (ms_super ?st) (want_of inp) k ?cur = Some q"
    using reconcile_lookup(1) [OF assms(1,8) start_inv(1) [OF inv], of k] m wf e
    by (simp add: gm_wf_def map_of_is_SomeI)
  have super: "ms_super ?st = []" using reconcile_fps [OF assms(1)] assms(5) by (simp add: e next_super_def)
  show ?thesis
  proof (cases "List.find (\<lambda>p. pa_key p = k) (want_of inp)")
    case (Some p)
    define r where "r = fst (want_next ?l p ?cur)"
    have q: "q = settle inp ?idx (ms_super ?st) k r" using nx Some by (simp add: next_pairing_def r_def)
    have r: "pg_remove_at r = 0" "laid_out ?l (pg_slots r)" "pairing_inv r"
      using want_next_inv [OF cur] by (simp_all add: r_def want_next_def resize_laid_out)
    note quiet = settled_live_quiet [OF assms(6,5,7) idx refl r q]
    have "q\<lparr>pg_remove_at := 0\<rparr> = q" using r(1) q by simp
    then have "want_next ?l p (Some q) = (q, [])" using quiet(2) by (simp add: want_next_def)
    with quiet(1) Some i show ?thesis by blast
  next
    case None
    obtain c x where c: "?cur = Some c" "expire_pairing (ri_now inp)
        (he_pairing_removal_hold (cf_health (ri_config inp))) (\<lambda>_. False) k c = Some x"
      "q = settle inp ?idx (ms_super ?st) k x"
      using nx None by (auto simp: next_pairing_def bind_eq_Some_conv)
    then have "pg_remove_at x \<noteq> 0" using assms(3,4) by (auto simp: expire_pairing_def split: if_splits)
    with settled_held_quiet [OF assms(5) this c(3)] None c(3) i show ?thesis by simp
  qed
qed

text \<open>
  C3: the assignment is stable. Start from any table that reconciles can produce, run once, and
  run again on the outcome at any later time before a removal deadline is reached, with the same
  inventory, configuration and eligibility: the second run returns the same table and an empty
  delta, so it starts no probe, stops no probe and writes no state file. (With super slots off.)
\<close>

theorem reconcile_stable:
  assumes "reconcile start el inp = Inr out" and "ri_current inp = fold recon_step rs None"
    and "0 < ri_now inp" "0 < he_pairing_removal_hold (cf_health (ri_config inp))"
    and "sc_super_hosts (cf_slots (ri_config inp)) \<le> 0"
    and "snap_wf (ri_snapshot inp)" "\<forall>h \<in> set (sn_hosts (ri_snapshot inp)). hr_id h \<noteq> []"
    and "\<forall>z \<in> set (zi_zones (ro_index out)). bar_free z"
    and t: "0 < t" "\<forall>(k, q) \<in> set (ms_pairings (ro_state out)). pg_remove_at q = 0 \<or> t < pg_remove_at q"
  shows "\<exists>out2. reconcile start2 el2 (inp\<lparr>ri_current := Some (ro_state out), ri_now := t\<rparr>) = Inr out2
    \<and> ro_state out2 = ro_state out \<and> delta_empty (ro_delta out2)"
proof -
  let ?i = "inp\<lparr>ri_current := Some (ro_state out), ri_now := t\<rparr>" and ?st = "ro_state out"
  have inv: "table_inv (ri_current inp)" unfolding assms(2) by (rule reachable_inv)
  have e: "eff_input start inp = inp" using assms(3) by simp
  have idx: "ro_index out = zone_build (ri_rule inp) (ri_snapshot inp)" using assms(1) by (rule reconcile_index)
  have wf: "gm_wf (ms_pairings ?st)" using reconcile_wf [OF assms(1)] start_inv(1) [OF inv] by blast
  have fps: "ms_zone_rule ?st = ru_fp (ri_rule inp)" "ms_slots_config ?st = slots_fingerprint (cf_slots (ri_config inp))"
    "ms_super ?st = []"
    using reconcile_fps [OF assms(1)] assms(5) by (simp_all add: e next_super_def)
  note out = settled_entry [OF assms(1) inv assms(3-8) _ refl, of _ _ t]
  show ?thesis
  proof (rule reconcile_idle)
    show "pairing_build (zone_build (ri_rule ?i) (ri_snapshot ?i)) (cf_pairings (ri_config ?i)) (ri_filter ?i) = Inr (want_of inp)"
      using reconcile_want [OF assms(1)] by (simp add: idx)
    show "\<exists>q. map_of (ms_pairings ?st) (pa_key p) = Some q
        \<and> want_next (compute_layout (cf_slots (ri_config ?i))) p (Some q) = (q, [])" if "p \<in> set (want_of inp)" for p
    proof -
      have fp: "List.find (\<lambda>x. pa_key x = pa_key p) (want_of inp) = Some p"
        using that want_distinct [OF assms(1,8)] by (rule find_key_Some)
      then obtain q where q: "map_of (ms_pairings ?st) (pa_key p) = Some q"
        using reconcile_lookup(1) [OF assms(1,8) start_inv(1) [OF inv], of "pa_key p"]
        by (simp add: next_pairing_def)
      with out [OF map_of_SomeD [OF q]] fp show ?thesis by auto
    qed
    show "pg_remove_at p \<noteq> 0 \<and> ri_now ?i < pg_remove_at p"
      if "(k, p) \<in> set (ms_pairings ?st)" "k \<notin> pa_key ` set (want_of inp)" for k p
      using out [OF that(1)] that t(2) by (auto simp: find_key_None_iff [symmetric])
    show "quiet ?i (zone_build (ri_rule ?i) (ri_snapshot ?i)) k p" if "(k, p) \<in> set (ms_pairings ?st)" for k p
      using out [OF that] by (auto simp: idx)
  qed (use fps wf assms(5) t(1) in simp_all)
qed

lemma demo_index_zones: "\<forall>z \<in> set (zi_zones demo_index). bar_free z"
  by (simp add: demo_index_def bar_free_def)

lemma demo_host_ids: "\<forall>h \<in> set (sn_hosts demo_snap). hr_id h \<noteq> []"
  by code_simp

theorem reconcile_stable_witness:
  "\<exists>out out2. reconcile 1 0 (demo_input 0 (\<lambda>_. True) None 1) = Inr out
     \<and> map fst (ms_pairings (ro_state out)) = [''x|y'']
     \<and> reconcile 1 0 (demo_input 0 (\<lambda>_. True) (Some (ro_state out)) 9) = Inr out2
     \<and> ro_state out2 = ro_state out \<and> delta_empty (ro_delta out2)"
proof -
  let ?i = "demo_input 0 (\<lambda>_. True) None 1"
  obtain out where out: "reconcile 1 0 ?i = Inr out" "ro_state out = demo_state" by (rule demo_runE)
  have idx: "ro_index out = demo_index" using reconcile_index [OF out(1)] by (simp add: demo_zone_build)
  have hold: "he_pairing_removal_hold (cf_health default_config) = 300000000000"
    by (simp add: default_config_def second_def)
  have "\<exists>out2. reconcile 1 0 (?i\<lparr>ri_current := Some (ro_state out), ri_now := 9\<rparr>) = Inr out2
      \<and> ro_state out2 = ro_state out \<and> delta_empty (ro_delta out2)"
    by (rule reconcile_stable [OF out(1), of "[]"])
      (simp_all add: hold demo_snap_wf demo_host_ids idx demo_index_zones out(2) demo_state_def demo_pairing_def)
  moreover have "?i\<lparr>ri_current := Some (ro_state out), ri_now := 9\<rparr> = demo_input 0 (\<lambda>_. True) (Some (ro_state out)) 9"
    by (simp add: demo_input_def)
  moreover have "map fst (ms_pairings (ro_state out)) = [''x|y'']" by (simp add: out(2) demo_state_def)
  ultimately show ?thesis using out(1) by auto
qed

section \<open>The removal hold\<close>

lemma diff_removed:
  "snd (expire_pairings now hold w ps) = map fst (filter (\<lambda>(k, p). expire_pairing now hold w k p = None) ps)"
  by (simp add: expire_pairings_def)

lemma reconcile_removed:
  assumes "reconcile start el inp = Inr out"
  shows "dl_removed (ro_delta out)
    = sort (fst (snd (snd (diff_pairings (eff_input start inp) (want_of inp) (ms_pairings (start_state inp))))))"
proof -
  let ?idx = "zone_build (ri_rule inp) (ri_snapshot inp)"
  have w: "pairing_build ?idx (cf_pairings (ri_config inp)) (ri_filter inp) = Inr (want_of inp)"
    using reconcile_want [OF assms] reconcile_index [OF assms] by simp
  have e: "(if is_zero (ri_now inp) then inp\<lparr>ri_now := start\<rparr> else inp) = eff_input start inp"
    by (simp add: eff_input_def)
  note out = assms [unfolded reconcile_def e Let_def eff_input_simps w split_beta sum.case]
  show ?thesis using arg_cong [OF out, of "\<lambda>x. dl_removed (ro_delta (projr x))"] by simp
qed

definition held :: "recon_input \<Rightarrow> time \<Rightarrow> pairing_rec \<Rightarrow> pairing_rec" where
  "held inp t p =
     (let p' = p\<lparr>pg_remove_at := t\<rparr>
      in if sc_super_hosts (cf_slots (ri_config inp)) \<le> 0 then fst (drop_super p') else p')"

lemma settle_held:
  "pg_remove_at p \<noteq> 0 \<Longrightarrow> settle inp idx sp k p = held inp (pg_remove_at p) p"
  by (simp add: settle_def held_def validate_pairing_def super_stage_def fill_pairing_live drop_super_def
      rebuild_super_def)



section \<open>Every slot gets a host when there is one\<close>

text \<open>The pick finds a host among \<open>hs\<close> whatever single host an intra-zone slot excludes.\<close>

definition always_picks :: "(candidates \<Rightarrow> string set \<Rightarrow> string \<times> int) \<Rightarrow> bool \<Rightarrow> string list \<Rightarrow> bool" where
  "always_picks pickf intra hs \<longleftrightarrow>
     (\<forall>c ex h. cd_hosts c = hs \<longrightarrow> ex \<subseteq> (if intra then {h} else {}) \<longrightarrow> fst (pickf c ex) \<noteq> [])"

lemma always_picksD:
  "always_picks pickf intra hs \<Longrightarrow> cd_hosts c = hs \<Longrightarrow> ex \<subseteq> (if intra then {h} else {}) \<Longrightarrow> fst (pickf c ex) \<noteq> []"
  by (auto simp: always_picks_def split: if_splits)

definition enough :: "bool \<Rightarrow> string list \<Rightarrow> bool" where
  "enough intra hs \<longleftrightarrow> (\<exists>g \<in> set hs. \<not> intra \<or> (\<exists>h \<in> set hs. h \<noteq> g))"

lemma enough_admissible:
  fixes c :: candidates
  assumes "enough intra (cd_hosts c)" "ex \<subseteq> (if intra then {h} else {})"
  shows "\<exists>g. admissible c ex g"
  using assms by (cases intra) (auto simp: enough_def admissible_def)

lemma pick_always:
  assumes "enough intra hs" "[] \<notin> set hs" "sc_allow_reuse cfg"
  shows "always_picks (pick cfg pk) intra hs"
  using assms enough_admissible by (fastforce simp: always_picks_def pick_fails_iff)

lemma pick_anchor_always:
  assumes "enough intra hs" "[] \<notin> set hs"
  shows "always_picks (pick_anchor pk) intra hs"
  unfolding always_picks_def
proof (intro allI impI)
  fix c :: candidates and ex :: "string set" and h
  assume "cd_hosts c = hs" "ex \<subseteq> (if intra then {h} else {})"
  with assms obtain g where "admissible c ex g" using enough_admissible by blast
  with assms(2) \<open>cd_hosts c = hs\<close> show "fst (pick_anchor pk c ex) \<noteq> []"
    by (cases rule: pick_anchor_cases [of pk c ex]) (auto simp: admissible_def)
qed

context picker
begin

lemma anchor_side_full:
  assumes "fill_anchor_side pickf key intra now sd slots c = (slots', c', chg)"
    and "fst (pickf c (anchor_exclude intra sd slots)) \<noteq> []" and "s \<in> set slots'" "is_anchor s"
  shows "slot_host s sd \<noteq> []"
  using assms(1)
proof (cases rule: anchor_side_cases)
  case (idle r)
  with assms(2) show ?thesis by simp
next
  case (set h rank why)
  then have "slots' = map (\<lambda>s. if is_anchor s \<and> slot_host s sd = [] then set_slot_host sd h rank now s else s) slots"
    using set_anchors_slots [of key now sd h rank why slots c] by simp
  with assms(3,4) set(2) show ?thesis by (auto simp: side_simps split: if_splits)
qed

lemma slot_side_full:
  assumes "fill_slot_side pickf key intra now sd s c = (s', c', chg)"
    and "always_picks pickf intra (cd_hosts c)"
  shows "slot_host s' sd \<noteq> []"
  using assms(1)
proof (cases rule: slot_side_cases)
  case (failed r)
  have "fst (pickf c (if intra \<and> slot_host s (other_side sd) \<noteq> [] then {slot_host s (other_side sd)} else {})) \<noteq> []"
    by (rule always_picksD [OF assms(2) refl]) auto
  with failed show ?thesis by simp
qed (simp_all add: side_simps)

lemma fill_diverse_full:
  assumes "fill_diverse pickf key intra now ss ca cb = (ss', ca', cb', chg)"
    and "always_picks pickf intra (cd_hosts (if sd = SideA then ca else cb))"
  shows "\<forall>s \<in> set ss'. sl_class s = class_diverse \<longrightarrow> slot_host s sd \<noteq> []"
  using assms
proof (induction ss arbitrary: ss' ca cb ca' cb' chg)
  case (Cons s ss)
  show ?case
  proof (cases "sl_class s = class_diverse")
    case False
    then obtain ts chg' where t: "fill_diverse pickf key intra now ss ca cb = (ts, ca', cb', chg')" "ss' = s # ts"
      using Cons.prems(1) by (auto split: prod.splits)
    from Cons.IH [OF t(1) Cons.prems(2)] t(2) False show ?thesis by auto
  next
    case True
    obtain s1 ca1 c1 where A: "fill_slot_side pickf key intra now SideA s ca = (s1, ca1, c1)" by (metis prod_cases3)
    obtain s2 cb1 c2 where B: "fill_slot_side pickf key intra now SideB s1 cb = (s2, cb1, c2)" by (metis prod_cases3)
    obtain ts chg' where t: "fill_diverse pickf key intra now ss ca1 cb1 = (ts, ca', cb', chg')" "ss' = s2 # ts"
      using Cons.prems(1) True A B by (auto split: prod.splits)
    have "cd_hosts ca1 = cd_hosts ca" "cd_hosts cb1 = cd_hosts cb"
      using slot_side_used(1) [OF A] slot_side_used(1) [OF B] by (simp_all add: more_used_def)
    with Cons.prems(2) have "\<forall>s \<in> set ts. sl_class s = class_diverse \<longrightarrow> slot_host s sd \<noteq> []"
      by (intro Cons.IH [OF t(1)]) (simp split: if_splits)
    moreover have "slot_host s2 sd \<noteq> []"
    proof (cases sd)
      case SideA
      with slot_side_full [OF A] Cons.prems(2) slot_side_other(1) [OF B] show ?thesis by (simp add: side_simps)
    next
      case SideB
      with slot_side_full [OF B] Cons.prems(2) show ?thesis by simp
    qed
    ultimately show ?thesis using t(2) by simp
  qed
qed simp

end

lemma anchor_exclude_one:
  assumes "anchors_ok intra slots"
  shows "\<exists>h. anchor_exclude intra sd slots \<subseteq> (if intra then {h} else {})"
proof -
  obtain w where "\<forall>s \<in> set slots. is_anchor s \<longrightarrow> (\<forall>sd. slot_host s sd = [] \<or> slot_host s sd = w sd)"
    using assms by (auto simp: anchors_ok_def)
  then show ?thesis by (intro exI [of _ "w (other_side sd)"]) (auto simp: anchor_exclude_def)
qed

lemma fill_pairing_full:
  assumes "pg_remove_at p = 0" and q: "q = fst (fill_pairing inp idx k p)"
    and "pairing_inv p" and "sc_allow_reuse (ri_scanner inp)" and "[] \<notin> set (members idx (side_zone p sd))"
    and "enough (pg_intra p) (filter (ri_eligible inp) (members idx (side_zone p sd)))"
    and s: "s \<in> set (pg_slots q)" "sl_class s = class_anchor \<or> sl_class s = class_diverse"
  shows "slot_host s sd \<noteq> []"
proof -
  obtain slots1 ca1 cb1 c1 slots2 ca2 cb2 c2 where
    st: "fill_anchors (pick_anchor k) (pg_key p) (pg_intra p) (ri_now inp) (pg_slots p)
       (side_cand inp idx p SideA) (side_cand inp idx p SideB) = (slots1, ca1, cb1, c1)"
    "fill_diverse (pick (ri_scanner inp) k) (pg_key p) (pg_intra p) (ri_now inp) slots1 ca1 cb1
       = (slots2, ca2, cb2, c2)"
    "fill_pairing inp idx k p = (p\<lparr>pg_slots := slots2\<rparr>, c1 @ c2)"
    by (rule fill_pairing_steps [OF assms(1)])
  have sq: "pg_slots q = slots2" using st(3) q by simp
  obtain mid cA cB where A: "fill_anchor_side (pick_anchor k) (pg_key p) (pg_intra p) (ri_now inp) SideA
        (pg_slots p) (side_cand inp idx p SideA) = (mid, ca1, cA)"
    and B: "fill_anchor_side (pick_anchor k) (pg_key p) (pg_intra p) (ri_now inp) SideB mid
        (side_cand inp idx p SideB) = (slots1, cb1, cB)"
    by (rule anchor.anchors_two_steps [OF st(1)])
  let ?hs = "\<lambda>sd. cd_hosts (side_cand inp idx p sd)"
  have ok: "anchors_ok (pg_intra p) (pg_slots p)" using assms(3) by (simp add: pairing_inv_def)
  have ok1: "anchors_ok (pg_intra p) mid" using anchor.anchor_side_ok(1) [OF A ok] .
  have hs: "enough (pg_intra p) (?hs sd)" "[] \<notin> set (?hs sd)"
    using assms(5,6) by (simp_all add: side_cand_hosts)
  have picks: "fst (pick_anchor k (side_cand inp idx p sd) (anchor_exclude (pg_intra p) sd slots)) \<noteq> []"
    if "anchors_ok (pg_intra p) slots" for slots
    using anchor_exclude_one [OF that, of sd] always_picksD [OF pick_anchor_always [OF hs] refl] by blast
  show ?thesis
  proof (cases "is_anchor s")
    case True
    have "filter is_anchor slots2 = filter is_anchor slots1" using st(2) by (rule diverse.fill_diverse_others)
    then have "s \<in> set (filter is_anchor slots1)" using s(1) True sq by (metis (mono_tags, lifting) mem_Collect_eq set_filter)
    then have s1: "s \<in> set slots1" by simp
    show ?thesis
    proof (cases sd)
      case SideA
      have "\<forall>s \<in> set mid. is_anchor s \<longrightarrow> slot_host s SideA \<noteq> []"
        using anchor.anchor_side_full [OF A] picks [OF ok] SideA by blast
      moreover obtain i where i: "i < length slots1" "s = slots1 ! i" using s1 by (auto simp: in_set_conv_nth)
      moreover from i have "mid ! i \<in> set mid" "sl_class s = sl_class (mid ! i)"
        "slot_host s SideA = slot_host (mid ! i) SideA"
        using anchor.anchor_side_other [OF B] by (auto simp: list_all2_conv_all_nth side_simps)
      ultimately show ?thesis using True SideA by (simp add: is_anchor_def)
    next
      case SideB
      with anchor.anchor_side_full [OF B _ s1 True] picks [OF ok1] show ?thesis by simp
    qed
  next
    case False
    have "cd_hosts ca1 = ?hs SideA" "cd_hosts cb1 = ?hs SideB"
      using anchor.anchor_side_used(1) [OF A] anchor.anchor_side_used(1) [OF B] by (simp_all add: more_used_def)
    then have "cd_hosts (if sd = SideA then ca1 else cb1) = ?hs sd" by (cases sd) simp_all
    with pick_always [OF hs assms(4)] have "always_picks (pick (ri_scanner inp) k) (pg_intra p)
        (cd_hosts (if sd = SideA then ca1 else cb1))" by simp
    from diverse.fill_diverse_full [OF st(2) this] s sq False show ?thesis by (auto simp: is_anchor_def)
  qed
qed

text \<open>
  No slot is left empty while a host could fill it. With reuse allowed, after a run every
  anchor and diverse slot of a live pairing has a host on a side whose zone has an eligible host
  (two of them for an intra-zone pairing, where the other side takes one).
\<close>

theorem slots_filled:
  assumes "reconcile start el inp = Inr out" and "ri_current inp = fold recon_step rs None"
    and "sc_allow_reuse (ri_scanner inp)" and "\<forall>h \<in> set (sn_hosts (ri_snapshot inp)). hr_id h \<noteq> []"
    and "(k, q) \<in> set (ms_pairings (ro_state out))" and "pg_remove_at q = 0"
    and "enough (pg_intra q) (filter (ri_eligible inp)
          (members (ro_index out) (if sd = SideA then pg_zone_a q else pg_zone_b q)))"
    and "s \<in> set (pg_slots q)" and "sl_class s = class_anchor \<or> sl_class s = class_diverse"
  shows "slot_host s sd \<noteq> []"
proof -
  let ?e = "eff_input start inp" and ?idx = "ro_index out"
  have inv: "table_inv (ri_current inp)" unfolding assms(2) by (rule reachable_inv)
  obtain p where p: "(k, p) \<in> set (fst (diff_pairings ?e (want_of inp) (ms_pairings (start_state inp))))"
    and q: "q = settle ?e ?idx (ms_super (ro_state out)) k p"
    by (rule reconcile_mem [OF assms(1,5)])
  let ?c = "cleared ?e ?idx (ms_super (ro_state out)) p"
  have "pairing_inv ?c" using diff_inv [OF start_inv(2) [OF inv] p] by (rule cleared_inv)
  moreover have "pg_remove_at ?c = 0" using assms(6) q by simp
  moreover have "side_zone ?c sd = (if sd = SideA then pg_zone_a q else pg_zone_b q)"
    by (simp add: q side_zone_def)
  moreover have "[] \<notin> set (members ?idx z)" for z
    using assms(4) by (auto simp: reconcile_index [OF assms(1)] members_build zone_hosts_set)
  ultimately show ?thesis
    using fill_pairing_full [of ?c q ?e ?idx k sd s] assms(3,7-9) q by (simp add: settle_cleared)
qed

theorem slots_filled_witness:
  "\<exists>out q. reconcile 1 0 (demo_input 0 (\<lambda>_. True) None 1) = Inr out \<and> (''x|y'', q) \<in> set (ms_pairings (ro_state out))
     \<and> slot_host (pg_slots q ! 1) SideA \<noteq> []"
proof -
  let ?i = "demo_input 0 (\<lambda>_. True) None 1"
  obtain out where out: "reconcile 1 0 ?i = Inr out" "ro_state out = demo_state" by (rule demo_runE)
  have idx: "ro_index out = demo_index" using reconcile_index [OF out(1)] by (simp add: demo_zone_build)
  have m: "members demo_index ''x'' = [''a'']" "pg_slots demo_pairing ! 1 \<in> set (pg_slots demo_pairing)"
    "sl_class (pg_slots demo_pairing ! 1) = class_diverse" "pg_zone_a demo_pairing = ''x''"
    "pg_intra demo_pairing = False" "pg_remove_at demo_pairing = 0" "sc_allow_reuse (demo_slots 0)"
    by (simp_all add: demo_index_def members_def gm_list_def demo_pairing_def class_defs demo_slots_def default_config_def)
  have "slot_host (pg_slots demo_pairing ! 1) SideA \<noteq> []"
    by (rule slots_filled [OF out(1), of "[]" "''x|y''" demo_pairing])
      (simp_all add: demo_host_ids idx m out(2) demo_state_def enough_def del: One_nat_def)
  with out show ?thesis by (auto simp: demo_state_def)
qed

section \<open>Super slots never settle\<close>

lemma reconcile_reports:
  assumes "reconcile start el inp = Inr out"
  shows "set (each_changes (\<lambda>_. validate_pairing (eff_input start inp) (ro_index out))
      (fst (diff_pairings (eff_input start inp) (want_of inp) (ms_pairings (start_state inp)))))
    \<subseteq> set (dl_sides (ro_delta out))"
proof -
  let ?idx = "zone_build (ri_rule inp) (ri_snapshot inp)"
  have w: "pairing_build ?idx (cf_pairings (ri_config inp)) (ri_filter inp) = Inr (want_of inp)"
    using reconcile_want [OF assms] reconcile_index [OF assms] by simp
  have e: "(if is_zero (ri_now inp) then inp\<lparr>ri_now := start\<rparr> else inp) = eff_input start inp"
    by (simp add: eff_input_def)
  note out = assms [unfolded reconcile_def e Let_def eff_input_simps w split_beta sum.case]
  note sides = arg_cong [OF out, of "\<lambda>x. set (dl_sides (ro_delta (projr x)))"]
  show ?thesis
    unfolding reconcile_index [OF assms] using sides [symmetric] by auto
qed

definition demo_super :: pairing_rec where
  "demo_super =
     (let sl = (\<lambda>i c a b r t. \<lparr>sl_index = i, sl_class = c, sl_host_a = a, sl_host_b = b, sl_rank_a = r,
            sl_rank_b = r, sl_assigned_a = 1, sl_assigned_b = 1, sl_super_target = t\<rparr>)
      in demo_pairing\<lparr>pg_slots :=
        [sl 0 ''anchor'' ''a'' ''b'' 2 [], sl 1 ''diverse'' ''a'' ''c'' 2 [], sl 2 ''super'' ''a'' ''b'' 1 ''b'',
         sl 3 ''super'' ''a'' ''c'' 1 ''c'', sl 4 ''super'' ''b'' ''a'' 1 ''a'']\<rparr>)"

definition demo_zone_supers :: "(string, string list) gomap" where
  "demo_zone_supers = [(''x'', [''a'']), (''y'', [''b''])]"

lemma demo_super_first:
  "fst (diff_pairings (demo_input 1 (\<lambda>_. True) None 1) [mk_pairing ''x'' ''y''] []) = [(''x|y'', demo_blank)]"
  "fst (validate_pairing (demo_input 1 (\<lambda>_. True) None 1) demo_index demo_blank) = demo_blank"
  "next_super (demo_input 1 (\<lambda>_. True) None 1) demo_index [] = demo_zone_supers"
  "fst (fill_pairing (demo_input 1 (\<lambda>_. True) None 1) demo_index ''x|y''
     (fst (super_stage (demo_input 1 (\<lambda>_. True) None 1) demo_index demo_zone_supers demo_blank))) = demo_super"
  by code_simp+

lemma demo_super_runE:
  obtains out where "reconcile 1 0 (demo_input 1 (\<lambda>_. True) None 1) = Inr out"
    "ro_state out = (new_state ''z'' (slots_fingerprint (demo_slots 1)))
       \<lparr>ms_pairings := [(''x|y'', demo_super)], ms_super := demo_zone_supers\<rparr>"
proof -
  let ?i = "demo_input 1 (\<lambda>_. True) None 1"
  obtain out where out: "reconcile 1 0 ?i = Inr out" by (rule demo_outE)
  have e: "eff_input 1 ?i = ?i" by simp
  have st: "start_state ?i = new_state ''z'' (slots_fingerprint (demo_slots 1))"
    by (simp add: start_state_def Let_def new_state_def demo_rule_def)
  from out have "ro_state out = (new_state ''z'' (slots_fingerprint (demo_slots 1)))
       \<lparr>ms_pairings := [(''x|y'', demo_super)], ms_super := demo_zone_supers\<rparr>"
  proof (rule reconcile_eqs)
    fix want
    assume w: "pairing_build (zone_build (ri_rule ?i) (ri_snapshot ?i)) (cf_pairings (ri_config ?i)) (ri_filter ?i) = Inr want"
      and ps: "ms_pairings (ro_state out) = each_pairing (fill_pairing (eff_input 1 ?i) (zone_build (ri_rule ?i) (ri_snapshot ?i)))
         (each_pairing (\<lambda>_. super_stage (eff_input 1 ?i) (zone_build (ri_rule ?i) (ri_snapshot ?i)) (ms_super (ro_state out)))
           (each_pairing (\<lambda>_. validate_pairing (eff_input 1 ?i) (zone_build (ri_rule ?i) (ri_snapshot ?i)))
             (fst (diff_pairings (eff_input 1 ?i) want (ms_pairings (start_state ?i))))))"
      and sp: "ms_super (ro_state out) = next_super (eff_input 1 ?i) (zone_build (ri_rule ?i) (ri_snapshot ?i)) (ms_super (start_state ?i))"
      and r: "ro_state out = (start_state ?i)\<lparr>ms_pairings := ms_pairings (ro_state out), ms_super := ms_super (ro_state out)\<rparr>"
    have want: "want = [mk_pairing ''x'' ''y'']"
      using w by (simp add: demo_zone_build demo_want demo_pairings del: config.simps)
    have ns: "ms_super (new_state a b) = []" "ms_pairings (new_state a b) = []" for a b
      by (simp_all add: new_state_def)
    have s: "ms_super (ro_state out) = demo_zone_supers"
      unfolding sp e demo_input_simps demo_zone_build st ns by (rule demo_super_first)
    have "ms_pairings (ro_state out) = [(''x|y'', demo_super)]"
      unfolding ps e demo_input_simps demo_zone_build want st s ns demo_super_first
      by (simp add: demo_super_first each_pairing_def)
    with s show "ro_state out = (new_state ''z'' (slots_fingerprint (demo_slots 1)))
       \<lparr>ms_pairings := [(''x|y'', demo_super)], ms_super := demo_zone_supers\<rparr>"
      by (subst r) (simp add: st)
  qed
  with out show thesis by (rule that)
qed

lemma demo_super_second:
  "fst (diff_pairings (demo_input 1 (\<lambda>_. True) cur 2) [mk_pairing ''x'' ''y''] [(''x|y'', demo_super)]) = [(''x|y'', demo_super)]"
  "snd (validate_pairing (demo_input 1 (\<lambda>_. True) cur 2) demo_index demo_super)
     = [released ''x|y'' 4 SideA class_super ''b'' ZoneChanged, released ''x|y'' 4 SideB class_super ''a'' ZoneChanged]"
  by code_simp+


end
