(* ===== verification/ReconLoop.thy ===== *)
theory ReconLoop
  imports Health ReconcileRuns
begin

text \<open>
  Models \<open>internal/reconcile/loop.go\<close>: the loop that runs the reconcile function over the live
  components. The channel of capacity one is an option; a run is one step over the inventory
  store, the health tracker and the state store, which are the models of those components. The
  calls of \<open>time.Now()\<close> inside one run give one value. What \<open>OnDelta\<close> is called with is kept as a
  list, newest last; log output and the metrics observer are not modelled (the observer gets the
  values \<open>run_once\<close> returns).
\<close>

section \<open>State\<close>

datatype trigger =
    TriggerProvider | TriggerConfig | TriggerHealth | TriggerTimer | TriggerTick | TriggerAPI | TriggerStart

record recon_deps =
  de_inv :: inv_store
  de_config :: config
  de_health :: tracker
  de_state :: sstore
  de_rule :: rule
  de_filter :: "pfilter option"
  de_scanner :: slots_config
  de_on_delta :: bool
  de_published :: "(delta \<times> mesh_state \<times> snapshot) list"

record loop_state =
  lo_deps :: recon_deps
  lo_ch :: "trigger option"
  lo_deadline :: "dur option"
  lo_last_stats :: recon_stats
  lo_last_delta :: delta
  lo_last_at :: time
  lo_last_err :: "pairing_error option"
  lo_last_gen :: "64 word"
  lo_ready :: bool

definition empty_delta :: delta where
  "empty_delta = \<lparr>dl_added = [], dl_removed = [], dl_sides = [], dl_super = []\<rparr>"

definition zero_stats :: recon_stats where
  "zero_stats =
     \<lparr>rs_hosts = 0, rs_unresolved = 0, rs_zones = 0, rs_pairings = 0, rs_slots_total = 0, rs_slots_filled = 0,
      rs_slots_unfilled = 0, rs_by_class = [], rs_by_rank = [], rs_duration = 0\<rparr>"

definition new_loop :: "recon_deps \<Rightarrow> loop_state" where
  "new_loop d =
     \<lparr>lo_deps = d, lo_ch = None, lo_deadline = None, lo_last_stats = zero_stats, lo_last_delta = empty_delta,
      lo_last_at = 0, lo_last_err = None, lo_last_gen = 0, lo_ready = False\<rparr>"

text \<open>A send to a full channel is dropped.\<close>

definition send_trigger :: "trigger \<Rightarrow> loop_state \<Rightarrow> loop_state" where
  "send_trigger t s = (case lo_ch s of None \<Rightarrow> s\<lparr>lo_ch := Some t\<rparr> | Some _ \<Rightarrow> s)"

section \<open>One run\<close>

definition loop_input :: "time \<Rightarrow> snapshot \<Rightarrow> recon_deps \<Rightarrow> recon_input" where
  "loop_input now snap d =
     \<lparr>ri_snapshot = snap, ri_config = de_config d, ri_rule = de_rule d, ri_filter = de_filter d,
      ri_scanner = de_scanner d, ri_eligible = eligible_func (de_health d),
      ri_current = Some (store_current (de_state d)), ri_now = now\<rparr>"

definition publish :: "delta \<Rightarrow> mesh_state \<Rightarrow> snapshot \<Rightarrow> recon_deps \<Rightarrow> recon_deps" where
  "publish dl st snap d = (if de_on_delta d then d\<lparr>de_published := de_published d @ [(dl, st, snap)]\<rparr> else d)"

definition mark_new :: "time \<Rightarrow> side_change list \<Rightarrow> tracker \<Rightarrow> tracker" where
  "mark_new now cs t = fold (\<lambda>c t. if sg_new c \<noteq> [] then mark_assigned now (sg_new c) t else t) cs t"

definition apply_output :: "time \<Rightarrow> bool \<Rightarrow> snapshot \<Rightarrow> recon_output \<Rightarrow> recon_deps \<Rightarrow> recon_deps" where
  "apply_output now ready snap out d =
     (if \<not> delta_empty (ro_delta out) then
        publish (ro_delta out) (ro_state out) snap
          (d\<lparr>de_state := store_update now (ro_state out) (de_state d),
             de_health := mark_new now (dl_sides (ro_delta out)) (de_health d)\<rparr>)
      else if \<not> ready then publish (ro_delta out) (ro_state out) snap d
      else d)"

definition run_once ::
  "time \<Rightarrow> dur \<Rightarrow> loop_state \<Rightarrow> loop_state \<times> delta \<times> recon_stats \<times> pairing_error option" where
  "run_once now el s =
     (let (snap, inv') = inv_snapshot now (de_inv (lo_deps s));
          d = (lo_deps s)\<lparr>de_inv := inv',
                 de_health := snd (tick now (observe now snap (de_health (lo_deps s))))\<rparr>
      in case reconcile now el (loop_input now snap d) of
           Inl (e, _) \<Rightarrow>
             (s\<lparr>lo_deps := d, lo_last_err := Some e, lo_last_at := now\<rparr>, empty_delta, zero_stats, Some e)
         | Inr out \<Rightarrow>
             (s\<lparr>lo_deps := apply_output now (lo_ready s) snap out d, lo_last_stats := ro_stats out,
                lo_last_delta := ro_delta out, lo_last_at := now, lo_last_err := None,
                lo_last_gen := sn_generation snap, lo_ready := True\<rparr>,
              ro_delta out, ro_stats out, None))"

section \<open>The loop\<close>

definition inventory_changed :: "loop_state \<Rightarrow> bool" where
  "inventory_changed s \<longleftrightarrow> inv_generation (de_inv (lo_deps s)) \<noteq> lo_last_gen s"

definition arm_deadline :: "time \<Rightarrow> loop_state \<Rightarrow> loop_state" where
  "arm_deadline now s =
     s\<lparr>lo_deadline := (case next_deadline (de_health (lo_deps s)) of None \<Rightarrow> None
        | Some at \<Rightarrow> Some (let d = tm_sub at now in if d < 50 * millisecond then 50 * millisecond else d))\<rparr>"

definition set_health :: "tracker \<Rightarrow> loop_state \<Rightarrow> loop_state" where
  "set_health t s = s\<lparr>lo_deps := (lo_deps s)\<lparr>de_health := t\<rparr>\<rparr>"

definition loop_start :: "time \<Rightarrow> dur \<Rightarrow> loop_state \<Rightarrow> loop_state" where
  "loop_start now el s = arm_deadline now (fst (run_once now el s))"

text \<open>The cases of the loop's \<open>select\<close>; a trigger that is not there cannot be received.\<close>

definition on_recv :: "time \<Rightarrow> dur \<Rightarrow> loop_state \<Rightarrow> loop_state option" where
  "on_recv now el s =
     (case lo_ch s of None \<Rightarrow> None
      | Some _ \<Rightarrow> Some (arm_deadline now (fst (run_once now el (s\<lparr>lo_ch := None\<rparr>)))))"

text \<open>The periodic tick runs in every case; what differs is the trigger it reports.\<close>

definition on_ticker :: "time \<Rightarrow> dur \<Rightarrow> loop_state \<Rightarrow> trigger \<times> loop_state" where
  "on_ticker now el s =
     (let (changed, t) = tick now (de_health (lo_deps s));
          s1 = set_health t s;
          why = (if changed \<noteq> [] then TriggerHealth
                 else if inventory_changed s1 then TriggerProvider else TriggerTick)
      in (why, arm_deadline now (fst (run_once now el s1))))"

definition on_deadline :: "time \<Rightarrow> dur \<Rightarrow> loop_state \<Rightarrow> loop_state" where
  "on_deadline now el s =
     (let (changed, t) = tick now (de_health (lo_deps s));
          s1 = set_health t s
      in arm_deadline now (if changed \<noteq> [] then fst (run_once now el s1) else s1))"

definition loop_interval :: "config \<Rightarrow> dur" where
  "loop_interval c = (if cf_reconcile_interval c \<le> 0 then 30 * second else cf_reconcile_interval c)"

text \<open>What can happen to the loop's state, with the operations of the other components in between.\<close>

datatype loop_event =
    LTrigger trigger | LRecv time dur | LTicker time dur | LDeadline time dur | LRunNow time dur
  | LInventory inv_op | LHealth health_op

fun loop_step :: "loop_event \<Rightarrow> loop_state \<Rightarrow> loop_state" where
  "loop_step (LTrigger t) s = send_trigger t s"
| "loop_step (LRecv now el) s = (case on_recv now el s of None \<Rightarrow> s | Some s' \<Rightarrow> s')"
| "loop_step (LTicker now el) s = snd (on_ticker now el s)"
| "loop_step (LDeadline now el) s = on_deadline now el s"
| "loop_step (LRunNow now el) s = fst (run_once now el s)"
| "loop_step (LInventory op) s = s\<lparr>lo_deps := (lo_deps s)\<lparr>de_inv := inv_step op (de_inv (lo_deps s))\<rparr>\<rparr>"
| "loop_step (LHealth op) s = set_health (health_step op (de_health (lo_deps s))) s"

section \<open>Runs and the other components\<close>

text \<open>The tracker as a run leaves it before the reconcile, and its state after the run.\<close>

definition run_health :: "time \<Rightarrow> loop_state \<Rightarrow> tracker" where
  "run_health now s =
     snd (tick now (observe now (fst (inv_snapshot now (de_inv (lo_deps s)))) (de_health (lo_deps s))))"

definition run_deps :: "time \<Rightarrow> loop_state \<Rightarrow> recon_deps" where
  "run_deps now s =
     (lo_deps s)\<lparr>de_inv := snd (inv_snapshot now (de_inv (lo_deps s))), de_health := run_health now s\<rparr>"

definition run_input :: "time \<Rightarrow> loop_state \<Rightarrow> recon_input" where
  "run_input now s = loop_input now (fst (inv_snapshot now (de_inv (lo_deps s)))) (run_deps now s)"

lemma run_once_eq:
  "run_once now el s =
     (case reconcile now el (run_input now s) of
        Inl (e, _) \<Rightarrow>
          (s\<lparr>lo_deps := run_deps now s, lo_last_err := Some e, lo_last_at := now\<rparr>, empty_delta, zero_stats, Some e)
      | Inr out \<Rightarrow>
          (s\<lparr>lo_deps := apply_output now (lo_ready s) (ri_snapshot (run_input now s)) out (run_deps now s),
             lo_last_stats := ro_stats out, lo_last_delta := ro_delta out, lo_last_at := now, lo_last_err := None,
             lo_last_gen := sn_generation (ri_snapshot (run_input now s)), lo_ready := True\<rparr>,
           ro_delta out, ro_stats out, None))"
  by (cases "reconcile now el (run_input now s)")
    (auto simp: run_once_def run_input_def run_deps_def run_health_def loop_input_def split_beta Let_def)

lemma publish_frame [simp]:
  "de_state (publish dl st snap d) = de_state d" "de_health (publish dl st snap d) = de_health d"
  "de_inv (publish dl st snap d) = de_inv d" "de_on_delta (publish dl st snap d) = de_on_delta d"
  "de_published (publish dl st snap d) =
     (if de_on_delta d then de_published d @ [(dl, st, snap)] else de_published d)"
  by (simp_all add: publish_def)

lemma run_deps_frame [simp]:
  "de_state (run_deps now s) = de_state (lo_deps s)" "de_health (run_deps now s) = run_health now s"
  "de_on_delta (run_deps now s) = de_on_delta (lo_deps s)"
  "de_published (run_deps now s) = de_published (lo_deps s)"
  by (simp_all add: run_deps_def)

lemma store_update_cur [simp]: "sr_cur (store_update now st s) = st"
  by (simp add: store_update_def Let_def)

lemma mark_new_inv: "track_inv t \<Longrightarrow> 0 < now \<Longrightarrow> track_inv (mark_new now cs t)"
proof (induction cs arbitrary: t)
  case (Cons c cs)
  have "track_inv (mark_assigned now h t)" for h
    using track_inv_step [OF Cons.prems(1), of "HAssigned now h"] Cons.prems(2) by simp
  with Cons show ?case by (simp add: mark_new_def)
qed (simp add: mark_new_def)

lemma run_health_inv:
  assumes "track_inv (de_health (lo_deps s))" "0 < now"
  shows "track_inv (run_health now s)"
proof -
  have "track_inv (observe now snap t)" "track_inv (snd (tick now t))" if "track_inv t" for snap t
    using track_inv_step [OF that, of "HObserve now snap"] track_inv_step [OF that, of "HTick now"] assms(2)
    by simp_all
  with assms(1) show ?thesis by (simp add: run_health_def)
qed

section \<open>What the loop keeps\<close>

fun loop_ok :: "loop_event \<Rightarrow> bool" where
  "loop_ok (LRecv now _) = (0 < now)"
| "loop_ok (LTicker now _) = (0 < now)"
| "loop_ok (LDeadline now _) = (0 < now)"
| "loop_ok (LRunNow now _) = (0 < now)"
| "loop_ok (LHealth op) = health_ok op"
| "loop_ok _ = True"

text \<open>
  The runner was told of the assignment the store holds: the last state handed to \<open>OnDelta\<close> with a
  delta is the current one, and only the first call may have an empty delta.
\<close>

definition told :: "recon_deps \<Rightarrow> bool" where
  "told d \<longleftrightarrow>
     (de_published d \<noteq> [] \<longrightarrow> \<not> delta_empty (fst (last (de_published d))) \<longrightarrow>
        sr_cur (de_state d) = fst (snd (last (de_published d))))
     \<and> (\<forall>x \<in> set (tl (de_published d)). \<not> delta_empty (fst x))"

definition loop_inv :: "loop_state \<Rightarrow> bool" where
  "loop_inv s \<longleftrightarrow>
     track_inv (de_health (lo_deps s)) \<and> told (lo_deps s)
     \<and> (lo_ready s \<and> de_on_delta (lo_deps s) \<longrightarrow> de_published (lo_deps s) \<noteq> [])
     \<and> (\<not> lo_ready s \<or> \<not> de_on_delta (lo_deps s) \<longrightarrow> de_published (lo_deps s) = [])"

lemma told_health [simp]: "told (d\<lparr>de_health := t\<rparr>) = told d" "told (d\<lparr>de_inv := i\<rparr>) = told d"
  by (simp_all add: told_def)

lemma run_once_inv:
  assumes inv: "loop_inv s" and now: "0 < now"
  shows "loop_inv (fst (run_once now el s))"
proof -
  have h: "track_inv (run_health now s)"
    using inv now by (intro run_health_inv) (simp_all add: loop_inv_def)
  have d: "told (run_deps now s)" using inv by (simp add: loop_inv_def run_deps_def)
  show ?thesis
  proof (cases "reconcile now el (run_input now s)")
    case (Inl e)
    with inv h d show ?thesis by (auto simp: run_once_eq loop_inv_def split: prod.split)
  next
    case (Inr out)
    let ?d = "apply_output now (lo_ready s) (ri_snapshot (run_input now s)) out (run_deps now s)"
    have r: "fst (run_once now el s) = s\<lparr>lo_deps := ?d, lo_last_stats := ro_stats out,
        lo_last_delta := ro_delta out, lo_last_at := now, lo_last_err := None,
        lo_last_gen := sn_generation (ri_snapshot (run_input now s)), lo_ready := True\<rparr>"
      using Inr by (simp add: run_once_eq)
    have "track_inv (de_health ?d)"
      using h now by (auto simp: apply_output_def intro: mark_new_inv)
    moreover have "told ?d"
      using d inv by (cases "de_published (lo_deps s)")
        (auto simp: apply_output_def told_def loop_inv_def)
    moreover have "de_on_delta ?d \<longleftrightarrow> de_published ?d \<noteq> []"
      using inv by (auto simp: apply_output_def loop_inv_def)
    ultimately show ?thesis by (simp add: r loop_inv_def)
  qed
qed

lemma set_health_inv: "loop_inv s \<Longrightarrow> track_inv t \<Longrightarrow> loop_inv (set_health t s)"
  by (simp add: loop_inv_def set_health_def)

lemma arm_inv [simp]: "loop_inv (arm_deadline now s) = loop_inv s"
  by (simp add: loop_inv_def arm_deadline_def)

lemma tick_inv: "track_inv t \<Longrightarrow> 0 < now \<Longrightarrow> track_inv (snd (tick now t))"
  using track_inv_step [of t "HTick now"] by simp

lemma loop_inv_health: "loop_inv s \<Longrightarrow> track_inv (de_health (lo_deps s))"
  by (simp add: loop_inv_def)

interpretation rl: guarded_machine loop_step loop_ok loop_inv
proof
  fix s e assume inv: "loop_inv s" and ok: "loop_ok e"
  have ch: "loop_inv (s\<lparr>lo_ch := c\<rparr>)" for c using inv by (simp add: loop_inv_def)
  show "loop_inv (loop_step e s)"
  proof (cases e)
    case (LTrigger t)
    with inv ch show ?thesis by (simp add: send_trigger_def split: option.split)
  next
    case (LRecv now el)
    with ok inv run_once_inv [OF ch, of now el] show ?thesis by (simp add: on_recv_def split: option.split)
  next
    case (LTicker now el)
    with ok inv show ?thesis
      by (simp add: on_ticker_def split_beta Let_def run_once_inv set_health_inv tick_inv loop_inv_health)
  next
    case (LDeadline now el)
    with ok inv show ?thesis
      by (simp add: on_deadline_def split_beta Let_def run_once_inv set_health_inv tick_inv loop_inv_health)
  next
    case (LRunNow now el)
    with ok inv run_once_inv show ?thesis by simp
  next
    case (LInventory op)
    with inv show ?thesis by (simp add: loop_inv_def)
  next
    case (LHealth op)
    with ok inv track_inv_step [OF loop_inv_health [OF inv], of op] show ?thesis
      by (simp add: set_health_inv)
  qed
qed

lemma new_loop_inv: "track_inv (de_health d) \<Longrightarrow> de_published d = [] \<Longrightarrow> loop_inv (new_loop d)"
  by (simp add: loop_inv_def new_loop_def told_def)


section \<open>Triggers\<close>

fun receives :: "loop_event \<Rightarrow> bool" where
  "receives (LRecv _ _) = True"
| "receives _ = False"

lemma run_once_ch [simp]: "lo_ch (fst (run_once now el s)) = lo_ch s"
  by (simp add: run_once_eq split: sum.split prod.split)

lemma arm_frame [simp]:
  "lo_ch (arm_deadline now s) = lo_ch s" "lo_last_at (arm_deadline now s) = lo_last_at s"
  "lo_deps (arm_deadline now s) = lo_deps s" "lo_ready (arm_deadline now s) = lo_ready s"
  by (simp_all add: arm_deadline_def)

lemma set_health_ch [simp]: "lo_ch (set_health t s) = lo_ch s"
  by (simp add: set_health_def)

lemma step_keeps_pending: "lo_ch s = Some t \<Longrightarrow> \<not> receives e \<Longrightarrow> lo_ch (loop_step e s) = Some t"
  by (cases e) (simp_all add: send_trigger_def on_ticker_def on_deadline_def split_beta Let_def)

text \<open>
  A trigger is never lost, and triggers that come before the next receive cost one run
  together. After any number of triggers, whatever else happens that is not a receive (a run in
  progress, ticks, API runs, updates of the other components), the receive is possible, it runs
  a reconcile at its own time, and it leaves the channel empty.
\<close>

theorem triggers_coalesce:
  assumes "list_all (\<lambda>e. \<not> receives e) es" and s: "s = fold loop_step (LTrigger t # es) s0"
  shows "\<exists>s'. on_recv now el s = Some s' \<and> lo_ch s' = None \<and> lo_last_at s' = now
    \<and> s' = arm_deadline now (fst (run_once now el (s\<lparr>lo_ch := None\<rparr>))) \<and> on_recv later el s' = None"
proof -
  have "\<exists>t. lo_ch (fold loop_step es s1) = Some t" if "lo_ch s1 = Some t" for s1 t
    using assms(1) that by (induction es arbitrary: s1) (auto dest: step_keeps_pending)
  moreover have "\<exists>t'. lo_ch (loop_step (LTrigger t) s0) = Some t'"
    by (simp add: send_trigger_def split: option.split)
  ultimately have "\<exists>t. lo_ch s = Some t" by (auto simp: s)
  moreover have "lo_last_at (fst (run_once now el s)) = now" for s
    by (simp add: run_once_eq split: sum.split prod.split)
  ultimately show ?thesis by (auto simp: on_recv_def)
qed

section \<open>The deadline timer\<close>

text \<open>
  The loop wakes in time. After a run the deadline timer covers every change that the passing
  of time alone can make: if a tick at a later time would change the eligibility of a host, the
  timer is armed and fires no later than that time, or 50 ms from now where the change is nearer
  than that.
\<close>

theorem deadline_covers:
  assumes "list_all loop_ok es" and "track_inv (de_health d)" and "de_published d = []"
    and s: "s = fold loop_step es (new_loop d)"
    and g: "0 \<le> he_missing_grace (tk_cfg (de_health (lo_deps s)))"
      "he_missing_grace (tk_cfg (de_health (lo_deps s))) \<le> max_int64"
    and "fst (tick t (de_health (lo_deps s))) \<noteq> []"
  shows "\<exists>w. lo_deadline (arm_deadline now s) = Some w \<and> 50 * millisecond \<le> w
    \<and> now + w \<le> max t (now + 50 * millisecond)"
proof -
  have "loop_inv s" unfolding s using new_loop_inv [OF assms(2,3)] assms(1) by (rule rl.run_keeps_ok)
  then have inv: "track_inv (de_health (lo_deps s))" by (rule loop_inv_health)
  have "\<exists>at. next_deadline (de_health (lo_deps s)) = Some at \<and> at \<le> t"
    using next_deadline_idle [OF inv g, of t] assms(7) by fastforce
  then obtain at where "next_deadline (de_health (lo_deps s)) = Some at" "at \<le> t" by blast
  moreover have "now + sat64 (at - now) \<le> max t (now + 50 * millisecond)" if "at \<le> t"
    using that by (auto simp: sat64_def max_int64_def min_int64_def millisecond_def max_def)
  ultimately show ?thesis
    by (auto simp: arm_deadline_def Let_def tm_sub_def)
qed

section \<open>Errors\<close>

text \<open>
  Too many pairings stop nothing. When the number of zone pairs exceeds the configured limit,
  the run reports the error and leaves the assignment in the state store, everything the runner
  was told, the last delta and the readiness as they were; only the inventory cache and the health
  timers move on.
\<close>

theorem limit_keeps_assignment:
  assumes "0 < pc_max_pairings (cf_pairings (de_config (lo_deps s)))"
    and "pair_count (int (length (zi_zones (zone_build (de_rule (lo_deps s)) (fst (inv_snapshot now (de_inv (lo_deps s))))))))
           (pc_intra_zone (cf_pairings (de_config (lo_deps s))))
         > pc_max_pairings (cf_pairings (de_config (lo_deps s)))"
    and r: "run_once now el s = (s', dl, st, err)"
  shows "err = Some TooManyPairings \<and> lo_last_err s' = Some TooManyPairings \<and> delta_empty dl
    \<and> de_state (lo_deps s') = de_state (lo_deps s) \<and> de_published (lo_deps s') = de_published (lo_deps s)
    \<and> lo_last_delta s' = lo_last_delta s \<and> lo_ready s' = lo_ready s \<and> lo_last_gen s' = lo_last_gen s
    \<and> de_health (lo_deps s') = run_health now s"
proof -
  let ?i = "run_input now s"
  have "ri_config ?i = de_config (lo_deps s)" "ri_rule ?i = de_rule (lo_deps s)"
    "ri_snapshot ?i = fst (inv_snapshot now (de_inv (lo_deps s)))"
    by (simp_all add: run_input_def loop_input_def run_deps_def)
  then have "\<exists>idx. reconcile now el ?i = Inl (TooManyPairings, idx)"
    using assms(1,2) by (simp add: reconcile_def Let_def pairing_build_eq)
  then show ?thesis using r by (auto simp: run_once_eq empty_delta_def delta_empty_def)
qed

section \<open>What an empty delta forgets\<close>

text \<open>The table in the state store after a run, with everything but the time and the table fixed.\<close>

definition next_table :: "recon_input \<Rightarrow> time \<Rightarrow> mesh_state \<Rightarrow> mesh_state" where
  "next_table inp now cur =
     (case reconcile now 0 (inp\<lparr>ri_current := Some cur, ri_now := now\<rparr>) of
        Inl _ \<Rightarrow> cur | Inr out \<Rightarrow> if delta_empty (ro_delta out) then cur else ro_state out)"

lemma reconcile_elapsed:
  "map_sum (\<lambda>x. x) (\<lambda>out. (ro_state out, ro_delta out)) (reconcile st el inp)
     = map_sum (\<lambda>x. x) (\<lambda>out. (ro_state out, ro_delta out)) (reconcile st el' inp)"
  by (simp add: reconcile_def Let_def split_beta split: sum.split)

lemma run_once_table:
  "store_current (de_state (lo_deps (fst (run_once now el s))))
     = next_table (run_input now s) now (store_current (de_state (lo_deps s)))"
proof -
  have i: "(run_input now s)\<lparr>ri_current := Some (store_current (de_state (lo_deps s))), ri_now := now\<rparr> = run_input now s"
    by (simp add: run_input_def loop_input_def)
  show ?thesis
    unfolding next_table_def i
    using reconcile_elapsed [of now el "run_input now s" 0]
    by (cases "reconcile now el (run_input now s)"; cases "reconcile now 0 (run_input now s)")
      (auto simp: run_once_eq apply_output_def store_current_def)
qed

definition marked :: "(string \<Rightarrow> bool) \<Rightarrow> time \<Rightarrow> string \<Rightarrow> pairing_rec \<Rightarrow> pairing_rec" where
  "marked w t k p = (if \<not> w k \<and> pg_remove_at p = 0 then p\<lparr>pg_remove_at := t\<rparr> else p)"

lemma expire_marks:
  assumes "\<And>k p. (k, p) \<in> set ps \<Longrightarrow> \<not> w k \<Longrightarrow> pg_remove_at p = 0 \<or> now < pg_remove_at p"
  shows "expire_pairings now hold w ps = (map (\<lambda>(k, p). (k, marked w (now + hold) k p)) ps, [])"
proof -
  have pt: "\<forall>(k, p) \<in> set ps. expire_pairing now hold w k p = Some (marked w (now + hold) k p)"
    using assms by (auto simp: expire_pairing_def marked_def)
  have "List.map_filter (\<lambda>(k, p). map_option (Pair k) (expire_pairing now hold w k p)) ps
      = map (\<lambda>(k, p). (k, marked w (now + hold) k p)) ps"
    using pt by (induction ps) (auto simp: map_filter_simps)
  moreover have "filter (\<lambda>(k, p). expire_pairing now hold w k p = None) ps = []"
    using pt by (auto simp: filter_empty_conv)
  ultimately show ?thesis by (simp add: expire_pairings_def)
qed

lemma reconcile_marks_only:
  assumes "pairing_build (zone_build (ri_rule inp) (ri_snapshot inp)) (cf_pairings (ri_config inp)) (ri_filter inp) = Inr want"
    and "ri_current inp = Some st" "ms_zone_rule st = ru_fp (ri_rule inp)"
      "ms_slots_config st = slots_fingerprint (cf_slots (ri_config inp))"
    and "gm_wf (ms_pairings st)" "ms_super st = []" "sc_super_hosts (cf_slots (ri_config inp)) \<le> 0" "0 < ri_now inp"
      "0 \<le> he_pairing_removal_hold (cf_health (ri_config inp))"
    and want: "\<And>p. p \<in> set want \<Longrightarrow> \<exists>q. map_of (ms_pairings st) (pa_key p) = Some q
        \<and> want_next (compute_layout (cf_slots (ri_config inp))) p (Some q) = (q, [])"
    and gone: "\<And>k p. (k, p) \<in> set (ms_pairings st) \<Longrightarrow> k \<notin> pa_key ` set want \<Longrightarrow>
        (\<forall>s \<in> set (pg_slots p). sl_class s \<noteq> class_super) \<and> (pg_remove_at p = 0 \<or> ri_now inp < pg_remove_at p)"
    and quiet: "\<And>k p. (k, p) \<in> set (ms_pairings st) \<Longrightarrow> k \<in> pa_key ` set want \<Longrightarrow>
        quiet inp (zone_build (ri_rule inp) (ri_snapshot inp)) k p"
  shows "\<exists>out. reconcile start el inp = Inr out \<and> delta_empty (ro_delta out)
    \<and> ms_pairings (ro_state out) = map (\<lambda>(k, p). (k, marked (\<lambda>k. k \<in> pa_key ` set want)
          (ri_now inp + he_pairing_removal_hold (cf_health (ri_config inp))) k p)) (ms_pairings st)"
proof -
  let ?idx = "zone_build (ri_rule inp) (ri_snapshot inp)" and ?ps = "ms_pairings st"
  let ?l = "compute_layout (cf_slots (ri_config inp))" and ?w = "\<lambda>k. k \<in> pa_key ` set want"
  let ?t = "ri_now inp + he_pairing_removal_hold (cf_health (ri_config inp))"
  let ?qs = "map (\<lambda>(k, p). (k, marked ?w ?t k p)) ?ps"
  have e: "(if is_zero (ri_now inp) then inp\<lparr>ri_now := start\<rparr> else inp) = inp" "ri_now inp \<noteq> 0"
    using assms(8) by simp_all
  have st: "start_state inp = st" using assms(2-4) by (rule start_state_current)
  have f: "fold (want_pairing ?l) want (?ps, [], []) = (?ps, [], [])"
    using want by (intro fold_want_idle) blast
  have "expire_pairings (ri_now inp) (he_pairing_removal_hold (cf_health (ri_config inp))) ?w ?ps = (?qs, [])"
    using gone by (intro expire_marks) blast
  then have d: "diff_pairings inp want ?ps = (?qs, [], [], [])" by (simp add: diff_pairings_eq Let_def f)
  have q: "quiet inp ?idx k q" if qm: "(k, q) \<in> set ?qs" for k q
  proof -
    obtain p where p: "(k, p) \<in> set ?ps" "q = marked ?w ?t k p" using qm by auto
    show ?thesis
    proof (cases "?w k")
      case True
      with quiet [OF p(1)] p(2) show ?thesis by (simp add: marked_def)
    next
      case False
      then have "pg_remove_at q \<noteq> 0" using p(2) assms(8,9) by (simp add: marked_def)
      moreover have "drop_super q = (q, [])"
        using gone [OF p(1) False] p(2) by (intro drop_super_idle) (simp add: marked_def)
      ultimately show ?thesis by (simp add: quiet_def validate_idle fill_pairing_live)
    qed
  qed
  have v: "each_pairing (\<lambda>_. validate_pairing inp ?idx) ?qs = ?qs" "each_changes (\<lambda>_. validate_pairing inp ?idx) ?qs = []"
    by (auto intro!: each_idle dest!: q simp: quiet_def simp del: set_map)
  have "each_pairing (\<lambda>_. drop_super) ?qs = ?qs" "each_changes (\<lambda>_. drop_super) ?qs = []"
    by (auto intro!: each_idle dest!: q simp: quiet_def simp del: set_map)
  then have s: "update_super inp ?idx ?qs (ms_super st) = (?qs, [], [], [])"
    using assms(6,7) by (simp add: update_super_def)
  have "map fst ?qs = map fst ?ps" by (simp add: comp_def split_beta)
  then have "gm_wf ?qs" using assms(5) by (simp only: gm_wf_def)
  then have fl: "fill_sides inp ?idx ?qs = (?qs, [])"
    using q by (intro fill_sides_idle) (auto simp: quiet_def simp del: set_map)
  show ?thesis
    by (simp only: reconcile_def Let_def e(1) assms(1) st d v s fl sum.case prod.case)
      (simp add: delta_empty_def)
qed

text \<open>A settled pairing \<open>x|y\<close> beside \<open>v|w\<close>, whose zones have no host any more.\<close>

definition vanished_state :: mesh_state where
  "vanished_state =
     demo_state\<lparr>ms_pairings := [(''v|w'', demo_pairing\<lparr>pg_key := ''v|w'', pg_zone_a := ''v'', pg_zone_b := ''w''\<rparr>),
                             (''x|y'', demo_pairing)]\<rparr>"

lemma demo_blank_ok: "laid_out (compute_layout (demo_slots 0)) (pg_slots demo_blank)" "pairing_inv demo_blank"
proof -
  have l: "compute_layout (demo_slots 0) = \<lparr>ly_total = 2, ly_anchors = 1, ly_diverse = 1\<rparr>"
    "map sl_class (pg_slots demo_blank) = [class_at \<lparr>ly_total = 2, ly_anchors = 1, ly_diverse = 1\<rparr> 0,
       class_at \<lparr>ly_total = 2, ly_anchors = 1, ly_diverse = 1\<rparr> 1]"
    "map sl_index (pg_slots demo_blank) = [0, 1]"
    by code_simp+
  have "length (pg_slots demo_blank) = 2" by code_simp
  then have "\<forall>i < 2. sl_class (pg_slots demo_blank ! i) = class_at \<lparr>ly_total = 2, ly_anchors = 1, ly_diverse = 1\<rparr> (int i)
      \<and> sl_index (pg_slots demo_blank ! i) = int i"
    using l(2,3) by (auto simp: less_2_cases_iff map_eq_Cons_conv)
  with \<open>length (pg_slots demo_blank) = 2\<close> show "laid_out (compute_layout (demo_slots 0)) (pg_slots demo_blank)"
    by (simp add: laid_out_def l(1))
  show "pairing_inv demo_blank"
    by (auto simp: pairing_inv_def demo_blank_def demo_pairing_def anchors_ok_def blank_slot_def slot_host_def)
qed

lemma demo_quiet: "quiet (demo_input 0 (\<lambda>_. True) cur t) demo_index ''x|y'' demo_pairing"
  and demo_resize: "resize_slots (compute_layout (demo_slots 0)) demo_pairing = (demo_pairing, [])"
proof -
  let ?i = "demo_input 0 (\<lambda>_. True) None 1"
  have d: "demo_pairing = settle ?i demo_index [] ''x|y'' demo_blank"
    by (simp only: settle_def demo_first)
  have r: "pg_remove_at demo_blank = 0" by (simp add: demo_blank_def demo_pairing_def)
  have i: "?i\<lparr>ri_current := cur, ri_now := t\<rparr> = demo_input 0 (\<lambda>_. True) cur t" by (simp add: demo_input_def)
  note q = settled_live_quiet [where inp = ?i and idx = demo_index and p = demo_blank and q = demo_pairing,
      OF _ _ _ _ refl r _ demo_blank_ok(2) d]
  show "quiet (demo_input 0 (\<lambda>_. True) cur t) demo_index ''x|y'' demo_pairing"
    unfolding i [symmetric] by (rule q(1)) (simp_all add: demo_snap_wf demo_host_ids demo_zone_build demo_blank_ok)
  show "resize_slots (compute_layout (demo_slots 0)) demo_pairing = (demo_pairing, [])"
    using q(2) by (simp add: demo_snap_wf demo_host_ids demo_zone_build demo_blank_ok)
qed



section \<open>The loop on the small mesh\<close>

definition demo_deps :: "pairings_config \<Rightarrow> recon_deps" where
  "demo_deps pc =
     \<lparr>de_inv = inv_replace \<lparr>hs_source = ''file'',
        hs_hosts = [plain_host ''a'' [(''z'', ''x'')], plain_host ''b'' [(''z'', ''y'')],
                    plain_host ''c'' [(''z'', ''y'')]],
        hs_fetch_at = 1, hs_stale = False, hs_last_error = []\<rparr> new_inv_store,
      de_config = default_config\<lparr>cf_slots := demo_slots 0, cf_pairings := pc\<rparr>,
      de_health = new_tracker (cf_health default_config), de_state = new_store demo_persist None,
      de_rule = demo_rule, de_filter = None, de_scanner = demo_slots 0, de_on_delta = True, de_published = []\<rparr>"

lemma demo_deps_snapshot: "fst (inv_snapshot 1 (de_inv (demo_deps pc))) = demo_snap"
  by (simp add: demo_deps_def demo_snap_def inv_snapshot_def inv_replace_def new_inv_store_def Let_def)

lemma new_tracker_inv: "track_inv (new_tracker cfg)"
  by (rule track_inv_new)


theorem triggers_coalesce_witness:
  "\<exists>s'. on_recv 2 0 (fold loop_step [LTrigger TriggerHealth, LTrigger TriggerAPI, LTicker 1 0]
          (new_loop (demo_deps (cf_pairings default_config)))) = Some s' \<and> lo_ch s' = None"
proof -
  have "list_all (\<lambda>e. \<not> receives e) [LTrigger TriggerAPI, LTicker 1 0]" by simp
  from triggers_coalesce [OF this refl, of 2 0 TriggerHealth] show ?thesis by fastforce
qed

theorem deadline_covers_witness:
  "\<exists>s w. s = fold loop_step (map LHealth failing_ops) (new_loop (demo_deps (cf_pairings default_config)))
     \<and> lo_deadline (arm_deadline (3 * second) s) = Some w \<and> 3 * second + w \<le> 63 * second"
proof -
  let ?d = "demo_deps (cf_pairings default_config)" and ?cfg = "cf_health default_config"
  let ?s = "fold loop_step (map LHealth failing_ops) (new_loop ?d)"
  let ?t = "fold health_step failing_ops (new_tracker ?cfg)"
  have ok: "list_all loop_ok (map LHealth failing_ops)" by (simp add: failing_ops_def second_def)
  have "de_health (lo_deps (fold loop_step (map LHealth ops) s)) = fold health_step ops (de_health (lo_deps s))" for ops s
    by (induction ops arbitrary: s) (simp_all add: set_health_def)
  then have h: "de_health (lo_deps ?s) = ?t" by (simp add: new_loop_def demo_deps_def)
  have g: "0 \<le> he_missing_grace (tk_cfg ?t)" "he_missing_grace (tk_cfg ?t) \<le> max_int64"
    unfolding failing_run by (simp_all add: default_config_def second_def max_int64_def)
  have "fst (tick (63 * second) ?t) \<noteq> []"
    by (simp add: failing_run new_status_def st_eligible_def tick_def Let_def tick_status_def transition_def second_def)
  with deadline_covers [OF ok _ _ refl, of ?d "63 * second" "3 * second"] g h
  have "\<exists>w. lo_deadline (arm_deadline (3 * second) ?s) = Some w \<and> 50 * millisecond \<le> w
      \<and> 3 * second + w \<le> max (63 * second) (3 * second + 50 * millisecond)"
    by (simp add: demo_deps_def new_tracker_inv)
  then show ?thesis by (auto simp: second_def millisecond_def)
qed

theorem limit_keeps_assignment_witness:
  "\<exists>s' dl st. run_once 1 0 (new_loop (demo_deps \<lparr>pc_intra_zone = True, pc_include = [], pc_exclude = [],
       pc_max_pairings = 2\<rparr>)) = (s', dl, st, Some TooManyPairings) \<and> de_published (lo_deps s') = []"
proof -
  let ?pc = "\<lparr>pc_intra_zone = True, pc_include = [], pc_exclude = [], pc_max_pairings = 2\<rparr>"
  let ?s = "new_loop (demo_deps ?pc)"
  obtain s' dl st err where r: "run_once 1 0 ?s = (s', dl, st, err)" by (metis prod_cases4)
  have d: "lo_deps ?s = demo_deps ?pc" by (simp add: new_loop_def)
  have c: "cf_pairings (de_config (demo_deps ?pc)) = ?pc" "de_rule (demo_deps ?pc) = demo_rule"
    "de_published (demo_deps ?pc) = []"
    by (simp_all add: demo_deps_def)
  have z: "zi_zones demo_index = [''x'', ''y'']" by (simp add: demo_index_def)
  have "pair_count 2 True > 2" by code_simp
  then have "err = Some TooManyPairings \<and> de_published (lo_deps s') = de_published (lo_deps ?s)"
    using limit_keeps_assignment [OF _ _ r] by (simp add: d c demo_deps_snapshot demo_zone_build z)
  with r show ?thesis by (auto simp: d c)
qed

end
