(* ===== verification/Provider.thy ===== *)
theory Provider
  imports Inventory Config
begin

text \<open>
  Models \<open>internal/provider/provider.go\<close>: the manager that starts, stops and restarts the
  discovery sources as the configuration changes, the sink between a source and the
  inventory, and the retry delay of the sources. A source is an element of a type
  \<open>'p\<close>; what it emits is bounded by the contract of the locale \<open>host_source\<close>, which each
  source interprets. A source that does not stop in time lingers and may emit once more.
  The lemmas show that the running sources follow the configuration, how a failed start
  escapes that, what the inventory can hold, and the bounds of the delay.
\<close>

section \<open>State\<close>

record 'p running =
  rn_prov :: 'p
  rn_fp :: string

datatype prov_report = RepSuccess string nat time | RepFailure string string time

text \<open>The error values: only whether there is one, and which, is read.\<close>

datatype prov_error = NoFactory string | FactoryFailed string | NoSource string

record 'p manager =
  mg_store :: inv_store
  mg_active :: "(string, 'p running) gomap"
  mg_factories :: "(string, config \<Rightarrow> 'p option) gomap"
  mg_enabled :: "config \<Rightarrow> string \<Rightarrow> bool"
  mg_fingers :: "config \<Rightarrow> string \<Rightarrow> string"
  mg_linger :: "string list"
  mg_reports :: "prov_report list"

definition new_manager :: "inv_store \<Rightarrow> 'p manager" where
  "new_manager store =
     \<lparr>mg_store = store, mg_active = [], mg_factories = [], mg_enabled = (\<lambda>_ _. False),
      mg_fingers = (\<lambda>_ _. []), mg_linger = [], mg_reports = []\<rparr>"

definition mg_report :: "prov_report \<Rightarrow> 'p manager \<Rightarrow> 'p manager" where
  "mg_report r m = m\<lparr>mg_reports := mg_reports m @ [r]\<rparr>"

text \<open>
  \<open>fp\<close> is \<open>fingerprint(sub(cfg))\<close>; the predicate and the fingerprint of the name shadow the
  earlier ones.
\<close>

definition register ::
  "string \<Rightarrow> (config \<Rightarrow> 'p option) \<Rightarrow> (config \<Rightarrow> bool) \<Rightarrow> (config \<Rightarrow> string) \<Rightarrow> 'p manager \<Rightarrow> 'p manager" where
  "register name f enabled fp m =
     m\<lparr>mg_factories := AList.update name f (mg_factories m),
       mg_enabled := (\<lambda>cfg n. if n = name then enabled cfg else mg_enabled m cfg n),
       mg_fingers := (\<lambda>cfg n. if n = name then fp cfg else mg_fingers m cfg n)\<rparr>"

section \<open>Starting and stopping\<close>

text \<open>The closure given to \<open>Run\<close> as the sink.\<close>

definition sink_replace :: "string \<Rightarrow> host_set \<Rightarrow> 'p manager \<Rightarrow> 'p manager" where
  "sink_replace name hset m =
     (let s = hset\<lparr>hs_source := name\<rparr>; m' = m\<lparr>mg_store := inv_replace s (mg_store m)\<rparr>
      in if hs_last_error s \<noteq> [] then mg_report (RepFailure name (hs_last_error s) (hs_fetch_at s)) m'
         else mg_report (RepSuccess name (length (hs_hosts s)) (hs_fetch_at s)) m')"

text \<open>The factory's error text is the name of the source.\<close>

definition start_provider ::
  "time \<Rightarrow> config \<Rightarrow> string \<Rightarrow> string \<Rightarrow> 'p manager \<Rightarrow> 'p manager \<times> prov_error option" where
  "start_provider now cfg name fp m =
     (case map_of (mg_factories m) name of
        None \<Rightarrow> (m, Some (NoFactory name))
      | Some f \<Rightarrow>
          (case f cfg of
             None \<Rightarrow> (mg_report (RepFailure name name now) m, Some (FactoryFailed name))
           | Some p \<Rightarrow>
               (m\<lparr>mg_active := AList.update name \<lparr>rn_prov = p, rn_fp = fp\<rparr> (mg_active m)\<rparr>, None)))"

text \<open>\<open>slow name\<close>: the source does not return within ten seconds and is abandoned.\<close>

definition stop_provider :: "(string \<Rightarrow> bool) \<Rightarrow> string \<Rightarrow> 'p manager \<Rightarrow> 'p manager" where
  "stop_provider slow name m =
     (case map_of (mg_active m) name of
        None \<Rightarrow> m
      | Some r \<Rightarrow>
          m\<lparr>mg_active := AList.delete name (mg_active m),
            mg_linger := (if slow name then name # mg_linger m else mg_linger m)\<rparr>)"

definition apply_source ::
  "time \<Rightarrow> (string \<Rightarrow> bool) \<Rightarrow> config \<Rightarrow> string \<Rightarrow> 'p manager \<Rightarrow> 'p manager \<times> prov_error option" where
  "apply_source now slow cfg name m =
     (let want = mg_enabled m cfg name; fp = mg_fingers m cfg name
      in (case map_of (mg_active m) name of
            Some cur \<Rightarrow>
              if \<not> want then
                (let m1 = stop_provider slow name m
                 in (m1\<lparr>mg_store := inv_remove name (mg_store m1)\<rparr>, None))
              else if rn_fp cur \<noteq> fp then start_provider now cfg name fp (stop_provider slow name m)
              else (m, None)
          | None \<Rightarrow> if want then start_provider now cfg name fp m else (m, None)))"

text \<open>The first error is the one returned.\<close>

definition apply_next ::
  "time \<Rightarrow> (string \<Rightarrow> bool) \<Rightarrow> config \<Rightarrow> string \<Rightarrow> 'p manager \<times> prov_error option \<Rightarrow>
     'p manager \<times> prov_error option" where
  "apply_next now slow cfg name acc =
     (case acc of (m, err) \<Rightarrow>
       (case apply_source now slow cfg name m of
          (m', e) \<Rightarrow> (m', if err = None then e else err)))"

definition manager_apply ::
  "time \<Rightarrow> (string \<Rightarrow> bool) \<Rightarrow> config \<Rightarrow> 'p manager \<Rightarrow> 'p manager \<times> prov_error option" where
  "manager_apply now slow cfg m =
     fold (apply_next now slow cfg) (map fst (mg_factories m)) (m, None)"

text \<open>\<open>ask\<close> is the source's \<open>Refresh\<close>, the identity for one that has none.\<close>

definition manager_refresh ::
  "('p \<Rightarrow> 'p) \<Rightarrow> string \<Rightarrow> 'p manager \<Rightarrow> 'p manager \<times> prov_error option" where
  "manager_refresh ask source m =
     (let hit = (\<lambda>name. source = [] \<or> name = source)
      in (m\<lparr>mg_active :=
             map (\<lambda>(name, r). (name, if hit name then r\<lparr>rn_prov := ask (rn_prov r)\<rparr> else r)) (mg_active m)\<rparr>,
          if list_ex (\<lambda>(name, r). hit name) (mg_active m) then None else Some (NoSource source)))"

definition manager_status :: "time \<Rightarrow> 'p manager \<Rightarrow> source_status list \<times> 'p manager" where
  "manager_status now m =
     (case inv_snapshot now (mg_store m) of
        (snap, s') \<Rightarrow> (map snd (sn_sources snap), m\<lparr>mg_store := s'\<rparr>))"

definition manager_stop :: "(string \<Rightarrow> bool) \<Rightarrow> 'p manager \<Rightarrow> 'p manager" where
  "manager_stop slow m = fold (stop_provider slow) (map fst (mg_active m)) m"

section \<open>The retry delay\<close>

text \<open>
  \<open>jit\<close> is what \<open>rand.Int63n(d/4 + 1)\<close> answers; the call panics when its argument is not positive.
\<close>

definition backoff_base :: "int \<Rightarrow> dur \<Rightarrow> dur \<Rightarrow> dur" where
  "backoff_base attempt lo hi =
     (let d = backoff_loop 0 (if attempt < 0 then 0 else attempt) lo hi in if d > hi then hi else d)"

definition provider_backoff :: "(int \<Rightarrow> int) \<Rightarrow> int \<Rightarrow> dur \<Rightarrow> dur \<Rightarrow> dur option" where
  "provider_backoff jit attempt lo hi =
     (let d = backoff_base attempt lo hi; n = wrap64 (go_div d 4 + 1)
      in if n \<le> 0 then None else Some (wrap64 (wrap64 (d - go_div d 8) + jit n)))"

section \<open>Events\<close>

text \<open>
  What happens to a manager: the configuration is applied, an active source or one that lingers
  hands a set to its sink, the abandoned source returns at last, \<open>Run\<close> fails, the API asks.
\<close>

datatype 'p mgr_event =
    MgApply time "string \<Rightarrow> bool" config
  | MgEmit string host_set
  | MgGone string
  | MgFailed string string time
  | MgRefresh "'p \<Rightarrow> 'p" string
  | MgStatus time
  | MgStop "string \<Rightarrow> bool"

fun mgr_step :: "'p mgr_event \<Rightarrow> 'p manager \<Rightarrow> 'p manager" where
  "mgr_step (MgApply now slow cfg) m = fst (manager_apply now slow cfg m)"
| "mgr_step (MgEmit name hset) m =
     (if name \<in> fst ` set (mg_active m) \<union> set (mg_linger m) then sink_replace name hset m else m)"
| "mgr_step (MgGone name) m = m\<lparr>mg_linger := remove1 name (mg_linger m)\<rparr>"
| "mgr_step (MgFailed name err now) m = mg_report (RepFailure name err now) m"
| "mgr_step (MgRefresh ask source) m = fst (manager_refresh ask source m)"
| "mgr_step (MgStatus now) m = snd (manager_status now m)"
| "mgr_step (MgStop slow) m = manager_stop slow m"

section \<open>Applying a configuration\<close>

lemma mg_report_simps [simp]:
  "mg_store (mg_report r m) = mg_store m" "mg_active (mg_report r m) = mg_active m"
  "mg_factories (mg_report r m) = mg_factories m" "mg_enabled (mg_report r m) = mg_enabled m"
  "mg_fingers (mg_report r m) = mg_fingers m" "mg_linger (mg_report r m) = mg_linger m"
  by (simp_all add: mg_report_def)

lemma map_of_inv_remove:
  "map_of (is_sets (inv_remove name s)) n = (if n = name then None else map_of (is_sets s) n)"
  by (auto simp: inv_remove_def delete_conv')

lemma map_of_inv_replace:
  "map_of (is_sets (inv_replace hset s)) n = (if n = hs_source hset then Some hset else map_of (is_sets s) n)"
  by (simp add: inv_replace_def update_conv')

lemma stop_provider_simps [simp]:
  "mg_store (stop_provider slow name m) = mg_store m"
  "mg_factories (stop_provider slow name m) = mg_factories m"
  "mg_enabled (stop_provider slow name m) = mg_enabled m"
  "mg_fingers (stop_provider slow name m) = mg_fingers m"
  "map_of (mg_active (stop_provider slow name m)) n =
     (if n = name then None else map_of (mg_active m) n)"
  by (auto simp: stop_provider_def delete_conv' split: option.splits)

text \<open>What a start leaves active under its name.\<close>

definition started :: "'p manager \<Rightarrow> config \<Rightarrow> string \<Rightarrow> 'p running option" where
  "started m cfg name =
     (case map_of (mg_factories m) name of
        None \<Rightarrow> None
      | Some f \<Rightarrow> map_option (\<lambda>p. \<lparr>rn_prov = p, rn_fp = mg_fingers m cfg name\<rparr>) (f cfg))"

lemma start_provider_spec:
  assumes "start_provider now cfg name (mg_fingers m cfg name) m = (m', e)"
  shows "mg_store m' = mg_store m" "mg_factories m' = mg_factories m"
    "mg_enabled m' = mg_enabled m" "mg_fingers m' = mg_fingers m"
    "map_of (mg_active m') n =
       (if n = name \<and> started m cfg name \<noteq> None then started m cfg name else map_of (mg_active m) n)"
    "e = None \<longleftrightarrow> started m cfg name \<noteq> None"
  using assms by (auto simp: start_provider_def started_def update_conv' split: option.splits)

text \<open>The running source a name ends with.\<close>

definition followed :: "'p manager \<Rightarrow> config \<Rightarrow> string \<Rightarrow> 'p running option" where
  "followed m cfg name =
     (if \<not> mg_enabled m cfg name then None
      else case map_of (mg_active m) name of
        Some cur \<Rightarrow> if rn_fp cur = mg_fingers m cfg name then Some cur else started m cfg name
      | None \<Rightarrow> started m cfg name)"

lemma started_stop [simp]: "started (stop_provider slow n m) cfg name = started m cfg name"
  by (simp add: started_def split: option.split)

lemma apply_source_spec:
  assumes "apply_source now slow cfg name m = (m', e)"
  shows "mg_factories m' = mg_factories m \<and> mg_enabled m' = mg_enabled m \<and> mg_fingers m' = mg_fingers m
    \<and> map_of (mg_active m') n = (if n = name then followed m cfg name else map_of (mg_active m) n)
    \<and> map_of (is_sets (mg_store m')) n =
       (if n = name \<and> \<not> mg_enabled m cfg name \<and> map_of (mg_active m) name \<noteq> None then None
        else map_of (is_sets (mg_store m)) n)
    \<and> (e = None \<longleftrightarrow> (mg_enabled m cfg name \<longrightarrow> followed m cfg name \<noteq> None))"
proof (cases "map_of (mg_active m) name")
  case None
  show ?thesis
  proof (cases "mg_enabled m cfg name")
    case True
    then have "start_provider now cfg name (mg_fingers m cfg name) m = (m', e)"
      using assms None by (simp add: apply_source_def)
    from start_provider_spec [OF this] show ?thesis using None True by (auto simp: followed_def)
  qed (use assms None in \<open>auto simp: apply_source_def followed_def\<close>)
next
  case (Some cur)
  consider (off) "\<not> mg_enabled m cfg name" | (moved) "mg_enabled m cfg name" "rn_fp cur \<noteq> mg_fingers m cfg name"
    | (same) "mg_enabled m cfg name" "rn_fp cur = mg_fingers m cfg name" by blast
  then show ?thesis
  proof cases
    case moved
    then have "start_provider now cfg name (mg_fingers (stop_provider slow name m) cfg name) (stop_provider slow name m) = (m', e)"
      using assms Some by (simp add: apply_source_def)
    from start_provider_spec [OF this] show ?thesis using Some moved by (auto simp: followed_def)
  qed (use assms Some in \<open>auto simp: apply_source_def followed_def Let_def map_of_inv_remove\<close>)
qed

lemma fold_apply_spec:
  fixes m :: "'p manager"
  assumes "distinct names"
  shows "mg_factories (fst (fold (apply_next now slow cfg) names (m, err))) = mg_factories m
    \<and> mg_enabled (fst (fold (apply_next now slow cfg) names (m, err))) = mg_enabled m
    \<and> mg_fingers (fst (fold (apply_next now slow cfg) names (m, err))) = mg_fingers m
    \<and> map_of (mg_active (fst (fold (apply_next now slow cfg) names (m, err)))) n
        = (if n \<in> set names then followed m cfg n else map_of (mg_active m) n)
    \<and> map_of (is_sets (mg_store (fst (fold (apply_next now slow cfg) names (m, err))))) n
        = (if n \<in> set names \<and> \<not> mg_enabled m cfg n \<and> map_of (mg_active m) n \<noteq> None then None
           else map_of (is_sets (mg_store m)) n)
    \<and> (snd (fold (apply_next now slow cfg) names (m, err)) = None \<longleftrightarrow>
        err = None \<and> (\<forall>k \<in> set names. mg_enabled m cfg k \<longrightarrow> followed m cfg k \<noteq> None))"
  using assms
proof (induction names arbitrary: m err)
  case Nil
  then show ?case by simp
next
  case (Cons name names)
  obtain m' e where s: "apply_source now slow cfg name m = (m', e)" by fastforce
  note spec = apply_source_spec [OF s]
  have other: "followed m' cfg k = followed m cfg k" if "k \<noteq> name" for k
    using that by (simp add: followed_def started_def spec split: option.split)
  have frame: "mg_factories m' = mg_factories m" "mg_enabled m' = mg_enabled m" "mg_fingers m' = mg_fingers m"
    and act: "map_of (mg_active m') n = (if n = name then followed m cfg name else map_of (mg_active m) n)"
    and sets: "map_of (is_sets (mg_store m')) n =
       (if n = name \<and> \<not> mg_enabled m cfg name \<and> map_of (mg_active m) name \<noteq> None then None
        else map_of (is_sets (mg_store m)) n)"
    and err: "e = None \<longleftrightarrow> (mg_enabled m cfg name \<longrightarrow> followed m cfg name \<noteq> None)" for n
    using spec by blast+
  have nm: "name \<notin> set names" using Cons.prems by simp
  have act': "map_of (mg_active m') k = map_of (mg_active m) k" if "k \<noteq> name" for k
    using act [of k] that by simp
  have other: "followed m' cfg k = followed m cfg k" if "k \<noteq> name" for k
    unfolding followed_def started_def frame act' [OF that] ..
  have all: "(\<forall>k \<in> set names. mg_enabled m cfg k \<longrightarrow> followed m' cfg k \<noteq> None) \<longleftrightarrow>
      (\<forall>k \<in> set names. mg_enabled m cfg k \<longrightarrow> followed m cfg k \<noteq> None)"
    using nm other by metis
  have unf: "fold (apply_next now slow cfg) (name # names) (m, err)
      = fold (apply_next now slow cfg) names (m', if err = None then e else err)"
    by (simp add: apply_next_def s)
  note i = Cons.IH [where m = m' and err = "if err = None then e else err", unfolded frame all]
  have d: "distinct names" using Cons.prems by simp
  show ?case unfolding unf
    proof (intro conjI)
      let ?r = "fold (apply_next now slow cfg) names (m', if err = None then e else err)"
      show "mg_factories (fst ?r) = mg_factories m" "mg_enabled (fst ?r) = mg_enabled m"
        "mg_fingers (fst ?r) = mg_fingers m" using i [OF d] by blast+
      show "map_of (mg_active (fst ?r)) n
          = (if n \<in> set (name # names) then followed m cfg n else map_of (mg_active m) n)"
        using i [OF d] act [of n] nm other [of n] by (cases "n = name") auto
      show "map_of (is_sets (mg_store (fst ?r))) n
          = (if n \<in> set (name # names) \<and> \<not> mg_enabled m cfg n \<and> map_of (mg_active m) n \<noteq> None then None
             else map_of (is_sets (mg_store m)) n)"
        using i [OF d] sets [of n] act' [of n] nm by (cases "n = name") auto
      show "snd ?r = None \<longleftrightarrow>
          err = None \<and> (\<forall>k \<in> set (name # names). mg_enabled m cfg k \<longrightarrow> followed m cfg k \<noteq> None)"
        using i [OF d] err by auto
  qed
qed

lemma manager_apply_spec:
  fixes m :: "'p manager"
  assumes "gm_wf (mg_factories m)"
  shows "mg_factories (fst (manager_apply now slow cfg m)) = mg_factories m"
    "mg_enabled (fst (manager_apply now slow cfg m)) = mg_enabled m"
    "mg_fingers (fst (manager_apply now slow cfg m)) = mg_fingers m"
    "map_of (mg_active (fst (manager_apply now slow cfg m))) n
        = (if n \<in> fst ` set (mg_factories m) then followed m cfg n else map_of (mg_active m) n)"
    "map_of (is_sets (mg_store (fst (manager_apply now slow cfg m)))) n
        = (if n \<in> fst ` set (mg_factories m) \<and> \<not> mg_enabled m cfg n \<and> map_of (mg_active m) n \<noteq> None then None
           else map_of (is_sets (mg_store m)) n)"
    "snd (manager_apply now slow cfg m) = None \<longleftrightarrow>
        (\<forall>k \<in> fst ` set (mg_factories m). mg_enabled m cfg k \<longrightarrow> followed m cfg k \<noteq> None)"
  using fold_apply_spec [of "map fst (mg_factories m)" now slow cfg m None n] assms
  by (simp_all add: gm_wf_def manager_apply_def)

text \<open>
  C19: the running sources follow the configuration. After \<open>Apply\<close> a registered source runs exactly
  when it is enabled and could be built; one whose settings did not change is the very same instance,
  any other was built from the new configuration. The hosts of a source that was running and is now
  disabled are gone and the hosts of every other source are untouched; and when \<open>Apply\<close> reported no
  error, applying the same configuration again changes nothing.
\<close>

theorem manager_follows_config:
  assumes wf: "gm_wf (mg_factories m)" and name: "map_of (mg_factories m) name = Some f"
    and app: "manager_apply now slow cfg m = (m', err)"
  shows "map_of (mg_active m') name =
      (if \<not> mg_enabled m cfg name then None
       else case map_of (mg_active m) name of
         Some cur \<Rightarrow> if rn_fp cur = mg_fingers m cfg name then Some cur
                     else map_option (\<lambda>p. \<lparr>rn_prov = p, rn_fp = mg_fingers m cfg name\<rparr>) (f cfg)
       | None \<Rightarrow> map_option (\<lambda>p. \<lparr>rn_prov = p, rn_fp = mg_fingers m cfg name\<rparr>) (f cfg))
    \<and> map_of (is_sets (mg_store m')) name =
      (if \<not> mg_enabled m cfg name \<and> map_of (mg_active m) name \<noteq> None then None
       else map_of (is_sets (mg_store m)) name)
    \<and> (err = None \<longrightarrow>
        map_of (mg_active (fst (manager_apply now' slow' cfg m'))) name = map_of (mg_active m') name
        \<and> map_of (is_sets (mg_store (fst (manager_apply now' slow' cfg m')))) name
            = map_of (is_sets (mg_store m')) name)"
proof -
  note spec = manager_apply_spec [OF wf, of now slow cfg, unfolded app fst_conv snd_conv]
  have mem: "name \<in> fst ` set (mg_factories m)" using name by (metis map_of_eq_None_iff option.distinct(1))
  have act: "map_of (mg_active m') name = followed m cfg name" using spec(4) [of name] mem by simp
  have wf': "gm_wf (mg_factories m')" using wf spec(1) by simp
  note again = manager_apply_spec(4,5) [OF wf', of now' slow' cfg name]
  have same: "followed m' cfg name = followed m cfg name" if "err = None"
  proof -
    have "mg_enabled m cfg name \<longrightarrow> followed m cfg name \<noteq> None" using spec(6) that mem by blast
    then show ?thesis unfolding followed_def [of m'] spec(1-3) act
      by (auto simp: followed_def started_def split: option.splits if_splits)
  qed
  have "err = None \<longrightarrow> map_of (mg_active (fst (manager_apply now' slow' cfg m'))) name = map_of (mg_active m') name"
    using again(1) mem spec(1) same act by auto
  moreover have "map_of (is_sets (mg_store (fst (manager_apply now' slow' cfg m')))) name
      = map_of (is_sets (mg_store m')) name"
    using again(2) spec(2) act by (auto simp: followed_def)
  moreover have "followed m cfg name = (if \<not> mg_enabled m cfg name then None
       else case map_of (mg_active m) name of
         Some cur \<Rightarrow> if rn_fp cur = mg_fingers m cfg name then Some cur
                     else map_option (\<lambda>p. \<lparr>rn_prov = p, rn_fp = mg_fingers m cfg name\<rparr>) (f cfg)
       | None \<Rightarrow> map_option (\<lambda>p. \<lparr>rn_prov = p, rn_fp = mg_fingers m cfg name\<rparr>) (f cfg))"
    using name by (simp add: followed_def started_def split: option.split)
  ultimately show ?thesis using act spec(5) [of name] mem by simp
qed

text \<open>A source that cannot be built for one configuration and is disabled in another.\<close>

definition demo_manager :: "nat manager" where
  "demo_manager =
     sink_replace ''a'' \<lparr>hs_source = [], hs_hosts = [], hs_fetch_at = 1, hs_stale = False, hs_last_error = []\<rparr>
       (fst (manager_apply 1 (\<lambda>_. False) (default_config\<lparr>cf_node_id := ''on''\<rparr>)
         (register ''a'' (\<lambda>cfg. if cf_node_id cfg = ''bad'' then None else Some 0)
           (\<lambda>cfg. cf_node_id cfg \<noteq> ''off'') cf_node_id (new_manager new_inv_store))))"

lemma demo_manager_simps:
  "map_of (mg_factories demo_manager) ''a'' = Some (\<lambda>cfg. if cf_node_id cfg = ''bad'' then None else Some 0)"
  "gm_wf (mg_factories demo_manager)"
  "mg_enabled demo_manager cfg ''a'' \<longleftrightarrow> cf_node_id cfg \<noteq> ''off''"
  "mg_fingers demo_manager cfg ''a'' = cf_node_id cfg"
  "map_of (mg_active demo_manager) ''a'' = Some \<lparr>rn_prov = 0, rn_fp = ''on''\<rparr>"
  "map_of (is_sets (mg_store demo_manager)) ''a'' =
     Some \<lparr>hs_source = ''a'', hs_hosts = [], hs_fetch_at = 1, hs_stale = False, hs_last_error = []\<rparr>"
  by (simp_all add: demo_manager_def register_def new_manager_def manager_apply_def apply_next_def
      apply_source_def start_provider_def sink_replace_def Let_def gm_wf_Cons inv_replace_def new_inv_store_def)

theorem manager_follows_config_witness:
  "\<exists>m' err. manager_apply 5 (\<lambda>_. False) (default_config\<lparr>cf_node_id := ''off''\<rparr>) demo_manager = (m', err)
     \<and> map_of (mg_active m') ''a'' = None \<and> map_of (is_sets (mg_store m')) ''a'' = None"
proof -
  obtain m' err where m: "manager_apply 5 (\<lambda>_. False) (default_config\<lparr>cf_node_id := ''off''\<rparr>) demo_manager = (m', err)"
    by fastforce
  with manager_follows_config [OF demo_manager_simps(2) demo_manager_simps(1) m] show ?thesis
    by (auto simp: demo_manager_simps)
qed

text \<open>
  A source that cannot be restarted escapes its own disabling. When the settings of a running
  source change and the new ones cannot be built (a CA file that is missing), the old instance is
  stopped and nothing is active; its hosts stay. Disabling the source later then finds no running
  instance and does not remove them, although the same configuration applied to the running source
  would have: the hosts stay in the inventory for good.
\<close>

theorem failed_restart_leaves_hosts:
  assumes wf: "gm_wf (mg_factories m)" and name: "map_of (mg_factories m) name = Some f"
    and run: "map_of (mg_active m) name = Some cur" and hosts: "map_of (is_sets (mg_store m)) name = Some s"
    and moved: "mg_enabled m cfg1 name" "rn_fp cur \<noteq> mg_fingers m cfg1 name" "f cfg1 = None"
    and off: "\<not> mg_enabled m cfg2 name"
    and step1: "manager_apply now1 slow1 cfg1 m = (m1, err1)"
    and step2: "manager_apply now2 slow2 cfg2 m1 = (m2, err2)"
  shows "err1 \<noteq> None \<and> map_of (mg_active m2) name = None \<and> map_of (is_sets (mg_store m2)) name = Some s
    \<and> map_of (is_sets (mg_store (fst (manager_apply now2 slow2 cfg2 m)))) name = None"
proof -
  have mem: "name \<in> fst ` set (mg_factories m)" using name by (metis map_of_eq_None_iff option.distinct(1))
  note one = manager_apply_spec [OF wf, of now1 slow1 cfg1, unfolded step1 fst_conv snd_conv]
  have none: "followed m cfg1 name = None" using moved name run by (simp add: followed_def started_def)
  have m1: "map_of (mg_active m1) name = None" "map_of (is_sets (mg_store m1)) name = Some s" "err1 \<noteq> None"
    using one(4) [of name] one(5) [of name] one(6) none mem moved(1) hosts by auto
  have wf1: "gm_wf (mg_factories m1)" using wf one(1) by simp
  note two = manager_apply_spec(4,5) [OF wf1, of now2 slow2 cfg2 name, unfolded step2 fst_conv snd_conv]
  have "map_of (mg_active m2) name = None" "map_of (is_sets (mg_store m2)) name = Some s"
    using two m1 one(1,2) off by (auto simp: followed_def)
  then show ?thesis using m1(3) manager_apply_spec(5) [OF wf, of now2 slow2 cfg2 name] mem off run by auto
qed

theorem failed_restart_leaves_hosts_witness:
  "map_of (is_sets (mg_store (fst (manager_apply 3 (\<lambda>_. False) (default_config\<lparr>cf_node_id := ''off''\<rparr>)
     (fst (manager_apply 2 (\<lambda>_. False) (default_config\<lparr>cf_node_id := ''bad''\<rparr>) demo_manager)))))) ''a'' \<noteq> None"
  using failed_restart_leaves_hosts
    [OF demo_manager_simps(2,1,5,6) _ _ _ _ surjective_pairing surjective_pairing,
      of "default_config\<lparr>cf_node_id := ''bad''\<rparr>" "default_config\<lparr>cf_node_id := ''off''\<rparr>"
        2 "\<lambda>_. False" 3 "\<lambda>_. False"]
  by (simp add: demo_manager_simps)

section \<open>The retry delay\<close>

lemma provider_backoff_eq:
  assumes "0 \<le> attempt" "0 < lo" "0 < hi" "hi \<le> 2 ^ 60"
    and d: "d = min hi (lo * 2 ^ nat attempt)"
    and j: "0 \<le> j (d div 4 + 1)" "j (d div 4 + 1) < d div 4 + 1"
  shows "provider_backoff j attempt lo hi = Some (d - d div 8 + j (d div 4 + 1))"
proof -
  have base: "backoff_base attempt lo hi = d"
    using backoff_loop_pow [of lo hi 0 attempt] assms unfolding backoff_base_def Let_def
    by (auto simp: min_def split: if_splits)
  have dd: "0 < d" "d \<le> hi" using assms(2,3) d by auto
  have small: "d \<le> 2 ^ 60" using dd(2) assms(4) by simp
  have q: "go_div d 4 = d div 4" "go_div d 8 = d div 8" using dd(1) by (simp_all add: go_div_nonneg)
  have w: "wrap64 x = x" if "0 \<le> x" "x \<le> 2 ^ 62" for x
    using that by (intro wrap64_id) (simp_all add: min_int64_def max_int64_def)
  have n: "wrap64 (d div 4 + 1) = d div 4 + 1" using dd(1) small by (intro w) simp_all
  have a: "wrap64 (d - d div 8) = d - d div 8" using dd(1) small by (intro w) simp_all
  have b: "wrap64 (d - d div 8 + j (d div 4 + 1)) = d - d div 8 + j (d div 4 + 1)"
    using dd(1) small j by (intro w) simp_all
  show ?thesis using dd(1) by (simp add: provider_backoff_def base q n a b Let_def)
qed

text \<open>
  The retry delay. From the configured minimum, doubled per attempt and cut at the maximum, the
  delay takes an eighth off and adds up to a quarter; it always exists, is positive, and is at most an
  eighth above the maximum. So the maximum itself is no bound: at the cut the jitter can exceed it.
\<close>

theorem retry_delay_bounds:
  assumes "0 \<le> attempt" "0 < lo" "0 < hi" "hi \<le> 2 ^ 60"
    and jit: "\<And>n. 0 < n \<Longrightarrow> 0 \<le> jit n \<and> jit n < n"
    and d: "d = min hi (lo * 2 ^ nat attempt)"
  shows "provider_backoff jit attempt lo hi = Some (d - d div 8 + jit (d div 4 + 1))
    \<and> 0 < d - d div 8 + jit (d div 4 + 1) \<and> d - d div 8 + jit (d div 4 + 1) \<le> hi + hi div 8 + 1
    \<and> (d = hi \<and> 8 \<le> hi \<longrightarrow> (\<exists>b. provider_backoff (\<lambda>n. n - 1) attempt lo hi = Some b \<and> hi < b))"
proof -
  have dd: "0 < d" "d \<le> hi" using assms(2,3) d by auto
  note eval = provider_backoff_eq [OF assms(1-4) d]
  have j: "0 \<le> jit (d div 4 + 1)" "jit (d div 4 + 1) < d div 4 + 1"
    using jit [of "d div 4 + 1"] dd(1) by simp_all
  have "d - d div 8 + jit (d div 4 + 1) \<le> hi + hi div 8 + 1" using j(2) dd by linarith
  moreover have "0 < d - d div 8 + jit (d div 4 + 1)" using j(1) dd by linarith
  moreover have "d = hi \<and> 8 \<le> hi \<longrightarrow> (\<exists>b. provider_backoff (\<lambda>n. n - 1) attempt lo hi = Some b \<and> hi < b)"
    using eval [of "\<lambda>n. n - 1"] dd(1) by auto
  ultimately show ?thesis using eval [of jit, OF j] by blast
qed

theorem retry_delay_bounds_witness:
  "provider_backoff (\<lambda>_. 0) 3 (5 * second) (300 * second) = Some (35 * second)"
  using retry_delay_bounds [of 3 "5 * second" "300 * second" "\<lambda>_. 0" "40 * second"] by (simp add: second_def)

section \<open>What a source promises\<close>

text \<open>A set the rest of the program can use: what the zone rules, the merge and the tracker read.\<close>

definition usable_hosts :: "host_record list \<Rightarrow> bool" where
  "usable_hosts hs \<longleftrightarrow>
     distinct (map hr_id hs)
     \<and> (\<forall>h \<in> set hs. hr_id h \<noteq> [] \<and> hr_address h \<noteq> [] \<and> gm_wf (hr_attributes h)
          \<and> (hr_healthy h \<longleftrightarrow> hr_reason h = []))"

definition emits_of :: "string \<Rightarrow> 'p mgr_event list \<Rightarrow> host_set list" where
  "emits_of name evs = List.map_filter (\<lambda>ev. case ev of MgEmit n s \<Rightarrow> if n = name then Some s else None | _ \<Rightarrow> None) evs"

text \<open>What one event can do to the set of a source: nothing, drop it, or bring in one emitted.\<close>

lemma apply_next_sets:
  "map_of (is_sets (mg_store (fst (fold (apply_next now slow cfg) names acc)))) name
     \<in> {None, map_of (is_sets (mg_store (fst acc))) name}"
proof (induction names arbitrary: acc)
  case (Cons k names)
  obtain m err where acc: "acc = (m, err)" by fastforce
  obtain m' e where s: "apply_source now slow cfg k m = (m', e)" by fastforce
  have "map_of (is_sets (mg_store m')) name \<in> {None, map_of (is_sets (mg_store m)) name}"
    using apply_source_spec [OF s, of name] by simp
  then show ?case
    using Cons.IH [of "apply_next now slow cfg k acc"] by (auto simp: apply_next_def acc s)
qed simp

lemma stop_all_store: "mg_store (fold (stop_provider slow) names m) = mg_store m"
  by (induction names arbitrary: m) simp_all

lemma mgr_step_sets:
  "map_of (is_sets (mg_store (mgr_step ev m))) name
     \<in> insert None (insert (map_of (is_sets (mg_store m)) name)
         ((\<lambda>s. Some (s\<lparr>hs_source := name\<rparr>)) ` set (emits_of name [ev])))"
proof (cases ev)
  case (MgApply now slow cfg)
  then show ?thesis using apply_next_sets [of now slow cfg "map fst (mg_factories m)" "(m, None)" name]
    by (auto simp: manager_apply_def)
next
  case (MgEmit n hset)
  then show ?thesis
    by (simp add: sink_replace_def Let_def map_of_inv_replace emits_of_def map_filter_simps)
next
  case (MgStatus now)
  then show ?thesis by (simp add: manager_status_def inv_snapshot_def Let_def split: option.split)
qed (simp_all add: manager_refresh_def manager_stop_def stop_all_store Let_def)

lemma emits_of_Cons: "emits_of name (ev # evs) = emits_of name [ev] @ emits_of name evs"
  by (simp add: emits_of_def map_filter_simps split: option.split)

locale host_source =
  fixes emits :: "host_set \<Rightarrow> bool"
  assumes emits_usable: "emits s \<Longrightarrow> usable_hosts (hs_hosts s)"
begin

text \<open>Whatever happens to the manager, the set in the inventory under a source's name is usable.\<close>

lemma source_usable:
  assumes "list_all emits (emits_of name evs)"
    and "\<And>s. map_of (is_sets (mg_store m)) name = Some s \<Longrightarrow> usable_hosts (hs_hosts s)"
    and "map_of (is_sets (mg_store (fold mgr_step evs m))) name = Some s"
  shows "usable_hosts (hs_hosts s)"
  using assms
proof (induction evs arbitrary: m)
  case Nil
  then show ?case by simp
next
  case (Cons ev evs)
  have es: "list_all emits (emits_of name [ev])" "list_all emits (emits_of name evs)"
    using Cons.prems(1) emits_of_Cons [of name ev evs] by (simp_all add: list_all_iff)
  show ?case
  proof (rule Cons.IH [OF es(2)])
    fix t assume t: "map_of (is_sets (mg_store (mgr_step ev m))) name = Some t"
    consider "map_of (is_sets (mg_store m)) name = Some t"
      | u where "u \<in> set (emits_of name [ev])" "t = u\<lparr>hs_source := name\<rparr>"
      using mgr_step_sets [of ev m name] unfolding t by auto
    then show "usable_hosts (hs_hosts t)"
    proof cases
      case 1
      then show ?thesis by (rule Cons.prems(2))
    next
      case 2
      then have "emits u" using es(1) by (simp add: list_all_iff)
      from emits_usable [OF this] show ?thesis by (simp add: 2(2))
    qed
  next
    show "map_of (is_sets (mg_store (fold mgr_step evs (mgr_step ev m)))) name = Some s"
      using Cons.prems(3) by simp
  qed
qed

end

end
