(* ===== verification/Metrics.thy ===== *)
theory Metrics
  imports Runner Responder ReconLoop Provider
begin

text \<open>
  Models \<open>internal/metrics/metrics.go\<close>: the label sets of the probe series, the limit on their number,
  and every operation that publishes. The Prometheus client library is a parameter: an operation makes
  calls on it, and \<open>prom_ok\<close> states the documented effect of these calls on the children of a vector.
  A vector is named by its field in the registry. The declarations are in \<open>Exposition\<close>; the scrape handler,
  the Go and process collectors and the mutex are not modelled. The lemmas bound the number of series, and show when the series held
  are those of the running tasks and when they are not.
\<close>

section \<open>Labels\<close>

type_synonym labels = "(string, string) gomap"

definition labels_for :: "task \<Rightarrow> labels" where
  "labels_for t =
     [(''zone_src'', rt_zone_src t), (''zone_dst'', rt_zone_dst t),
      (''host_src'', ta_host (rt_src t)), (''host_dst'', ta_host (rt_dst t)),
      (''slot'', show_int (ky_slot (rt_key t))), (''class'', rt_class t),
      (''reuse_rank'', show_int (rt_rank t)), (''probe'', kind_label (ky_kind (rt_key t)))]"

text \<open>A Go map answers the empty string for an absent label.\<close>

definition label_value :: "labels \<Rightarrow> string \<Rightarrow> string" where
  "label_value l n = (case map_of l n of None \<Rightarrow> [] | Some v \<Rightarrow> v)"

definition series_key :: "labels \<Rightarrow> string" where
  "series_key l =
     label_value l ''zone_src'' @ ''|'' @ label_value l ''zone_dst'' @ ''|'' @ label_value l ''host_src'' @ ''|'' @
     label_value l ''host_dst'' @ ''|'' @ label_value l ''slot'' @ ''|'' @ label_value l ''class'' @ ''|'' @
     label_value l ''reuse_rank'' @ ''|'' @ label_value l ''probe''"

definition copy_labels :: "labels \<Rightarrow> string \<Rightarrow> string \<Rightarrow> labels" where
  "copy_labels l name v = l @ [(name, v)]"

section \<open>Calls of the library\<close>

datatype metric =
    MRtt | MRttMin | MRttMax | MRttMean | MRttQuantile | MJitter | MLoss | MSent | MReceived | MLost | MReorder
  | MTcpConnect | MProbeErrors | MLastSuccess
  | MHosts | MHostsUnres | MZones | MPairings | MSlots | MSlotsUnfilled | MSlotChanges | MReconcileDur
  | MReconcileTotal | MReconcileErrs
  | MProviderFetch | MProviderCache | MProviderSuccess
  | MPersistTotal | MPersistFails | MPersistDirty | MStateReset | MIcmpAvailable | MPingRestarts | MTasksRunning
  | MSeriesCount | MSeriesDropped | MResponder

text \<open>The values before their conversion to \<open>float64\<close>.\<close>

datatype mvalue = VSeconds dur | VUnix time | VInt int | VFloat f64

datatype prom_call =
    PObserve metric labels mvalue
  | PAdd metric labels mvalue
  | PSet metric labels mvalue
  | PDelete metric labels
  | PDeletePartial metric labels
  | PReset metric

text \<open>
  The children of the vectors, as a predicate on the metric and the labels, after a call: \<open>With\<close>
  creates the child it is asked for, \<open>Delete\<close> removes the child with these labels,
  \<open>DeletePartialMatch\<close> every child whose labels contain them, \<open>Reset\<close> all of them.
\<close>

fun children_after :: "prom_call \<Rightarrow> (metric \<Rightarrow> labels \<Rightarrow> bool) \<Rightarrow> metric \<Rightarrow> labels \<Rightarrow> bool" where
  "children_after (PObserve m l v) h = (\<lambda>n k. h n k \<or> n = m \<and> k = l)"
| "children_after (PAdd m l v) h = (\<lambda>n k. h n k \<or> n = m \<and> k = l)"
| "children_after (PSet m l v) h = (\<lambda>n k. h n k \<or> n = m \<and> k = l)"
| "children_after (PDelete m l) h = (\<lambda>n k. h n k \<and> \<not> (n = m \<and> k = l))"
| "children_after (PDeletePartial m l) h = (\<lambda>n k. h n k \<and> \<not> (n = m \<and> set l \<subseteq> set k))"
| "children_after (PReset m) h = (\<lambda>n k. h n k \<and> n \<noteq> m)"

definition prom_ok :: "(prom_call \<Rightarrow> 'p \<Rightarrow> 'p) \<Rightarrow> ('p \<Rightarrow> metric \<Rightarrow> labels \<Rightarrow> bool) \<Rightarrow> bool" where
  "prom_ok lib holds \<longleftrightarrow> (\<forall>c p. holds (lib c p) = children_after c (holds p))"

section \<open>The registry\<close>

text \<open>\<open>seen\<close> is the set of the keys admitted; its size is what the limit is compared with.\<close>

record 'p registry =
  rg_cfg :: metrics_config
  rg_seen :: "string list"
  rg_lib :: 'p

text \<open>\<open>fresh\<close> is a library with every vector registered and empty.\<close>

definition new_registry :: "f64 list \<Rightarrow> metrics_config \<Rightarrow> 'p \<Rightarrow> 'p registry" where
  "new_registry def_buckets cfg fresh =
     \<lparr>rg_cfg = (if mc_rtt_buckets cfg = [] then cfg\<lparr>mc_rtt_buckets := def_buckets\<rparr> else cfg),
      rg_seen = [], rg_lib = fresh\<rparr>"

definition prom_do :: "(prom_call \<Rightarrow> 'p \<Rightarrow> 'p) \<Rightarrow> prom_call list \<Rightarrow> 'p registry \<Rightarrow> 'p registry" where
  "prom_do lib cs r = r\<lparr>rg_lib := fold lib cs (rg_lib r)\<rparr>"

definition series_count :: "'p registry \<Rightarrow> nat" where
  "series_count r = length (rg_seen r)"

definition publish_count :: "(prom_call \<Rightarrow> 'p \<Rightarrow> 'p) \<Rightarrow> 'p registry \<Rightarrow> 'p registry" where
  "publish_count lib r = prom_do lib [PSet MSeriesCount [] (VInt (int (length (rg_seen r))))] r"

definition admit :: "(prom_call \<Rightarrow> 'p \<Rightarrow> 'p) \<Rightarrow> string \<Rightarrow> 'p registry \<Rightarrow> bool \<times> 'p registry" where
  "admit lib key r =
     (if key \<in> set (rg_seen r) then (True, r)
      else if mc_max_series (rg_cfg r) > 0 \<and> int (length (rg_seen r)) \<ge> mc_max_series (rg_cfg r) then (False, r)
      else (True, publish_count lib (r\<lparr>rg_seen := key # rg_seen r\<rparr>)))"

definition err_class_text :: "err_class \<Rightarrow> string" where
  "err_class_text e =
     (case e of ErrNone \<Rightarrow> [] | ErrTimeout \<Rightarrow> ''timeout'' | ErrResolve \<Rightarrow> ''resolve''
      | ErrUnreachable \<Rightarrow> ''unreachable'' | ErrRefused \<Rightarrow> ''refused'' | ErrPermission \<Rightarrow> ''permission''
      | ErrInternal \<Rightarrow> ''internal'')"

text \<open>The calls of one observation; \<open>fmt\<close> is the text of a quantile.\<close>

definition observe_calls :: "(f64 \<Rightarrow> string) \<Rightarrow> labels \<Rightarrow> cycle \<Rightarrow> pstats \<Rightarrow> prom_call list" where
  "observe_calls fmt l c st =
     map (\<lambda>d. PObserve MRtt l (VSeconds d)) (cy_rtt c)
     @ map (\<lambda>d. PObserve MTcpConnect l (VSeconds d)) (cy_connect c)
     @ [PAdd MSent l (VInt (cy_sent c)), PAdd MReceived l (VInt (cy_received c)),
        PAdd MLost l (VInt (cy_lost c)), PAdd MReorder l (VInt (cy_reordered c))]
     @ (if cy_class c = ErrNone then []
        else [PAdd MProbeErrors (copy_labels l ''err_class'' (err_class_text (cy_class c))) (VInt 1)])
     @ [PSet MRttMin l (VSeconds (pt_min st)), PSet MRttMax l (VSeconds (pt_max st)),
        PSet MRttMean l (VSeconds (pt_mean st)), PSet MJitter l (VSeconds (pt_jitter st)),
        PSet MLoss l (VFloat (pt_loss_ratio st))]
     @ map (\<lambda>(q, d). PSet MRttQuantile (copy_labels l ''quantile'' (fmt q)) (VSeconds d)) (pt_percentiles st)
     @ (if is_zero (pt_last_success st) then [] else [PSet MLastSuccess l (VUnix (pt_last_success st))])"

definition observe_task ::
  "(prom_call \<Rightarrow> 'p \<Rightarrow> 'p) \<Rightarrow> (f64 \<Rightarrow> string) \<Rightarrow> task \<Rightarrow> cycle \<Rightarrow> pstats \<Rightarrow> 'p registry \<Rightarrow> 'p registry" where
  "observe_task lib fmt t c st r =
     (case admit lib (series_key (labels_for t)) r of
        (False, r') \<Rightarrow> prom_do lib [PAdd MSeriesDropped [] (VInt 1)] r'
      | (True, r') \<Rightarrow> prom_do lib (observe_calls fmt (labels_for t) c st) r')"

text \<open>The vectors that hold one child for each task.\<close>

definition plain_metrics :: "metric list" where
  "plain_metrics =
     [MRtt, MTcpConnect, MRttMin, MRttMax, MRttMean, MJitter, MLoss, MSent, MReceived, MLost, MReorder, MLastSuccess]"

definition forget_calls :: "labels \<Rightarrow> prom_call list" where
  "forget_calls l =
     map (\<lambda>m. PDelete m l) plain_metrics @ [PDeletePartial MRttQuantile l, PDeletePartial MProbeErrors l]"

definition forget_task :: "(prom_call \<Rightarrow> 'p \<Rightarrow> 'p) \<Rightarrow> task \<Rightarrow> 'p registry \<Rightarrow> 'p registry" where
  "forget_task lib t r =
     (let l = labels_for t
      in prom_do lib (forget_calls l)
           (publish_count lib (r\<lparr>rg_seen := filter (\<lambda>k. k \<noteq> series_key l) (rg_seen r)\<rparr>)))"

text \<open>\<open>ReconcileDone\<close>: what the loop reports after each run.\<close>

definition trigger_text :: "trigger \<Rightarrow> string" where
  "trigger_text t =
     (case t of TriggerProvider \<Rightarrow> ''provider'' | TriggerConfig \<Rightarrow> ''config'' | TriggerHealth \<Rightarrow> ''health''
      | TriggerTimer \<Rightarrow> ''timer'' | TriggerTick \<Rightarrow> ''tick'' | TriggerAPI \<Rightarrow> ''api'' | TriggerStart \<Rightarrow> ''start'')"

definition reason_text :: "reason \<Rightarrow> string" where
  "reason_text r =
     (case r of NewSlot \<Rightarrow> ''new_slot'' | HostGone \<Rightarrow> ''host_gone'' | HostUnhealthy \<Rightarrow> ''host_unhealthy''
      | ZoneChanged \<Rightarrow> ''zone_changed'' | ClassChanged \<Rightarrow> ''class_changed'' | AnchorReset \<Rightarrow> ''anchor_reset''
      | Rebalance \<Rightarrow> ''rebalance'' | SuperChanged \<Rightarrow> ''super_changed'' | Unfilled \<Rightarrow> ''unfilled'')"

definition done_calls :: "trigger \<Rightarrow> recon_stats \<Rightarrow> delta \<Rightarrow> pairing_error option \<Rightarrow> prom_call list" where
  "done_calls t st d err =
     PAdd MReconcileTotal [(''trigger'', trigger_text t)] (VInt 1)
     # (case err of
          Some _ \<Rightarrow> [PAdd MReconcileErrs [] (VInt 1)]
        | None \<Rightarrow>
            [PObserve MReconcileDur [] (VSeconds (rs_duration st)),
             PSet MHostsUnres [] (VInt (int (rs_unresolved st))), PSet MZones [] (VInt (int (rs_zones st))),
             PSet MPairings [] (VInt (int (rs_pairings st))),
             PSet MSlotsUnfilled [] (VInt (int (rs_slots_unfilled st)))]
            @ map (\<lambda>(cl, n). PSet MSlots [(''class'', cl)] (VInt (int n))) (rs_by_class st)
            @ map (\<lambda>c. PAdd MSlotChanges [(''reason'', reason_text (sg_reason c))] (VInt 1)) (dl_sides d))"

definition reconcile_done ::
  "(prom_call \<Rightarrow> 'p \<Rightarrow> 'p) \<Rightarrow> trigger \<Rightarrow> recon_stats \<Rightarrow> delta \<Rightarrow> pairing_error option \<Rightarrow> 'p registry \<Rightarrow> 'p registry" where
  "reconcile_done lib t st d err r = prom_do lib (done_calls t st d err) r"

text \<open>The reports of the provider manager.\<close>

fun report_calls :: "prov_report \<Rightarrow> prom_call list" where
  "report_calls (RepSuccess source hosts at) =
     PAdd MProviderFetch [(''source'', source), (''result'', ''success'')] (VInt 1)
     # (if is_zero at then [] else [PSet MProviderSuccess [(''source'', source)] (VUnix at)])"
| "report_calls (RepFailure source err at) =
     [PAdd MProviderFetch [(''source'', source), (''result'', ''failure'')] (VInt 1)]"

definition provider_report :: "(prom_call \<Rightarrow> 'p \<Rightarrow> 'p) \<Rightarrow> prov_report \<Rightarrow> 'p registry \<Rightarrow> 'p registry" where
  "provider_report lib rep r = prom_do lib (report_calls rep) r"

definition set_cache_age :: "(prom_call \<Rightarrow> 'p \<Rightarrow> 'p) \<Rightarrow> string \<Rightarrow> dur \<Rightarrow> 'p registry \<Rightarrow> 'p registry" where
  "set_cache_age lib source age r = prom_do lib [PSet MProviderCache [(''source'', source)] (VSeconds age)] r"

text \<open>The counters copied on a fixed interval.\<close>

definition gauge_bool :: "metric \<Rightarrow> bool \<Rightarrow> prom_call" where
  "gauge_bool m b = PSet m [] (VInt (if b then 1 else 0))"

definition set_host_counts ::
  "(prom_call \<Rightarrow> 'p \<Rightarrow> 'p) \<Rightarrow> (hstate, nat) gomap \<Rightarrow> (string, nat) gomap \<Rightarrow> 'p registry \<Rightarrow> 'p registry" where
  "set_host_counts lib counts by_source r =
     prom_do lib (PReset MHosts
       # map (\<lambda>(st, n). PSet MHosts [(''source'', ''all''), (''state'', state_string st)] (VInt (int n))) counts
       @ map (\<lambda>(src, n). PSet MHosts [(''source'', src), (''state'', ''present'')] (VInt (int n))) by_source) r"

definition set_icmp_available :: "(prom_call \<Rightarrow> 'p \<Rightarrow> 'p) \<Rightarrow> bool \<Rightarrow> 'p registry \<Rightarrow> 'p registry" where
  "set_icmp_available lib ok r = prom_do lib [gauge_bool MIcmpAvailable ok] r"

definition set_ping_restarts :: "(prom_call \<Rightarrow> 'p \<Rightarrow> 'p) \<Rightarrow> 64 word \<Rightarrow> 'p registry \<Rightarrow> 'p registry" where
  "set_ping_restarts lib n r = prom_do lib [PSet MPingRestarts [] (VInt (uint n))] r"

definition set_persist :: "(prom_call \<Rightarrow> 'p \<Rightarrow> 'p) \<Rightarrow> store_stats \<Rightarrow> 'p registry \<Rightarrow> 'p registry" where
  "set_persist lib s r =
     prom_do lib [PSet MPersistTotal [] (VInt (uint (so_writes s))), PSet MPersistFails [] (VInt (uint (so_failures s))),
       gauge_bool MPersistDirty (so_dirty s)] r"

definition add_state_reset :: "(prom_call \<Rightarrow> 'p \<Rightarrow> 'p) \<Rightarrow> 'p registry \<Rightarrow> 'p registry" where
  "add_state_reset lib r = prom_do lib [PAdd MStateReset [] (VInt 1)] r"

definition set_responder :: "(prom_call \<Rightarrow> 'p \<Rightarrow> 'p) \<Rightarrow> responder_stats \<Rightarrow> 'p registry \<Rightarrow> 'p registry" where
  "set_responder lib s r =
     prom_do lib [PSet MResponder [(''kind'', ''udp_packets'')] (VInt (uint (rs_udp_packets s))),
       PSet MResponder [(''kind'', ''udp_rejected'')] (VInt (uint (rs_udp_rejected s))),
       PSet MResponder [(''kind'', ''tcp_conns'')] (VInt (uint (rs_tcp_conns s))),
       PSet MResponder [(''kind'', ''tcp_rejected'')] (VInt (uint (rs_tcp_rejected s)))] r"

definition set_tasks :: "(prom_call \<Rightarrow> 'p \<Rightarrow> 'p) \<Rightarrow> nat \<Rightarrow> 'p registry \<Rightarrow> 'p registry" where
  "set_tasks lib n r = prom_do lib [PSet MTasksRunning [] (VInt (int n))] r"

section \<open>The runner's calls\<close>

text \<open>
  One step of the runner with the registry it reports to: the start of \<open>Run\<close>, a cycle and its \<open>Observe\<close>, an \<open>Apply\<close> and
  the \<open>Forget\<close> of each task it stops, and the end of \<open>Run\<close>. \<open>Forget\<close> gets the task as the runner holds
  it when it stops.
\<close>

datatype export_event =
    EBegin
  | ECycle time "f64 list" task_key cycle "err option"
  | EApply time "(task_key, task) gomap"
  | EEnd

fun export_step ::
  "(prom_call \<Rightarrow> 'p \<Rightarrow> 'p) \<Rightarrow> (f64 \<Rightarrow> string) \<Rightarrow> export_event \<Rightarrow> (runner \<times> tracker) \<times> 'p registry \<Rightarrow>
     (runner \<times> tracker) \<times> 'p registry" where
  "export_step lib fmt EBegin (rh, reg) = ((runner_begin (fst rh), snd rh), reg)"
| "export_step lib fmt (ECycle now qs k c failed) (rh, reg) =
     (case run_cycle now qs k c failed rh of
        (rh', None) \<Rightarrow> (rh', reg)
      | (rh', Some (c', st)) \<Rightarrow>
          (rh', case map_of (rn_tasks (fst rh')) k of None \<Rightarrow> reg | Some t \<Rightarrow> observe_task lib fmt t c' st reg))"
| "export_step lib fmt (EApply now want) (rh, reg) =
     (case rh of (r, h) \<Rightarrow>
        if \<not> rn_ready r then (rh, reg)
        else case apply_tasks now want r of
          (r', gone, _) \<Rightarrow> ((r', h), fold (forget_task lib) gone reg))"
| "export_step lib fmt EEnd (rh, reg) =
     (case rh of (r, h) \<Rightarrow> case runner_end r of (r', gone) \<Rightarrow> ((r', h), fold (forget_task lib) gone reg))"

section \<open>Children of the vectors\<close>

lemma prom_fold: "prom_ok lib holds \<Longrightarrow> holds (fold lib cs p) = fold children_after cs (holds p)"
  by (induction cs arbitrary: p) (simp_all add: prom_ok_def)

text \<open>Calls that only create children.\<close>

fun creates :: "prom_call \<Rightarrow> bool" where
  "creates (PObserve m l v) = True"
| "creates (PAdd m l v) = True"
| "creates (PSet m l v) = True"
| "creates _ = False"

fun child_of :: "prom_call \<Rightarrow> metric \<times> labels" where
  "child_of (PObserve m l v) = (m, l)"
| "child_of (PAdd m l v) = (m, l)"
| "child_of (PSet m l v) = (m, l)"
| "child_of (PDelete m l) = (m, l)"
| "child_of (PDeletePartial m l) = (m, l)"
| "child_of (PReset m) = (m, [])"

lemma creating_fold:
  "list_all creates cs \<Longrightarrow> fold children_after cs h m l \<longleftrightarrow> h m l \<or> (m, l) \<in> child_of ` set cs"
proof (induction cs arbitrary: h)
  case (Cons c cs)
  then show ?case by (cases c) auto
qed simp

text \<open>The metrics of a task: twelve with its labels, two with one label more.\<close>

definition series_at :: "labels \<Rightarrow> metric \<Rightarrow> labels \<Rightarrow> bool" where
  "series_at l0 m l \<longleftrightarrow>
     m \<in> set plain_metrics \<and> l = l0 \<or> m \<in> {MRttQuantile, MProbeErrors} \<and> (\<exists>x. l = l0 @ [x])"

definition task_metric :: "metric \<Rightarrow> bool" where
  "task_metric m \<longleftrightarrow> m \<in> set plain_metrics \<or> m \<in> {MRttQuantile, MProbeErrors}"

lemma observe_creates: "list_all creates (observe_calls fmt l c st)"
  by (auto simp: observe_calls_def list_all_iff)

lemma observe_children: "x \<in> set (observe_calls fmt l c st) \<Longrightarrow> case_prod (series_at l) (child_of x)"
  by (auto simp: observe_calls_def series_at_def plain_metrics_def copy_labels_def split: if_splits prod.splits)

lemma observe_has: "(MSent, l) \<in> child_of ` set (observe_calls fmt l c st)"
  by (simp add: observe_calls_def image_Un)

lemma do_held: "prom_ok lib holds \<Longrightarrow> holds (rg_lib (prom_do lib cs r)) = fold children_after cs (holds (rg_lib r))"
  by (simp add: prom_do_def prom_fold)

lemma count_held:
  "prom_ok lib holds \<Longrightarrow> task_metric m \<Longrightarrow> holds (rg_lib (publish_count lib r)) m l = holds (rg_lib r) m l"
  by (auto simp: publish_count_def prom_do_def prom_ok_def task_metric_def plain_metrics_def)

lemma count_seen [simp]: "rg_seen (publish_count lib r) = rg_seen r" "rg_cfg (publish_count lib r) = rg_cfg r"
  by (simp_all add: publish_count_def prom_do_def)

lemma do_seen [simp]: "rg_seen (prom_do lib cs r) = rg_seen r" "rg_cfg (prom_do lib cs r) = rg_cfg r"
  by (simp_all add: prom_do_def)

text \<open>Whether a key is admitted.\<close>

definition admitted :: "'p registry \<Rightarrow> string \<Rightarrow> bool" where
  "admitted r key \<longleftrightarrow> key \<in> set (rg_seen r)
     \<or> \<not> (mc_max_series (rg_cfg r) > 0 \<and> int (length (rg_seen r)) \<ge> mc_max_series (rg_cfg r))"

lemma observe_seen:
  "rg_seen (observe_task lib fmt t c st r) =
     (let key = series_key (labels_for t)
      in if admitted r key then List.insert key (rg_seen r) else rg_seen r)"
  by (auto simp: observe_task_def admit_def admitted_def List.insert_def Let_def)

lemma observe_cfg [simp]: "rg_cfg (observe_task lib fmt t c st r) = rg_cfg r"
  by (auto simp: observe_task_def admit_def split: prod.split bool.split)

lemma observe_held:
  assumes ok: "prom_ok lib holds" and m: "task_metric m"
  shows "holds (rg_lib (observe_task lib fmt t c st r)) m l \<longleftrightarrow>
     holds (rg_lib r) m l
     \<or> admitted r (series_key (labels_for t)) \<and> (m, l) \<in> child_of ` set (observe_calls fmt (labels_for t) c st)"
proof -
  have "holds (rg_lib (prom_do lib cs q)) m l \<longleftrightarrow> holds (rg_lib q) m l \<or> (m, l) \<in> child_of ` set cs"
    if "list_all creates cs" for cs q
    by (simp add: do_held [OF ok] creating_fold [OF that])
  moreover have "(m, l) \<noteq> (MSeriesDropped, [])" using m by (auto simp: task_metric_def plain_metrics_def)
  ultimately show ?thesis
    using count_held [OF ok m, where l = l]
    by (auto simp: observe_task_def admit_def admitted_def observe_creates)
qed

lemma forget_seen: "rg_seen (forget_task lib t r) = filter (\<lambda>k. k \<noteq> series_key (labels_for t)) (rg_seen r)"
  by (simp add: forget_task_def Let_def)

lemma forget_cfg [simp]: "rg_cfg (forget_task lib t r) = rg_cfg r"
  by (simp add: forget_task_def Let_def)

lemma deletes_fold:
  "fold children_after (map (\<lambda>m. PDelete m l0) ms) h = (\<lambda>m l. h m l \<and> \<not> (m \<in> set ms \<and> l = l0))"
  by (induction ms arbitrary: h) auto

lemma partial_fold:
  "fold children_after [PDeletePartial m1 l0, PDeletePartial m2 l0] h
     = (\<lambda>m l. h m l \<and> \<not> (m \<in> {m1, m2} \<and> set l0 \<subseteq> set l))"
  by (simp add: fun_eq_iff) blast

lemma forget_held:
  assumes ok: "prom_ok lib holds" and m: "task_metric m"
  shows "holds (rg_lib (forget_task lib t r)) m l \<longleftrightarrow>
     holds (rg_lib r) m l
     \<and> \<not> (m \<in> set plain_metrics \<and> l = labels_for t)
     \<and> \<not> (m \<in> {MRttQuantile, MProbeErrors} \<and> set (labels_for t) \<subseteq> set l)"
  unfolding forget_task_def Let_def do_held [OF ok] forget_calls_def fold_append comp_def deletes_fold partial_fold
    count_held [OF ok m]
  by simp

lemma series_at_task: "series_at l0 m l \<Longrightarrow> task_metric m"
  by (auto simp: series_at_def task_metric_def)

text \<open>Forgetting a task removes every series of its labels.\<close>

lemma forget_gone:
  assumes ok: "prom_ok lib holds" and at: "series_at l0 m l" and h: "holds (rg_lib (forget_task lib t r)) m l"
  shows "holds (rg_lib r) m l \<and> l0 \<noteq> labels_for t"
proof -
  note held = h [unfolded forget_held [OF ok series_at_task [OF at]]]
  have "l0 \<noteq> labels_for t"
  proof
    assume "l0 = labels_for t"
    with at have "m \<in> set plain_metrics \<and> l = labels_for t
        \<or> m \<in> {MRttQuantile, MProbeErrors} \<and> set (labels_for t) \<subseteq> set l"
      unfolding series_at_def by (elim disjE conjE exE) (simp_all only: set_append Un_upper1 simp_thms)
    with held show False by blast
  qed
  with held show ?thesis by blast
qed

lemma forget_all_gone:
  assumes "prom_ok lib holds" "series_at l0 m l" "holds (rg_lib (fold (forget_task lib) ts r)) m l"
  shows "holds (rg_lib r) m l \<and> l0 \<notin> labels_for ` set ts"
  using assms(3)
proof (induction ts arbitrary: r)
  case (Cons t ts)
  from Cons.prems have "holds (rg_lib (fold (forget_task lib) ts (forget_task lib t r))) m l" by simp
  then have "holds (rg_lib (forget_task lib t r)) m l \<and> l0 \<notin> labels_for ` set ts" by (rule Cons.IH)
  with forget_gone [OF assms(1,2), of t r] show ?case by simp
qed simp

lemma forget_all_seen:
  "rg_seen (fold (forget_task lib) ts r) = filter (\<lambda>k. k \<notin> (series_key \<circ> labels_for) ` set ts) (rg_seen r)"
  by (induction ts arbitrary: r) (auto simp: forget_seen intro: filter_cong)

lemma forget_all_cfg [simp]: "rg_cfg (fold (forget_task lib) ts r) = rg_cfg r"
  by (induction ts arbitrary: r) simp_all

section \<open>The series follow the tasks\<close>

definition live :: "runner \<Rightarrow> labels set" where
  "live r = {labels_for t | t. \<exists>k. map_of (rn_tasks r) k = Some t}"

definition follows :: "('p \<Rightarrow> metric \<Rightarrow> labels \<Rightarrow> bool) \<Rightarrow> labels set \<Rightarrow> 'p registry \<Rightarrow> bool" where
  "follows holds L reg \<longleftrightarrow>
     (\<forall>m l. task_metric m \<and> holds (rg_lib reg) m l \<longrightarrow> (\<exists>l0 \<in> L. series_at l0 m l))
     \<and> set (rg_seen reg) \<subseteq> series_key ` L \<and> distinct (rg_seen reg)"

lemma follows_observe:
  assumes ok: "prom_ok lib holds" and inv: "follows holds L reg" and t: "labels_for t \<in> L"
  shows "follows holds L (observe_task lib fmt t c st reg)"
proof -
  have "\<exists>l0 \<in> L. series_at l0 m l"
    if m: "task_metric m" and h: "holds (rg_lib (observe_task lib fmt t c st reg)) m l" for m l
  proof -
    from h [unfolded observe_held [OF ok m]]
    consider "holds (rg_lib reg) m l" | x where "x \<in> set (observe_calls fmt (labels_for t) c st)" "child_of x = (m, l)"
      by auto
    then show ?thesis
    proof cases
      case 1
      then show ?thesis using inv m by (simp add: follows_def)
    next
      case 2
      then show ?thesis using observe_children [OF 2(1)] t by auto
    qed
  qed
  then show ?thesis using inv t by (auto simp: follows_def observe_seen Let_def)
qed

lemma forget_all_before:
  assumes "prom_ok lib holds" "task_metric m" "holds (rg_lib (fold (forget_task lib) ts r)) m l"
  shows "holds (rg_lib r) m l"
  using assms(3)
proof (induction ts arbitrary: r)
  case (Cons t ts)
  then have "holds (rg_lib (forget_task lib t r)) m l" by simp
  then show ?case by (simp add: forget_held [OF assms(1,2)])
qed simp

lemma follows_forget:
  assumes ok: "prom_ok lib holds" and inv: "follows holds L reg" and sub: "L \<subseteq> L' \<union> labels_for ` set gone"
  shows "follows holds L' (fold (forget_task lib) gone reg)"
proof -
  have "\<exists>l0 \<in> L'. series_at l0 m l"
    if m: "task_metric m" and h: "holds (rg_lib (fold (forget_task lib) gone reg)) m l" for m l
  proof -
    obtain l0 where l0: "l0 \<in> L" "series_at l0 m l"
      using forget_all_before [OF ok m h] inv m unfolding follows_def by blast
    then show ?thesis using forget_all_gone [OF ok l0(2) h] sub by blast
  qed
  moreover have "set (rg_seen (fold (forget_task lib) gone reg)) \<subseteq> series_key ` L'"
    using inv sub by (fastforce simp: follows_def forget_all_seen)
  ultimately show ?thesis using inv by (simp add: follows_def forget_all_seen)
qed

text \<open>A runner's step changes the tasks as follows.\<close>

lemma cycle_tasks:
  assumes "runner_inv r" "run_cycle now qs k c failed (r, h) = ((r', h'), out)"
  shows "runner_inv r' \<and> rn_ready r' = rn_ready r \<and> rn_probers r' = rn_probers r
    \<and> map_of (rn_tasks r') q = map_option (\<lambda>t. t\<lparr>rt_window := rt_window (the (map_of (rn_tasks r') q))\<rparr>) (map_of (rn_tasks r) q)"
proof (cases "map_of (rn_tasks r) k")
  case None
  then show ?thesis using assms by (cases "map_of (rn_tasks r') q") (auto simp: run_cycle_def)
next
  case (Some t)
  then obtain w where r': "r' = r\<lparr>rn_tasks := AList.update k (t\<lparr>rt_window := w\<rparr>) (rn_tasks r)\<rparr>"
    using assms(2) by (auto simp: run_cycle_def Let_def case_prod_beta)
  have "rt_key t = k" "keyed (rn_tasks r)" using assms(1) Some keyed_lookup by (auto simp: runner_inv_def)
  then have "runner_inv r'" using assms(1) Some by (auto simp: r' runner_inv_def keyed_update update_conv)
  then show ?thesis using Some by (cases "map_of (rn_tasks r) q") (auto simp: r' update_conv)
qed

lemma labels_window [simp]: "labels_for (t\<lparr>rt_window := w\<rparr>) = labels_for t"
  "labels_for (t\<lparr>rt_started := a\<rparr>) = labels_for t"
  by (simp_all add: labels_for_def)

lemma begin_simps [simp]: "rn_tasks (runner_begin r) = rn_tasks r" "runner_inv (runner_begin r) = runner_inv r"
  "live (runner_begin r) = live r"
  by (simp_all add: runner_begin_def runner_inv_def live_def)

lemma cycle_live:
  assumes "runner_inv r" "run_cycle now qs k c failed (r, h) = ((r', h'), out)"
  shows "live r' = live r"
proof -
  note q = cycle_tasks [OF assms, THEN conjunct2, THEN conjunct2, THEN conjunct2]
  have "\<exists>t'. map_of (rn_tasks r) j = Some t' \<and> labels_for t' = labels_for t" if "map_of (rn_tasks r') j = Some t" for j t
    using q [of j] that by (cases "map_of (rn_tasks r) j") (auto, metis labels_window(1))
  moreover have "\<exists>t'. map_of (rn_tasks r') j = Some t' \<and> labels_for t' = labels_for t" if "map_of (rn_tasks r) j = Some t" for j t
    using q [of j] that by auto
  ultimately show ?thesis unfolding live_def by (auto, metis+)
qed

text \<open>An \<open>Apply\<close> that changes the class or the rank of no task it keeps.\<close>

definition keeps_labels :: "(task_key, task) gomap \<Rightarrow> (task_key, task) gomap \<Rightarrow> bool" where
  "keeps_labels want tasks \<longleftrightarrow>
     (\<forall>k cur nt. map_of tasks k = Some cur \<and> map_of want k = Some nt \<and> \<not> task_moved nt cur
        \<longrightarrow> rt_class nt = rt_class cur \<and> rt_rank nt = rt_rank cur)"

lemma apply_live:
  assumes r: "runner_inv r" "rn_ready r" and want: "keyed want" "keeps_labels want (rn_tasks r)"
    and out: "apply_tasks now want r = (r', gone, starting)"
  shows "live r \<subseteq> live r' \<union> labels_for ` set gone"
proof
  fix l assume "l \<in> live r"
  then obtain k t where t: "map_of (rn_tasks r) k = Some t" "l = labels_for t" by (auto simp: live_def)
  note spec = apply_tasks_spec [OF r want(1) out]
  show "l \<in> live r' \<union> labels_for ` set gone"
  proof (cases "\<exists>nt. map_of want k = Some nt \<and> \<not> task_moved nt t")
    case True
    then obtain nt where nt: "map_of want k = Some nt" "\<not> task_moved nt t" by blast
    with t want(2) have "rt_class nt = rt_class t" "rt_rank nt = rt_rank t" by (auto simp: keeps_labels_def)
    then have "map_of (rn_tasks r') k = Some t" using nt t by (simp add: spec(2) applied_def)
    then show ?thesis using t by (auto simp: live_def)
  next
    case False
    then have "t \<in> set gone" unfolding spec(3) dropped_def using t by auto
    then show ?thesis using t by simp
  qed
qed

lemma end_tasks:
  assumes "runner_inv r" "runner_end r = (r', gone)"
  shows "runner_inv r' \<and> rn_tasks r' = [] \<and> live r \<subseteq> labels_for ` set gone \<and> rn_ready r' = rn_ready r"
proof -
  have wf: "distinct (map fst (rn_tasks r))" using assms(1) by (simp add: runner_inv_def keyed_def gm_wf_def)
  have r': "r' = fst (stop_all (map fst (rn_tasks r)) r)" "gone = snd (stop_all (map fst (rn_tasks r)) r)"
    using assms(2) by (simp_all add: runner_end_def)
  have "map_of (rn_tasks r') k = None" for k
    by (auto simp: r' stop_all_tasks map_of_eq_None_iff)
  then have none: "rn_tasks r' = []" by (metis map_of_eq_empty_iff ext)
  have "t \<in> set gone" if "map_of (rn_tasks r) k = Some t" for k t
    using that map_of_SomeD [OF that] unfolding r' stop_all_gone [OF wf] set_map_filter by force
  then show ?thesis using none stop_all_tasks(3) by (auto simp: live_def runner_inv_def keyed_Nil r')
qed

text \<open>The runs in which each \<open>Apply\<close> gets a map of tasks and keeps the labels.\<close>

fun event_steady :: "export_event \<Rightarrow> (runner \<times> tracker) \<times> 'p registry \<Rightarrow> bool" where
  "event_steady (EApply now want) s \<longleftrightarrow> keyed want \<and> keeps_labels want (rn_tasks (fst (fst s)))"
| "event_steady _ s \<longleftrightarrow> True"

fun steady ::
  "(prom_call \<Rightarrow> 'p \<Rightarrow> 'p) \<Rightarrow> (f64 \<Rightarrow> string) \<Rightarrow> export_event list \<Rightarrow> (runner \<times> tracker) \<times> 'p registry \<Rightarrow> bool" where
  "steady lib fmt [] s \<longleftrightarrow> True"
| "steady lib fmt (e # es) s \<longleftrightarrow> event_steady e s \<and> steady lib fmt es (export_step lib fmt e s)"

definition export_inv ::
  "('p \<Rightarrow> metric \<Rightarrow> labels \<Rightarrow> bool) \<Rightarrow> (runner \<times> tracker) \<times> 'p registry \<Rightarrow> bool" where
  "export_inv holds s \<longleftrightarrow> runner_inv (fst (fst s)) \<and> follows holds (live (fst (fst s))) (snd s)"

lemma export_step_inv:
  assumes ok: "prom_ok lib holds" and inv: "export_inv holds s" and st: "event_steady e s"
  shows "export_inv holds (export_step lib fmt e s)"
proof -
  obtain r h reg where s: "s = ((r, h), reg)" by (metis prod.collapse)
  have r: "runner_inv r" and f: "follows holds (live r) reg" using inv by (simp_all add: s export_inv_def)
  show ?thesis
  proof (cases e)
    case EBegin
    then show ?thesis using inv by (simp add: s export_inv_def)
  next
    case (ECycle now qs k c failed)
    obtain r' h' out where run: "run_cycle now qs k c failed (r, h) = ((r', h'), out)" by (metis prod.collapse)
    have live: "live r' = live r" by (rule cycle_live [OF r run])
    have r': "runner_inv r'" using cycle_tasks [OF r run] by blast
    have "labels_for t \<in> live r'" if "map_of (rn_tasks r') k = Some t" for t using that by (auto simp: live_def)
    then show ?thesis using f r' follows_observe [OF ok, of "live r'"]
      by (auto simp: ECycle s run export_inv_def live split: option.split)
  next
    case (EApply now want)
    show ?thesis
    proof (cases "rn_ready r")
      case True
      obtain r' gone starting where out: "apply_tasks now want r = (r', gone, starting)" by (metis prod_cases3)
      have want: "keyed want" "keeps_labels want (rn_tasks r)" using st by (simp_all add: EApply s)
      have "live r \<subseteq> live r' \<union> labels_for ` set gone" by (rule apply_live [OF r True want out])
      then show ?thesis using apply_tasks_spec(1) [OF r True want(1) out] follows_forget [OF ok f] True
        by (simp add: EApply s out export_inv_def)
    qed (use inv in \<open>simp add: EApply s\<close>)
  next
    case EEnd
    obtain r' gone where out: "runner_end r = (r', gone)" by fastforce
    then show ?thesis using end_tasks [OF r out] follows_forget [OF ok f, of "live r'" gone]
      by (auto simp: EEnd s export_inv_def)
  qed
qed

lemma steady_run:
  assumes ok: "prom_ok lib holds"
  shows "export_inv holds s \<Longrightarrow> steady lib fmt es s \<Longrightarrow> export_inv holds (fold (export_step lib fmt) es s)"
  by (induction es arbitrary: s) (simp_all add: export_step_inv [OF ok])

definition no_series :: "('p \<Rightarrow> metric \<Rightarrow> labels \<Rightarrow> bool) \<Rightarrow> 'p \<Rightarrow> bool" where
  "no_series holds p \<longleftrightarrow> (\<forall>m l. task_metric m \<longrightarrow> \<not> holds p m l)"

lemma export_start: "no_series holds fresh \<Longrightarrow> export_inv holds ((new_runner probers, h), new_registry b cfg fresh)"
  by (auto simp: export_inv_def new_runner_def runner_inv_def keyed_Nil follows_def new_registry_def no_series_def)

text \<open>
  C24: the series are those of the running tasks. Take any run of a runner and its registry: its
  start, cycles of tasks, applications of new task sets, its end, in any order, where no application
  changes the class or the rank of a task it keeps. Whatever library keeps its documented contract,
  afterwards every series held for a task (a child of one of the fourteen vectors) carries the labels of
  a task that is running, the registry counts at most as many label sets as there are running tasks,
  and once the runner has ended no series of any task is left.
\<close>

theorem series_follow_tasks:
  assumes ok: "prom_ok lib holds" and fresh: "no_series holds fresh"
    and es: "steady lib fmt es ((new_runner probers, h), new_registry b cfg fresh)"
    and run: "fold (export_step lib fmt) es ((new_runner probers, h), new_registry b cfg fresh) = ((r, h'), reg)"
  shows "(\<forall>m l. task_metric m \<and> holds (rg_lib reg) m l \<longrightarrow>
            (\<exists>k t. map_of (rn_tasks r) k = Some t \<and> series_at (labels_for t) m l))
    \<and> series_count reg \<le> task_count r
    \<and> no_series holds (rg_lib (snd (export_step lib fmt EEnd ((r, h'), reg))))"
proof -
  have inv: "export_inv holds ((r, h'), reg)"
    using steady_run [OF ok export_start [OF fresh] es] run by simp
  then have f: "follows holds (live r) reg" by (simp add: export_inv_def)
  then have held: "\<exists>l0 \<in> live r. series_at l0 m l" if "task_metric m" "holds (rg_lib reg) m l" for m l
    using that unfolding follows_def by blast
  have lv: "live r \<subseteq> labels_for ` snd ` set (rn_tasks r)" by (force simp: live_def dest: map_of_SomeD)
  have "set (rg_seen reg) \<subseteq> series_key ` live r" and d: "distinct (rg_seen reg)"
    using f unfolding follows_def by blast+
  then have sub: "set (rg_seen reg) \<subseteq> series_key ` labels_for ` snd ` set (rn_tasks r)"
    using image_mono [OF lv, of series_key] by (meson subset_trans)
  have "series_count reg = card (set (rg_seen reg))"
    using d by (simp add: series_count_def distinct_card)
  also have "\<dots> \<le> card (series_key ` labels_for ` snd ` set (rn_tasks r))"
    using sub by (intro card_mono finite_imageI finite_set)
  also have "\<dots> \<le> task_count r"
    unfolding task_count_def image_image by (metis card_image_le card_length finite_set le_trans)
  finally have count: "series_count reg \<le> task_count r" .
  have "export_inv holds (export_step lib fmt EEnd ((r, h'), reg))" by (rule export_step_inv [OF ok inv]) simp
  moreover obtain r' gone where out: "runner_end r = (r', gone)" by fastforce
  moreover have "live r' = {}"
    using end_tasks [OF _ out] inv by (simp add: export_inv_def live_def)
  ultimately have "no_series holds (rg_lib (snd (export_step lib fmt EEnd ((r, h'), reg))))"
    by (auto simp: export_inv_def follows_def no_series_def)
  then show ?thesis using held count by (fastforce simp: live_def)
qed

section \<open>The limit\<close>

definition tidy :: "task \<Rightarrow> bool" where
  "tidy t \<longleftrightarrow> bar_free (rt_zone_src t) \<and> bar_free (rt_zone_dst t) \<and> bar_free (ta_host (rt_src t))
     \<and> bar_free (ta_host (rt_dst t)) \<and> bar_free (rt_class t)"

lemma bar_split:
  "bar_free a \<Longrightarrow> bar_free a' \<Longrightarrow> a @ CHR ''|'' # x = a' @ CHR ''|'' # x' \<longleftrightarrow> a = a' \<and> x = x'"
proof (induction a arbitrary: a')
  case Nil
  then show ?case by (cases a') (auto simp: bar_free_def)
next
  case (Cons c a)
  then show ?case by (cases a') (auto simp: bar_free_def)
qed

lemma bar_split_last:
  "bar_free x \<Longrightarrow> bar_free x' \<Longrightarrow> a @ CHR ''|'' # x = a' @ CHR ''|'' # x' \<longleftrightarrow> a = a' \<and> x = x'"
  using bar_split [of "rev x" "rev x'" "rev a" "rev a'"] rev_is_rev_conv [of "a @ CHR ''|'' # x" "a' @ CHR ''|'' # x'"]
  by (auto simp: bar_free_def)

lemma show_nat_chars: "c \<in> set (show_nat n) \<Longrightarrow> (of_char c :: nat) \<in> {48..57}"
  using digits10_lt of_char_digit_char by (fastforce simp: show_nat_def)

lemma show_int_bar_free [simp]: "bar_free (show_int i)"
  using show_nat_chars [of "CHR ''|''"] by (auto simp: bar_free_def show_int_def)

lemma kind_label_bar_free [simp]: "bar_free (kind_label k)"
  by (cases k) (simp_all add: kind_label_def bar_free_def)

lemma show_int_inject: "show_int i = show_int j \<Longrightarrow> i = j"
proof -
  assume eq: "show_int i = show_int j"
  have neg: "''-'' @ show_nat m \<noteq> show_nat n" for m n
  proof
    assume "''-'' @ show_nat m = show_nat n"
    then have "CHR ''-'' \<in> set (show_nat n)" by (metis append_Cons list.set_intros(1))
    from show_nat_chars [OF this] show False by simp
  qed
  show ?thesis
    using eq neg [of "nat (- i)" "nat j"] neg [of "nat (- j)" "nat i"] show_nat_inject [of "nat (- i)" "nat (- j)"]
      show_nat_inject [of "nat i" "nat j"]
    by (auto simp: show_int_def split: if_splits)
qed

lemma series_key_eq:
  "series_key (labels_for t) =
     rt_zone_src t @ CHR ''|'' # rt_zone_dst t @ CHR ''|'' # ta_host (rt_src t) @ CHR ''|'' # ta_host (rt_dst t)
     @ CHR ''|'' # show_int (ky_slot (rt_key t)) @ CHR ''|'' # rt_class t @ CHR ''|'' # show_int (rt_rank t)
     @ CHR ''|'' # kind_label (ky_kind (rt_key t))"
  by (simp add: series_key_def labels_for_def label_value_def)

text \<open>Where no part has a bar, the key of a label set determines it.\<close>

lemma tidy_key_inject:
  assumes "tidy t" "tidy u" "series_key (labels_for t) = series_key (labels_for u)"
  shows "labels_for t = labels_for u"
proof -
  have b: "bar_free (rt_zone_src t)" "bar_free (rt_zone_dst t)" "bar_free (ta_host (rt_src t))"
    "bar_free (ta_host (rt_dst t))" "bar_free (rt_class t)" "bar_free (rt_zone_src u)" "bar_free (rt_zone_dst u)"
    "bar_free (ta_host (rt_src u))" "bar_free (ta_host (rt_dst u))" "bar_free (rt_class u)"
    using assms by (simp_all add: tidy_def)
  show ?thesis
    using assms(3) unfolding series_key_eq by (simp add: bar_split b labels_for_def)
qed

lemma relabelled_key:
  assumes "series_key (labels_for (t\<lparr>rt_class := c, rt_rank := n\<rparr>)) = series_key (labels_for t)"
  shows "c = rt_class t \<and> n = rt_rank t"
proof -
  define pre where "pre = rt_zone_src t @ CHR ''|'' # rt_zone_dst t @ CHR ''|'' # ta_host (rt_src t) @ CHR ''|''
     # ta_host (rt_dst t) @ CHR ''|'' # show_int (ky_slot (rt_key t)) @ [CHR ''|'']"
  have key: "series_key (labels_for (t\<lparr>rt_class := x, rt_rank := i\<rparr>))
      = ((pre @ x) @ CHR ''|'' # show_int i) @ CHR ''|'' # kind_label (ky_kind (rt_key t))" for x i
    by (simp add: series_key_eq pre_def)
  have "t = t\<lparr>rt_class := rt_class t, rt_rank := rt_rank t\<rparr>" by simp
  with assms have "series_key (labels_for (t\<lparr>rt_class := c, rt_rank := n\<rparr>))
      = series_key (labels_for (t\<lparr>rt_class := rt_class t, rt_rank := rt_rank t\<rparr>))" by simp
  then have "pre @ c = pre @ rt_class t \<and> show_int n = show_int (rt_rank t)"
    unfolding key bar_split_last [OF kind_label_bar_free kind_label_bar_free]
      bar_split_last [OF show_int_bar_free show_int_bar_free] by blast
  then show ?thesis using show_int_inject by simp
qed

fun export_ok :: "export_event \<Rightarrow> bool" where
  "export_ok (EApply now want) \<longleftrightarrow> keyed want \<and> (\<forall>k t. map_of want k = Some t \<longrightarrow> tidy t)"
| "export_ok _ \<longleftrightarrow> True"

definition capped ::
  "('p \<Rightarrow> metric \<Rightarrow> labels \<Rightarrow> bool) \<Rightarrow> metrics_config \<Rightarrow> 'p registry \<Rightarrow> bool" where
  "capped holds cfg reg \<longleftrightarrow>
     rg_cfg reg = cfg \<and> distinct (rg_seen reg)
     \<and> (0 < mc_max_series cfg \<longrightarrow> int (length (rg_seen reg)) \<le> mc_max_series cfg)
     \<and> (\<forall>m l. task_metric m \<and> holds (rg_lib reg) m l \<longrightarrow>
           (\<exists>t. tidy t \<and> series_at (labels_for t) m l \<and> series_key (labels_for t) \<in> set (rg_seen reg)))"

lemma capped_observe:
  assumes ok: "prom_ok lib holds" and inv: "capped holds cfg reg" and t: "tidy t"
  shows "capped holds cfg (observe_task lib fmt t c st reg)"
proof -
  let ?reg = "observe_task lib fmt t c st reg" and ?key = "series_key (labels_for t)"
  have seen: "rg_seen ?reg = (if admitted reg ?key then List.insert ?key (rg_seen reg) else rg_seen reg)"
    by (simp add: observe_seen Let_def)
  have "\<exists>u. tidy u \<and> series_at (labels_for u) m l \<and> series_key (labels_for u) \<in> set (rg_seen ?reg)"
    if m: "task_metric m" and h: "holds (rg_lib ?reg) m l" for m l
  proof -
    from h [unfolded observe_held [OF ok m]]
    consider "holds (rg_lib reg) m l"
      | x where "admitted reg ?key" "x \<in> set (observe_calls fmt (labels_for t) c st)" "child_of x = (m, l)"
      by auto
    then show ?thesis
    proof cases
      case 1
      with m inv obtain u where "tidy u" "series_at (labels_for u) m l" "series_key (labels_for u) \<in> set (rg_seen reg)"
        unfolding capped_def by blast
      then show ?thesis by (auto simp: seen)
    next
      case 2
      then show ?thesis using observe_children [OF 2(2)] t by (auto simp: seen)
    qed
  qed
  moreover have "0 < mc_max_series cfg \<longrightarrow> int (length (rg_seen ?reg)) \<le> mc_max_series cfg"
    using inv by (auto simp: seen capped_def admitted_def List.insert_def)
  ultimately show ?thesis using inv by (simp add: capped_def seen)
qed

lemma capped_forget:
  assumes ok: "prom_ok lib holds" and inv: "capped holds cfg reg" and t: "tidy t"
  shows "capped holds cfg (forget_task lib t reg)"
proof -
  have "\<exists>u. tidy u \<and> series_at (labels_for u) m l \<and> series_key (labels_for u) \<in> set (rg_seen (forget_task lib t reg))"
    if m: "task_metric m" and h: "holds (rg_lib (forget_task lib t reg)) m l" for m l
  proof -
    have "holds (rg_lib reg) m l" using h by (simp add: forget_held [OF ok m])
    with m inv obtain u where u: "tidy u" "series_at (labels_for u) m l" "series_key (labels_for u) \<in> set (rg_seen reg)"
      unfolding capped_def by blast
    have "labels_for u \<noteq> labels_for t" using forget_gone [OF ok u(2) h] by blast
    then have "series_key (labels_for u) \<noteq> series_key (labels_for t)" using tidy_key_inject [OF u(1) t] by blast
    with u show ?thesis by (auto simp: forget_seen)
  qed
  moreover have "0 < mc_max_series cfg \<longrightarrow> int (length (rg_seen (forget_task lib t reg))) \<le> mc_max_series cfg"
  proof -
    have "int (length (rg_seen (forget_task lib t reg))) \<le> int (length (rg_seen reg))" by (simp add: forget_seen)
    moreover have "0 < mc_max_series cfg \<longrightarrow> int (length (rg_seen reg)) \<le> mc_max_series cfg"
      using inv unfolding capped_def by blast
    ultimately show ?thesis by linarith
  qed
  ultimately show ?thesis using inv by (simp add: capped_def forget_seen)
qed

lemma capped_forget_all:
  assumes ok: "prom_ok lib holds"
  shows "capped holds cfg reg \<Longrightarrow> \<forall>t \<in> set ts. tidy t \<Longrightarrow> capped holds cfg (fold (forget_task lib) ts reg)"
  by (induction ts arbitrary: reg) (simp_all add: capped_forget [OF ok])

definition tidy_tasks :: "runner \<Rightarrow> bool" where
  "tidy_tasks r \<longleftrightarrow> runner_inv r \<and> (\<forall>k t. map_of (rn_tasks r) k = Some t \<longrightarrow> tidy t)"

lemma tidy_simps [simp]:
  "tidy (t\<lparr>rt_window := w\<rparr>) = tidy t" "tidy (t\<lparr>rt_started := a\<rparr>) = tidy t"
  by (simp_all add: tidy_def)

lemma tidy_apply:
  assumes r: "tidy_tasks r" "rn_ready r" and want: "export_ok (EApply now want)"
    and out: "apply_tasks now want r = (r', gone, starting)"
  shows "tidy_tasks r' \<and> (\<forall>t \<in> set gone. tidy t)"
proof -
  have ri: "runner_inv r" and tt: "\<And>k t. map_of (rn_tasks r) k = Some t \<Longrightarrow> tidy t"
    using r(1) by (auto simp: tidy_tasks_def)
  have kw: "keyed want" and tw: "\<And>k t. map_of want k = Some t \<Longrightarrow> tidy t" using want by auto
  note spec = apply_tasks_spec [OF ri r(2) kw out]
  have "tidy t" if "map_of (rn_tasks r') k = Some t" for k t
    using that [unfolded spec(2) applied_def] tw [of k] tt [of k]
    by (auto simp: tidy_def split: option.splits if_splits)
  moreover have "\<forall>t \<in> set gone. tidy t" unfolding spec(3) dropped_def using tt by auto
  ultimately show ?thesis using spec(1) by (simp add: tidy_tasks_def)
qed

definition cap_inv ::
  "(prom_call \<Rightarrow> 'p \<Rightarrow> 'p) \<Rightarrow> ('p \<Rightarrow> metric \<Rightarrow> labels \<Rightarrow> bool) \<Rightarrow> metrics_config \<Rightarrow>
     (runner \<times> tracker) \<times> 'p registry \<Rightarrow> bool" where
  "cap_inv lib holds cfg s \<longleftrightarrow> prom_ok lib holds \<and> tidy_tasks (fst (fst s)) \<and> capped holds cfg (snd s)"

lemma cap_step:
  assumes inv: "cap_inv lib holds cfg s" and e: "export_ok e"
  shows "cap_inv lib holds cfg (export_step lib fmt e s)"
proof -
  obtain r h reg where s: "s = ((r, h), reg)" by (metis prod.collapse)
  have ok: "prom_ok lib holds" and r: "tidy_tasks r" and cap: "capped holds cfg reg"
    using inv by (simp_all add: s cap_inv_def)
  then have ri: "runner_inv r" by (simp add: tidy_tasks_def)
  show ?thesis
  proof (cases e)
    case EBegin
    then show ?thesis using inv by (simp add: s cap_inv_def tidy_tasks_def)
  next
    case (ECycle now qs k c failed)
    obtain r' h' out where run: "run_cycle now qs k c failed (r, h) = ((r', h'), out)" by (metis prod.collapse)
    note t = cycle_tasks [OF ri run]
    have tidy': "tidy u" if "map_of (rn_tasks r') q = Some u" for q u
    proof -
      from that t [of q] obtain v where v: "map_of (rn_tasks r) q = Some v" "u = v\<lparr>rt_window := rt_window u\<rparr>"
        by (cases "map_of (rn_tasks r) q") auto
      then have "tidy v" using r by (auto simp: tidy_tasks_def)
      then show ?thesis by (subst v(2)) simp
    qed
    then have "tidy_tasks r'" using t by (auto simp: tidy_tasks_def)
    then show ?thesis using ok cap capped_observe [OF ok cap tidy'] by (auto simp: ECycle s run cap_inv_def split: option.split)
  next
    case (EApply now want)
    obtain r' gone starting where out: "apply_tasks now want r = (r', gone, starting)" by (metis prod_cases3)
    show ?thesis using inv ok cap tidy_apply [OF r _ e [unfolded EApply] out] capped_forget_all [OF ok cap, of gone]
      by (auto simp: EApply s out cap_inv_def)
  next
    case EEnd
    obtain r' gone where out: "runner_end r = (r', gone)" by fastforce
    have wf: "distinct (map fst (rn_tasks r))" using ri by (simp add: runner_inv_def keyed_def gm_wf_def)
    have "gone = List.map_filter (map_of (rn_tasks r)) (map fst (rn_tasks r))"
      using out stop_all_gone [OF wf] by (simp add: runner_end_def prod_eq_iff)
    then have "\<forall>t \<in> set gone. tidy t" using r by (auto simp: set_map_filter tidy_tasks_def)
    then show ?thesis using ok end_tasks [OF ri out] capped_forget_all [OF ok cap]
      by (simp add: EEnd s out cap_inv_def tidy_tasks_def)
  qed
qed

interpretation exporting: guarded_machine "export_step lib fmt" export_ok "cap_inv lib holds cfg"
  for lib fmt holds cfg
  by unfold_locales (rule cap_step)

lemma series_at_inject: "series_at l0 m l \<Longrightarrow> series_at l1 m l \<Longrightarrow> l0 = l1"
  by (auto simp: series_at_def plain_metrics_def)

text \<open>
  The limit on the number of series holds. Take any run of a runner and its registry: its start,
  cycles, applications of new task sets (their zones, hosts and classes free of the vertical bar) and its
  end, in any order. When the configured limit is positive, at no time more label sets of tasks are
  held by the library than the limit says, nor counted by the registry; the limit bounds the samples of
  new label sets, and a label set that is forgotten makes room.
\<close>

theorem series_capped:
  assumes ok: "prom_ok lib holds" and fresh: "no_series holds fresh" and max: "0 < mc_max_series cfg"
    and es: "list_all export_ok es"
    and run: "fold (export_step lib fmt) es ((new_runner probers, h), new_registry b cfg fresh) = ((r, h'), reg)"
  shows "int (card {l0. \<exists>m l. task_metric m \<and> holds (rg_lib reg) m l \<and> series_at l0 m l}) \<le> mc_max_series cfg
    \<and> int (series_count reg) \<le> mc_max_series cfg"
proof -
  let ?cfg = "if mc_rtt_buckets cfg = [] then cfg\<lparr>mc_rtt_buckets := b\<rparr> else cfg"
  have "cap_inv lib holds ?cfg ((new_runner probers, h), new_registry b cfg fresh)"
    using ok fresh max by (auto simp: cap_inv_def tidy_tasks_def new_runner_def runner_inv_def keyed_Nil capped_def
        new_registry_def no_series_def)
  from exporting.run_keeps_ok [OF this es, of fmt, unfolded run]
  have cap: "capped holds ?cfg reg" by (simp add: cap_inv_def)
  have "mc_max_series ?cfg = mc_max_series cfg" by simp
  then have len: "int (length (rg_seen reg)) \<le> mc_max_series cfg" using max cap unfolding capped_def by metis
  let ?L = "{l0. \<exists>m l. task_metric m \<and> holds (rg_lib reg) m l \<and> series_at l0 m l}"
  have L: "\<exists>t. tidy t \<and> l0 = labels_for t \<and> series_key (labels_for t) \<in> set (rg_seen reg)" if l0: "l0 \<in> ?L" for l0
  proof -
    from l0 obtain m l where m: "task_metric m" "holds (rg_lib reg) m l" "series_at l0 m l" by blast
    then obtain t where t: "tidy t" "series_at (labels_for t) m l" "series_key (labels_for t) \<in> set (rg_seen reg)"
      using cap unfolding capped_def by blast
    with series_at_inject [OF m(3) t(2)] show ?thesis by blast
  qed
  have "inj_on series_key ?L"
  proof (rule inj_onI)
    fix x y assume "x \<in> ?L" "y \<in> ?L" and key: "series_key x = series_key y"
    obtain t where "tidy t" "x = labels_for t" using L [OF \<open>x \<in> ?L\<close>] by blast
    moreover obtain u where "tidy u" "y = labels_for u" using L [OF \<open>y \<in> ?L\<close>] by blast
    ultimately show "x = y" using tidy_key_inject key by blast
  qed
  moreover have "series_key ` ?L \<subseteq> set (rg_seen reg)" using L by blast
  ultimately have "card ?L \<le> card (set (rg_seen reg))" by (rule card_inj_on_le) simp
  also have "\<dots> \<le> length (rg_seen reg)" by (rule card_length)
  finally have "card ?L \<le> length (rg_seen reg)" .
  then show ?thesis using len by (simp add: series_count_def)
qed

section \<open>A task whose labels change\<close>

text \<open>
  A task that is relabelled leaves its old series behind for good. Let a running task have its series,
  counted in the registry; an \<open>Apply\<close> keeps it running with another class or rank; and a later one
  stops every task. If no other task had the same key, then although nothing runs any more and each
  task was forgotten as it stopped, every series of the old labels is still held and exported,
  and the old label set still counts against the limit of the registry.
\<close>

theorem relabelled_series_leak:
  assumes ok: "prom_ok lib holds" and r: "runner_inv r" "rn_ready r" and want: "keyed want"
    and cur: "map_of (rn_tasks r) k = Some cur" and nt: "map_of want k = Some nt" "\<not> task_moved nt cur"
    and new: "rt_class nt \<noteq> rt_class cur \<or> rt_rank nt \<noteq> rt_rank cur"
    and held: "m \<in> set plain_metrics" "holds (rg_lib reg) m (labels_for cur)"
    and seen: "series_key (labels_for cur) \<in> set (rg_seen reg)"
    and others: "\<forall>j t. j \<noteq> k \<and> (map_of (rn_tasks r) j = Some t
        \<or> applied now want (rn_probers r) (rn_tasks r) j = Some t) \<longrightarrow> series_key (labels_for t) \<noteq> series_key (labels_for cur)"
    and run: "fold (export_step lib fmt) [EApply now want, EApply later []] ((r, h), reg) = ((r', h'), reg')"
  shows "rn_tasks r' = [] \<and> holds (rg_lib reg') m (labels_for cur)
    \<and> series_key (labels_for cur) \<in> set (rg_seen reg')"
proof -
  let ?key = "series_key (labels_for cur)"
  obtain r1 gone1 start1 where out1: "apply_tasks now want r = (r1, gone1, start1)" by (metis prod_cases3)
  note spec1 = apply_tasks_spec [OF r want out1]
  have r1: "runner_inv r1" "rn_ready r1" using spec1(1) by blast+
  obtain r2 gone2 start2 where out2: "apply_tasks later [] r1 = (r2, gone2, start2)" by (metis prod_cases3)
  note spec2 = apply_tasks_spec [OF r1 keyed_Nil out2]
  have r': "r' = r2" "reg' = fold (forget_task lib) (gone1 @ gone2) reg"
    using run r(2) r1(2) by (simp_all add: out1 out2)
  have "map_of (rn_tasks r2) j = None" for j by (simp add: spec2(2) applied_def)
  then have none: "rn_tasks r' = []" unfolding r' by (metis map_of_eq_empty_iff ext)
  have "series_key (labels_for t) \<noteq> ?key" if "t \<in> set gone1" for t
  proof -
    from that obtain j where j: "map_of (rn_tasks r) j = Some t" "\<forall>x. map_of want j = Some x \<longrightarrow> task_moved x t"
      unfolding spec1(3) dropped_def by blast
    then have "j \<noteq> k" using cur nt by auto
    then show ?thesis using others j(1) by blast
  qed
  moreover have "series_key (labels_for t) \<noteq> ?key" if "t \<in> set gone2" for t
  proof -
    from that obtain j where j: "applied now want (rn_probers r) (rn_tasks r) j = Some t"
      unfolding spec2(3) dropped_def spec1(2) by blast
    show ?thesis
    proof (cases "j = k")
      case True
      then have "t = cur\<lparr>rt_class := rt_class nt, rt_rank := rt_rank nt\<rparr>" using j cur nt by (simp add: applied_def)
      then show ?thesis using relabelled_key [where t = cur and c = "rt_class nt" and n = "rt_rank nt"] new by blast
    qed (use others j in blast)
  qed
  ultimately have gone: "\<forall>t \<in> set (gone1 @ gone2). series_key (labels_for t) \<noteq> ?key" by auto
  have m: "task_metric m" "m \<notin> {MRttQuantile, MProbeErrors}" using held(1) by (auto simp: task_metric_def plain_metrics_def)
  have "holds (rg_lib (fold (forget_task lib) ts q)) m (labels_for cur)"
    if "\<forall>t \<in> set ts. series_key (labels_for t) \<noteq> ?key" "holds (rg_lib q) m (labels_for cur)" for ts q
    using that
  proof (induction ts arbitrary: q)
    case (Cons t ts)
    then have "labels_for cur \<noteq> labels_for t" by auto
    then have "holds (rg_lib (forget_task lib t q)) m (labels_for cur)"
      using Cons.prems(2) m(2) unfolding forget_held [OF ok m(1)] by blast
    then show ?case using Cons.IH Cons.prems(1) by simp
  qed simp
  from this [OF gone held(2)] have "holds (rg_lib reg') m (labels_for cur)" unfolding r' .
  moreover have "?key \<in> set (rg_seen reg')" using seen gone by (auto simp: r' forget_all_seen simp del: fold_append)
  ultimately show ?thesis using none by blast
qed

section \<open>Witnesses\<close>

text \<open>A library that keeps the list of its children.\<close>

definition child_step :: "prom_call \<Rightarrow> (metric \<times> labels) list \<Rightarrow> (metric \<times> labels) list" where
  "child_step c p =
     (case c of
        PObserve m l v \<Rightarrow> List.insert (m, l) p
      | PAdd m l v \<Rightarrow> List.insert (m, l) p
      | PSet m l v \<Rightarrow> List.insert (m, l) p
      | PDelete m l \<Rightarrow> filter (\<lambda>x. x \<noteq> (m, l)) p
      | PDeletePartial m l \<Rightarrow> filter (\<lambda>x. \<not> (fst x = m \<and> set l \<subseteq> set (snd x))) p
      | PReset m \<Rightarrow> filter (\<lambda>x. fst x \<noteq> m) p)"

definition child_held :: "(metric \<times> labels) list \<Rightarrow> metric \<Rightarrow> labels \<Rightarrow> bool" where
  "child_held p m l \<longleftrightarrow> (m, l) \<in> set p"

lemma child_prom_ok: "prom_ok child_step child_held"
proof -
  have "child_held (child_step c p) = children_after c (child_held p)" for c p
    by (cases c) (auto simp: child_held_def child_step_def fun_eq_iff)
  then show ?thesis by (simp add: prom_ok_def)
qed

definition limit_one :: metrics_config where
  "limit_one = \<lparr>mc_max_series = 1, mc_rtt_buckets = [], mc_percentiles = []\<rparr>"

text \<open>A started runner takes up a task and runs a cycle of it.\<close>

definition export_key :: task_key where
  "export_key = \<lparr>ky_pairing = ''x|y'', ky_slot = 0, ky_kind = KindUDP, ky_forward = True\<rparr>"

definition export_task :: "string \<Rightarrow> task" where
  "export_task cl =
     \<lparr>rt_key = export_key,
      rt_src = \<lparr>ta_host = ''1'', ta_address = [], ta_port = 0\<rparr>,
      rt_dst = \<lparr>ta_host = ''2'', ta_address = ''b'', ta_port = 7\<rparr>, rt_zone_src = ''x'', rt_zone_dst = ''y'',
      rt_class = cl, rt_rank = 1,
      rt_params = \<lparr>pp_kind = KindUDP, pp_count = 1, pp_interval = 0, pp_timeout = 0, pp_payload = 0, pp_port = 7,
        pp_mode = [], pp_ttl = 0, pp_df = False\<rparr>,
      rt_window = new_window 60, rt_started = 0\<rparr>"

definition export_want :: "string \<Rightarrow> (task_key, task) gomap" where
  "export_want cl = [(export_key, export_task cl)]"

definition export_cycle :: cycle where
  "export_cycle = (new_cycle KindUDP (rt_dst (export_task ''anchor'')) 1)\<lparr>cy_sent := 1, cy_received := 1, cy_rtt := [5]\<rparr>"

definition export_demo :: "export_event list" where
  "export_demo = [EBegin, EApply 5 (export_want ''anchor''), ECycle 6 [] export_key export_cycle None]"

lemma export_task_simps [simp]: "rt_key (export_task cl) = export_key" "rt_class (export_task cl) = cl"
  "rt_rank (export_task cl) = 1" "task_moved (export_task cl) (export_task cl') = False"
  "ky_kind export_key = KindUDP" "tidy (export_task cl) = bar_free cl"
  by (simp_all add: export_task_def task_moved_def ident_def tidy_def bar_free_def export_key_def)

lemma export_want_keyed [simp]: "keyed (export_want cl)"
  by (simp add: export_want_def keyed_def gm_wf_def)

lemma export_want_find: "map_of (export_want cl) k = (if k = export_key then Some (export_task cl) else None)"
  by (simp add: export_want_def)

lemma export_demo_ok: "list_all export_ok export_demo"
  by (simp add: export_demo_def export_want_find bar_free_def)

text \<open>The demonstration: the task runs, and its series are held.\<close>

lemma export_demo_run:
  assumes "fold (export_step child_step (\<lambda>_. [])) export_demo
       ((new_runner [KindUDP], h), new_registry [] limit_one []) = ((r, h'), reg)"
  shows "child_held (rg_lib reg) MSent (labels_for (export_task ''anchor''))"
proof -
  let ?r = "runner_begin (new_runner [KindUDP])" and ?k = "export_key"
  obtain r1 gone start where out: "apply_tasks 5 (export_want ''anchor'') ?r = (r1, gone, start)" by (metis prod_cases3)
  have ri: "runner_inv ?r" "rn_ready ?r" by (simp_all add: new_runner_def runner_inv_def keyed_Nil runner_begin_def)
  note spec = apply_tasks_spec [OF ri export_want_keyed out]
  have t: "map_of (rn_tasks r1) ?k = Some (export_task ''anchor''\<lparr>rt_started := 5\<rparr>)"
    unfolding spec(2) applied_def by (simp add: export_want_find new_runner_def runner_begin_def)
  have "set gone = {}" unfolding spec(3) dropped_def by (simp add: new_runner_def)
  then have gone: "gone = []" by simp
  obtain r2 h2 out2 where run: "run_cycle 6 [] ?k export_cycle None (r1, h) = ((r2, h2), out2)" by (metis prod.collapse)
  obtain c st where o2: "out2 = Some (c, st)" using run t by (auto simp: run_cycle_def Let_def case_prod_beta)
  have "\<exists>u. map_of (rn_tasks r2) ?k = Some u \<and> labels_for u = labels_for (export_task ''anchor'')"
    using cycle_tasks [OF conjunct1 [OF spec(1)] run, of ?k, THEN conjunct2, THEN conjunct2, THEN conjunct2]
    unfolding t option.map by (metis labels_window)
  then obtain u where u: "map_of (rn_tasks r2) ?k = Some u" and lu: "labels_for u = labels_for (export_task ''anchor'')"
    by blast
  have "reg = observe_task child_step (\<lambda>_. []) u c st (new_registry [] limit_one [])"
    using assms ri(2) by (simp add: export_demo_def out gone run o2 u)
  moreover have "admitted (new_registry [] limit_one ([] :: (metric \<times> labels) list)) k" for k by (simp add: admitted_def new_registry_def limit_one_def)
  moreover have "task_metric MSent" by (simp add: task_metric_def plain_metrics_def)
  ultimately show ?thesis using observe_has [of "labels_for u"] unfolding lu [symmetric]
    by (simp add: observe_held [OF child_prom_ok])
qed

theorem series_follow_tasks_witness:
  "\<exists>r h reg. fold (export_step child_step (\<lambda>_. [])) export_demo
       ((new_runner [KindUDP], new_tracker (cf_health default_config)), new_registry [] limit_one []) = ((r, h), reg)
     \<and> child_held (rg_lib reg) MSent (labels_for (export_task ''anchor'')) \<and> series_count reg \<le> task_count r"
proof -
  let ?s = "((new_runner [KindUDP], new_tracker (cf_health default_config)), new_registry [] limit_one [])"
  obtain r h reg where run: "fold (export_step child_step (\<lambda>_. [])) export_demo ?s = ((r, h), reg)" by (metis prod.collapse)
  have none: "no_series child_held []" by (simp add: no_series_def child_held_def)
  have "steady child_step (\<lambda>_. []) export_demo ?s"
    by (simp add: export_demo_def keeps_labels_def new_runner_def)
  from series_follow_tasks [OF child_prom_ok none this run] export_demo_run [OF run] run show ?thesis by blast
qed

theorem series_capped_witness:
  "\<exists>r h reg. fold (export_step child_step (\<lambda>_. [])) export_demo
       ((new_runner [KindUDP], new_tracker (cf_health default_config)), new_registry [] limit_one []) = ((r, h), reg)
     \<and> int (series_count reg) \<le> 1"
proof -
  let ?s = "((new_runner [KindUDP], new_tracker (cf_health default_config)), new_registry [] limit_one [])"
  obtain r h reg where run: "fold (export_step child_step (\<lambda>_. [])) export_demo ?s = ((r, h), reg)" by (metis prod.collapse)
  have none: "no_series child_held []" by (simp add: no_series_def child_held_def)
  have max: "0 < mc_max_series limit_one" "mc_max_series limit_one = 1" by (simp_all add: limit_one_def)
  from series_capped [OF child_prom_ok none max(1) export_demo_ok run] run show ?thesis unfolding max(2) by blast
qed

theorem relabelled_series_leak_witness:
  "\<exists>r' h' reg'. fold (export_step child_step (\<lambda>_. [])) [EApply 7 (export_want ''diverse''), EApply 9 []]
       ((\<lparr>rn_ready = True, rn_probers = [KindUDP], rn_tasks = export_want ''anchor''\<rparr>,
         new_tracker (cf_health default_config)),
        \<lparr>rg_cfg = limit_one, rg_seen = [series_key (labels_for (export_task ''anchor''))],
          rg_lib = [(MSent, labels_for (export_task ''anchor''))]\<rparr>) = ((r', h'), reg')
     \<and> rn_tasks r' = [] \<and> child_held (rg_lib reg') MSent (labels_for (export_task ''anchor''))"
proof -
  let ?r = "\<lparr>rn_ready = True, rn_probers = [KindUDP], rn_tasks = export_want ''anchor''\<rparr>"
  let ?reg = "\<lparr>rg_cfg = limit_one, rg_seen = [series_key (labels_for (export_task ''anchor''))],
      rg_lib = [(MSent, labels_for (export_task ''anchor''))]\<rparr>"
  obtain r' h' reg' where run: "fold (export_step child_step (\<lambda>_. [])) [EApply 7 (export_want ''diverse''), EApply 9 []]
      ((?r, new_tracker (cf_health default_config)), ?reg) = ((r', h'), reg')" by (metis prod.collapse)
  have ri: "runner_inv ?r" "rn_ready ?r" by (simp_all add: runner_inv_def export_want_find)
  have cur: "map_of (rn_tasks ?r) export_key = Some (export_task ''anchor'')" by (simp add: export_want_find)
  have nt: "map_of (export_want ''diverse'') export_key = Some (export_task ''diverse'')"
    by (simp add: export_want_find)
  have moved: "\<not> task_moved (export_task ''diverse'') (export_task ''anchor'')" by simp
  have new: "rt_class (export_task ''diverse'') \<noteq> rt_class (export_task ''anchor'')
      \<or> rt_rank (export_task ''diverse'') \<noteq> rt_rank (export_task ''anchor'')" by simp
  have held: "MSent \<in> set plain_metrics" "child_held (rg_lib ?reg) MSent (labels_for (export_task ''anchor''))"
    by (simp_all add: plain_metrics_def child_held_def)
  have seen: "series_key (labels_for (export_task ''anchor'')) \<in> set (rg_seen ?reg)" by simp
  have others: "\<forall>j t. j \<noteq> export_key \<and> (map_of (rn_tasks ?r) j = Some t
      \<or> applied 7 (export_want ''diverse'') (rn_probers ?r) (rn_tasks ?r) j = Some t)
      \<longrightarrow> series_key (labels_for t) \<noteq> series_key (labels_for (export_task ''anchor''))"
    by (simp add: export_want_find applied_def)
  from relabelled_series_leak [OF child_prom_ok ri export_want_keyed cur nt moved new held seen others run] run
  show ?thesis by blast
qed

end
