(* ===== verification/FileProvider.thy ===== *)
theory FileProvider
  imports Zone Provider
begin

text \<open>
  Models \<open>internal/provider/file/file.go\<close>: the inventory document shared by the file and
  the HTTP provider, its validation, the DNS name fields, the site table, the conversion
  into host records, and the file provider with its poll loop. JSON decoding is a
  parameter (\<open>unmarshal\<close>). The lemmas show that an accepted document gives a usable set,
  where each attribute of a host comes from, that the name fields recombine into the name,
  and that the provider always ends on the current document when that one is acceptable
  and otherwise keeps what it had.
\<close>

section \<open>The document\<close>

type_synonym attrs = "(string, string) gomap"

record site_entry =
  se_country :: string
  se_metro :: string
  se_dc_label :: string
  se_dc_instance :: string
  se_extra :: attrs

record host_entry =
  hn_name :: string
  hn_address :: string
  hn_enabled :: "bool option"
  hn_attributes :: attrs

record document =
  do_version :: int
  do_site_table :: "(string, site_entry) gomap"
  do_name_format :: "string list"
  do_hosts :: "host_entry list"

datatype doc_error =
    DocUnreadable
  | DocUnparsable
  | DocVersion int
  | DocNoHosts
  | DocEmptyName nat
  | DocDuplicate string
  | DocShortName string nat nat

text \<open>The loop of \<open>Validate\<close>; \<open>seen\<close> holds the names met so far.\<close>

fun validate_hosts :: "nat \<Rightarrow> string list \<Rightarrow> host_entry list \<Rightarrow> doc_error option" where
  "validate_hosts i seen [] = None"
| "validate_hosts i seen (h # hs) =
     (if hn_name h = [] then Some (DocEmptyName i)
      else if hn_name h \<in> set seen then Some (DocDuplicate (hn_name h))
      else validate_hosts (Suc i) (hn_name h # seen) hs)"

definition validate_document :: "document \<Rightarrow> doc_error option" where
  "validate_document d =
     (if do_version d \<noteq> 0 \<and> do_version d \<noteq> 1 then Some (DocVersion (do_version d))
      else if do_hosts d = [] then Some DocNoHosts
      else validate_hosts 0 [] (do_hosts d))"

section \<open>Names\<close>

definition default_name_format :: "string list" where
  "default_name_format = [''role_ordinal'', ''service'', ''environment'', ''site'']"

definition is_digits :: "string \<Rightarrow> bool" where
  "is_digits s \<longleftrightarrow> s \<noteq> [] \<and> list_all is_digit s"

text \<open>The text before the trailing digits and the trailing digits.\<close>

definition split_trailing :: "string \<Rightarrow> string \<times> string" where
  "split_trailing s = (rev (dropWhile is_digit (rev s)), rev (takeWhile is_digit (rev s)))"

definition split_ordinal :: "string \<Rightarrow> string \<times> string" where
  "split_ordinal label =
     (let (p, q) = split_trailing label;
          trailing = (if q = [] \<or> p = [] then (label, []) else (p, q))
      in (case split_last (CHR ''-'') label of
            Some (pre, post) \<Rightarrow> if pre \<noteq> [] \<and> is_digits post then (pre, post) else trailing
          | None \<Rightarrow> trailing))"

definition split_site :: "string \<Rightarrow> string \<times> string" where
  "split_site site =
     (case split_trailing site of (p, q) \<Rightarrow> if q = [] then (site, []) else (p, q))"

definition name_field :: "string \<times> string \<Rightarrow> attrs \<Rightarrow> attrs" where
  "name_field fv m =
     (case fv of (field, v) \<Rightarrow>
        if field = ''role_ordinal'' then
          (case split_ordinal v of
             (role, ordinal) \<Rightarrow> AList.update ''ordinal'' ordinal (AList.update ''role'' role m))
        else if field = ''site'' then AList.update ''site'' v m
        else AList.update field v m)"

text \<open>On failure the answer is the number of labels and the length of the format.\<close>

definition parse_name :: "string \<Rightarrow> string list \<Rightarrow> (nat \<times> nat) + attrs" where
  "parse_name name format =
     (let labels = split_on (CHR ''.'') name
      in if length labels \<le> length format then Inl (length labels, length format)
         else let m = fold name_field (zip format labels) (AList.update ''fqdn'' name [])
              in Inr (AList.update ''hostname'' (hd labels)
                       (AList.update ''domain'' (join ''.'' (drop (length format) labels)) m)))"

section \<open>The site table\<close>

definition set_if_absent :: "string \<Rightarrow> string \<Rightarrow> attrs \<Rightarrow> attrs" where
  "set_if_absent k v m =
     (if v = [] then m else case map_of m k of Some _ \<Rightarrow> m | None \<Rightarrow> AList.update k v m)"

definition apply_site :: "site_entry \<Rightarrow> attrs \<Rightarrow> attrs" where
  "apply_site e m =
     fold (\<lambda>(k, v) m. set_if_absent k v m) (se_extra e)
       (set_if_absent ''dc_instance'' (se_dc_instance e)
         (set_if_absent ''dc_label'' (se_dc_label e)
           (set_if_absent ''metro'' (se_metro e)
             (set_if_absent ''country'' (se_country e) m))))"

section \<open>Host records\<close>

definition site_attrs :: "(string, site_entry) gomap \<Rightarrow> attrs \<Rightarrow> attrs" where
  "site_attrs table m =
     (case map_of m ''site'' of
        None \<Rightarrow> m
      | Some site \<Rightarrow>
          (case map_of table site of
             Some e \<Rightarrow> apply_site e m
           | None \<Rightarrow>
               (case split_site site of
                  (metro, inst) \<Rightarrow> set_if_absent ''dc_instance'' inst (set_if_absent ''metro'' metro m))))"

definition convert_host ::
  "document \<Rightarrow> string \<Rightarrow> int \<Rightarrow> time \<Rightarrow> string list \<Rightarrow> host_entry \<Rightarrow> doc_error + host_record" where
  "convert_host d source priority now format h =
     (case parse_name (hn_name h) format of
        Inl (have_n, need) \<Rightarrow> Inl (DocShortName (hn_name h) have_n need)
      | Inr m \<Rightarrow>
          (let m' = fold (\<lambda>(k, v) a. AList.update k v a) (hn_attributes h)
                      (site_attrs (do_site_table d) m);
               off = (hn_enabled h = Some False)
           in Inr \<lparr>hr_id = hn_name h,
                   hr_address = (if hn_address h = [] then hn_name h else hn_address h),
                   hr_attributes = m', hr_source = source, hr_healthy = \<not> off,
                   hr_reason = (if off then ''disabled in inventory document'' else []),
                   hr_seen_at = now, hr_priority = priority\<rparr>))"

fun convert_hosts ::
  "document \<Rightarrow> string \<Rightarrow> int \<Rightarrow> time \<Rightarrow> string list \<Rightarrow> host_entry list \<Rightarrow>
     doc_error + host_record list" where
  "convert_hosts d source priority now format [] = Inr []"
| "convert_hosts d source priority now format (h # hs) =
     (case convert_host d source priority now format h of
        Inl e \<Rightarrow> Inl e
      | Inr r \<Rightarrow>
          (case convert_hosts d source priority now format hs of
             Inl e \<Rightarrow> Inl e
           | Inr rs \<Rightarrow> Inr (r # rs)))"

definition name_format_of :: "document \<Rightarrow> string list" where
  "name_format_of d = (if do_name_format d = [] then default_name_format else do_name_format d)"

definition parse_document ::
  "(string \<Rightarrow> document option) \<Rightarrow> string \<Rightarrow> string \<Rightarrow> int \<Rightarrow> time \<Rightarrow> doc_error + host_set" where
  "parse_document unmarshal data source priority now =
     (case unmarshal data of
        None \<Rightarrow> Inl DocUnparsable
      | Some d \<Rightarrow>
          (case validate_document d of
             Some e \<Rightarrow> Inl e
           | None \<Rightarrow>
               (case convert_hosts d source priority now (name_format_of d) (do_hosts d) of
                  Inl e \<Rightarrow> Inl e
                | Inr rs \<Rightarrow>
                    Inr \<lparr>hs_source = source, hs_hosts = rs, hs_fetch_at = now, hs_stale = False,
                         hs_last_error = []\<rparr>)))"

section \<open>The file provider\<close>

record file_prov =
  fp_cfg :: file_config
  fp_refresh :: bool
  fp_mtime :: time
  fp_size :: int

definition new_file_prov :: "file_config \<Rightarrow> file_prov" where
  "new_file_prov cfg = \<lparr>fp_cfg = cfg, fp_refresh = False, fp_mtime = 0, fp_size = 0\<rparr>"

text \<open>\<open>Refresh\<close> is a send that gives up when the channel, of capacity one, is full.\<close>

definition file_refresh :: "file_prov \<Rightarrow> file_prov" where
  "file_refresh p = p\<lparr>fp_refresh := True\<rparr>"

text \<open>What \<open>os.Stat\<close> (modification time and size) and \<open>os.ReadFile\<close> answer during a poll.\<close>

record file_view =
  fv_stat :: "(time \<times> int) option"
  fv_data :: "string option"

definition file_load ::
  "(string \<Rightarrow> document option) \<Rightarrow> time \<Rightarrow> file_view \<Rightarrow> file_prov \<Rightarrow> doc_error + host_set" where
  "file_load unmarshal now fv p =
     (case fv_data fv of
        None \<Rightarrow> Inl DocUnreadable
      | Some data \<Rightarrow> parse_document unmarshal data ''file'' (fc_priority (fp_cfg p)) now)"

text \<open>A poll answers the set it hands to the sink, when it hands one.\<close>

definition file_poll ::
  "(string \<Rightarrow> document option) \<Rightarrow> time \<Rightarrow> file_view \<Rightarrow> bool \<Rightarrow> file_prov \<Rightarrow>
     file_prov \<times> host_set option" where
  "file_poll unmarshal now fv force p =
     (case fv_stat fv of
        None \<Rightarrow> (p, None)
      | Some (mtime, sz) \<Rightarrow>
          if \<not> force \<and> mtime = fp_mtime p \<and> sz = fp_size p then (p, None)
          else (case file_load unmarshal now fv p of
                  Inl _ \<Rightarrow> (p, None)
                | Inr hset \<Rightarrow> (p\<lparr>fp_mtime := mtime, fp_size := sz\<rparr>, Some hset)))"

definition file_interval :: "file_prov \<Rightarrow> dur" where
  "file_interval p = (if fc_interval (fp_cfg p) \<le> 0 then 60 * second else fc_interval (fp_cfg p))"

text \<open>
  The loop of \<open>Run\<close>: \<open>FTick\<close> is a tick, \<open>FTake\<close> the receive from the refresh channel (possible
  only when it holds a request), \<open>FAsk\<close> a call of \<open>Refresh\<close> from outside. \<open>file_run\<close> starts with
  the forced poll; the sets it hands to the sink are collected in order.
\<close>

datatype file_event = FTick time file_view | FTake time file_view | FAsk

fun file_step ::
  "(string \<Rightarrow> document option) \<Rightarrow> file_event \<Rightarrow> file_prov \<Rightarrow> file_prov \<times> host_set option" where
  "file_step u (FTick now fv) p = file_poll u now fv False p"
| "file_step u (FTake now fv) p =
     (if fp_refresh p then file_poll u now fv True (p\<lparr>fp_refresh := False\<rparr>) else (p, None))"
| "file_step u FAsk p = (file_refresh p, None)"

definition file_emit :: "file_prov \<times> host_set option \<Rightarrow> host_set list \<Rightarrow> file_prov \<times> host_set list" where
  "file_emit r out = (fst r, case snd r of None \<Rightarrow> out | Some hset \<Rightarrow> out @ [hset])"

definition file_run ::
  "(string \<Rightarrow> document option) \<Rightarrow> time \<Rightarrow> file_view \<Rightarrow> file_event list \<Rightarrow> file_config \<Rightarrow>
     file_prov \<times> host_set list" where
  "file_run u now fv evs cfg =
     fold (\<lambda>ev (p, out). file_emit (file_step u ev p) out) evs
       (file_emit (file_poll u now fv True (new_file_prov cfg)) [])"

section \<open>Validation\<close>

lemma validate_hosts_None:
  "validate_hosts i seen hs = None \<longleftrightarrow>
     (\<forall>h \<in> set hs. hn_name h \<noteq> []) \<and> distinct (map hn_name hs) \<and> hn_name ` set hs \<inter> set seen = {}"
  by (induction i seen hs rule: validate_hosts.induct) auto

lemma validate_document_None:
  "validate_document d = None \<longleftrightarrow>
     do_version d \<in> {0, 1} \<and> do_hosts d \<noteq> [] \<and> (\<forall>h \<in> set (do_hosts d). hn_name h \<noteq> [])
     \<and> distinct (map hn_name (do_hosts d))"
  by (auto simp: validate_document_def validate_hosts_None)

section \<open>Names\<close>

lemma split_trailing_append: "split_trailing s = (p, q) \<Longrightarrow> p @ q = s"
  unfolding split_trailing_def
  by (metis Pair_inject rev_append rev_rev_ident takeWhile_dropWhile_id)

lemma split_ordinal_append:
  assumes "split_ordinal label = (role, ordinal)"
  shows "\<exists>sep. (sep = [] \<or> sep = ''-'') \<and> role @ sep @ ordinal = label"
proof -
  obtain p q where t: "split_trailing label = (p, q)" by fastforce
  have "role @ ordinal = label \<or> split_last (CHR ''-'') label = Some (role, ordinal)"
    using assms split_trailing_append [OF t]
    by (auto simp: split_ordinal_def t Let_def split: option.splits if_splits prod.splits)
  then show ?thesis
  proof
    assume "role @ ordinal = label"
    then show ?thesis by (intro exI [of _ "[]"]) simp
  next
    assume "split_last (CHR ''-'') label = Some (role, ordinal)"
    from split_last_append [OF this] show ?thesis by (intro exI [of _ "''-''"]) simp
  qed
qed

lemma split_site_append: "split_site s = (m, i) \<Longrightarrow> m @ i = s"
  using split_trailing_append [of s] by (auto simp: split_site_def split: prod.splits if_splits)

lemma name_field_wf: "gm_wf m \<Longrightarrow> gm_wf (name_field fv m)"
  by (auto simp: name_field_def split: prod.splits)

lemma parse_name_wf: "parse_name name format = Inr m \<Longrightarrow> gm_wf m"
proof -
  assume p: "parse_name name format = Inr m"
  have "gm_wf (fold name_field fvs (AList.update ''fqdn'' name []))" for fvs
    by (rule fold_preserves) (simp_all add: name_field_wf gm_wf_Cons)
  then show ?thesis using p by (auto simp: parse_name_def Let_def split: if_splits)
qed

lemma parse_default_name:
  assumes "parse_name name default_name_format = Inr m"
  obtains role ordinal service env site rest first where
    "split_ordinal first = (role, ordinal)" "rest \<noteq> []"
    "split_on (CHR ''.'') name = first # service # env # site # rest"
    "map_of m ''role'' = Some role" "map_of m ''ordinal'' = Some ordinal"
    "map_of m ''service'' = Some service" "map_of m ''environment'' = Some env"
    "map_of m ''site'' = Some site" "map_of m ''domain'' = Some (join ''.'' rest)"
    "map_of m ''hostname'' = Some first" "map_of m ''fqdn'' = Some name"
proof -
  let ?l = "split_on (CHR ''.'') name"
  have "4 < length ?l" using assms by (auto simp: parse_name_def default_name_format_def Let_def split: if_splits)
  then obtain a b c d e es where l: "?l = a # b # c # d # e # es"
    by (auto simp: numeral_eq_Suc Suc_less_eq2 length_Suc_conv Suc_le_length_iff less_Suc_eq_le neq_Nil_conv)
  obtain role ordinal where o: "split_ordinal a = (role, ordinal)" by fastforce
  show thesis
  proof (rule that [of a role ordinal "e # es" b c d])
    show "split_on (CHR ''.'') name = a # b # c # d # e # es" by (rule l)
  qed (use assms in \<open>auto simp: parse_name_def default_name_format_def l o name_field_def update_conv\<close>)
qed

section \<open>Where an attribute comes from\<close>

text \<open>
  The value the site adds for a key: the fields of the table entry and then its extra values,
  empty ones not counting, or without an entry the two parts of the token.
\<close>

definition nonempty :: "string \<Rightarrow> string option" where
  "nonempty v = (if v = [] then None else Some v)"

fun first_of :: "'a option list \<Rightarrow> 'a option" where
  "first_of [] = None"
| "first_of (Some x # xs) = Some x"
| "first_of (None # xs) = first_of xs"

definition pick_key :: "(string \<times> string) list \<Rightarrow> string \<Rightarrow> string option" where
  "pick_key kvs k = map_of (filter (\<lambda>(_, v). v \<noteq> []) kvs) k"

definition site_entry_values :: "site_entry \<Rightarrow> (string \<times> string) list" where
  "site_entry_values e =
     [(''country'', se_country e), (''metro'', se_metro e), (''dc_label'', se_dc_label e),
      (''dc_instance'', se_dc_instance e)] @ se_extra e"

definition site_value :: "(string, site_entry) gomap \<Rightarrow> string \<Rightarrow> string \<Rightarrow> string option" where
  "site_value table site k =
     (case map_of table site of
        Some e \<Rightarrow> pick_key (site_entry_values e) k
      | None \<Rightarrow> (case split_site site of (metro, inst) \<Rightarrow>
                  pick_key [(''metro'', metro), (''dc_instance'', inst)] k))"

text \<open>The attribute of a host: explicit, else from its name, else from its site.\<close>

definition host_attr :: "document \<Rightarrow> host_entry \<Rightarrow> attrs \<Rightarrow> string \<Rightarrow> string option" where
  "host_attr d h m k =
     first_of [map_of (hn_attributes h) k, map_of m k,
               (case map_of m ''site'' of None \<Rightarrow> None | Some site \<Rightarrow> site_value (do_site_table d) site k)]"

lemma first_of_None [simp]: "first_of [x] = x" "first_of [x, None] = x"
  by (cases x; simp)+

lemma map_of_set_if_absent:
  "map_of (set_if_absent k v m) k' = first_of [map_of m k', if k' = k then nonempty v else None]"
  by (auto simp: set_if_absent_def nonempty_def update_conv split: option.splits)

lemma set_if_absent_fold:
  "map_of (fold (\<lambda>(k, v) m. set_if_absent k v m) kvs m) k = first_of [map_of m k, pick_key kvs k]"
proof (induction kvs arbitrary: m)
  case Nil
  then show ?case by (cases "map_of m k") (simp_all add: pick_key_def)
next
  case (Cons kv kvs)
  obtain k1 v where kv: "kv = (k1, v)" by (cases kv)
  show ?case
    by (cases "map_of m k") (auto simp: kv Cons.IH map_of_set_if_absent pick_key_def nonempty_def)
qed

lemma apply_site_fold: "apply_site e m = fold (\<lambda>(k, v) m. set_if_absent k v m) (site_entry_values e) m"
  by (simp add: apply_site_def site_entry_values_def)

lemma set_if_absent_wf: "gm_wf m \<Longrightarrow> gm_wf (set_if_absent k v m)"
  by (auto simp: set_if_absent_def split: option.splits)

lemma site_attrs_wf: "gm_wf m \<Longrightarrow> gm_wf (site_attrs table m)"
proof -
  have "gm_wf m \<Longrightarrow> gm_wf (fold (\<lambda>(k, v) m. set_if_absent k v m) kvs m)" for kvs m
    by (rule fold_preserves) (auto intro: set_if_absent_wf)
  then show "gm_wf m \<Longrightarrow> ?thesis"
    by (auto simp: site_attrs_def apply_site_fold intro!: set_if_absent_wf split: option.splits prod.splits)
qed

lemma map_of_site_attrs:
  "map_of (site_attrs table m) k =
     first_of [map_of m k,
       (case map_of m ''site'' of None \<Rightarrow> None | Some site \<Rightarrow> site_value table site k)]"
proof (cases "map_of m ''site''")
  case None
  then show ?thesis by (cases "map_of m k") (simp_all add: site_attrs_def)
next
  case (Some site)
  obtain metro inst where s: "split_site site = (metro, inst)" by fastforce
  have two: "set_if_absent ''dc_instance'' inst (set_if_absent ''metro'' metro m)
      = fold (\<lambda>(k, v) m. set_if_absent k v m) [(''metro'', metro), (''dc_instance'', inst)] m" by simp
  show ?thesis
    unfolding site_attrs_def site_value_def Some option.case s prod.case two apply_site_fold
    by (cases "map_of table site") (simp_all only: option.case set_if_absent_fold)
qed

lemma convert_hosts_nth:
  "convert_hosts d source priority now format hs = Inr rs \<longleftrightarrow>
     length rs = length hs
     \<and> (\<forall>i < length hs. convert_host d source priority now format (hs ! i) = Inr (rs ! i))"
proof (induction hs arbitrary: rs)
  case Nil
  then show ?case by auto
next
  case (Cons h hs)
  show ?case
  proof (cases rs)
    case Nil
    then show ?thesis by (auto split: sum.splits)
  next
    case rs: (Cons r rs')
    have "(\<forall>i < length (h # hs). convert_host d source priority now format ((h # hs) ! i) = Inr ((r # rs') ! i))
      \<longleftrightarrow> convert_host d source priority now format h = Inr r
        \<and> (\<forall>i < length hs. convert_host d source priority now format (hs ! i) = Inr (rs' ! i))"
      by (auto simp: less_Suc_eq_0_disj)
    then show ?thesis using Cons.IH [of rs'] by (auto simp: rs split: sum.splits)
  qed
qed

lemma convert_host_fields:
  assumes "convert_host d source priority now format h = Inr r"
  shows "hr_id r = hn_name h" "hr_source r = source" "hr_priority r = priority" "hr_seen_at r = now"
    and "hr_address r = (if hn_address h = [] then hn_name h else hn_address h)"
    and "hr_healthy r \<longleftrightarrow> hn_enabled h \<noteq> Some False"
    and "hr_reason r = [] \<longleftrightarrow> hr_healthy r" "gm_wf (hr_attributes r)"
proof -
  obtain m where m: "parse_name (hn_name h) format = Inr m"
    using assms by (auto simp: convert_host_def split: sum.splits)
  have "gm_wf (fold (\<lambda>(k, v) a. AList.update k v a) kvs (site_attrs (do_site_table d) m))" for kvs
    by (rule fold_preserves) (auto intro!: site_attrs_wf parse_name_wf [OF m])
  then show "hr_id r = hn_name h" "hr_source r = source" "hr_priority r = priority" "hr_seen_at r = now"
    "hr_address r = (if hn_address h = [] then hn_name h else hn_address h)"
    "hr_healthy r \<longleftrightarrow> hn_enabled h \<noteq> Some False"
    "hr_reason r = [] \<longleftrightarrow> hr_healthy r" "gm_wf (hr_attributes r)"
    using assms by (auto simp: convert_host_def m Let_def)
qed

lemma convert_host_attr:
  assumes "convert_host d source priority now format h = Inr r" and "gm_wf (hn_attributes h)"
  shows "\<exists>m. parse_name (hn_name h) format = Inr m \<and> attr r k = host_attr d h m k"
proof -
  obtain m where m: "parse_name (hn_name h) format = Inr m"
    using assms(1) by (auto simp: convert_host_def split: sum.splits)
  have "attr r k = (map_of (site_attrs (do_site_table d) m) ++ map_of (hn_attributes h)) k"
    using assms(1) map_of_fold_update [OF assms(2)] by (auto simp: convert_host_def m Let_def attr_def)
  also have "\<dots> = host_attr d h m k"
    by (cases "map_of (hn_attributes h) k"; cases "map_of m k")
       (simp_all add: host_attr_def map_add_def map_of_site_attrs)
  finally show ?thesis using m by blast
qed

section \<open>Accepted documents\<close>

lemma parse_document_cases:
  assumes "parse_document u data source priority now = Inr s"
  obtains d rs where "u data = Some d" "validate_document d = None"
    "convert_hosts d source priority now (name_format_of d) (do_hosts d) = Inr rs"
    "s = \<lparr>hs_source = source, hs_hosts = rs, hs_fetch_at = now, hs_stale = False, hs_last_error = []\<rparr>"
  using assms by (auto simp: parse_document_def split: option.splits sum.splits)

lemma parse_document_hosts:
  assumes "parse_document u data source priority now = Inr s"
  obtains d where "u data = Some d" "validate_document d = None"
    "map hr_id (hs_hosts s) = map hn_name (do_hosts d)"
    "\<And>i. i < length (do_hosts d) \<Longrightarrow>
       convert_host d source priority now (name_format_of d) (do_hosts d ! i) = Inr (hs_hosts s ! i)"
proof -
  from assms obtain d rs where d: "u data = Some d" "validate_document d = None"
    and rs: "convert_hosts d source priority now (name_format_of d) (do_hosts d) = Inr rs" and s: "hs_hosts s = rs"
    by (rule parse_document_cases) simp
  have len: "length rs = length (do_hosts d)"
    and nth: "\<And>i. i < length (do_hosts d) \<Longrightarrow>
       convert_host d source priority now (name_format_of d) (do_hosts d ! i) = Inr (rs ! i)"
    using rs by (simp_all add: convert_hosts_nth)
  have "map hr_id rs = map hn_name (do_hosts d)"
    using len by (intro nth_equalityI) (simp_all add: convert_host_fields(1) [OF nth])
  then show thesis using that d nth s by blast
qed

lemma parse_document_usable:
  assumes "parse_document u data source priority now = Inr s"
  shows "hs_hosts s \<noteq> []" "usable_hosts (hs_hosts s)"
    "r \<in> set (hs_hosts s) \<Longrightarrow> hr_source r = source \<and> hr_priority r = priority \<and> hr_seen_at r = now"
proof -
  obtain d where d: "validate_document d = None" and ids: "map hr_id (hs_hosts s) = map hn_name (do_hosts d)"
    and nth: "\<And>i. i < length (do_hosts d) \<Longrightarrow>
       convert_host d source priority now (name_format_of d) (do_hosts d ! i) = Inr (hs_hosts s ! i)"
    using assms by (rule parse_document_hosts) blast
  have len: "length (hs_hosts s) = length (do_hosts d)" using ids by (metis length_map)
  have mem: "\<exists>h \<in> set (do_hosts d). convert_host d source priority now (name_format_of d) h = Inr r"
    if "r \<in> set (hs_hosts s)" for r
    using that nth len by (metis in_set_conv_nth)
  show "hs_hosts s \<noteq> []" using d ids by (auto simp: validate_document_None)
  have "hr_id r \<noteq> [] \<and> hr_address r \<noteq> [] \<and> gm_wf (hr_attributes r) \<and> (hr_healthy r \<longleftrightarrow> hr_reason r = [])"
    if r: "r \<in> set (hs_hosts s)" for r
  proof -
    obtain h where h: "h \<in> set (do_hosts d)" "convert_host d source priority now (name_format_of d) h = Inr r"
      using mem [OF r] by blast
    have "hn_name h \<noteq> []" using d h(1) by (simp add: validate_document_None)
    then show ?thesis using convert_host_fields [OF h(2)] by simp
  qed
  then show "usable_hosts (hs_hosts s)" using d ids by (simp add: usable_hosts_def validate_document_None)
  show "r \<in> set (hs_hosts s) \<Longrightarrow> hr_source r = source \<and> hr_priority r = priority \<and> hr_seen_at r = now"
    by (drule mem) (elim bexE, simp add: convert_host_fields)
qed

text \<open>
  C29: an accepted document gives a set the rest of the program can use. There is at least one host,
  so a bad publish cannot empty the inventory; there is one record per entry, in the order of the
  document and under its name; the IDs are distinct and not empty, every record has an address and
  an attribute map with distinct keys, it is healthy exactly when it carries no reason, and it
  carries the source, the priority and the time of the parse.
\<close>

theorem parsed_set_usable:
  assumes "parse_document u data source priority now = Inr s"
  shows "\<exists>d. u data = Some d \<and> map hr_id (hs_hosts s) = map hn_name (do_hosts d) \<and> hs_hosts s \<noteq> []
    \<and> distinct (map hr_id (hs_hosts s))
    \<and> (\<forall>r \<in> set (hs_hosts s). hr_id r \<noteq> [] \<and> hr_address r \<noteq> [] \<and> gm_wf (hr_attributes r)
         \<and> (hr_healthy r \<longleftrightarrow> hr_reason r = []) \<and> hr_source r = source \<and> hr_priority r = priority
         \<and> hr_seen_at r = now)"
proof -
  obtain d where "u data = Some d" "map hr_id (hs_hosts s) = map hn_name (do_hosts d)"
    using assms by (rule parse_document_hosts) blast
  then show ?thesis using parse_document_usable [OF assms] by (auto simp: usable_hosts_def)
qed

definition demo_document :: document where
  "demo_document =
     \<lparr>do_version = 1,
      do_site_table = [(''sjc01'', \<lparr>se_country = ''us'', se_metro = ''sjc'', se_dc_label = ''sv5'',
                                   se_dc_instance = ''01'', se_extra = [(''rack'', ''r7'')]\<rparr>)],
      do_name_format = [],
      do_hosts = [\<lparr>hn_name = ''web-001.product.prod.sjc01.domain.com'', hn_address = [],
                   hn_enabled = None, hn_attributes = [(''country'', ''ca'')]\<rparr>]\<rparr>"

definition demo_unmarshal :: "string \<Rightarrow> document option" where
  "demo_unmarshal data = (if data = ''good'' then Some demo_document else None)"

lemma demo_unmarshal_good: "demo_unmarshal ''good'' = Some demo_document"
  by (simp add: demo_unmarshal_def)

lemma demo_document_names: "map hn_name (do_hosts demo_document) = [''web-001.product.prod.sjc01.domain.com'']"
  by (simp add: demo_document_def)

lemma demo_parses: "\<exists>s. parse_document demo_unmarshal ''good'' source priority now = Inr s"
  by (simp add: parse_document_def demo_unmarshal_def demo_document_def validate_document_def
      convert_host_def parse_name_def name_format_of_def default_name_format_def Let_def)

theorem parsed_set_usable_witness:
  "\<exists>s. parse_document demo_unmarshal ''good'' ''file'' 10 7 = Inr s
     \<and> map hr_id (hs_hosts s) = [''web-001.product.prod.sjc01.domain.com'']"
proof -
  obtain s where s: "parse_document demo_unmarshal ''good'' ''file'' 10 7 = Inr s" using demo_parses by blast
  have "map hr_id (hs_hosts s) = map hn_name (do_hosts demo_document)"
    using parsed_set_usable [OF s] unfolding demo_unmarshal_good by (elim exE conjE) (simp only: option.inject)
  then have "map hr_id (hs_hosts s) = [''web-001.product.prod.sjc01.domain.com'']"
    by (simp only: demo_document_names)
  then show ?thesis using s by (intro exI conjI)
qed

text \<open>
  Where the attributes of a host come from. The value of a key is the one written at the host;
  without one it is the field of the DNS name; without either it is what the site of the name gives:
  its entry in the site table (the first non-empty value, the fixed fields before the extra ones) or,
  for a site without an entry, the metro and instance read off the site token. The answer does not
  depend on the order in which the maps of the document are walked.
\<close>

theorem host_attribute_origin:
  assumes "parse_document u data source priority now = Inr s" and "u data = Some d"
    and "i < length (do_hosts d)" and "gm_wf (hn_attributes (do_hosts d ! i))"
  shows "\<exists>m. parse_name (hn_name (do_hosts d ! i)) (name_format_of d) = Inr m
    \<and> attr (hs_hosts s ! i) k =
        (case map_of (hn_attributes (do_hosts d ! i)) k of
           Some v \<Rightarrow> Some v
         | None \<Rightarrow> (case map_of m k of
             Some v \<Rightarrow> Some v
           | None \<Rightarrow> (case map_of m ''site'' of
               None \<Rightarrow> None
             | Some site \<Rightarrow> (case map_of (do_site_table d) site of
                 Some e \<Rightarrow> pick_key (site_entry_values e) k
               | None \<Rightarrow> (case split_site site of (metro, inst) \<Rightarrow>
                   pick_key [(''metro'', metro), (''dc_instance'', inst)] k)))))"
proof -
  have "convert_host d source priority now (name_format_of d) (do_hosts d ! i) = Inr (hs_hosts s ! i)"
    using assms(1) by (rule parse_document_hosts) (use assms(2,3) in auto)
  from convert_host_attr [OF this assms(4), of k] obtain m
    where "parse_name (hn_name (do_hosts d ! i)) (name_format_of d) = Inr m"
      "attr (hs_hosts s ! i) k = host_attr d (do_hosts d ! i) m k" by blast
  then show ?thesis
    by (auto simp: host_attr_def site_value_def split: option.split)
qed

theorem host_attribute_origin_witness:
  "\<forall>s. parse_document demo_unmarshal ''good'' ''file'' 10 7 = Inr s \<longrightarrow>
     attr (hs_hosts s ! 0) ''rack'' = Some ''r7'' \<and> attr (hs_hosts s ! 0) ''country'' = Some ''ca''"
proof (intro allI impI)
  fix s assume "parse_document demo_unmarshal ''good'' ''file'' 10 7 = Inr s"
  then have "\<exists>m. parse_name ''web-001.product.prod.sjc01.domain.com'' default_name_format = Inr m
      \<and> attr (hs_hosts s ! 0) k =
        (case map_of [(''country'', ''ca'')] k of Some v \<Rightarrow> Some v
         | None \<Rightarrow> (case map_of m k of Some v \<Rightarrow> Some v
           | None \<Rightarrow> (case map_of m ''site'' of None \<Rightarrow> None
             | Some site \<Rightarrow> (case map_of (do_site_table demo_document) site of
                 Some e \<Rightarrow> pick_key (site_entry_values e) k
               | None \<Rightarrow> (case split_site site of (metro, inst) \<Rightarrow>
                   pick_key [(''metro'', metro), (''dc_instance'', inst)] k)))))" for k
    using host_attribute_origin [of demo_unmarshal "''good''" "''file''" 10 7 s demo_document 0 k]
    by (simp add: demo_unmarshal_def demo_document_def name_format_of_def gm_wf_Cons)
  from this [of "''rack''"] this [of "''country''"]
  show "attr (hs_hosts s ! 0) ''rack'' = Some ''r7'' \<and> attr (hs_hosts s ! 0) ''country'' = Some ''ca''"
    by (auto simp: parse_name_def default_name_format_def Let_def name_field_def demo_document_def
        pick_key_def site_entry_values_def split_ordinal_def split_trailing_def split_last_def is_digits_def is_digit_def)
qed

text \<open>
  The fields of a DNS name recombine into the name. With the default format, the role and the
  ordinal (with or without the dash between them), the service, the environment, the site and the
  domain, joined by dots, are the name itself, which is also the \<open>fqdn\<close>; so two names with the same
  fields differ in that dash alone. A metro and an instance recombine into the site.
\<close>

theorem name_fields_recombine:
  assumes "parse_name name default_name_format = Inr m"
  shows "\<exists>role ordinal sep service env site dom.
      map_of m ''role'' = Some role \<and> map_of m ''ordinal'' = Some ordinal \<and> map_of m ''service'' = Some service
    \<and> map_of m ''environment'' = Some env \<and> map_of m ''site'' = Some site \<and> map_of m ''domain'' = Some dom
    \<and> (sep = [] \<or> sep = ''-'') \<and> map_of m ''hostname'' = Some (role @ sep @ ordinal)
    \<and> name = role @ sep @ ordinal @ ''.'' @ service @ ''.'' @ env @ ''.'' @ site @ ''.'' @ dom
    \<and> map_of m ''fqdn'' = Some name \<and> fst (split_site site) @ snd (split_site site) = site"
proof -
  obtain role ordinal service env site rest first where
    o: "split_ordinal first = (role, ordinal)" and rest: "rest \<noteq> []"
    and l: "split_on (CHR ''.'') name = first # service # env # site # rest"
    and m: "map_of m ''role'' = Some role" "map_of m ''ordinal'' = Some ordinal"
    "map_of m ''service'' = Some service" "map_of m ''environment'' = Some env"
    "map_of m ''site'' = Some site" "map_of m ''domain'' = Some (join ''.'' rest)"
    "map_of m ''hostname'' = Some first" "map_of m ''fqdn'' = Some name"
    using assms by (rule parse_default_name)
  obtain sep where sep: "sep = [] \<or> sep = ''-''" "role @ sep @ ordinal = first"
    using split_ordinal_append [OF o] by blast
  have "name = join ''.'' (first # service # env # site # rest)"
    using join_split_on [of "CHR ''.''" name] l by simp
  then have "name = role @ sep @ ordinal @ ''.'' @ service @ ''.'' @ env @ ''.'' @ site @ ''.'' @ join ''.'' rest"
    using rest by (simp add: join_Cons sep(2) [symmetric])
  moreover have "fst (split_site site) @ snd (split_site site) = site"
    by (rule split_site_append) simp
  ultimately show ?thesis using m sep by blast
qed

theorem name_fields_recombine_witness:
  "\<exists>m. parse_name ''web-001.product.prod.sjc01.domain.com'' default_name_format = Inr m
     \<and> map_of m ''fqdn'' = Some ''web-001.product.prod.sjc01.domain.com''"
proof -
  obtain m where m: "parse_name ''web-001.product.prod.sjc01.domain.com'' default_name_format = Inr m"
    by (simp add: parse_name_def default_name_format_def Let_def)
  with name_fields_recombine [OF m] show ?thesis by blast
qed

section \<open>The contract of a source\<close>

definition file_emits :: "host_set \<Rightarrow> bool" where
  "file_emits s \<longleftrightarrow> (\<exists>u data priority now. parse_document u data ''file'' priority now = Inr s)"

interpretation filesrc: host_source file_emits
  by unfold_locales (auto simp: file_emits_def dest: parse_document_usable(2))

section \<open>Following the file\<close>

fun event_views :: "file_event \<Rightarrow> file_view list" where
  "event_views (FTick now fv) = [fv]"
| "event_views (FTake now fv) = [fv]"
| "event_views FAsk = []"

text \<open>
  The assumption under which modification time and size can stand for the content: \<open>content\<close> gives
  the bytes of the file for every modification time and size it has had.
\<close>

definition view_ok :: "(time \<Rightarrow> int \<Rightarrow> string) \<Rightarrow> file_view \<Rightarrow> bool" where
  "view_ok content fv =
     (case fv_stat fv of None \<Rightarrow> True
      | Some (mtime, sz) \<Rightarrow> mtime \<noteq> 0 \<and> fv_data fv = Some (content mtime sz))"

definition event_ok :: "(time \<Rightarrow> int \<Rightarrow> string) \<Rightarrow> file_event \<Rightarrow> bool" where
  "event_ok content ev = list_all (view_ok content) (event_views ev)"

definition file_inv ::
  "(string \<Rightarrow> document option) \<Rightarrow> file_config \<Rightarrow> (time \<Rightarrow> int \<Rightarrow> string) \<Rightarrow> file_prov \<times> host_set list \<Rightarrow> bool" where
  "file_inv u cfg content r =
     (case r of (p, out) \<Rightarrow> fp_cfg p = cfg \<and>
        (fp_mtime p \<noteq> 0 \<longrightarrow> out \<noteq> [] \<and>
           (\<exists>now. parse_document u (content (fp_mtime p) (fp_size p)) ''file'' (fc_priority cfg) now
                    = Inr (last out))))"

lemma file_poll_inv:
  assumes "file_inv u cfg content (p, out)" and "view_ok content fv"
  shows "file_inv u cfg content (file_emit (file_poll u now fv force p) out)"
  using assms
  by (auto simp: file_inv_def view_ok_def file_poll_def file_emit_def file_load_def
      split: option.splits sum.splits)

lemma file_step_inv:
  assumes "file_inv u cfg content (p, out)" and "event_ok content ev"
  shows "file_inv u cfg content (file_emit (file_step u ev p) out)"
proof (cases ev)
  case (FTick now fv)
  then show ?thesis using file_poll_inv [OF assms(1)] assms(2) by (simp add: event_ok_def)
next
  case (FTake now fv)
  have "file_inv u cfg content (p\<lparr>fp_refresh := False\<rparr>, out)" using assms(1) by (simp add: file_inv_def)
  then show ?thesis using file_poll_inv [of u cfg content "p\<lparr>fp_refresh := False\<rparr>"] assms FTake
    by (auto simp: event_ok_def file_emit_def)
next
  case FAsk
  then show ?thesis using assms(1) by (simp add: file_inv_def file_refresh_def file_emit_def)
qed

interpretation polling: guarded_machine "\<lambda>ev (p, out). file_emit (file_step u ev p) out"
    "event_ok content" "file_inv u cfg content" for u cfg content
  by unfold_locales (auto intro: file_step_inv)

lemma file_run_inv:
  assumes "view_ok content fv" and "list_all (event_ok content) evs"
  shows "file_inv u cfg content (file_run u now fv evs cfg)"
proof -
  have "file_inv u cfg content (new_file_prov cfg, [])" by (simp add: file_inv_def new_file_prov_def)
  from polling.run_keeps_ok [OF file_poll_inv [OF this assms(1)] assms(2)] show ?thesis
    unfolding file_run_def .
qed

text \<open>
  The file provider follows its file. When modification time and size identify the content, then
  after every tick at which the file can be read the last set handed to the inventory is the parse of
  the document now in the file, if that one is acceptable, whatever happened before; and a tick at
  which it is not (unreadable, unparsable, invalid) hands over nothing, so the previous set stays.
\<close>

theorem file_provider_follows:
  assumes "view_ok content fv0" and "list_all (event_ok content) evs" and "view_ok content fv"
    and stat: "fv_stat fv = Some (mtime, sz)"
    and before: "file_run u now0 fv0 evs cfg = (p, out)"
    and after: "file_run u now0 fv0 (evs @ [FTick now fv]) cfg = (p', out')"
  shows "(\<forall>s. parse_document u (content mtime sz) ''file'' (fc_priority cfg) now = Inr s \<longrightarrow>
        out' \<noteq> [] \<and> (\<exists>t. parse_document u (content mtime sz) ''file'' (fc_priority cfg) t = Inr (last out')))
    \<and> (\<forall>e. parse_document u (content mtime sz) ''file'' (fc_priority cfg) now = Inl e \<longrightarrow> out' = out)"
proof -
  have inv: "file_inv u cfg content (p, out)" using file_run_inv [OF assms(1,2), of u cfg now0] before by simp
  have step: "(p', out') = file_emit (file_poll u now fv False p) out"
    using after before by (simp add: file_run_def)
  have data: "fv_data fv = Some (content mtime sz)" "mtime \<noteq> 0" using assms(3) stat by (simp_all add: view_ok_def)
  have load: "file_load u now fv p = parse_document u (content mtime sz) ''file'' (fc_priority cfg) now"
    using inv by (simp add: file_load_def data file_inv_def)
  show ?thesis
  proof (cases "mtime = fp_mtime p \<and> sz = fp_size p")
    case True
    then have "out' = out" using step stat by (simp add: file_poll_def file_emit_def)
    then show ?thesis using inv True data(2) by (auto simp: file_inv_def)
  next
    case False
    then have "file_poll u now fv False p = (case parse_document u (content mtime sz) ''file'' (fc_priority cfg) now of
        Inl _ \<Rightarrow> (p, None) | Inr hset \<Rightarrow> (p\<lparr>fp_mtime := mtime, fp_size := sz\<rparr>, Some hset))"
      using stat False by (auto simp: file_poll_def load)
    then show ?thesis using step by (auto simp: file_emit_def)
  qed
qed

definition demo_view :: "time \<Rightarrow> string \<Rightarrow> file_view" where
  "demo_view mtime data = \<lparr>fv_stat = Some (mtime, 4), fv_data = Some data\<rparr>"

theorem file_provider_follows_witness:
  "\<exists>p out. file_run demo_unmarshal 1 (demo_view 5 ''good'')
       [FTick 2 (demo_view 6 ''bad'')] (pv_file (cf_providers default_config)) = (p, out) \<and> length out = 1"
proof -
  let ?cfg = "pv_file (cf_providers default_config)"
  let ?content = "\<lambda>mtime sz. if mtime = 5 then ''good'' else ''bad''"
  obtain s where s: "parse_document demo_unmarshal ''good'' ''file'' (fc_priority ?cfg) 1 = Inr s"
    using demo_parses by blast
  have first: "snd (file_run demo_unmarshal 1 (demo_view 5 ''good'') [] ?cfg) = [s]"
    by (simp add: file_run_def file_poll_def demo_view_def file_load_def new_file_prov_def file_emit_def s)
  obtain p out where before: "file_run demo_unmarshal 1 (demo_view 5 ''good'') [] ?cfg = (p, out)" by fastforce
  obtain p' out' where after:
    "file_run demo_unmarshal 1 (demo_view 5 ''good'') ([] @ [FTick 2 (demo_view 6 ''bad'')]) ?cfg = (p', out')" by fastforce
  have ok: "view_ok ?content (demo_view 5 ''good'')" "view_ok ?content (demo_view 6 ''bad'')"
    "list_all (event_ok ?content) []" "fv_stat (demo_view 6 ''bad'') = Some (6, 4)"
    by (simp_all add: view_ok_def demo_view_def)
  have "out' = out"
    using file_provider_follows [OF ok(1,3,2,4) before after]
    by (simp add: parse_document_def demo_unmarshal_def)
  then show ?thesis using first before after by auto
qed

end
