(* ===== verification/HttpProvider.thy ===== *)
theory HttpProvider
  imports FileProvider
begin

text \<open>
  Models \<open>internal/provider/http/http.go\<close>: the conditional fetch of the inventory document, the
  cache of the document and its sidecar with the atomic writes of both, the report of a stale
  cache, and the loop of \<open>Run\<close> with its retry delay. The server, the file system calls that
  fail and the clock are the environment of an event; JSON is outside, so the sidecar holds a
  value. The lemmas show that the validators of a request never run ahead of the set in force,
  that failing fetches keep the hosts, and that a stale mark outlives the answers that refute it.
\<close>

section \<open>The cache on disk\<close>

record cache_meta =
  cm_etag :: string
  cm_last_modified :: string
  cm_fetched_at :: time
  cm_url :: string
  cm_sha256 :: string

definition no_meta :: cache_meta where
  "no_meta = \<lparr>cm_etag = [], cm_last_modified = [], cm_fetched_at = 0, cm_url = [], cm_sha256 = []\<rparr>"

text \<open>
  The document with its modification time, the sidecar, and the temporary files, whose content
  may not be written yet.
\<close>

datatype meta_file = BadMeta | GoodMeta cache_meta

record cache_disk =
  ck_doc :: "(string \<times> time) option"
  ck_meta :: "meta_file option"
  ck_doc_tmp :: "(string \<times> time) option option"
  ck_meta_tmp :: "meta_file option option"

definition empty_disk :: cache_disk where
  "empty_disk = \<lparr>ck_doc = None, ck_meta = None, ck_doc_tmp = None, ck_meta_tmp = None\<rparr>"

definition meta_path :: "string \<Rightarrow> string" where
  "meta_path cache_path =
     (let ext = path_ext cache_path in take (length cache_path - length ext) cache_path @ ''.meta'' @ ext)"

text \<open>The steps of \<open>writeAtomic\<close>, and of \<open>writeCache\<close> over the two files.\<close>

datatype atomic_step = WCreate | WWrite | WSync | WClose | WChmod | WRename

definition atomic_steps :: "atomic_step list" where
  "atomic_steps = [WCreate, WWrite, WSync, WClose, WChmod, WRename]"

text \<open>The effect on the target and the temporary file of one write of \<open>x\<close>.\<close>

fun atomic_effect :: "'a \<Rightarrow> atomic_step \<Rightarrow> 'a option \<times> 'a option option \<Rightarrow> 'a option \<times> 'a option option" where
  "atomic_effect x WCreate (target, tmp) = (target, Some None)"
| "atomic_effect x WWrite (target, tmp) = (target, Some (Some x))"
| "atomic_effect x WRename (target, tmp) =
     (case tmp of Some (Some y) \<Rightarrow> (Some y, None) | _ \<Rightarrow> (target, tmp))"
| "atomic_effect x _ (target, tmp) = (target, tmp)"

datatype cache_step = CMkdir | CDoc atomic_step | CMarshal | CMeta atomic_step

definition cache_steps :: "cache_step list" where
  "cache_steps = CMkdir # map CDoc atomic_steps @ CMarshal # map CMeta atomic_steps"

fun cache_effect :: "time \<Rightarrow> string \<Rightarrow> cache_meta \<Rightarrow> cache_step \<Rightarrow> cache_disk \<Rightarrow> cache_disk" where
  "cache_effect now body meta (CDoc w) d =
     (case atomic_effect (body, now) w (ck_doc d, ck_doc_tmp d) of
        (target, tmp) \<Rightarrow> d\<lparr>ck_doc := target, ck_doc_tmp := tmp\<rparr>)"
| "cache_effect now body meta (CMeta w) d =
     (case atomic_effect (GoodMeta meta) w (ck_meta d, ck_meta_tmp d) of
        (target, tmp) \<Rightarrow> d\<lparr>ck_meta := target, ck_meta_tmp := tmp\<rparr>)"
| "cache_effect now body meta _ d = d"

text \<open>
  The steps run until the first that fails, and the deferred calls remove the temporary files. A
  crash after \<open>k\<close> steps is the run of the first \<open>k\<close> alone; the next start sees none of its
  temporary files, whose names are fresh.
\<close>

definition no_tmp :: "cache_disk \<Rightarrow> cache_disk" where
  "no_tmp d = d\<lparr>ck_doc_tmp := None, ck_meta_tmp := None\<rparr>"

definition cache_crash :: "time \<Rightarrow> string \<Rightarrow> cache_meta \<Rightarrow> nat \<Rightarrow> cache_disk \<Rightarrow> cache_disk" where
  "cache_crash now body meta k d = no_tmp (fold (cache_effect now body meta) (take k cache_steps) d)"

definition write_cache ::
  "time \<Rightarrow> (cache_step \<Rightarrow> bool) \<Rightarrow> string \<Rightarrow> cache_meta \<Rightarrow> cache_disk \<Rightarrow> bool \<times> cache_disk" where
  "write_cache now fails body meta d =
     (let done = takeWhile (\<lambda>s. \<not> fails s) cache_steps
      in (done = cache_steps, no_tmp (fold (cache_effect now body meta) done d)))"

section \<open>The provider\<close>

record http_prov =
  hp_cfg :: http_config
  hp_meta :: cache_meta
  hp_refresh :: bool
  hp_attempt :: int
  hp_have :: bool

text \<open>
  \<open>buildClient\<close>: \<open>ca\<close> is what reading the CA file gives, \<open>usable\<close> whether it holds a certificate,
  \<open>system\<close> the trust store of the system when it can be loaded.
\<close>

record http_client =
  ht_timeout :: dur
  ht_insecure :: bool
  ht_roots :: "string list option"

definition build_client ::
  "(string \<Rightarrow> string option) \<Rightarrow> (string \<Rightarrow> bool) \<Rightarrow> string list option \<Rightarrow> http_config \<Rightarrow> http_client option" where
  "build_client ca usable system cfg =
     (let c = \<lparr>ht_timeout = dur_or (10 * second) (hc_timeout cfg), ht_insecure = hc_insecure_tls cfg,
               ht_roots = None\<rparr>
      in if hc_ca_file cfg = [] then Some c
         else (case ca (hc_ca_file cfg) of
                 None \<Rightarrow> None
               | Some pem \<Rightarrow>
                   if usable pem
                   then Some (c\<lparr>ht_roots := Some ((case system of None \<Rightarrow> [] | Some pool \<Rightarrow> pool) @ [pem])\<rparr>)
                   else None))"

definition new_http_prov :: "http_config \<Rightarrow> http_prov" where
  "new_http_prov cfg =
     \<lparr>hp_cfg = cfg, hp_meta = no_meta, hp_refresh = False, hp_attempt = 0, hp_have = False\<rparr>"

definition http_refresh :: "http_prov \<Rightarrow> http_prov" where
  "http_refresh p = p\<lparr>hp_refresh := True\<rparr>"

section \<open>The request\<close>

definition auth_header :: "(string \<Rightarrow> string option) \<Rightarrow> http_config \<Rightarrow> string option" where
  "auth_header read_file cfg =
     (if hc_auth_header_file cfg \<noteq> [] then map_option trim_space (read_file (hc_auth_header_file cfg))
      else Some (hc_auth_header cfg))"

type_synonym http_header = "string \<times> string"

definition request_headers :: "cache_meta \<Rightarrow> string \<Rightarrow> http_header list" where
  "request_headers meta auth =
     [(''Accept'', ''application/json''), (''User-Agent'', ''meshd/1'')]
     @ (if cm_etag meta \<noteq> [] then [(''If-None-Match'', cm_etag meta)] else [])
     @ (if cm_last_modified meta \<noteq> [] then [(''If-Modified-Since'', cm_last_modified meta)] else [])
     @ (if auth \<noteq> [] then [(''Authorization'', auth)] else [])"

text \<open>What the server answers: the status, the two validators, and the body unless reading it fails.\<close>

datatype http_response = NoResponse | Response int string string "string option"

text \<open>
  The environment of one fetch: whether the request can be built, the files that can be read, the
  server, the cache steps that fail, and the clock before the parse and after it.
\<close>

record fetch_env =
  fe_request_ok :: bool
  fe_read :: "string \<Rightarrow> string option"
  fe_server :: "http_header list \<Rightarrow> http_response"
  fe_fails :: "cache_step \<Rightarrow> bool"
  fe_now :: time
  fe_done :: time

datatype fetch_result = FetchFailed | FetchUnchanged | FetchChanged string cache_meta host_set

definition max_body :: nat where "max_body = 64 * 2 ^ 20"

text \<open>The answer of the server to the request, when there is a request.\<close>

definition http_answer :: "fetch_env \<Rightarrow> http_prov \<Rightarrow> http_response" where
  "http_answer env p =
     (if \<not> fe_request_ok env then NoResponse
      else (case auth_header (fe_read env) (hp_cfg p) of
              None \<Rightarrow> NoResponse
            | Some auth \<Rightarrow> fe_server env (request_headers (hp_meta p) auth)))"

definition new_meta :: "http_config \<Rightarrow> time \<Rightarrow> string \<Rightarrow> string \<Rightarrow> string \<Rightarrow> cache_meta" where
  "new_meta cfg now body etag modified =
     \<lparr>cm_etag = etag, cm_last_modified = modified, cm_fetched_at = now, cm_url = hc_url cfg,
      cm_sha256 = hex_string (sha256 body)\<rparr>"

text \<open>\<open>fetch\<close> up to the write of the cache.\<close>

definition http_response_result ::
  "(string \<Rightarrow> document option) \<Rightarrow> fetch_env \<Rightarrow> http_prov \<Rightarrow> fetch_result" where
  "http_response_result u env p =
     (case http_answer env p of
        NoResponse \<Rightarrow> FetchFailed
      | Response status etag modified body \<Rightarrow>
          if status = 304 then FetchUnchanged
          else if status < 200 \<or> status > 299 then FetchFailed
          else (case body of
                  None \<Rightarrow> FetchFailed
                | Some full \<Rightarrow>
                    (let data = take max_body full
                     in (case parse_document u data ''http'' (hc_priority (hp_cfg p)) (fe_now env) of
                           Inl _ \<Rightarrow> FetchFailed
                         | Inr hset \<Rightarrow>
                             (let meta = new_meta (hp_cfg p) (fe_done env) data etag modified
                              in FetchChanged data meta (hset\<lparr>hs_fetch_at := cm_fetched_at meta\<rparr>))))))"

definition http_fetch ::
  "(string \<Rightarrow> document option) \<Rightarrow> fetch_env \<Rightarrow> cache_disk \<Rightarrow> http_prov \<Rightarrow>
     http_prov \<times> cache_disk \<times> fetch_result" where
  "http_fetch u env d p =
     (case http_response_result u env p of
        FetchChanged data meta hset \<Rightarrow>
          (p\<lparr>hp_meta := meta\<rparr>, snd (write_cache (fe_done env) (fe_fails env) data meta d),
           FetchChanged data meta hset)
      | r \<Rightarrow> (p, d, r))"

section \<open>Reading the cache\<close>

text \<open>The calls on the cache that fail although the file is there.\<close>

datatype cache_call = ReadDoc | ReadMeta | StatDoc

definition cache_age :: "time \<Rightarrow> (cache_call \<Rightarrow> bool) \<Rightarrow> cache_disk \<Rightarrow> dur option" where
  "cache_age now io d =
     (case ck_doc d of
        Some (_, mtime) \<Rightarrow> if io StatDoc then None else Some (tm_sub now mtime)
      | None \<Rightarrow> None)"

definition cache_too_old :: "time \<Rightarrow> (cache_call \<Rightarrow> bool) \<Rightarrow> cache_disk \<Rightarrow> http_config \<Rightarrow> bool" where
  "cache_too_old now io d cfg =
     (case cache_age now io d of
        None \<Rightarrow> False
      | Some age \<Rightarrow> 0 < hc_cache_max_age cfg \<and> hc_cache_max_age cfg < age)"

definition load_cache ::
  "(string \<Rightarrow> document option) \<Rightarrow> time \<Rightarrow> (cache_call \<Rightarrow> bool) \<Rightarrow> cache_disk \<Rightarrow> http_prov \<Rightarrow>
     http_prov \<times> host_set option" where
  "load_cache u now io d p =
     (case ck_doc d of
        None \<Rightarrow> (p, None)
      | Some (data, _) \<Rightarrow>
          if io ReadDoc then (p, None)
          else (case parse_document u data ''http'' (hc_priority (hp_cfg p)) now of
                  Inl _ \<Rightarrow> (p, None)
                | Inr hset \<Rightarrow>
                    (case (if io ReadMeta then None else ck_meta d) of
                       Some (GoodMeta m) \<Rightarrow>
                         if cm_url m = hc_url (hp_cfg p)
                         then (p\<lparr>hp_meta := m\<rparr>,
                               Some (hset\<lparr>hs_fetch_at := cm_fetched_at m,
                                          hs_stale := cache_too_old now io d (hp_cfg p)\<rparr>))
                         else (p, Some (hset\<lparr>hs_stale := cache_too_old now io d (hp_cfg p)\<rparr>))
                     | _ \<Rightarrow> (p, Some (hset\<lparr>hs_stale := cache_too_old now io d (hp_cfg p)\<rparr>)))))"

text \<open>\<open>Duration.String\<close> on a non-negative whole number of seconds, as \<open>Truncate\<close> leaves it.\<close>

definition show_seconds :: "dur \<Rightarrow> string" where
  "show_seconds d =
     (let s = d div second; h = s div 3600; m = (s div 60) mod 60
      in (if 0 < h then show_int h @ ''h'' else []) @ (if 0 < h \<or> 0 < m then show_int m @ ''m'' else [])
         @ show_int (s mod 60) @ ''s'')"

definition report_stale ::
  "(string \<Rightarrow> document option) \<Rightarrow> time \<Rightarrow> (cache_call \<Rightarrow> bool) \<Rightarrow> cache_disk \<Rightarrow> http_prov \<Rightarrow>
     http_prov \<times> host_set option" where
  "report_stale u now io d p =
     (if \<not> hp_have p then (p, None)
      else (case cache_age now io d of
              None \<Rightarrow> (p, None)
            | Some age \<Rightarrow>
                if hc_cache_max_age (hp_cfg p) \<le> 0 \<or> age \<le> hc_cache_max_age (hp_cfg p) then (p, None)
                else (case load_cache u now io d p of
                        (p', None) \<Rightarrow> (p', None)
                      | (p', Some hset) \<Rightarrow>
                          (p', Some (hset\<lparr>hs_stale := True,
                             hs_last_error := ''cache age '' @ show_seconds age @ '' exceeds cache_max_age''\<rparr>)))))"

section \<open>The loop\<close>

text \<open>
  The state of \<open>Run\<close>: the provider, the disk, the sets handed to the sink, and what the timer was
  last set to. \<open>None\<close> stands for the panic of the retry delay.
\<close>

record http_loop =
  hl_prov :: http_prov
  hl_disk :: cache_disk
  hl_out :: "host_set list"
  hl_delay :: dur

definition http_start ::
  "(string \<Rightarrow> document option) \<Rightarrow> time \<Rightarrow> (cache_call \<Rightarrow> bool) \<Rightarrow> cache_disk \<Rightarrow> http_config \<Rightarrow> http_loop" where
  "http_start u now io d cfg =
     (case load_cache u now io d (new_http_prov cfg) of
        (p, Some hset) \<Rightarrow> \<lparr>hl_prov = p\<lparr>hp_have := True\<rparr>, hl_disk = d, hl_out = [hset], hl_delay = 0\<rparr>
      | (p, None) \<Rightarrow> \<lparr>hl_prov = p, hl_disk = d, hl_out = [], hl_delay = 0\<rparr>)"

definition http_interval :: "http_config \<Rightarrow> dur" where
  "http_interval cfg = dur_or (60 * second) (hc_interval cfg)"

definition http_cycle ::
  "(string \<Rightarrow> document option) \<Rightarrow> (int \<Rightarrow> int) \<Rightarrow> (cache_call \<Rightarrow> bool) \<Rightarrow> fetch_env \<Rightarrow> http_loop \<Rightarrow>
     http_loop option" where
  "http_cycle u jit io env s =
     (case http_fetch u env (hl_disk s) (hl_prov s) of
        (p, d, FetchFailed) \<Rightarrow>
          (let p1 = p\<lparr>hp_attempt := hp_attempt p + 1\<rparr>; cfg = hp_cfg p1
           in (case provider_backoff jit (hp_attempt p1) (hc_backoff_min cfg) (hc_backoff_max cfg) of
                 None \<Rightarrow> None
               | Some delay \<Rightarrow>
                   (case report_stale u (fe_done env) io d p1 of
                      (p2, stale) \<Rightarrow>
                        Some \<lparr>hl_prov = p2, hl_disk = d,
                              hl_out = hl_out s @ (case stale of None \<Rightarrow> [] | Some hset \<Rightarrow> [hset]),
                              hl_delay = delay\<rparr>)))
      | (p, d, FetchChanged _ _ hset) \<Rightarrow>
          Some \<lparr>hl_prov = p\<lparr>hp_attempt := 0, hp_have := True\<rparr>, hl_disk = d, hl_out = hl_out s @ [hset],
                hl_delay = http_interval (hp_cfg p)\<rparr>
      | (p, d, FetchUnchanged) \<Rightarrow>
          Some \<lparr>hl_prov = p\<lparr>hp_attempt := 0\<rparr>, hl_disk = d, hl_out = hl_out s,
                hl_delay = http_interval (hp_cfg p)\<rparr>)"

text \<open>
  \<open>HTimer\<close>: the timer fired. \<open>HTake\<close>: the receive of a refresh request, when there is one. \<open>HAsk\<close>: a
  call of \<open>Refresh\<close>. \<open>HCrash\<close>: a fetch during which the process dies after \<open>k\<close> steps of the write of
  the cache, if it comes so far, and is started again.
\<close>

datatype http_event =
    HTimer "cache_call \<Rightarrow> bool" fetch_env
  | HTake "cache_call \<Rightarrow> bool" fetch_env
  | HAsk
  | HCrash nat fetch_env time "cache_call \<Rightarrow> bool"

fun http_step ::
  "(string \<Rightarrow> document option) \<Rightarrow> (int \<Rightarrow> int) \<Rightarrow> http_event \<Rightarrow> http_loop \<Rightarrow> http_loop option" where
  "http_step u jit (HTimer io env) s = http_cycle u jit io env s"
| "http_step u jit (HTake io env) s =
     (if hp_refresh (hl_prov s)
      then http_cycle u jit io env (s\<lparr>hl_prov := (hl_prov s)\<lparr>hp_refresh := False\<rparr>\<rparr>)
      else Some s)"
| "http_step u jit HAsk s = Some (s\<lparr>hl_prov := http_refresh (hl_prov s)\<rparr>)"
| "http_step u jit (HCrash k env now io) s =
     Some (http_start u now io
       (case http_response_result u env (hl_prov s) of
          FetchChanged data meta _ \<Rightarrow> cache_crash (fe_done env) data meta k (hl_disk s)
        | _ \<Rightarrow> hl_disk s) (hp_cfg (hl_prov s)))"

fun http_run ::
  "(string \<Rightarrow> document option) \<Rightarrow> (int \<Rightarrow> int) \<Rightarrow> http_event list \<Rightarrow> http_loop \<Rightarrow> http_loop option" where
  "http_run u jit [] s = Some s"
| "http_run u jit (ev # evs) s = Option.bind (http_step u jit ev s) (http_run u jit evs)"

section \<open>Writes of the cache\<close>

lemma atomic_steps_length: "length cache_steps = 14"
  by (simp add: cache_steps_def atomic_steps_def)

lemma cache_crash_eq:
  assumes "no_tmp d = d"
  shows "cache_crash now body meta k d =
     d\<lparr>ck_doc := if 7 \<le> k then Some (body, now) else ck_doc d,
       ck_meta := if 14 \<le> k then Some (GoodMeta meta) else ck_meta d\<rparr>"
proof -
  have tmp: "ck_doc_tmp d = None" "ck_meta_tmp d = None"
    using arg_cong [OF assms, of ck_doc_tmp] arg_cong [OF assms, of ck_meta_tmp] by (simp_all add: no_tmp_def)
  have "k = 0 \<or> k = 1 \<or> k = 2 \<or> k = 3 \<or> k = 4 \<or> k = 5 \<or> k = 6 \<or> k = 7 \<or> k = 8 \<or> k = 9 \<or> k = 10
      \<or> k = 11 \<or> k = 12 \<or> k = 13 \<or> 14 \<le> k" by arith
  then show ?thesis
    by (elim disjE; simp add: cache_crash_def cache_steps_def atomic_steps_def no_tmp_def tmp)
qed

lemma write_cache_crash:
  obtains k where "snd (write_cache now fails body meta d) = cache_crash now body meta k d"
    "fst (write_cache now fails body meta d) \<longleftrightarrow> 14 \<le> k"
proof -
  let ?done = "takeWhile (\<lambda>s. \<not> fails s) cache_steps"
  have t: "?done = take (length ?done) cache_steps" by (rule takeWhile_eq_take)
  have "?done = cache_steps \<longleftrightarrow> 14 \<le> length ?done"
    using t atomic_steps_length by (metis length_takeWhile_le nle_le take_all)
  then show thesis using t that [of "length ?done"] by (simp add: write_cache_def cache_crash_def Let_def)
qed

lemma write_cache_ok:
  assumes "no_tmp d = d" and "\<And>s. \<not> fails s"
  shows "snd (write_cache now fails body meta d) = d\<lparr>ck_doc := Some (body, now), ck_meta := Some (GoodMeta meta)\<rparr>"
proof -
  obtain k where k: "snd (write_cache now fails body meta d) = cache_crash now body meta k d"
    "fst (write_cache now fails body meta d) \<longleftrightarrow> 14 \<le> k" by (rule write_cache_crash)
  have "fst (write_cache now fails body meta d)" using assms(2) by (simp add: write_cache_def Let_def)
  then show ?thesis using k cache_crash_eq [OF assms(1)] by simp
qed

lemma no_tmp_idem [simp]: "no_tmp (no_tmp d) = no_tmp d"
  by (simp add: no_tmp_def)

lemma no_tmp_crash [simp]: "no_tmp (cache_crash now body meta k d) = cache_crash now body meta k d"
  by (simp add: cache_crash_def)

lemma no_tmp_write [simp]: "no_tmp (snd (write_cache now fails body meta d)) = snd (write_cache now fails body meta d)"
  by (simp add: write_cache_def Let_def)

text \<open>The sidecar never shares its file with the document.\<close>

lemma meta_path_distinct: "meta_path p \<noteq> p"
proof -
  have "length (path_ext p) \<le> length p"
  proof -
    let ?b = "rev (takeWhile (\<lambda>c. c \<noteq> CHR ''/'') (rev p))"
    have b: "length ?b \<le> length p" by (metis length_rev length_takeWhile_le)
    show ?thesis
    proof (cases "split_last (CHR ''.'') ?b")
      case (Some pe)
      obtain q e where pe: "pe = (q, e)" by (cases pe)
      have "q @ CHR ''.'' # e = ?b" using Some pe split_last_append by blast
      then have "Suc (length e) \<le> length ?b" by (metis add_Suc_right le_add2 length_Cons length_append)
      then show ?thesis using b by (simp add: path_ext_def Some pe)
    qed (simp add: path_ext_def)
  qed
  then have "length (meta_path p) = length p + 5" by (simp add: meta_path_def Let_def)
  then show ?thesis by (metis add_eq_self_zero numeral_neq_zero)
qed

section \<open>Reading documents again\<close>

text \<open>Two parses of one document differ only in the times they carry.\<close>

definition timeless :: "host_record list \<Rightarrow> host_record list" where
  "timeless hs = map (\<lambda>r. r\<lparr>hr_seen_at := 0\<rparr>) hs"

lemma convert_host_time:
  "convert_host d source priority t' format h =
     (case convert_host d source priority t format h of Inl e \<Rightarrow> Inl e | Inr r \<Rightarrow> Inr (r\<lparr>hr_seen_at := t'\<rparr>))"
  by (simp add: convert_host_def Let_def split: sum.split)

lemma convert_hosts_time:
  "convert_hosts d source priority t' format hs =
     (case convert_hosts d source priority t format hs of
        Inl e \<Rightarrow> Inl e | Inr rs \<Rightarrow> Inr (map (\<lambda>r. r\<lparr>hr_seen_at := t'\<rparr>) rs))"
proof (induction hs)
  case (Cons h hs)
  show ?case
    by (simp add: Cons.IH convert_host_time [of d source priority t' format h t] split: sum.split)
qed simp

lemma parse_document_time:
  "parse_document u data source priority t' =
     (case parse_document u data source priority t of
        Inl e \<Rightarrow> Inl e
      | Inr s \<Rightarrow> Inr (s\<lparr>hs_hosts := map (\<lambda>r. r\<lparr>hr_seen_at := t'\<rparr>) (hs_hosts s), hs_fetch_at := t'\<rparr>))"
  by (simp add: parse_document_def
      convert_hosts_time [of _ source priority t' _ _ t] split: option.split sum.split)

text \<open>The hosts are those of the document.\<close>

definition hosts_of ::
  "(string \<Rightarrow> document option) \<Rightarrow> int \<Rightarrow> string \<Rightarrow> host_set \<Rightarrow> bool" where
  "hosts_of u priority data s \<longleftrightarrow>
     (\<exists>t p. parse_document u data ''http'' priority t = Inr p \<and> hs_hosts s = hs_hosts p)"

lemma hosts_of_timeless:
  assumes "hosts_of u priority data s" and "hosts_of u priority data s'"
  shows "timeless (hs_hosts s) = timeless (hs_hosts s')"
proof -
  obtain t p t' p' where p: "parse_document u data ''http'' priority t = Inr p" "hs_hosts s = hs_hosts p"
    and p': "parse_document u data ''http'' priority t' = Inr p'" "hs_hosts s' = hs_hosts p'"
    using assms unfolding hosts_of_def by blast
  have "hs_hosts p' = map (\<lambda>r. r\<lparr>hr_seen_at := t'\<rparr>) (hs_hosts p)"
    using p'(1) parse_document_time [of u data "''http''" priority t' t] p(1) by auto
  then show ?thesis by (simp add: p(2) p'(2) timeless_def)
qed

lemma load_cache_cases:
  assumes "load_cache u now io d p = (p', r)"
  obtains "r = None" "p' = p"
  | hset data t where "r = Some hset" "ck_doc d = Some (data, t)"
      "hosts_of u (hc_priority (hp_cfg p)) data hset" "p' = p"
  | hset data t m where "r = Some hset" "ck_doc d = Some (data, t)"
      "hosts_of u (hc_priority (hp_cfg p)) data hset"
      "ck_meta d = Some (GoodMeta m)" "p' = p\<lparr>hp_meta := m\<rparr>"
proof (cases r)
  case None
  then have "p' = p" using assms by (auto simp: load_cache_def Let_def split: option.splits sum.splits if_splits meta_file.splits)
  with None that(1) show thesis by blast
next
  case (Some hset)
  then obtain data t s where d: "ck_doc d = Some (data, t)"
    and s: "parse_document u data ''http'' (hc_priority (hp_cfg p)) now = Inr s"
    using assms by (auto simp: load_cache_def split: option.splits sum.splits if_splits)
  have "hs_hosts hset = hs_hosts s"
    using assms Some d s by (auto simp: load_cache_def split: option.splits if_splits meta_file.splits)
  then have h: "hosts_of u (hc_priority (hp_cfg p)) data hset" using s by (auto simp: hosts_of_def)
  have "p' = p \<or> (\<exists>m. ck_meta d = Some (GoodMeta m) \<and> p' = p\<lparr>hp_meta := m\<rparr>)"
    using assms Some d s by (auto simp: load_cache_def split: option.splits if_splits meta_file.splits)
  then show thesis using that(2) [OF Some d h] that(3) [OF Some d h] by blast
qed

lemma load_cache_good:
  assumes "ck_doc d = Some (data, t)" and "\<not> io ReadDoc"
    and "parse_document u data ''http'' (hc_priority (hp_cfg p)) now = Inr hset"
  shows "\<exists>p' r. load_cache u now io d p = (p', Some r) \<and> hs_hosts r = hs_hosts hset \<and> hp_cfg p' = hp_cfg p"
proof (cases "if io ReadMeta then None else ck_meta d")
  case None
  then show ?thesis using assms by (simp add: load_cache_def)
next
  case (Some mf)
  then show ?thesis using assms by (cases mf) (simp_all add: load_cache_def)
qed

lemma report_stale_cases:
  assumes "report_stale u now io d p = (p', r)"
  obtains "r = None" "p' = p"
  | hset q where "load_cache u now io d p = (p', Some q)" "hp_have p" "r = Some hset" "hs_hosts hset = hs_hosts q"
      "hs_stale hset"
proof (cases "load_cache u now io d p")
  case (Pair q s)
  have none: "q = p" if "s = None" using load_cache_cases [OF Pair] that by blast
  from that none assms Pair show thesis
    by (auto simp: report_stale_def split: option.splits if_splits)
qed

section \<open>The contract of a source\<close>

definition http_emits :: "host_set \<Rightarrow> bool" where
  "http_emits s \<longleftrightarrow> (\<exists>u data priority. hosts_of u priority data s)"

interpretation httpsrc: host_source http_emits
  by unfold_locales (auto simp: http_emits_def hosts_of_def dest: parse_document_usable(2))

section \<open>What the loop hands over\<close>

lemma response_changed:
  assumes "http_response_result u env p = FetchChanged data meta hset"
  shows "hosts_of u (hc_priority (hp_cfg p)) data hset" "cm_url meta = hc_url (hp_cfg p)"
    "\<exists>status body. http_answer env p = Response status (cm_etag meta) (cm_last_modified meta) (Some body)
       \<and> 200 \<le> status \<and> status \<le> 299 \<and> data = take max_body body"
proof -
  obtain status etag modified full t where
    a: "http_answer env p = Response status etag modified (Some full)" "200 \<le> status" "status \<le> 299"
    and d: "data = take max_body full" "meta = new_meta (hp_cfg p) (fe_done env) data etag modified"
    and t: "parse_document u data ''http'' (hc_priority (hp_cfg p)) (fe_now env) = Inr t"
      "hset = t\<lparr>hs_fetch_at := cm_fetched_at meta\<rparr>"
    using assms by (auto simp: http_response_result_def Let_def
        split: http_response.splits if_splits option.splits sum.splits)
  show "hosts_of u (hc_priority (hp_cfg p)) data hset"
    unfolding hosts_of_def by (rule exI [of _ "fe_now env"], rule exI [of _ t]) (simp add: t)
  show "cm_url meta = hc_url (hp_cfg p)" by (simp add: d(2) new_meta_def)
  show "\<exists>status body. http_answer env p = Response status (cm_etag meta) (cm_last_modified meta) (Some body)
       \<and> 200 \<le> status \<and> status \<le> 299 \<and> data = take max_body body"
    using a d by (auto simp: new_meta_def)
qed

text \<open>The fetched documents with their metadata, in order, over a run.\<close>

definition fetched_by ::
  "(string \<Rightarrow> document option) \<Rightarrow> fetch_env \<Rightarrow> http_prov \<Rightarrow> (string \<times> cache_meta) list" where
  "fetched_by u env p =
     (case http_response_result u env p of FetchChanged data meta _ \<Rightarrow> [(data, meta)] | _ \<Rightarrow> [])"

fun fetched :: "(string \<Rightarrow> document option) \<Rightarrow> http_event \<Rightarrow> http_loop \<Rightarrow> (string \<times> cache_meta) list" where
  "fetched u (HTimer io env) s = fetched_by u env (hl_prov s)"
| "fetched u (HTake io env) s = (if hp_refresh (hl_prov s) then fetched_by u env (hl_prov s) else [])"
| "fetched u HAsk s = []"
| "fetched u (HCrash k env now io) s = fetched_by u env (hl_prov s)"

fun http_history ::
  "(string \<Rightarrow> document option) \<Rightarrow> (int \<Rightarrow> int) \<Rightarrow> http_event list \<Rightarrow> http_loop \<Rightarrow> (string \<times> cache_meta) list" where
  "http_history u jit [] s = []"
| "http_history u jit (ev # evs) s =
     fetched u ev s @ (case http_step u jit ev s of None \<Rightarrow> [] | Some s' \<Rightarrow> http_history u jit evs s')"

text \<open>The metadata belong to a document fetched no later than the one on disk.\<close>

definition paired :: "(string \<times> cache_meta) list \<Rightarrow> cache_disk \<Rightarrow> cache_meta \<Rightarrow> bool" where
  "paired h d m \<longleftrightarrow>
     (\<exists>i j t. i \<le> j \<and> j < length h \<and> m = snd (h ! i) \<and> ck_doc d = Some (fst (h ! j), t))"

definition disk_inv :: "(string \<times> cache_meta) list \<Rightarrow> cache_disk \<Rightarrow> bool" where
  "disk_inv h d \<longleftrightarrow> no_tmp d = d \<and> (\<forall>m. ck_meta d = Some (GoodMeta m) \<longrightarrow> paired h d m)"

text \<open>The document on disk is the one in force.\<close>

definition in_force :: "(string \<Rightarrow> document option) \<Rightarrow> int \<Rightarrow> cache_disk \<Rightarrow> host_set list \<Rightarrow> bool" where
  "in_force u priority d out \<longleftrightarrow>
     out \<noteq> [] \<and> (\<exists>data t. ck_doc d = Some (data, t) \<and> hosts_of u priority data (last out))"

definition http_inv ::
  "(string \<Rightarrow> document option) \<Rightarrow> http_config \<Rightarrow> (string \<times> cache_meta) list \<Rightarrow> http_loop \<Rightarrow> bool" where
  "http_inv u cfg h s \<longleftrightarrow>
     hp_cfg (hl_prov s) = cfg \<and> disk_inv h (hl_disk s)
     \<and> (hp_meta (hl_prov s) \<noteq> no_meta \<longrightarrow>
          paired h (hl_disk s) (hp_meta (hl_prov s)) \<and> in_force u (hc_priority cfg) (hl_disk s) (hl_out s))"

definition http_event_ok :: "http_event \<Rightarrow> bool" where
  "http_event_ok ev =
     (case ev of HTimer io env \<Rightarrow> \<not> list_ex (fe_fails env) cache_steps
      | HTake io env \<Rightarrow> \<not> list_ex (fe_fails env) cache_steps | _ \<Rightarrow> True)"

lemma response_refresh [simp]:
  "http_response_result u env (p\<lparr>hp_refresh := b\<rparr>) = http_response_result u env p"
proof -
  have p: "hp_cfg (p\<lparr>hp_refresh := b\<rparr>) = hp_cfg p" "hp_meta (p\<lparr>hp_refresh := b\<rparr>) = hp_meta p" by simp_all
  have "http_answer env (p\<lparr>hp_refresh := b\<rparr>) = http_answer env p" unfolding http_answer_def p ..
  then show ?thesis unfolding http_response_result_def p by simp
qed

lemma paired_append: "paired h d m \<Longrightarrow> paired (h @ h') d m"
proof -
  assume "paired h d m"
  then obtain i j t where "i \<le> j" "j < length h" "m = snd (h ! i)" "ck_doc d = Some (fst (h ! j), t)"
    unfolding paired_def by blast
  then show ?thesis unfolding paired_def
    by (intro exI [of _ i] exI [of _ j] exI [of _ t]) (simp add: nth_append)
qed

lemma paired_new_doc:
  assumes "paired h d m" and "ck_doc d' = Some (data, t)"
  shows "paired (h @ [(data, meta)]) d' m"
proof -
  obtain i j where "i \<le> j" "j < length h" "m = snd (h ! i)" using assms(1) unfolding paired_def by blast
  then have "i < length h" "m = snd (h ! i)" by simp_all
  then show ?thesis using assms(2) unfolding paired_def
    by (intro exI [of _ i] exI [of _ "length h"] exI [of _ t]) (simp add: nth_append)
qed

lemma paired_both:
  "ck_doc d' = Some (data, t) \<Longrightarrow> paired (h @ [(data, meta)]) d' meta"
  unfolding paired_def by (intro exI [of _ "length h"] exI [of _ t]) simp

lemma disk_inv_crash:
  assumes "disk_inv h d"
  shows "disk_inv (h @ [(data, meta)]) (cache_crash now data meta k d)"
proof -
  have d: "no_tmp d = d" "\<And>m. ck_meta d = Some (GoodMeta m) \<Longrightarrow> paired h d m"
    using assms by (auto simp: disk_inv_def)
  consider "k < 7" | "7 \<le> k" "k < 14" | "14 \<le> k" by linarith
  then show ?thesis
  proof cases
    case 1
    then have "cache_crash now data meta k d = d" using cache_crash_eq [OF d(1)] by simp
    then show ?thesis using d by (auto simp: disk_inv_def intro: paired_append)
  next
    case 2
    then have c: "cache_crash now data meta k d = d\<lparr>ck_doc := Some (data, now)\<rparr>" using cache_crash_eq [OF d(1)] by simp
    have "no_tmp (d\<lparr>ck_doc := Some (data, now)\<rparr>) = d\<lparr>ck_doc := Some (data, now)\<rparr>"
      using no_tmp_crash [of now data meta k d] unfolding c .
    moreover have "paired (h @ [(data, meta)]) (d\<lparr>ck_doc := Some (data, now)\<rparr>) m"
      if "ck_meta d = Some (GoodMeta m)" for m
      using paired_new_doc [OF d(2) [OF that]] by simp
    ultimately show ?thesis unfolding c by (simp add: disk_inv_def)
  next
    case 3
    then have c: "cache_crash now data meta k d = d\<lparr>ck_doc := Some (data, now), ck_meta := Some (GoodMeta meta)\<rparr>"
      using cache_crash_eq [OF d(1)] by simp
    show ?thesis unfolding disk_inv_def
      using no_tmp_crash [of now data meta k d] paired_both [of "cache_crash now data meta k d" data now h meta]
      by (auto simp: c)
  qed
qed

lemma disk_inv_append: "disk_inv h d \<Longrightarrow> disk_inv (h @ h') d"
  by (auto simp: disk_inv_def intro: paired_append)

lemma http_start_inv:
  assumes "disk_inv h d"
  shows "http_inv u cfg h (http_start u now io d cfg)"
proof (cases "load_cache u now io d (new_http_prov cfg)")
  case (Pair p r)
  have new: "hp_cfg (new_http_prov cfg) = cfg" "hp_meta (new_http_prov cfg) = no_meta"
    by (simp_all add: new_http_prov_def)
  show ?thesis
    using load_cache_cases [OF Pair] assms
    by cases (auto simp: http_inv_def http_start_def Pair new in_force_def disk_inv_def)
qed

lemma http_cycle_inv:
  assumes inv: "http_inv u cfg h s" and ok: "\<not> list_ex (fe_fails env) cache_steps"
    and run: "http_cycle u jit io env s = Some s'"
  shows "http_inv u cfg (h @ fetched_by u env (hl_prov s)) s'"
proof (cases "http_response_result u env (hl_prov s)")
  case (FetchChanged data meta hset)
  let ?d = "snd (write_cache (fe_done env) (fe_fails env) data meta (hl_disk s))"
  have nt: "no_tmp (hl_disk s) = hl_disk s" using inv by (simp add: http_inv_def disk_inv_def)
  have "takeWhile (\<lambda>s. \<not> fe_fails env s) cache_steps = cache_steps"
    using ok by (auto simp: takeWhile_eq_all_conv list_ex_iff)
  then have all: "fst (write_cache (fe_done env) (fe_fails env) data meta (hl_disk s))"
    by (simp add: write_cache_def Let_def)
  obtain k where k: "?d = cache_crash (fe_done env) data meta k (hl_disk s)" "14 \<le> k"
    using all by (metis write_cache_crash)
  have doc: "ck_doc ?d = Some (data, fe_done env)" using k cache_crash_eq [OF nt] by simp
  have "disk_inv (h @ [(data, meta)]) ?d" unfolding k(1) using inv by (intro disk_inv_crash) (simp add: http_inv_def)
  moreover have "hosts_of u (hc_priority cfg) data hset"
    using response_changed(1) [OF FetchChanged] inv by (simp add: http_inv_def)
  ultimately show ?thesis
    using run inv doc paired_both [OF doc, of h meta]
    by (auto simp: http_cycle_def http_fetch_def FetchChanged fetched_by_def http_inv_def in_force_def)
next
  case FetchUnchanged
  then show ?thesis using run inv
    by (auto simp: http_cycle_def http_fetch_def fetched_by_def http_inv_def)
next
  case FetchFailed
  let ?p = "(hl_prov s)\<lparr>hp_attempt := hp_attempt (hl_prov s) + 1\<rparr>"
  obtain p2 stale where st: "report_stale u (fe_done env) io (hl_disk s) ?p = (p2, stale)" by fastforce
  have s': "hl_prov s' = p2" "hl_disk s' = hl_disk s"
    "hl_out s' = hl_out s @ (case stale of None \<Rightarrow> [] | Some hset \<Rightarrow> [hset])"
    using run by (auto simp: http_cycle_def http_fetch_def FetchFailed Let_def st split: option.splits)
  have h: "fetched_by u env (hl_prov s) = []" by (simp add: fetched_by_def FetchFailed)
  have cfg: "hp_cfg (hl_prov s) = cfg" "disk_inv h (hl_disk s)" using inv by (simp_all add: http_inv_def)
  from st show ?thesis
  proof (cases rule: report_stale_cases)
    case 1
    then show ?thesis using inv s' by (simp add: http_inv_def h)
  next
    case (2 hset q)
    from 2(1) show ?thesis
    proof (cases rule: load_cache_cases)
      case (2 q' data t)
      then have "in_force u (hc_priority cfg) (hl_disk s) (hl_out s')"
        using s' \<open>stale = Some hset\<close> \<open>hs_hosts hset = hs_hosts q\<close> cfg by (auto simp: in_force_def hosts_of_def)
      then show ?thesis using 2 inv s' by (simp add: http_inv_def h)
    next
      case (3 q' data t m)
      then have "in_force u (hc_priority cfg) (hl_disk s) (hl_out s')"
        using s' \<open>stale = Some hset\<close> \<open>hs_hosts hset = hs_hosts q\<close> cfg by (auto simp: in_force_def hosts_of_def)
      moreover have "paired h (hl_disk s) m" using cfg(2) 3 by (simp add: disk_inv_def)
      ultimately show ?thesis using 3 cfg s' by (simp add: http_inv_def h)
    qed simp
  qed
qed

lemma http_step_inv:
  assumes inv: "http_inv u cfg h s" and ok: "http_event_ok ev" and run: "http_step u jit ev s = Some s'"
  shows "http_inv u cfg (h @ fetched u ev s) s'"
proof (cases ev)
  case (HTimer io env)
  then show ?thesis using http_cycle_inv [OF inv] ok run by (simp add: http_event_ok_def)
next
  case (HTake io env)
  let ?s = "s\<lparr>hl_prov := (hl_prov s)\<lparr>hp_refresh := False\<rparr>\<rparr>"
  have inv': "http_inv u cfg h ?s" using inv by (simp add: http_inv_def)
  have "fetched_by u env (hl_prov ?s) = fetched_by u env (hl_prov s)"
    by (simp add: fetched_by_def)
  then show ?thesis using http_cycle_inv [OF inv', of env jit io] ok run HTake inv
    by (auto simp: http_event_ok_def split: if_splits)
next
  case HAsk
  then show ?thesis using inv run by (auto simp: http_inv_def http_refresh_def)
next
  case (HCrash k env now io)
  have cfg: "hp_cfg (hl_prov s) = cfg" "disk_inv h (hl_disk s)" using inv by (simp_all add: http_inv_def)
  show ?thesis
  proof (cases "http_response_result u env (hl_prov s)")
    case (FetchChanged data meta hset)
    then show ?thesis using run HCrash cfg http_start_inv [OF disk_inv_crash [OF cfg(2)]]
      by (auto simp: fetched_by_def)
  qed (use run HCrash cfg http_start_inv [OF cfg(2)] in \<open>auto simp: fetched_by_def\<close>)
qed

lemma http_run_inv:
  assumes "http_inv u cfg h s" and "list_all http_event_ok evs" and "http_run u jit evs s = Some s'"
  shows "http_inv u cfg (h @ http_history u jit evs s) s'"
  using assms
proof (induction evs arbitrary: s h)
  case (Cons ev evs)
  obtain s1 where s1: "http_step u jit ev s = Some s1" "http_run u jit evs s1 = Some s'"
    using Cons.prems(3) by (auto simp: bind_eq_Some_conv)
  have "http_inv u cfg (h @ fetched u ev s) s1" using http_step_inv [OF Cons.prems(1) _ s1(1)] Cons.prems(2) by simp
  from Cons.IH [OF this _ s1(2)] show ?case using Cons.prems(2) by (simp add: s1(1))
qed simp

section \<open>Validators and the set in force\<close>

text \<open>
  C20: the validators of a request never run ahead of the set in force. Start with an empty cache and
  take any run in which the completed writes of the cache succeed, with crashes anywhere inside a
  write, restarts, failing reads of the cache and any answers of the server: when a request carries
  an \<open>If-None-Match\<close> or an \<open>If-Modified-Since\<close>, its validators are those of some fetched document
  \<open>i\<close>, and the hosts in force are those of a document \<open>j\<close> fetched no earlier. So an answer 304 never
  confirms a document newer than the one in force, and a node without hosts never asks conditionally.
\<close>

theorem validators_not_ahead:
  assumes "list_all http_event_ok evs"
    and "http_run u jit evs (http_start u now io empty_disk cfg) = Some s"
    and "(name, v) \<in> set (request_headers (hp_meta (hl_prov s)) auth)"
    and "name = ''If-None-Match'' \<or> name = ''If-Modified-Since''"
  shows "\<exists>i j. i \<le> j \<and> j < length (http_history u jit evs (http_start u now io empty_disk cfg))
    \<and> hp_meta (hl_prov s) = snd (http_history u jit evs (http_start u now io empty_disk cfg) ! i)
    \<and> hl_out s \<noteq> []
    \<and> hosts_of u (hc_priority cfg) (fst (http_history u jit evs (http_start u now io empty_disk cfg) ! j))
        (last (hl_out s))"
proof -
  have "disk_inv [] empty_disk" by (simp add: disk_inv_def empty_disk_def no_tmp_def)
  from http_run_inv [OF http_start_inv [OF this] assms(1,2)]
  have inv: "http_inv u cfg (http_history u jit evs (http_start u now io empty_disk cfg)) s" by simp
  have "hp_meta (hl_prov s) \<noteq> no_meta"
    using assms(3,4) by (auto simp: request_headers_def no_meta_def split: if_splits)
  then have p: "paired (http_history u jit evs (http_start u now io empty_disk cfg)) (hl_disk s) (hp_meta (hl_prov s))"
    and f: "in_force u (hc_priority cfg) (hl_disk s) (hl_out s)" using inv by (auto simp: http_inv_def)
  from p obtain i j t where ij: "i \<le> j" "j < length (http_history u jit evs (http_start u now io empty_disk cfg))"
    "hp_meta (hl_prov s) = snd (http_history u jit evs (http_start u now io empty_disk cfg) ! i)"
    "ck_doc (hl_disk s) = Some (fst (http_history u jit evs (http_start u now io empty_disk cfg) ! j), t)"
    unfolding paired_def by blast
  have "hl_out s \<noteq> []" "hosts_of u (hc_priority cfg)
      (fst (http_history u jit evs (http_start u now io empty_disk cfg) ! j)) (last (hl_out s))"
    using f ij(4) by (auto simp: in_force_def)
  then show ?thesis using ij(1-3) by blast
qed

definition good_env :: fetch_env where
  "good_env =
     \<lparr>fe_request_ok = True, fe_read = (\<lambda>_. None),
      fe_server = (\<lambda>_. Response 200 ''v1'' [] (Some ''good'')), fe_fails = (\<lambda>_. False),
      fe_now = 10, fe_done = 11\<rparr>"

definition http_demo_cfg :: http_config where
  "http_demo_cfg = (pv_http (cf_providers default_config))\<lparr>hc_url := ''http://c''\<rparr>"

lemma take_good: "take max_body ''good'' = ''good''"
  by (simp add: max_body_def)

lemma good_env_result:
  assumes "hc_auth_header_file (hp_cfg p) = []"
    and "parse_document demo_unmarshal ''good'' ''http'' (hc_priority (hp_cfg p)) 10 = Inr t"
  shows "http_response_result demo_unmarshal good_env p =
     FetchChanged ''good'' (new_meta (hp_cfg p) 11 ''good'' ''v1'' []) (t\<lparr>hs_fetch_at := 11\<rparr>)"
  using assms
  by (simp add: http_response_result_def http_answer_def good_env_def auth_header_def take_good Let_def new_meta_def)

lemma http_demo_run:
  obtains s where
    "http_run demo_unmarshal (\<lambda>_. 0) [HTimer (\<lambda>_. False) good_env]
       (http_start demo_unmarshal 1 (\<lambda>_. False) empty_disk http_demo_cfg) = Some s"
    "hp_meta (hl_prov s) = new_meta http_demo_cfg 11 ''good'' ''v1'' []"
    "hl_disk s = empty_disk\<lparr>ck_doc := Some (''good'', 11), ck_meta := Some (GoodMeta (hp_meta (hl_prov s)))\<rparr>"
    "hp_cfg (hl_prov s) = http_demo_cfg" "hp_have (hl_prov s)" "hp_attempt (hl_prov s) = 0"
    "hl_out s \<noteq> []" "hosts_of demo_unmarshal (hc_priority http_demo_cfg) ''good'' (last (hl_out s))"
proof -
  let ?p = "new_http_prov http_demo_cfg"
  obtain t where t: "parse_document demo_unmarshal ''good'' ''http'' (hc_priority http_demo_cfg) 10 = Inr t"
    using demo_parses by blast
  have cfg: "hp_cfg ?p = http_demo_cfg" "hc_auth_header_file http_demo_cfg = []"
    by (simp_all add: new_http_prov_def http_demo_cfg_def default_config_def)
  have start: "http_start demo_unmarshal 1 (\<lambda>_. False) empty_disk http_demo_cfg
      = \<lparr>hl_prov = ?p, hl_disk = empty_disk, hl_out = [], hl_delay = 0\<rparr>"
    by (simp add: http_start_def load_cache_def empty_disk_def)
  have res: "http_response_result demo_unmarshal good_env ?p =
     FetchChanged ''good'' (new_meta http_demo_cfg 11 ''good'' ''v1'' []) (t\<lparr>hs_fetch_at := 11\<rparr>)"
    using good_env_result [of ?p t] t cfg by simp
  have nt: "no_tmp empty_disk = empty_disk" by (simp add: no_tmp_def empty_disk_def)
  have wr: "snd (write_cache 11 (\<lambda>_. False) ''good'' m empty_disk)
      = empty_disk\<lparr>ck_doc := Some (''good'', 11), ck_meta := Some (GoodMeta m)\<rparr>" for m
    by (rule write_cache_ok [OF nt]) simp
  have h: "hosts_of demo_unmarshal (hc_priority http_demo_cfg) ''good'' (t\<lparr>hs_fetch_at := 11\<rparr>)"
    unfolding hosts_of_def by (rule exI [of _ 10], rule exI [of _ t]) (simp add: t)
  have env: "fe_done good_env = 11" "fe_fails good_env = (\<lambda>_. False)" by (simp_all add: good_env_def)
  let ?m = "new_meta http_demo_cfg 11 ''good'' ''v1'' []"
  have step: "http_step demo_unmarshal (\<lambda>_. 0) (HTimer (\<lambda>_. False) good_env)
      (http_start demo_unmarshal 1 (\<lambda>_. False) empty_disk http_demo_cfg)
      = Some \<lparr>hl_prov = ?p\<lparr>hp_meta := ?m, hp_attempt := 0, hp_have := True\<rparr>,
              hl_disk = empty_disk\<lparr>ck_doc := Some (''good'', 11), ck_meta := Some (GoodMeta ?m)\<rparr>,
              hl_out = [t\<lparr>hs_fetch_at := 11\<rparr>], hl_delay = http_interval http_demo_cfg\<rparr>"
    by (simp add: start http_cycle_def http_fetch_def res env wr cfg)
  have run: "http_run demo_unmarshal (\<lambda>_. 0) [HTimer (\<lambda>_. False) good_env]
      (http_start demo_unmarshal 1 (\<lambda>_. False) empty_disk http_demo_cfg)
      = http_step demo_unmarshal (\<lambda>_. 0) (HTimer (\<lambda>_. False) good_env)
      (http_start demo_unmarshal 1 (\<lambda>_. False) empty_disk http_demo_cfg)"
    unfolding http_run.simps by (simp only: step bind.simps http_run.simps)
  show thesis
    by (rule that [OF trans [OF run step]]) (simp_all add: cfg h)
qed

theorem validators_not_ahead_witness:
  "\<exists>s. http_run demo_unmarshal (\<lambda>_. 0) [HTimer (\<lambda>_. False) good_env]
       (http_start demo_unmarshal 1 (\<lambda>_. False) empty_disk http_demo_cfg) = Some s \<and> hl_out s \<noteq> []"
proof -
  obtain s where s: "http_run demo_unmarshal (\<lambda>_. 0) [HTimer (\<lambda>_. False) good_env]
       (http_start demo_unmarshal 1 (\<lambda>_. False) empty_disk http_demo_cfg) = Some s"
    "hp_meta (hl_prov s) = new_meta http_demo_cfg 11 ''good'' ''v1'' []" by (rule http_demo_run)
  have ok: "list_all http_event_ok [HTimer (\<lambda>_. False) good_env]"
    by (simp add: http_event_ok_def good_env_def list_ex_iff)
  have "(''If-None-Match'', ''v1'') \<in> set (request_headers (hp_meta (hl_prov s)) [])"
    by (simp add: s(2) request_headers_def new_meta_def)
  from validators_not_ahead [OF ok s(1) this] s(1) show ?thesis by blast
qed

section \<open>Outages\<close>

text \<open>An environment that brings no document: no answer, a bad status, or a body that is refused.\<close>

definition no_document :: "(string \<Rightarrow> document option) \<Rightarrow> http_config \<Rightarrow> fetch_env \<Rightarrow> bool" where
  "no_document u cfg env \<longleftrightarrow>
     (\<forall>hs. case fe_server env hs of
        NoResponse \<Rightarrow> True
      | Response status etag modified body \<Rightarrow> status \<noteq> 304 \<and> (status < 200 \<or> status > 299 \<or>
          (\<forall>full. body = Some full \<longrightarrow>
             (\<exists>e. parse_document u (take max_body full) ''http'' (hc_priority cfg) (fe_now env) = Inl e))))"

lemma no_document_fails:
  assumes "no_document u (hp_cfg p) env"
  shows "http_response_result u env p = FetchFailed"
proof (cases "http_answer env p")
  case (Response status etag modified body)
  then obtain hs where hs: "fe_server env hs = Response status etag modified body"
    by (auto simp: http_answer_def split: if_splits option.splits)
  from assms have "case fe_server env hs of NoResponse \<Rightarrow> True
      | Response status etag modified body \<Rightarrow> status \<noteq> 304 \<and> (status < 200 \<or> status > 299 \<or>
          (\<forall>full. body = Some full \<longrightarrow>
             (\<exists>e. parse_document u (take max_body full) ''http'' (hc_priority (hp_cfg p)) (fe_now env) = Inl e)))"
    unfolding no_document_def by (rule spec)
  then show ?thesis by (auto simp: hs http_response_result_def Response Let_def split: option.split)
qed (simp add: http_response_result_def)

definition outage :: "(string \<Rightarrow> document option) \<Rightarrow> http_config \<Rightarrow> http_event \<Rightarrow> bool" where
  "outage u cfg ev \<longleftrightarrow> (\<exists>io env. ev = HTimer io env \<and> no_document u cfg env)"

text \<open>The retry delay never panics with a positive minimum and maximum.\<close>

definition retry_ok :: "(int \<Rightarrow> int) \<Rightarrow> http_config \<Rightarrow> bool" where
  "retry_ok jit cfg \<longleftrightarrow> 0 < hc_backoff_min cfg \<and> 0 < hc_backoff_max cfg \<and> hc_backoff_max cfg \<le> 2 ^ 60
     \<and> (\<forall>n > 0. 0 \<le> jit n \<and> jit n < n)"

lemma retry_total:
  assumes "retry_ok jit cfg" "0 \<le> attempt"
  obtains b where "provider_backoff jit attempt (hc_backoff_min cfg) (hc_backoff_max cfg) = Some b"
proof -
  let ?d = "min (hc_backoff_max cfg) (hc_backoff_min cfg * 2 ^ nat attempt)"
  have "0 < ?d" using assms(1) by (simp add: retry_ok_def)
  then have "0 < ?d div 4 + 1" by linarith
  then have j: "0 \<le> jit (?d div 4 + 1)" "jit (?d div 4 + 1) < ?d div 4 + 1"
    using assms(1) unfolding retry_ok_def by blast+
  show thesis
    by (rule that, rule provider_backoff_eq [where j = jit, OF assms(2) _ _ _ refl j]) (use assms(1) in \<open>simp_all add: retry_ok_def\<close>)
qed

lemma outage_step:
  assumes "outage u (hp_cfg (hl_prov s)) ev" and "retry_ok jit (hp_cfg (hl_prov s))" and "0 \<le> hp_attempt (hl_prov s)"
    and "in_force u (hc_priority (hp_cfg (hl_prov s))) (hl_disk s) (hl_out s)"
  shows "\<exists>s'. http_step u jit ev s = Some s' \<and> hp_cfg (hl_prov s') = hp_cfg (hl_prov s)
    \<and> hp_attempt (hl_prov s') = hp_attempt (hl_prov s) + 1 \<and> hl_disk s' = hl_disk s
    \<and> in_force u (hc_priority (hp_cfg (hl_prov s))) (hl_disk s) (hl_out s')"
proof -
  let ?p = "(hl_prov s)\<lparr>hp_attempt := hp_attempt (hl_prov s) + 1\<rparr>"
  obtain io env where ev: "ev = HTimer io env" "no_document u (hp_cfg (hl_prov s)) env"
    using assms(1) unfolding outage_def by blast
  note failed = no_document_fails [OF ev(2)]
  obtain b where b: "provider_backoff jit (hp_attempt (hl_prov s) + 1)
      (hc_backoff_min (hp_cfg (hl_prov s))) (hc_backoff_max (hp_cfg (hl_prov s))) = Some b"
    using retry_total [OF assms(2), of "hp_attempt (hl_prov s) + 1"] assms(3) by auto
  obtain p2 stale where st: "report_stale u (fe_done env) io (hl_disk s) ?p = (p2, stale)" by fastforce
  have step: "http_step u jit ev s = Some \<lparr>hl_prov = p2, hl_disk = hl_disk s,
      hl_out = hl_out s @ (case stale of None \<Rightarrow> [] | Some hset \<Rightarrow> [hset]), hl_delay = b\<rparr>"
    by (simp add: ev http_cycle_def http_fetch_def failed Let_def b st)
  from st show ?thesis
  proof (cases rule: report_stale_cases)
    case 1
    then show ?thesis using assms(4) step by simp
  next
    case (2 hset q)
    from 2(1) have "\<exists>data t. ck_doc (hl_disk s) = Some (data, t)
        \<and> hosts_of u (hc_priority (hp_cfg (hl_prov s))) data q
        \<and> hp_cfg p2 = hp_cfg (hl_prov s) \<and> hp_attempt p2 = hp_attempt (hl_prov s) + 1"
      by (cases rule: load_cache_cases) auto
    then show ?thesis using 2 step by (auto simp: in_force_def hosts_of_def)
  qed
qed

lemma outage_run:
  assumes "list_all (outage u (hp_cfg (hl_prov s))) evs" and "retry_ok jit (hp_cfg (hl_prov s))"
    and "0 \<le> hp_attempt (hl_prov s)" and "in_force u (hc_priority (hp_cfg (hl_prov s))) (hl_disk s) (hl_out s)"
  shows "\<exists>s'. http_run u jit evs s = Some s' \<and> hp_attempt (hl_prov s') = hp_attempt (hl_prov s) + int (length evs)
    \<and> hl_disk s' = hl_disk s \<and> in_force u (hc_priority (hp_cfg (hl_prov s))) (hl_disk s) (hl_out s')"
  using assms
proof (induction evs arbitrary: s)
  case (Cons ev evs)
  obtain s1 where s1: "http_step u jit ev s = Some s1" "hp_cfg (hl_prov s1) = hp_cfg (hl_prov s)"
    "hp_attempt (hl_prov s1) = hp_attempt (hl_prov s) + 1" "hl_disk s1 = hl_disk s"
    "in_force u (hc_priority (hp_cfg (hl_prov s))) (hl_disk s) (hl_out s1)"
    using outage_step [of u s ev jit] Cons.prems by auto
  have "\<exists>s'. http_run u jit evs s1 = Some s' \<and> hp_attempt (hl_prov s') = hp_attempt (hl_prov s1) + int (length evs)
    \<and> hl_disk s' = hl_disk s1 \<and> in_force u (hc_priority (hp_cfg (hl_prov s1))) (hl_disk s1) (hl_out s')"
    using Cons.prems s1 by (intro Cons.IH) simp_all
  then show ?case using s1 by auto
qed simp

text \<open>
  An outage of the config server keeps the hosts. When the document in force is the one in the
  cache, any number of fetches that bring no document (no answer, an error status, a document that is
  refused) leaves the loop running, each with its retry delay, and the hosts last handed over are
  still the same up to their time stamps, whether or not the stale report re-read them from the cache.
\<close>

theorem outage_keeps_hosts:
  assumes "list_all (outage u (hp_cfg (hl_prov s))) evs" and "retry_ok jit (hp_cfg (hl_prov s))"
    and "0 \<le> hp_attempt (hl_prov s)" and "ck_doc (hl_disk s) = Some (data, t)" and "hl_out s \<noteq> []"
    and "hosts_of u (hc_priority (hp_cfg (hl_prov s))) data (last (hl_out s))"
  shows "\<exists>s'. http_run u jit evs s = Some s' \<and> hl_out s' \<noteq> []
    \<and> timeless (hs_hosts (last (hl_out s'))) = timeless (hs_hosts (last (hl_out s)))
    \<and> hp_attempt (hl_prov s') = hp_attempt (hl_prov s) + int (length evs) \<and> hl_disk s' = hl_disk s"
proof -
  have "in_force u (hc_priority (hp_cfg (hl_prov s))) (hl_disk s) (hl_out s)"
    using assms(4-6) by (auto simp: in_force_def)
  from outage_run [OF assms(1-3) this] obtain s' where s': "http_run u jit evs s = Some s'"
    "hp_attempt (hl_prov s') = hp_attempt (hl_prov s) + int (length evs)" "hl_disk s' = hl_disk s"
    "in_force u (hc_priority (hp_cfg (hl_prov s))) (hl_disk s) (hl_out s')" by blast
  have "hosts_of u (hc_priority (hp_cfg (hl_prov s))) data (last (hl_out s'))" "hl_out s' \<noteq> []"
    using s'(4) assms(4) by (auto simp: in_force_def)
  then show ?thesis using hosts_of_timeless [OF _ assms(6)] s' by blast
qed

definition down_env :: fetch_env where
  "down_env = good_env\<lparr>fe_server := \<lambda>_. Response 503 [] [] None, fe_done := 10 ^ 18\<rparr>"

lemma down_outage: "outage u cfg (HTimer (\<lambda>_. False) down_env)"
  by (auto simp: outage_def no_document_def down_env_def)

lemma demo_retry: "retry_ok (\<lambda>_. 0) http_demo_cfg"
  by (simp add: retry_ok_def http_demo_cfg_def default_config_def second_def)

theorem outage_keeps_hosts_witness:
  "\<exists>s s'. http_run demo_unmarshal (\<lambda>_. 0) [HTimer (\<lambda>_. False) good_env]
       (http_start demo_unmarshal 1 (\<lambda>_. False) empty_disk http_demo_cfg) = Some s
     \<and> http_run demo_unmarshal (\<lambda>_. 0) (replicate 9 (HTimer (\<lambda>_. False) down_env)) s = Some s'
     \<and> timeless (hs_hosts (last (hl_out s'))) = timeless (hs_hosts (last (hl_out s)))"
proof -
  obtain s where s: "http_run demo_unmarshal (\<lambda>_. 0) [HTimer (\<lambda>_. False) good_env]
       (http_start demo_unmarshal 1 (\<lambda>_. False) empty_disk http_demo_cfg) = Some s"
    "hl_disk s = empty_disk\<lparr>ck_doc := Some (''good'', 11), ck_meta := Some (GoodMeta (hp_meta (hl_prov s)))\<rparr>"
    "hp_cfg (hl_prov s) = http_demo_cfg" "hp_attempt (hl_prov s) = 0"
    "hl_out s \<noteq> []" "hosts_of demo_unmarshal (hc_priority http_demo_cfg) ''good'' (last (hl_out s))"
    by (rule http_demo_run)
  have "list_all (outage demo_unmarshal (hp_cfg (hl_prov s))) (replicate 9 (HTimer (\<lambda>_. False) down_env))"
    by (simp add: list_all_iff down_outage)
  from outage_keeps_hosts [OF this, of "\<lambda>_. 0" "''good''" 11] s demo_retry show ?thesis by fastforce
qed

section \<open>The stale mark\<close>

text \<open>An environment in which the server confirms the current document.\<close>

definition confirms :: "http_config \<Rightarrow> http_event \<Rightarrow> bool" where
  "confirms cfg ev \<longleftrightarrow> (\<exists>io env. ev = HTimer io env \<and> fe_request_ok env
     \<and> auth_header (fe_read env) cfg \<noteq> None
     \<and> (\<forall>hs. \<exists>etag modified body. fe_server env hs = Response 304 etag modified body))"

lemma confirms_step:
  assumes "confirms (hp_cfg (hl_prov s)) ev"
  shows "\<exists>s'. http_step u jit ev s = Some s' \<and> hl_out s' = hl_out s \<and> hp_cfg (hl_prov s') = hp_cfg (hl_prov s)
    \<and> hp_attempt (hl_prov s') = 0"
proof -
  obtain io env auth where ev: "ev = HTimer io env" "fe_request_ok env"
    and auth: "auth_header (fe_read env) (hp_cfg (hl_prov s)) = Some auth"
    and srv: "\<And>hs. \<exists>etag modified body. fe_server env hs = Response 304 etag modified body"
    using assms unfolding confirms_def by blast
  obtain etag modified body where
    "fe_server env (request_headers (hp_meta (hl_prov s)) auth) = Response 304 etag modified body" using srv by blast
  then have "http_response_result u env (hl_prov s) = FetchUnchanged"
    by (simp add: http_response_result_def http_answer_def ev auth)
  then show ?thesis by (simp add: ev(1) http_cycle_def http_fetch_def)
qed

lemma confirms_run:
  assumes "list_all (confirms (hp_cfg (hl_prov s))) evs"
  shows "\<exists>s'. http_run u jit evs s = Some s' \<and> hl_out s' = hl_out s"
  using assms
proof (induction evs arbitrary: s)
  case (Cons ev evs)
  obtain s1 where s1: "http_step u jit ev s = Some s1" "hl_out s1 = hl_out s" "hp_cfg (hl_prov s1) = hp_cfg (hl_prov s)"
    using confirms_step [of s ev u jit] Cons.prems by auto
  then show ?case using Cons.IH [of s1] Cons.prems by simp
qed simp

text \<open>
  The stale mark outlives the answers that refute it. One failed fetch after the cache has passed
  its maximal age hands over the set again, marked stale and with an error; and then however many
  times the server confirms that very document with 304, nothing is handed over, so the inventory goes
  on showing the source as stale and failed (until the document itself changes).
\<close>

theorem stale_mark_survives:
  assumes fail: "no_document u (hp_cfg (hl_prov s)) env" and retry: "retry_ok jit (hp_cfg (hl_prov s))"
    and attempt: "0 \<le> hp_attempt (hl_prov s)" and have_set: "hp_have (hl_prov s)"
    and cache: "ck_doc (hl_disk s) = Some (data, mtime)"
      "parse_document u data ''http'' (hc_priority (hp_cfg (hl_prov s))) (fe_done env) = Inr doc_set"
    and old: "0 < hc_cache_max_age (hp_cfg (hl_prov s))"
      "hc_cache_max_age (hp_cfg (hl_prov s)) < tm_sub (fe_done env) mtime"
    and confirmed: "list_all (confirms (hp_cfg (hl_prov s))) evs"
  shows "\<exists>s' t. http_run u jit (HTimer (\<lambda>_. False) env # evs) s = Some s' \<and> hl_out s' = hl_out s @ [t]
    \<and> hs_hosts t = hs_hosts doc_set \<and> hs_stale t \<and> hs_last_error t \<noteq> []"
proof -
  let ?p = "(hl_prov s)\<lparr>hp_attempt := hp_attempt (hl_prov s) + 1\<rparr>"
  obtain b where b: "provider_backoff jit (hp_attempt (hl_prov s) + 1)
      (hc_backoff_min (hp_cfg (hl_prov s))) (hc_backoff_max (hp_cfg (hl_prov s))) = Some b"
    using retry_total [OF retry, of "hp_attempt (hl_prov s) + 1"] attempt by auto
  obtain q hset where load: "load_cache u (fe_done env) (\<lambda>_. False) (hl_disk s) ?p = (q, Some hset)"
    and hosts: "hs_hosts hset = hs_hosts doc_set" and q: "hp_cfg q = hp_cfg (hl_prov s)"
    using load_cache_good [of "hl_disk s" data mtime "\<lambda>_. False" u ?p "fe_done env" doc_set] cache by auto
  let ?t = "hset\<lparr>hs_stale := True, hs_last_error :=
      ''cache age '' @ show_seconds (tm_sub (fe_done env) mtime) @ '' exceeds cache_max_age''\<rparr>"
  let ?s1 = "\<lparr>hl_prov = q, hl_disk = hl_disk s, hl_out = hl_out s @ [?t], hl_delay = b\<rparr>"
  have "report_stale u (fe_done env) (\<lambda>_. False) (hl_disk s) ?p = (q, Some ?t)"
    using old have_set load by (simp add: report_stale_def cache_age_def cache)
  then have step: "http_step u jit (HTimer (\<lambda>_. False) env) s = Some ?s1"
    by (simp add: http_cycle_def http_fetch_def no_document_fails [OF fail] b)
  obtain s' where "http_run u jit evs ?s1 = Some s'" "hl_out s' = hl_out s @ [?t]"
    using confirms_run [of ?s1 evs u jit] confirmed q by auto
  then show ?thesis using step hosts by (intro exI [of _ s'] exI [of _ ?t]) simp
qed

definition same_env :: fetch_env where
  "same_env = good_env\<lparr>fe_server := \<lambda>_. Response 304 [] [] None\<rparr>"

theorem stale_mark_survives_witness:
  "\<exists>s s'. http_run demo_unmarshal (\<lambda>_. 0) [HTimer (\<lambda>_. False) good_env]
       (http_start demo_unmarshal 1 (\<lambda>_. False) empty_disk http_demo_cfg) = Some s
     \<and> http_run demo_unmarshal (\<lambda>_. 0) (HTimer (\<lambda>_. False) down_env # replicate 9 (HTimer (\<lambda>_. False) same_env)) s
         = Some s' \<and> hs_stale (last (hl_out s'))"
proof -
  obtain s where s: "http_run demo_unmarshal (\<lambda>_. 0) [HTimer (\<lambda>_. False) good_env]
       (http_start demo_unmarshal 1 (\<lambda>_. False) empty_disk http_demo_cfg) = Some s"
    "hl_disk s = empty_disk\<lparr>ck_doc := Some (''good'', 11), ck_meta := Some (GoodMeta (hp_meta (hl_prov s)))\<rparr>"
    "hp_cfg (hl_prov s) = http_demo_cfg" "hp_have (hl_prov s)" "hp_attempt (hl_prov s) = 0"
    by (rule http_demo_run)
  have p: "no_document demo_unmarshal (hp_cfg (hl_prov s)) down_env"
    by (simp add: no_document_def down_env_def)
  have c: "list_all (confirms (hp_cfg (hl_prov s))) (replicate 9 (HTimer (\<lambda>_. False) same_env))"
    by (simp add: list_all_iff confirms_def same_env_def good_env_def auth_header_def s(3) http_demo_cfg_def default_config_def)
  have doc: "ck_doc (hl_disk s) = Some (''good'', 11)" by (simp add: s(2))
  have old: "0 < hc_cache_max_age (hp_cfg (hl_prov s))"
    "hc_cache_max_age (hp_cfg (hl_prov s)) < tm_sub (fe_done down_env) 11"
    by (simp_all add: s(3) http_demo_cfg_def default_config_def second_def down_env_def tm_sub_def sat64_def
        max_int64_def min_int64_def)
  obtain t where t: "parse_document demo_unmarshal ''good'' ''http'' (hc_priority (hp_cfg (hl_prov s))) (fe_done down_env) = Inr t"
    using demo_parses by blast
  have r: "retry_ok (\<lambda>_. 0) (hp_cfg (hl_prov s))" "0 \<le> hp_attempt (hl_prov s)"
    using demo_retry by (simp_all add: s(3,5))
  from stale_mark_survives [OF p r s(4) doc t old c] obtain s' u where
    "http_run demo_unmarshal (\<lambda>_. 0) (HTimer (\<lambda>_. False) down_env # replicate 9 (HTimer (\<lambda>_. False) same_env)) s = Some s'"
    "hl_out s' = hl_out s @ [u]" "hs_stale u" by blast
  then show ?thesis using s(1) by (intro exI [of _ s] exI [of _ s']) simp
qed

end
