(* ===== verification/KubeProvider.thy ===== *)
theory KubeProvider
  imports Zone Provider
begin

text \<open>
  Models \<open>internal/provider/k8s/k8s.go\<close>: the conversion of a Node object into a host record (its
  address, its health, its attributes) and the loop that turns the events of the informer into host
  sets, with the debounce, the interval and the refresh. A node is the part of the object the code
  reads; the REST client, the informer and its cache are the environment. The lemmas show which nodes are
  healthy, that an attribute can depend on the order in which the labels are walked, that no event of
  the informer is forgotten, and when a set is handed over.
\<close>

section \<open>Nodes\<close>

record kube_node =
  kn_name :: string
  kn_labels :: "(string, string) gomap"
  kn_annotations :: "(string, string) gomap"
  kn_provider_id :: string
  kn_kubelet :: string
  kn_addresses :: "(string \<times> string) list"
  kn_deleting :: bool
  kn_unschedulable :: bool
  kn_taints :: "string list"
  kn_conditions :: "(string \<times> string) list"

definition well_known_labels :: "(string, string) gomap" where
  "well_known_labels =
     [(''topology.kubernetes.io/region'', ''k8s.region''), (''topology.kubernetes.io/zone'', ''k8s.zone''),
      (''node.kubernetes.io/instance-type'', ''k8s.instance-type''), (''kubernetes.io/arch'', ''k8s.arch''),
      (''kubernetes.io/os'', ''k8s.os''), (''kubernetes.io/hostname'', ''k8s.hostname'')]"

definition default_taint_deny :: "string list" where
  "default_taint_deny =
     [''node.kubernetes.io/unreachable'', ''node.kubernetes.io/not-ready'', ''node.kubernetes.io/unschedulable'']"

section \<open>The provider\<close>

record kube_prov =
  kp_cfg :: k8s_config
  kp_deny :: "string list"
  kp_allow :: "string list"
  kp_refresh :: bool
  kp_dirty :: bool

text \<open>\<open>client\<close> and \<open>selector\<close>: whether the REST client could be built and the selector parses.\<close>

definition new_kube_prov :: "(string \<Rightarrow> bool) \<Rightarrow> (string \<Rightarrow> bool) \<Rightarrow> k8s_config \<Rightarrow> kube_prov option" where
  "new_kube_prov client selector cfg =
     (if \<not> client (kc_kubeconfig cfg) then None
      else if kc_label_selector cfg \<noteq> [] \<and> \<not> selector (kc_label_selector cfg) then None
      else Some \<lparr>kp_cfg = cfg,
                 kp_deny = (if kc_taint_deny cfg = [] then default_taint_deny else kc_taint_deny cfg),
                 kp_allow = kc_annotation_allow cfg, kp_refresh = False, kp_dirty = False\<rparr>)"

definition kube_refresh :: "kube_prov \<Rightarrow> kube_prov" where
  "kube_refresh p = p\<lparr>kp_refresh := True\<rparr>"

definition mark_dirty :: "kube_prov \<Rightarrow> kube_prov" where
  "mark_dirty p = p\<lparr>kp_dirty := True\<rparr>"

text \<open>The replacer works byte by byte.\<close>

definition sanitize_key :: "string \<Rightarrow> string" where
  "sanitize_key s = map (\<lambda>c. if c \<in> {CHR ''/'', CHR ''.'', CHR '' ''} then CHR ''_'' else c) s"

definition label_key :: "string \<Rightarrow> string" where
  "label_key k = ''k8s.label.'' @ sanitize_key k"

definition node_id :: "kube_prov \<Rightarrow> string \<Rightarrow> string" where
  "node_id p name = ''k8s://'' @ kc_cluster_name (kp_cfg p) @ ''/'' @ name"

definition label_attrs :: "string \<times> string \<Rightarrow> (string, string) gomap \<Rightarrow> (string, string) gomap" where
  "label_attrs kv m =
     (case kv of (k, v) \<Rightarrow>
        (let m1 = AList.update (label_key k) v m
         in (case map_of well_known_labels k of None \<Rightarrow> m1 | Some short \<Rightarrow> AList.update short v m1)))"

definition annotation_attrs ::
  "kube_prov \<Rightarrow> string \<times> string \<Rightarrow> (string, string) gomap \<Rightarrow> (string, string) gomap" where
  "annotation_attrs p kv m =
     (case kv of (k, v) \<Rightarrow>
        if k \<in> set (kp_allow p) then AList.update (''k8s.annotation.'' @ sanitize_key k) v m else m)"

definition node_attributes :: "kube_prov \<Rightarrow> kube_node \<Rightarrow> (string, string) gomap" where
  "node_attributes p n =
     (let m0 = AList.update ''k8s.node'' (kn_name n) (AList.update ''k8s.cluster'' (kc_cluster_name (kp_cfg p)) []);
          m1 = fold label_attrs (kn_labels n) m0;
          m2 = fold (annotation_attrs p) (kn_annotations n) m1;
          m3 = (if kn_provider_id n \<noteq> [] then AList.update ''k8s.provider-id'' (kn_provider_id n) m2 else m2)
      in if kn_kubelet n \<noteq> [] then AList.update ''k8s.kubelet'' (kn_kubelet n) m3 else m3)"

text \<open>\<open>strings.EqualFold\<close> on ASCII text.\<close>

definition equal_fold :: "string \<Rightarrow> string \<Rightarrow> bool" where
  "equal_fold a b \<longleftrightarrow> map lower_char a = map lower_char b"

definition address_order :: "kube_prov \<Rightarrow> string list" where
  "address_order p =
     (if kc_address_order (kp_cfg p) = [] then [''InternalIP'', ''Hostname''] else kc_address_order (kp_cfg p))"

fun first_address :: "string list \<Rightarrow> (string \<times> string) list \<Rightarrow> string option" where
  "first_address [] addrs = None"
| "first_address (want # order) addrs =
     (case List.find (\<lambda>(kind, a). equal_fold kind want \<and> a \<noteq> []) addrs of
        Some (_, a) \<Rightarrow> Some a
      | None \<Rightarrow> first_address order addrs)"

definition node_address :: "kube_prov \<Rightarrow> kube_node \<Rightarrow> string option" where
  "node_address p n = first_address (address_order p) (kn_addresses n)"

definition node_health :: "kube_prov \<Rightarrow> kube_node \<Rightarrow> bool \<times> string" where
  "node_health p n =
     (if kn_deleting n then (False, ''node is being deleted'')
      else if kn_unschedulable n then (False, ''node is unschedulable'')
      else (case List.find (\<lambda>t. t \<in> set (kp_deny p)) (kn_taints n) of
              Some t \<Rightarrow> (False, ''denied taint '' @ t)
            | None \<Rightarrow>
                (case List.find (\<lambda>(kind, _). kind = ''Ready'') (kn_conditions n) of
                   Some (_, status) \<Rightarrow> if status \<noteq> ''True'' then (False, ''node is not ready'') else (True, [])
                 | None \<Rightarrow> (False, ''node has no Ready condition''))))"

text \<open>\<open>convert\<close>, with the time \<open>build\<close> sets; \<open>None\<close> is a node that is skipped.\<close>

definition convert_node :: "kube_prov \<Rightarrow> time \<Rightarrow> kube_node \<Rightarrow> host_record option" where
  "convert_node p now n =
     (case node_address p n of
        None \<Rightarrow> None
      | Some a \<Rightarrow>
          (case node_health p n of (healthy, reason) \<Rightarrow>
             Some \<lparr>hr_id = node_id p (kn_name n), hr_address = a, hr_attributes = node_attributes p n,
                   hr_source = ''k8s'', hr_healthy = healthy, hr_reason = reason, hr_seen_at = now,
                   hr_priority = kc_priority (kp_cfg p)\<rparr>))"

definition build_nodes :: "kube_prov \<Rightarrow> time \<Rightarrow> kube_node list \<Rightarrow> host_set" where
  "build_nodes p now nodes =
     \<lparr>hs_source = ''k8s'', hs_hosts = List.map_filter (convert_node p now) nodes, hs_fetch_at = now,
      hs_stale = False, hs_last_error = []\<rparr>"

section \<open>The loop\<close>

text \<open>
  The state of \<open>Run\<close> once the cache has synced: the deadlines of the interval timer and of the
  debounce timer (\<open>None\<close>: a channel that never receives), and the sets handed over with their times.
\<close>

record kube_loop =
  kl_prov :: kube_prov
  kl_timer :: time
  kl_pending :: "time option"
  kl_out :: "(time \<times> host_set) list"

definition kube_debounce :: "k8s_config \<Rightarrow> dur" where
  "kube_debounce cfg = dur_or (2 * second) (kc_debounce cfg)"

definition kube_interval :: "k8s_config \<Rightarrow> dur" where
  "kube_interval cfg = dur_or (60 * second) (kc_interval cfg)"

text \<open>\<open>nodes\<close> is what the lister answers, \<open>None\<close> for its error.\<close>

definition kube_emit :: "time \<Rightarrow> kube_node list option \<Rightarrow> kube_loop \<Rightarrow> kube_loop" where
  "kube_emit now nodes s =
     (case nodes of
        None \<Rightarrow> s
      | Some ns \<Rightarrow> s\<lparr>kl_out := kl_out s @ [(now, build_nodes (kl_prov s) now ns)]\<rparr>)"

definition kube_start :: "time \<Rightarrow> kube_node list option \<Rightarrow> kube_prov \<Rightarrow> kube_loop" where
  "kube_start now nodes p =
     kube_emit now nodes \<lparr>kl_prov = p, kl_timer = now + kube_interval (kp_cfg p), kl_pending = None, kl_out = []\<rparr>"

text \<open>
  \<open>KEvent\<close>: an add, update or delete handler of the informer. \<open>KDirty\<close>, \<open>KPending\<close>, \<open>KRefresh\<close> and
  \<open>KTimer\<close> are the cases of the select, each possible only when its channel can receive; \<open>KAsk\<close> is a
  call of \<open>Refresh\<close>.
\<close>

datatype kube_event =
    KEvent
  | KDirty time
  | KPending time "kube_node list option"
  | KRefresh time "kube_node list option"
  | KTimer time "kube_node list option"
  | KAsk

fun kube_enabled :: "kube_event \<Rightarrow> kube_loop \<Rightarrow> bool" where
  "kube_enabled (KDirty now) s \<longleftrightarrow> kp_dirty (kl_prov s)"
| "kube_enabled (KPending now nodes) s \<longleftrightarrow> (case kl_pending s of None \<Rightarrow> False | Some t \<Rightarrow> t \<le> now)"
| "kube_enabled (KRefresh now nodes) s \<longleftrightarrow> kp_refresh (kl_prov s)"
| "kube_enabled (KTimer now nodes) s \<longleftrightarrow> kl_timer s \<le> now"
| "kube_enabled _ s \<longleftrightarrow> True"

fun kube_case :: "kube_event \<Rightarrow> kube_loop \<Rightarrow> kube_loop" where
  "kube_case KEvent s = s\<lparr>kl_prov := mark_dirty (kl_prov s)\<rparr>"
| "kube_case (KDirty now) s =
     s\<lparr>kl_prov := (kl_prov s)\<lparr>kp_dirty := False\<rparr>,
       kl_pending := Some (now + kube_debounce (kp_cfg (kl_prov s)))\<rparr>"
| "kube_case (KPending now nodes) s = kube_emit now nodes (s\<lparr>kl_pending := None\<rparr>)"
| "kube_case (KRefresh now nodes) s = kube_emit now nodes (s\<lparr>kl_prov := (kl_prov s)\<lparr>kp_refresh := False\<rparr>\<rparr>)"
| "kube_case (KTimer now nodes) s =
     (kube_emit now nodes s)\<lparr>kl_timer := now + kube_interval (kp_cfg (kl_prov s))\<rparr>"
| "kube_case KAsk s = s\<lparr>kl_prov := kube_refresh (kl_prov s)\<rparr>"

definition kube_step :: "kube_event \<Rightarrow> kube_loop \<Rightarrow> kube_loop" where
  "kube_step ev s = (if kube_enabled ev s then kube_case ev s else s)"

section \<open>Records\<close>

lemma first_address_Some:
  "first_address order addrs = Some a \<Longrightarrow>
     \<exists>pre want post. order = pre @ want # post \<and> (\<exists>kind. (kind, a) \<in> set addrs \<and> equal_fold kind want \<and> a \<noteq> [])
       \<and> (\<forall>w \<in> set pre. \<forall>(kind, b) \<in> set addrs. equal_fold kind w \<longrightarrow> b = [])"
proof (induction order)
  case (Cons want order)
  show ?case
  proof (cases "List.find (\<lambda>(kind, a). equal_fold kind want \<and> a \<noteq> []) addrs")
    case None
    then have none: "\<forall>(kind, b) \<in> set addrs. equal_fold kind want \<longrightarrow> b = []" by (auto simp: find_None_iff)
    obtain pre w post where ih: "order = pre @ w # post"
      "\<exists>kind. (kind, a) \<in> set addrs \<and> equal_fold kind w \<and> a \<noteq> []"
      "\<forall>w \<in> set pre. \<forall>(kind, b) \<in> set addrs. equal_fold kind w \<longrightarrow> b = []"
      using Cons.IH Cons.prems None by auto
    show ?thesis
      by (rule exI [of _ "want # pre"], rule exI [of _ w], rule exI [of _ post]) (use ih none in auto)
  next
    case (Some ka)
    then have "ka \<in> set addrs" "equal_fold (fst ka) want" "snd ka \<noteq> []" "a = snd ka"
      using find_SomeD [OF Some] Cons.prems by (auto split: prod.splits)
    then have "(fst ka, a) \<in> set addrs \<and> equal_fold (fst ka) want \<and> a \<noteq> []" by simp
    then show ?thesis by (intro exI [of _ "[]"] exI [of _ want] exI [of _ order]) auto
  qed
qed simp

lemma first_address_None:
  "first_address order addrs = None \<longleftrightarrow>
     (\<forall>want \<in> set order. \<forall>(kind, a) \<in> set addrs. equal_fold kind want \<longrightarrow> a = [])"
proof (induction order)
  case (Cons want order)
  show ?case
  proof (cases "List.find (\<lambda>(kind, a). equal_fold kind want \<and> a \<noteq> []) addrs")
    case None
    then have "\<forall>(kind, a) \<in> set addrs. equal_fold kind want \<longrightarrow> a = []" by (auto simp: find_None_iff)
    then show ?thesis using Cons.IH None by simp
  next
    case (Some ka)
    then have "ka \<in> set addrs" "equal_fold (fst ka) want" "snd ka \<noteq> []"
      using find_SomeD [OF Some] by (auto split: prod.splits)
    then have "\<not> (\<forall>(kind, a) \<in> set addrs. equal_fold kind want \<longrightarrow> a = [])" by (auto simp: case_prod_beta)
    then show ?thesis using Some by (simp add: case_prod_beta)
  qed
qed simp

definition ready_first :: "(string \<times> string) list \<Rightarrow> bool" where
  "ready_first conds \<longleftrightarrow>
     (\<exists>pre post. conds = pre @ (''Ready'', ''True'') # post \<and> ''Ready'' \<notin> fst ` set pre)"

lemma find_ready:
  "(\<exists>kind. List.find (\<lambda>(kind, _). kind = ''Ready'') conds = Some (kind, ''True'')) \<longleftrightarrow> ready_first conds"
proof (induction conds)
  case Nil
  then show ?case by (simp add: ready_first_def)
next
  case (Cons c conds)
  obtain k v where c: "c = (k, v)" by (cases c)
  show ?case
  proof (cases "k = ''Ready''")
    case True
    have "ready_first (c # conds) \<longleftrightarrow> v = ''True''"
      unfolding ready_first_def c True by (auto simp: Cons_eq_append_conv)
    then show ?thesis by (simp add: c True)
  next
    case False
    have "ready_first (c # conds) \<longleftrightarrow> ready_first conds"
      unfolding ready_first_def c using False by (fastforce simp: Cons_eq_append_conv)
    then show ?thesis using Cons.IH False by (simp add: c)
  qed
qed

lemma node_health_exact:
  "fst (node_health p n) \<longleftrightarrow> \<not> kn_deleting n \<and> \<not> kn_unschedulable n \<and> set (kn_taints n) \<inter> set (kp_deny p) = {}
     \<and> ready_first (kn_conditions n)"
  "snd (node_health p n) = [] \<longleftrightarrow> fst (node_health p n)"
proof -
  have t: "List.find (\<lambda>t. t \<in> set (kp_deny p)) (kn_taints n) = None \<longleftrightarrow> set (kn_taints n) \<inter> set (kp_deny p) = {}"
    by (auto simp: find_None_iff)
  show "fst (node_health p n) \<longleftrightarrow> \<not> kn_deleting n \<and> \<not> kn_unschedulable n
      \<and> set (kn_taints n) \<inter> set (kp_deny p) = {} \<and> ready_first (kn_conditions n)"
    unfolding t [symmetric] find_ready [symmetric] by (auto simp: node_health_def split: option.splits)
  show "snd (node_health p n) = [] \<longleftrightarrow> fst (node_health p n)"
    by (simp add: node_health_def split: option.split)
qed

text \<open>
  The record of a node. A node gives no record exactly when it has no non-empty address of a wanted
  type. Otherwise the address is of the first wanted type for which the node has one, and the host is
  healthy exactly when the node is not being deleted, can be scheduled, carries no denied taint and
  its first Ready condition is true; it carries a reason exactly when it is not healthy.
\<close>

theorem node_record_exact:
  "case convert_node p now n of
     None \<Rightarrow> \<forall>want \<in> set (address_order p). \<forall>(kind, a) \<in> set (kn_addresses n). equal_fold kind want \<longrightarrow> a = []
   | Some r \<Rightarrow>
       hr_id r = ''k8s://'' @ kc_cluster_name (kp_cfg p) @ ''/'' @ kn_name n \<and> hr_address r \<noteq> []
       \<and> (\<exists>pre want post. address_order p = pre @ want # post
            \<and> (\<exists>kind. (kind, hr_address r) \<in> set (kn_addresses n) \<and> equal_fold kind want)
            \<and> (\<forall>w \<in> set pre. \<forall>(kind, b) \<in> set (kn_addresses n). equal_fold kind w \<longrightarrow> b = []))
       \<and> (hr_healthy r \<longleftrightarrow> \<not> kn_deleting n \<and> \<not> kn_unschedulable n
            \<and> set (kn_taints n) \<inter> set (kp_deny p) = {}
            \<and> (\<exists>pre post. kn_conditions n = pre @ (''Ready'', ''True'') # post \<and> ''Ready'' \<notin> fst ` set pre))
       \<and> (hr_reason r = [] \<longleftrightarrow> hr_healthy r)"
proof (cases "node_address p n")
  case None
  then show ?thesis by (simp add: convert_node_def) (simp add: node_address_def first_address_None)
next
  case (Some a)
  obtain healthy reason where h: "node_health p n = (healthy, reason)" by fastforce
  note hx = node_health_exact [of p n, unfolded h fst_conv snd_conv ready_first_def]
  from first_address_Some [OF Some [unfolded node_address_def]] obtain pre want post kind where
    "address_order p = pre @ want # post" "(kind, a) \<in> set (kn_addresses n)" "equal_fold kind want" "a \<noteq> []"
    "\<forall>w \<in> set pre. \<forall>(kind, b) \<in> set (kn_addresses n). equal_fold kind w \<longrightarrow> b = []" by blast
  then show ?thesis
    unfolding convert_node_def Some h option.case prod.case host_record.simps hx(1) [symmetric] hx(2) node_id_def
    by blast
qed

definition colliding_node :: kube_node where
  "colliding_node =
     \<lparr>kn_name = ''n'', kn_labels = [(''a/rack'', ''1''), (''a.rack'', ''2'')], kn_annotations = [],
      kn_provider_id = [], kn_kubelet = [], kn_addresses = [(''InternalIP'', ''10.0.0.1'')], kn_deleting = False,
      kn_unschedulable = False, kn_taints = [], kn_conditions = [(''Ready'', ''True'')]\<rparr>"

definition demo_kube :: kube_prov where
  "demo_kube = \<lparr>kp_cfg = pv_k8s (cf_providers default_config), kp_deny = default_taint_deny, kp_allow = [],
                kp_refresh = False, kp_dirty = False\<rparr>"

theorem node_record_exact_witness:
  "\<exists>r. convert_node demo_kube 5 colliding_node = Some r \<and> hr_healthy r \<and> hr_reason r = []"
proof (cases "convert_node demo_kube 5 colliding_node")
  case None
  then show ?thesis using node_record_exact [where p = demo_kube and now = 5 and n = colliding_node]
    by (simp add: address_order_def demo_kube_def default_config_def colliding_node_def equal_fold_def)
next
  case (Some r)
  have "hr_healthy r"
    using node_record_exact [where p = demo_kube and now = 5 and n = colliding_node] Some
    by (simp add: colliding_node_def demo_kube_def default_taint_deny_def Cons_eq_append_conv)
  then show ?thesis using node_record_exact [where p = demo_kube and now = 5 and n = colliding_node] Some by simp
qed

lemma label_attrs_wf: "gm_wf m \<Longrightarrow> gm_wf (label_attrs kv m)"
  by (auto simp: label_attrs_def Let_def split: option.split prod.split)

lemma annotation_attrs_wf: "gm_wf m \<Longrightarrow> gm_wf (annotation_attrs p kv m)"
  by (auto simp: annotation_attrs_def split: prod.split)

lemma node_attributes_wf: "gm_wf (node_attributes p n)"
proof -
  have "gm_wf (fold label_attrs kvs m)" if "gm_wf m" for kvs m
    by (rule fold_preserves) (use that in \<open>auto intro: label_attrs_wf\<close>)
  moreover have "gm_wf (fold (annotation_attrs p) kvs m)" if "gm_wf m" for kvs m
    by (rule fold_preserves) (use that in \<open>auto intro: annotation_attrs_wf\<close>)
  ultimately show ?thesis by (auto simp: node_attributes_def Let_def gm_wf_Cons intro!: gm_wf_update)
qed

section \<open>The contract of a source\<close>

text \<open>Node names are unique in a cluster.\<close>

definition kube_emits :: "host_set \<Rightarrow> bool" where
  "kube_emits s \<longleftrightarrow> (\<exists>p now nodes. distinct (map kn_name nodes) \<and> s = build_nodes p now nodes)"

lemma convert_node_usable:
  assumes "convert_node p now n = Some r"
  shows "hr_id r = node_id p (kn_name n)" "hr_address r \<noteq> []" "hr_healthy r \<longleftrightarrow> hr_reason r = []"
    "hr_attributes r = node_attributes p n"
proof -
  obtain a where a: "node_address p n = Some a" using assms by (auto simp: convert_node_def split: option.splits)
  obtain healthy reason where h: "node_health p n = (healthy, reason)" by fastforce
  have "a \<noteq> []" using first_address_Some a unfolding node_address_def by blast
  then show "hr_id r = node_id p (kn_name n)" "hr_address r \<noteq> []" "hr_healthy r \<longleftrightarrow> hr_reason r = []"
    "hr_attributes r = node_attributes p n"
    using assms node_health_exact(2) [of p n] by (auto simp: convert_node_def a h)
qed

lemma build_nodes_usable:
  assumes "distinct (map kn_name nodes)"
  shows "usable_hosts (hs_hosts (build_nodes p now nodes))"
proof -
  have id_inj: "node_id p a = node_id p b \<longleftrightarrow> a = b" for a b by (simp add: node_id_def)
  have mem: "r \<in> set (List.map_filter (convert_node p now) ns) \<Longrightarrow> \<exists>n \<in> set ns. convert_node p now n = Some r" for r ns
    by (auto simp: List.map_filter_def)
  have "distinct (map hr_id (List.map_filter (convert_node p now) nodes))" using assms
  proof (induction nodes)
    case (Cons n ns)
    show ?case
    proof (cases "convert_node p now n")
      case None
      then show ?thesis using Cons by (simp add: map_filter_simps)
    next
      case (Some r)
      have "hr_id r \<noteq> hr_id r'" if "r' \<in> set (List.map_filter (convert_node p now) ns)" for r'
        using mem [OF that] Cons.prems convert_node_usable(1) [OF Some] by (auto simp: id_inj convert_node_usable(1))
      then show ?thesis using Cons Some by (auto simp: map_filter_simps)
    qed
  qed (simp add: map_filter_simps)
  moreover have "hr_id r \<noteq> [] \<and> hr_address r \<noteq> [] \<and> gm_wf (hr_attributes r) \<and> (hr_healthy r \<longleftrightarrow> hr_reason r = [])"
    if "r \<in> set (List.map_filter (convert_node p now) nodes)" for r
  proof -
    from mem [OF that] obtain n where "convert_node p now n = Some r" by blast
    from convert_node_usable [OF this] show ?thesis by (simp add: node_id_def node_attributes_wf)
  qed
  ultimately show ?thesis by (simp add: usable_hosts_def build_nodes_def)
qed

interpretation kube: host_source kube_emits
  by unfold_locales (auto simp: kube_emits_def intro: build_nodes_usable)

section \<open>Labels\<close>

lemma label_key_other:
  "label_key s \<noteq> ''k8s.annotation.'' @ t" "label_key s \<noteq> ''k8s.provider-id''"
  "label_key s \<noteq> ''k8s.kubelet''" "label_key s \<noteq> ''k8s.node''" "label_key s \<noteq> ''k8s.cluster''"
  "map_of well_known_labels k = Some short \<Longrightarrow> label_key s \<noteq> short"
  by (auto simp: well_known_labels_def label_key_def split: if_splits)

lemma label_key_eq [simp]: "label_key j = label_key k \<longleftrightarrow> sanitize_key j = sanitize_key k"
  by (simp add: label_key_def)

lemma label_attrs_key:
  "map_of (label_attrs (k, v) m) (label_key s) =
     (if sanitize_key k = sanitize_key s then Some v else map_of m (label_key s))"
  using label_key_other(6) [of k _ s]
  by (auto simp: label_attrs_def Let_def update_conv' split: option.split)

text \<open>The value of a label attribute is that of the last label, in the order of the walk, with its key.\<close>

lemma node_label_attr:
  "map_of (node_attributes p n) (label_key s) =
     map_of (rev (map (\<lambda>(k, v). (sanitize_key k, v)) (kn_labels n))) (sanitize_key s)"
proof -
  have ann: "map_of (fold (annotation_attrs p) kvs m) (label_key s) = map_of m (label_key s)" for kvs m
    using label_key_other(1) [of s] by (induction kvs arbitrary: m) (auto simp: annotation_attrs_def update_conv')
  have all: "map_of (fold label_attrs kvs m) (label_key s) =
      (case map_of (rev (map (\<lambda>(k, v). (sanitize_key k, v)) kvs)) (sanitize_key s) of
         Some v \<Rightarrow> Some v | None \<Rightarrow> map_of m (label_key s))" for kvs m
  proof (induction kvs rule: rev_induct)
    case (snoc kv kvs)
    then show ?case by (cases kv) (simp add: label_attrs_key)
  qed simp
  show ?thesis
    using label_key_other(2-5) [of s] by (simp add: node_attributes_def Let_def update_conv' ann all split: option.split)
qed

text \<open>
  Two labels whose names differ only in the replaced characters share one attribute, and the order
  of the walk over the label map decides which value it has. So for one and the same node there is an
  order of the walk that gives a different attribute than another, and a zone rule that reads it can
  place the node differently on two nodes of the mesh, or after a refresh.
\<close>

theorem label_order_decides:
  assumes "(k1, v1) \<in> set (kn_labels n)" and "(k2, v2) \<in> set (kn_labels n)"
    and "sanitize_key k1 = sanitize_key k2" and "v1 \<noteq> v2"
  shows "\<exists>ls. mset ls = mset (kn_labels n)
    \<and> map_of (node_attributes p (n\<lparr>kn_labels := ls\<rparr>)) (label_key k1)
        \<noteq> map_of (node_attributes p n) (label_key k1)"
proof -
  have last: "\<exists>ls. mset ls = mset (kn_labels n)
      \<and> map_of (node_attributes p (n\<lparr>kn_labels := ls\<rparr>)) (label_key k1) = Some v"
    if kv: "(k, v) \<in> set (kn_labels n)" "sanitize_key k = sanitize_key k1" for k v
    by (rule exI [of _ "remove1 (k, v) (kn_labels n) @ [(k, v)]"]) (simp add: node_label_attr kv)
  from last [OF assms(1) refl] last [OF assms(2) assms(3) [symmetric]] assms(4) show ?thesis
    by (metis option.inject)
qed

theorem label_order_decides_witness:
  "\<forall>p. \<exists>ls. mset ls = mset (kn_labels colliding_node)
     \<and> map_of (node_attributes p (colliding_node\<lparr>kn_labels := ls\<rparr>)) ''k8s.label.a_rack''
         \<noteq> map_of (node_attributes p colliding_node) ''k8s.label.a_rack''"
  using label_order_decides [of "''a/rack''" "''1''" colliding_node "''a.rack''" "''2''"]
  by (simp add: colliding_node_def sanitize_key_def label_key_def)

section \<open>Events\<close>

text \<open>Whether the informer has reported an event since the last set was handed over.\<close>

definition emitted :: "kube_event \<Rightarrow> kube_loop \<Rightarrow> bool" where
  "emitted ev s \<longleftrightarrow> length (kl_out s) < length (kl_out (kube_step ev s))"

fun unseen :: "kube_event list \<Rightarrow> kube_loop \<Rightarrow> bool \<Rightarrow> bool" where
  "unseen [] s b = b"
| "unseen (ev # evs) s b = unseen evs (kube_step ev s) (ev = KEvent \<or> b \<and> \<not> emitted ev s)"

fun lists_nodes :: "kube_event \<Rightarrow> bool" where
  "lists_nodes (KPending now nodes) \<longleftrightarrow> nodes \<noteq> None"
| "lists_nodes _ \<longleftrightarrow> True"

definition scheduled :: "kube_loop \<Rightarrow> bool" where
  "scheduled s \<longleftrightarrow> kp_dirty (kl_prov s) \<or> kl_pending s \<noteq> None"

lemma scheduled_step:
  assumes "b \<Longrightarrow> scheduled s" and "lists_nodes ev" and "ev = KEvent \<or> b \<and> \<not> emitted ev s"
  shows "scheduled (kube_step ev s)"
proof (cases ev)
  case (KPending now nodes)
  then show ?thesis using assms
    by (auto simp: scheduled_def kube_step_def emitted_def kube_emit_def split: if_splits)
next
  case (KRefresh now nodes)
  then show ?thesis using assms
    by (cases nodes) (auto simp: scheduled_def kube_step_def emitted_def kube_emit_def split: if_splits)
next
  case (KTimer now nodes)
  then show ?thesis using assms
    by (cases nodes) (auto simp: scheduled_def kube_step_def emitted_def kube_emit_def split: if_splits)
qed (use assms in \<open>auto simp: scheduled_def kube_step_def mark_dirty_def kube_refresh_def\<close>)

lemma unseen_scheduled:
  assumes "list_all lists_nodes evs" and "b \<Longrightarrow> scheduled s" and "unseen evs s b"
  shows "scheduled (fold kube_step evs s)"
  using assms
proof (induction evs arbitrary: s b)
  case (Cons ev evs)
  have "scheduled (kube_step ev s)" if "ev = KEvent \<or> b \<and> \<not> emitted ev s"
    using scheduled_step [OF Cons.prems(2) _ that] Cons.prems(1) by simp
  then show ?case using Cons.IH [of "ev = KEvent \<or> b \<and> \<not> emitted ev s" "kube_step ev s"] Cons.prems by simp
qed simp



section \<open>The credentials and the start\<close>

text \<open>
  \<open>buildRestConfig\<close>: \<open>in_cluster\<close> is what the cluster offers to a pod, \<open>rules\<close> what the client rules give for an
  explicit path, or without one. It is one part of the \<open>client\<close> of \<open>new_kube_prov\<close>.
\<close>

definition rest_config :: "'c option \<Rightarrow> (string \<Rightarrow> 'c option) \<Rightarrow> string \<Rightarrow> 'c option" where
  "rest_config in_cluster rules path =
     (if path = [] then (case in_cluster of Some c \<Rightarrow> Some c | None \<Rightarrow> rules []) else rules path)"

definition kube_resync :: "k8s_config \<Rightarrow> dur" where
  "kube_resync cfg = (if kc_resync cfg \<le> 0 then 300 * second else kc_resync cfg)"

datatype kube_boot_error = HandlerFailed | NotSynced

text \<open>
  \<open>Run\<close> up to its loop. The informer may report events while the cache fills (\<open>marked\<close>); the wait for the
  cache ends when it is filled or the context is done. The result is an error, or the resync period and the loop.
\<close>

definition kube_run :: "bool \<Rightarrow> bool \<Rightarrow> bool \<Rightarrow> time \<Rightarrow> kube_node list option \<Rightarrow> kube_prov \<Rightarrow> kube_boot_error + dur \<times> kube_loop" where
  "kube_run handler marked synced now nodes p =
     (if \<not> handler then Inl HandlerFailed
      else let p1 = (if marked then mark_dirty p else p)
           in if \<not> synced then Inl NotSynced else Inr (kube_resync (kp_cfg p), kube_start now nodes p1))"

text \<open>The first set comes only from a filled cache, and what the informer reported meanwhile is still to be emitted.\<close>

lemma build_nodes_marked: "build_nodes (mark_dirty p) now ns = build_nodes p now ns"
proof -
  have same: "kp_cfg (mark_dirty p) = kp_cfg p" "kp_deny (mark_dirty p) = kp_deny p" "kp_allow (mark_dirty p) = kp_allow p"
    by (simp_all add: mark_dirty_def)
  then have "annotation_attrs (mark_dirty p) = annotation_attrs p" by (simp add: fun_eq_iff annotation_attrs_def)
  with same have "node_attributes (mark_dirty p) n = node_attributes p n" "node_health (mark_dirty p) n = node_health p n"
    "node_address (mark_dirty p) n = node_address p n" "node_id (mark_dirty p) x = node_id p x" for n x
    by (simp_all add: node_attributes_def node_health_def node_address_def address_order_def node_id_def)
  with same(1) have "convert_node (mark_dirty p) now n = convert_node p now n" for n unfolding convert_node_def by presburger
  then have "convert_node (mark_dirty p) now = convert_node p now" by (rule ext)
  then show ?thesis by (simp add: build_nodes_def)
qed

lemma kube_run_first:
  assumes "kube_run handler marked synced now nodes p = Inr (d, s)"
  shows "handler \<and> synced \<and> 0 < d \<and> (marked \<longrightarrow> kube_enabled (KDirty now) s)
    \<and> kl_out s = (case nodes of None \<Rightarrow> [] | Some ns \<Rightarrow> [(now, build_nodes p now ns)])"
  using assms
  by (auto simp: kube_run_def kube_start_def kube_emit_def kube_resync_def second_def build_nodes_marked split: if_splits option.splits)
    (simp_all add: mark_dirty_def)

end
