(* ===== verification/Discovery.thy ===== *)
theory Discovery
  imports HttpProvider KubeProvider
begin

text \<open>
  Models \<open>cmd/meshd/providers.go\<close>: the three sources registered with the manager, and what follows for
  the inventory they fill together. The lemmas carry the contract of each source through the manager
  and the merge to the snapshot the rest of the program reads.
\<close>

section \<open>Registration\<close>

datatype source = FileSource file_prov | HttpSource http_prov | KubeSource kube_prov

text \<open>
  The environment of the constructors: the CA file and the certificates, the Kubernetes client and
  selector, and the JSON form of each part of the configuration (\<open>None\<close>: it cannot
  be marshalled), which \<open>ConfigJson\<close> gives.
\<close>

record source_env =
  de_ca :: "string \<Rightarrow> string option"
  de_usable :: "string \<Rightarrow> bool"
  de_system :: "string list option"
  de_client :: "string \<Rightarrow> bool"
  de_selector :: "string \<Rightarrow> bool"
  de_json_file :: "file_config \<Rightarrow> string option"
  de_json_http :: "http_config \<Rightarrow> string option"
  de_json_kube :: "k8s_config \<Rightarrow> string option"

definition fingerprint :: "string option \<Rightarrow> string" where
  "fingerprint b = (case b of None \<Rightarrow> [] | Some text \<Rightarrow> short_sha text)"

definition make_http :: "source_env \<Rightarrow> http_config \<Rightarrow> http_prov option" where
  "make_http env cfg =
     (case build_client (de_ca env) (de_usable env) (de_system env) cfg of
        None \<Rightarrow> None
      | Some _ \<Rightarrow> Some (new_http_prov cfg))"

definition register_file :: "source_env \<Rightarrow> source manager \<Rightarrow> source manager" where
  "register_file env m =
     register ''file'' (\<lambda>cfg. Some (FileSource (new_file_prov (pv_file (cf_providers cfg)))))
       (\<lambda>cfg. fc_enabled (pv_file (cf_providers cfg)))
       (\<lambda>cfg. fingerprint (de_json_file env (pv_file (cf_providers cfg)))) m"

definition register_http :: "source_env \<Rightarrow> source manager \<Rightarrow> source manager" where
  "register_http env m =
     register ''http'' (\<lambda>cfg. map_option HttpSource (make_http env (pv_http (cf_providers cfg))))
       (\<lambda>cfg. hc_enabled (pv_http (cf_providers cfg)))
       (\<lambda>cfg. fingerprint (de_json_http env (pv_http (cf_providers cfg)))) m"

definition register_kube :: "source_env \<Rightarrow> source manager \<Rightarrow> source manager" where
  "register_kube env m =
     register ''k8s''
       (\<lambda>cfg. map_option KubeSource (new_kube_prov (de_client env) (de_selector env) (pv_k8s (cf_providers cfg))))
       (\<lambda>cfg. kc_enabled (pv_k8s (cf_providers cfg)))
       (\<lambda>cfg. fingerprint (de_json_kube env (pv_k8s (cf_providers cfg)))) m"

definition register_providers :: "source_env \<Rightarrow> source manager \<Rightarrow> source manager" where
  "register_providers env m = register_kube env (register_http env (register_file env m))"

text \<open>The \<open>Refresh\<close> of a source; all three have one.\<close>

fun source_refresh :: "source \<Rightarrow> source" where
  "source_refresh (FileSource p) = FileSource (file_refresh p)"
| "source_refresh (HttpSource p) = HttpSource (http_refresh p)"
| "source_refresh (KubeSource p) = KubeSource (kube_refresh p)"

section \<open>Only registered sources fill the inventory\<close>

definition manager_inv :: "string set \<Rightarrow> 'p manager \<Rightarrow> bool" where
  "manager_inv names m \<longleftrightarrow>
     fst ` set (mg_factories m) = names \<and> fst ` set (mg_active m) \<subseteq> names \<and> set (mg_linger m) \<subseteq> names
     \<and> gm_wf (is_sets (mg_store m))
     \<and> (\<forall>(name, s) \<in> set (is_sets (mg_store m)). name \<in> names \<and> hs_source s = name)"

lemma manager_inv_report [simp]: "manager_inv names (mg_report r m) \<longleftrightarrow> manager_inv names m"
  by (simp add: manager_inv_def)

lemma manager_inv_store:
  assumes "manager_inv names m"
  shows "manager_inv names (m\<lparr>mg_store := inv_remove name (mg_store m)\<rparr>)"
    and "name \<in> names \<Longrightarrow> hs_source s = name \<Longrightarrow> manager_inv names (m\<lparr>mg_store := inv_replace s (mg_store m)\<rparr>)"
proof -
  have wf: "gm_wf (is_sets (mg_store m))" using assms by (simp add: manager_inv_def)
  have del: "gm_wf (AList.delete name (is_sets (mg_store m)))"
    using wf by (auto simp: AList.delete_eq)
  show "manager_inv names (m\<lparr>mg_store := inv_remove name (mg_store m)\<rparr>)"
    using assms del by (auto simp: manager_inv_def inv_remove_def AList.delete_eq)
  show "name \<in> names \<Longrightarrow> hs_source s = name \<Longrightarrow> manager_inv names (m\<lparr>mg_store := inv_replace s (mg_store m)\<rparr>)"
    using assms by (auto simp: manager_inv_def inv_replace_def dest!: set_update_snd)
qed

lemma manager_inv_stop: "manager_inv names m \<Longrightarrow> manager_inv names (stop_provider slow name m)"
proof (cases "map_of (mg_active m) name")
  case (Some r)
  assume inv: "manager_inv names m"
  have "name \<in> fst ` set (mg_active m)" using Some by (metis map_of_eq_None_iff option.distinct(1))
  with inv show ?thesis by (auto simp: stop_provider_def Some manager_inv_def AList.delete_eq)
qed (simp add: stop_provider_def)

lemma manager_inv_start:
  assumes "manager_inv names m" and "start_provider now cfg name fp m = (m', e)"
  shows "manager_inv names m'"
proof (cases "map_of (mg_factories m) name")
  case None
  then show ?thesis using assms by (simp add: start_provider_def)
next
  case (Some f)
  then have "name \<in> names" using assms(1) unfolding manager_inv_def by (metis map_of_eq_None_iff option.distinct(1))
  show ?thesis
  proof (cases "f cfg")
    case None
    then have "m' = mg_report (RepFailure name name now) m" using assms(2) Some by (simp add: start_provider_def)
    then show ?thesis using assms(1) by simp
  next
    case (Some p)
    then have "m' = m\<lparr>mg_active := AList.update name \<lparr>rn_prov = p, rn_fp = fp\<rparr> (mg_active m)\<rparr>"
      using assms(2) \<open>map_of (mg_factories m) name = Some f\<close> by (simp add: start_provider_def)
    then show ?thesis using assms(1) \<open>name \<in> names\<close> by (simp add: manager_inv_def fst_set_update)
  qed
qed

lemma manager_inv_apply_source:
  assumes "manager_inv names m" and "apply_source now slow cfg name m = (m', e)"
  shows "manager_inv names m'"
proof (cases "map_of (mg_active m) name")
  case None
  then show ?thesis using assms manager_inv_start by (auto simp: apply_source_def Let_def split: if_splits)
next
  case (Some cur)
  note stopped = manager_inv_stop [OF assms(1), of slow name]
  consider (off) "\<not> mg_enabled m cfg name" | (moved) "mg_enabled m cfg name" "rn_fp cur \<noteq> mg_fingers m cfg name"
    | (same) "mg_enabled m cfg name" "rn_fp cur = mg_fingers m cfg name" by blast
  then show ?thesis
  proof cases
    case off
    then have "m' = (stop_provider slow name m)\<lparr>mg_store := inv_remove name (mg_store (stop_provider slow name m))\<rparr>"
      using assms(2) Some by (simp add: apply_source_def Let_def)
    then show ?thesis using manager_inv_store(1) [OF stopped] by simp
  next
    case moved
    then have "start_provider now cfg name (mg_fingers m cfg name) (stop_provider slow name m) = (m', e)"
      using assms(2) Some by (simp add: apply_source_def)
    then show ?thesis by (rule manager_inv_start [OF stopped])
  qed (use assms Some in \<open>simp add: apply_source_def\<close>)
qed

lemma manager_inv_step:
  assumes "manager_inv names m"
  shows "manager_inv names (mgr_step ev m)"
proof (cases ev)
  case (MgApply now slow cfg)
  have "manager_inv names (fst (fold (apply_next now slow cfg) ns (m, e)))" for ns e using assms
  proof (induction ns arbitrary: m e)
    case (Cons n ns)
    obtain m' e' where s: "apply_source now slow cfg n m = (m', e')" by fastforce
    show ?case using Cons.IH [OF manager_inv_apply_source [OF Cons.prems s]] by (simp add: apply_next_def s)
  qed simp
  then show ?thesis by (simp add: MgApply manager_apply_def)
next
  case (MgEmit n hset)
  show ?thesis
  proof (cases "n \<in> fst ` set (mg_active m) \<union> set (mg_linger m)")
    case True
    then have "n \<in> names" using assms by (auto simp: manager_inv_def)
    from manager_inv_store(2) [OF assms this, of "hset\<lparr>hs_source := n\<rparr>"] True show ?thesis
      by (simp add: MgEmit sink_replace_def Let_def)
  qed (simp add: MgEmit assms)
next
  case (MgGone n)
  then show ?thesis using assms set_remove1_subset [of n "mg_linger m"] by (auto simp: manager_inv_def)
next
  case (MgStatus now)
  then show ?thesis using assms
    by (auto simp: manager_status_def inv_snapshot_def Let_def manager_inv_def split: option.split)
next
  case (MgStop slow)
  have "manager_inv names (fold (stop_provider slow) ns m)" for ns using assms
    by (induction ns arbitrary: m) (simp_all add: manager_inv_stop)
  then show ?thesis by (simp add: MgStop manager_stop_def)
next
  case (MgRefresh ask src)
  have "fst ` set (mg_active (fst (manager_refresh ask src m))) = fst ` set (mg_active m)"
    by (simp add: manager_refresh_def Let_def image_image case_prod_beta)
  then show ?thesis using assms by (simp add: MgRefresh manager_inv_def) (simp add: manager_refresh_def Let_def)
qed (use assms in simp)

interpretation managing: inv_machine mgr_step "manager_inv names" for names
  by unfold_locales (rule manager_inv_step)

lemma registered_inv:
  "manager_inv {''file'', ''http'', ''k8s''} (register_providers env (new_manager new_inv_store))"
  by (auto simp: manager_inv_def register_providers_def register_file_def register_http_def register_kube_def
      register_def new_manager_def new_inv_store_def fst_set_update)

lemma registered_empty: "is_sets (mg_store (register_providers env (new_manager new_inv_store))) = []"
  by (simp add: register_providers_def register_file_def register_http_def register_kube_def register_def
      new_manager_def new_inv_store_def)

section \<open>The inventory as a whole\<close>

definition sources_behave :: "source mgr_event list \<Rightarrow> bool" where
  "sources_behave evs \<longleftrightarrow>
     list_all file_emits (emits_of ''file'' evs) \<and> list_all http_emits (emits_of ''http'' evs)
     \<and> list_all kube_emits (emits_of ''k8s'' evs)"

lemma winner_clone_usable:
  assumes "\<And>name s. (name, s) \<in> set sets \<Longrightarrow> usable_hosts (hs_hosts s)"
    and "h \<in> set (fst (merge_sets sets))"
  shows "hr_id h \<noteq> [] \<and> hr_address h \<noteq> [] \<and> gm_wf (hr_attributes h) \<and> (hr_healthy h \<longleftrightarrow> hr_reason h = [])"
proof -
  obtain w where w: "winner (hr_id h) (all_records sets) None = Some w" "clone_host w = h"
    using assms(2) by (auto simp: merge_sets_member)
  then have "w \<in> set (all_records sets)" using winner_mem by fastforce
  then obtain name s where "(name, s) \<in> set sets" "w \<in> set (hs_hosts s)" by (auto simp: all_records_def)
  then have "hr_id w \<noteq> [] \<and> hr_address w \<noteq> [] \<and> (hr_healthy w \<longleftrightarrow> hr_reason w = [])"
    using assms(1) by (fastforce simp: usable_hosts_def)
  moreover have "gm_wf (hr_attributes (clone_host w))"
    by (simp add: clone_host_def) (rule fold_preserves, auto)
  ultimately show ?thesis using w(2) by auto
qed

text \<open>
  C23: what the rest of the program reads is well formed. Register the three sources with a fresh
  manager and let anything happen to it: configurations applied in any order, sources that fail to
  start, are slow to stop or linger and emit after they were stopped, refreshes, the whole stop. As
  long as each source emits only what its model can emit, every snapshot of the inventory lists its
  hosts in strict order of their IDs, its index finds exactly the listed hosts, and every host has an
  ID, an address, an attribute map with distinct keys, and a reason exactly when it is not healthy.
\<close>

theorem discovered_inventory_usable:
  assumes "sources_behave evs"
    and "snap = build_snapshot now (mg_store (fold mgr_step evs (register_providers env (new_manager new_inv_store))))"
  shows "sorted_wrt (<) (map hr_id (sn_hosts snap))
    \<and> (\<forall>k h. snap_get snap k = Some h \<longleftrightarrow> h \<in> set (sn_hosts snap) \<and> hr_id h = k)
    \<and> (\<forall>h \<in> set (sn_hosts snap). hr_id h \<noteq> [] \<and> hr_address h \<noteq> [] \<and> gm_wf (hr_attributes h)
         \<and> (hr_healthy h \<longleftrightarrow> hr_reason h = []))"
proof -
  let ?start = "register_providers env (new_manager new_inv_store)"
  let ?m = "fold mgr_step evs ?start"
  have wf: "snap_wf snap" unfolding assms(2) by (rule build_snapshot_wf)
  have inv: "manager_inv {''file'', ''http'', ''k8s''} ?m" by (rule managing.run_keeps [OF registered_inv])
  have usable: "usable_hosts (hs_hosts s)" if "(name, s) \<in> set (is_sets (mg_store ?m))" for name s
  proof -
    have s: "map_of (is_sets (mg_store ?m)) name = Some s"
      using that inv by (simp add: manager_inv_def gm_wf_map_of)
    have behave: "list_all file_emits (emits_of ''file'' evs)" "list_all http_emits (emits_of ''http'' evs)"
      "list_all kube_emits (emits_of ''k8s'' evs)" using assms(1) by (simp_all add: sources_behave_def)
    have "name \<in> {''file'', ''http'', ''k8s''}" using that inv unfolding manager_inv_def by fast
    then consider "name = ''file''" | "name = ''http''" | "name = ''k8s''" by fast
    then show ?thesis
    proof cases
      case 1
      show ?thesis by (rule filesrc.source_usable [OF behave(1) _ s [unfolded 1]]) (simp add: registered_empty)
    next
      case 2
      show ?thesis by (rule httpsrc.source_usable [OF behave(2) _ s [unfolded 2]]) (simp add: registered_empty)
    next
      case 3
      show ?thesis by (rule kube.source_usable [OF behave(3) _ s [unfolded 3]]) (simp add: registered_empty)
    qed
  qed
  have hosts: "sn_hosts snap = fst (merge_sets (is_sets (mg_store ?m)))"
    by (simp add: assms(2) build_snapshot_def split: prod.split)
  have rows: "\<forall>h \<in> set (sn_hosts snap). hr_id h \<noteq> [] \<and> hr_address h \<noteq> [] \<and> gm_wf (hr_attributes h)
         \<and> (hr_healthy h \<longleftrightarrow> hr_reason h = [])"
    unfolding hosts by (rule ballI, rule winner_clone_usable) (rule usable)
  have "sorted_wrt (<) (map hr_id (sn_hosts snap))" using wf by (simp add: snap_wf_def)
  moreover have "\<forall>k h. snap_get snap k = Some h \<longleftrightarrow> h \<in> set (sn_hosts snap) \<and> hr_id h = k"
    using sv.lookup_iff [OF wf] by blast
  ultimately show ?thesis using rows by blast
qed

definition demo_sources :: source_env where
  "demo_sources =
     \<lparr>de_ca = (\<lambda>_. None), de_usable = (\<lambda>_. True), de_system = None, de_client = (\<lambda>_. True),
      de_selector = (\<lambda>_. True), de_json_file = (\<lambda>_. None), de_json_http = (\<lambda>_. None), de_json_kube = (\<lambda>_. None)\<rparr>"

definition demo_kube_cfg :: config where
  "demo_kube_cfg = default_config\<lparr>cf_providers :=
     (cf_providers default_config)\<lparr>pv_k8s := (pv_k8s (cf_providers default_config))\<lparr>kc_enabled := True\<rparr>\<rparr>\<rparr>"

theorem discovered_inventory_usable_witness:
  "list_all (\<lambda>h. hr_address h \<noteq> []) (sn_hosts (build_snapshot 9 (mg_store (fold mgr_step
       [MgApply 1 (\<lambda>_. False) demo_kube_cfg, MgEmit ''k8s'' (build_nodes demo_kube 5 [colliding_node])]
       (register_providers demo_sources (new_manager new_inv_store))))))"
proof -
  let ?evs = "[MgApply 1 (\<lambda>_. False) demo_kube_cfg, MgEmit ''k8s'' (build_nodes demo_kube 5 [colliding_node])]"
  have "kube_emits (build_nodes demo_kube 5 [colliding_node])"
    unfolding kube_emits_def by (intro exI [of _ demo_kube] exI [of _ 5] exI [of _ "[colliding_node]"]) simp
  then have "sources_behave ?evs" by (simp add: sources_behave_def emits_of_def map_filter_simps)
  from discovered_inventory_usable [OF this refl] show ?thesis unfolding list_all_iff by blast
qed

end
