(* ===== verification/Watcher.thy ===== *)
theory Watcher
  imports Zone
begin

text \<open>
  Models \<open>internal/config/watcher.go\<close> and the file access of \<open>Load\<close>: the watcher re-reads the
  configuration on a signal and on a changed file, keeps the previous value when the new one is
  rejected, and publishes each accepted change to its subscribers through channels of capacity one.
  Decoding YAML and JSON is a parameter. The lemmas show that the active configuration is always
  valid and that no subscriber is left with an outdated one.
\<close>

section \<open>Loading\<close>

datatype config_load_error = ConfigUnreadable | ConfigUnparsable | ConfigInvalid "cfg_error list"

datatype config_format = FormatJson | FormatYaml

definition config_format_of :: "string \<Rightarrow> config_format" where
  "config_format_of path = (if map lower_char (path_ext path) = ''.json'' then FormatJson else FormatYaml)"

text \<open>\<open>decode\<close> unmarshals over the defaults; \<open>data\<close> is what \<open>os.ReadFile\<close> answers.\<close>

definition load_config ::
  "(config_format \<Rightarrow> string \<Rightarrow> config option) \<Rightarrow> string option \<Rightarrow> string \<Rightarrow> string option \<Rightarrow>
     config_load_error + config" where
  "load_config decode hostname path data =
     (case data of
        None \<Rightarrow> Inl ConfigUnreadable
      | Some text \<Rightarrow>
          (case decode (config_format_of path) text of
             None \<Rightarrow> Inl ConfigUnparsable
           | Some c \<Rightarrow> (case parse_config hostname c of Inl errs \<Rightarrow> Inl (ConfigInvalid errs) | Inr v \<Rightarrow> Inr v)))"

section \<open>The watcher\<close>

text \<open>The channel of each subscriber, in the order of subscription, with the value it holds.\<close>

record watcher =
  wa_path :: string
  wa_cur :: config
  wa_mtime :: time
  wa_size :: int
  wa_subs :: "config option list"

text \<open>What \<open>os.Stat\<close> and \<open>os.ReadFile\<close> answer.\<close>

record config_view =
  cv_stat :: "(time \<times> int) option"
  cv_data :: "string option"

definition new_watcher :: "string \<Rightarrow> config \<Rightarrow> (time \<times> int) option \<Rightarrow> watcher" where
  "new_watcher path initial stat =
     (let w = \<lparr>wa_path = path, wa_cur = initial, wa_mtime = 0, wa_size = 0, wa_subs = []\<rparr>
      in (case stat of None \<Rightarrow> w | Some (mtime, sz) \<Rightarrow> w\<lparr>wa_mtime := mtime, wa_size := sz\<rparr>))"

definition watcher_current :: "watcher \<Rightarrow> config" where
  "watcher_current w = wa_cur w"

definition subscribe :: "watcher \<Rightarrow> watcher" where
  "subscribe w = w\<lparr>wa_subs := wa_subs w @ [None]\<rparr>"

text \<open>
  The send that makes room: a full channel is emptied and the value sent again. Each select is
  written out; with the channel to itself the second send succeeds.
\<close>

definition try_send :: "config \<Rightarrow> config option \<Rightarrow> config option \<times> bool" where
  "try_send cfg ch = (case ch of None \<Rightarrow> (Some cfg, True) | Some c \<Rightarrow> (Some c, False))"

definition publish_one :: "config \<Rightarrow> config option \<Rightarrow> config option" where
  "publish_one cfg ch =
     (case try_send cfg ch of
        (ch', True) \<Rightarrow> ch'
      | (_, False) \<Rightarrow> fst (try_send cfg None))"

definition watcher_publish :: "config \<Rightarrow> watcher \<Rightarrow> watcher" where
  "watcher_publish cfg w = w\<lparr>wa_subs := map (publish_one cfg) (wa_subs w)\<rparr>"

definition watcher_reload ::
  "(config_format \<Rightarrow> string \<Rightarrow> config option) \<Rightarrow> string option \<Rightarrow> config_view \<Rightarrow> bool \<Rightarrow> watcher \<Rightarrow> watcher" where
  "watcher_reload decode hostname cv force w =
     (case cv_stat cv of
        None \<Rightarrow> w
      | Some (mtime, sz) \<Rightarrow>
          if mtime = wa_mtime w \<and> sz = wa_size w \<and> \<not> force then w
          else (case load_config decode hostname (wa_path w) (cv_data cv) of
                  Inl _ \<Rightarrow> w
                | Inr cfg \<Rightarrow>
                    (let w1 = w\<lparr>wa_mtime := mtime, wa_size := sz\<rparr>
                     in if config_equal (Some (wa_cur w)) (Some cfg) then w1
                        else watcher_publish cfg (w1\<lparr>wa_cur := cfg\<rparr>))))"

text \<open>
  The loop of \<open>Run\<close> (a signal, a tick) together with the subscribers: a new one, and a receive by
  subscriber \<open>n\<close>, possible when its channel holds a value. The receives are collected in order.
\<close>

datatype watch_event =
    WSignal "string option" config_view
  | WTick "string option" config_view
  | WSubscribe
  | WReceive nat

type_synonym watch_state = "watcher \<times> (nat \<times> config) list"

fun watch_step ::
  "(config_format \<Rightarrow> string \<Rightarrow> config option) \<Rightarrow> watch_event \<Rightarrow> watch_state \<Rightarrow> watch_state" where
  "watch_step decode (WSignal hostname cv) (w, got) = (watcher_reload decode hostname cv True w, got)"
| "watch_step decode (WTick hostname cv) (w, got) = (watcher_reload decode hostname cv False w, got)"
| "watch_step decode WSubscribe (w, got) = (subscribe w, got)"
| "watch_step decode (WReceive n) (w, got) =
     (if n < length (wa_subs w) then
        (case wa_subs w ! n of
           None \<Rightarrow> (w, got)
         | Some cfg \<Rightarrow> (w\<lparr>wa_subs := (wa_subs w)[n := None]\<rparr>, got @ [(n, cfg)]))
      else (w, got))"

section \<open>Invariant\<close>

text \<open>The value a subscriber received last.\<close>

definition last_got :: "nat \<Rightarrow> (nat \<times> config) list \<Rightarrow> config option" where
  "last_got n got = map_of (rev got) n"

definition up_to_date :: "watch_state \<Rightarrow> bool" where
  "up_to_date s \<longleftrightarrow>
     (\<forall>n < length (wa_subs (fst s)). \<forall>cfg.
        wa_subs (fst s) ! n = Some cfg \<or> wa_subs (fst s) ! n = None \<and> last_got n (snd s) = Some cfg
          \<longrightarrow> cfg = wa_cur (fst s))
     \<and> (\<forall>g \<in> set (snd s). fst g < length (wa_subs (fst s)))"

definition watch_inv :: "watch_state \<Rightarrow> bool" where
  "watch_inv s \<longleftrightarrow> validate (wa_cur (fst s)) = [] \<and> up_to_date s"

lemma load_config_valid: "load_config decode hostname path data = Inr cfg \<Longrightarrow> validate cfg = []"
  by (auto simp: load_config_def parse_config_def Let_def split: option.splits sum.splits if_splits)

lemma publish_one_eq [simp]: "publish_one cfg ch = Some cfg"
  by (simp add: publish_one_def try_send_def split: option.split)

lemma watch_inv_reload:
  assumes "watch_inv (w, got)"
  shows "watch_inv (watcher_reload decode hostname cv force w, got)"
proof -
  have same: "watch_inv (w\<lparr>wa_mtime := a, wa_size := b\<rparr>, got)" for a b
    using assms by (simp add: watch_inv_def up_to_date_def)
  have new: "watch_inv (watcher_publish cfg (w\<lparr>wa_mtime := a, wa_size := b, wa_cur := cfg\<rparr>), got)"
    if "validate cfg = []" for cfg a b
    using assms that by (auto simp: watch_inv_def up_to_date_def watcher_publish_def)
  show ?thesis
    using assms same new
    by (auto simp: watcher_reload_def Let_def dest: load_config_valid split: option.split sum.split)
qed

lemma last_got_snoc: "last_got n (got @ [(k, cfg)]) = (if n = k then Some cfg else last_got n got)"
  by (simp add: last_got_def)

lemma watch_inv_step:
  assumes "watch_inv s"
  shows "watch_inv (watch_step decode ev s)"
proof -
  obtain w got where s: "s = (w, got)" by fastforce
  show ?thesis
  proof (cases ev)
    case WSubscribe
    have "last_got (length (wa_subs w)) got = None"
      using assms by (auto simp: s watch_inv_def up_to_date_def last_got_def map_of_eq_None_iff)
    then show ?thesis using assms
      by (auto simp: s WSubscribe watch_inv_def up_to_date_def subscribe_def nth_append less_Suc_eq)
  next
    case (WReceive n)
    show ?thesis
    proof (cases "n < length (wa_subs w) \<and> wa_subs w ! n \<noteq> None")
      case True
      then obtain cfg where cfg: "n < length (wa_subs w)" "wa_subs w ! n = Some cfg" by auto
      then have cur: "cfg = wa_cur w" using assms by (auto simp: s watch_inv_def up_to_date_def)
      have step: "watch_step decode ev s = (w\<lparr>wa_subs := (wa_subs w)[n := None]\<rparr>, got @ [(n, cfg)])"
        using cfg by (simp add: s WReceive)
      have "c = wa_cur w" if "k < length (wa_subs w)"
        "(wa_subs w)[n := None] ! k = Some c \<or> (wa_subs w)[n := None] ! k = None \<and> last_got k (got @ [(n, cfg)]) = Some c"
        for k c
        using assms that cur by (cases "k = n") (auto simp: s watch_inv_def up_to_date_def last_got_snoc)
      then show ?thesis using assms cfg(1) unfolding step by (simp add: s watch_inv_def up_to_date_def)
    next
      case False
      then show ?thesis using assms by (auto simp: s WReceive split: option.split)
    qed
  qed (use assms in \<open>simp_all add: s watch_inv_reload\<close>)
qed

interpretation watching: inv_machine "watch_step decode" watch_inv for decode
  by unfold_locales (rule watch_inv_step)


definition watched_config :: config where
  "watched_config = default_config\<lparr>cf_node_id := ''n1'',
     cf_providers := (cf_providers default_config)\<lparr>pv_file := (pv_file (cf_providers default_config))\<lparr>fc_enabled := True\<rparr>\<rparr>\<rparr>"

definition watched_decode :: "config_format \<Rightarrow> string \<Rightarrow> config option" where
  "watched_decode fmt text =
     (if text = ''x'' then Some (watched_config\<lparr>cf_node_id := ''n2''\<rparr>)
      else if text = ''y'' then Some (watched_config\<lparr>cf_node_id := ''n3''\<rparr>) else None)"

lemma watched_valid: "validate watched_config = []" "validate (watched_config\<lparr>cf_node_id := ''n2''\<rparr>) = []"
  "validate (watched_config\<lparr>cf_node_id := ''n3''\<rparr>) = []"
  by code_simp+

lemma watched_normal: "normalise h (watched_config\<lparr>cf_node_id := ''n2''\<rparr>) = watched_config\<lparr>cf_node_id := ''n2''\<rparr>"
  "normalise h (watched_config\<lparr>cf_node_id := ''n3''\<rparr>) = watched_config\<lparr>cf_node_id := ''n3''\<rparr>"
  by (simp_all add: normalise_def norm_node_def Let_def norm_zone_def norm_slots_def norm_probes_def norm_persist_def
      watched_config_def default_config_def default_probes_def second_def)


end
