(* ===== verification/Daemon.thy ===== *)
theory Daemon
  imports Metrics Discovery Watcher IcmpClient
begin

text \<open>
  Models \<open>cmd/meshd/main.go\<close>: the program's start and exit codes, the construction of the components, and
  their composition while the daemon runs. The components of \<open>app\<close> are those of the other theories. In
  the program they share the inventory store, the configuration and the compiled topology by pointer;
  here each of these has one owner in \<open>app\<close>, and the reconcile loop sees them through \<open>load_deps\<close>. The
  process, the signals, the goroutines and their waits are not modelled: what each goroutine does
  when it is woken is one step. The lemmas show which inventory changes are seen, what a reload can
  split, and when a restart leaves the node without probes.
\<close>

section \<open>The command\<close>

datatype log_level = LevelDebug | LevelInfo | LevelWarn | LevelError

text \<open>The level of the logger, and whether its lines are text rather than JSON.\<close>

definition setup_logging :: "log_config \<Rightarrow> log_level \<times> bool" where
  "setup_logging c =
     (if lc_level c = ''debug'' then LevelDebug
      else if lc_level c = ''warn'' then LevelWarn
      else if lc_level c = ''error'' then LevelError
      else LevelInfo,
      lc_format c = ''text'')"

text \<open>What the command prints on its standard output, and its exit code.\<close>

datatype printed = PrintNothing | PrintVersion | PrintValid

definition meshd_main ::
  "bool \<Rightarrow> bool \<Rightarrow> config_load_error + config \<Rightarrow> (config \<Rightarrow> 'e + 'a) \<Rightarrow> ('a \<Rightarrow> bool) \<Rightarrow> printed \<times> int" where
  "meshd_main show_version check loaded build run =
     (if show_version then (PrintVersion, 0)
      else case loaded of
        Inl _ \<Rightarrow> (PrintNothing, 2)
      | Inr cfg \<Rightarrow>
          if check then (PrintValid, 0)
          else (case build cfg of
                  Inl _ \<Rightarrow> (PrintNothing, 3)
                | Inr a \<Rightarrow> (PrintNothing, if run a then 0 else 4)))"

section \<open>The components\<close>

record topology =
  tp_rule :: rule
  tp_filter :: pfilter
  tp_scanner :: slots_config

datatype topology_error = BadZone zone_error | BadPairing pairing_error

text \<open>The three values are stored only when all are built.\<close>

definition build_topology :: "regex \<Rightarrow> config \<Rightarrow> topology_error + topology" where
  "build_topology rx cfg =
     (case new_rule rx (cf_zone cfg) of
        Inl e \<Rightarrow> Inl (BadZone e)
      | Inr r \<Rightarrow>
          (case new_filter (cf_pairings cfg) of
             Inl e \<Rightarrow> Inl (BadPairing e)
           | Inr f \<Rightarrow> Inr \<lparr>tp_rule = r, tp_filter = f, tp_scanner = cf_slots cfg\<rparr>))"

text \<open>
  The health tracker and the state store are those of the loop's dependencies; the inventory store is
  the manager's. The subscription that \<open>run\<close> makes is the first of the watcher; \<open>ap_seen\<close> is the generation that
  \<open>watchInventory\<close> saw last, \<open>ap_node\<close> the runner's node id.
\<close>

record 'p app =
  ap_watch :: watcher
  ap_manager :: "source manager"
  ap_topo :: topology
  ap_loop :: loop_state
  ap_runner :: runner
  ap_node :: string
  ap_icmp :: client
  ap_served :: responder_stats
  ap_registry :: "'p registry"
  ap_seen :: "64 word"

text \<open>The library, the text of a quantile, the regular expressions and the decoder: what the daemon is linked with.\<close>

record 'p linked =
  ln_lib :: "prom_call \<Rightarrow> 'p \<Rightarrow> 'p"
  ln_fmt :: "f64 \<Rightarrow> string"
  ln_regex :: regex
  ln_decode :: "config_format \<Rightarrow> string \<Rightarrow> config option"
  ln_buckets :: "f64 list"

definition probers_of :: "config \<Rightarrow> kind list" where
  "probers_of cfg = [KindTCP, KindUDP] @ (if ic_enabled (pr_icmp (cf_probes cfg)) then [KindICMP] else [])"

text \<open>
  \<open>build\<close>: \<open>stat\<close> is what \<open>os.Stat\<close> answers for the configuration file, \<open>saved\<close> what reading the state file
  gives, \<open>fresh\<close> an empty metrics library.
\<close>

definition build_app ::
  "'p linked \<Rightarrow> source_env \<Rightarrow> (time \<times> int) option \<Rightarrow> file_read \<Rightarrow> 'p \<Rightarrow> string \<Rightarrow> config \<Rightarrow> topology_error + 'p app" where
  "build_app ln env stat saved fresh path cfg =
     (case build_topology (ln_regex ln) cfg of
        Inl e \<Rightarrow> Inl e
      | Inr topo \<Rightarrow>
          let reg = new_registry (ln_buckets ln) (cf_metrics cfg) fresh;
              w = new_watcher path cfg stat;
              m = register_providers env (new_manager new_inv_store);
              (st, ok, err) = load_state saved;
              reg' = (if err \<noteq> None then add_state_reset (ln_lib ln) reg else reg);
              deps = \<lparr>de_inv = mg_store m, de_config = cfg, de_health = new_tracker (cf_health cfg),
                      de_state = new_store (cf_persist cfg) (Some st), de_rule = tp_rule topo,
                      de_filter = Some (tp_filter topo), de_scanner = tp_scanner topo, de_on_delta = True,
                      de_published = []\<rparr>
          in Inr \<lparr>ap_watch = w, ap_manager = m, ap_topo = topo, ap_loop = new_loop deps,
                  ap_runner = new_runner (probers_of cfg), ap_node = cf_node_id cfg,
                  ap_icmp = new_client (cf_meshping cfg), ap_served = new_server, ap_registry = reg',
                  ap_seen = 0\<rparr>)"

text \<open>The components \<open>run\<close> starts, in order; providers are started between the first and the second.\<close>

definition start_order :: "config \<Rightarrow> string list" where
  "start_order cfg =
     [''state''] @ (if ic_enabled (pr_icmp (cf_probes cfg)) then [''meshping''] else [])
     @ [''responder'', ''runner'', ''reconcile'', ''config'', ''api'', ''watch'', ''stats'']"

section \<open>Shared components\<close>

text \<open>The dependencies of the loop, read through the pointers it holds.\<close>

definition load_deps :: "'p app \<Rightarrow> recon_deps" where
  "load_deps a =
     (lo_deps (ap_loop a))\<lparr>de_inv := mg_store (ap_manager a), de_config := watcher_current (ap_watch a),
        de_rule := tp_rule (ap_topo a), de_filter := Some (tp_filter (ap_topo a)),
        de_scanner := tp_scanner (ap_topo a)\<rparr>"

text \<open>\<open>onDelta\<close>: the runner is given the table and the snapshot, and forgets the series of what it stops.\<close>

definition on_delta :: "'p linked \<Rightarrow> time \<Rightarrow> delta \<times> mesh_state \<times> snapshot \<Rightarrow> 'p app \<Rightarrow> 'p app" where
  "on_delta ln now x a =
     (case x of (_, st, snap) \<Rightarrow>
        case runner_apply now (watcher_current (ap_watch a)) (ap_node a) st snap (ap_runner a) of
          (r, gone, _) \<Rightarrow>
            a\<lparr>ap_runner := r, ap_registry := fold (forget_task (ln_lib ln)) gone (ap_registry a)\<rparr>)"

text \<open>A step of the loop, with what it handed to \<open>OnDelta\<close> and the report to the observer when it ran.\<close>

definition published_since :: "loop_state \<Rightarrow> loop_state \<Rightarrow> (delta \<times> mesh_state \<times> snapshot) list" where
  "published_since s s' = drop (length (de_published (lo_deps s))) (de_published (lo_deps s'))"

definition with_loop ::
  "'p linked \<Rightarrow> time \<Rightarrow> (loop_state \<Rightarrow> loop_state \<times> trigger option) \<Rightarrow> 'p app \<Rightarrow> 'p app" where
  "with_loop ln now f a =
     (case f ((ap_loop a)\<lparr>lo_deps := load_deps a\<rparr>) of
        (s, why) \<Rightarrow>
          let a1 = fold (on_delta ln now) (published_since (ap_loop a) s)
                (a\<lparr>ap_loop := s, ap_manager := (ap_manager a)\<lparr>mg_store := de_inv (lo_deps s)\<rparr>\<rparr>)
          in (case why of
                None \<Rightarrow> a1
              | Some t \<Rightarrow>
                  a1\<lparr>ap_registry := reconcile_done (ln_lib ln) t (lo_last_stats s) (lo_last_delta s) (lo_last_err s)
                        (ap_registry a1)\<rparr>))"

text \<open>The cases of the loop's \<open>select\<close>, with the trigger of the run each makes.\<close>

definition loop_first :: "time \<Rightarrow> dur \<Rightarrow> loop_state \<Rightarrow> loop_state \<times> trigger option" where
  "loop_first now el s = (loop_start now el s, Some TriggerStart)"

definition loop_recv :: "time \<Rightarrow> dur \<Rightarrow> loop_state \<Rightarrow> loop_state \<times> trigger option" where
  "loop_recv now el s = (case on_recv now el s of None \<Rightarrow> (s, None) | Some s' \<Rightarrow> (s', lo_ch s))"

definition loop_ticker :: "time \<Rightarrow> dur \<Rightarrow> loop_state \<Rightarrow> loop_state \<times> trigger option" where
  "loop_ticker now el s = (case on_ticker now el s of (t, s') \<Rightarrow> (s', Some t))"

definition loop_deadline :: "time \<Rightarrow> dur \<Rightarrow> loop_state \<Rightarrow> loop_state \<times> trigger option" where
  "loop_deadline now el s =
     (on_deadline now el s,
      if fst (tick now (de_health (lo_deps s))) \<noteq> [] then Some TriggerTimer else None)"

definition loop_now :: "time \<Rightarrow> dur \<Rightarrow> loop_state \<Rightarrow> loop_state \<times> trigger option" where
  "loop_now now el s = (fst (run_once now el s), Some TriggerAPI)"

definition trigger_app :: "trigger \<Rightarrow> 'p app \<Rightarrow> 'p app" where
  "trigger_app t a = a\<lparr>ap_loop := send_trigger t (ap_loop a)\<rparr>"

text \<open>A step of the manager, with its reports to the metrics.\<close>

definition with_manager :: "'p linked \<Rightarrow> (source manager \<Rightarrow> source manager) \<Rightarrow> 'p app \<Rightarrow> 'p app" where
  "with_manager ln f a =
     (let m = f (ap_manager a); new = drop (length (mg_reports (ap_manager a))) (mg_reports m)
      in a\<lparr>ap_manager := m, ap_registry := fold (provider_report (ln_lib ln)) new (ap_registry a)\<rparr>)"

section \<open>Steps of the daemon\<close>

text \<open>The part of \<open>run\<close> before it waits: the providers are started, the subscription is made.\<close>

definition run_begin :: "'p linked \<Rightarrow> time \<Rightarrow> (string \<Rightarrow> bool) \<Rightarrow> 'p app \<Rightarrow> 'p app" where
  "run_begin ln now slow a =
     (let a1 = with_manager ln (\<lambda>m. fst (manager_apply now slow (watcher_current (ap_watch a)) m)) a
      in a1\<lparr>ap_watch := subscribe (ap_watch a1)\<rparr>)"

datatype config_apply_error = ApplyTopology topology_error | ApplyProviders prov_error

definition on_config ::
  "'p linked \<Rightarrow> time \<Rightarrow> (string \<Rightarrow> bool) \<Rightarrow> config \<Rightarrow> 'p app \<Rightarrow> 'p app \<times> config_apply_error option" where
  "on_config ln now slow cfg a =
     (case build_topology (ln_regex ln) cfg of
        Inl e \<Rightarrow> (a, Some (ApplyTopology e))
      | Inr topo \<Rightarrow>
          let a1 = a\<lparr>ap_topo := topo,
                     ap_loop := set_health (set_health_config (cf_health cfg) (de_health (lo_deps (ap_loop a)))) (ap_loop a)\<rparr>;
              a2 = with_manager ln (\<lambda>m. fst (manager_apply now slow cfg m)) a1
          in (case snd (manager_apply now slow cfg (ap_manager a1)) of
                Some e \<Rightarrow> (a2, Some (ApplyProviders e))
              | None \<Rightarrow> (trigger_app TriggerConfig a2, None)))"

text \<open>The goroutine that receives the accepted configurations.\<close>

definition take_config :: "'p linked \<Rightarrow> time \<Rightarrow> (string \<Rightarrow> bool) \<Rightarrow> 'p app \<Rightarrow> 'p app" where
  "take_config ln now slow a =
     (case wa_subs (ap_watch a) of
        Some cfg # rest \<Rightarrow> fst (on_config ln now slow cfg (a\<lparr>ap_watch := (ap_watch a)\<lparr>wa_subs := None # rest\<rparr>\<rparr>))
      | _ \<Rightarrow> a)"

definition watch_inventory :: "'p app \<Rightarrow> 'p app" where
  "watch_inventory a =
     (let g = inv_generation (mg_store (ap_manager a))
      in if g \<noteq> ap_seen a then trigger_app TriggerProvider (a\<lparr>ap_seen := g\<rparr>) else a)"

definition publish_stats :: "'p linked \<Rightarrow> time \<Rightarrow> 'p app \<Rightarrow> 'p app" where
  "publish_stats ln now a =
     (let d = lo_deps (ap_loop a); lib = ln_lib ln;
          (snap, store) = inv_snapshot now (mg_store (ap_manager a));
          r1 = set_persist lib (store_stats_of now (de_state d)) (ap_registry a);
          r2 = set_responder lib (ap_served a) r1;
          r3 = set_icmp_available lib (cl_avail (ap_icmp a)) r2;
          r4 = set_ping_restarts lib (cl_restarts (ap_icmp a)) r3;
          r5 = set_tasks lib (task_count (ap_runner a)) r4;
          r6 = set_host_counts lib (state_counts (de_health d)) (map (\<lambda>(name, s). (name, ss_hosts s)) (sn_sources snap)) r5
      in a\<lparr>ap_manager := (ap_manager a)\<lparr>mg_store := store\<rparr>, ap_registry := r6\<rparr>)"

text \<open>A cycle of a task, its reports to the tracker and the metrics.\<close>

definition app_cycle :: "'p linked \<Rightarrow> time \<Rightarrow> task_key \<Rightarrow> cycle \<Rightarrow> err option \<Rightarrow> 'p app \<Rightarrow> 'p app" where
  "app_cycle ln now k c failed a =
     (let d = lo_deps (ap_loop a); qs = mc_percentiles (cf_metrics (watcher_current (ap_watch a)))
      in case export_step (ln_lib ln) (ln_fmt ln) (ECycle now qs k c failed)
             ((ap_runner a, de_health d), ap_registry a) of
           ((r, h), reg) \<Rightarrow> a\<lparr>ap_runner := r, ap_registry := reg, ap_loop := set_health h (ap_loop a)\<rparr>)"

text \<open>\<open>shutdown\<close> within its grace, when the save of the state succeeds or not.\<close>

definition shutdown :: "'p linked \<Rightarrow> time \<Rightarrow> (string \<Rightarrow> bool) \<Rightarrow> bool \<Rightarrow> 'p app \<Rightarrow> 'p app" where
  "shutdown ln now slow ok a =
     (let a1 = with_manager ln (manager_stop slow) a; d = lo_deps (ap_loop a1)
      in case flush_begin (de_state d) of
           None \<Rightarrow> a1
         | Some (_, st) \<Rightarrow> a1\<lparr>ap_loop := (ap_loop a1)\<lparr>lo_deps := d\<lparr>de_state := flush_end now ok st\<rparr>\<rparr>\<rparr>)"

text \<open>What can happen to a running daemon, each a step of one goroutine.\<close>

datatype app_event =
    ASource "source mgr_event"
  | AReload "string option" config_view bool
  | AConfig time "string \<Rightarrow> bool"
  | ARunner
  | AStart time dur
  | ARecv time dur
  | ATicker time dur
  | ADeadline time dur
  | ARunNow time dur
  | AHealth health_op
  | ACycle time task_key cycle "err option"
  | AWatch
  | AStats time

fun app_step :: "'p linked \<Rightarrow> app_event \<Rightarrow> 'p app \<Rightarrow> 'p app" where
  "app_step ln (ASource e) a = with_manager ln (mgr_step e) a"
| "app_step ln (AReload hostname cv force) a =
     a\<lparr>ap_watch := watcher_reload (ln_decode ln) hostname cv force (ap_watch a)\<rparr>"
| "app_step ln (AConfig now slow) a = take_config ln now slow a"
| "app_step ln ARunner a = a\<lparr>ap_runner := runner_begin (ap_runner a)\<rparr>"
| "app_step ln (AStart now el) a = with_loop ln now (loop_first now el) a"
| "app_step ln (ARecv now el) a = with_loop ln now (loop_recv now el) a"
| "app_step ln (ATicker now el) a = with_loop ln now (loop_ticker now el) a"
| "app_step ln (ADeadline now el) a = with_loop ln now (loop_deadline now el) a"
| "app_step ln (ARunNow now el) a = with_loop ln now (loop_now now el) a"
| "app_step ln (AHealth op) a = a\<lparr>ap_loop := set_health (health_step op (de_health (lo_deps (ap_loop a)))) (ap_loop a)\<rparr>"
| "app_step ln (ACycle now k c failed) a = app_cycle ln now k c failed a"
| "app_step ln AWatch a = watch_inventory a"
| "app_step ln (AStats now) a = publish_stats ln now a"

section \<open>A restart before the hosts are known\<close>

lemma set_health_frame [simp]:
  "lo_ready (set_health h s) = lo_ready s" "lo_last_delta (set_health h s) = lo_last_delta s"
  "de_published (lo_deps (set_health h s)) = de_published (lo_deps s)"
  "de_state (lo_deps (set_health h s)) = de_state (lo_deps s)"
  by (simp_all add: set_health_def)

lemma arm_deps [simp]:
  "lo_ready (arm_deadline now s) = lo_ready s" "lo_last_delta (arm_deadline now s) = lo_last_delta s"
  "lo_deps (arm_deadline now s) = lo_deps s"
  by (simp_all add: arm_deadline_def)

text \<open>What the runner was told, and the table of the store.\<close>

definition outcome :: "loop_state \<Rightarrow> (delta \<times> mesh_state \<times> snapshot) list \<times> mesh_state" where
  "outcome s = (de_published (lo_deps s), sr_cur (de_state (lo_deps s)))"

lemma quiet_run:
  assumes "lo_ready s" "delta_empty (lo_last_delta (fst (run_once now el s)))"
  shows "outcome (fst (run_once now el s)) = outcome s \<and> lo_ready (fst (run_once now el s))"
proof (cases "reconcile now el (run_input now s)")
  case (Inl e)
  then show ?thesis using assms by (cases e) (simp add: run_once_eq outcome_def)
next
  case (Inr out)
  with assms have "delta_empty (ro_delta out)" by (simp add: run_once_eq)
  with Inr assms show ?thesis by (simp add: run_once_eq outcome_def apply_output_def)
qed

text \<open>The first run on an inventory without hosts hands out a table in which every pairing is to be removed.\<close>

definition no_hosts :: "inv_store \<Rightarrow> bool" where
  "no_hosts s \<longleftrightarrow> is_sets s = [] \<and> is_snap s = None"

definition restored :: "recon_deps \<Rightarrow> mesh_state \<Rightarrow> bool" where
  "restored d st \<longleftrightarrow> sr_cur (de_state d) = st \<and> ms_zone_rule st = ru_fp (de_rule d)
     \<and> ms_slots_config st = slots_fingerprint (cf_slots (de_config d)) \<and> gm_wf (ms_pairings st) \<and> ms_super st = []
     \<and> sc_super_hosts (cf_slots (de_config d)) \<le> 0 \<and> 0 \<le> he_pairing_removal_hold (cf_health (de_config d))
     \<and> (\<forall>(k, p) \<in> set (ms_pairings st). pg_remove_at p = 0 \<and> (\<forall>s \<in> set (pg_slots p). sl_class s \<noteq> class_super))"

lemma no_zones: "sn_hosts snap = [] \<Longrightarrow> pairing_build (zone_build r snap) cfg f = Inr []"
  by (simp add: zone_build_def pairing_build_def pair_count_def)

lemma marked_away:
  assumes "\<forall>(k, p) \<in> set (ms_pairings st'). pg_remove_at p \<noteq> 0"
  shows "wanted_tasks cfg node st' snap = []"
  using assms by (auto simp: wanted_tasks_def)

lemma first_run:
  assumes inv: "no_hosts (de_inv (lo_deps s))" and st: "restored (lo_deps s) st" and now: "0 < now"
    and s: "\<not> lo_ready s" "de_on_delta (lo_deps s)"
  obtains st' dl snap where
    "outcome (fst (run_once now el s)) = (de_published (lo_deps s) @ [(dl, st', snap)], st)"
    "lo_ready (fst (run_once now el s))" "delta_empty (lo_last_delta (fst (run_once now el s)))"
    "\<And>cfg node snap'. wanted_tasks cfg node st' snap' = []"
proof -
  let ?i = "run_input now s"
  have i: "sn_hosts (ri_snapshot ?i) = []" "ri_config ?i = de_config (lo_deps s)" "ri_rule ?i = de_rule (lo_deps s)"
    "ri_current ?i = Some st" "ri_now ?i = now"
    using inv st
    by (simp_all add: run_input_def loop_input_def run_deps_def inv_snapshot_def no_hosts_def build_snapshot_def Let_def
        merge_sets_def restored_def store_current_def clone_state_id)
  have "\<exists>out. reconcile now el ?i = Inr out \<and> delta_empty (ro_delta out) \<and> ms_pairings (ro_state out)
      = map (\<lambda>(k, p). (k, marked (\<lambda>k. k \<in> pa_key ` set ([] :: pairing list))
            (ri_now ?i + he_pairing_removal_hold (cf_health (ri_config ?i))) k p)) (ms_pairings st)"
    by (rule reconcile_marks_only) (use st now in \<open>auto simp: i no_zones restored_def\<close>)
  then obtain out where out: "reconcile now el ?i = Inr out" "delta_empty (ro_delta out)"
    and ps: "ms_pairings (ro_state out) = map (\<lambda>(k, p). (k, marked (\<lambda>k. k \<in> pa_key ` set ([] :: pairing list))
            (ri_now ?i + he_pairing_removal_hold (cf_health (ri_config ?i))) k p)) (ms_pairings st)" by blast
  have "0 < now + he_pairing_removal_hold (cf_health (de_config (lo_deps s)))"
    using st now by (simp add: restored_def)
  then have "\<forall>(k, p) \<in> set (ms_pairings (ro_state out)). pg_remove_at p \<noteq> 0"
    using st unfolding ps i by (auto simp: marked_def restored_def)
  then have "wanted_tasks cfg node (ro_state out) snap' = []" for cfg node snap' by (rule marked_away)
  moreover have "outcome (fst (run_once now el s)) = (de_published (lo_deps s) @ [(ro_delta out, ro_state out, ri_snapshot ?i)], st)
      \<and> lo_ready (fst (run_once now el s)) \<and> delta_empty (lo_last_delta (fst (run_once now el s)))"
    using st s out by (simp add: run_once_eq outcome_def apply_output_def restored_def)
  ultimately show thesis using that by blast
qed

text \<open>The steps of the loop, when they report no change.\<close>

definition quiet_step :: "(loop_state \<Rightarrow> loop_state \<times> trigger option) \<Rightarrow> bool" where
  "quiet_step f \<longleftrightarrow> (\<forall>s. lo_ready s \<longrightarrow> delta_empty (lo_last_delta (fst (f s))) \<longrightarrow>
     outcome (fst (f s)) = outcome s \<and> lo_ready (fst (f s)))"

lemma outcome_simps [simp]:
  "outcome (set_health h s) = outcome s" "outcome (arm_deadline now s) = outcome s"
  "outcome (s\<lparr>lo_ch := c\<rparr>) = outcome s"
  by (simp_all add: outcome_def)

lemma quiet_steps:
  "quiet_step (loop_first now el)" "quiet_step (loop_recv now el)" "quiet_step (loop_ticker now el)"
  "quiet_step (loop_deadline now el)" "quiet_step (loop_now now el)"
proof -
  have run: "lo_ready s \<Longrightarrow> delta_empty (lo_last_delta (fst (run_once now el s))) \<Longrightarrow>
      outcome (fst (run_once now el s)) = outcome s \<and> lo_ready (fst (run_once now el s))" for s
    by (rule quiet_run)
  show "quiet_step (loop_first now el)" "quiet_step (loop_now now el)"
    using run by (auto simp: quiet_step_def loop_first_def loop_start_def loop_now_def)
  show "quiet_step (loop_recv now el)"
    unfolding quiet_step_def
  proof (intro allI impI)
    fix s assume "lo_ready s" "delta_empty (lo_last_delta (fst (loop_recv now el s)))"
    then show "outcome (fst (loop_recv now el s)) = outcome s \<and> lo_ready (fst (loop_recv now el s))"
      using run [of "s\<lparr>lo_ch := None\<rparr>"] by (auto simp: loop_recv_def on_recv_def split: option.splits)
  qed
  show "quiet_step (loop_ticker now el)"
    unfolding quiet_step_def
  proof (intro allI impI)
    fix s assume "lo_ready s" "delta_empty (lo_last_delta (fst (loop_ticker now el s)))"
    then show "outcome (fst (loop_ticker now el s)) = outcome s \<and> lo_ready (fst (loop_ticker now el s))"
      using run [of "set_health (snd (tick now (de_health (lo_deps s)))) s"]
      by (auto simp: loop_ticker_def on_ticker_def case_prod_beta Let_def)
  qed
  show "quiet_step (loop_deadline now el)"
    unfolding quiet_step_def
  proof (intro allI impI)
    fix s assume "lo_ready s" "delta_empty (lo_last_delta (fst (loop_deadline now el s)))"
    then show "outcome (fst (loop_deadline now el s)) = outcome s \<and> lo_ready (fst (loop_deadline now el s))"
      using run [of "set_health (snd (tick now (de_health (lo_deps s)))) s"]
      by (auto simp: loop_deadline_def on_deadline_def case_prod_beta Let_def split: if_splits)
  qed
qed

definition idle_app :: "(delta \<times> mesh_state \<times> snapshot) list \<Rightarrow> mesh_state \<Rightarrow> 'p app \<Rightarrow> bool" where
  "idle_app pub st a \<longleftrightarrow>
     rn_tasks (ap_runner a) = [] \<and> lo_ready (ap_loop a) \<and> outcome (ap_loop a) = (pub, st)"

lemma load_deps_frame [simp]:
  "de_published (load_deps a) = de_published (lo_deps (ap_loop a))" "de_state (load_deps a) = de_state (lo_deps (ap_loop a))"
  "de_health (load_deps a) = de_health (lo_deps (ap_loop a))" "de_on_delta (load_deps a) = de_on_delta (lo_deps (ap_loop a))"
  "de_inv (load_deps a) = mg_store (ap_manager a)" "de_config (load_deps a) = watcher_current (ap_watch a)"
  "de_rule (load_deps a) = tp_rule (ap_topo a)" "de_filter (load_deps a) = Some (tp_filter (ap_topo a))"
  "de_scanner (load_deps a) = tp_scanner (ap_topo a)"
  by (simp_all add: load_deps_def)

lemma with_loop_loop: "ap_loop (with_loop ln now f a) = fst (f ((ap_loop a)\<lparr>lo_deps := load_deps a\<rparr>))"
proof -
  have "ap_loop (fold (on_delta ln now) xs b) = ap_loop b" for xs and b :: "'a app"
    by (induction xs arbitrary: b) (auto simp: on_delta_def split: prod.split)
  then show ?thesis by (auto simp: with_loop_def Let_def split: prod.split option.split)
qed

lemma with_loop_idle:
  assumes f: "quiet_step f" and a: "idle_app pub st a" and d: "delta_empty (lo_last_delta (ap_loop (with_loop ln now f a)))"
  shows "idle_app pub st (with_loop ln now f a)"
proof -
  let ?s = "(ap_loop a)\<lparr>lo_deps := load_deps a\<rparr>"
  have s: "lo_ready ?s" "outcome ?s = (pub, st)" using a by (simp_all add: idle_app_def outcome_def)
  have q: "outcome (fst (f ?s)) = (pub, st)" "lo_ready (fst (f ?s))"
    using f s d unfolding with_loop_loop quiet_step_def by simp_all
  then have "published_since (ap_loop a) (fst (f ?s)) = []"
    using a by (simp add: published_since_def outcome_def idle_app_def)
  then have "ap_runner (with_loop ln now f a) = ap_runner a"
    by (auto simp: with_loop_def Let_def split: prod.split option.split)
  then show ?thesis using a q by (simp add: idle_app_def with_loop_loop)
qed

lemma with_manager_idle [simp]: "idle_app pub st (with_manager ln f a) = idle_app pub st a"
  by (simp add: idle_app_def with_manager_def Let_def)

lemma trigger_idle [simp]: "idle_app pub st (trigger_app t a) = idle_app pub st a"
  by (simp add: idle_app_def trigger_app_def send_trigger_def outcome_def split: option.split)

lemma on_config_idle: "idle_app pub st a \<Longrightarrow> idle_app pub st (fst (on_config ln now slow cfg a))"
proof -
  assume a: "idle_app pub st a"
  then have "idle_app pub st (a\<lparr>ap_topo := topo, ap_loop := set_health h (ap_loop a)\<rparr>)" for topo h
    by (simp add: idle_app_def)
  with a show ?thesis by (auto simp: on_config_def Let_def split: sum.split option.split)
qed

lemma app_step_idle:
  assumes a: "idle_app pub st a" and d: "delta_empty (lo_last_delta (ap_loop (app_step ln e a)))"
  shows "idle_app pub st (app_step ln e a)"
proof -
  have none: "fst (run_cycle now qs k c failed (ap_runner a, h)) = (ap_runner a, h)
      \<and> snd (run_cycle now qs k c failed (ap_runner a, h)) = None" for now qs k c failed h
    using a by (simp add: run_cycle_def idle_app_def)
  have cyc: "idle_app pub st (app_cycle ln now k c failed a)" for now k c failed
    using a none by (auto simp: app_cycle_def Let_def idle_app_def split: prod.split option.split)
      (metis fst_conv option.distinct(1) snd_conv)+
  have loop: "quiet_step f \<Longrightarrow> app_step ln e a = with_loop ln now f a \<Longrightarrow> ?thesis" for f now
    using with_loop_idle [OF _ a] d by simp
  show ?thesis
  proof (cases e)
    case (ASource x)
    show ?thesis using a by (simp add: ASource)
  next
    case (AConfig now slow)
    have "idle_app pub st (a\<lparr>ap_watch := w\<rparr>)" for w using a by (simp add: idle_app_def)
    then show ?thesis using a by (auto simp: AConfig take_config_def on_config_idle split: list.split option.split)
  next
    case AWatch
    have "idle_app pub st (a\<lparr>ap_seen := g\<rparr>)" for g using a by (simp add: idle_app_def)
    then show ?thesis using a by (simp add: AWatch watch_inventory_def Let_def)
  next
    case (AStats now)
    then show ?thesis using a by (simp add: publish_stats_def Let_def idle_app_def split: prod.split)
  qed (use a cyc loop quiet_steps in \<open>auto simp: idle_app_def runner_begin_def\<close>)
qed

text \<open>
  C7: after a restart whose first run comes before any provider has delivered, the node probes nothing.
  Let the daemon start with an assignment from the state file that fits the configuration, and let the
  loop run once while the inventory is still empty (the sources are started in the background, just
  before the loop). That run finds no zone, hands the runner a table in which every pairing is marked for
  removal, and marks nothing in the store. From then on, whatever else happens (the hosts arrive, the
  configuration is read again, further runs), as long as the runs find the stored assignment to be
  right, that is, report no change, the runner is not called again: the assignment is in force and
  shown by the API, and no task of it runs on the node.
\<close>

theorem restart_starts_no_task:
  assumes inv: "no_hosts (mg_store (ap_manager a))" and st: "restored (load_deps a) st" and now: "0 < now"
    and start: "\<not> lo_ready (ap_loop a)" "de_on_delta (lo_deps (ap_loop a))" "rn_tasks (ap_runner a) = []"
    and quiet: "\<forall>n \<le> length es. delta_empty (lo_last_delta (ap_loop
        (fold (app_step ln) (take n es) (app_step ln (AStart now el) a))))"
  shows "rn_tasks (ap_runner (fold (app_step ln) es (app_step ln (AStart now el) a))) = []
    \<and> sr_cur (de_state (lo_deps (ap_loop (fold (app_step ln) es (app_step ln (AStart now el) a))))) = st"
proof -
  let ?s = "(ap_loop a)\<lparr>lo_deps := load_deps a\<rparr>" and ?b = "app_step ln (AStart now el) a"
  obtain st' dl snap where
    out: "outcome (fst (run_once now el ?s)) = (de_published (lo_deps ?s) @ [(dl, st', snap)], st)"
    and ready: "lo_ready (fst (run_once now el ?s))"
    and none: "\<And>cfg node snap'. wanted_tasks cfg node st' snap' = []"
    by (rule first_run [of ?s st now el]) (use inv st now start in simp_all)
  have pub: "published_since (ap_loop a) (fst (loop_first now el ?s)) = [(dl, st', snap)]"
    using out by (simp add: published_since_def loop_first_def loop_start_def outcome_def)
  have "apply_tasks t [] r = (r, [], [])" if "rn_tasks r = []" for t r
    using that by (cases r) (simp add: apply_tasks_def keys_to_stop_def tasks_to_start_def refresh_labels_def
        stop_all_Nil map_filter_simps Let_def)
  then have "ap_runner ?b = ap_runner a"
    using start(3) none pub
    by (auto simp: with_loop_def Let_def on_delta_def runner_apply_def desired_def split: prod.split option.split)
  moreover have "ap_loop ?b = fst (loop_first now el ?s)" by (simp add: with_loop_loop)
  ultimately have idle: "idle_app (de_published (lo_deps (ap_loop a)) @ [(dl, st', snap)]) st ?b"
    using out ready start(3) by (simp add: idle_app_def loop_first_def loop_start_def)
  have "idle_app (de_published (lo_deps (ap_loop a)) @ [(dl, st', snap)]) st (fold (app_step ln) (take n es) ?b)"
    if "n \<le> length es" for n
    using that
  proof (induction n)
    case (Suc n)
    have t: "fold (app_step ln) (take (Suc n) es) ?b = app_step ln (es ! n) (fold (app_step ln) (take n es) ?b)"
      using Suc.prems by (simp add: take_Suc_conv_app_nth)
    have "delta_empty (lo_last_delta (ap_loop (app_step ln (es ! n) (fold (app_step ln) (take n es) ?b))))"
      using quiet Suc.prems unfolding t [symmetric] by blast
    then show ?case unfolding t using Suc by (intro app_step_idle) simp_all
  qed (use idle in simp)
  from this [of "length es"] show ?thesis by (simp add: idle_app_def outcome_def)
qed

section \<open>Witnesses\<close>

text \<open>The small mesh: three hosts in two zones, from one source, with its assignment in the state file.\<close>

definition all_hosts :: "string \<Rightarrow> bool" where
  "all_hosts h \<longleftrightarrow> h = ''a'' \<or> h = ''b'' \<or> h = ''c''"
definition mesh_input :: "mesh_state option \<Rightarrow> time \<Rightarrow> recon_input" where
  "mesh_input cur t = (demo_input 0 all_hosts cur t)\<lparr>ri_filter := Some \<lparr>pf_include = [], pf_exclude = []\<rparr>\<rparr>"
lemma mesh_first: "fst (validate_pairing (mesh_input None 1) demo_index demo_blank) = demo_blank"
  "fst (super_stage (mesh_input None 1) demo_index [] demo_blank) = demo_blank" 
  "fst (fill_pairing (mesh_input None 1) demo_index ''x|y'' demo_blank) = demo_pairing" by code_simp+

lemma mesh_input_simps: "ri_snapshot (mesh_input cur t) = demo_snap"
  "ri_config (mesh_input cur t) = default_config\<lparr>cf_slots := demo_slots 0\<rparr>" "ri_rule (mesh_input cur t) = demo_rule"
  "ri_current (mesh_input cur t) = cur" "ri_now (mesh_input cur t) = t"
  "ri_filter (mesh_input cur t) = Some \<lparr>pf_include = [], pf_exclude = []\<rparr>" "ri_scanner (mesh_input cur t) = demo_slots 0"
  "ri_eligible (mesh_input cur t) = all_hosts"
  by (simp_all add: mesh_input_def demo_input_def)

lemma mesh_quiet: "quiet (mesh_input cur t) demo_index ''x|y'' demo_pairing"
  and mesh_resize: "resize_slots (compute_layout (demo_slots 0)) demo_pairing = (demo_pairing, [])"
proof -
  let ?i = "mesh_input None 1"
  have d: "demo_pairing = settle ?i demo_index [] ''x|y'' demo_blank"
    by (simp only: settle_def mesh_first)
  have r: "pg_remove_at demo_blank = 0" by (simp add: demo_blank_def demo_pairing_def)
  have i: "?i\<lparr>ri_current := cur, ri_now := t\<rparr> = mesh_input cur t" by (simp add: mesh_input_def demo_input_def)
  note q = settled_live_quiet [where inp = ?i and idx = demo_index and p = demo_blank and q = demo_pairing,
      OF _ _ _ _ refl r _ demo_blank_ok(2) d]
  show "quiet (mesh_input cur t) demo_index ''x|y'' demo_pairing"
    unfolding i [symmetric]
    by (rule q(1); simp add: mesh_input_simps demo_snap_wf demo_host_ids demo_zone_build demo_blank_ok)
  show "resize_slots (compute_layout (demo_slots 0)) demo_pairing = (demo_pairing, [])"
    by (rule demo_resize)
qed

lemma no_patterns: "pairing_build idx cfg (Some \<lparr>pf_include = [], pf_exclude = []\<rparr>) = pairing_build idx cfg None"
proof -
  have m: "match_filter (Some \<lparr>pf_include = [], pf_exclude = []\<rparr>) = match_filter None"
    by (simp add: fun_eq_iff match_filter_def)
  have "pairs_from idx cfg (Some \<lparr>pf_include = [], pf_exclude = []\<rparr>) zs = pairs_from idx cfg None zs" for zs
    by (induction zs) (simp_all add: intra_pairing_def cross_pairing_def [abs_def] m)
  then show ?thesis by (simp add: pairing_build_def)
qed
definition mesh_config :: config where
  "mesh_config = default_config\<lparr>cf_slots := demo_slots 0\<rparr>"

lemma mesh_wanted: "wanted_tasks mesh_config ''a'' demo_state demo_snap \<noteq> []"
proof -
  have "\<exists>s \<in> set (pg_slots demo_pairing). filled s \<and> slot_host s (source_side True) = ''a''
      \<and> slot_host s (source_side False) = ''b''" by code_simp
  then obtain s where s: "s \<in> set (pg_slots demo_pairing)" "filled s" "slot_host s (source_side True) = ''a''"
    "slot_host s (source_side (\<not> True)) = ''b''" by auto
  have "snap_get demo_snap ''b'' \<noteq> None" by code_simp
  then obtain dst where dst: "snap_get demo_snap ''b'' = Some dst" by blast
  have "KindUDP \<in> set (enabled_kinds (cf_probes mesh_config))"
    using demo_kinds by (simp add: mesh_config_def)
  moreover have "(''x|y'', demo_pairing) \<in> set (ms_pairings demo_state)" "pg_remove_at demo_pairing = 0"
    by (simp_all add: demo_state_def demo_pairing_def)
  ultimately have "make_task mesh_config ''x|y'' s dst (direction True demo_pairing s) KindUDP
      \<in> set (wanted_tasks mesh_config ''a'' demo_state demo_snap)"
    unfolding wanted_mem using s dst by (metis is_zero_iff)
  then show ?thesis by auto
qed

definition mesh_set :: host_set where
  "mesh_set =
     \<lparr>hs_source = ''file'',
      hs_hosts = [plain_host ''a'' [(''z'', ''x'')], plain_host ''b'' [(''z'', ''y'')], plain_host ''c'' [(''z'', ''y'')]],
      hs_fetch_at = 1, hs_stale = False, hs_last_error = []\<rparr>"

definition mesh_linked :: "(metric \<times> labels) list linked" where
  "mesh_linked =
     \<lparr>ln_lib = child_step, ln_fmt = (\<lambda>_. []), ln_regex = (\<lambda>_. None), ln_decode = (\<lambda>_ _. None), ln_buckets = []\<rparr>"

definition mesh_app :: "(metric \<times> labels) list app" where
  "mesh_app =
     \<lparr>ap_watch = \<lparr>wa_path = [], wa_cur = mesh_config, wa_mtime = 0, wa_size = 0, wa_subs = []\<rparr>,
      ap_manager = (new_manager new_inv_store)\<lparr>mg_active :=
        [(''file'', \<lparr>rn_prov = FileSource (new_file_prov (pv_file (cf_providers mesh_config))), rn_fp = []\<rparr>)]\<rparr>,
      ap_topo = \<lparr>tp_rule = demo_rule, tp_filter = \<lparr>pf_include = [], pf_exclude = []\<rparr>, tp_scanner = demo_slots 0\<rparr>,
      ap_loop = new_loop ((demo_deps (cf_pairings default_config))\<lparr>de_inv := new_inv_store,
        de_state := new_store demo_persist (Some demo_state)\<rparr>),
      ap_runner = runner_begin (new_runner [KindUDP]), ap_node = ''a'', ap_icmp = new_client (cf_meshping mesh_config),
      ap_served = new_server, ap_registry = new_registry [] (cf_metrics mesh_config) [], ap_seen = 0\<rparr>"

lemma mesh_app_simps [simp]:
  "mg_store (ap_manager mesh_app) = new_inv_store" "ap_node mesh_app = ''a''" "lo_ready (ap_loop mesh_app) = False"
  "lo_last_delta (ap_loop mesh_app) = empty_delta" "lo_ch (ap_loop mesh_app) = None"
  "rn_tasks (ap_runner mesh_app) = []" "de_on_delta (lo_deps (ap_loop mesh_app)) = True"
  "de_state (lo_deps (ap_loop mesh_app)) = new_store demo_persist (Some demo_state)"
  "de_health (lo_deps (ap_loop mesh_app)) = new_tracker (cf_health default_config)"
  "ap_topo mesh_app = \<lparr>tp_rule = demo_rule, tp_filter = \<lparr>pf_include = [], pf_exclude = []\<rparr>, tp_scanner = demo_slots 0\<rparr>"
  "watcher_current (ap_watch mesh_app) = mesh_config" "ap_seen mesh_app = 0"
  "fst ` set (mg_active (ap_manager mesh_app)) = {''file''}"
  by (simp_all add: mesh_app_def new_manager_def new_loop_def demo_deps_def new_runner_def runner_begin_def
      watcher_current_def)

lemma mesh_restored: "restored (load_deps mesh_app) demo_state"
proof -
  have "\<forall>s \<in> set (pg_slots demo_pairing). sl_class s \<noteq> class_super" by code_simp
  then show ?thesis
    by (simp add: restored_def new_store_def demo_state_def new_state_def demo_rule_def mesh_config_def demo_slots_def gm_wf_def
        default_config_def second_def demo_pairing_def)
qed

text \<open>A run that reports no change leaves the tracker and the inventory as the run found them.\<close>

lemma quiet_run_deps:
  assumes "delta_empty (lo_last_delta (fst (run_once now el s)))"
  shows "de_health (lo_deps (fst (run_once now el s))) = run_health now s"
    and "de_inv (lo_deps (fst (run_once now el s))) = snd (inv_snapshot now (de_inv (lo_deps s)))"
proof -
  show "de_health (lo_deps (fst (run_once now el s))) = run_health now s"
  proof (cases "reconcile now el (run_input now s)")
    case (Inl e)
    then show ?thesis by (cases e) (simp add: run_once_eq)
  next
    case (Inr out)
    with assms show ?thesis by (simp add: run_once_eq apply_output_def)
  qed
  show "de_inv (lo_deps (fst (run_once now el s))) = snd (inv_snapshot now (de_inv (lo_deps s)))"
  proof (cases "reconcile now el (run_input now s)")
    case (Inl e)
    then show ?thesis by (cases e) (simp add: run_once_eq run_deps_def)
  next
    case (Inr out)
    with assms show ?thesis by (simp add: run_once_eq apply_output_def run_deps_def)
  qed
qed

definition mesh_health :: tracker where
  "mesh_health =
     snd (tick 1 (observe 1 (fst (inv_snapshot 1 new_inv_store)) (new_tracker (cf_health default_config))))"

lemma mesh_eligible: "eligible_func (snd (tick 1 (observe 1 demo_snap mesh_health))) = all_hosts"
proof -
  have "map (\<lambda>(k, st). (k, st_eligible st)) (tk_hosts (snd (tick 1 (observe 1 demo_snap mesh_health))))
      = [(''a'', True), (''b'', True), (''c'', True)]" by code_simp
  then show ?thesis unfolding eligible_func_def Let_def by (auto simp: all_hosts_def fun_eq_iff)
qed

text \<open>The first run finds no host; then the source delivers.\<close>

lemma mesh_started:
  fixes a :: "(metric \<times> labels) list app"
  defines "a \<equiv> app_step mesh_linked (AStart 1 0) mesh_app"
  shows "delta_empty (lo_last_delta (ap_loop a))" "lo_ready (ap_loop a)" "lo_ch (ap_loop a) = None"
    "de_state (lo_deps (ap_loop a)) = new_store demo_persist (Some demo_state)"
    "de_health (lo_deps (ap_loop a)) = mesh_health"
    "mg_store (ap_manager a) = snd (inv_snapshot 1 new_inv_store)" "mg_active (ap_manager a) = mg_active (ap_manager mesh_app)"
    "ap_topo a = ap_topo mesh_app" "ap_watch a = ap_watch mesh_app" "ap_seen a = 0"
proof -
  let ?s = "(ap_loop mesh_app)\<lparr>lo_deps := load_deps mesh_app\<rparr>"
  have inv: "no_hosts (de_inv (lo_deps ?s))" by (simp add: no_hosts_def new_inv_store_def)
  have st: "restored (lo_deps ?s) demo_state" using mesh_restored by simp
  obtain st' dl snap where out: "outcome (fst (run_once 1 0 ?s)) = (de_published (lo_deps ?s) @ [(dl, st', snap)], demo_state)"
    and ready: "lo_ready (fst (run_once 1 0 ?s))" and dl: "delta_empty (lo_last_delta (fst (run_once 1 0 ?s)))"
    by (rule first_run [OF inv st, of 1 0]) simp_all
  have loop: "ap_loop a = loop_start 1 0 ?s" by (simp add: a_def with_loop_loop loop_first_def)
  have deps: "lo_deps (ap_loop a) = lo_deps (fst (run_once 1 0 ?s))" by (simp add: loop loop_start_def)
  show "delta_empty (lo_last_delta (ap_loop a))" "lo_ready (ap_loop a)"
    using dl ready by (simp_all add: loop loop_start_def)
  show "lo_ch (ap_loop a) = None"
    by (simp add: loop loop_start_def run_once_ch arm_frame)
  show "de_health (lo_deps (ap_loop a)) = mesh_health"
    unfolding deps quiet_run_deps(1) [OF dl] by (simp add: run_health_def mesh_health_def)
  show "de_state (lo_deps (ap_loop a)) = new_store demo_persist (Some demo_state)"
  proof (cases "reconcile 1 0 (run_input 1 ?s)")
    case (Inl e)
    then show ?thesis unfolding deps by (cases e) (simp add: run_once_eq)
  next
    case (Inr o1)
    with dl show ?thesis unfolding deps by (simp add: run_once_eq apply_output_def)
  qed
  have store: "de_inv (lo_deps (fst (run_once 1 0 ?s))) = snd (inv_snapshot 1 new_inv_store)"
    unfolding quiet_run_deps(2) [OF dl] by simp
  have frame: "ap_manager (fold (on_delta ln now) xs b) = ap_manager b \<and> ap_topo (fold (on_delta ln now) xs b) = ap_topo b
      \<and> ap_watch (fold (on_delta ln now) xs b) = ap_watch b \<and> ap_seen (fold (on_delta ln now) xs b) = ap_seen b"
    for ln :: "(metric \<times> labels) list linked" and now xs b
    by (induction xs arbitrary: b) (auto simp: on_delta_def split: prod.split)
  show "mg_store (ap_manager a) = snd (inv_snapshot 1 new_inv_store)" "mg_active (ap_manager a) = mg_active (ap_manager mesh_app)"
    "ap_topo a = ap_topo mesh_app" "ap_watch a = ap_watch mesh_app" "ap_seen a = 0"
    using frame store by (simp_all add: a_def with_loop_def Let_def loop_first_def loop_start_def split: prod.split)
qed

definition mesh_events :: "app_event list" where
  "mesh_events = [ASource (MgEmit ''file'' mesh_set), AWatch, ARecv 1 0]"

lemma mesh_second_run:
  assumes s: "de_inv (lo_deps s) = inv_replace mesh_set new_inv_store" "de_health (lo_deps s) = mesh_health"
    "sr_cur (de_state (lo_deps s)) = demo_state" "de_config (lo_deps s) = mesh_config" "de_rule (lo_deps s) = demo_rule"
    "de_filter (lo_deps s) = Some \<lparr>pf_include = [], pf_exclude = []\<rparr>" "de_scanner (lo_deps s) = demo_slots 0"
  shows "delta_empty (lo_last_delta (fst (run_once 1 0 s)))"
proof -
  let ?j = "mesh_input (Some demo_state) 1" and ?want = "[mk_pairing ''x'' ''y'']"
  have snap: "fst (inv_snapshot 1 (inv_replace mesh_set new_inv_store)) = demo_snap"
    by (simp add: demo_snap_def mesh_set_def inv_snapshot_def inv_replace_def new_inv_store_def Let_def)
  have i: "run_input 1 s = ?j"
    using s mesh_eligible snap
    by (simp add: run_input_def loop_input_def run_deps_def run_health_def mesh_input_def demo_input_def store_current_def
        clone_state_id mesh_config_def)
  have ds: "ms_pairings demo_state = [(''x|y'', demo_pairing)]" "ms_super demo_state = []" "ms_zone_rule demo_state = ''z''"
    "ms_slots_config demo_state = slots_fingerprint (demo_slots 0)" "ru_fp demo_rule = ''z''" "pg_remove_at demo_pairing = 0"
    "he_pairing_removal_hold (cf_health default_config) = 300000000000"
    by (simp_all add: demo_state_def new_state_def demo_rule_def demo_pairing_def default_config_def second_def)
  have "\<exists>out. reconcile 1 0 ?j = Inr out \<and> delta_empty (ro_delta out) \<and> ms_pairings (ro_state out)
      = map (\<lambda>(k, p). (k, marked (\<lambda>k. k \<in> pa_key ` set ?want)
          (ri_now ?j + he_pairing_removal_hold (cf_health (ri_config ?j))) k p)) (ms_pairings demo_state)"
  proof (rule reconcile_marks_only)
    show "pairing_build (zone_build (ri_rule ?j) (ri_snapshot ?j)) (cf_pairings (ri_config ?j)) (ri_filter ?j) = Inr ?want"
      by (simp add: mesh_input_simps demo_zone_build no_patterns demo_want)
    show "\<exists>q. map_of (ms_pairings demo_state) (pa_key p) = Some q
        \<and> want_next (compute_layout (cf_slots (ri_config ?j))) p (Some q) = (q, [])" if "p \<in> set ?want" for p
    proof -
      have rz: "demo_pairing\<lparr>pg_remove_at := 0\<rparr> = demo_pairing" by (simp add: demo_pairing_def)
      from that show ?thesis by (simp add: ds want_next_def mesh_resize rz mesh_input_simps make_key_def)
    qed
    show "quiet ?j (zone_build (ri_rule ?j) (ri_snapshot ?j)) k p"
      if "(k, p) \<in> set (ms_pairings demo_state)" "k \<in> pa_key ` set ?want" for k p
      using that by (auto simp: ds mesh_input_simps demo_zone_build mesh_quiet make_key_def)
    show "(\<forall>s \<in> set (pg_slots p). sl_class s \<noteq> class_super) \<and> (pg_remove_at p = 0 \<or> ri_now ?j < pg_remove_at p)"
      if "(k, p) \<in> set (ms_pairings demo_state)" "k \<notin> pa_key ` set ?want" for k p
      using that by (auto simp: ds make_key_def)
  qed (simp_all add: ds mesh_input_simps gm_wf_Cons demo_slots_def)
  then show ?thesis by (auto simp: run_once_eq i)
qed
text \<open>A source that is active delivers a set.\<close>

lemma emit_step:
  assumes "name \<in> fst ` set (mg_active (ap_manager a))"
    and b: "b = app_step ln (ASource (MgEmit name h)) a"
  shows "mg_store (ap_manager b) = inv_replace (h\<lparr>hs_source := name\<rparr>) (mg_store (ap_manager a))"
    and "ap_loop b = ap_loop a" "ap_topo b = ap_topo a" "ap_watch b = ap_watch a" "ap_seen b = ap_seen a"
    and "ap_runner b = ap_runner a"
  using assms by (simp_all add: with_manager_def Let_def sink_replace_def)

lemma watch_step_simps:
  assumes "inv_generation (mg_store (ap_manager a)) \<noteq> ap_seen a"
  shows "ap_loop (watch_inventory a) = send_trigger TriggerProvider (ap_loop a)"
    "ap_topo (watch_inventory a) = ap_topo a" "ap_watch (watch_inventory a) = ap_watch a"
    "ap_manager (watch_inventory a) = ap_manager a"
    "ap_seen (watch_inventory a) = inv_generation (mg_store (ap_manager a))"
  using assms by (simp_all add: watch_inventory_def Let_def trigger_app_def)

theorem restart_starts_no_task_witness:
  "rn_tasks (ap_runner (fold (app_step mesh_linked) mesh_events (app_step mesh_linked (AStart 1 0) mesh_app))) = []
   \<and> sr_cur (de_state (lo_deps (ap_loop (fold (app_step mesh_linked) mesh_events (app_step mesh_linked (AStart 1 0) mesh_app)))))
       = demo_state
   \<and> wanted_tasks mesh_config ''a'' demo_state demo_snap \<noteq> []"
proof -
  define a where "a = app_step mesh_linked (AStart 1 0) mesh_app"
  define b where "b = app_step mesh_linked (ASource (MgEmit ''file'' mesh_set)) a"
  define c where "c = app_step mesh_linked AWatch b"
  note a = mesh_started [folded a_def]
  have hs: "mesh_set\<lparr>hs_source := ''file''\<rparr> = mesh_set" by (simp add: mesh_set_def)
  have "''file'' \<in> fst ` set (mg_active (ap_manager a))" unfolding a(7) by simp
  note b = emit_step [OF this b_def, unfolded hs]
  have store: "mg_store (ap_manager b) = inv_replace mesh_set new_inv_store"
    unfolding b(1) a(6) by (simp add: inv_replace_def inv_snapshot_def new_inv_store_def Let_def)
  have gen: "inv_generation (mg_store (ap_manager b)) = 1"
    unfolding store by (simp add: inv_generation_def inv_replace_def new_inv_store_def)
  then have "inv_generation (mg_store (ap_manager b)) \<noteq> ap_seen b" unfolding b(5) a(10) by simp
  note w = watch_step_simps [OF this]
  have c: "ap_loop c = (ap_loop a)\<lparr>lo_ch := Some TriggerProvider\<rparr>" "ap_topo c = ap_topo mesh_app"
    "ap_watch c = ap_watch mesh_app" "mg_store (ap_manager c) = inv_replace mesh_set new_inv_store"
    unfolding c_def app_step.simps(12) w b(2-4) store a(8,9) send_trigger_def a(3) option.case by (rule refl)+
  let ?s = "(ap_loop c)\<lparr>lo_deps := load_deps c, lo_ch := None\<rparr>"
  have "delta_empty (lo_last_delta (fst (run_once 1 0 ?s)))"
    by (rule mesh_second_run) (simp_all add: c a new_store_def)
  moreover have "ap_loop (app_step mesh_linked (ARecv 1 0) c) = arm_deadline 1 (fst (run_once 1 0 ?s))"
    by (simp add: with_loop_loop loop_recv_def on_recv_def c)
  ultimately have d: "delta_empty (lo_last_delta (ap_loop (app_step mesh_linked (ARecv 1 0) c)))" by simp
  have lc: "lo_last_delta (ap_loop c) = lo_last_delta (ap_loop a)" by (simp add: c(1))
  have e: "delta_empty (lo_last_delta (ap_loop (fold (app_step mesh_linked) (take n mesh_events) a)))" if "n \<le> 3" for n
  proof -
    from that consider "n = 0" | "n = 1" | "n = 2" | "n = 3" by linarith
    then show ?thesis
      using a(1) d b(2) lc unfolding c_def b_def by cases (simp_all only: mesh_events_def take_0 take_Suc_Cons fold_simps One_nat_def
          numeral_2_eq_2 numeral_3_eq_3 loop_state.simps)
  qed
  have inv: "no_hosts (mg_store (ap_manager mesh_app))" by (simp add: no_hosts_def new_inv_store_def)
  have l: "length mesh_events = 3" by (simp add: mesh_events_def)
  have q: "\<forall>n \<le> length mesh_events. delta_empty (lo_last_delta (ap_loop (fold (app_step mesh_linked) (take n mesh_events) a)))"
    unfolding l using e by blast
  have start: "\<not> lo_ready (ap_loop mesh_app)" "de_on_delta (lo_deps (ap_loop mesh_app))" "rn_tasks (ap_runner mesh_app) = []"
    by simp_all
  from restart_starts_no_task [OF inv mesh_restored zero_less_one start q [unfolded a_def]] mesh_wanted show ?thesis by blast
qed

section \<open>A configuration that passes validation and cannot be built\<close>

text \<open>
  C25: validation accepts configurations that the daemon cannot use. Let the file load, with a zone rule or
  a pairing pattern that does not compile. \<open>meshd -check\<close> calls it valid and exits with 0, while a start
  with it fails with 3. When a running daemon picks the file up, the watcher makes it the current
  configuration, and the goroutine that applies it stops at the error: the compiled rule, filter and
  scanner, the settings of the health tracker, the sources and the pending trigger stay as they were. From then on the
  loop reconciles with the settings of the new configuration and the zones and pairings of the old one.
\<close>

theorem accepted_configuration_not_applied:
  assumes load: "load_config (ln_decode ln) hostname (wa_path (ap_watch a)) (cv_data cv) = Inr cfg"
    and bad: "build_topology (ln_regex ln) cfg = Inl e"
    and stat: "cv_stat cv = Some (mtime, sz)" and new: "\<not> config_equal (Some (wa_cur (ap_watch a))) (Some cfg)"
    and subs: "wa_subs (ap_watch a) = [ch]"
    and b: "b = fold (app_step ln) [AReload hostname cv True, AConfig now slow] a"
  shows "meshd_main False True (Inr cfg) (build_app ln env stat' saved fresh path) run = (PrintValid, 0)
    \<and> meshd_main False False (Inr cfg) (build_app ln env stat' saved fresh path) run = (PrintNothing, 3)
    \<and> de_config (load_deps b) = cfg \<and> wa_subs (ap_watch b) = [None]
    \<and> ap_topo b = ap_topo a \<and> ap_loop b = ap_loop a \<and> ap_manager b = ap_manager a
    \<and> de_rule (load_deps b) = tp_rule (ap_topo a) \<and> de_filter (load_deps b) = Some (tp_filter (ap_topo a))"
proof -
  let ?w = "(ap_watch a)\<lparr>wa_mtime := mtime, wa_size := sz, wa_cur := cfg, wa_subs := [Some cfg]\<rparr>"
  have w: "watcher_reload (ln_decode ln) hostname cv True (ap_watch a) = ?w"
    using load stat new subs by (simp add: watcher_reload_def watcher_publish_def)
  have "b = a\<lparr>ap_watch := ?w\<lparr>wa_subs := [None]\<rparr>\<rparr>"
    using bad by (simp add: b w take_config_def on_config_def)
  then show ?thesis using bad by (simp add: meshd_main_def build_app_def load_deps_def watcher_current_def)
qed

text \<open>An unknown transform in the zone rule.\<close>

definition unbuildable :: config where
  "unbuildable =
     default_config\<lparr>cf_node_id := ''n1'',
       cf_providers := (cf_providers default_config)\<lparr>pv_file := (pv_file (cf_providers default_config))\<lparr>fc_enabled := True\<rparr>\<rparr>,
       cf_zone := (cf_zone default_config)\<lparr>zc_keys := [\<lparr>zk_key = ''metro'', zk_transform = ''lowr''\<rparr>]\<rparr>\<rparr>"

definition unbuildable_linked :: "(metric \<times> labels) list linked" where
  "unbuildable_linked = mesh_linked\<lparr>ln_decode := (\<lambda>_ _. Some unbuildable)\<rparr>"

theorem accepted_configuration_not_applied_witness:
  "\<exists>b. b = fold (app_step unbuildable_linked)
        [AReload None \<lparr>cv_stat = Some (9, 9), cv_data = Some []\<rparr> True, AConfig 1 (\<lambda>_. False)]
        (mesh_app\<lparr>ap_watch := subscribe (ap_watch mesh_app)\<rparr>)
     \<and> de_config (load_deps b) = unbuildable \<and> de_rule (load_deps b) = demo_rule"
proof -
  let ?a = "mesh_app\<lparr>ap_watch := subscribe (ap_watch mesh_app)\<rparr>" and ?cv = "\<lparr>cv_stat = Some (9, 9), cv_data = Some []\<rparr>"
  have "parse_config None unbuildable = Inr unbuildable" by code_simp
  then have load: "load_config (ln_decode unbuildable_linked) None (wa_path (ap_watch ?a)) (cv_data ?cv) = Inr unbuildable"
    by (simp add: load_config_def unbuildable_linked_def)
  have "case build_topology (ln_regex unbuildable_linked) unbuildable of
      Inl e \<Rightarrow> e = BadZone (ZoneTransformBad 0 UnknownTransform) | Inr _ \<Rightarrow> False"
    by code_simp
  then have bad: "build_topology (ln_regex unbuildable_linked) unbuildable = Inl (BadZone (ZoneTransformBad 0 UnknownTransform))"
    by (simp split: sum.splits)
  have new: "\<not> config_equal (Some (wa_cur (ap_watch ?a))) (Some unbuildable)"
  proof -
    have cur: "wa_cur (ap_watch ?a) = mesh_config" by (simp add: mesh_app_def subscribe_def)
    have "cf_node_id mesh_config \<noteq> cf_node_id unbuildable" by code_simp
    then show ?thesis unfolding cur config_equal_def by (auto dest: arg_cong [of _ _ cf_node_id])
  qed
  have subs: "wa_subs (ap_watch ?a) = [None]" by (simp add: mesh_app_def subscribe_def)
  have stat: "cv_stat ?cv = Some (9, 9)" by simp
  obtain b where b: "b = fold (app_step unbuildable_linked) [AReload None ?cv True, AConfig 1 (\<lambda>_. False)] ?a" by blast
  have "tp_rule (ap_topo ?a) = demo_rule" by simp
  with accepted_configuration_not_applied [OF load bad stat new subs b] show ?thesis using b by auto
qed

end
