(* ===== verification/Api.thy ===== *)
theory Api
  imports Daemon
begin

text \<open>
  Models \<open>internal/api/api.go\<close>: the HTTP surface of the daemon. A handler is a function of the running daemon
  \<open>app\<close>; its reply is the status and the value it gives to \<open>writeJSON\<close>, or None when the encoder refuses that
  value: \<open>encoding/json\<close> writes nothing then, and \<open>writeJSON\<close> drops the error. The text of the JSON, the listener
  and its shutdown are not modelled, and a request has a path that \<open>ServeMux\<close> leaves as it is. The lemmas show what a read may change,
  that no read shows the secret of the HTTP provider, and which replies arrive empty.
\<close>

section \<open>Replies\<close>

record request =
  rq_post :: bool
  rq_path :: string
  rq_source :: string

record about =
  ab_version :: string
  ab_started :: time

record pairing_view =
  pw_key :: string
  pw_zone_a :: string
  pw_zone_b :: string
  pw_slots :: nat
  pw_filled :: nat
  pw_remove_at :: time

datatype 'p api_body =
    BMetrics 'p
  | BIndex string string time dur "string list"
  | BState mesh_state store_stats time recon_stats delta
  | BInventory "64 word" time nat "source_status list" "(host_record \<times> string) list"
  | BZones string "(string \<times> string list \<times> nat) list" "unresolved list"
  | BPairings "pairing_view list" "(string, string list) gomap"
  | BHealth "hstatus list" "(string, nat) gomap"
  | BTasks string "task_info list"
  | BConfig config
  | BUsePost
  | BConflict pairing_error recon_stats
  | BReconciled delta recon_stats
  | BNoSource prov_error
  | BRefreshing
  | BLive
  | BReady bool nat bool

text \<open>
  The encoder accepts a map whose keys are strings or integers and refuses any other key type, also of an
  empty map. \<open>body_keys\<close> lists the key types of the maps it meets in a reply; the maps of a task are the
  percentiles of its statistics, by quantile, and its errors, by class.
\<close>

datatype key_type = KeyText | KeyInteger | KeyFloat

fun key_encodes :: "key_type \<Rightarrow> bool" where
  "key_encodes KeyFloat = False"
| "key_encodes KeyInteger = True"
| "key_encodes KeyText = True"

definition stats_keys :: "pstats \<Rightarrow> key_type list" where
  "stats_keys st = [KeyFloat, KeyText]"

definition recon_keys :: "recon_stats \<Rightarrow> key_type list" where
  "recon_keys st = [KeyText, KeyInteger]"

fun body_keys :: "'p api_body \<Rightarrow> key_type list" where
  "body_keys (BState ms ps t st dl) = [KeyText, KeyText, KeyText] @ recon_keys st"
| "body_keys (BInventory g t c srcs hosts) = KeyText # map (\<lambda>_. KeyText) hosts"
| "body_keys (BHealth hosts counts) = [KeyText, KeyText]"
| "body_keys (BPairings ps sups) = [KeyText, KeyText]"
| "body_keys (BTasks node infos) = KeyText # concat (map (stats_keys \<circ> ti_stats) infos)"
| "body_keys (BConflict e st) = KeyText # recon_keys st"
| "body_keys (BReconciled dl st) = KeyText # recon_keys st"
| "body_keys b = [KeyText]"

type_synonym 'p api_reply = "int \<times> 'p api_body option"

definition write_json :: "int \<Rightarrow> 'p api_body \<Rightarrow> 'p api_reply" where
  "write_json code b = (code, if list_all key_encodes (body_keys b) then Some b else None)"

section \<open>Handlers that read\<close>

definition endpoints :: "string list" where
  "endpoints = [''/metrics'', ''/state'', ''/inventory'', ''/zones'', ''/pairings'', ''/health'', ''/tasks'', ''/config'',
     ''/reconcile'', ''/refresh'', ''/livez'', ''/readyz'']"

definition handle_index :: "about \<Rightarrow> time \<Rightarrow> 'p app \<Rightarrow> 'p api_reply" where
  "handle_index ab now a =
     write_json 200 (BIndex (ab_version ab) (cf_node_id (watcher_current (ap_watch a))) (ab_started ab)
       (go_div (tm_sub now (ab_started ab)) second * second) endpoints)"

definition handle_state :: "time \<Rightarrow> 'p app \<Rightarrow> 'p api_reply" where
  "handle_state now a =
     (let s = ap_loop a; st = de_state (lo_deps s)
      in write_json 200 (BState (store_current st) (store_stats_of now st) (lo_last_at s) (lo_last_stats s)
           (lo_last_delta s)))"

text \<open>Reading the inventory may build the view that the store keeps.\<close>

definition read_snapshot :: "time \<Rightarrow> 'p app \<Rightarrow> snapshot \<times> 'p app" where
  "read_snapshot now a =
     (case inv_snapshot now (mg_store (ap_manager a)) of
        (snap, s) \<Rightarrow> (snap, a\<lparr>ap_manager := (ap_manager a)\<lparr>mg_store := s\<rparr>\<rparr>))"

definition handle_inventory :: "time \<Rightarrow> 'p app \<Rightarrow> 'p api_reply \<times> 'p app" where
  "handle_inventory now a =
     (let (snap, a1) = read_snapshot now a;
          rule = tp_rule (ap_topo a1);
          out = map (\<lambda>h. (h, case apply_rule rule h of Some k \<Rightarrow> k | None \<Rightarrow> [])) (sn_hosts snap);
          (sources, m) = manager_status now (ap_manager a1)
      in (write_json 200 (BInventory (sn_generation snap) (sn_taken_at snap) (sn_collisions snap) sources out),
          a1\<lparr>ap_manager := m\<rparr>))"

definition handle_zones :: "time \<Rightarrow> 'p app \<Rightarrow> 'p api_reply \<times> 'p app" where
  "handle_zones now a =
     (let (snap, a1) = read_snapshot now a;
          idx = zone_build (tp_rule (ap_topo a1)) snap;
          members = (\<lambda>k. case map_of (zi_members idx) k of Some ms \<Rightarrow> ms | None \<Rightarrow> [])
      in (write_json 200 (BZones (ru_desc (tp_rule (ap_topo a1)))
            (map (\<lambda>k. (k, members k, length (members k))) (zi_zones idx)) (zi_unresolved idx)), a1))"

definition pairing_view_of :: "string \<times> pairing_rec \<Rightarrow> pairing_view" where
  "pairing_view_of kp =
     (case kp of (key, pr) \<Rightarrow>
        \<lparr>pw_key = key, pw_zone_a = pg_zone_a pr, pw_zone_b = pg_zone_b pr, pw_slots = length (pg_slots pr),
         pw_filled = length (filter filled (pg_slots pr)), pw_remove_at = pg_remove_at pr\<rparr>)"

definition handle_pairings :: "'p app \<Rightarrow> 'p api_reply" where
  "handle_pairings a =
     (let st = store_current (de_state (lo_deps (ap_loop a)))
      in write_json 200 (BPairings (map pairing_view_of (ms_pairings st)) (ms_super st)))"

definition counts_by_name :: "tracker \<Rightarrow> (string, nat) gomap" where
  "counts_by_name t = fold (\<lambda>(st, n) m. AList.update (state_string st) n m) (state_counts t) []"

definition handle_health :: "'p app \<Rightarrow> 'p api_reply" where
  "handle_health a =
     (let t = de_health (lo_deps (ap_loop a)) in write_json 200 (BHealth (all_status t) (counts_by_name t)))"

text \<open>The statistics of a window drop its old entries first.\<close>

definition handle_tasks :: "time \<Rightarrow> 'p app \<Rightarrow> 'p api_reply \<times> 'p app" where
  "handle_tasks now a =
     (let cfg = watcher_current (ap_watch a); qs = mc_percentiles (cf_metrics cfg); r = ap_runner a
      in (write_json 200 (BTasks (cf_node_id cfg) (runner_tasks now qs r)),
          a\<lparr>ap_runner := r\<lparr>rn_tasks :=
              map (\<lambda>(k, t). (k, t\<lparr>rt_window := snd (window_stats now qs (rt_window t))\<rparr>)) (rn_tasks r)\<rparr>\<rparr>))"

definition handle_config :: "'p app \<Rightarrow> 'p api_reply" where
  "handle_config a = write_json 200 (BConfig (redacted (watcher_current (ap_watch a))))"

definition handle_livez :: "'p api_reply" where
  "handle_livez = write_json 200 BLive"

definition handle_readyz :: "time \<Rightarrow> 'p app \<Rightarrow> 'p api_reply \<times> 'p app" where
  "handle_readyz now a =
     (let (snap, a1) = read_snapshot now a;
          n = length (sn_hosts snap);
          ready = (n > 0 \<and> lo_ready (ap_loop a1))
      in (write_json (if ready then 200 else 503) (BReady ready n (lo_ready (ap_loop a1))), a1))"

section \<open>Handlers that act\<close>

definition handle_reconcile :: "'p linked \<Rightarrow> time \<Rightarrow> dur \<Rightarrow> bool \<Rightarrow> 'p app \<Rightarrow> 'p api_reply \<times> 'p app" where
  "handle_reconcile ln now el post a =
     (if \<not> post then (write_json 405 BUsePost, a)
      else (case snd (run_once now el ((ap_loop a)\<lparr>lo_deps := load_deps a\<rparr>)) of
              (dl, stats, Some e) \<Rightarrow> write_json 409 (BConflict e stats)
            | (dl, stats, None) \<Rightarrow> write_json 200 (BReconciled dl stats),
            with_loop ln now (loop_now now el) a))"

definition handle_refresh :: "'p linked \<Rightarrow> bool \<Rightarrow> string \<Rightarrow> 'p app \<Rightarrow> 'p api_reply \<times> 'p app" where
  "handle_refresh ln post source a =
     (if \<not> post then (write_json 405 BUsePost, a)
      else (case snd (manager_refresh source_refresh source (ap_manager a)) of
              Some e \<Rightarrow> write_json 404 (BNoSource e)
            | None \<Rightarrow> write_json 202 BRefreshing,
            with_manager ln (mgr_step (MgRefresh source_refresh source)) a))"

text \<open>\<open>routes\<close>: a path that is not registered goes to the index.\<close>

definition serve :: "'p linked \<Rightarrow> about \<Rightarrow> time \<Rightarrow> dur \<Rightarrow> request \<Rightarrow> 'p app \<Rightarrow> 'p api_reply \<times> 'p app" where
  "serve ln ab now el rq a =
     (if rq_path rq = ''/metrics'' then ((200, Some (BMetrics (rg_lib (ap_registry a)))), a)
      else if rq_path rq = ''/state'' then (handle_state now a, a)
      else if rq_path rq = ''/inventory'' then handle_inventory now a
      else if rq_path rq = ''/zones'' then handle_zones now a
      else if rq_path rq = ''/pairings'' then (handle_pairings a, a)
      else if rq_path rq = ''/health'' then (handle_health a, a)
      else if rq_path rq = ''/tasks'' then handle_tasks now a
      else if rq_path rq = ''/config'' then (handle_config a, a)
      else if rq_path rq = ''/reconcile'' then handle_reconcile ln now el (rq_post rq) a
      else if rq_path rq = ''/refresh'' then handle_refresh ln (rq_post rq) (rq_source rq) a
      else if rq_path rq = ''/livez'' then (handle_livez, a)
      else if rq_path rq = ''/readyz'' then handle_readyz now a
      else (handle_index ab now a, a))"

section \<open>Replies that arrive empty\<close>

lemma write_json_body [simp]: "snd (write_json code b) = (if list_all key_encodes (body_keys b) then Some b else None)"
  by (simp add: write_json_def)

lemma task_keys: "list_all key_encodes (body_keys (BTasks node infos)) \<longleftrightarrow> infos = []"
  by (cases infos) (simp_all add: stats_keys_def)

lemma runner_tasks_Nil: "runner_tasks now qs r = [] \<longleftrightarrow> rn_tasks r = []"
  by (metis length_0_conv length_map length_sort runner_tasks_def)

lemma handler_bodies:
  "snd (handle_index ab now a) \<noteq> None" "snd (handle_state now a) \<noteq> None" "snd (handle_pairings a) \<noteq> None"
  "snd (handle_health a) \<noteq> None" "snd (handle_config a) \<noteq> None" "snd handle_livez \<noteq> None"
  "snd (fst (handle_inventory now a)) \<noteq> None" "snd (fst (handle_zones now a)) \<noteq> None"
  "snd (fst (handle_readyz now a)) \<noteq> None" "snd (fst (handle_reconcile ln now el post a)) \<noteq> None"
  "snd (fst (handle_refresh ln post src a)) \<noteq> None"
  by (simp_all add: handle_index_def handle_state_def handle_pairings_def handle_health_def handle_config_def
      handle_livez_def handle_inventory_def handle_zones_def handle_readyz_def handle_reconcile_def handle_refresh_def
      recon_keys_def Let_def list_all_iff split: prod.split option.split)

text \<open>
  The one reply that never arrives is the one that shows what the node measures. Every handler answers with
  a body, except \<open>/tasks\<close> while any task is running: the statistics of a task hold a map keyed by \<open>float64\<close>, which
  \<open>encoding/json\<close> refuses, the encoder writes nothing, and \<open>writeJSON\<close> drops its error after it has sent
  the status 200. The daemon whose table gives it no task is the only one that \<open>/tasks\<close> answers.
\<close>

theorem reply_without_body:
  "snd (fst (serve ln ab now el rq a)) = None \<longleftrightarrow> rq_path rq = ''/tasks'' \<and> rn_tasks (ap_runner a) \<noteq> []"
proof -
  have "snd (fst (handle_tasks now a)) = None \<longleftrightarrow> rn_tasks (ap_runner a) \<noteq> []"
    by (simp add: handle_tasks_def Let_def task_keys runner_tasks_Nil del: body_keys.simps)
  then show ?thesis by (simp add: serve_def handler_bodies del: not_None_eq)
qed

section \<open>What a read changes\<close>

definition rq_acts :: "request \<Rightarrow> bool" where
  "rq_acts rq \<longleftrightarrow> rq_post rq \<and> rq_path rq \<in> {''/reconcile'', ''/refresh''}"

lemma dropWhile_dropWhile: "(\<And>x. P x \<Longrightarrow> Q x) \<Longrightarrow> dropWhile Q (dropWhile P xs) = dropWhile Q xs"
  by (induction xs) auto

lemma drop_again:
  "now \<le> later \<Longrightarrow>
     dropWhile (\<lambda>e. f e < later - d) (dropWhile (\<lambda>e. f e < now - d) xs) = dropWhile (\<lambda>e. f e < later - (d :: dur)) xs"
  by (rule dropWhile_dropWhile) simp

lemma expire_expire: "now \<le> later \<Longrightarrow> window_expire later (window_expire now w) = window_expire later w"
  by (simp add: window_expire_def Let_def drop_again)

lemma stats_again: "now \<le> later \<Longrightarrow> window_stats later qs (snd (window_stats now qs' w)) = window_stats later qs w"
  by (simp add: window_stats_def Let_def expire_expire)

text \<open>What of the store of the inventory is seen: its sets, its generation and its view.\<close>

definition same_view :: "inv_store \<Rightarrow> inv_store \<Rightarrow> bool" where
  "same_view s s' \<longleftrightarrow> is_sets s' = is_sets s \<and> is_gen s' = is_gen s
     \<and> (\<forall>t. sn_hosts (fst (inv_snapshot t s')) = sn_hosts (fst (inv_snapshot t s))
          \<and> sn_generation (fst (inv_snapshot t s')) = sn_generation (fst (inv_snapshot t s)))"

lemma same_view_refl [simp]: "same_view s s"
  by (simp add: same_view_def)

lemma same_view_snapshot: "same_view s (snd (inv_snapshot now s))"
  by (auto simp: same_view_def inv_snapshot_def build_snapshot_def Let_def split: option.splits prod.splits)

text \<open>The parts of the daemon that a read leaves as they are.\<close>

definition same_daemon :: "time \<Rightarrow> 'p app \<Rightarrow> 'p app \<Rightarrow> bool" where
  "same_daemon now a b \<longleftrightarrow>
     same_view (mg_store (ap_manager a)) (mg_store (ap_manager b))
     \<and> b = a\<lparr>ap_manager := (ap_manager a)\<lparr>mg_store := mg_store (ap_manager b)\<rparr>,
            ap_runner := (ap_runner a)\<lparr>rn_tasks := rn_tasks (ap_runner b)\<rparr>\<rparr>
     \<and> map fst (rn_tasks (ap_runner b)) = map fst (rn_tasks (ap_runner a))
     \<and> (\<forall>later \<ge> now. \<forall>qs. runner_tasks later qs (ap_runner b) = runner_tasks later qs (ap_runner a))"

lemma same_daemon_refl [simp]: "same_daemon now a a"
  by (simp add: same_daemon_def)

lemma same_daemon_store:
  "same_view (mg_store (ap_manager a)) s \<Longrightarrow> same_daemon now a (a\<lparr>ap_manager := (ap_manager a)\<lparr>mg_store := s\<rparr>\<rparr>)"
  by (simp add: same_daemon_def)

lemma reading_handlers:
  "same_daemon now a (snd (handle_zones now a))" "same_daemon now a (snd (handle_readyz now a))"
  "same_daemon now a (snd (handle_inventory now a))" "same_daemon now a (snd (handle_tasks now a))"
proof -
  note view = same_view_snapshot [of "mg_store (ap_manager a)" now]
  show "same_daemon now a (snd (handle_zones now a))" "same_daemon now a (snd (handle_readyz now a))"
    using same_daemon_store [OF view, of now]
    by (simp_all add: handle_zones_def handle_readyz_def read_snapshot_def Let_def case_prod_beta)
  have "snd (inv_snapshot now (snd (inv_snapshot now s))) = snd (inv_snapshot now s)" for s
    by (simp add: inv_snapshot_def Let_def split: option.split)
  then show "same_daemon now a (snd (handle_inventory now a))"
    using same_daemon_store [OF view, of now]
    by (simp add: handle_inventory_def manager_status_def read_snapshot_def Let_def case_prod_beta)
  show "same_daemon now a (snd (handle_tasks now a))"
    by (auto simp: same_daemon_def handle_tasks_def Let_def runner_tasks_def task_info_of_def stats_again
        intro!: arg_cong [where f = "sort_key ti_key"])
qed

text \<open>
  A request changes the daemon only when it is a POST to \<open>/reconcile\<close> or \<open>/refresh\<close>. After any other one, with
  any method, the configuration, the topology, the loop, the tracker and the state, the counters and the metrics are what they were;
  the inventory shows the same hosts under the same generation at every later read, and the same tasks run with the
  same statistics at every later time, though a read of \<open>/tasks\<close> drops the old samples of their windows.
\<close>

theorem reads_leave_daemon:
  assumes "\<not> rq_acts rq"
  shows "same_daemon now a (snd (serve ln ab now el rq a))"
  using assms reading_handlers by (auto simp: serve_def rq_acts_def handle_reconcile_def handle_refresh_def)

definition api_request :: "bool \<Rightarrow> string \<Rightarrow> request" where
  "api_request post path = \<lparr>rq_post = post, rq_path = path, rq_source = []\<rparr>"

theorem reads_leave_daemon_witness:
  "same_daemon 1 mesh_app (snd (serve mesh_linked \<lparr>ab_version = ''dev'', ab_started = 0\<rparr> 1 0 (api_request False ''/reconcile'') mesh_app))
   \<and> same_daemon 1 mesh_app (snd (serve mesh_linked \<lparr>ab_version = ''dev'', ab_started = 0\<rparr> 1 0 (api_request True ''/readyz'') mesh_app))"
proof -
  have "\<not> rq_acts (api_request False ''/reconcile'')" "\<not> rq_acts (api_request True ''/readyz'')"
    by (simp_all add: rq_acts_def api_request_def)
  then show ?thesis by (blast intro: reads_leave_daemon)
qed

section \<open>The secret of the HTTP provider\<close>

definition with_header :: "string \<Rightarrow> 'p app \<Rightarrow> 'p app" where
  "with_header x a =
     (let w = ap_watch a; c = wa_cur w; p = cf_providers c
      in a\<lparr>ap_watch := w\<lparr>wa_cur := c\<lparr>cf_providers := p\<lparr>pv_http := (pv_http p)\<lparr>hc_auth_header := x\<rparr>\<rparr>\<rparr>\<rparr>\<rparr>)"

text \<open>
  No read shows the authorization header of the HTTP provider. Two daemons whose configurations differ only in
  that header, both with one, answer every request that does not act alike, \<open>/config\<close> included.
\<close>

theorem secret_not_served:
  assumes "\<not> rq_acts rq" and "x \<noteq> []" "y \<noteq> []"
  shows "fst (serve ln ab now el rq (with_header x a)) = fst (serve ln ab now el rq (with_header y a))"
proof -
  have "redacted (watcher_current (ap_watch (with_header x a))) = redacted (watcher_current (ap_watch (with_header y a)))"
    using assms by (simp add: with_header_def redacted_def watcher_current_def Let_def)
  then have conf: "handle_config (with_header x a) = handle_config (with_header y a)" by (simp add: handle_config_def)
  have parts: "ap_manager (with_header z a) = ap_manager a" "ap_topo (with_header z a) = ap_topo a"
    "ap_loop (with_header z a) = ap_loop a" "ap_runner (with_header z a) = ap_runner a"
    "ap_registry (with_header z a) = ap_registry a"
    "cf_node_id (watcher_current (ap_watch (with_header z a))) = cf_node_id (watcher_current (ap_watch a))"
    "cf_metrics (watcher_current (ap_watch (with_header z a))) = cf_metrics (watcher_current (ap_watch a))" for z
    by (simp_all add: with_header_def watcher_current_def Let_def)
  have "fst (handle_tasks now (with_header x a)) = fst (handle_tasks now (with_header y a))"
    "fst (handle_zones now (with_header x a)) = fst (handle_zones now (with_header y a))"
    "fst (handle_inventory now (with_header x a)) = fst (handle_inventory now (with_header y a))"
    "fst (handle_readyz now (with_header x a)) = fst (handle_readyz now (with_header y a))"
    by (simp_all add: handle_tasks_def handle_zones_def handle_inventory_def handle_readyz_def read_snapshot_def
        parts Let_def case_prod_beta)
  then show ?thesis
    using assms(1) conf
    by (auto simp: serve_def rq_acts_def handle_reconcile_def handle_refresh_def handle_state_def handle_pairings_def
        handle_health_def handle_index_def parts)
qed

theorem secret_not_served_witness:
  "fst (serve mesh_linked \<lparr>ab_version = ''dev'', ab_started = 0\<rparr> 1 0 (api_request False ''/config'') (with_header ''Bearer s3'' mesh_app))
   = fst (serve mesh_linked \<lparr>ab_version = ''dev'', ab_started = 0\<rparr> 1 0 (api_request False ''/config'') (with_header ''Bearer t4'' mesh_app))"
  by (rule secret_not_served) (simp_all add: rq_acts_def api_request_def)


end
