(* ===== verification/Exposition.thy ===== *)
theory Exposition
  imports Daemon
begin

text \<open>
  Models the declarations of \<open>internal/metrics/metrics.go\<close>: the name, the kind and the label names of every
  metric, as \<open>New\<close> hands them to the factory, and the buckets of the histograms. The library panics when
  a child is asked for with other labels than declared, when a counter is decreased, and when the
  buckets of a histogram do not increase. The lemmas show which calls of the running daemon can make it panic.
\<close>

section \<open>Declarations\<close>

datatype vec_kind = CounterVec | GaugeVec | HistogramVec

definition probe_label_names :: "string list" where
  "probe_label_names =
     [''zone_src'', ''zone_dst'', ''host_src'', ''host_dst'', ''slot'', ''class'', ''reuse_rank'', ''probe'']"

text \<open>A metric without labels is a vector with no label name and one child.\<close>

fun declared :: "metric \<Rightarrow> string \<times> vec_kind \<times> string list" where
  "declared MRtt = (''mesh_rtt_seconds'', HistogramVec, probe_label_names)"
| "declared MRttMin = (''mesh_rtt_min_seconds'', GaugeVec, probe_label_names)"
| "declared MRttMax = (''mesh_rtt_max_seconds'', GaugeVec, probe_label_names)"
| "declared MRttMean = (''mesh_rtt_mean_seconds'', GaugeVec, probe_label_names)"
| "declared MRttQuantile = (''mesh_rtt_quantile_seconds'', GaugeVec, probe_label_names @ [''quantile''])"
| "declared MJitter = (''mesh_jitter_seconds'', GaugeVec, probe_label_names)"
| "declared MLoss = (''mesh_loss_ratio'', GaugeVec, probe_label_names)"
| "declared MSent = (''mesh_packets_sent_total'', CounterVec, probe_label_names)"
| "declared MReceived = (''mesh_packets_received_total'', CounterVec, probe_label_names)"
| "declared MLost = (''mesh_packets_lost_total'', CounterVec, probe_label_names)"
| "declared MReorder = (''mesh_reorder_total'', CounterVec, probe_label_names)"
| "declared MTcpConnect = (''mesh_tcp_connect_seconds'', HistogramVec, probe_label_names)"
| "declared MProbeErrors = (''mesh_probe_errors_total'', CounterVec, probe_label_names @ [''err_class''])"
| "declared MLastSuccess = (''mesh_probe_last_success_timestamp_seconds'', GaugeVec, probe_label_names)"
| "declared MHosts = (''mesh_hosts_total'', GaugeVec, [''source'', ''state''])"
| "declared MHostsUnres = (''mesh_hosts_unresolved'', GaugeVec, [])"
| "declared MZones = (''mesh_zones_total'', GaugeVec, [])"
| "declared MPairings = (''mesh_pairings_total'', GaugeVec, [])"
| "declared MSlots = (''mesh_slots_total'', GaugeVec, [''class''])"
| "declared MSlotsUnfilled = (''mesh_slots_unfilled'', GaugeVec, [])"
| "declared MSlotChanges = (''mesh_slot_changes_total'', CounterVec, [''reason''])"
| "declared MReconcileDur = (''mesh_reconcile_duration_seconds'', HistogramVec, [])"
| "declared MReconcileTotal = (''mesh_reconcile_total'', CounterVec, [''trigger''])"
| "declared MReconcileErrs = (''mesh_reconcile_errors_total'', CounterVec, [])"
| "declared MProviderFetch = (''mesh_provider_fetch_total'', CounterVec, [''source'', ''result''])"
| "declared MProviderCache = (''mesh_provider_cache_age_seconds'', GaugeVec, [''source''])"
| "declared MProviderSuccess = (''mesh_provider_last_success_timestamp_seconds'', GaugeVec, [''source''])"
| "declared MPersistTotal = (''mesh_state_persist_total'', GaugeVec, [])"
| "declared MPersistFails = (''mesh_state_persist_failures_total'', GaugeVec, [])"
| "declared MPersistDirty = (''mesh_state_dirty'', GaugeVec, [])"
| "declared MStateReset = (''mesh_state_reset_total'', CounterVec, [])"
| "declared MIcmpAvailable = (''mesh_icmp_available'', GaugeVec, [])"
| "declared MPingRestarts = (''mesh_meshping_restarts_total'', GaugeVec, [])"
| "declared MTasksRunning = (''mesh_tasks_running'', GaugeVec, [])"
| "declared MSeriesCount = (''mesh_series_count'', GaugeVec, [])"
| "declared MSeriesDropped = (''mesh_series_dropped_total'', CounterVec, [])"
| "declared MResponder = (''mesh_responder_total'', GaugeVec, [''kind''])"

definition metric_kind :: "metric \<Rightarrow> vec_kind" where
  "metric_kind m = fst (snd (declared m))"

definition label_names :: "metric \<Rightarrow> string list" where
  "label_names m = snd (snd (declared m))"

definition all_metrics :: "metric list" where
  "all_metrics =
     [MRtt, MRttMin, MRttMax, MRttMean, MRttQuantile, MJitter, MLoss, MSent, MReceived, MLost, MReorder, MTcpConnect,
      MProbeErrors, MLastSuccess, MHosts, MHostsUnres, MZones, MPairings, MSlots, MSlotsUnfilled, MSlotChanges,
      MReconcileDur, MReconcileTotal, MReconcileErrs, MProviderFetch, MProviderCache, MProviderSuccess, MPersistTotal,
      MPersistFails, MPersistDirty, MStateReset, MIcmpAvailable, MPingRestarts, MTasksRunning, MSeriesCount,
      MSeriesDropped, MResponder]"

text \<open>The buckets of the run time of a reconcile are fixed, the others come from the configuration.\<close>

definition reconcile_buckets :: "f64 list" where
  "reconcile_buckets =
     [F64 1152921504606847 (-60), F64 5764607523034235 (-60), F64 5764607523034235 (-59), F64 7205759403792794 (-57),
      F64 7205759403792794 (-56), F64 1 (-1), F64 1 0, F64 5 0]"

definition histogram_buckets :: "f64 list \<Rightarrow> metric \<Rightarrow> f64 list" where
  "histogram_buckets bs m = (if m = MReconcileDur then reconcile_buckets else bs)"

section \<open>Calls that do not panic\<close>

definition labels_ok :: "metric \<Rightarrow> labels \<Rightarrow> bool" where
  "labels_ok m l \<longleftrightarrow> distinct (map fst l) \<and> set (map fst l) = set (label_names m)"

fun not_negative :: "mvalue \<Rightarrow> bool" where
  "not_negative (VSeconds d) = (0 \<le> d)"
| "not_negative (VUnix t) = (0 \<le> t)"
| "not_negative (VInt n) = (0 \<le> n)"
| "not_negative (VFloat x) = (\<not> f64_less x (F64 0 0))"

text \<open>
  Each call also has the type of its vector, a \<open>Delete\<close> all of its labels and a \<open>DeletePartialMatch\<close> only
  labels that there are: otherwise these two would remove nothing.
\<close>

fun call_ok :: "f64 list \<Rightarrow> prom_call \<Rightarrow> bool" where
  "call_ok bs (PObserve m l v) \<longleftrightarrow> metric_kind m = HistogramVec \<and> labels_ok m l
     \<and> sorted_wrt f64_less (histogram_buckets bs m)"
| "call_ok bs (PAdd m l v) \<longleftrightarrow> metric_kind m = CounterVec \<and> labels_ok m l \<and> not_negative v"
| "call_ok bs (PSet m l v) \<longleftrightarrow> metric_kind m = GaugeVec \<and> labels_ok m l"
| "call_ok bs (PDelete m l) \<longleftrightarrow> labels_ok m l"
| "call_ok bs (PDeletePartial m l) \<longleftrightarrow> distinct (map fst l) \<and> set (map fst l) \<subseteq> set (label_names m)"
| "call_ok bs (PReset m) \<longleftrightarrow> metric_kind m = GaugeVec"

lemma registration:
  "distinct (map (fst \<circ> declared) all_metrics)" "distinct (label_names m)" "sorted_wrt f64_less reconcile_buckets"
proof -
  show "distinct (map (fst \<circ> declared) all_metrics)" "sorted_wrt f64_less reconcile_buckets" by code_simp+
  show "distinct (label_names m)" by (cases m) (simp_all add: label_names_def probe_label_names_def)
qed

lemma task_labels: "map fst (labels_for t) = probe_label_names"
  by (simp add: labels_for_def probe_label_names_def)

lemma observe_calls_ok:
  assumes "sorted_wrt f64_less bs" "0 \<le> cy_sent c" "0 \<le> cy_received c" "0 \<le> cy_lost c" "0 \<le> cy_reordered c"
  shows "list_all (call_ok bs) (observe_calls fmt (labels_for t) c st)"
  using assms
  by (auto simp: observe_calls_def labels_ok_def label_names_def metric_kind_def histogram_buckets_def copy_labels_def
      task_labels list_all_iff)
     (simp_all add: probe_label_names_def)

lemma forget_calls_ok: "list_all (call_ok bs) (forget_calls (labels_for t))"
  by (simp add: forget_calls_def plain_metrics_def labels_ok_def label_names_def task_labels)
     (simp add: probe_label_names_def)

lemma done_calls_ok: "list_all (call_ok bs) (done_calls t st d err)"
  by (auto simp: done_calls_def labels_ok_def label_names_def metric_kind_def histogram_buckets_def registration list_all_iff
      split: option.splits)

lemma report_calls_ok: "list_all (call_ok bs) (report_calls rep)"
  by (cases rep) (simp_all add: labels_ok_def label_names_def metric_kind_def)

section \<open>The calls of the daemon\<close>

text \<open>A library that also records the calls made on it.\<close>

definition logged :: "(prom_call \<Rightarrow> 'p \<Rightarrow> 'p) \<Rightarrow> prom_call \<Rightarrow> 'p \<times> prom_call list \<Rightarrow> 'p \<times> prom_call list" where
  "logged lib c pl = (lib c (fst pl), snd pl @ [c])"

definition calls_made :: "('p \<times> prom_call list) registry \<Rightarrow> prom_call list" where
  "calls_made r = snd (rg_lib r)"

definition all_ok :: "f64 list \<Rightarrow> ('p \<times> prom_call list) registry \<Rightarrow> bool" where
  "all_ok bs r \<longleftrightarrow> list_all (call_ok bs) (calls_made r)"

lemma logged_fold: "snd (fold (logged lib) cs p) = snd p @ cs"
  by (induction cs arbitrary: p) (simp_all add: logged_def)

lemma all_ok_do: "all_ok bs r \<Longrightarrow> list_all (call_ok bs) cs \<Longrightarrow> all_ok bs (prom_do (logged lib) cs r)"
  by (simp add: all_ok_def calls_made_def prom_do_def logged_fold)

lemma all_ok_count: "all_ok bs r \<Longrightarrow> all_ok bs (publish_count (logged lib) r)"
  unfolding publish_count_def
  by (rule all_ok_do) (simp_all add: labels_ok_def label_names_def metric_kind_def)

lemma all_ok_seen: "all_ok bs (r\<lparr>rg_seen := s\<rparr>) \<longleftrightarrow> all_ok bs r"
  by (simp add: all_ok_def calls_made_def)

text \<open>The packet counts of a cycle, which are added to counters.\<close>

definition counts_ok :: "cycle \<Rightarrow> bool" where
  "counts_ok c \<longleftrightarrow> 0 \<le> cy_sent c \<and> 0 \<le> cy_received c \<and> 0 \<le> cy_lost c \<and> 0 \<le> cy_reordered c"

lemma all_ok_observe:
  assumes "all_ok bs r" "sorted_wrt f64_less bs" "counts_ok c"
  shows "all_ok bs (observe_task (logged lib) fmt t c st r)"
proof -
  have drop: "list_all (call_ok bs) [PAdd MSeriesDropped [] (VInt 1)]"
    by (simp add: labels_ok_def label_names_def metric_kind_def)
  have obs: "list_all (call_ok bs) (observe_calls fmt (labels_for t) c st)"
    using assms(2,3) by (intro observe_calls_ok) (simp_all add: counts_ok_def)
  obtain b r' where a: "admit (logged lib) (series_key (labels_for t)) r = (b, r')" by fastforce
  then have "all_ok bs r'" using assms(1) by (auto simp: admit_def all_ok_count all_ok_seen split: if_splits)
  then show ?thesis using all_ok_do [OF _ drop] all_ok_do [OF _ obs] by (cases b) (simp_all add: observe_task_def a)
qed

lemma all_ok_forget: "all_ok bs r \<Longrightarrow> all_ok bs (forget_task (logged lib) t r)"
  unfolding forget_task_def Let_def
  by (intro all_ok_do all_ok_count forget_calls_ok) (simp add: all_ok_seen)

lemma all_ok_forgets: "all_ok bs r \<Longrightarrow> all_ok bs (fold (forget_task (logged lib)) ts r)"
  by (induction ts arbitrary: r) (simp_all add: all_ok_forget)

lemma all_ok_done: "all_ok bs r \<Longrightarrow> all_ok bs (reconcile_done (logged lib) t st d err r)"
  unfolding reconcile_done_def by (intro all_ok_do done_calls_ok)

lemma all_ok_reports: "all_ok bs r \<Longrightarrow> all_ok bs (fold (provider_report (logged lib)) reps r)"
  by (induction reps arbitrary: r) (simp_all add: provider_report_def all_ok_do report_calls_ok)

lemma all_ok_stats:
  assumes "all_ok bs r"
  shows "all_ok bs (set_persist (logged lib) ps r)" "all_ok bs (set_responder (logged lib) rs r)"
    "all_ok bs (set_icmp_available (logged lib) ok r)" "all_ok bs (set_ping_restarts (logged lib) n r)"
    "all_ok bs (set_tasks (logged lib) k r)" "all_ok bs (set_host_counts (logged lib) cs ss r)"
    "all_ok bs (add_state_reset (logged lib) r)"
  unfolding set_persist_def set_responder_def set_icmp_available_def set_ping_restarts_def set_tasks_def
    set_host_counts_def add_state_reset_def
  by (rule all_ok_do [OF assms];
      auto simp: labels_ok_def label_names_def metric_kind_def gauge_bool_def list_all_iff)+

section \<open>The running daemon\<close>

lemma all_ok_cycle:
  assumes "all_ok bs reg" "sorted_wrt f64_less bs" "counts_ok c"
  shows "all_ok bs (snd (export_step (logged lib) fmt (ECycle now qs k c failed) (rh, reg)))"
proof -
  have "counts_ok c'" if "run_cycle now qs k c failed rh = (rh', Some (c', st))" for rh' c' st
    using that assms(3) by (auto simp: run_cycle_def counts_ok_def finish_cycle_def Let_def split: prod.splits option.splits if_splits)
  then show ?thesis using assms by (auto split: prod.split option.split intro: all_ok_observe)
qed

lemma all_ok_deltas: "all_ok bs (ap_registry a) \<Longrightarrow> ln_lib ln = logged lib \<Longrightarrow> all_ok bs (ap_registry (fold (on_delta ln now) xs a))"
proof (induction xs arbitrary: a)
  case (Cons x xs)
  have "all_ok bs (ap_registry (on_delta ln now x a))"
    using Cons.prems by (auto simp: on_delta_def all_ok_forgets split: prod.split)
  with Cons show ?case by simp
qed simp

lemma all_ok_loop:
  assumes "all_ok bs (ap_registry a)" "ln_lib ln = logged lib"
  shows "all_ok bs (ap_registry (with_loop ln now f a))"
  using assms by (auto simp: with_loop_def Let_def split: prod.split option.split intro!: all_ok_done all_ok_deltas)

lemma all_ok_manager:
  assumes "all_ok bs (ap_registry a)" "ln_lib ln = logged lib"
  shows "all_ok bs (ap_registry (with_manager ln f a))"
  using assms by (simp add: with_manager_def Let_def all_ok_reports)

fun event_counts :: "app_event \<Rightarrow> bool" where
  "event_counts (ACycle now k c failed) = counts_ok c"
| "event_counts _ = True"

lemma all_ok_step:
  assumes "all_ok bs (ap_registry a)" "ln_lib ln = logged lib" "sorted_wrt f64_less bs" "event_counts e"
  shows "all_ok bs (ap_registry (app_step ln e a))"
proof (cases e)
  case (AConfig now slow)
  have "all_ok bs (ap_registry (fst (on_config ln now slow cfg b)))" if "ap_registry b = ap_registry a" for cfg b
    using assms(1,2) that
    by (auto simp: on_config_def Let_def trigger_app_def split: sum.split option.split intro!: all_ok_manager)
  then show ?thesis using assms(1) by (auto simp: AConfig take_config_def split: list.split option.split)
next
  case (ACycle now k c failed)
  then show ?thesis
    using all_ok_cycle [OF assms(1,3), of c] assms(2,4)
    by (simp add: app_cycle_def Let_def case_prod_beta del: export_step.simps)
next
  case AWatch
  then show ?thesis using assms(1) by (simp add: watch_inventory_def Let_def trigger_app_def)
next
  case (AStats now)
  then show ?thesis using assms(1,2) by (auto simp: publish_stats_def Let_def all_ok_stats split: prod.split)
qed (use assms in \<open>auto intro!: all_ok_loop all_ok_manager\<close>)

lemma all_ok_run:
  assumes "all_ok bs (ap_registry a)" "ln_lib ln = logged lib" "sorted_wrt f64_less bs" "list_all event_counts evs"
  shows "all_ok bs (ap_registry (fold (app_step ln) evs a))"
  using assms(1,4)
proof (induction evs arbitrary: a)
  case (Cons e evs)
  then show ?case using all_ok_step [OF _ assms(2,3)] by simp
qed simp

lemma build_calls:
  assumes "build_app ln env stat saved (p, []) path cfg = Inr a" "ln_lib ln = logged lib"
  shows "all_ok bs (ap_registry a)"
proof -
  have "all_ok bs (new_registry (ln_buckets ln) (cf_metrics cfg) (p, []))"
    by (simp add: all_ok_def calls_made_def new_registry_def)
  then show ?thesis
    using assms
    by (auto simp: build_app_def Let_def all_ok_stats split: sum.splits prod.splits if_splits)
qed


text \<open>
  The buckets are not checked. Validation does not look at \<open>metrics.rtt_buckets\<close>, and the library panics when it makes the
  first child of a histogram whose buckets do not increase. So a daemon with such a
  configuration starts, reports itself valid, and dies in the goroutine of the first task that receives
  a reply.
\<close>

theorem unsorted_buckets_panic:
  assumes bad: "\<not> sorted_wrt f64_less bs" and rtt: "cy_rtt c \<noteq> []" and cfg: "validate cfg = []"
    and reg: "r = new_registry def (cf_metrics (cfg\<lparr>cf_metrics := (cf_metrics cfg)\<lparr>mc_rtt_buckets := bs\<rparr>\<rparr>)) (p, [])"
  shows "validate (cfg\<lparr>cf_metrics := (cf_metrics cfg)\<lparr>mc_rtt_buckets := bs\<rparr>\<rparr>) = []
    \<and> (\<exists>call \<in> set (calls_made (observe_task (logged lib) fmt t c st r)). \<not> call_ok (mc_rtt_buckets (rg_cfg r)) call)"
proof
  show "validate (cfg\<lparr>cf_metrics := (cf_metrics cfg)\<lparr>mc_rtt_buckets := bs\<rparr>\<rparr>) = []"
    using cfg by (simp add: validate_iff_ok config_ok_def)
  have max: "0 < mc_max_series (cf_metrics cfg)" using cfg by (simp add: validate_iff_ok config_ok_def)
  have bs: "mc_rtt_buckets (rg_cfg r) = bs" using bad by (auto simp: reg new_registry_def)
  obtain d ds where d: "cy_rtt c = d # ds" using rtt by (cases "cy_rtt c") auto
  have "\<not> call_ok bs (PObserve MRtt (labels_for t) (VSeconds d))" using bad by (simp add: histogram_buckets_def)
  moreover have "PObserve MRtt (labels_for t) (VSeconds d) \<in> set (calls_made (observe_task (logged lib) fmt t c st r))"
    using max d
    by (auto simp: observe_task_def admit_def reg new_registry_def publish_count_def prom_do_def calls_made_def logged_def
        logged_fold observe_calls_def)
  ultimately show "\<exists>call \<in> set (calls_made (observe_task (logged lib) fmt t c st r)). \<not> call_ok (mc_rtt_buckets (rg_cfg r)) call"
    unfolding bs by blast
qed

definition logged_daemon :: "(unit \<times> prom_call list) linked" where
  "logged_daemon =
     \<lparr>ln_lib = logged (\<lambda>_ u. u), ln_fmt = (\<lambda>_. ''q''), ln_regex = (\<lambda>_. None), ln_decode = (\<lambda>_ _. None), ln_buckets = []\<rparr>"

definition logged_events :: "app_event list" where
  "logged_events = [ARunner, AStart 1 0, AWatch, AStats 2, ACycle 3 export_key export_cycle None]"


theorem unsorted_buckets_panic_witness:
  "validate (watched_config\<lparr>cf_metrics := (cf_metrics watched_config)\<lparr>mc_rtt_buckets := [F64 1 0, F64 1 (-1)]\<rparr>\<rparr>) = []"
proof -
  have bad: "\<not> sorted_wrt f64_less [F64 1 0, F64 1 (-1)]" by code_simp
  have rtt: "cy_rtt (export_cycle\<lparr>cy_rtt := [5]\<rparr>) \<noteq> []" by simp
  show ?thesis using unsorted_buckets_panic [OF bad rtt watched_valid(1) refl] by (rule conjunct1)
qed

end
