(* ===== verification/Json.thy ===== *)
theory Json
  imports Numerics
begin

text \<open>
  The part of \<open>encoding/json\<close> the program uses, written to its documentation: the compact text \<open>Marshal\<close> gives
  to a value (with the escapes for HTML), the parser behind \<open>Unmarshal\<close>, and how a struct takes its
  fields from an object. A number is kept as its literal. Strings are byte sequences; that
  invalid UTF-8 is replaced, the escapes of U+2028 and U+2029 and the folding of field names beyond ASCII are not modelled. The
  theory carries no entry of the source map. The lemmas show that the parser reads back what the
  printer writes, and that a printed value has no line break.
\<close>

section \<open>Printing\<close>

datatype json =
    JNull | JBool bool | JNum string | JStr string | JArr "json list" | JObj "(string \<times> json) list"

definition hex_chars :: string where "hex_chars = ''0123456789abcdef''"

definition json_escape :: "char \<Rightarrow> string" where
  "json_escape c =
     (if c = CHR 0x22 then [CHR 0x5C, CHR 0x22]
      else if c = CHR 0x5C then [CHR 0x5C, CHR 0x5C]
      else if c = CHR 0x08 then [CHR 0x5C, CHR ''b'']
      else if c = CHR 0x0C then [CHR 0x5C, CHR ''f'']
      else if c = CHR 0x0A then [CHR 0x5C, CHR ''n'']
      else if c = CHR 0x0D then [CHR 0x5C, CHR ''r'']
      else if c = CHR 0x09 then [CHR 0x5C, CHR ''t'']
      else if (of_char c :: nat) < 32 \<or> c \<in> {CHR ''<'', CHR ''>'', CHR ''&''} then
        [CHR 0x5C, CHR ''u'', CHR ''0'', CHR ''0'', hex_chars ! (of_char c div 16), hex_chars ! (of_char c mod 16)]
      else [c])"

definition quote_text :: "string \<Rightarrow> string" where
  "quote_text s = CHR 0x22 # concat (map json_escape s) @ [CHR 0x22]"

fun json_text :: "json \<Rightarrow> string" where
  "json_text JNull = ''null''"
| "json_text (JBool b) = (if b then ''true'' else ''false'')"
| "json_text (JNum lit) = lit"
| "json_text (JStr s) = quote_text s"
| "json_text (JArr vs) = ''['' @ join '','' (map json_text vs) @ '']''"
| "json_text (JObj kvs) = ''{'' @ join '','' (map (\<lambda>kv. quote_text (fst kv) @ '':'' @ json_text (snd kv)) kvs) @ ''}''"

section \<open>Parsing\<close>

definition skip_space :: "string \<Rightarrow> string" where
  "skip_space s = dropWhile (\<lambda>c. c \<in> {CHR '' '', CHR 0x09, CHR 0x0A, CHR 0x0D}) s"

definition hex_value :: "char \<Rightarrow> nat option" where
  "hex_value c =
     (let n = of_char c
      in if 48 \<le> n \<and> n \<le> 57 then Some (n - 48)
         else if 97 \<le> n \<and> n \<le> 102 then Some (n - 87)
         else if 65 \<le> n \<and> n \<le> 70 then Some (n - 55)
         else None)"

definition hex4 :: "char \<Rightarrow> char \<Rightarrow> char \<Rightarrow> char \<Rightarrow> nat option" where
  "hex4 a b c d =
     (case (hex_value a, hex_value b, hex_value c, hex_value d) of
        (Some w, Some x, Some y, Some z) \<Rightarrow> Some (4096 * w + 256 * x + 16 * y + z)
      | _ \<Rightarrow> None)"

text \<open>A string up to its closing quote: bytes, and the code units of \<open>\u\<close> escapes.\<close>

datatype text_unit = Byte char | Unit nat

definition simple_escape :: "char \<Rightarrow> char option" where
  "simple_escape c =
     (if c \<in> {CHR 0x22, CHR 0x5C, CHR 0x2F} then Some c
      else if c = CHR ''b'' then Some CHR 0x08
      else if c = CHR ''f'' then Some CHR 0x0C
      else if c = CHR ''n'' then Some CHR 0x0A
      else if c = CHR ''r'' then Some CHR 0x0D
      else if c = CHR ''t'' then Some CHR 0x09
      else None)"

definition add_unit :: "text_unit \<Rightarrow> (text_unit list \<times> string) option \<Rightarrow> (text_unit list \<times> string) option" where
  "add_unit u res = map_option (\<lambda>(us, r). (u # us, r)) res"

fun string_units :: "string \<Rightarrow> (text_unit list \<times> string) option" where
  "string_units [] = None"
| "string_units (c # r) =
     (if c = CHR 0x22 then Some ([], r)
      else if c = CHR 0x5C then
        (case r of
           [] \<Rightarrow> None
         | e # r1 \<Rightarrow>
             if e = CHR ''u'' then
               (case r1 of
                  w # x # y # z # r2 \<Rightarrow>
                    (case hex4 w x y z of None \<Rightarrow> None | Some n \<Rightarrow> add_unit (Unit n) (string_units r2))
                | _ \<Rightarrow> None)
             else (case simple_escape e of None \<Rightarrow> None | Some b \<Rightarrow> add_unit (Byte b) (string_units r1)))
      else if (of_char c :: nat) < 32 then None
      else add_unit (Byte c) (string_units r))"

definition utf8 :: "nat \<Rightarrow> string" where
  "utf8 n =
     (if n < 128 then [char_of n]
      else if n < 2048 then [char_of (192 + n div 64), char_of (128 + n mod 64)]
      else if n < 65536 then [char_of (224 + n div 4096), char_of (128 + n div 64 mod 64), char_of (128 + n mod 64)]
      else [char_of (240 + n div 262144), char_of (128 + n div 4096 mod 64), char_of (128 + n div 64 mod 64),
            char_of (128 + n mod 64)])"

definition surrogate :: "nat \<Rightarrow> bool" where
  "surrogate n \<longleftrightarrow> 55296 \<le> n \<and> n < 57344"

text \<open>A pair of surrogates is one code point; a surrogate without its partner is U+FFFD.\<close>

fun units_text :: "text_unit list \<Rightarrow> string" where
  "units_text [] = []"
| "units_text (Byte c # us) = c # units_text us"
| "units_text (Unit n # us) =
     (if \<not> surrogate n then utf8 n @ units_text us
      else (case us of
              Unit m # us' \<Rightarrow>
                if n < 56320 \<and> 56320 \<le> m \<and> m < 57344
                then utf8 ((n - 55296) * 1024 + (m - 56320) + 65536) @ units_text us'
                else utf8 65533 @ units_text us
            | _ \<Rightarrow> utf8 65533 @ units_text us))"

definition json_string :: "string \<Rightarrow> (string \<times> string) option" where
  "json_string s = map_option (\<lambda>(us, r). (units_text us, r)) (string_units s)"

text \<open>A number literal: sign, integer part without leading zeros, fraction, exponent.\<close>

definition digits_of :: "string \<Rightarrow> string \<times> string" where
  "digits_of s = (takeWhile is_digit s, dropWhile is_digit s)"

definition frac_part :: "string \<Rightarrow> (string \<times> string) option" where
  "frac_part s =
     (case s of
        c # r \<Rightarrow>
          if c = CHR ''.'' then
            (case digits_of r of (ds, r') \<Rightarrow> if ds = [] then None else Some (c # ds, r'))
          else Some ([], s)
      | [] \<Rightarrow> Some ([], s))"

definition exp_part :: "string \<Rightarrow> (string \<times> string) option" where
  "exp_part s =
     (case s of
        c # r \<Rightarrow>
          if c = CHR ''e'' \<or> c = CHR ''E'' then
            (let (sg, r1) = (case r of d # r' \<Rightarrow> if d = CHR ''+'' \<or> d = CHR ''-'' then ([d], r') else ([], r) | [] \<Rightarrow> ([], r))
             in case digits_of r1 of (ds, r') \<Rightarrow> if ds = [] then None else Some (c # sg @ ds, r'))
          else Some ([], s)
      | [] \<Rightarrow> Some ([], s))"

definition json_number :: "string \<Rightarrow> (string \<times> string) option" where
  "json_number s =
     (let (sg, r) = (case s of c # r \<Rightarrow> if c = CHR ''-'' then ([c], r) else ([], s) | [] \<Rightarrow> ([], s))
      in case digits_of r of (ds, r1) \<Rightarrow>
           if ds = [] \<or> (hd ds = CHR ''0'' \<and> length ds > 1) then None
           else (case frac_part r1 of
                   None \<Rightarrow> None
                 | Some (fs, r2) \<Rightarrow>
                     (case exp_part r2 of None \<Rightarrow> None | Some (es, r3) \<Rightarrow> Some (sg @ ds @ fs @ es, r3))))"

definition literals :: "(string \<times> json) list" where
  "literals = [(''true'', JBool True), (''false'', JBool False), (''null'', JNull)]"

definition json_literal :: "string \<Rightarrow> (json \<times> string) option" where
  "json_literal s =
     (case List.find (\<lambda>(w, v). has_prefix s w) literals of None \<Rightarrow> None | Some (w, v) \<Rightarrow> Some (v, drop (length w) s))"

lemma skip_space_shorter: "skip_space s = c # r \<Longrightarrow> length r < length s"
  using length_dropWhile_le [of "\<lambda>c. c \<in> {CHR '' '', CHR 0x09, CHR 0x0A, CHR 0x0D}" s] by (simp add: skip_space_def)

text \<open>
  A value, the elements of an array and the members of an object. What follows a comma or a colon is
  always shorter than the whole; the comparison is there for the termination of the definition.
\<close>

function (sequential) json_value :: "string \<Rightarrow> (json \<times> string) option"
  and json_elems :: "string \<Rightarrow> (json list \<times> string) option"
  and json_members :: "string \<Rightarrow> ((string \<times> json) list \<times> string) option" where
  "json_value s =
     (case skip_space s of
        [] \<Rightarrow> None
      | c # r \<Rightarrow>
          if c = CHR ''{'' then
            (case skip_space r of
               [] \<Rightarrow> None
             | d # r1 \<Rightarrow> if d = CHR ''}'' then Some (JObj [], r1)
                         else map_option (\<lambda>(kvs, r2). (JObj kvs, r2)) (json_members r))
          else if c = CHR ''['' then
            (case skip_space r of
               [] \<Rightarrow> None
             | d # r1 \<Rightarrow> if d = CHR '']'' then Some (JArr [], r1)
                         else map_option (\<lambda>(vs, r2). (JArr vs, r2)) (json_elems r))
          else if c = CHR 0x22 then map_option (\<lambda>(t, r1). (JStr t, r1)) (json_string r)
          else if c = CHR ''-'' \<or> is_digit c then map_option (\<lambda>(lit, r1). (JNum lit, r1)) (json_number (c # r))
          else json_literal (c # r))"
| "json_elems s =
     (case json_value s of
        None \<Rightarrow> None
      | Some (v, r) \<Rightarrow>
          (case skip_space r of
             [] \<Rightarrow> None
           | d # r1 \<Rightarrow>
               if d = CHR '','' then
                 (if length r1 < length s then map_option (\<lambda>(vs, r2). (v # vs, r2)) (json_elems r1) else None)
               else if d = CHR '']'' then Some ([v], r1) else None))"
| "json_members s =
     (case skip_space s of
        [] \<Rightarrow> None
      | c # r \<Rightarrow>
          if c \<noteq> CHR 0x22 then None
          else (case json_string r of
            None \<Rightarrow> None
          | Some (k, r1) \<Rightarrow>
              (case skip_space r1 of
                 [] \<Rightarrow> None
               | d # r2 \<Rightarrow>
                   if d \<noteq> CHR '':'' \<or> \<not> length r2 < length s then None
                   else (case json_value r2 of
                     None \<Rightarrow> None
                   | Some (v, r3) \<Rightarrow>
                       (case skip_space r3 of
                          [] \<Rightarrow> None
                        | e # r4 \<Rightarrow>
                            if e = CHR '','' then
                              (if length r4 < length s then map_option (\<lambda>(kvs, r5). ((k, v) # kvs, r5)) (json_members r4)
                               else None)
                            else if e = CHR ''}'' then Some ([(k, v)], r4) else None)))))"
  by pat_completeness auto

termination
  by (relation "measure (\<lambda>x. case x of Inl s \<Rightarrow> 2 * length s | Inr (Inl s) \<Rightarrow> 2 * length s + 1
        | Inr (Inr s) \<Rightarrow> 2 * length s + 1)")
     (auto dest: skip_space_shorter)

declare json_value.simps [simp del] json_elems.simps [simp del] json_members.simps [simp del]

text \<open>\<open>Unmarshal\<close> checks that nothing follows the value.\<close>

definition json_parse :: "string \<Rightarrow> json option" where
  "json_parse s = (case json_value s of None \<Rightarrow> None | Some (v, r) \<Rightarrow> if skip_space r = [] then Some v else None)"

section \<open>Structs\<close>

text \<open>
  A struct takes the fields it knows from an object, in the order of the object, so that the last of
  two equal keys counts; an exact name and one that differs in case are both known. \<open>null\<close> leaves a field as it is, a value of
  another type is an error. The value of a field that is not there is its zero value.
\<close>

definition fold_case :: "string \<Rightarrow> string" where
  "fold_case s = map (\<lambda>c. let n = of_char c in if 65 \<le> n \<and> n \<le> 90 then char_of (n + 32 :: nat) else c) s"

definition take_field ::
  "(json \<Rightarrow> 'a option) \<Rightarrow> string \<Rightarrow> string \<times> json \<Rightarrow> 'a option \<Rightarrow> 'a option" where
  "take_field conv name kv acc =
     (if fold_case (fst kv) = fold_case name \<and> snd kv \<noteq> JNull
      then (if acc = None then None else conv (snd kv)) else acc)"

definition field :: "(json \<Rightarrow> 'a option) \<Rightarrow> 'a \<Rightarrow> string \<Rightarrow> (string \<times> json) list \<Rightarrow> 'a option" where
  "field conv zero name kvs = fold (take_field conv name) kvs (Some zero)"

fun json_object :: "json \<Rightarrow> (string \<times> json) list option" where
  "json_object (JObj kvs) = Some kvs"
| "json_object JNull = Some []"
| "json_object _ = None"

fun to_text :: "json \<Rightarrow> string option" where
  "to_text (JStr s) = Some s"
| "to_text _ = None"

fun to_bool :: "json \<Rightarrow> bool option" where
  "to_bool (JBool b) = Some b"
| "to_bool _ = None"

text \<open>\<open>strconv.ParseInt\<close> of the literal: a fraction or an exponent is an error.\<close>

fun to_int :: "json \<Rightarrow> int option" where
  "to_int (JNum lit) = atoi lit"
| "to_int _ = None"

fun to_ints :: "json \<Rightarrow> int list option" where
  "to_ints (JArr vs) = those (map (\<lambda>v. if v = JNull then Some 0 else to_int v) vs)"
| "to_ints _ = None"

section \<open>Reading back what was printed\<close>

lemma hex_digit: "k < 16 \<Longrightarrow> hex_value (hex_chars ! k) = Some k"
proof -
  have "\<forall>k \<in> set [0..<16]. hex_value (hex_chars ! k) = Some k" by code_simp
  then show "k < 16 \<Longrightarrow> ?thesis" by simp
qed

lemma hex_pair:
  assumes "n < 256"
  shows "hex4 (CHR ''0'') (CHR ''0'') (hex_chars ! (n div 16)) (hex_chars ! (n mod 16)) = Some n"
proof -
  have "hex_value (CHR ''0'') = Some 0" by (simp add: hex_value_def)
  moreover have "n div 16 < 16" using assms by simp
  ultimately show ?thesis by (simp add: hex4_def hex_digit)
qed

text \<open>An escape is read as one unit.\<close>

definition unit_of :: "char \<Rightarrow> text_unit" where
  "unit_of c =
     (if c \<notin> {CHR 0x22, CHR 0x5C, CHR 0x08, CHR 0x0C, CHR 0x0A, CHR 0x0D, CHR 0x09}
         \<and> ((of_char c :: nat) < 32 \<or> c \<in> {CHR ''<'', CHR ''>'', CHR ''&''})
      then Unit (of_char c) else Byte c)"

lemma escape_unit: "string_units (json_escape c @ t) = add_unit (unit_of c) (string_units t)"
proof (cases "c \<in> {CHR 0x22, CHR 0x5C, CHR 0x08, CHR 0x0C, CHR 0x0A, CHR 0x0D, CHR 0x09}")
  case True
  then show ?thesis by (auto simp: json_escape_def unit_of_def simple_escape_def)
next
  case False
  have "hex4 (CHR ''0'') (CHR ''0'') (hex_chars ! (of_char c div 16)) (hex_chars ! (of_char c mod 16)) = Some (of_char c)"
    by (rule hex_pair) (rule nat_of_char_less_256)
  with False show ?thesis by (auto simp: json_escape_def unit_of_def)
qed

lemma unit_small:
  assumes "unit_of c = Unit n"
  shows "n = of_char c \<and> n < 128"
proof -
  have "n = of_char c" and "(of_char c :: nat) < 32 \<or> c \<in> {CHR ''<'', CHR ''>'', CHR ''&''}"
    using assms unfolding unit_of_def by (simp_all only: text_unit.inject text_unit.distinct split: if_split_asm)
  then show ?thesis by (elim disjE) (simp_all only: insert_iff empty_iff, auto)
qed

lemma unit_byte: "unit_of c = Byte b \<Longrightarrow> b = c"
  unfolding unit_of_def by (simp only: text_unit.inject text_unit.distinct split: if_split_asm)

lemma units_text_unit: "units_text (unit_of c # us) = c # units_text us"
proof (cases "unit_of c")
  case (Unit n)
  with unit_small [OF Unit] show ?thesis by (simp add: surrogate_def utf8_def)
next
  case (Byte b)
  with unit_byte [OF Byte] show ?thesis by simp
qed

lemma units_read: "string_units (concat (map json_escape s) @ CHR 0x22 # r) = Some (map unit_of s, r)"
  by (induction s) (simp_all add: escape_unit add_unit_def)

lemma json_string_quoted: "json_string (concat (map json_escape s) @ CHR 0x22 # r) = Some (s, r)"
proof -
  have "units_text (map unit_of s) = s" by (induction s) (simp_all add: units_text_unit)
  then show ?thesis by (simp add: json_string_def units_read)
qed

text \<open>What may follow a value in a printed text.\<close>

definition delim :: "string \<Rightarrow> bool" where
  "delim r \<longleftrightarrow> r = [] \<or> hd r \<in> {CHR '','', CHR ''}'', CHR '']'', CHR 0x0A}"

definition number_ok :: "string \<Rightarrow> bool" where
  "number_ok lit \<longleftrightarrow> lit \<noteq> [] \<and> (hd lit = CHR ''-'' \<or> is_digit (hd lit))
     \<and> list_all (\<lambda>c. is_digit c \<or> c \<in> {CHR ''-'', CHR ''+'', CHR ''.'', CHR ''e'', CHR ''E''}) lit
     \<and> (\<forall>r. delim r \<longrightarrow> json_number (lit @ r) = Some (lit, r))"

lemma digit_chars: "list_all is_digit (show_nat n)"
  by (auto simp: show_nat_def list_all_iff is_digit_def digit_char_def less_eq_char_def dest!: digits10_lt)

lemma digits10_lead: "hd (digits10 n) = 0 \<Longrightarrow> n = 0"
proof (induction n rule: digits10.induct)
  case (1 n)
  show ?case
  proof (cases "n < 10")
    case False
    have "digits10 (n div 10) \<noteq> []" by (simp add: digits10.simps [of "n div 10"])
    with 1 False have "n div 10 = 0" by (simp add: digits10.simps [of n])
    with False show ?thesis by simp
  qed (use 1 in \<open>simp add: digits10.simps [of n]\<close>)
qed

lemma show_nat_lead: "hd (show_nat n) = CHR ''0'' \<Longrightarrow> length (show_nat n) = 1"
proof -
  assume h: "hd (show_nat n) = CHR ''0''"
  have ne: "digits10 n \<noteq> []" by (simp add: digits10.simps [of n])
  then have "hd (digits10 n) < 10" using digits10_lt [of "hd (digits10 n)" n] by simp
  moreover have "digit_char (hd (digits10 n)) = CHR ''0''" using h ne by (simp add: show_nat_def hd_map)
  ultimately have "hd (digits10 n) = 0"
    using of_char_digit_char [of "hd (digits10 n)"] by simp
  then have "n = 0" by (rule digits10_lead)
  then show ?thesis by (simp add: show_nat_def digits10.simps)
qed

lemma delim_plain: "delim r \<Longrightarrow> frac_part r = Some ([], r) \<and> exp_part r = Some ([], r)
    \<and> takeWhile is_digit r = [] \<and> dropWhile is_digit r = r"
  by (cases r) (auto simp: delim_def frac_part_def exp_part_def is_digit_def less_eq_char_def)

lemma digits_read: "list_all is_digit ds \<Longrightarrow> delim r \<Longrightarrow> digits_of (ds @ r) = (ds, r)"
  using delim_plain [of r] by (auto simp: digits_of_def list_all_iff takeWhile_append2 dropWhile_append2)

lemma not_minus: "is_digit c \<Longrightarrow> c \<noteq> CHR ''-''"
  by (auto simp: is_digit_def less_eq_char_def)

lemma show_int_number: "number_ok (show_int i)"
proof -
  have n: "digits_of (show_nat n @ r) = (show_nat n, r)" if "delim r" for n r
    using digits_read [OF digit_chars that] .
  have lead: "is_digit (hd (show_nat n))" for n
    using digit_chars [of n] by (cases "show_nat n") (use show_nat_nonempty in auto)
  obtain c cs where c: "show_nat (nat i) = c # cs" by (cases "show_nat (nat i)") auto
  have "json_number (show_int i @ r) = Some (show_int i, r)" if r: "delim r" for r
  proof (cases "i < 0")
    case True
    then show ?thesis
      using n [OF r] delim_plain [OF r] show_nat_lead [of "nat (- i)"] by (simp add: show_int_def json_number_def)
  next
    case False
    have "c \<noteq> CHR ''-''" using lead [of "nat i"] by (simp add: c not_minus)
    with False show ?thesis
      using n [OF r, of "nat i"] delim_plain [OF r] show_nat_lead [of "nat i"]
      by (simp add: show_int_def json_number_def c)
  qed
  moreover have "show_int i \<noteq> [] \<and> (hd (show_int i) = CHR ''-'' \<or> is_digit (hd (show_int i)))"
    using lead by (simp add: show_int_def)
  moreover have "list_all (\<lambda>c. is_digit c \<or> c \<in> {CHR ''-'', CHR ''+'', CHR ''.'', CHR ''e'', CHR ''E''}) (show_int i)"
    using digit_chars by (auto simp: show_int_def list_all_iff)
  ultimately show ?thesis by (simp add: number_ok_def)
qed

fun json_ok :: "json \<Rightarrow> bool" where
  "json_ok (JNum lit) = number_ok lit"
| "json_ok (JArr vs) = list_all json_ok vs"
| "json_ok (JObj kvs) = list_all (json_ok \<circ> snd) kvs"
| "json_ok _ = True"

lemma skip_space_head: "c \<notin> {CHR '' '', CHR 0x09, CHR 0x0A, CHR 0x0D} \<Longrightarrow> skip_space (c # r) = c # r"
  by (simp add: skip_space_def)

lemma delim_head: "delim (CHR '','' # r)" "delim (CHR '']'' # r)" "delim (CHR ''}'' # r)" "delim (CHR 0x0A # r)" "delim []"
  by (simp_all add: delim_def)

lemma skip_delim:
  "skip_space (CHR '','' # r) = CHR '','' # r" "skip_space (CHR '']'' # r) = CHR '']'' # r"
  "skip_space (CHR ''}'' # r) = CHR ''}'' # r" "skip_space (CHR '':'' # r) = CHR '':'' # r"
  "skip_space (CHR 0x22 # r) = CHR 0x22 # r" "skip_space (CHR ''{'' # r) = CHR ''{'' # r"
  "skip_space (CHR ''['' # r) = CHR ''['' # r"
  by (rule skip_space_head, simp)+

lemma join_more: "join '','' (x # xs) = x @ (if xs = [] then [] else CHR '','' # join '','' xs)"
  by (cases xs) simp_all

text \<open>The text of a value starts with one of these characters, never with a space or a closing bracket.\<close>

lemma text_head:
  assumes "json_ok v"
  obtains c r where "json_text v = c # r" "c \<notin> {CHR '' '', CHR 0x09, CHR 0x0A, CHR 0x0D, CHR '']'', CHR ''}''}"
proof (cases v)
  case (JNum lit)
  then obtain c r where lit: "lit = c # r" "c = CHR ''-'' \<or> is_digit c"
    using assms by (cases lit) (auto simp: number_ok_def)
  then have "c \<notin> {CHR '' '', CHR 0x09, CHR 0x0A, CHR 0x0D, CHR '']'', CHR ''}''}"
    by (auto simp: is_digit_def less_eq_char_def)
  with lit JNum that show ?thesis by simp
next
  case (JBool b)
  with that show ?thesis by (cases b) auto
qed (use that in \<open>auto simp: quote_text_def split: if_splits\<close>)

lemma elems_read:
  assumes "\<And>v r. v \<in> set vs \<Longrightarrow> delim r \<Longrightarrow> json_value (json_text v @ r) = Some (v, r)" "vs \<noteq> []"
  shows "json_elems (join '','' (map json_text vs) @ CHR '']'' # r) = Some (vs, r)"
  using assms
proof (induction vs)
  case (Cons v vs)
  have v: "json_value (json_text v @ t) = Some (v, t)" if "delim t" for t using Cons.prems(1) that by simp
  show ?case
  proof (cases "vs = []")
    case True
    then show ?thesis by (simp add: json_elems.simps v delim_head skip_delim)
  next
    case False
    with Cons have "json_elems (join '','' (map json_text vs) @ CHR '']'' # r) = Some (vs, r)" by simp
    with False show ?thesis
      by (subst json_elems.simps) (simp add: join_more v delim_head skip_delim)
  qed
qed simp

lemma members_read:
  assumes "\<And>k v r. (k, v) \<in> set kvs \<Longrightarrow> delim r \<Longrightarrow> json_value (json_text v @ r) = Some (v, r)" "kvs \<noteq> []"
  shows "json_members (join '','' (map (\<lambda>kv. quote_text (fst kv) @ '':'' @ json_text (snd kv)) kvs) @ CHR ''}'' # r)
    = Some (kvs, r)"
  using assms
proof (induction kvs)
  case (Cons kv kvs)
  obtain k v where kv: "kv = (k, v)" by (cases kv)
  have v: "json_value (json_text v @ t) = Some (v, t)" if "delim t" for t using Cons.prems(1) that kv by auto
  show ?case
  proof (cases "kvs = []")
    case True
    then show ?thesis
      by (simp add: json_members.simps v delim_head skip_delim kv quote_text_def json_string_quoted)
  next
    case False
    with Cons have "json_members (join '','' (map (\<lambda>kv. quote_text (fst kv) @ '':'' @ json_text (snd kv)) kvs) @ CHR ''}'' # r)
      = Some (kvs, r)" by auto
    with False show ?thesis
      by (subst json_members.simps) (simp add: join_more v delim_head skip_delim kv quote_text_def json_string_quoted)
  qed
qed simp

lemma value_read: "json_ok v \<Longrightarrow> delim r \<Longrightarrow> json_value (json_text v @ r) = Some (v, r)"
proof (induction v arbitrary: r)
  case JNull
  then show ?case by (simp add: json_value.simps skip_space_head is_digit_def less_eq_char_def json_literal_def literals_def has_prefix_def)
next
  case (JBool b)
  then show ?case
    by (cases b) (simp_all add: json_value.simps skip_space_head is_digit_def less_eq_char_def json_literal_def literals_def has_prefix_def)
next
  case (JNum lit)
  then obtain c t where lit: "lit = c # t" "c = CHR ''-'' \<or> is_digit c" by (cases lit) (auto simp: number_ok_def)
  then have "c \<notin> {CHR '' '', CHR 0x09, CHR 0x0A, CHR 0x0D, CHR ''{'', CHR ''['', CHR 0x22}"
    by (auto simp: is_digit_def less_eq_char_def)
  moreover have "json_number (c # t @ r) = Some (c # t, r)" using JNum by (simp add: number_ok_def lit)
  ultimately show ?case using lit by (simp add: json_value.simps skip_space_head)
next
  case (JStr s)
  then show ?case by (simp add: json_value.simps skip_delim quote_text_def json_string_quoted)
next
  case (JArr vs)
  show ?case
  proof (cases "vs = []")
    case True
    then show ?thesis by (simp add: json_value.simps skip_delim)
  next
    case False
    have "json_elems (join '','' (map json_text vs) @ CHR '']'' # r) = Some (vs, r)"
      using JArr False by (intro elems_read) (auto simp: list_all_iff)
    moreover obtain v us where vs: "vs = v # us" using False by (cases vs) auto
    obtain c t where c: "json_text v = c # t" "c \<notin> {CHR '' '', CHR 0x09, CHR 0x0A, CHR 0x0D, CHR '']'', CHR ''}''}"
      using text_head [of v] JArr.prems vs by auto
    ultimately show ?thesis by (simp add: json_value.simps [of "CHR ''['' # _"] skip_delim vs join_more skip_space_head)
  qed
next
  case (JObj kvs)
  show ?case
  proof (cases "kvs = []")
    case True
    then show ?thesis by (simp add: json_value.simps skip_delim)
  next
    case False
    have "json_members (join '','' (map (\<lambda>kv. quote_text (fst kv) @ '':'' @ json_text (snd kv)) kvs) @ CHR ''}'' # r)
      = Some (kvs, r)"
      using JObj False by (intro members_read) (fastforce simp: list_all_iff)+
    moreover obtain kv us where "kvs = kv # us" using False by (cases kvs) auto
    ultimately show ?thesis
      by (simp add: json_value.simps [of "CHR ''{'' # _"] skip_delim join_more quote_text_def)
  qed
qed

text \<open>The printed text of a value is parsed to that value, and it is one line.\<close>

lemma json_roundtrip: "json_ok v \<Longrightarrow> json_parse (json_text v) = Some v"
  using value_read [of v "[]"] by (simp add: json_parse_def delim_def skip_space_def)

lemma escape_line: "CHR 0x0A \<notin> set (json_escape c)"
proof -
  have "\<forall>k \<in> set [0..<16]. hex_chars ! k \<noteq> CHR 0x0A" by code_simp
  moreover have "(of_char c :: nat) div 16 < 16" "(of_char c :: nat) mod 16 < 16"
    using nat_of_char_less_256 [of c] by (simp_all add: div_less_iff_less_mult)
  ultimately have h: "hex_chars ! (of_char c div 16) \<noteq> CHR 0x0A" "hex_chars ! (of_char c mod 16) \<noteq> CHR 0x0A"
    by simp_all
  show ?thesis unfolding json_escape_def using h by simp
qed

lemma quote_line: "CHR 0x0A \<notin> set (quote_text s)"
  using escape_line by (auto simp: quote_text_def)

lemma set_join: "set (join '','' ts) \<subseteq> insert (CHR '','') (\<Union> (set ` set ts))"
  by (induction "'',''" ts rule: join.induct) auto

lemma text_line: "json_ok v \<Longrightarrow> CHR 0x0A \<notin> set (json_text v)"
proof (induction v)
  case (JNum lit)
  then show ?case by (auto simp: number_ok_def list_all_iff is_digit_def less_eq_char_def)
next
  case (JArr vs)
  then have "CHR 0x0A \<notin> \<Union> (set ` set (map json_text vs))" by (auto simp: list_all_iff)
  with set_join [of "map json_text vs"] show ?case by auto
next
  case (JObj kvs)
  let ?ts = "map (\<lambda>kv. quote_text (fst kv) @ '':'' @ json_text (snd kv)) kvs"
  have "CHR 0x0A \<notin> set (json_text v)" if "(k, v) \<in> set kvs" for k v
    using JObj that by (fastforce simp: list_all_iff)
  then have "CHR 0x0A \<notin> \<Union> (set ` set ?ts)" using quote_line by auto
  with set_join [of ?ts] show ?case by auto
qed (use quote_line in \<open>auto split: if_splits\<close>)

lemma atoi_show_int: "min_int64 \<le> i \<Longrightarrow> i \<le> max_int64 \<Longrightarrow> atoi (show_int i) = Some i"
proof -
  assume b: "min_int64 \<le> i" "i \<le> max_int64"
  have un: "undigits10 (map (\<lambda>c. of_char c - 48) (show_nat n)) 0 = n" for n
  proof -
    have "map (\<lambda>c. of_char c - 48) (show_nat n) = digits10 n"
      by (auto simp: show_nat_def o_def of_char_digit_char digits10_lt intro!: map_idI)
    then show ?thesis by (simp add: undigits10_digits10)
  qed
  obtain c cs where c: "show_nat (nat i) = c # cs" by (cases "show_nat (nat i)") auto
  have "is_digit c" using digit_chars [of "nat i"] by (simp add: c)
  then have "c \<noteq> CHR ''-''" "c \<noteq> CHR ''+''" by (auto simp: is_digit_def less_eq_char_def)
  with b un [of "nat i"] un [of "nat (- i)"] digit_chars [of "nat i"] digit_chars [of "nat (- i)"] show ?thesis
    by (cases "i < 0") (simp_all add: show_int_def atoi_def c)
qed


text \<open>The integers a Go \<open>int\<close> can hold.\<close>

definition int64 :: "int \<Rightarrow> bool" where
  "int64 i \<longleftrightarrow> min_int64 \<le> i \<and> i \<le> max_int64"

abbreviation json_int :: "int \<Rightarrow> json" where "json_int i \<equiv> JNum (show_int i)"

lemma int_read: "int64 i \<Longrightarrow> to_int (json_int i) = Some i"
  by (simp add: int64_def atoi_show_int)

end
