(* ===== verification/Protocol.thy ===== *)
theory Protocol
  imports Json IcmpClient Metrics "HOL-Library.Monad_Syntax"
begin

text \<open>
  Models the lines of the helper protocol (\<open>pkg/pingproto/proto.go\<close>): the \<open>Encoder\<close>, the \<open>Decoder\<close> over a
  \<open>bufio.Scanner\<close> with its bounded buffer, and the JSON text of every message, as the daemon and the
  helper read them. A read takes as many bytes of the stream as the environment likes, at
  least one and at most the free part of the buffer. The lemmas show that the lines the decoder
  returns do not depend on how the stream was cut into reads, which lines are too long, that both sides read
  back the messages the other side wrote, and which requests of the daemon the helper refuses.
\<close>

section \<open>The scanner\<close>

datatype scan_result = ScanLine string | ScanTooLong | ScanEnd

text \<open>The buffer: its size, the bytes that are not consumed, and the rest of the stream.\<close>

record scanner =
  sc_size :: nat
  sc_buf :: string
  sc_rest :: string

definition newline :: char where "newline = CHR 0x0A"

definition drop_cr :: "string \<Rightarrow> string" where
  "drop_cr s = (if s \<noteq> [] \<and> last s = CHR 0x0D then butlast s else s)"

definition read_size :: "nat list \<Rightarrow> nat \<Rightarrow> nat" where
  "read_size ns free = max 1 (min (case ns of [] \<Rightarrow> 1 | n # _ \<Rightarrow> n) free)"

lemma read_size_ge1: "0 < read_size ns free" "read_size ns free \<noteq> 0"
  by (simp_all add: read_size_def)

text \<open>
  \<open>Scan\<close> with \<open>ScanLines\<close>: a full buffer without a line break is an error at the maximum size and
  doubles before; at the end of the stream the bytes left over are a line.
\<close>

function scan_next :: "nat \<Rightarrow> nat list \<Rightarrow> scanner \<Rightarrow> scan_result \<times> nat list \<times> scanner" where
  "scan_next mx ns s =
     (if newline \<in> set (sc_buf s)
      then (ScanLine (drop_cr (takeWhile (\<lambda>c. c \<noteq> newline) (sc_buf s))), ns,
            s\<lparr>sc_buf := tl (dropWhile (\<lambda>c. c \<noteq> newline) (sc_buf s))\<rparr>)
      else if length (sc_buf s) = sc_size s \<and> sc_size s \<ge> mx then (ScanTooLong, ns, s)
      else
        let size = (if length (sc_buf s) = sc_size s then min (2 * sc_size s) mx else sc_size s)
        in if sc_rest s = []
           then (if sc_buf s = [] then ScanEnd else ScanLine (drop_cr (sc_buf s)), ns,
                 s\<lparr>sc_size := size, sc_buf := []\<rparr>)
           else let k = read_size ns (size - length (sc_buf s))
                in scan_next mx (tl ns)
                     \<lparr>sc_size = size, sc_buf = sc_buf s @ take k (sc_rest s), sc_rest = drop k (sc_rest s)\<rparr>)"
  by pat_completeness auto

termination
  by (relation "measure (\<lambda>(mx, ns, s). length (sc_rest s))") (simp_all add: read_size_ge1)

declare scan_next.simps [simp del]

definition unread :: "scanner \<Rightarrow> string" where
  "unread s = sc_buf s @ sc_rest s"

text \<open>What \<open>Scan\<close> answers, from the stream alone: a line is too long when the first \<open>mx\<close> bytes hold no line break.\<close>

definition next_line :: "nat \<Rightarrow> string \<Rightarrow> scan_result \<times> string" where
  "next_line mx t =
     (if newline \<in> set (take mx t)
      then (ScanLine (drop_cr (takeWhile (\<lambda>c. c \<noteq> newline) t)), tl (dropWhile (\<lambda>c. c \<noteq> newline) t))
      else if length t \<ge> mx then (ScanTooLong, t)
      else if t = [] then (ScanEnd, []) else (ScanLine (drop_cr t), []))"

definition sc_ok :: "nat \<Rightarrow> scanner \<Rightarrow> bool" where
  "sc_ok mx s \<longleftrightarrow> length (sc_buf s) \<le> sc_size s \<and> 0 < sc_size s \<and> sc_size s \<le> mx"

lemma tail_line: "newline \<in> set b \<Longrightarrow> takeWhile (\<lambda>c. c \<noteq> newline) (b @ r) = takeWhile (\<lambda>c. c \<noteq> newline) b
    \<and> tl (dropWhile (\<lambda>c. c \<noteq> newline) (b @ r)) = tl (dropWhile (\<lambda>c. c \<noteq> newline) b) @ r"
  by (induction b) auto

lemma read_size_pos: "0 < free \<Longrightarrow> 0 < read_size ns free \<and> read_size ns free \<le> free"
  by (auto simp: read_size_def split: list.split)

lemma scan_next_line:
  assumes "sc_ok mx s"
  shows "case scan_next mx ns s of (res, ns', s') \<Rightarrow>
    (res, unread s') = next_line mx (unread s) \<and> sc_ok mx s'"
  using assms
proof (induction mx ns s rule: scan_next.induct)
  case (1 mx ns s)
  show ?case
  proof (cases "newline \<in> set (sc_buf s)")
    case True
    then have "newline \<in> set (take mx (unread s))"
      using 1(2) by (auto simp: unread_def sc_ok_def)
    moreover have "length (tl (dropWhile (\<lambda>c. c \<noteq> newline) (sc_buf s))) \<le> sc_size s"
      using 1(2) length_dropWhile_le [of "\<lambda>c. c \<noteq> newline" "sc_buf s"] by (auto simp: sc_ok_def)
    ultimately show ?thesis
      using True tail_line [OF True] 1(2) by (subst scan_next.simps) (simp add: next_line_def unread_def sc_ok_def)
  next
    case no: False
    show ?thesis
    proof (cases "length (sc_buf s) = sc_size s \<and> sc_size s \<ge> mx")
      case True
      then have "length (sc_buf s) = mx" using 1(2) by (simp add: sc_ok_def)
      with no True 1(2) show ?thesis by (subst scan_next.simps) (simp add: next_line_def unread_def)
    next
      case room: False
      define size where "size = (if length (sc_buf s) = sc_size s then min (2 * sc_size s) mx else sc_size s)"
      have size: "length (sc_buf s) < size" "size \<le> mx"
        using 1(2) room by (auto simp: size_def sc_ok_def)
      show ?thesis
      proof (cases "sc_rest s = []")
        case True
        with no room 1(2) size show ?thesis
          by (subst scan_next.simps) (simp add: next_line_def unread_def sc_ok_def size_def [symmetric])
      next
        case False
        define k where "k = read_size ns (size - length (sc_buf s))"
        let ?s = "\<lparr>sc_size = size, sc_buf = sc_buf s @ take k (sc_rest s), sc_rest = drop k (sc_rest s)\<rparr>"
        have "sc_ok mx ?s" using size read_size_pos [of "size - length (sc_buf s)" ns] by (auto simp: sc_ok_def k_def)
        moreover have "unread ?s = unread s" by (simp add: unread_def)
        moreover have "scan_next mx ns s = scan_next mx (tl ns) ?s"
          using no room False by (subst scan_next.simps) (auto simp: size_def k_def Let_def)
        ultimately show ?thesis using 1(1) [OF no room size_def False k_def] by simp
      qed
    qed
  qed
qed

lemma scan_next_shorter:
  "scan_next mx ns s = (ScanLine l, ns', s') \<Longrightarrow> length (unread s') < length (unread s)"
proof (induction mx ns s rule: scan_next.induct)
  case (1 mx ns s)
  show ?case
  proof (cases "newline \<in> set (sc_buf s)")
    case True
    have "dropWhile (\<lambda>c. c \<noteq> newline) (sc_buf s) \<noteq> []" using True by simp
    then have "length (tl (dropWhile (\<lambda>c. c \<noteq> newline) (sc_buf s))) < length (sc_buf s)"
      using length_dropWhile_le [of "\<lambda>c. c \<noteq> newline" "sc_buf s"]
      by (cases "dropWhile (\<lambda>c. c \<noteq> newline) (sc_buf s)") auto
    with 1(2) True show ?thesis by (subst (asm) scan_next.simps) (auto simp: unread_def)
  next
    case no: False
    show ?thesis
    proof (cases "length (sc_buf s) = sc_size s \<and> sc_size s \<ge> mx")
      case True
      with 1(2) no show ?thesis by (subst (asm) scan_next.simps) simp
    next
      case room: False
      define size where "size = (if length (sc_buf s) = sc_size s then min (2 * sc_size s) mx else sc_size s)"
      show ?thesis
      proof (cases "sc_rest s = []")
        case True
        have "res = ScanEnd" if "sc_buf s = []" "scan_next mx ns s = (res, n, t)" for res n t
          using that no room True by (subst (asm) scan_next.simps) (auto simp: Let_def)
        then have "sc_buf s \<noteq> []" using 1(2) by fastforce
        moreover have "unread s' = []"
          using 1(2) no room True by (subst (asm) scan_next.simps) (auto simp: unread_def Let_def split: if_splits)
        ultimately show ?thesis by (simp add: unread_def)
      next
        case False
        define k where "k = read_size ns (size - length (sc_buf s))"
        let ?s = "\<lparr>sc_size = size, sc_buf = sc_buf s @ take k (sc_rest s), sc_rest = drop k (sc_rest s)\<rparr>"
        have "scan_next mx ns s = scan_next mx (tl ns) ?s"
          using no room False by (subst scan_next.simps) (auto simp: size_def k_def Let_def)
        then have "length (unread s') < length (unread ?s)"
          using 1(1) [OF no room size_def False k_def] 1(2) by simp
        then show ?thesis by (simp add: unread_def)
      qed
    qed
  qed
qed

section \<open>The decoder\<close>

record envelope =
  ev_type :: string
  ev_id :: string

definition decode_envelope :: "string \<Rightarrow> envelope option" where
  "decode_envelope raw =
     (case Option.bind (json_parse raw) json_object of
        None \<Rightarrow> None
      | Some kvs \<Rightarrow>
          (case (field to_text [] ''type'' kvs, field to_text [] ''id'' kvs) of
             (Some t, Some i) \<Rightarrow> Some \<lparr>ev_type = t, ev_id = i\<rparr>
           | _ \<Rightarrow> None))"

datatype next_result = NextMessage string envelope | NextUndecoded string | NextTooLong | NextEnd

text \<open>\<open>Next\<close>: empty lines are skipped.\<close>

function decoder_next :: "nat \<Rightarrow> nat list \<Rightarrow> scanner \<Rightarrow> next_result \<times> nat list \<times> scanner" where
  "decoder_next mx ns s =
     (case scan_next mx ns s of
        (ScanTooLong, ns', s') \<Rightarrow> (NextTooLong, ns', s')
      | (ScanEnd, ns', s') \<Rightarrow> (NextEnd, ns', s')
      | (ScanLine raw, ns', s') \<Rightarrow>
          if raw = [] then decoder_next mx ns' s'
          else (case decode_envelope raw of
                  None \<Rightarrow> (NextUndecoded raw, ns', s')
                | Some env \<Rightarrow> (NextMessage raw env, ns', s')))"
  by pat_completeness auto

termination
  by (relation "measure (\<lambda>(mx, ns, s). length (unread s))") (auto dest: scan_next_shorter [OF sym])

declare decoder_next.simps [simp del]

text \<open>\<open>NewDecoder\<close>: the maximum, and the buffer of 64 KiB it starts with; \<open>DefaultMaxLine\<close>.\<close>

definition default_max_line :: nat where "default_max_line = 1048576"

definition new_decoder :: "int \<Rightarrow> string \<Rightarrow> nat \<times> scanner" where
  "new_decoder max_line stream =
     (if max_line \<le> 0 then default_max_line else nat max_line, \<lparr>sc_size = 65536, sc_buf = [], sc_rest = stream\<rparr>)"

lemma decoder_next_shorter:
  "decoder_next mx ns s = (NextMessage raw env, ns', s') \<Longrightarrow> length (unread s') < length (unread s)"
proof (induction mx ns s rule: decoder_next.induct)
  case (1 mx ns s)
  obtain res m t where n: "scan_next mx ns s = (res, m, t)" by (cases "scan_next mx ns s")
  show ?case
  proof (cases res)
    case (ScanLine l)
    with n have "length (unread t) < length (unread s)" by (auto dest: scan_next_shorter)
    moreover have "l = [] \<Longrightarrow> length (unread s') < length (unread t)"
      using 1(1) [OF n [unfolded ScanLine, symmetric] refl refl] 1(2) n ScanLine
      by (subst (asm) (2) decoder_next.simps) simp
    moreover have "l \<noteq> [] \<Longrightarrow> s' = t" using 1(2) n ScanLine
      by (subst (asm) decoder_next.simps) (auto split: option.splits)
    ultimately show ?thesis by fastforce
  qed (use 1(2) n in \<open>subst (asm) decoder_next.simps, simp\<close>)+
qed

text \<open>What a read loop gets: the messages, up to the first answer that is not one.\<close>

function decode_all :: "nat \<Rightarrow> nat list \<Rightarrow> scanner \<Rightarrow> (string \<times> envelope) list \<times> next_result" where
  "decode_all mx ns s =
     (case decoder_next mx ns s of
        (NextMessage raw env, ns', s') \<Rightarrow> (case decode_all mx ns' s' of (ms, e) \<Rightarrow> ((raw, env) # ms, e))
      | (e, _, _) \<Rightarrow> ([], e))"
  by pat_completeness auto

termination
  by (relation "measure (\<lambda>(mx, ns, s). length (unread s))") (auto dest: decoder_next_shorter [OF sym])

declare decode_all.simps [simp del]

definition encode_line :: "json \<Rightarrow> string" where
  "encode_line v = json_text v @ [newline]"

text \<open>A printed object as a line of the stream.\<close>

definition line_ok :: "nat \<Rightarrow> json \<Rightarrow> bool" where
  "line_ok mx v \<longleftrightarrow> json_ok v \<and> (\<exists>kvs. v = JObj kvs) \<and> length (json_text v) < mx"

lemma object_text: "json_text (JObj kvs) \<noteq> []" "last (json_text (JObj kvs)) = CHR ''}''"
  by simp_all

lemma line_cut: "newline \<notin> set b \<Longrightarrow>
    takeWhile (\<lambda>c. c \<noteq> newline) (b @ newline # t) = b \<and> dropWhile (\<lambda>c. c \<noteq> newline) (b @ newline # t) = newline # t"
  by (induction b) auto

lemma next_line_encoded:
  assumes "line_ok mx v"
  shows "next_line mx (encode_line v @ t) = (ScanLine (json_text v), t)"
proof -
  have nl: "newline \<notin> set (json_text v)" using assms by (simp add: line_ok_def newline_def text_line)
  have "newline \<in> set (take mx (encode_line v @ t))"
    using assms by (auto simp: line_ok_def encode_line_def take_Cons' split: nat_diff_split)
  moreover have "takeWhile (\<lambda>c. c \<noteq> newline) (encode_line v @ t) = json_text v"
    "dropWhile (\<lambda>c. c \<noteq> newline) (encode_line v @ t) = newline # t"
    using line_cut [OF nl] by (simp_all add: encode_line_def)
  moreover have "drop_cr (json_text v) = json_text v" using assms by (auto simp: line_ok_def drop_cr_def)
  ultimately show ?thesis by (simp add: next_line_def)
qed

lemma decode_encoded:
  assumes "sc_ok mx s" "unread s = concat (map encode_line vs)"
    and "list_all (line_ok mx) vs" "list_all (\<lambda>v. decode_envelope (json_text v) \<noteq> None) vs"
  shows "decode_all mx ns s = (map (\<lambda>v. (json_text v, the (decode_envelope (json_text v)))) vs, NextEnd)"
  using assms
proof (induction vs arbitrary: ns s)
  case Nil
  obtain res m t where n: "scan_next mx ns s = (res, m, t)" by (cases "scan_next mx ns s")
  have "res = ScanEnd" using scan_next_line [OF Nil(1), of ns] Nil n by (auto simp: next_line_def sc_ok_def)
  with n show ?case by (simp add: decode_all.simps decoder_next.simps)
next
  case (Cons v vs)
  obtain res m t where n: "scan_next mx ns s = (res, m, t)" by (cases "scan_next mx ns s")
  have v: "line_ok mx v" using Cons.prems by simp
  have r: "res = ScanLine (json_text v)" "unread t = concat (map encode_line vs)" "sc_ok mx t"
    using scan_next_line [OF Cons.prems(1), of ns] Cons.prems(2) n next_line_encoded [OF v] by auto
  have "json_text v \<noteq> []" using v object_text(1) by (auto simp: line_ok_def)
  moreover obtain env where "decode_envelope (json_text v) = Some env" using Cons.prems(4) by auto
  ultimately have "decoder_next mx ns s = (NextMessage (json_text v) env, m, t)"
    using n r(1) by (subst decoder_next.simps) simp
  with Cons.IH [OF r(3,2)] Cons.prems \<open>decode_envelope (json_text v) = Some env\<close> show ?case
    by (subst decode_all.simps) simp
qed


section \<open>The messages\<close>

text \<open>\<open>Hello\<close> in full. The classes and modes of the protocol are texts; the other values a text could have are outside the model.\<close>

record hello_message =
  hm_version :: string
  hm_priv :: priv_mode
  hm_ipv4 :: bool
  hm_ipv6 :: bool
  hm_pid :: int
  hm_reason :: string

definition priv_text :: "priv_mode \<Rightarrow> string" where
  "priv_text m = (case m of PrivRaw \<Rightarrow> ''raw'' | PrivDatagram \<Rightarrow> ''datagram'' | PrivNone \<Rightarrow> ''none'')"

definition priv_of_text :: "string \<Rightarrow> priv_mode option" where
  "priv_of_text t = List.find (\<lambda>m. priv_text m = t) [PrivRaw, PrivDatagram, PrivNone]"

definition class_of_text :: "string \<Rightarrow> err_class option" where
  "class_of_text t = List.find (\<lambda>c. err_class_text c = t)
     [ErrNone, ErrTimeout, ErrResolve, ErrUnreachable, ErrRefused, ErrPermission, ErrInternal]"

text \<open>What \<open>Marshal\<close> makes of the structs: every field, in the order they are declared. A nil slice is \<open>null\<close>.\<close>

definition hello_json :: "hello_message \<Rightarrow> json" where
  "hello_json h = JObj
     [(''type'', JStr ''hello''), (''version'', JStr (hm_version h)), (''priv'', JStr (priv_text (hm_priv h))),
      (''ipv4'', JBool (hm_ipv4 h)), (''ipv6'', JBool (hm_ipv6 h)), (''pid'', json_int (hm_pid h)),
      (''reason'', JStr (hm_reason h))]"

definition request_json :: "request \<Rightarrow> json" where
  "request_json r = JObj
     [(''type'', JStr ''ping''), (''id'', JStr (rq_id r)), (''target'', JStr (rq_target r)),
      (''count'', json_int (rq_count r)), (''interval_ms'', json_int (rq_interval_ms r)),
      (''payload_bytes'', json_int (rq_payload r)), (''timeout_ms'', json_int (rq_timeout_ms r)),
      (''ttl'', json_int (rq_ttl r)), (''df'', JBool (rq_df r)), (''ipv6'', JBool (rq_ipv6 r))]"

definition result_json :: "ping_result \<Rightarrow> json" where
  "result_json r = JObj
     [(''type'', JStr ''result''), (''id'', JStr (pr_id r)), (''target'', JStr (pr_target r)),
      (''resolved'', JStr (pr_resolved r)), (''sent'', json_int (pr_sent r)), (''received'', json_int (pr_received r)),
      (''lost'', json_int (pr_lost r)), (''reordered'', json_int (pr_reordered r)),
      (''rtt_us'', if pr_rtt_us r = [] then JNull else JArr (map json_int (pr_rtt_us r))),
      (''error'', JStr (pr_error r)), (''error_class'', JStr (err_class_text (pr_class r)))]"

definition cancel_json :: "string \<Rightarrow> json" where
  "cancel_json hid = JObj [(''type'', JStr ''cancel''), (''id'', JStr hid)]"

definition error_json :: "string \<Rightarrow> string \<Rightarrow> err_class \<Rightarrow> json" where
  "error_json hid msg c = JObj
     [(''type'', JStr ''error''), (''id'', JStr hid), (''message'', JStr msg), (''error_class'', JStr (err_class_text c))]"

definition shutdown_json :: json where
  "shutdown_json = JObj [(''type'', JStr ''shutdown'')]"

text \<open>The messages each side writes.\<close>

datatype daemon_message = SendPing request | SendCancel string | SendShutdown

datatype helper_message = SendHello hello_message | SendResult ping_result | SendError string string err_class

fun daemon_json :: "daemon_message \<Rightarrow> json" where
  "daemon_json (SendPing r) = request_json r"
| "daemon_json (SendCancel hid) = cancel_json hid"
| "daemon_json SendShutdown = shutdown_json"

fun helper_json :: "helper_message \<Rightarrow> json" where
  "helper_json (SendHello h) = hello_json h"
| "helper_json (SendResult r) = result_json r"
| "helper_json (SendError hid msg c) = error_json hid msg c"

section \<open>Reading the messages\<close>

definition decode_request :: "string \<Rightarrow> request option" where
  "decode_request raw = do {
     v \<leftarrow> json_parse raw;
     kvs \<leftarrow> json_object v;
     _ \<leftarrow> field to_text [] ''type'' kvs;
     i \<leftarrow> field to_text [] ''id'' kvs;
     tgt \<leftarrow> field to_text [] ''target'' kvs;
     n \<leftarrow> field to_int 0 ''count'' kvs;
     iv \<leftarrow> field to_int 0 ''interval_ms'' kvs;
     pl \<leftarrow> field to_int 0 ''payload_bytes'' kvs;
     tmo \<leftarrow> field to_int 0 ''timeout_ms'' kvs;
     ttl \<leftarrow> field to_int 0 ''ttl'' kvs;
     df \<leftarrow> field to_bool False ''df'' kvs;
     v6 \<leftarrow> field to_bool False ''ipv6'' kvs;
     Some \<lparr>rq_id = i, rq_target = tgt, rq_count = n, rq_interval_ms = iv, rq_payload = pl,
           rq_timeout_ms = tmo, rq_ttl = ttl, rq_df = df, rq_ipv6 = v6\<rparr> }"

text \<open>
  What the daemon makes of a line of the helper. The outer \<open>None\<close> is a text that does not decode; the
  inner one is a class or mode that is none of the constants.
\<close>

definition decode_result :: "string \<Rightarrow> ping_result option option" where
  "decode_result raw = do {
     v \<leftarrow> json_parse raw;
     kvs \<leftarrow> json_object v;
     _ \<leftarrow> field to_text [] ''type'' kvs;
     i \<leftarrow> field to_text [] ''id'' kvs;
     tgt \<leftarrow> field to_text [] ''target'' kvs;
     res \<leftarrow> field to_text [] ''resolved'' kvs;
     s \<leftarrow> field to_int 0 ''sent'' kvs;
     rc \<leftarrow> field to_int 0 ''received'' kvs;
     l \<leftarrow> field to_int 0 ''lost'' kvs;
     ro \<leftarrow> field to_int 0 ''reordered'' kvs;
     rtt \<leftarrow> field to_ints [] ''rtt_us'' kvs;
     e \<leftarrow> field to_text [] ''error'' kvs;
     c \<leftarrow> field to_text [] ''error_class'' kvs;
     Some (map_option (\<lambda>cls. \<lparr>pr_id = i, pr_target = tgt, pr_resolved = res, pr_sent = s, pr_received = rc,
             pr_lost = l, pr_reordered = ro, pr_rtt_us = rtt, pr_error = e, pr_class = cls\<rparr>) (class_of_text c)) }"

definition decode_error :: "string \<Rightarrow> (string \<times> string \<times> err_class) option option" where
  "decode_error raw = do {
     v \<leftarrow> json_parse raw;
     kvs \<leftarrow> json_object v;
     _ \<leftarrow> field to_text [] ''type'' kvs;
     i \<leftarrow> field to_text [] ''id'' kvs;
     m \<leftarrow> field to_text [] ''message'' kvs;
     c \<leftarrow> field to_text [] ''error_class'' kvs;
     Some (map_option (\<lambda>cls. (i, m, cls)) (class_of_text c)) }"

definition decode_hello :: "string \<Rightarrow> hello_message option option" where
  "decode_hello raw = do {
     v \<leftarrow> json_parse raw;
     kvs \<leftarrow> json_object v;
     _ \<leftarrow> field to_text [] ''type'' kvs;
     ver \<leftarrow> field to_text [] ''version'' kvs;
     m \<leftarrow> field to_text [] ''priv'' kvs;
     v4 \<leftarrow> field to_bool False ''ipv4'' kvs;
     v6 \<leftarrow> field to_bool False ''ipv6'' kvs;
     pid \<leftarrow> field to_int 0 ''pid'' kvs;
     why \<leftarrow> field to_text [] ''reason'' kvs;
     Some (map_option (\<lambda>pm. \<lparr>hm_version = ver, hm_priv = pm, hm_ipv4 = v4, hm_ipv6 = v6, hm_pid = pid,
             hm_reason = why\<rparr>) (priv_of_text m)) }"

text \<open>The \<open>switch\<close> of the helper's read loop.\<close>

definition helper_reads :: "string \<times> envelope \<Rightarrow> ping_message" where
  "helper_reads line =
     (case line of (raw, env) \<Rightarrow>
        if ev_type env = ''ping'' then
          (case decode_request raw of None \<Rightarrow> PingUndecoded (ev_id env) | Some r \<Rightarrow> PingRequest r)
        else if ev_type env = ''cancel'' then PingCancel (ev_id env)
        else if ev_type env = ''shutdown'' then PingShutdown
        else PingUnknown)"

definition hello_of :: "hello_message \<Rightarrow> hello" where
  "hello_of h = \<lparr>he_version = hm_version h, he_priv = hm_priv h\<rparr>"

text \<open>
  The \<open>switch\<close> of the daemon's read loop. A hello that does not decode ends the loop (\<open>Inl\<close>); a result or
  an error that does not is passed over. The second \<open>Inl\<close> is a text outside the model.
\<close>

datatype child_stop = HelloUndecoded | OutsideModel

definition within :: "'a option option \<Rightarrow> ('a \<Rightarrow> child_message) \<Rightarrow> child_message \<Rightarrow> child_stop + child_message" where
  "within res f other =
     (case res of None \<Rightarrow> Inr other | Some None \<Rightarrow> Inl OutsideModel | Some (Some x) \<Rightarrow> Inr (f x))"

definition client_reads :: "string \<times> envelope \<Rightarrow> child_stop + child_message" where
  "client_reads line =
     (case line of (raw, env) \<Rightarrow>
        if ev_type env = ''hello'' then
          (if decode_hello raw = None then Inl HelloUndecoded
           else within (decode_hello raw) (\<lambda>h. ChildHello (hello_of h)) ChildUndecoded)
        else if ev_type env = ''result'' then within (decode_result raw) ChildResult ChildUndecoded
        else if ev_type env = ''error'' then
          within (decode_error raw) (\<lambda>(i, m, c). ChildError i m c) ChildUndecoded
        else Inr ChildOther)"

section \<open>Each side reads what the other writes\<close>

text \<open>The integers of a message fit a Go \<open>int\<close>.\<close>

definition request_fits :: "request \<Rightarrow> bool" where
  "request_fits r \<longleftrightarrow> list_all int64 [rq_count r, rq_interval_ms r, rq_payload r, rq_timeout_ms r, rq_ttl r]"

definition result_fits :: "ping_result \<Rightarrow> bool" where
  "result_fits r \<longleftrightarrow> list_all int64 ([pr_sent r, pr_received r, pr_lost r, pr_reordered r] @ pr_rtt_us r)"

fun daemon_fits :: "daemon_message \<Rightarrow> bool" where
  "daemon_fits (SendPing r) = request_fits r"
| "daemon_fits _ = True"

fun helper_fits :: "helper_message \<Rightarrow> bool" where
  "helper_fits (SendHello h) = int64 (hm_pid h)"
| "helper_fits (SendResult r) = result_fits r"
| "helper_fits _ = True"

lemma field_names:
  "fold_case ''type'' = ''type''" "fold_case ''id'' = ''id''" "fold_case ''target'' = ''target''"
  "fold_case ''count'' = ''count''" "fold_case ''interval_ms'' = ''interval_ms''"
  "fold_case ''payload_bytes'' = ''payload_bytes''" "fold_case ''timeout_ms'' = ''timeout_ms''"
  "fold_case ''ttl'' = ''ttl''" "fold_case ''df'' = ''df''" "fold_case ''ipv6'' = ''ipv6''"
  "fold_case ''ipv4'' = ''ipv4''" "fold_case ''pid'' = ''pid''" "fold_case ''reason'' = ''reason''"
  "fold_case ''version'' = ''version''" "fold_case ''priv'' = ''priv''" "fold_case ''resolved'' = ''resolved''"
  "fold_case ''sent'' = ''sent''" "fold_case ''received'' = ''received''" "fold_case ''lost'' = ''lost''"
  "fold_case ''reordered'' = ''reordered''" "fold_case ''rtt_us'' = ''rtt_us''" "fold_case ''error'' = ''error''"
  "fold_case ''error_class'' = ''error_class''" "fold_case ''message'' = ''message''"
  by code_simp+

lemma field_nil: "field conv zero name [] = Some zero"
  by (simp add: field_def)

lemma fold_take_none: "fold (take_field conv name) kvs None = None"
  by (induction kvs) (auto simp: take_field_def)

lemma field_cons: "field conv zero name (kv # kvs) =
   (if fold_case (fst kv) = fold_case name \<and> snd kv \<noteq> JNull
    then (case conv (snd kv) of None \<Rightarrow> None | Some x \<Rightarrow> field conv x name kvs) else field conv zero name kvs)"
  by (simp add: field_def take_field_def fold_take_none split: option.split)

lemmas fields = field_nil field_cons field_names

lemma ints_read: "list_all int64 ks \<Longrightarrow> to_ints (JArr (map json_int ks)) = Some ks"
proof (induction ks)
  case (Cons i js)
  then show ?case by (simp add: int64_def atoi_show_int)
qed simp

lemma class_read: "class_of_text (err_class_text c) = Some c"
  by (cases c) (simp_all add: class_of_text_def err_class_text_def)

lemma priv_read: "priv_of_text (priv_text m) = Some m"
  by (cases m) (simp_all add: priv_of_text_def priv_text_def)

lemma objects_ok:
  "json_ok (hello_json h)" "json_ok (request_json r)" "json_ok (result_json p)" "json_ok (cancel_json hid)"
  "json_ok (error_json hid msg c)" "json_ok shutdown_json"
  by (simp_all add: hello_json_def request_json_def result_json_def cancel_json_def error_json_def shutdown_json_def
      show_int_number list_all_iff)

lemma envelope_read:
  assumes "json_ok (JObj kvs)" "field to_text [] ''type'' kvs = Some t" "field to_text [] ''id'' kvs = Some i"
  shows "decode_envelope (json_text (JObj kvs)) = Some \<lparr>ev_type = t, ev_id = i\<rparr>"
  using assms by (simp add: decode_envelope_def json_roundtrip del: json_text.simps json_ok.simps)

lemma request_read:
  assumes "request_fits r"
  shows "decode_request (json_text (request_json r)) = Some r"
    and "decode_envelope (json_text (request_json r)) = Some \<lparr>ev_type = ''ping'', ev_id = rq_id r\<rparr>"
proof -
  have ok: "json_ok (request_json r)" by (rule objects_ok)
  show "decode_request (json_text (request_json r)) = Some r"
    using assms by (simp add: decode_request_def json_roundtrip [OF ok] del: json_text.simps to_int.simps)
      (simp add: request_json_def fields int_read request_fits_def del: to_int.simps)
  show "decode_envelope (json_text (request_json r)) = Some \<lparr>ev_type = ''ping'', ev_id = rq_id r\<rparr>"
    using ok unfolding request_json_def by (rule envelope_read) (simp_all add: fields)
qed

lemma cancel_read:
  "decode_envelope (json_text (cancel_json hid)) = Some \<lparr>ev_type = ''cancel'', ev_id = hid\<rparr>"
  using objects_ok(4) unfolding cancel_json_def by (rule envelope_read) (simp_all add: fields)

lemma shutdown_read:
  "decode_envelope (json_text shutdown_json) = Some \<lparr>ev_type = ''shutdown'', ev_id = []\<rparr>"
  using objects_ok(6) unfolding shutdown_json_def by (rule envelope_read) (simp_all add: fields)

lemma hello_read:
  assumes "int64 (hm_pid h)"
  shows "decode_hello (json_text (hello_json h)) = Some (Some h)"
    and "decode_envelope (json_text (hello_json h)) = Some \<lparr>ev_type = ''hello'', ev_id = []\<rparr>"
proof -
  have ok: "json_ok (hello_json h)" by (rule objects_ok)
  show "decode_hello (json_text (hello_json h)) = Some (Some h)"
    using assms by (simp add: decode_hello_def json_roundtrip [OF ok] del: json_text.simps to_int.simps)
      (simp add: hello_json_def fields int_read priv_read del: to_int.simps)
  show "decode_envelope (json_text (hello_json h)) = Some \<lparr>ev_type = ''hello'', ev_id = []\<rparr>"
    using ok unfolding hello_json_def by (rule envelope_read) (simp_all add: fields)
qed

lemma error_read:
  "decode_error (json_text (error_json hid msg c)) = Some (Some (hid, msg, c))"
  "decode_envelope (json_text (error_json hid msg c)) = Some \<lparr>ev_type = ''error'', ev_id = hid\<rparr>"
proof -
  have ok: "json_ok (error_json hid msg c)" by (rule objects_ok)
  show "decode_error (json_text (error_json hid msg c)) = Some (Some (hid, msg, c))"
    by (simp add: decode_error_def json_roundtrip [OF ok] del: json_text.simps)
      (simp add: error_json_def fields class_read)
  show "decode_envelope (json_text (error_json hid msg c)) = Some \<lparr>ev_type = ''error'', ev_id = hid\<rparr>"
    using ok unfolding error_json_def by (rule envelope_read) (simp_all add: fields)
qed

text \<open>The samples of a result: \<open>null\<close> stands for none.\<close>

lemma samples_field:
  assumes "list_all int64 ks"
  shows "field to_ints [] ''rtt_us'' ((''rtt_us'', if ks = [] then JNull else JArr (map json_int ks)) # kvs)
    = field to_ints ks ''rtt_us'' kvs"
proof (cases "ks = []")
  case False
  then show ?thesis using ints_read [OF assms] by (simp add: field_cons del: to_ints.simps)
qed (simp add: field_cons)

lemma result_read:
  assumes "result_fits r"
  shows "decode_result (json_text (result_json r)) = Some (Some r)"
    and "decode_envelope (json_text (result_json r)) = Some \<lparr>ev_type = ''result'', ev_id = pr_id r\<rparr>"
proof -
  have ok: "json_ok (result_json r)" by (rule objects_ok)
  show "decode_result (json_text (result_json r)) = Some (Some r)"
  proof (cases "pr_rtt_us r = []")
    case True
    with assms show ?thesis
      by (simp add: decode_result_def json_roundtrip [OF ok] del: json_text.simps to_int.simps)
        (simp add: result_json_def fields int_read class_read result_fits_def del: to_int.simps)
  next
    case False
    have "to_ints (JArr (map json_int (pr_rtt_us r))) = Some (pr_rtt_us r)"
      using assms by (intro ints_read) (simp add: result_fits_def)
    with assms False show ?thesis
      by (simp add: decode_result_def json_roundtrip [OF ok] del: json_text.simps to_int.simps to_ints.simps)
        (simp add: result_json_def fields int_read class_read result_fits_def del: to_int.simps to_ints.simps)
  qed
  show "decode_envelope (json_text (result_json r)) = Some \<lparr>ev_type = ''result'', ev_id = pr_id r\<rparr>"
    using ok unfolding result_json_def by (rule envelope_read) (simp_all add: fields)
qed

text \<open>What the other side makes of a message.\<close>

fun helper_gets :: "daemon_message \<Rightarrow> ping_message" where
  "helper_gets (SendPing r) = PingRequest r"
| "helper_gets (SendCancel hid) = PingCancel hid"
| "helper_gets SendShutdown = PingShutdown"

fun client_gets :: "helper_message \<Rightarrow> child_message" where
  "client_gets (SendHello h) = ChildHello (hello_of h)"
| "client_gets (SendResult r) = ChildResult r"
| "client_gets (SendError hid msg c) = ChildError hid msg c"

lemma daemon_line:
  assumes "daemon_fits m"
  shows "\<exists>env. decode_envelope (json_text (daemon_json m)) = Some env
    \<and> helper_reads (json_text (daemon_json m), env) = helper_gets m"
  using assms by (cases m) (simp_all add: helper_reads_def request_read cancel_read shutdown_read del: json_text.simps)

lemma helper_line:
  assumes "helper_fits m"
  shows "\<exists>env. decode_envelope (json_text (helper_json m)) = Some env
    \<and> client_reads (json_text (helper_json m), env) = Inr (client_gets m)"
  using assms
  by (cases m) (simp_all add: client_reads_def within_def hello_read result_read error_read del: json_text.simps)

section \<open>The read loops\<close>

text \<open>The messages a read loop sees on a stream, whatever the sizes \<open>ns\<close> of the reads, and how the stream ends.\<close>

definition helper_stream :: "nat list \<Rightarrow> string \<Rightarrow> ping_message list \<times> next_result" where
  "helper_stream ns stream =
     (case new_decoder (int default_max_line) stream of (mx, s) \<Rightarrow>
        case decode_all mx ns s of (ls, e) \<Rightarrow> (map helper_reads ls, e))"

definition client_stream :: "nat list \<Rightarrow> string \<Rightarrow> (child_stop + child_message) list \<times> next_result" where
  "client_stream ns stream =
     (case new_decoder (int default_max_line) stream of (mx, s) \<Rightarrow>
        case decode_all mx ns s of (ls, e) \<Rightarrow> (map client_reads ls, e))"

lemma stream_decoded:
  assumes "list_all (line_ok default_max_line) vs" "list_all (\<lambda>v. decode_envelope (json_text v) \<noteq> None) vs"
  shows "(case new_decoder (int default_max_line) (concat (map encode_line vs)) of (mx, s) \<Rightarrow> decode_all mx ns s)
    = (map (\<lambda>v. (json_text v, the (decode_envelope (json_text v)))) vs, NextEnd)"
  unfolding new_decoder_def prod.case
  using assms by (intro decode_encoded) (simp_all add: sc_ok_def unread_def default_max_line_def)

lemma line_object: "\<exists>kvs. daemon_json m = JObj kvs" "\<exists>kvs. helper_json h = JObj kvs"
  by (cases m; simp add: request_json_def cancel_json_def shutdown_json_def)
    (cases h; simp add: hello_json_def result_json_def error_json_def)

text \<open>A message is short enough for the decoder.\<close>

definition daemon_short :: "daemon_message \<Rightarrow> bool" where
  "daemon_short m \<longleftrightarrow> length (json_text (daemon_json m)) < default_max_line"

definition helper_short :: "helper_message \<Rightarrow> bool" where
  "helper_short m \<longleftrightarrow> length (json_text (helper_json m)) < default_max_line"

lemma daemon_line_ok: "daemon_short m \<Longrightarrow> line_ok default_max_line (daemon_json m)"
  using objects_ok line_object(1) [of m] by (cases m) (simp_all add: line_ok_def daemon_short_def del: json_text.simps)

lemma helper_line_ok: "helper_short m \<Longrightarrow> line_ok default_max_line (helper_json m)"
  using objects_ok line_object(2) [of m] by (cases m) (simp_all add: line_ok_def helper_short_def del: json_text.simps)

lemma requests_arrive:
  assumes "list_all (\<lambda>m. daemon_fits m \<and> daemon_short m) ms"
  shows "helper_stream ns (concat (map (encode_line \<circ> daemon_json) ms)) = (map helper_gets ms, NextEnd)"
proof -
  let ?vs = "map daemon_json ms"
  have "list_all (line_ok default_max_line) ?vs" using assms by (auto simp: list_all_iff daemon_line_ok)
  moreover have "list_all (\<lambda>v. decode_envelope (json_text v) \<noteq> None) ?vs"
    using assms daemon_line by (fastforce simp: list_all_iff)
  ultimately have "helper_stream ns (concat (map encode_line ?vs))
      = (map helper_reads (map (\<lambda>v. (json_text v, the (decode_envelope (json_text v)))) ?vs), NextEnd)"
    using stream_decoded [of ?vs ns] by (simp add: helper_stream_def new_decoder_def)
  moreover have "helper_reads (json_text (daemon_json m), the (decode_envelope (json_text (daemon_json m)))) = helper_gets m"
    if "m \<in> set ms" for m using assms that daemon_line [of m] by (auto simp: list_all_iff)
  ultimately show ?thesis by (simp add: o_def del: json_text.simps)
qed

lemma results_arrive:
  assumes "list_all (\<lambda>m. helper_fits m \<and> helper_short m) ms"
  shows "client_stream ns (concat (map (encode_line \<circ> helper_json) ms)) = (map (Inr \<circ> client_gets) ms, NextEnd)"
proof -
  let ?vs = "map helper_json ms"
  have "list_all (line_ok default_max_line) ?vs" using assms by (auto simp: list_all_iff helper_line_ok)
  moreover have "list_all (\<lambda>v. decode_envelope (json_text v) \<noteq> None) ?vs"
    using assms helper_line by (fastforce simp: list_all_iff)
  ultimately have "client_stream ns (concat (map encode_line ?vs))
      = (map client_reads (map (\<lambda>v. (json_text v, the (decode_envelope (json_text v)))) ?vs), NextEnd)"
    using stream_decoded [of ?vs ns] by (simp add: client_stream_def new_decoder_def)
  moreover have "client_reads (json_text (helper_json m), the (decode_envelope (json_text (helper_json m)))) = Inr (client_gets m)"
    if "m \<in> set ms" for m using assms that helper_line [of m] by (auto simp: list_all_iff)
  ultimately show ?thesis by (simp add: o_def del: json_text.simps)
qed


lemma small_short:
  "length (json_text (daemon_json m)) < 300 \<Longrightarrow> daemon_short m" "length (json_text (helper_json h)) < 300 \<Longrightarrow> helper_short h"
  by (simp_all add: daemon_short_def helper_short_def default_max_line_def)

definition demo_requests :: "daemon_message list" where
  "demo_requests = [SendPing demo_request, SendCancel ''7'', SendShutdown]"

definition demo_results :: "helper_message list" where
  "demo_results =
     [SendHello \<lparr>hm_version = ''1'', hm_priv = PrivRaw, hm_ipv4 = True, hm_ipv6 = False, hm_pid = 41, hm_reason = []\<rparr>,
      SendResult \<lparr>pr_id = ''7'', pr_target = ''b'', pr_resolved = ''10.0.0.2'', pr_sent = 2, pr_received = 2,
        pr_lost = 0, pr_reordered = 0, pr_rtt_us = [2000, 500], pr_error = [], pr_class = ErrNone\<rparr>,
      SendError ''8'' ''no such <host>'' ErrResolve]"


section \<open>Requests the helper refuses\<close>

text \<open>The bounds of the helper, in the terms of the configuration.\<close>

definition icmp_in_bounds :: "config \<Rightarrow> target \<Rightarrow> bool" where
  "icmp_in_bounds cfg t \<longleftrightarrow>
     (let c = pr_icmp (cf_probes cfg)
      in ta_address t \<noteq> [] \<and> ic_count c \<le> 1000 \<and> ic_interval c < 60001 * millisecond
         \<and> millisecond \<le> ic_timeout c \<and> ic_timeout c < 60001 * millisecond
         \<and> ic_payload_bytes c \<le> 65000 \<and> 0 \<le> ic_ttl c \<and> ic_ttl c \<le> 255)"

definition icmp_request :: "config \<Rightarrow> target \<Rightarrow> string \<Rightarrow> request" where
  "icmp_request cfg t hid = request_of hid t (fst (task_params (cf_probes cfg) KindICMP))"

lemma millisecond_bounds:
  "60000 < a div millisecond \<longleftrightarrow> 60001 * millisecond \<le> a" "a div millisecond \<le> 60000 \<longleftrightarrow> a < 60001 * millisecond"
  "0 < a div millisecond \<longleftrightarrow> millisecond \<le> a" "a div millisecond \<le> 0 \<longleftrightarrow> a < millisecond"
  "a div millisecond < 0 \<longleftrightarrow> a < 0"
proof -
  have "millisecond * (a div millisecond) + a mod millisecond = a" "0 \<le> a mod millisecond" "a mod millisecond < millisecond"
    by (simp_all add: millisecond_def)
  then show "60000 < a div millisecond \<longleftrightarrow> 60001 * millisecond \<le> a" "a div millisecond \<le> 60000 \<longleftrightarrow> a < 60001 * millisecond"
    "0 < a div millisecond \<longleftrightarrow> millisecond \<le> a" "a div millisecond \<le> 0 \<longleftrightarrow> a < millisecond"
    "a div millisecond < 0 \<longleftrightarrow> a < 0"
    unfolding millisecond_def by linarith+
qed

lemma if_none: "(if b then Some x else e) = None \<longleftrightarrow> \<not> b \<and> e = None"
  by simp

lemma validate_request_none: "validate_request r = None \<longleftrightarrow> rq_id r \<noteq> [] \<and> rq_target r \<noteq> []
    \<and> 0 < rq_count r \<and> rq_count r \<le> 1000 \<and> 0 \<le> rq_interval_ms r \<and> rq_interval_ms r \<le> 60000
    \<and> 0 < rq_timeout_ms r \<and> rq_timeout_ms r \<le> 60000 \<and> 8 \<le> rq_payload r \<and> rq_payload r \<le> 65000
    \<and> 0 \<le> rq_ttl r \<and> rq_ttl r \<le> 255"
  unfolding validate_request_def if_none de_Morgan_disj not_le not_less by (simp only: simp_thms conj_assoc)

lemma helper_accepts:
  assumes "validate cfg = []" "ic_enabled (pr_icmp (cf_probes cfg))" "hid \<noteq> []"
  shows "validate_request (icmp_request cfg t hid) = None \<longleftrightarrow> icmp_in_bounds cfg t"
proof -
  let ?c = "pr_icmp (cf_probes cfg)"
  have c: "0 < ic_count ?c" "8 \<le> ic_payload_bytes ?c" "0 < ic_timeout ?c" "0 \<le> ic_interval ?c"
    using assms(1,2) by (simp_all add: validate_iff_ok config_ok_def probes_ok_def probe_ok_def)
  have ms: "0 < millisecond" by (simp add: millisecond_def)
  have "rq_interval_ms (icmp_request cfg t hid) = ic_interval ?c div millisecond"
    "rq_timeout_ms (icmp_request cfg t hid) = ic_timeout ?c div millisecond"
    using c ms by (simp_all add: icmp_request_def request_of_def task_params_def go_div_nonneg Let_def)
  moreover have "rq_id (icmp_request cfg t hid) = hid" "rq_target (icmp_request cfg t hid) = ta_address t"
    "rq_count (icmp_request cfg t hid) = ic_count ?c" "rq_payload (icmp_request cfg t hid) = ic_payload_bytes ?c"
    "rq_ttl (icmp_request cfg t hid) = ic_ttl ?c"
    by (simp_all add: icmp_request_def request_of_def task_params_def Let_def)
  ultimately have "validate_request (icmp_request cfg t hid) = None \<longleftrightarrow> hid \<noteq> [] \<and> ta_address t \<noteq> []
      \<and> 0 < ic_count ?c \<and> ic_count ?c \<le> 1000 \<and> 0 \<le> ic_interval ?c div millisecond \<and> ic_interval ?c < 60001 * millisecond
      \<and> millisecond \<le> ic_timeout ?c \<and> ic_timeout ?c < 60001 * millisecond \<and> 8 \<le> ic_payload_bytes ?c
      \<and> ic_payload_bytes ?c \<le> 65000 \<and> 0 \<le> ic_ttl ?c \<and> ic_ttl ?c \<le> 255"
    by (simp only: validate_request_none millisecond_bounds)
  moreover have "0 \<le> ic_interval ?c div millisecond" using c(4) ms by (simp only: pos_imp_zdiv_nonneg_iff)
  ultimately show ?thesis
    using c(1,2) assms(3) unfolding icmp_in_bounds_def Let_def by blast
qed

text \<open>
  C38: a configuration that passes validation can make every ICMP probe fail. The helper accepts the request
  of a probe exactly when the count is at most 1000, the interval below 60.001 seconds, the timeout between one
  millisecond and 60.001 seconds, the payload at most 65000 bytes, the hop limit between 0 and 255 and the
  address is not empty; \<open>Validate\<close> checks none of these bounds. Otherwise the helper sends no packet and
  answers with an internal error, and when that answer reaches the waiter of the probe, the cycle it returns has
  nothing sent and counts as failed.
\<close>

theorem icmp_bounds_unchecked:
  assumes "validate cfg = []" "ic_enabled (pr_icmp (cf_probes cfg))" "hid \<noteq> []" "msg \<noteq> []"
    and "cl_inv c" "map_of (cl_waiting c) hid = Some i" "cyc = new_cycle KindICMP t now"
  shows "(validate_request (icmp_request cfg t hid) = None \<longleftrightarrow> icmp_in_bounds cfg t)
    \<and> (icmp_in_bounds cfg t \<or>
       dispatch look v4 v6 (PingRequest (icmp_request cfg t hid)) p = (p, [PingRefused hid ErrInternal], True)
       \<and> (\<exists>c'. icmp_end WaitResult i cyc (fst (child_message (ChildError hid msg ErrInternal) c))
            = Some (cyc\<lparr>cy_err := Some plain_err, cy_class := ErrInternal\<rparr>, c', None)))"
proof -
  note acc = helper_accepts [OF assms(1,2,3), of t]
  have "dispatch look v4 v6 (PingRequest (icmp_request cfg t hid)) p = (p, [PingRefused hid ErrInternal], True)"
    if "\<not> icmp_in_bounds cfg t"
    using acc that by (auto simp: dispatch_def icmp_request_def request_of_def split: option.split)
  moreover have i: "i < length (cl_waiters c)" "wt_box (cl_waiters c ! i) = None"
    using assms(5,6) by (auto simp: cl_inv_def filed_def dest!: map_of_SomeD)
  then have "\<exists>c'. icmp_end WaitResult i cyc (fst (child_message (ChildError hid msg ErrInternal) c))
            = Some (cyc\<lparr>cy_err := Some plain_err, cy_class := ErrInternal\<rparr>, c', None)"
    using assms(4,6,7)
    by (simp add: icmp_end_def child_message_def settle_waiter_def result_cycle_def error_result_def new_cycle_def Let_def)
  ultimately show ?thesis using acc by blast
qed

text \<open>The defaults with the file provider on and 2000 packets a cycle.\<close>

definition many_packets :: config where
  "many_packets = file_only\<lparr>cf_node_id := ''n1'', cf_probes := (cf_probes file_only)
     \<lparr>pr_icmp := (pr_icmp (cf_probes file_only))\<lparr>ic_count := 2000\<rparr>\<rparr>\<rparr>"

theorem icmp_bounds_unchecked_witness:
  "validate many_packets = [] \<and> \<not> icmp_in_bounds many_packets demo_target
   \<and> dispatch (\<lambda>_. Inr (''10.0.0.2'', False)) True True (PingRequest (icmp_request many_packets demo_target ''1'')) new_pinger
     = (new_pinger, [PingRefused ''1'' ErrInternal], True)"
proof -
  define c where "c = (new_client \<lparr>mp_path = [], mp_restart_backoff_min = 1, mp_restart_backoff_max = 9,
      mp_hello_timeout = 5\<rparr>)\<lparr>cl_waiting := [(''1'', 0)], cl_waiters := [\<lparr>wt_id = ''1'', wt_box = None\<rparr>]\<rparr>"
  have v: "validate many_packets = []" "ic_enabled (pr_icmp (cf_probes many_packets))" by code_simp+
  have b: "\<not> icmp_in_bounds many_packets demo_target" by code_simp
  have "cl_inv c" "map_of (cl_waiting c) ''1'' = Some 0"
    by (simp_all add: c_def new_client_def cl_inv_def gm_wf_def filed_def waiters_ok_def)
  from icmp_bounds_unchecked [OF v _ _ this refl, of "''bad''" demo_target "\<lambda>_. Inr (''10.0.0.2'', False)" True True
      new_pinger 5] v b show ?thesis by simp
qed


end
