(* ===== verification/Session.thy ===== *)
theory Session
  imports Protocol
begin

text \<open>
  Models the life of the helper process on both sides: how the helper opens its sockets, says hello and
  ends (\<open>main\<close>, \<open>openSockets\<close>, \<open>applyTTL\<close>, \<open>shutdown\<close> of \<open>cmd/meshping/main.go\<close>), and how the daemon starts it, waits for its hello, reads
  its messages and restarts it (\<open>Run\<close>, \<open>session\<close>, \<open>readLoop\<close> of \<open>internal/probe/icmp/client.go\<close>). The
  client side is a machine whose events are what the goroutines of a run meet: a line, the end of the stream, the hello
  timeout, the exit of the child, the end of a wait, a probe. The lemmas show when ICMP is available, that nothing
  waits for a helper that is gone, and how a reader that stops while the child lives blocks the run.
\<close>

section \<open>The start of the helper\<close>

text \<open>\<open>icmp.ListenPacket\<close> is an argument: the error text of a network, or \<open>None\<close> when its socket is open.\<close>

definition open_sockets :: "(string \<Rightarrow> string option) \<Rightarrow> bool \<times> bool \<times> priv_mode \<times> string option" where
  "open_sockets listen =
     (if listen ''udp4'' = None then (True, listen ''udp6'' = None, PrivDatagram, None)
      else if listen ''ip4:icmp'' \<noteq> None then (False, False, PrivNone, listen ''ip4:icmp'')
      else (True, listen ''ip6:ipv6-icmp'' = None, PrivRaw, None))"

text \<open>
  \<open>main\<close> up to its read loop: the hello it writes, and the exit code it ends with or the sockets it
  goes on with. Whether the hello could be written is an argument; dropping privileges is only logged.
\<close>

definition helper_boot :: "(string \<Rightarrow> string option) \<Rightarrow> int \<Rightarrow> bool \<Rightarrow> hello_message \<times> (nat + bool \<times> bool)" where
  "helper_boot listen pid written =
     (case open_sockets listen of (v4, v6, mode, err) \<Rightarrow>
        if err \<noteq> None \<or> mode = PrivNone then
          (\<lparr>hm_version = ''1'', hm_priv = PrivNone, hm_ipv4 = False, hm_ipv6 = False, hm_pid = pid,
            hm_reason = (case err of None \<Rightarrow> ''no icmp permission'' | Some e \<Rightarrow> e)\<rparr>, Inl 3)
        else
          (\<lparr>hm_version = ''1'', hm_priv = mode, hm_ipv4 = v4, hm_ipv6 = v6, hm_pid = pid, hm_reason = []\<rparr>,
           if written then Inr (v4, v6) else Inl 4))"

text \<open>The hop limits of the two sockets, and what the start of a job does to the one it sends on.\<close>

definition apply_ttl :: "request \<Rightarrow> bool \<Rightarrow> (bool \<Rightarrow> int option) \<Rightarrow> bool \<Rightarrow> int option" where
  "apply_ttl r v6 hop = (if rq_ttl r \<le> 0 then hop else hop(v6 := Some (rq_ttl r)))"

section \<open>The end of the helper\<close>

text \<open>The read loop has ended: the context of every job is cancelled, and the jobs end one after another.\<close>

definition cancel_jobs :: "pinger \<Rightarrow> pinger" where
  "cancel_jobs p = p\<lparr>pn_inflight := map (\<lambda>(hid, j). (hid, j\<lparr>jb_cancelled := True\<rparr>)) (pn_inflight p)\<rparr>"

fun finish_jobs :: "string list \<Rightarrow> pinger \<Rightarrow> pinger \<times> ping_result list" where
  "finish_jobs [] p = (p, [])"
| "finish_jobs (hid # hids) p =
     (case finish_job hid p of (p1, out) \<Rightarrow>
        case finish_jobs hids p1 of (p2, outs) \<Rightarrow> (p2, (case out of None \<Rightarrow> [] | Some r \<Rightarrow> [r]) @ outs))"

text \<open>
  \<open>shutdown\<close>: it waits until the jobs are done or the grace period is over, whichever is first, and
  then closes the sockets. A job is done by \<open>done_at\<close>, its end.
\<close>

definition helper_shutdown :: "dur \<Rightarrow> (string \<times> dur) list \<Rightarrow> pinger \<Rightarrow> pinger \<times> ping_result list \<times> dur" where
  "helper_shutdown grace ends p =
     (let in_time = filter (\<lambda>(_, t). t \<le> grace) ends;
          closed = (if list_all (\<lambda>(_, t). t \<le> grace) ends then fold max (map snd ends) 0 else grace)
      in case finish_jobs (map fst in_time) (cancel_jobs p) of (p', out) \<Rightarrow> (p', out, closed))"

section \<open>The run of the client\<close>

text \<open>
  Where \<open>session\<close> is: at its \<open>select\<close>, waiting for the reader after the timeout, or in \<open>cmd.Wait\<close>; with
  whether the child lives and whether the reader runs.
\<close>

datatype place = AtSelect | AtReader | AtReap

datatype phase = Top | Session place bool bool | Delay dur | Returned

record run =
  ir_client :: client
  ir_attempt :: int
  ir_phase :: phase
  ir_late :: bool

definition new_run :: "meshping_config \<Rightarrow> run" where
  "new_run cfg = \<lparr>ir_client = new_client cfg, ir_attempt = 0, ir_phase = Top, ir_late = False\<rparr>"

text \<open>What follows \<open>session\<close> in \<open>Run\<close>.\<close>

definition session_over :: "bool \<Rightarrow> run \<Rightarrow> run" where
  "session_over cancelled r =
     (if cancelled then r\<lparr>ir_client := fail_all ((ir_client r)\<lparr>cl_avail := False\<rparr>), ir_phase := Returned\<rparr>
      else case child_exit (ir_attempt r) (ir_client r) of
             (c, None) \<Rightarrow> r\<lparr>ir_client := c, ir_phase := Returned\<rparr>
           | (c, Some (n, d)) \<Rightarrow> r\<lparr>ir_client := c, ir_attempt := n, ir_phase := Delay d\<rparr>)"

text \<open>One pass of the reader: the client, and whether the reader goes on.\<close>

definition read_line :: "child_stop + child_message \<Rightarrow> client \<Rightarrow> client \<times> bool" where
  "read_line line c =
     (case line of Inl _ \<Rightarrow> (c, False) | Inr msg \<Rightarrow> (case child_message msg c of (c', stop) \<Rightarrow> (c', \<not> stop)))"

text \<open>
  The events: the top of the loop with the error of starting the child, a line or the end of the stream at
  the reader, the hello timeout, the reader's answer on the channel, the exit of the child, the return of
  \<open>cmd.Wait\<close>, the end of the delay, a probe. A killed session may leave its reader behind, which goes on for a while.
  An event that cannot happen changes nothing.
\<close>

datatype run_event =
    RTop bool "err option" | RLine "child_stop + child_message" | RStreamEnd | RHelloTimeout bool | RReaderDone
  | RChildExit | RReap bool | RDelayOver bool | RLateLine "child_stop + child_message" | RLateEnd
  | RBegin time target probe_params "err option" | REnd wait_end nat cycle

fun run_step :: "run_event \<Rightarrow> run \<Rightarrow> run" where
  "run_step (RTop cancelled failed) r =
     (if ir_phase r \<noteq> Top then r
      else if cancelled then r\<lparr>ir_phase := Returned\<rparr>
      else if failed \<noteq> None then session_over False r
      else r\<lparr>ir_client := session_start (ir_client r), ir_phase := Session AtSelect True True\<rparr>)"
| "run_step (RLine line) r =
     (case ir_phase r of
        Session at alive True \<Rightarrow>
          (case read_line line (ir_client r) of (c, goes) \<Rightarrow> r\<lparr>ir_client := c, ir_phase := Session at alive goes\<rparr>)
      | _ \<Rightarrow> r)"
| "run_step RStreamEnd r =
     (case ir_phase r of Session at alive True \<Rightarrow> r\<lparr>ir_phase := Session at alive False\<rparr> | _ \<Rightarrow> r)"
| "run_step (RHelloTimeout cancelled) r =
     (case ir_phase r of
        Session AtSelect alive reading \<Rightarrow>
          if cl_avail (ir_client r) then r\<lparr>ir_phase := Session AtReader alive reading\<rparr>
          else session_over cancelled (r\<lparr>ir_late := ir_late r \<or> reading\<rparr>)
      | _ \<Rightarrow> r)"
| "run_step RReaderDone r =
     (case ir_phase r of
        Session at alive False \<Rightarrow> if at = AtReap then r else r\<lparr>ir_phase := Session AtReap alive False\<rparr>
      | _ \<Rightarrow> r)"
| "run_step RChildExit r =
     (case ir_phase r of Session at _ reading \<Rightarrow> r\<lparr>ir_phase := Session at False reading\<rparr> | _ \<Rightarrow> r)"
| "run_step (RReap cancelled) r =
     (case ir_phase r of Session AtReap False _ \<Rightarrow> session_over cancelled r | _ \<Rightarrow> r)"
| "run_step (RDelayOver cancelled) r =
     (case ir_phase r of Delay _ \<Rightarrow> r\<lparr>ir_phase := (if cancelled then Returned else Top)\<rparr> | _ \<Rightarrow> r)"
| "run_step (RLateLine line) r =
     (if \<not> ir_late r then r
      else case read_line line (ir_client r) of (c, goes) \<Rightarrow> r\<lparr>ir_client := c, ir_late := goes\<rparr>)"
| "run_step RLateEnd r = r\<lparr>ir_late := False\<rparr>"
| "run_step (RBegin now t pr e) r = r\<lparr>ir_client := client_step (CBegin now t pr e) (ir_client r)\<rparr>"
| "run_step (REnd how i cyc) r = r\<lparr>ir_client := client_step (CEnd how i cyc) (ir_client r)\<rparr>"

section \<open>When ICMP is available\<close>

text \<open>
  The hello decides. The daemon reads back the hello the helper wrote; ICMP becomes available exactly
  when the helper could open an IPv4 socket, with or without privileges. Otherwise the helper exits with
  code 3, also when it could have opened an IPv6 socket, the reader stops, and the client gives up for good.
\<close>

theorem hello_decides:
  assumes "int64 pid" "\<not> cl_avail c" "\<not> cl_fatal c" "helper_boot listen pid written = (h, go)"
    and "v4 \<longleftrightarrow> listen ''udp4'' = None \<or> listen ''ip4:icmp'' = None"
  shows "\<exists>env msg c'. decode_envelope (json_text (hello_json h)) = Some env
    \<and> client_reads (json_text (hello_json h), env) = Inr msg \<and> child_message msg c = (c', \<not> v4)
    \<and> (cl_avail c' \<longleftrightarrow> v4) \<and> (cl_fatal c' \<longleftrightarrow> \<not> v4)
    \<and> go = (if v4 then (if written then Inr (True, hm_ipv6 h) else Inl 4) else Inl 3)"
proof -
  have "helper_fits (SendHello h)" using assms(1,4)
    by (auto simp: helper_boot_def open_sockets_def split: if_splits)
  from helper_line [OF this] obtain env where
    e: "decode_envelope (json_text (hello_json h)) = Some env"
      "client_reads (json_text (hello_json h), env) = Inr (ChildHello (hello_of h))" by auto
  have "hm_version h = ''1''" "hm_priv h = PrivNone \<longleftrightarrow> \<not> v4"
    and go: "go = (if v4 then (if written then Inr (True, hm_ipv6 h) else Inl 4) else Inl 3)"
    using assms(4,5) by (auto simp: helper_boot_def open_sockets_def split: if_splits)
  then have "child_message (ChildHello (hello_of h)) c
     = (c\<lparr>cl_hello := Some (hello_of h), cl_avail := v4, cl_fatal := \<not> v4\<rparr>, \<not> v4)"
    using assms(2,3) by (auto simp: child_message_def hello_of_def Let_def)
  with e go show ?thesis by (intro exI conjI) (auto simp del: json_text.simps)
qed

text \<open>A host where only an IPv6 socket can be opened.\<close>

theorem hello_decides_witness:
  "\<exists>h env msg c'. helper_boot (\<lambda>net. if net = ''udp6'' then None else Some ''denied'') 7 True = (h, Inl 3)
    \<and> decode_envelope (json_text (hello_json h)) = Some env \<and> client_reads (json_text (hello_json h), env) = Inr msg
    \<and> child_message msg (new_client \<lparr>mp_path = [], mp_restart_backoff_min = 1, mp_restart_backoff_max = 9,
        mp_hello_timeout = 5\<rparr>) = (c', True) \<and> \<not> cl_avail c' \<and> cl_fatal c'"
proof -
  let ?l = "\<lambda>net. if net = ''udp6'' then None else Some ''denied''"
  let ?c = "new_client \<lparr>mp_path = [], mp_restart_backoff_min = 1, mp_restart_backoff_max = 9, mp_hello_timeout = 5\<rparr>"
  obtain h go where b: "helper_boot ?l 7 True = (h, go)" by (cases "helper_boot ?l 7 True")
  have p: "int64 7" "\<not> cl_avail ?c" "\<not> cl_fatal ?c" by (simp_all add: int64_def min_int64_def max_int64_def new_client_def)
  have "False \<longleftrightarrow> ?l ''udp4'' = None \<or> ?l ''ip4:icmp'' = None" by simp
  from hello_decides [OF p b this] b show ?thesis by auto
qed

section \<open>Between two sessions\<close>

lemma client_step_frame:
  "cl_avail (client_step (CBegin now t pr e) c) = cl_avail c" "cl_avail (client_step (CEnd how i cyc) c) = cl_avail c"
  "\<not> cl_avail c \<Longrightarrow> cl_waiting (client_step (CBegin now t pr e) c) = cl_waiting c"
  "cl_waiting c = [] \<Longrightarrow> cl_waiting (client_step (CEnd how i cyc) c) = []"
  by (auto simp: icmp_begin_def icmp_end_def Let_def split: option.splits wait_end.splits)

lemma session_over_client:
  "\<not> cl_avail (ir_client (session_over b r)) \<and> cl_waiting (ir_client (session_over b r)) = []
    \<and> (ir_phase (session_over b r) = Returned \<or> (\<exists>d. ir_phase (session_over b r) = Delay d))
    \<and> ir_late (session_over b r) = ir_late r"
  by (auto simp: session_over_def child_exit_def fail_all_def Let_def)

definition in_session :: "run \<Rightarrow> bool" where
  "in_session r \<longleftrightarrow> (case ir_phase r of Session _ _ _ \<Rightarrow> True | _ \<Rightarrow> False)"

text \<open>A hello read after its session was killed.\<close>

fun late_hello :: "run_event \<Rightarrow> bool" where
  "late_hello (RLateLine (Inr (ChildHello h))) = True"
| "late_hello _ = False"

text \<open>Outside a session nothing waits and the client is not available; in \<open>cmd.Wait\<close> the reader has stopped.\<close>

definition run_inv :: "run \<Rightarrow> bool" where
  "run_inv r \<longleftrightarrow> cl_inv (ir_client r)
     \<and> (in_session r \<or> \<not> cl_avail (ir_client r) \<and> cl_waiting (ir_client r) = [])
     \<and> (\<forall>alive reading. ir_phase r = Session AtReap alive reading \<longrightarrow> \<not> reading)"

lemma session_over_inv: "cl_inv (ir_client r) \<Longrightarrow> run_inv (session_over b r)"
proof -
  assume inv: "cl_inv (ir_client r)"
  have "cl_inv (fail_all ((ir_client r)\<lparr>cl_avail := False\<rparr>))"
    using inv by (intro fail_all_inv) (simp add: cl_inv_def)
  moreover have "cl_inv (fst (child_exit n (ir_client r)))" for n
    using client_step_inv [OF inv, of "CExit n"] by simp
  ultimately have "cl_inv (ir_client (session_over b r))"
    by (auto simp: session_over_def split: prod.split option.split) (metis fst_conv)+
  with session_over_client [of b r] show ?thesis by (auto simp: run_inv_def)
qed

lemma read_line_inv: "cl_inv c \<Longrightarrow> cl_inv (fst (read_line line c))"
  using client_step_inv [of c "CMessage msg" for msg]
  by (auto simp: read_line_def split: sum.split prod.split) (metis fst_conv)

lemma run_step_inv:
  assumes "run_inv r" "\<not> late_hello ev"
  shows "run_inv (run_step ev r)"
proof -
  have cl: "cl_inv (ir_client r)" using assms(1) by (simp add: run_inv_def)
  note over = session_over_inv [OF cl] session_over_inv [of "r\<lparr>ir_late := l\<rparr>" for l, simplified, OF cl]
  show ?thesis
  proof (cases ev)
    case (RTop cancelled failed)
    with assms(1) over show ?thesis by auto (auto simp: run_inv_def in_session_def session_start_def cl_inv_def)
  next
    case (RLine line)
    with assms read_line_inv [OF cl, of line] show ?thesis
      by (auto simp: run_inv_def in_session_def split: phase.split bool.split prod.split)
  next
    case RStreamEnd
    with assms show ?thesis by (auto simp: run_inv_def in_session_def split: phase.split bool.split)
  next
    case (RHelloTimeout cancelled)
    with assms(1) over show ?thesis
      by (auto split: phase.split place.split) (auto simp: run_inv_def in_session_def)
  next
    case RReaderDone
    with assms show ?thesis by (auto simp: run_inv_def in_session_def split: phase.split bool.split)
  next
    case RChildExit
    with assms show ?thesis by (auto simp: run_inv_def in_session_def split: phase.split)
  next
    case (RReap cancelled)
    with assms(1) over show ?thesis by (auto split: phase.split place.split bool.split)
  next
    case (RDelayOver cancelled)
    with assms show ?thesis by (auto simp: run_inv_def in_session_def split: phase.split)
  next
    case (RLateLine line)
    have "cl_avail (fst (read_line line c)) = cl_avail c \<and> (cl_waiting c = [] \<longrightarrow> cl_waiting (fst (read_line line c)) = [])"
      for c using assms(2)
      by (cases line; cases "projr line") (auto simp: RLateLine read_line_def child_message_def settle_waiter_def)
    from this [of "ir_client r"] read_line_inv [OF cl, of line] assms show ?thesis
      by (auto simp: RLateLine run_inv_def in_session_def split: prod.split phase.splits)
  next
    case (RBegin now t pr e)
    with assms client_step_inv [OF cl, of "CBegin now t pr e"] client_step_frame show ?thesis
      by (auto simp: run_inv_def in_session_def simp del: client_step.simps)
  next
    case (REnd how i cyc)
    with assms client_step_inv [OF cl, of "CEnd how i cyc"] client_step_frame show ?thesis
      by (auto simp: run_inv_def in_session_def simp del: client_step.simps)
  qed (use assms in \<open>auto simp: run_inv_def in_session_def\<close>)
qed

lemma session_run_inv: "run_inv r \<Longrightarrow> list_all (\<lambda>e. \<not> late_hello e) evs \<Longrightarrow> run_inv (fold run_step evs r)"
  by (induction evs arbitrary: r) (simp_all add: run_step_inv del: run_step.simps)

lemma new_run_inv: "run_inv (new_run cfg)"
  by (simp add: run_inv_def new_run_def new_client_def in_session_def cl_inv_def gm_wf_def filed_def waiters_ok_def)


definition demo_run_config :: meshping_config where
  "demo_run_config = \<lparr>mp_path = [], mp_restart_backoff_min = 1, mp_restart_backoff_max = 9, mp_hello_timeout = 5\<rparr>"

definition demo_hello :: child_message where
  "demo_hello = ChildHello \<lparr>he_version = ''1'', he_priv = PrivRaw\<rparr>"


text \<open>The exception exists: during the delay the client is available though there is no helper.\<close>

lemma late_hello_available:
  "let r = fold run_step [RTop False None, RHelloTimeout False, RLateLine (Inr demo_hello)] (new_run demo_run_config)
   in \<not> in_session r \<and> cl_avail (ir_client r)"
  by code_simp

section \<open>A reader that stops while the helper lives\<close>

definition wedged :: "run \<Rightarrow> bool" where
  "wedged r \<longleftrightarrow> cl_avail (ir_client r) \<and> \<not> ir_late r \<and> (\<exists>at. ir_phase r = Session at True False)"

text \<open>The waiters \<open>ws\<close> as they were, and behind them waiters without a result.\<close>

definition more_empty :: "waiter list \<Rightarrow> client \<Rightarrow> bool" where
  "more_empty ws c \<longleftrightarrow> (\<exists>us. cl_waiters c = ws @ us \<and> list_all (\<lambda>w. wt_box w = None) us)"

lemma client_step_more:
  assumes "more_empty ws c"
  shows "more_empty ws (client_step (CBegin now t pr e) c)" "more_empty ws (client_step (CEnd how i cyc) c)"
  using assms by (auto simp: more_empty_def icmp_begin_def icmp_end_def Let_def split: option.splits wait_end.splits)

lemma wedged_step:
  assumes "wedged r" "more_empty ws (ir_client r)" "ev \<noteq> RChildExit"
  shows "wedged (run_step ev r) \<and> more_empty ws (ir_client (run_step ev r))"
proof -
  obtain at where p: "ir_phase r = Session at True False" using assms(1) by (auto simp: wedged_def)
  show ?thesis
  proof (cases ev)
    case (RBegin now t pr e)
    with assms p client_step_frame client_step_more [OF assms(2)] show ?thesis
      by (simp add: wedged_def del: client_step.simps)
  next
    case (REnd how i cyc)
    with assms p client_step_frame client_step_more [OF assms(2)] show ?thesis
      by (simp add: wedged_def del: client_step.simps)
  qed (use assms p in \<open>auto simp: wedged_def split: place.split\<close>)
qed

lemma wedged_run:
  "wedged r \<Longrightarrow> more_empty ws (ir_client r) \<Longrightarrow> RChildExit \<notin> set evs \<Longrightarrow>
    wedged (fold run_step evs r) \<and> more_empty ws (ir_client (fold run_step evs r))"
proof (induction evs arbitrary: r)
  case (Cons ev evs)
  have "wedged (run_step ev r) \<and> more_empty ws (ir_client (run_step ev r))"
    using Cons.prems by (intro wedged_step) auto
  with Cons.IH Cons.prems(3) show ?case by simp
qed simp

text \<open>
  C37: a reader that stops early blocks ICMP for good. When the reader of the client has ended (a line that is too long or
  does not decode, a second hello that does not decode) while the helper lives and ICMP is available, then, as long as
  the helper does not exit by itself or with the daemon, the session never ends: nothing kills the helper, ICMP stays available, every
  probe that begins is sent to the helper and waits for a result that no message can bring, until its limit or
  its context ends it as a timeout.
\<close>

theorem stopped_reader_blocks:
  assumes "wedged r" "RChildExit \<notin> set evs" "c = ir_client (fold run_step evs r)"
    and "length (cl_waiters (ir_client r)) \<le> i" "i < length (cl_waiters c)"
  shows "wedged (fold run_step evs r) \<and> icmp_end WaitResult i cyc c = None
    \<and> icmp_end WaitLimit i cyc c = Some (cyc\<lparr>cy_err := Some plain_err, cy_class := ErrTimeout\<rparr>,
        c\<lparr>cl_waiting := AList.delete (wt_id (cl_waiters c ! i)) (cl_waiting c)\<rparr>,
        if cl_enc c then Some (wt_id (cl_waiters c ! i)) else None)"
proof -
  have "more_empty (cl_waiters (ir_client r)) (ir_client r)" by (simp add: more_empty_def)
  from wedged_run [OF assms(1) this assms(2)]
  have w: "wedged (fold run_step evs r)" "more_empty (cl_waiters (ir_client r)) c" by (simp_all add: assms(3))
  then have "wt_box (cl_waiters c ! i) = None"
    using assms(4,5) by (auto simp: more_empty_def list_all_iff nth_append)
  with w show ?thesis by (simp add: icmp_end_def Let_def)
qed

text \<open>A line that is too long, then a probe, and the helper answers.\<close>

theorem stopped_reader_blocks_witness:
  "let r = fold run_step [RTop False None, RLine (Inr demo_hello), RStreamEnd] (new_run demo_run_config);
       c = ir_client (fold run_step [RReaderDone, RBegin 5 demo_target demo_ping_params None,
             RLine (Inr (ChildResult (exit_result ''1''))), RReap False, RHelloTimeout False] r)
   in map wt_id (cl_waiters c) = [''1''] \<and> icmp_end WaitResult 0 (new_cycle KindICMP demo_target 5) c = None"
proof -
  define r where "r = fold run_step [RTop False None, RLine (Inr demo_hello), RStreamEnd] (new_run demo_run_config)"
  define evs where "evs = [RReaderDone, RBegin 5 demo_target demo_ping_params None,
      RLine (Inr (ChildResult (exit_result ''1''))), RReap False, RHelloTimeout False]"
  define c where "c = ir_client (fold run_step evs r)"
  have w: "wedged r"
    by (simp add: r_def wedged_def new_run_def read_line_def demo_hello_def child_message_def Let_def)
  have "length (cl_waiters (ir_client r)) = 0" "map wt_id (cl_waiters c) = [''1'']"
    unfolding c_def evs_def r_def by code_simp+
  moreover from this have "length (cl_waiters c) = 1" by (metis One_nat_def length_Cons length_map list.size(3))
  moreover have "RChildExit \<notin> set evs" by (simp add: evs_def)
  ultimately show ?thesis
    using stopped_reader_blocks [OF w _ c_def, of 0 "new_cycle KindICMP demo_target 5"]
    unfolding c_def [unfolded evs_def, symmetric] r_def [symmetric] Let_def by simp
qed

section \<open>The end of the helper\<close>

text \<open>A job that asks for no hop limit runs with the one an earlier job set.\<close>

lemma hop_limit_sticks: "0 < rq_ttl r1 \<Longrightarrow> rq_ttl r2 \<le> 0 \<Longrightarrow> apply_ttl r2 v6 (apply_ttl r1 v6 hop) v6 = Some (rq_ttl r1)"
  by (simp add: apply_ttl_def)

lemma finish_jobs_inv: "pn_inv p \<Longrightarrow> pn_inv (fst (finish_jobs hids p))"
proof (induction hids arbitrary: p)
  case (Cons hid hids)
  have "pn_inv (fst (finish_job hid p))" by (rule finish_job_inv [OF Cons.prems])
  with Cons.IH [of "fst (finish_job hid p)"] show ?case by (simp add: split_beta)
qed simp

lemma finish_job_result:
  assumes "pn_inv p" "map_of (pn_inflight p) hid = Some j"
  obtains r where "snd (finish_job hid p) = Some r" "pr_id r = hid"
    "pn_inflight (fst (finish_job hid p)) = AList.delete hid (pn_inflight p)"
proof -
  have "rq_id (jb_req j) = hid" using assms by (auto simp: pn_inv_def job_ok_def)
  moreover have "pr_id (fst (fold collect_sample xs (r, n))) = pr_id r" for xs r n
  proof (induction xs arbitrary: r n)
    case (Cons s xs)
    then show ?case by (cases "sm_received s") (simp_all add: collect_sample_def Let_def)
  qed simp
  then have "pr_id (collect store j) = rq_id (jb_req j)" for store by (simp add: collect_def)
  ultimately show ?thesis
    using assms(2) that by (auto simp: finish_job_def Let_def split: option.split)
qed

lemma finish_jobs_all:
  assumes "pn_inv p" "distinct hids" "set hids \<subseteq> fst ` set (pn_inflight p)"
  shows "map pr_id (snd (finish_jobs hids p)) = hids
    \<and> fst ` set (pn_inflight (fst (finish_jobs hids p))) = fst ` set (pn_inflight p) - set hids"
  using assms
proof (induction hids arbitrary: p)
  case (Cons hid hids)
  have "map_of (pn_inflight p) hid \<noteq> None" using Cons.prems(3) by (simp add: map_of_eq_None_iff)
  then obtain j where j: "map_of (pn_inflight p) hid = Some j" by auto
  obtain r where r: "snd (finish_job hid p) = Some r" "pr_id r = hid"
    "pn_inflight (fst (finish_job hid p)) = AList.delete hid (pn_inflight p)"
    using finish_job_result [OF Cons.prems(1) j] .
  let ?p = "fst (finish_job hid p)"
  have del: "fst ` set (pn_inflight ?p) = fst ` set (pn_inflight p) - {hid}"
    unfolding r(3) by (auto simp: AList.delete_eq image_iff)
  have "pn_inv ?p" using Cons.prems(1) by (rule finish_job_inv)
  moreover have "set hids \<subseteq> fst ` set (pn_inflight ?p)" using Cons.prems(2,3) del by auto
  ultimately have IH: "map pr_id (snd (finish_jobs hids ?p)) = hids"
    "fst ` set (pn_inflight (fst (finish_jobs hids ?p))) = fst ` set (pn_inflight ?p) - set hids"
    using Cons.IH [of ?p] Cons.prems(2) by simp_all
  with r del show ?case by (auto simp: split_beta)
qed simp

lemma cancel_jobs_keys: "fst ` set (pn_inflight (cancel_jobs p)) = fst ` set (pn_inflight p)"
  by (force simp: cancel_jobs_def)

lemma cancel_jobs_inv: "pn_inv p \<Longrightarrow> pn_inv (cancel_jobs p)"
proof -
  have "map_of (map (\<lambda>(hid, j). (hid, j\<lparr>jb_cancelled := True\<rparr>)) m) h
      = map_option (\<lambda>j. j\<lparr>jb_cancelled := True\<rparr>) (map_of m h)" for m :: "(string, job) gomap" and h
    by (induction m) auto
  then show "pn_inv p \<Longrightarrow> ?thesis" by (auto simp: pn_inv_def cancel_jobs_def job_ok_def)
qed

lemma fold_max_bound: "\<forall>t \<in> set ts. t \<le> g \<Longrightarrow> (a :: int) \<le> g \<Longrightarrow> fold max ts a \<le> g"
  by (induction ts arbitrary: a) auto



end
