(* ===== verification/EchoWire.thy ===== *)
theory EchoWire
  imports MeshPing
begin

text \<open>
  Models the packets of \<open>cmd/meshping/main.go\<close>: \<open>buildMessage\<close>, and what becomes of the answer to a packet while the helper
  goes on with other jobs. Sequence numbers have 16 bits and all jobs share them; neither the identifier nor the
  address of an answer is looked at. The lemmas show which answers are counted and with which time, and what
  happens when two jobs in flight share a number.
\<close>

section \<open>Echo requests\<close>

record echo_request =
  eq_type :: nat
  eq_code :: nat
  eq_id :: int
  eq_seq :: int
  eq_data :: "8 word list"

text \<open>The identifier is the low half of the process number; the types are those of RFC 792 and RFC 4443.\<close>

definition echo_ident :: "int \<Rightarrow> int" where
  "echo_ident pid = pid mod 65536"

definition build_message :: "int \<Rightarrow> bool \<Rightarrow> request \<Rightarrow> 64 word \<Rightarrow> 16 word \<Rightarrow> echo_request" where
  "build_message pid v6 r nanos seq =
     \<lparr>eq_type = (if v6 then 128 else 8), eq_code = 0, eq_id = echo_ident pid, eq_seq = int (unat seq),
      eq_data = build_payload (rq_payload r) seq nanos\<rparr>"

text \<open>An echo reply returns the number and the data of the request. Its identifier may be another: a datagram socket rewrites it.\<close>

definition echo_reply :: "echo_request \<Rightarrow> icmp_message" where
  "echo_reply m = EchoBody True (eq_seq m) (eq_data m)"

lemma payload_shape:
  "length (build_payload n seq nanos) = nat (max 8 n)" "has_magic (build_payload n seq nanos)"
  by (auto simp: build_payload_def has_magic_def magic_def length_be_bytes Let_def)

lemma reply_taken:
  "receive_reply (echo_reply (build_message pid v6 r nanos seq)) now p =
     (case map_of (pn_pending p) seq of
        None \<Rightarrow> p
      | Some i \<Rightarrow>
          if sm_received (pn_samples p ! i) then p
          else p\<lparr>pn_samples := (pn_samples p)[i := (pn_samples p ! i)\<lparr>sm_received := True, sm_recv_at := now\<rparr>],
                 pn_pending := AList.delete seq (pn_pending p)\<rparr>)"
proof -
  have "of_int (eq_seq (build_message pid v6 r nanos seq)) = seq" by (simp add: build_message_def)
  then show ?thesis by (simp add: receive_reply_def echo_reply_def payload_shape build_message_def split: option.split)
qed

section \<open>Sequence numbers\<close>

lemma seq_apart:
  assumes "0 < m" "m < 65536"
  shows "(ucast (s + of_nat m :: 32 word) :: 16 word) \<noteq> ucast s"
proof
  assume "(ucast (s + of_nat m :: 32 word) :: 16 word) = ucast s"
  then have "unat (ucast (s + of_nat m :: 32 word) :: 16 word) = unat (ucast s :: 16 word)" by simp
  then have "(unat s + m) mod 4294967296 mod 65536 = unat s mod 65536"
    using assms by (simp add: unsigned_ucast_eq take_bit_eq_mod unat_word_ariths unat_of_nat)
  then have "(unat s + m) mod 65536 = unat s mod 65536" by (simp add: mod_mod_cancel)
  then have "65536 dvd m" using mod_eq_dvd_iff_nat [of "unat s" "unat s + m" 65536] by simp
  with assms have "65536 \<le> m" by (intro dvd_imp_le)
  with assms show False by simp
qed

section \<open>The answer to a packet\<close>

text \<open>A packet is out: its sample waits under its number, and no other job in flight has a sample with that number.\<close>

definition out_packet :: "16 word \<Rightarrow> nat \<Rightarrow> sample \<Rightarrow> string \<Rightarrow> pinger \<Rightarrow> bool" where
  "out_packet q i s hid p \<longleftrightarrow> map_of (pn_pending p) q = Some i \<and> i < length (pn_samples p) \<and> pn_samples p ! i = s
     \<and> (\<exists>j. map_of (pn_inflight p) hid = Some j \<and> i \<in> set (jb_sent j))
     \<and> (\<forall>hid' j k. map_of (pn_inflight p) hid' = Some j \<and> k \<in> set (jb_sent j) \<and> hid' \<noteq> hid
          \<longrightarrow> sm_seq (pn_samples p ! k) \<noteq> q)"

fun is_send :: "ping_event \<Rightarrow> bool" where
  "is_send (EvSend _ _) = True"
| "is_send _ = False"

fun answers_to :: "16 word \<Rightarrow> ping_event \<Rightarrow> bool" where
  "answers_to q (EvReply (EchoBody True n _) _) = (of_int n = q)"
| "answers_to q _ = False"

lemma send_cases:
  obtains "send_packet hid out p = p"
  | j s j' where "map_of (pn_inflight p) hid = Some j" "sm_seq s = ucast (pn_seq p + 1)" "jb_sent j' = jb_sent j @ [length (pn_samples p)]"
    "send_packet hid out p = p\<lparr>pn_seq := pn_seq p + 1, pn_samples := pn_samples p @ [s],
       pn_pending := AList.update (ucast (pn_seq p + 1)) (length (pn_samples p)) (pn_pending p),
       pn_inflight := AList.update hid j' (pn_inflight p)\<rparr>"
proof (cases "map_of (pn_inflight p) hid")
  case (Some j)
  show ?thesis
  proof (cases "jb_cancelled j")
    case False
    show ?thesis
      by (rule that(2) [OF Some, of "\<lparr>sm_seq = ucast (pn_seq p + 1), sm_job = hid,
            sm_sent_at = (case out of Marshalled t _ \<Rightarrow> t | NotMarshalled _ \<Rightarrow> 0), sm_recv_at = 0, sm_received = False,
            sm_order = length (jb_sent j)\<rparr>"
          "case out of NotMarshalled msg \<Rightarrow> note_ping_error (msg, ErrInternal) (j\<lparr>jb_sent := jb_sent j @ [length (pn_samples p)]\<rparr>)
            | Marshalled _ (Some e) \<Rightarrow> note_ping_error e (j\<lparr>jb_sent := jb_sent j @ [length (pn_samples p)]\<rparr>)
            | Marshalled _ None \<Rightarrow> j\<lparr>jb_sent := jb_sent j @ [length (pn_samples p)]\<rparr>"])
        (simp_all add: send_packet_def Some False Let_def split: send_outcome.split option.split)
  qed (use that(1) Some in \<open>simp add: send_packet_def\<close>)
qed (use that(1) in \<open>simp add: send_packet_def\<close>)

lemma inflight_range: "pn_inv p \<Longrightarrow> map_of (pn_inflight p) hid = Some j \<Longrightarrow> k \<in> set (jb_sent j) \<Longrightarrow> k < length (pn_samples p)"
  by (auto simp: pn_inv_def job_ok_def in_set_conv_nth)

lemma out_send:
  assumes "pn_inv p" "out_packet q i s hid p" "ucast (pn_seq p + 1) \<noteq> q"
  shows "out_packet q i s hid (send_packet hid' out p)"
proof (cases hid' out p rule: send_cases)
  case (2 j t j')
  note range = inflight_range [OF assms(1)]
  show ?thesis using assms(2,3) 2 range [of hid'] range
    by (auto simp: out_packet_def update_conv nth_append split: if_splits) blast+
qed (use assms in simp)

lemma out_finish:
  assumes "out_packet q i s hid p" "hid' \<noteq> hid"
  shows "out_packet q i s hid (fst (finish_job hid' p))"
  using assms by (auto simp: out_packet_def finish_job_def Let_def map_of_del map_of_del_all split: option.split)

lemma out_reply:
  assumes "pn_inv p" "out_packet q i s hid p" "\<not> answers_to q (EvReply msg now)"
  shows "out_packet q i s hid (receive_reply msg now p)"
proof (cases "receive_reply msg now p = p")
  case False
  let ?mark = "\<lambda>s. s\<lparr>sm_received := True, sm_recv_at := now\<rparr>"
  from False obtain n d k where m: "msg = EchoBody True n d" "map_of (pn_pending p) (of_int n) = Some k"
    and eq: "receive_reply msg now p = p\<lparr>pn_samples := (pn_samples p)[k := ?mark (pn_samples p ! k)],
      pn_pending := AList.delete (of_int n) (pn_pending p)\<rparr>"
    by (auto simp: receive_reply_def split: icmp_message.splits bool.splits option.splits if_splits)
  have n: "of_int n \<noteq> q" using assms(3) m by simp
  have "map_of (pn_pending p) q = Some i" using assms(2) by (simp add: out_packet_def)
  with assms(1) m(2) n have "i \<noteq> k" by (metis pn_inv_def)
  with assms(2) n nth_update_field [of sm_seq ?mark "pn_samples p" k] show ?thesis
    unfolding eq by (auto simp: out_packet_def map_of_del)
qed (use assms in simp)

lemma out_dispatch:
  "out_packet q i s hid p \<Longrightarrow> out_packet q i s hid (fst (dispatch look v4 v6 msg p))"
  by (auto simp: out_packet_def dispatch_def start_job_def cancel_job_def update_conv
      split: ping_message.split option.splits sum.splits if_splits)

lemma seq_frame:
  "pn_seq (fst (dispatch look v4 v6 msg p)) = pn_seq p" "pn_seq (receive_reply m now p) = pn_seq p"
  "pn_seq (fst (finish_job hid p)) = pn_seq p"
  "pn_seq (send_packet hid out p) = pn_seq p \<or> pn_seq (send_packet hid out p) = pn_seq p + 1"
  by (auto simp: dispatch_def start_job_def cancel_job_def receive_reply_def finish_job_def send_packet_def Let_def
      split: ping_message.split option.splits sum.splits icmp_message.splits bool.splits)

lemma out_run:
  assumes "pn_inv p" "out_packet (ucast s0) i s hid p" "pn_seq p = s0 + of_nat k"
    and "k + length (filter is_send evs) < 65536" "EvFinish hid \<notin> set evs" "list_all (\<lambda>e. \<not> answers_to (ucast s0) e) evs"
  shows "out_packet (ucast s0) i s hid (fold ping_step evs p)"
  using assms
proof (induction evs arbitrary: p k)
  case (Cons ev evs)
  have inv: "pn_inv (ping_step ev p)" using pinging.run_keeps [OF Cons.prems(1), of "[ev]"] by simp
  have rest: "EvFinish hid \<notin> set evs" "list_all (\<lambda>e. \<not> answers_to (ucast s0) e) evs" using Cons.prems by simp_all
  show ?case
  proof (cases ev)
    case (EvSend hid' out)
    have nx: "pn_seq p + 1 = s0 + of_nat (Suc k)" by (simp add: Cons.prems(3))
    have "ucast (pn_seq p + 1) \<noteq> (ucast s0 :: 16 word)"
      unfolding nx by (rule seq_apart) (use Cons.prems(4) EvSend in simp_all)
    from out_send [OF Cons.prems(1,2) this, of hid' out] EvSend
    have out: "out_packet (ucast s0) i s hid (ping_step ev p)" by simp
    have "\<exists>k' \<le> Suc k. pn_seq (ping_step ev p) = s0 + of_nat k'"
      using seq_frame(4) [of hid' out p] Cons.prems(3) EvSend nx by (metis le_Suc_eq order_refl ping_step.simps(2))
    then obtain k' where "k' \<le> Suc k" "pn_seq (ping_step ev p) = s0 + of_nat k'" by blast
    with Cons.IH [OF inv out this(2)] rest Cons.prems(4) EvSend show ?thesis by simp
  next
    case (EvMessage look v4 v6 msg)
    with Cons.IH [OF inv _ _ _ rest, of k] Cons.prems(3,4) out_dispatch [OF Cons.prems(2)] seq_frame(1) show ?thesis by simp
  next
    case (EvReply msg now)
    with Cons.IH [OF inv _ _ _ rest, of k] Cons.prems(3,4,6) out_reply [OF Cons.prems(1,2), of msg now] seq_frame(2)
    show ?thesis by simp
  next
    case (EvFinish hid')
    with Cons.prems(5) have "hid' \<noteq> hid" by auto
    with Cons.IH [OF inv _ _ _ rest, of k] Cons.prems(3,4) out_finish [OF Cons.prems(2)] seq_frame(3) EvFinish
    show ?thesis by simp
  qed
qed simp

lemma sent_out:
  assumes "pn_inv p" "map_of (pn_inflight p) hid = Some j" "\<not> jb_cancelled j" "q = ucast (pn_seq p + 1)"
    and "\<And>hid' j' k. map_of (pn_inflight p) hid' = Some j' \<Longrightarrow> k \<in> set (jb_sent j') \<Longrightarrow> sm_seq (pn_samples p ! k) \<noteq> q"
  shows "out_packet q (length (pn_samples p)) \<lparr>sm_seq = q, sm_job = hid, sm_sent_at = at, sm_recv_at = 0,
      sm_received = False, sm_order = length (jb_sent j)\<rparr> hid (send_packet hid (Marshalled at err) p)
    \<and> pn_seq (send_packet hid (Marshalled at err) p) = pn_seq p + 1"
proof -
  have sent: "jb_sent (note_ping_error e x) = jb_sent x" for e x by simp
  from assms inflight_range [OF assms(1)] show ?thesis
    by (auto simp: out_packet_def send_packet_def Let_def update_conv nth_append split: option.split if_splits)
qed

text \<open>
  C32: the answer to a packet is counted for it. When a job in flight sends a packet, then whatever other messages,
  packets, answers and ends of other jobs come in between, the reply to that packet marks its sample, and the result of the job has
  the time from its sending to the reading of the reply among its round trips; a second reply changes nothing. It
  holds as long as the job does not end first, nothing else carries the number of the packet, fewer than 65535 packets
  follow it, and no job in flight already has a packet of that number.
\<close>

theorem echo_reply_counted:
  assumes "p = fold ping_step before new_pinger" "map_of (pn_inflight p) hid = Some j" "\<not> jb_cancelled j"
    and "q = ucast (pn_seq p + 1)"
    and "\<And>hid' j' k. map_of (pn_inflight p) hid' = Some j' \<Longrightarrow> k \<in> set (jb_sent j') \<Longrightarrow> sm_seq (pn_samples p ! k) \<noteq> q"
    and "length (filter is_send after) < 65535" "EvFinish hid \<notin> set after" "list_all (\<lambda>e. \<not> answers_to q e) after"
    and "msg = echo_reply (build_message pid v6 (jb_req j) nanos q)"
    and "p2 = receive_reply msg now (fold ping_step after (send_packet hid (Marshalled at err) p))"
  shows "(\<exists>p3 res. finish_job hid p2 = (p3, Some res) \<and> micros (tm_sub now at) \<in> set (pr_rtt_us res))
    \<and> receive_reply msg again p2 = p2"
proof -
  let ?p0 = "send_packet hid (Marshalled at err) p" and ?i = "length (pn_samples p)"
  let ?p1 = "fold ping_step after ?p0"
  let ?s = "\<lparr>sm_seq = q, sm_job = hid, sm_sent_at = at, sm_recv_at = 0, sm_received = False, sm_order = length (jb_sent j)\<rparr>"
  have inv: "pn_inv p" using pinging.run_keeps [OF new_pinger_inv] assms(1) by simp
  then have inv0: "pn_inv ?p0" by (rule send_packet_inv)
  have inv1: "pn_inv ?p1" by (rule pinging.run_keeps [OF inv0])
  have "out_packet (ucast (pn_seq p + 1)) ?i ?s hid ?p1"
    by (rule out_run [OF inv0, where k = 0])
      (use sent_out [OF inv assms(2-5)] assms(4,6-8) in simp_all)
  then obtain j1 where o: "map_of (pn_pending ?p1) q = Some ?i" "?i < length (pn_samples ?p1)" "pn_samples ?p1 ! ?i = ?s"
    "map_of (pn_inflight ?p1) hid = Some j1" "?i \<in> set (jb_sent j1)"
    by (auto simp: out_packet_def assms(4))
  have p2: "p2 = ?p1\<lparr>pn_samples := (pn_samples ?p1)[?i := ?s\<lparr>sm_received := True, sm_recv_at := now\<rparr>],
      pn_pending := AList.delete q (pn_pending ?p1)\<rparr>"
    by (simp add: assms(9,10) reply_taken o)
  have inv2: "pn_inv p2" unfolding assms(10) by (rule receive_reply_inv [OF inv1])
  obtain res where fin: "finish_job hid p2 = (fst (finish_job hid p2), Some res)"
    by (simp add: finish_job_def p2 o Let_def)
  have "?s\<lparr>sm_received := True, sm_recv_at := now\<rparr> \<in> set (filter sm_received (job_samples p2 hid))"
    using o by (force simp: job_samples_def p2)
  then have "micros (tm_sub now at) \<in> set (pr_rtt_us res)"
    using finish_exact [OF inv2 fin] by (force simp: sample_rtt_def)
  moreover have "receive_reply msg again p2 = p2" by (simp add: assms(9) reply_taken p2 map_of_del)
  ultimately show ?thesis using fin by blast
qed

text \<open>The first of two packets is answered after the second was sent.\<close>

theorem echo_reply_counted_witness:
  "let begun = fold ping_step [EvMessage (\<lambda>_. Inr (''10.0.0.2'', False)) True False (PingRequest demo_request)] new_pinger;
       msg = echo_reply (build_message 41 False demo_request 0 1);
       p2 = receive_reply msg 3000000
         (fold ping_step [EvSend ''7'' (Marshalled 2000000 None)] (send_packet ''7'' (Marshalled 1000000 None) begun))
   in (\<exists>p3 res. finish_job ''7'' p2 = (p3, Some res) \<and> 2000 \<in> set (pr_rtt_us res)) \<and> receive_reply msg 9000000 p2 = p2"
proof -
  define begun where
    "begun = fold ping_step [EvMessage (\<lambda>_. Inr (''10.0.0.2'', False)) True False (PingRequest demo_request)] new_pinger"
  define j where "j = \<lparr>jb_req = demo_request, jb_resolved = ''10.0.0.2'', jb_sent = [], jb_error = None, jb_cancelled = False\<rparr>"
  have b: "pn_inflight begun = [(''7'', j)]" "ucast (pn_seq begun + 1) = (1 :: 16 word)"
    unfolding begun_def j_def by code_simp+
  then have at: "map_of (pn_inflight begun) ''7'' = Some j" "\<not> jb_cancelled j" "jb_req j = demo_request"
    by (simp_all add: j_def)
  have none: "sm_seq (pn_samples begun ! k) \<noteq> 1"
    if "map_of (pn_inflight begun) hid' = Some j'" "k \<in> set (jb_sent j')" for hid' j' k
    using that by (auto simp: b j_def split: if_splits)
  have "micros (tm_sub 3000000 1000000) = 2000" by code_simp
  moreover have "(\<exists>p3 res. finish_job ''7'' p2 = (p3, Some res) \<and> micros (tm_sub 3000000 1000000) \<in> set (pr_rtt_us res))
      \<and> receive_reply (echo_reply (build_message 41 False demo_request 0 1)) 9000000 p2 = p2"
    if "p2 = receive_reply (echo_reply (build_message 41 False demo_request 0 1)) 3000000
      (fold ping_step [EvSend ''7'' (Marshalled 2000000 None)] (send_packet ''7'' (Marshalled 1000000 None) begun))" for p2
    by (rule echo_reply_counted [OF begun_def at(1,2) b(2) [symmetric] _ _ _ _ refl that [folded at(3)], unfolded at(3)])
      (use none in simp_all)
  ultimately show ?thesis unfolding begun_def [symmetric] Let_def by metis
qed

section \<open>What else reaches a sample\<close>

text \<open>
  When a job ends, the entries of all its numbers go, whoever they belong to: with 65536 packets between
  two packets of one number, the end of the older job makes the answer of the younger one a loss.
\<close>

lemma shared_number_lost:
  assumes "map_of (pn_inflight p) old = Some j" "k \<in> set (jb_sent j)" "sm_seq (pn_samples p ! k) = q"
  shows "receive_reply (echo_reply (build_message pid v6 r nanos q)) now (fst (finish_job old p)) = fst (finish_job old p)"
  using assms by (auto simp: reply_taken finish_job_def Let_def map_of_del_all split: option.split)

text \<open>
  A raw socket reads the echo replies of every program of the machine. One with the number of a packet that
  is out is counted for it when its data is shorter than eight bytes, whatever they are, or come from another helper.
\<close>

lemma foreign_reply_counted:
  assumes "map_of (pn_pending p) (of_int n) = Some i" "\<not> sm_received (pn_samples p ! i)" "i < length (pn_samples p)"
    and "length d < 8 \<or> (\<exists>m len nanos. d = build_payload len m nanos)"
  shows "sm_received (pn_samples (receive_reply (EchoBody True n d) now p) ! i)"
  using assms by (auto simp: receive_reply_def payload_shape)

end
