(* ===== verification/Durations.thy ===== *)
theory Durations
  imports Json Config
begin

text \<open>
  Models the text form of durations (\<open>Duration\<close> of \<open>internal/config/config.go\<close>) over
  \<open>time.Duration.String\<close> and \<open>time.ParseDuration\<close>, which are written to their published source: the parser adds
  up numbers with units in 64 bits and turns a fraction into nanoseconds in float64. The lemmas show
  that a duration is read back from the text it is printed as, for every value of 64 bits.
\<close>

section \<open>Printing\<close>

text \<open>\<open>fmtFrac\<close>: the last \<open>n\<close> digits behind a point, without trailing zeros, and the number before it.\<close>

fun fmt_frac :: "nat \<Rightarrow> nat \<Rightarrow> string \<Rightarrow> string \<times> nat" where
  "fmt_frac 0 v out = (if out = [] then [] else CHR ''.'' # out, v)"
| "fmt_frac (Suc n) v out =
     fmt_frac n (v div 10) (if out \<noteq> [] \<or> v mod 10 \<noteq> 0 then digit_char (v mod 10) # out else [])"

definition micro_sign :: string where "micro_sign = [CHR 0xC2, CHR 0xB5, CHR ''s'']"

definition small_text :: "nat \<Rightarrow> nat \<Rightarrow> string \<Rightarrow> string" where
  "small_text prec n unit = (case fmt_frac prec n [] of (frac, v) \<Rightarrow> show_nat v @ frac @ unit)"

definition clock_text :: "nat \<Rightarrow> string" where
  "clock_text n =
     (case fmt_frac 9 n [] of (frac, secs) \<Rightarrow>
        (let mins = secs div 60; hours = mins div 60;
             s = show_nat (secs mod 60) @ frac @ ''s''
         in if mins = 0 then s
            else if hours = 0 then show_nat (mins mod 60) @ ''m'' @ s
            else show_nat hours @ ''h'' @ show_nat (mins mod 60) @ ''m'' @ s))"

definition duration_text :: "dur \<Rightarrow> string" where
  "duration_text d =
     (let n = nat \<bar>d\<bar>
      in if n = 0 then ''0s''
         else (if d < 0 then ''-'' else [])
           @ (if n < 1000 then small_text 0 n ''ns''
              else if n < 1000000 then small_text 3 n micro_sign
              else if n < 1000000000 then small_text 6 n ''ms''
              else clock_text n))"

section \<open>Parsing\<close>

definition digits_value :: "string \<Rightarrow> nat" where
  "digits_value ds = undigits10 (map (\<lambda>c. of_char c - 48) ds) 0"

text \<open>\<open>leadingFraction\<close>: the digits and their scale; digits that do not fit are dropped.\<close>

definition frac_digit :: "char \<Rightarrow> nat \<times> f64 \<times> bool \<Rightarrow> nat \<times> f64 \<times> bool" where
  "frac_digit c acc =
     (case acc of (x, scale, over) \<Rightarrow>
        if over \<or> x > (2 ^ 63 - 1) div 10 \<or> 10 * x + (of_char c - 48) > 2 ^ 63 then (x, scale, True)
        else (10 * x + (of_char c - 48), f64_mul scale (F64 10 0), False))"

definition frac_value :: "string \<Rightarrow> nat \<times> f64" where
  "frac_value ds = (case fold frac_digit ds (0, F64 1 0, False) of (x, scale, _) \<Rightarrow> (x, scale))"

definition duration_units :: "(string \<times> nat) list" where
  "duration_units = [(''ns'', 1), (micro_sign, 1000), ([CHR 0xCE, CHR 0xBC, CHR ''s''], 1000), (''us'', 1000),
     (''ms'', 1000000), (''s'', 1000000000), (''m'', 60000000000), (''h'', 3600000000000)]"

text \<open>One number with its fraction and unit: its nanoseconds and what follows it.\<close>

definition parse_section :: "string \<Rightarrow> (nat \<times> string) option" where
  "parse_section s =
     (let ds = takeWhile is_digit s; r = dropWhile is_digit s; v = digits_value ds;
          dot = (r \<noteq> [] \<and> hd r = CHR ''.'');
          fs = (if dot then takeWhile is_digit (tl r) else []);
          r1 = (if dot then dropWhile is_digit (tl r) else r);
          unit = takeWhile (\<lambda>c. \<not> (c = CHR ''.'' \<or> is_digit c)) r1;
          rest = dropWhile (\<lambda>c. \<not> (c = CHR ''.'' \<or> is_digit c)) r1
      in if v > 2 ^ 63 \<or> ds = [] \<and> fs = [] then None
         else (case map_of duration_units unit of
                 None \<Rightarrow> None
               | Some u \<Rightarrow>
                   if v > 2 ^ 63 div u then None
                   else (case frac_value fs of (f, scale) \<Rightarrow>
                     (let w = v * u + (if f > 0 then nat (f64_trunc (f64_mul (f64_of_int (int f))
                                                   (f64_div (f64_of_int (int u)) scale))) else 0)
                      in if w > 2 ^ 63 then None else Some (w, rest)))))"

lemma dropWhile_shorter: "takeWhile P s \<noteq> [] \<Longrightarrow> length (dropWhile P s) < length s"
proof -
  assume "takeWhile P s \<noteq> []"
  moreover have "length (takeWhile P s) + length (dropWhile P s) = length s"
    by (metis length_append takeWhile_dropWhile_id)
  ultimately show ?thesis by (metis add_less_same_cancel2 gr_zeroI length_0_conv less_add_same_cancel2)
qed

lemma parse_section_shorter: "parse_section s = Some (w, rest) \<Longrightarrow> length rest < length s"
proof -
  assume p: "parse_section s = Some (w, rest)"
  define r where "r = dropWhile is_digit s"
  define r1 where "r1 = (if r \<noteq> [] \<and> hd r = CHR ''.'' then dropWhile is_digit (tl r) else r)"
  let ?P = "\<lambda>c. \<not> (c = CHR ''.'' \<or> is_digit c)"
  have "map_of duration_units (takeWhile ?P r1) \<noteq> None" "rest = dropWhile ?P r1"
    using p unfolding parse_section_def r1_def r_def by (auto simp: Let_def split: if_splits option.splits prod.splits)
  moreover have "map_of duration_units [] = None" by (simp add: duration_units_def micro_sign_def)
  ultimately have "length rest < length r1" using dropWhile_shorter [of ?P r1] by metis
  also have "length r1 \<le> length r"
    using length_dropWhile_le [of is_digit "tl r"] by (auto simp: r1_def)
  also have "\<dots> \<le> length s" by (simp add: r_def length_dropWhile_le)
  finally show ?thesis .
qed

function parse_sections :: "string \<Rightarrow> nat \<Rightarrow> nat option" where
  "parse_sections s d =
     (if s = [] then Some d
      else case parse_section s of
             None \<Rightarrow> None
           | Some (w, rest) \<Rightarrow> if d + w > 2 ^ 63 then None else parse_sections rest (d + w))"
  by pat_completeness auto

termination
  by (relation "measure (\<lambda>(s, d). length s)") (auto dest: parse_section_shorter)

declare parse_sections.simps [simp del]

definition parse_duration :: "string \<Rightarrow> dur option" where
  "parse_duration s0 =
     (let neg = (s0 \<noteq> [] \<and> hd s0 = CHR ''-'');
          s = (if s0 \<noteq> [] \<and> (hd s0 = CHR ''-'' \<or> hd s0 = CHR ''+'') then tl s0 else s0)
      in if s = ''0'' then Some 0
         else if s = [] then None
         else (case parse_sections s 0 of
                 None \<Rightarrow> None
               | Some d \<Rightarrow> if neg then Some (- int d) else if d > 2 ^ 63 - 1 then None else Some (int d)))"

section \<open>Exact values of float64\<close>

lemma bit_len_times: "0 < m \<Longrightarrow> bit_len (m * 2 ^ j) = bit_len m + j"
proof (induction j)
  case (Suc j)
  have "m * 2 ^ Suc j \<noteq> 0" "m * 2 ^ Suc j div 2 = m * 2 ^ j" using Suc.prems by simp_all
  with Suc show ?case by (subst bit_len.simps) simp
qed simp

lemma f64_round_exact:
  assumes "0 < m" "m < 2 ^ 53"
  obtains s where "s \<le> j" "f64_round (m * 2 ^ j) e = F64 (m * 2 ^ (j - s)) (e + int s)"
proof -
  define n where "n = bit_len (nat (m * 2 ^ j))"
  have "nat (m * 2 ^ j) = nat m * 2 ^ j" using assms(1) by (simp add: nat_mult_distrib nat_power_eq)
  then have n: "n = bit_len (nat m) + j" using assms(1) by (simp add: n_def bit_len_times)
  have b: "bit_len (nat m) \<le> 53" using assms by (intro bit_len_bound) (simp add: nat_less_iff)
  show thesis
  proof (cases "n \<le> 53")
    case True
    then show thesis using that [of 0] assms(1) by (simp add: f64_round_def n_def abs_mult)
  next
    case False
    define s where "s = n - 53"
    have s: "s \<le> j" using n b by (simp add: s_def)
    then have eq: "m * 2 ^ j = m * 2 ^ (j - s) * 2 ^ s" by (simp add: mult.assoc flip: power_add)
    have "half_even (m * 2 ^ j) (2 ^ s) = m * 2 ^ (j - s)" unfolding eq half_even_def by simp
    then have "f64_round (m * 2 ^ j) e = F64 (m * 2 ^ (j - s)) (e + int s)"
      using False assms(1) by (simp add: f64_round_def n_def [symmetric] s_def [symmetric] abs_mult sgn_mult)
    with s that show thesis by blast
  qed
qed

lemma f64_floor_exact: "f64_floor (F64 (m * 2 ^ b) (- int b)) = m"
  by (cases "b = 0") (simp_all add: f64_floor_def)

text \<open>The nanoseconds of a fraction: nothing is rounded when the scale divides the unit.\<close>

lemma fraction_exact:
  assumes "0 < f" "0 < q" "f * q < 2 ^ 53" "0 < c" "q * c < 2 ^ 53"
  shows "f64_trunc (f64_mul (f64_of_int f) (f64_div (f64_of_int (q * c)) (F64 c 0))) = f * q"
proof -
  have "1 * q \<le> f * q" "f * 1 \<le> f * q" using assms(1,2) by (intro mult_right_mono mult_left_mono; simp)+
  then have b: "q < 2 ^ 53" "f < 2 ^ 53" using assms(3) by linarith+
  define k where "k = 55 + bit_len (nat c)"
  have of_int: "f64_of_int (q * c) = F64 (q * c) 0" "f64_of_int f = F64 f 0"
    using assms b by (simp_all add: f64_of_int_def f64_round_small abs_mult)
  have "q * c * 2 ^ k = q * 2 ^ k * c" by simp
  then have "q * c * 2 ^ k div c = q * 2 ^ k" "q * c * 2 ^ k mod c = 0" using assms(4) by simp_all
  then have "f64_div (F64 (q * c) 0) (F64 c 0) = f64_round (q * 2 ^ Suc k) (- int (Suc k))"
    using assms(2,4) unfolding k_def by (simp add: f64_div_def Let_def abs_mult sgn_mult mult.assoc mult.left_commute power_add)
  moreover obtain s where "s \<le> Suc k" "f64_round (q * 2 ^ Suc k) (- int (Suc k)) = F64 (q * 2 ^ (Suc k - s)) (- int (Suc k) + int s)"
    by (rule f64_round_exact [OF assms(2) b(1)])
  moreover define j where "j = Suc k - s"
  ultimately have div: "f64_div (F64 (q * c) 0) (F64 c 0) = F64 (q * 2 ^ j) (- int j)" by (simp add: of_nat_diff)
  have "0 < f * q" using assms(1,2) by simp
  from f64_round_exact [OF this assms(3), of j "- int j"] obtain t where
    "t \<le> j" "f64_round (f * q * 2 ^ j) (- int j) = F64 (f * q * 2 ^ (j - t)) (- int j + int t)" .
  then have "f64_mul (F64 f 0) (F64 (q * 2 ^ j) (- int j)) = F64 (f * q * 2 ^ (j - t)) (- int (j - t))"
    by (simp add: f64_mul_def mult.assoc of_nat_diff)
  moreover have "\<not> f * q * 2 ^ (j - t) < 0" using \<open>0 < f * q\<close> by (simp add: not_less)
  ultimately show ?thesis by (simp add: of_int div f64_trunc_def f64_floor_exact)
qed

section \<open>Digits\<close>

lemma digits_value_show [simp]: "digits_value (show_nat n) = n"
proof -
  have "map (\<lambda>c. of_char c - 48) (show_nat n) = digits10 n"
    by (auto simp: show_nat_def o_def of_char_digit_char digits10_lt intro!: map_idI)
  then show ?thesis by (simp add: digits_value_def undigits10_digits10)
qed

lemma undigits10_acc: "undigits10 ds acc = acc * 10 ^ length ds + undigits10 ds 0"
proof (induction ds arbitrary: acc)
  case (Cons d ds)
  show ?case using Cons.IH [of "10 * acc + d"] Cons.IH [of d] by (simp add: algebra_simps)
qed simp

lemma digits_value_Cons: "k < 10 \<Longrightarrow> digits_value (digit_char k # ds) = k * 10 ^ length ds + digits_value ds"
  using undigits10_acc [of "map (\<lambda>c. of_char c - 48) ds" k] by (simp add: digits_value_def of_char_digit_char)

lemma digits_value_nil: "digits_value [] = 0"
  by (simp add: digits_value_def)

lemma digit_char_digit: "k < 10 \<Longrightarrow> is_digit (digit_char k)"
  by (simp add: is_digit_def digit_char_def less_eq_char_def)

text \<open>The digits of a printed fraction.\<close>

lemma fmt_frac_digits:
  assumes "list_all is_digit out"
  shows "\<exists>ds. fmt_frac n v out = (if ds = [] then [] else CHR ''.'' # ds, v div 10 ^ n) \<and> list_all is_digit ds
    \<and> length ds \<le> n + length out
    \<and> digits_value ds * 10 ^ (n + length out - length ds) = (v mod 10 ^ n) * 10 ^ length out + digits_value out"
  using assms
proof (induction n arbitrary: v out)
  case 0
  then show ?case by (intro exI [of _ out]) simp
next
  case (Suc n)
  define out' where "out' = (if out \<noteq> [] \<or> v mod 10 \<noteq> 0 then digit_char (v mod 10) # out else [])"
  have d: "list_all is_digit out'" using Suc.prems by (simp add: out'_def digit_char_digit)
  have len: "length out' = (if out' = [] then 0 else Suc (length out))" by (simp add: out'_def)
  have val: "digits_value out' = (v mod 10) * 10 ^ length out + digits_value out"
    by (cases "out = []") (auto simp: out'_def digits_value_Cons digits_value_nil)
  have mod: "v mod 10 ^ Suc n = 10 * (v div 10 mod 10 ^ n) + v mod 10"
    by (simp add: mod_mult2_eq)
  from Suc.IH [OF d, of "v div 10"] obtain ds where ds:
    "fmt_frac n (v div 10) out' = (if ds = [] then [] else CHR ''.'' # ds, v div 10 div 10 ^ n)" "list_all is_digit ds"
    "length ds \<le> n + length out'"
    "digits_value ds * 10 ^ (n + length out' - length ds) = (v div 10 mod 10 ^ n) * 10 ^ length out' + digits_value out'" by blast
  have "fmt_frac (Suc n) v out = (if ds = [] then [] else CHR ''.'' # ds, v div 10 ^ Suc n)"
    using ds(1) by (simp add: out'_def div_mult2_eq)
  moreover have "length ds \<le> Suc n + length out" using ds(3) len by (auto split: if_splits)
  moreover have "digits_value ds * 10 ^ (Suc n + length out - length ds)
      = (v mod 10 ^ Suc n) * 10 ^ length out + digits_value out"
  proof (cases "out' = []")
    case True
    then have "out = []" "v mod 10 = 0" by (auto simp: out'_def split: if_splits)
    moreover have "Suc n - length ds = Suc (n - length ds)" using ds(3) True by simp
    ultimately show ?thesis
      using ds(4) True by (simp add: mod digits_value_nil del: power_Suc) (simp add: mult.left_commute)
  next
    case False
    with ds(3,4) len show ?thesis by (simp add: val mod algebra_simps del: power_Suc) (simp add: algebra_simps)
  qed
  ultimately show ?case using ds(2) by blast
qed
section \<open>Reading back\<close>

lemma is_digit_value: "is_digit c \<Longrightarrow> (of_char c :: nat) - 48 < 10"
proof -
  assume "is_digit c"
  then have "(of_char c :: nat) \<le> 57" by (simp add: is_digit_def less_eq_char_def)
  then show ?thesis by linarith
qed

lemma digits_value_step: "digits_value (c # ds) = (of_char c - 48) * 10 ^ length ds + digits_value ds"
  using undigits10_acc [of "map (\<lambda>c. of_char c - 48) ds" "of_char c - 48"] by (simp add: digits_value_def)

lemma digits_value_less: "list_all is_digit ds \<Longrightarrow> digits_value ds < 10 ^ length ds"
proof (induction ds)
  case (Cons c ds)
  have "(of_char c - 48) * 10 ^ length ds + digits_value ds < (of_char c - 48) * 10 ^ length ds + 10 ^ length ds"
    using Cons by simp
  also have "\<dots> = ((of_char c - 48) + 1) * 10 ^ length ds" by (simp add: algebra_simps)
  also have "\<dots> \<le> 10 * 10 ^ length ds"
    using Cons.prems is_digit_value [of c] by (intro mult_right_mono) auto
  finally show ?case by (simp add: digits_value_step)
qed (simp add: digits_value_nil)

lemma frac_fold:
  assumes "list_all is_digit ds" "j + length ds \<le> 15" "x < 10 ^ j"
  shows "fold frac_digit ds (x, F64 (10 ^ j) 0, False)
    = (x * 10 ^ length ds + digits_value ds, F64 (10 ^ (j + length ds)) 0, False)"
  using assms
proof (induction ds arbitrary: x j)
  case (Cons c ds)
  define d where "d = (of_char c :: nat) - 48"
  have d: "d < 10" using Cons.prems(1) is_digit_value [of c] by (simp add: d_def)
  have "(10 :: nat) ^ Suc j \<le> 10 ^ 15" using Cons.prems(2) by (intro power_increasing) simp_all
  then have p: "10 ^ Suc j \<le> (1000000000000000 :: nat)" by simp
  have x: "10 * x + d < 10 ^ Suc j" using Cons.prems(3) d by simp
  have "(10 :: int) ^ Suc j \<le> 10 ^ 15" using Cons.prems(2) by (intro power_increasing) simp_all
  then have "f64_mul (F64 (10 ^ j) 0) (F64 10 0) = F64 (10 ^ Suc j) 0"
    by (simp add: f64_mul_def f64_round_small mult.commute)
  then have "frac_digit c (x, F64 (10 ^ j) 0, False) = (10 * x + d, F64 (10 ^ Suc j) 0, False)"
    using x p by (simp add: frac_digit_def d_def [symmetric])
  then show ?case
    using Cons.IH [of "Suc j" "10 * x + d"] Cons.prems(1,2) x
    by (simp add: digits_value_step d_def [symmetric] algebra_simps)
qed (simp add: digits_value_nil)

lemma frac_value_read: "list_all is_digit ds \<Longrightarrow> length ds \<le> 15 \<Longrightarrow> frac_value ds = (digits_value ds, F64 (10 ^ length ds) 0)"
  using frac_fold [of ds 0 0] by (simp add: frac_value_def)

lemma fraction_nanos:
  assumes "list_all is_digit ds" "length ds \<le> 15" "10 ^ length ds dvd u" "0 < u" "u < 2 ^ 53" "frac_value ds = (f, scale)"
  shows "(if f > 0 then nat (f64_trunc (f64_mul (f64_of_int (int f)) (f64_div (f64_of_int (int u)) scale))) else 0)
    = digits_value ds * (u div 10 ^ length ds)"
proof -
  have f: "f = digits_value ds" "scale = F64 (10 ^ length ds) 0" using frac_value_read [OF assms(1,2)] assms(6) by simp_all
  obtain q where u: "u = q * 10 ^ length ds" using assms(3) by (auto simp: dvd_def mult.commute)
  have "digits_value ds * q \<le> 10 ^ length ds * q" using digits_value_less [OF assms(1)] by (intro mult_right_mono) simp_all
  also have "\<dots> < 2 ^ 53" using assms(5) u by (simp add: mult.commute)
  finally have "int (digits_value ds * q) < int (2 ^ 53)" by (simp only: of_nat_less_iff)
  then have "int (digits_value ds) * int q < 2 ^ 53" by simp
  moreover have "int (q * 10 ^ length ds) < int (2 ^ 53)" using assms(5) u by (simp only: of_nat_less_iff)
  then have "int q * 10 ^ length ds < 2 ^ 53" by simp
  moreover have "0 < int q" using assms(4) u by simp
  ultimately have "0 < f \<Longrightarrow> f64_trunc (f64_mul (f64_of_int (int f)) (f64_div (f64_of_int (int q * 10 ^ length ds)) scale))
      = int f * int q"
    unfolding f(2) using f(1) by (intro fraction_exact) simp_all
  moreover have "int q * 10 ^ length ds = int u" "u div 10 ^ length ds = q" by (simp_all add: u)
  ultimately show ?thesis using f(1) by (simp flip: of_nat_mult)
qed

lemma while_split: "list_all P xs \<Longrightarrow> ys = [] \<or> \<not> P (hd ys) \<Longrightarrow> takeWhile P (xs @ ys) = xs \<and> dropWhile P (xs @ ys) = ys"
  by (induction xs) (cases ys; auto)+

definition unit_chars :: "string \<Rightarrow> bool" where
  "unit_chars unit \<longleftrightarrow> unit \<noteq> [] \<and> list_all (\<lambda>c. \<not> (c = CHR ''.'' \<or> is_digit c)) unit"

lemma section_read:
  assumes "list_all is_digit ds" "length ds \<le> 15" "fr = (if ds = [] then [] else CHR ''.'' # ds)"
    and "unit_chars unit" "map_of duration_units unit = Some u" "10 ^ length ds dvd u" "0 < u" "u < 2 ^ 53"
    and "rest = [] \<or> is_digit (hd rest)" "v * u + digits_value ds * (u div 10 ^ length ds) \<le> 2 ^ 63"
  shows "parse_section (show_nat v @ fr @ unit @ rest) = Some (v * u + digits_value ds * (u div 10 ^ length ds), rest)"
proof -
  have un: "unit \<noteq> []" "hd unit \<noteq> CHR ''.''" "\<not> is_digit (hd unit)"
    using assms(4) by (cases unit; auto simp: unit_chars_def)+
  have dot: "\<not> is_digit CHR ''.''" by (simp add: is_digit_def less_eq_char_def)
  have a: "takeWhile is_digit (show_nat v @ fr @ unit @ rest) = show_nat v"
    "dropWhile is_digit (show_nat v @ fr @ unit @ rest) = fr @ unit @ rest"
    using while_split [of is_digit "show_nat v" "fr @ unit @ rest"] digit_chars assms(3) un dot by auto
  have b: "takeWhile is_digit (ds @ unit @ rest) = ds" "dropWhile is_digit (ds @ unit @ rest) = unit @ rest"
    using while_split [of is_digit ds "unit @ rest"] assms(1) un by auto
  have c: "takeWhile (\<lambda>c. \<not> (c = CHR ''.'' \<or> is_digit c)) (unit @ rest) = unit"
    "dropWhile (\<lambda>c. \<not> (c = CHR ''.'' \<or> is_digit c)) (unit @ rest) = rest"
    using while_split [of "\<lambda>c. \<not> (c = CHR ''.'' \<or> is_digit c)" unit rest] assms(4,9) by (auto simp: unit_chars_def)
  obtain f scale where fs: "frac_value ds = (f, scale)" by (cases "frac_value ds")
  note nanos = fraction_nanos [OF assms(1,2,6,7,8) fs]
  have "v * u \<le> 2 ^ 63" using assms(10) by linarith
  then have v: "v \<le> 2 ^ 63 div u" using assms(7) by (simp add: less_eq_div_iff_mult_less_eq)
  then have v': "v \<le> 2 ^ 63" by (meson div_le_dividend le_trans)
  have e: "(if fr @ unit @ rest \<noteq> [] \<and> hd (fr @ unit @ rest) = CHR ''.'' then takeWhile is_digit (tl (fr @ unit @ rest)) else []) = ds"
    "(if fr @ unit @ rest \<noteq> [] \<and> hd (fr @ unit @ rest) = CHR ''.'' then dropWhile is_digit (tl (fr @ unit @ rest)) else fr @ unit @ rest) = unit @ rest"
    using assms(3) un b by (auto simp: hd_append)
  show ?thesis
    unfolding parse_section_def a digits_value_show Let_def e c assms(5) option.case fs prod.case nanos
    using v v' assms(10) by (simp add: not_less)
qed

lemma unit_names:
  "unit_chars ''ns''" "unit_chars micro_sign" "unit_chars ''ms''" "unit_chars ''s''" "unit_chars ''m''" "unit_chars ''h''"
  by (simp_all add: unit_chars_def micro_sign_def is_digit_def less_eq_char_def)

lemma unit_values:
  "map_of duration_units ''ns'' = Some 1" "map_of duration_units micro_sign = Some 1000"
  "map_of duration_units ''ms'' = Some 1000000" "map_of duration_units ''s'' = Some 1000000000"
  "map_of duration_units ''m'' = Some 60000000000" "map_of duration_units ''h'' = Some 3600000000000"
  by (simp_all add: duration_units_def micro_sign_def)

text \<open>A number of a unit without a fraction.\<close>

lemma whole_read:
  assumes "unit_chars unit" "map_of duration_units unit = Some u" "0 < u" "u < 2 ^ 53"
    and "rest = [] \<or> is_digit (hd rest)" "d + v * u \<le> 2 ^ 63"
  shows "parse_sections (show_nat v @ unit @ rest) d = parse_sections rest (d + v * u)"
proof -
  have "parse_section (show_nat v @ unit @ rest) = Some (v * u, rest)"
    using section_read [of "[]" "[]" unit u rest v] assms by (simp add: digits_value_nil)
  with assms(6) show ?thesis by (subst parse_sections.simps) simp
qed

text \<open>A number with the fraction \<open>fmtFrac\<close> prints, as the last section.\<close>

lemma fraction_read:
  assumes "unit_chars unit" "map_of duration_units unit = Some (10 ^ n)" "n \<le> 9" "fmt_frac n m [] = (fr, v)"
    and "d + (w * 10 ^ n + m mod 10 ^ n) \<le> 2 ^ 63"
  shows "parse_sections (show_nat w @ fr @ unit) d = Some (d + (w * 10 ^ n + m mod 10 ^ n))"
proof -
  obtain ds where ds: "fr = (if ds = [] then [] else CHR ''.'' # ds)" "list_all is_digit ds" "length ds \<le> n"
    "digits_value ds * 10 ^ (n - length ds) = m mod 10 ^ n"
    using fmt_frac_digits [of "[]" n m] assms(4) by (auto simp: digits_value_nil)
  have "(10 :: nat) ^ n = 10 ^ (n - length ds) * 10 ^ length ds" using ds(3) by (simp flip: power_add)
  then have div: "10 ^ length ds dvd (10 :: nat) ^ n" "(10 :: nat) ^ n div 10 ^ length ds = 10 ^ (n - length ds)" by simp_all
  have "(10 :: nat) ^ n \<le> 10 ^ 9" using assms(3) by (intro power_increasing) simp_all
  then have small: "(10 :: nat) ^ n < 2 ^ 53" by simp
  have "length ds \<le> 15" using ds(3) assms(3) by simp
  from section_read [OF ds(2) this ds(1) assms(1,2) div(1) _ small, of "[]" w] ds(4) div(2) assms(5)
  have "parse_section (show_nat w @ fr @ unit) = Some (w * 10 ^ n + m mod 10 ^ n, [])" by simp
  with assms(5) show ?thesis by (subst parse_sections.simps) (simp add: parse_sections.simps [of "[]"])
qed

lemma small_read:
  assumes "unit_chars unit" "map_of duration_units unit = Some (10 ^ prec)" "prec \<le> 9" "n \<le> 2 ^ 63"
  shows "parse_sections (small_text prec n unit) 0 = Some n"
proof -
  obtain fr v where f: "fmt_frac prec n [] = (fr, v)" by (cases "fmt_frac prec n []")
  have v: "v = n div 10 ^ prec" using fmt_frac_digits [of "[]" prec n] f by auto
  have "v * 10 ^ prec + n mod 10 ^ prec = n" unfolding v by (rule div_mult_mod_eq)
  with fraction_read [OF assms(1-3) f, of 0 v] assms(4) show ?thesis by (simp add: small_text_def f)
qed

lemma show_nat_head: "is_digit (hd (show_nat n @ t))" "show_nat n @ t \<noteq> []"
  using digit_chars [of n] by (cases "show_nat n"; simp add: show_nat_nonempty [of n, simplified])+

lemma clock_read:
  assumes "n \<le> 2 ^ 63"
  shows "parse_sections (clock_text n) 0 = Some n"
proof -
  obtain fr secs where f: "fmt_frac 9 n [] = (fr, secs)" by (cases "fmt_frac 9 n []")
  have secs: "secs = n div 10 ^ 9" using fmt_frac_digits [of "[]" 9 n] f by auto
  define mins hours where "mins = secs div 60" and "hours = mins div 60"
  define s where "s = show_nat (secs mod 60) @ fr @ ''s''"
  have n: "n = hours * 3600000000000 + (mins mod 60) * 60000000000 + (secs mod 60 * 10 ^ 9 + n mod 10 ^ 9)"
  proof -
    have p: "(10 :: nat) ^ 9 = 1000000000" by simp
    have "n = secs * 1000000000 + n mod 1000000000" by (simp add: secs)
    moreover have "secs = 60 * mins + secs mod 60" "mins = 60 * hours + mins mod 60" by (simp_all add: mins_def hours_def)
    ultimately show ?thesis unfolding p by linarith
  qed
  have sec: "parse_sections s d = Some (d + (secs mod 60 * 10 ^ 9 + n mod 10 ^ 9))"
    if "d + (secs mod 60 * 10 ^ 9 + n mod 10 ^ 9) \<le> 2 ^ 63" for d
    unfolding s_def by (rule fraction_read [OF _ _ _ f that]) (simp_all add: unit_names unit_values)
  have min: "parse_sections (show_nat (mins mod 60) @ ''m'' @ s) d
      = Some (d + (mins mod 60) * 60000000000 + (secs mod 60 * 10 ^ 9 + n mod 10 ^ 9))"
    if "d + (mins mod 60) * 60000000000 + (secs mod 60 * 10 ^ 9 + n mod 10 ^ 9) \<le> 2 ^ 63" for d
  proof -
    have "parse_sections (show_nat (mins mod 60) @ ''m'' @ s) d = parse_sections s (d + (mins mod 60) * 60000000000)"
      by (rule whole_read [OF unit_names(5) unit_values(5)]) (use that show_nat_head(1) in \<open>auto simp: s_def\<close>)
    with sec that show ?thesis by simp
  qed
  have hour: "parse_sections (show_nat hours @ ''h'' @ show_nat (mins mod 60) @ ''m'' @ s) 0 = Some n"
  proof -
    have "parse_sections (show_nat hours @ ''h'' @ show_nat (mins mod 60) @ ''m'' @ s) 0
        = parse_sections (show_nat (mins mod 60) @ ''m'' @ s) (0 + hours * 3600000000000)"
      by (rule whole_read [OF unit_names(6) unit_values(6)]) (use n assms show_nat_head(1) in \<open>auto\<close>)
    with min [of "0 + hours * 3600000000000"] n assms show ?thesis by simp
  qed
  have form: "clock_text n = (if mins = 0 then s else if hours = 0 then show_nat (mins mod 60) @ ''m'' @ s
      else show_nat hours @ ''h'' @ show_nat (mins mod 60) @ ''m'' @ s)"
    by (simp add: clock_text_def f mins_def hours_def s_def Let_def)
  have "parse_sections s 0 = Some n" if "mins = 0" using sec [of 0] that n assms by (simp add: hours_def)
  moreover have "parse_sections (show_nat (mins mod 60) @ ''m'' @ s) 0 = Some n" if "hours = 0"
    using min [of 0] that n assms by simp
  ultimately show ?thesis using hour by (simp add: form)
qed

text \<open>The text of a duration ends in \<open>s\<close> and starts with a digit behind its sign.\<close>

lemma text_shape:
  "last (small_text p n (u @ ''s'')) = CHR ''s''" "is_digit (hd (small_text p n u))" "small_text p n u \<noteq> []"
  "last (clock_text n) = CHR ''s''" "is_digit (hd (clock_text n))" "clock_text n \<noteq> []"
  using show_nat_head(1) by (auto simp: small_text_def clock_text_def Let_def split: prod.split)

lemma sections_read:
  assumes "0 < n" "n \<le> 2 ^ 63"
    and "t = (if n < 1000 then small_text 0 n ''ns'' else if n < 1000000 then small_text 3 n micro_sign
              else if n < 1000000000 then small_text 6 n ''ms'' else clock_text n)"
  shows "parse_sections t 0 = Some n \<and> last t = CHR ''s'' \<and> is_digit (hd t) \<and> t \<noteq> []"
proof -
  have "parse_sections t 0 = Some n"
    using assms small_read [OF unit_names(1), of 0 n] small_read [OF unit_names(2), of 3 n]
      small_read [OF unit_names(3), of 6 n] clock_read [of n] by (simp add: unit_values)
  moreover have "last t = CHR ''s''"
    using assms(3) text_shape(1) [of 0 n "''n''"] text_shape(1) [of 3 n "[CHR 0xC2, CHR 0xB5]"]
      text_shape(1) [of 6 n "''m''"] text_shape(4) [of n] by (simp add: micro_sign_def)
  moreover have "is_digit (hd t)" "t \<noteq> []" using assms(3) text_shape by simp_all
  ultimately show ?thesis by simp
qed

lemma digit_literals:
  "digit_char 0 = CHR ''0''" "digit_char (Suc 0) = CHR ''1''" "digit_char 2 = CHR ''2''" "digit_char 3 = CHR ''3''"
  "digit_char 4 = CHR ''4''" "digit_char 5 = CHR ''5''" "digit_char 6 = CHR ''6''" "digit_char 7 = CHR ''7''"
  "digit_char 8 = CHR ''8''" "digit_char 9 = CHR ''9''"
  by code_simp+

section \<open>Duration\<close>

text \<open>
  \<open>UnmarshalJSON\<close>: a string (also \<open>null\<close>, which leaves the empty one) is parsed, an integer counts seconds,
  in 64 bits. \<open>UnmarshalYAML\<close>: the same over what the YAML node decodes to, as a string and as an integer.
\<close>

definition duration_of_json :: "json \<Rightarrow> dur option" where
  "duration_of_json v =
     (case v of
        JStr s \<Rightarrow> parse_duration s
      | JNull \<Rightarrow> parse_duration []
      | _ \<Rightarrow> map_option (\<lambda>n. wrap64 (n * second)) (to_int v))"

definition duration_of_yaml :: "string option \<Rightarrow> int option \<Rightarrow> dur option" where
  "duration_of_yaml as_text as_int =
     (case as_text of
        Some s \<Rightarrow> parse_duration s
      | None \<Rightarrow> map_option (\<lambda>n. wrap64 (n * second)) as_int)"

definition duration_json :: "dur \<Rightarrow> json" where
  "duration_json d = JStr (duration_text d)"

lemma duration_read:
  assumes "min_int64 \<le> d" "d \<le> max_int64"
  shows "parse_duration (duration_text d) = Some d" "duration_of_json (duration_json d) = Some d"
proof -
  show "parse_duration (duration_text d) = Some d"
  proof (cases "d = 0")
    case True
    have "parse_sections (show_nat 0 @ ''s'' @ []) 0 = parse_sections [] (0 + 0 * 1000000000)"
      by (rule whole_read [OF unit_names(4) unit_values(4)]) simp_all
    then have "parse_sections ''0s'' 0 = Some 0"
      by (simp add: parse_sections.simps [of "[]"] show_nat_def digits10.simps digit_literals)
    with True show ?thesis by (simp add: duration_text_def parse_duration_def is_digit_def less_eq_char_def)
  next
    case False
    define n where "n = nat \<bar>d\<bar>"
    define t where "t = (if n < 1000 then small_text 0 n ''ns'' else if n < 1000000 then small_text 3 n micro_sign
              else if n < 1000000000 then small_text 6 n ''ms'' else clock_text n)"
    have n: "0 < n" "n \<le> 2 ^ 63" "d \<ge> 0 \<longrightarrow> n \<le> 2 ^ 63 - 1" "d = (if d < 0 then - int n else int n)"
      using False assms by (auto simp: n_def min_int64_def max_int64_def)
    note t = sections_read [OF n(1,2) t_def]
    then have "hd t \<noteq> CHR ''-''" "hd t \<noteq> CHR ''+''" by (auto simp: is_digit_def less_eq_char_def)
    moreover have "t \<noteq> ''0''" using t by auto
    moreover have "duration_text d = (if d < 0 then ''-'' else []) @ t"
      using n(1) unfolding duration_text_def n_def [symmetric] t_def Let_def by simp
    ultimately show ?thesis using t n(3,4) by (auto simp: parse_duration_def Let_def split: if_splits)
  qed
  then show "duration_of_json (duration_json d) = Some d" by (simp add: duration_of_json_def duration_json_def)
qed

text \<open>
  Durations survive their text. Every duration of 64 bits, from nanoseconds to 292 years, negative or
  not, is read back exactly from the text it is written as, in JSON and in YAML: no digit is lost in
  the fraction, and nothing overflows.
\<close>

theorem duration_roundtrip:
  assumes "min_int64 \<le> d" "d \<le> max_int64"
  shows "parse_duration (duration_text d) = Some d \<and> duration_of_json (duration_json d) = Some d
    \<and> duration_of_yaml (Some (duration_text d)) n = Some d"
  using duration_read [OF assms] by (simp add: duration_of_yaml_def)

lemma fmt_frac_numeral: "fmt_frac (numeral k) v out =
    fmt_frac (pred_numeral k) (v div 10) (if out \<noteq> [] \<or> v mod 10 \<noteq> 0 then digit_char (v mod 10) # out else [])"
  by (subst numeral_eq_Suc) (rule fmt_frac.simps(2))

theorem duration_roundtrip_witness:
  "parse_duration (duration_text (- 5430000000050)) = Some (- 5430000000050)
    \<and> duration_text (- 5430000000050) = ''-1h30m30.00000005s''"
proof -
  have "duration_text (- 5430000000050) = ''-1h30m30.00000005s''"
    by (simp add: duration_text_def clock_text_def fmt_frac_numeral show_nat_def digits10.simps digit_literals)
  with duration_roundtrip [of "- 5430000000050" None] show ?thesis by (simp add: min_int64_def max_int64_def)
qed

end
