(* ===== verification/ConfigJson.thy ===== *)
theory ConfigJson
  imports Durations Discovery Watcher
begin

text \<open>
  Models how the structs of \<open>internal/config/config.go\<close> are written as JSON (\<open>Marshal\<close> for the fingerprints
  and the API) and read back over existing values (\<open>Unmarshal\<close> in \<open>Parse\<close>), by the field tags, with the two
  methods of the package, \<open>Duration\<close> and \<open>ZoneKeySpec\<close>. The text of a float64 is a parameter. A list that is empty is
  written like a nil one, a map by its sorted keys; that a list read twice in one document reuses its own elements is not modelled. The lemmas
  show what survives the round trip and what the fingerprint of a source covers.
\<close>

section \<open>Reading over existing values\<close>

text \<open>A reader takes a value and the old content of the variable it is decoded into. \<open>null\<close> leaves a plain variable as it is.\<close>

type_synonym 'a reader = "json \<Rightarrow> 'a \<Rightarrow> 'a option"

definition plain :: "(json \<Rightarrow> 'a option) \<Rightarrow> 'a reader" where
  "plain conv v old = (if v = JNull then Some old else conv v)"

definition read_duration :: "dur reader" where
  "read_duration v old = duration_of_json v"

text \<open>A list takes over the elements of the old one as the variables its own elements are decoded into.\<close>

definition read_list :: "'a reader \<Rightarrow> 'a \<Rightarrow> 'a list reader" where
  "read_list rd zero v old =
     (case v of
        JNull \<Rightarrow> Some []
      | JArr vs \<Rightarrow> those (map (\<lambda>(i, x). rd x (if i < length old then old ! i else zero)) (enumerate 0 vs))
      | _ \<Rightarrow> None)"

definition read_entry :: "string \<times> json \<Rightarrow> (string, string) gomap option \<Rightarrow> (string, string) gomap option" where
  "read_entry kv acc =
     (case (acc, plain to_text (snd kv) []) of (Some m, Some t) \<Rightarrow> Some (AList.update (fst kv) t m) | _ \<Rightarrow> None)"

definition read_text_map :: "(string, string) gomap reader" where
  "read_text_map v old =
     (case v of JNull \<Rightarrow> Some [] | JObj kvs \<Rightarrow> fold read_entry kvs (Some old) | _ \<Rightarrow> None)"

text \<open>A struct is the table of its fields: the name of the tag and what a value does to the struct.\<close>

definition at_field :: "'a reader \<Rightarrow> ('r \<Rightarrow> 'a) \<Rightarrow> ('a \<Rightarrow> 'r \<Rightarrow> 'r) \<Rightarrow> 'r reader" where
  "at_field rd get put v r = map_option (\<lambda>x. put x r) (rd v (get r))"

definition read_member :: "(string \<times> 'r reader) list \<Rightarrow> string \<times> json \<Rightarrow> 'r option \<Rightarrow> 'r option" where
  "read_member tbl kv acc =
     (case acc of
        None \<Rightarrow> None
      | Some r \<Rightarrow>
          (case List.find (\<lambda>f. fold_case (fst f) = fold_case (fst kv)) tbl of
             None \<Rightarrow> Some r
           | Some f \<Rightarrow> snd f (snd kv) r))"

definition read_struct :: "(string \<times> 'r reader) list \<Rightarrow> 'r reader" where
  "read_struct tbl v old =
     (case v of JNull \<Rightarrow> Some old | JObj kvs \<Rightarrow> fold (read_member tbl) kvs (Some old) | _ \<Rightarrow> None)"

section \<open>Floats\<close>

text \<open>The text \<open>encoding/json\<close> gives a float64 and \<open>strconv.ParseFloat\<close>.\<close>

record float_text =
  ft_show :: "f64 \<Rightarrow> string"
  ft_read :: "string \<Rightarrow> f64 option"

definition to_float :: "float_text \<Rightarrow> json \<Rightarrow> f64 option" where
  "to_float fl v = (case v of JNum lit \<Rightarrow> ft_read fl lit | _ \<Rightarrow> None)"

text \<open>The shortest text that is read back as the value.\<close>

definition float_exact :: "float_text \<Rightarrow> f64 \<Rightarrow> bool" where
  "float_exact fl x \<longleftrightarrow> number_ok (ft_show fl x) \<and> ft_read fl (ft_show fl x) = Some x"

section \<open>Writing\<close>

definition list_json :: "('a \<Rightarrow> json) \<Rightarrow> 'a list \<Rightarrow> json" where
  "list_json f xs = (if xs = [] then JNull else JArr (map f xs))"

definition text_map_json :: "(string, string) gomap \<Rightarrow> json" where
  "text_map_json m = (if m = [] then JNull else JObj (map (\<lambda>(k, v). (k, JStr v)) (sort_key fst m)))"

definition float_json :: "float_text \<Rightarrow> f64 \<Rightarrow> json" where
  "float_json fl x = JNum (ft_show fl x)"

section \<open>Zone keys\<close>

definition zone_key_fields :: "(string \<times> zone_key_spec reader) list" where
  "zone_key_fields =
     [(''key'', at_field (plain to_text) zk_key (\<lambda>x r. r\<lparr>zk_key := x\<rparr>)),
      (''transform'', at_field (plain to_text) zk_transform (\<lambda>x r. r\<lparr>zk_transform := x\<rparr>))]"

text \<open>
  \<open>UnmarshalJSON\<close>: a string (also \<open>null\<close>) sets the key only, an object makes a fresh spec.
  \<open>UnmarshalYAML\<close>: whether the node is a scalar, and what it decodes to as a string and as the struct.
\<close>

definition key_of_json :: "zone_key_spec reader" where
  "key_of_json v z =
     (case v of
        JStr s \<Rightarrow> Some (z\<lparr>zk_key := s\<rparr>)
      | JNull \<Rightarrow> Some (z\<lparr>zk_key := []\<rparr>)
      | _ \<Rightarrow> read_struct zone_key_fields v \<lparr>zk_key = [], zk_transform = []\<rparr>)"

definition key_of_yaml :: "bool \<Rightarrow> string option \<Rightarrow> zone_key_spec option \<Rightarrow> zone_key_spec \<Rightarrow> zone_key_spec option" where
  "key_of_yaml scalar as_text as_struct z =
     (if scalar then map_option (\<lambda>s. z\<lparr>zk_key := s\<rparr>) as_text else as_struct)"

definition key_json :: "zone_key_spec \<Rightarrow> json" where
  "key_json z = JObj [(''key'', JStr (zk_key z)), (''transform'', JStr (zk_transform z))]"

section \<open>The structs\<close>

text \<open>Each struct: its table for reading, and its text. \<open>AuthHeader\<close> has the tag \<open>json:"-"\<close>.\<close>

definition file_fields :: "(string \<times> file_config reader) list" where
  "file_fields =
     [(''enabled'', at_field (plain to_bool) fc_enabled (\<lambda>x r. r\<lparr>fc_enabled := x\<rparr>)),
      (''path'', at_field (plain to_text) fc_path (\<lambda>x r. r\<lparr>fc_path := x\<rparr>)),
      (''interval'', at_field read_duration fc_interval (\<lambda>x r. r\<lparr>fc_interval := x\<rparr>)),
      (''priority'', at_field (plain to_int) fc_priority (\<lambda>x r. r\<lparr>fc_priority := x\<rparr>))]"

definition file_json :: "file_config \<Rightarrow> json" where
  "file_json c = JObj
     [(''enabled'', JBool (fc_enabled c)), (''path'', JStr (fc_path c)), (''interval'', duration_json (fc_interval c)),
      (''priority'', json_int (fc_priority c))]"

definition http_fields :: "(string \<times> http_config reader) list" where
  "http_fields =
     [(''enabled'', at_field (plain to_bool) hc_enabled (\<lambda>x r. r\<lparr>hc_enabled := x\<rparr>)),
      (''url'', at_field (plain to_text) hc_url (\<lambda>x r. r\<lparr>hc_url := x\<rparr>)),
      (''interval'', at_field read_duration hc_interval (\<lambda>x r. r\<lparr>hc_interval := x\<rparr>)),
      (''timeout'', at_field read_duration hc_timeout (\<lambda>x r. r\<lparr>hc_timeout := x\<rparr>)),
      (''cache_path'', at_field (plain to_text) hc_cache_path (\<lambda>x r. r\<lparr>hc_cache_path := x\<rparr>)),
      (''cache_max_age'', at_field read_duration hc_cache_max_age (\<lambda>x r. r\<lparr>hc_cache_max_age := x\<rparr>)),
      (''auth_header_file'', at_field (plain to_text) hc_auth_header_file (\<lambda>x r. r\<lparr>hc_auth_header_file := x\<rparr>)),
      (''ca_file'', at_field (plain to_text) hc_ca_file (\<lambda>x r. r\<lparr>hc_ca_file := x\<rparr>)),
      (''insecure_tls'', at_field (plain to_bool) hc_insecure_tls (\<lambda>x r. r\<lparr>hc_insecure_tls := x\<rparr>)),
      (''backoff_min'', at_field read_duration hc_backoff_min (\<lambda>x r. r\<lparr>hc_backoff_min := x\<rparr>)),
      (''backoff_max'', at_field read_duration hc_backoff_max (\<lambda>x r. r\<lparr>hc_backoff_max := x\<rparr>)),
      (''priority'', at_field (plain to_int) hc_priority (\<lambda>x r. r\<lparr>hc_priority := x\<rparr>))]"

definition http_json :: "http_config \<Rightarrow> json" where
  "http_json c = JObj
     [(''enabled'', JBool (hc_enabled c)), (''url'', JStr (hc_url c)), (''interval'', duration_json (hc_interval c)),
      (''timeout'', duration_json (hc_timeout c)), (''cache_path'', JStr (hc_cache_path c)),
      (''cache_max_age'', duration_json (hc_cache_max_age c)), (''auth_header_file'', JStr (hc_auth_header_file c)),
      (''ca_file'', JStr (hc_ca_file c)), (''insecure_tls'', JBool (hc_insecure_tls c)),
      (''backoff_min'', duration_json (hc_backoff_min c)), (''backoff_max'', duration_json (hc_backoff_max c)),
      (''priority'', json_int (hc_priority c))]"

definition kube_fields :: "(string \<times> k8s_config reader) list" where
  "kube_fields =
     [(''enabled'', at_field (plain to_bool) kc_enabled (\<lambda>x r. r\<lparr>kc_enabled := x\<rparr>)),
      (''cluster_name'', at_field (plain to_text) kc_cluster_name (\<lambda>x r. r\<lparr>kc_cluster_name := x\<rparr>)),
      (''kubeconfig'', at_field (plain to_text) kc_kubeconfig (\<lambda>x r. r\<lparr>kc_kubeconfig := x\<rparr>)),
      (''resync'', at_field read_duration kc_resync (\<lambda>x r. r\<lparr>kc_resync := x\<rparr>)),
      (''interval'', at_field read_duration kc_interval (\<lambda>x r. r\<lparr>kc_interval := x\<rparr>)),
      (''debounce'', at_field read_duration kc_debounce (\<lambda>x r. r\<lparr>kc_debounce := x\<rparr>)),
      (''label_selector'', at_field (plain to_text) kc_label_selector (\<lambda>x r. r\<lparr>kc_label_selector := x\<rparr>)),
      (''address_order'', at_field (read_list (plain to_text) []) kc_address_order (\<lambda>x r. r\<lparr>kc_address_order := x\<rparr>)),
      (''taint_deny'', at_field (read_list (plain to_text) []) kc_taint_deny (\<lambda>x r. r\<lparr>kc_taint_deny := x\<rparr>)),
      (''annotation_allow'', at_field (read_list (plain to_text) []) kc_annotation_allow (\<lambda>x r. r\<lparr>kc_annotation_allow := x\<rparr>)),
      (''priority'', at_field (plain to_int) kc_priority (\<lambda>x r. r\<lparr>kc_priority := x\<rparr>))]"

definition kube_json :: "k8s_config \<Rightarrow> json" where
  "kube_json c = JObj
     [(''enabled'', JBool (kc_enabled c)), (''cluster_name'', JStr (kc_cluster_name c)),
      (''kubeconfig'', JStr (kc_kubeconfig c)), (''resync'', duration_json (kc_resync c)),
      (''interval'', duration_json (kc_interval c)), (''debounce'', duration_json (kc_debounce c)),
      (''label_selector'', JStr (kc_label_selector c)), (''address_order'', list_json JStr (kc_address_order c)),
      (''taint_deny'', list_json JStr (kc_taint_deny c)),
      (''annotation_allow'', list_json JStr (kc_annotation_allow c)), (''priority'', json_int (kc_priority c))]"

definition providers_fields :: "(string \<times> providers_config reader) list" where
  "providers_fields =
     [(''file'', at_field (read_struct file_fields) pv_file (\<lambda>x r. r\<lparr>pv_file := x\<rparr>)),
      (''http'', at_field (read_struct http_fields) pv_http (\<lambda>x r. r\<lparr>pv_http := x\<rparr>)),
      (''k8s'', at_field (read_struct kube_fields) pv_k8s (\<lambda>x r. r\<lparr>pv_k8s := x\<rparr>))]"

definition providers_json :: "providers_config \<Rightarrow> json" where
  "providers_json c = JObj
     [(''file'', file_json (pv_file c)), (''http'', http_json (pv_http c)), (''k8s'', kube_json (pv_k8s c))]"

definition zone_fields :: "(string \<times> zone_config reader) list" where
  "zone_fields =
     [(''keys'', at_field (read_list key_of_json \<lparr>zk_key = [], zk_transform = []\<rparr>) zc_keys (\<lambda>x r. r\<lparr>zc_keys := x\<rparr>)),
      (''separator'', at_field (plain to_text) zc_separator (\<lambda>x r. r\<lparr>zc_separator := x\<rparr>)),
      (''missing'', at_field (plain to_text) zc_missing (\<lambda>x r. r\<lparr>zc_missing := x\<rparr>))]"

definition zone_json :: "zone_config \<Rightarrow> json" where
  "zone_json c = JObj
     [(''keys'', list_json key_json (zc_keys c)), (''separator'', JStr (zc_separator c)),
      (''missing'', JStr (zc_missing c))]"

definition pairings_fields :: "(string \<times> pairings_config reader) list" where
  "pairings_fields =
     [(''intra_zone'', at_field (plain to_bool) pc_intra_zone (\<lambda>x r. r\<lparr>pc_intra_zone := x\<rparr>)),
      (''include'', at_field (read_list (plain to_text) []) pc_include (\<lambda>x r. r\<lparr>pc_include := x\<rparr>)),
      (''exclude'', at_field (read_list (plain to_text) []) pc_exclude (\<lambda>x r. r\<lparr>pc_exclude := x\<rparr>)),
      (''max_pairings'', at_field (plain to_int) pc_max_pairings (\<lambda>x r. r\<lparr>pc_max_pairings := x\<rparr>))]"

definition pairings_json :: "pairings_config \<Rightarrow> json" where
  "pairings_json c = JObj
     [(''intra_zone'', JBool (pc_intra_zone c)), (''include'', list_json JStr (pc_include c)),
      (''exclude'', list_json JStr (pc_exclude c)), (''max_pairings'', json_int (pc_max_pairings c))]"

definition slots_fields :: "float_text \<Rightarrow> (string \<times> slots_config reader) list" where
  "slots_fields fl =
     [(''count'', at_field (plain to_int) sc_count (\<lambda>x r. r\<lparr>sc_count := x\<rparr>)),
      (''anchor_ratio'', at_field (plain (to_float fl)) sc_anchor_ratio (\<lambda>x r. r\<lparr>sc_anchor_ratio := x\<rparr>)),
      (''anchor_rounding'', at_field (plain to_text) sc_anchor_rounding (\<lambda>x r. r\<lparr>sc_anchor_rounding := x\<rparr>)),
      (''super_hosts'', at_field (plain to_int) sc_super_hosts (\<lambda>x r. r\<lparr>sc_super_hosts := x\<rparr>)),
      (''super_selector'', at_field read_text_map sc_super_selector (\<lambda>x r. r\<lparr>sc_super_selector := x\<rparr>)),
      (''super_max_targets'', at_field (plain to_int) sc_super_max_targets (\<lambda>x r. r\<lparr>sc_super_max_targets := x\<rparr>)),
      (''allow_reuse'', at_field (plain to_bool) sc_allow_reuse (\<lambda>x r. r\<lparr>sc_allow_reuse := x\<rparr>)),
      (''rebalance_on_add'', at_field (plain to_bool) sc_rebalance_on_add (\<lambda>x r. r\<lparr>sc_rebalance_on_add := x\<rparr>))]"

definition slots_json :: "float_text \<Rightarrow> slots_config \<Rightarrow> json" where
  "slots_json fl c = JObj
     [(''count'', json_int (sc_count c)), (''anchor_ratio'', float_json fl (sc_anchor_ratio c)),
      (''anchor_rounding'', JStr (sc_anchor_rounding c)), (''super_hosts'', json_int (sc_super_hosts c)),
      (''super_selector'', text_map_json (sc_super_selector c)),
      (''super_max_targets'', json_int (sc_super_max_targets c)), (''allow_reuse'', JBool (sc_allow_reuse c)),
      (''rebalance_on_add'', JBool (sc_rebalance_on_add c))]"

definition health_fields :: "(string \<times> health_config reader) list" where
  "health_fields =
     [(''unhealthy_after'', at_field (plain to_int) he_unhealthy_after (\<lambda>x r. r\<lparr>he_unhealthy_after := x\<rparr>)),
      (''release_hold'', at_field read_duration he_release_hold (\<lambda>x r. r\<lparr>he_release_hold := x\<rparr>)),
      (''healthy_after'', at_field (plain to_int) he_healthy_after (\<lambda>x r. r\<lparr>he_healthy_after := x\<rparr>)),
      (''initial_grace'', at_field read_duration he_initial_grace (\<lambda>x r. r\<lparr>he_initial_grace := x\<rparr>)),
      (''missing_grace'', at_field read_duration he_missing_grace (\<lambda>x r. r\<lparr>he_missing_grace := x\<rparr>)),
      (''dns_grace'', at_field read_duration he_dns_grace (\<lambda>x r. r\<lparr>he_dns_grace := x\<rparr>)),
      (''flap_threshold'', at_field (plain to_int) he_flap_threshold (\<lambda>x r. r\<lparr>he_flap_threshold := x\<rparr>)),
      (''flap_window'', at_field read_duration he_flap_window (\<lambda>x r. r\<lparr>he_flap_window := x\<rparr>)),
      (''flap_cooldown'', at_field read_duration he_flap_cooldown (\<lambda>x r. r\<lparr>he_flap_cooldown := x\<rparr>)),
      (''pairing_removal_hold'', at_field read_duration he_pairing_removal_hold (\<lambda>x r. r\<lparr>he_pairing_removal_hold := x\<rparr>)),
      (''reclaim'', at_field (plain to_bool) he_reclaim (\<lambda>x r. r\<lparr>he_reclaim := x\<rparr>))]"

definition health_json :: "health_config \<Rightarrow> json" where
  "health_json c = JObj
     [(''unhealthy_after'', json_int (he_unhealthy_after c)),
      (''release_hold'', duration_json (he_release_hold c)), (''healthy_after'', json_int (he_healthy_after c)),
      (''initial_grace'', duration_json (he_initial_grace c)),
      (''missing_grace'', duration_json (he_missing_grace c)), (''dns_grace'', duration_json (he_dns_grace c)),
      (''flap_threshold'', json_int (he_flap_threshold c)), (''flap_window'', duration_json (he_flap_window c)),
      (''flap_cooldown'', duration_json (he_flap_cooldown c)),
      (''pairing_removal_hold'', duration_json (he_pairing_removal_hold c)), (''reclaim'', JBool (he_reclaim c))]"

definition icmp_fields :: "(string \<times> icmp_config reader) list" where
  "icmp_fields =
     [(''enabled'', at_field (plain to_bool) ic_enabled (\<lambda>x r. r\<lparr>ic_enabled := x\<rparr>)),
      (''interval'', at_field read_duration ic_interval (\<lambda>x r. r\<lparr>ic_interval := x\<rparr>)),
      (''count'', at_field (plain to_int) ic_count (\<lambda>x r. r\<lparr>ic_count := x\<rparr>)),
      (''payload_bytes'', at_field (plain to_int) ic_payload_bytes (\<lambda>x r. r\<lparr>ic_payload_bytes := x\<rparr>)),
      (''timeout'', at_field read_duration ic_timeout (\<lambda>x r. r\<lparr>ic_timeout := x\<rparr>)),
      (''ttl'', at_field (plain to_int) ic_ttl (\<lambda>x r. r\<lparr>ic_ttl := x\<rparr>)),
      (''df'', at_field (plain to_bool) ic_df (\<lambda>x r. r\<lparr>ic_df := x\<rparr>))]"

definition icmp_json :: "icmp_config \<Rightarrow> json" where
  "icmp_json c = JObj
     [(''enabled'', JBool (ic_enabled c)), (''interval'', duration_json (ic_interval c)),
      (''count'', json_int (ic_count c)), (''payload_bytes'', json_int (ic_payload_bytes c)),
      (''timeout'', duration_json (ic_timeout c)), (''ttl'', json_int (ic_ttl c)), (''df'', JBool (ic_df c))]"

definition udp_fields :: "(string \<times> udp_config reader) list" where
  "udp_fields =
     [(''enabled'', at_field (plain to_bool) uc_enabled (\<lambda>x r. r\<lparr>uc_enabled := x\<rparr>)),
      (''interval'', at_field read_duration uc_interval (\<lambda>x r. r\<lparr>uc_interval := x\<rparr>)),
      (''count'', at_field (plain to_int) uc_count (\<lambda>x r. r\<lparr>uc_count := x\<rparr>)),
      (''payload_bytes'', at_field (plain to_int) uc_payload_bytes (\<lambda>x r. r\<lparr>uc_payload_bytes := x\<rparr>)),
      (''port'', at_field (plain to_int) uc_port (\<lambda>x r. r\<lparr>uc_port := x\<rparr>)),
      (''timeout'', at_field read_duration uc_timeout (\<lambda>x r. r\<lparr>uc_timeout := x\<rparr>))]"

definition udp_json :: "udp_config \<Rightarrow> json" where
  "udp_json c = JObj
     [(''enabled'', JBool (uc_enabled c)), (''interval'', duration_json (uc_interval c)),
      (''count'', json_int (uc_count c)), (''payload_bytes'', json_int (uc_payload_bytes c)),
      (''port'', json_int (uc_port c)), (''timeout'', duration_json (uc_timeout c))]"

definition tcp_fields :: "(string \<times> tcp_config reader) list" where
  "tcp_fields =
     [(''enabled'', at_field (plain to_bool) tc_enabled (\<lambda>x r. r\<lparr>tc_enabled := x\<rparr>)),
      (''interval'', at_field read_duration tc_interval (\<lambda>x r. r\<lparr>tc_interval := x\<rparr>)),
      (''count'', at_field (plain to_int) tc_count (\<lambda>x r. r\<lparr>tc_count := x\<rparr>)),
      (''payload_bytes'', at_field (plain to_int) tc_payload_bytes (\<lambda>x r. r\<lparr>tc_payload_bytes := x\<rparr>)),
      (''port'', at_field (plain to_int) tc_port (\<lambda>x r. r\<lparr>tc_port := x\<rparr>)),
      (''timeout'', at_field read_duration tc_timeout (\<lambda>x r. r\<lparr>tc_timeout := x\<rparr>)),
      (''mode'', at_field (plain to_text) tc_mode (\<lambda>x r. r\<lparr>tc_mode := x\<rparr>))]"

definition tcp_json :: "tcp_config \<Rightarrow> json" where
  "tcp_json c = JObj
     [(''enabled'', JBool (tc_enabled c)), (''interval'', duration_json (tc_interval c)),
      (''count'', json_int (tc_count c)), (''payload_bytes'', json_int (tc_payload_bytes c)),
      (''port'', json_int (tc_port c)), (''timeout'', duration_json (tc_timeout c)), (''mode'', JStr (tc_mode c))]"

definition probes_fields :: "(string \<times> probes_config reader) list" where
  "probes_fields =
     [(''cycle'', at_field read_duration pr_cycle (\<lambda>x r. r\<lparr>pr_cycle := x\<rparr>)),
      (''window'', at_field read_duration pr_window (\<lambda>x r. r\<lparr>pr_window := x\<rparr>)),
      (''icmp'', at_field (read_struct icmp_fields) pr_icmp (\<lambda>x r. r\<lparr>pr_icmp := x\<rparr>)),
      (''udp'', at_field (read_struct udp_fields) pr_udp (\<lambda>x r. r\<lparr>pr_udp := x\<rparr>)),
      (''tcp'', at_field (read_struct tcp_fields) pr_tcp (\<lambda>x r. r\<lparr>pr_tcp := x\<rparr>))]"

definition probes_json :: "probes_config \<Rightarrow> json" where
  "probes_json c = JObj
     [(''cycle'', duration_json (pr_cycle c)), (''window'', duration_json (pr_window c)),
      (''icmp'', icmp_json (pr_icmp c)), (''udp'', udp_json (pr_udp c)), (''tcp'', tcp_json (pr_tcp c))]"

definition responder_fields :: "(string \<times> responder_config reader) list" where
  "responder_fields =
     [(''enabled'', at_field (plain to_bool) rc_enabled (\<lambda>x r. r\<lparr>rc_enabled := x\<rparr>)),
      (''udp_listen'', at_field (plain to_text) rc_udp_listen (\<lambda>x r. r\<lparr>rc_udp_listen := x\<rparr>)),
      (''tcp_listen'', at_field (plain to_text) rc_tcp_listen (\<lambda>x r. r\<lparr>rc_tcp_listen := x\<rparr>))]"

definition responder_json :: "responder_config \<Rightarrow> json" where
  "responder_json c = JObj
     [(''enabled'', JBool (rc_enabled c)), (''udp_listen'', JStr (rc_udp_listen c)),
      (''tcp_listen'', JStr (rc_tcp_listen c))]"

definition meshping_fields :: "(string \<times> meshping_config reader) list" where
  "meshping_fields =
     [(''path'', at_field (plain to_text) mp_path (\<lambda>x r. r\<lparr>mp_path := x\<rparr>)),
      (''restart_backoff_min'', at_field read_duration mp_restart_backoff_min (\<lambda>x r. r\<lparr>mp_restart_backoff_min := x\<rparr>)),
      (''restart_backoff_max'', at_field read_duration mp_restart_backoff_max (\<lambda>x r. r\<lparr>mp_restart_backoff_max := x\<rparr>)),
      (''hello_timeout'', at_field read_duration mp_hello_timeout (\<lambda>x r. r\<lparr>mp_hello_timeout := x\<rparr>))]"

definition meshping_json :: "meshping_config \<Rightarrow> json" where
  "meshping_json c = JObj
     [(''path'', JStr (mp_path c)), (''restart_backoff_min'', duration_json (mp_restart_backoff_min c)),
      (''restart_backoff_max'', duration_json (mp_restart_backoff_max c)),
      (''hello_timeout'', duration_json (mp_hello_timeout c))]"

definition persist_fields :: "(string \<times> persist_config reader) list" where
  "persist_fields =
     [(''path'', at_field (plain to_text) ps_path (\<lambda>x r. r\<lparr>ps_path := x\<rparr>)),
      (''debounce'', at_field read_duration ps_debounce (\<lambda>x r. r\<lparr>ps_debounce := x\<rparr>)),
      (''max_delay'', at_field read_duration ps_max_delay (\<lambda>x r. r\<lparr>ps_max_delay := x\<rparr>))]"

definition persist_json :: "persist_config \<Rightarrow> json" where
  "persist_json c = JObj
     [(''path'', JStr (ps_path c)), (''debounce'', duration_json (ps_debounce c)),
      (''max_delay'', duration_json (ps_max_delay c))]"

definition metrics_fields :: "float_text \<Rightarrow> (string \<times> metrics_config reader) list" where
  "metrics_fields fl =
     [(''max_series'', at_field (plain to_int) mc_max_series (\<lambda>x r. r\<lparr>mc_max_series := x\<rparr>)),
      (''rtt_buckets'', at_field (read_list (plain (to_float fl)) (F64 0 0)) mc_rtt_buckets (\<lambda>x r. r\<lparr>mc_rtt_buckets := x\<rparr>)),
      (''percentiles'', at_field (read_list (plain (to_float fl)) (F64 0 0)) mc_percentiles (\<lambda>x r. r\<lparr>mc_percentiles := x\<rparr>))]"

definition metrics_json :: "float_text \<Rightarrow> metrics_config \<Rightarrow> json" where
  "metrics_json fl c = JObj
     [(''max_series'', json_int (mc_max_series c)),
      (''rtt_buckets'', list_json (float_json fl) (mc_rtt_buckets c)),
      (''percentiles'', list_json (float_json fl) (mc_percentiles c))]"

definition log_fields :: "(string \<times> log_config reader) list" where
  "log_fields =
     [(''level'', at_field (plain to_text) lc_level (\<lambda>x r. r\<lparr>lc_level := x\<rparr>)),
      (''format'', at_field (plain to_text) lc_format (\<lambda>x r. r\<lparr>lc_format := x\<rparr>))]"

definition log_json :: "log_config \<Rightarrow> json" where
  "log_json c = JObj
     [(''level'', JStr (lc_level c)), (''format'', JStr (lc_format c))]"

definition reconcile_fields :: "(string \<times> dur reader) list" where
  "reconcile_fields = [(''interval'', at_field read_duration (\<lambda>d. d) (\<lambda>x _. x))]"

definition reconcile_json :: "dur \<Rightarrow> json" where
  "reconcile_json d = JObj [(''interval'', duration_json d)]"

definition api_fields :: "(string \<times> string reader) list" where
  "api_fields = [(''listen'', at_field (plain to_text) (\<lambda>s. s) (\<lambda>x _. x))]"

definition api_json :: "string \<Rightarrow> json" where
  "api_json s = JObj [(''listen'', JStr s)]"

definition config_fields :: "float_text \<Rightarrow> (string \<times> config reader) list" where
  "config_fields fl =
     [(''node_id'', at_field (plain to_text) cf_node_id (\<lambda>x r. r\<lparr>cf_node_id := x\<rparr>)),
      (''providers'', at_field (read_struct providers_fields) cf_providers (\<lambda>x r. r\<lparr>cf_providers := x\<rparr>)),
      (''zone'', at_field (read_struct zone_fields) cf_zone (\<lambda>x r. r\<lparr>cf_zone := x\<rparr>)),
      (''pairings'', at_field (read_struct pairings_fields) cf_pairings (\<lambda>x r. r\<lparr>cf_pairings := x\<rparr>)),
      (''slots'', at_field (read_struct (slots_fields fl)) cf_slots (\<lambda>x r. r\<lparr>cf_slots := x\<rparr>)),
      (''health'', at_field (read_struct health_fields) cf_health (\<lambda>x r. r\<lparr>cf_health := x\<rparr>)),
      (''probes'', at_field (read_struct probes_fields) cf_probes (\<lambda>x r. r\<lparr>cf_probes := x\<rparr>)),
      (''responder'', at_field (read_struct responder_fields) cf_responder (\<lambda>x r. r\<lparr>cf_responder := x\<rparr>)),
      (''meshping'', at_field (read_struct meshping_fields) cf_meshping (\<lambda>x r. r\<lparr>cf_meshping := x\<rparr>)),
      (''reconcile'', at_field (read_struct reconcile_fields) cf_reconcile_interval (\<lambda>x r. r\<lparr>cf_reconcile_interval := x\<rparr>)),
      (''persist'', at_field (read_struct persist_fields) cf_persist (\<lambda>x r. r\<lparr>cf_persist := x\<rparr>)),
      (''api'', at_field (read_struct api_fields) cf_api_listen (\<lambda>x r. r\<lparr>cf_api_listen := x\<rparr>)),
      (''metrics'', at_field (read_struct (metrics_fields fl)) cf_metrics (\<lambda>x r. r\<lparr>cf_metrics := x\<rparr>)),
      (''log'', at_field (read_struct log_fields) cf_log (\<lambda>x r. r\<lparr>cf_log := x\<rparr>))]"

definition config_json :: "float_text \<Rightarrow> config \<Rightarrow> json" where
  "config_json fl c = JObj
     [(''node_id'', JStr (cf_node_id c)), (''providers'', providers_json (cf_providers c)),
      (''zone'', zone_json (cf_zone c)), (''pairings'', pairings_json (cf_pairings c)),
      (''slots'', slots_json fl (cf_slots c)), (''health'', health_json (cf_health c)),
      (''probes'', probes_json (cf_probes c)), (''responder'', responder_json (cf_responder c)),
      (''meshping'', meshping_json (cf_meshping c)), (''reconcile'', reconcile_json (cf_reconcile_interval c)),
      (''persist'', persist_json (cf_persist c)), (''api'', api_json (cf_api_listen c)),
      (''metrics'', metrics_json fl (cf_metrics c)), (''log'', log_json (cf_log c))]"

section \<open>Reading back\<close>

lemma member_none: "fold (read_member tbl) kvs None = None"
  by (induction kvs) (simp_all add: read_member_def)

text \<open>When the members are the fields of the table in order, each field reads its own member.\<close>

definition read_pair :: "(string \<times> 'r reader) \<times> (string \<times> json) \<Rightarrow> 'r option \<Rightarrow> 'r option" where
  "read_pair p acc = (case acc of None \<Rightarrow> None | Some r \<Rightarrow> snd (fst p) (snd (snd p)) r)"

lemma find_at:
  assumes "distinct (map (g \<circ> fst) xs)" "x \<in> set xs"
  shows "List.find (\<lambda>f. g (fst f) = g (fst x)) xs = Some x"
  using assms
proof (induction xs)
  case (Cons y ys)
  show ?case
  proof (cases "y = x")
    case False
    then have x: "x \<in> set ys" using Cons.prems(2) by simp
    then have "g (fst x) \<in> (\<lambda>f. g (fst f)) ` set ys" by (rule imageI)
    moreover have "g (fst y) \<notin> (\<lambda>f. g (fst f)) ` set ys" using Cons.prems(1) by (simp add: o_def)
    ultimately have "g (fst y) \<noteq> g (fst x)" by metis
    with Cons.IH Cons.prems(1) x show ?thesis by simp
  qed simp
qed simp

lemma read_members:
  assumes "map fst kvs = map fst fs" "set fs \<subseteq> set tbl" "distinct (map (fold_case \<circ> fst) tbl)"
  shows "fold (read_member tbl) kvs acc = fold read_pair (zip fs kvs) acc"
  using assms
proof (induction kvs arbitrary: fs acc)
  case (Cons kv kvs)
  then obtain f fs' where fs: "fs = f # fs'" "fst kv = fst f" by (cases fs) auto
  have "List.find (\<lambda>x. fold_case (fst x) = fold_case (fst kv)) tbl = Some f"
    using find_at [of fold_case tbl f] Cons.prems(2,3) fs by simp
  then have "read_member tbl kv acc = read_pair (f, kv) acc"
    by (simp add: read_member_def read_pair_def split: option.split)
  with Cons.IH [of fs'] Cons.prems fs show ?case by simp
qed simp

lemma read_object:
  assumes "map fst kvs = map fst tbl" "distinct (map (fold_case \<circ> fst) tbl)"
  shows "read_struct tbl (JObj kvs) r = fold read_pair (zip tbl kvs) (Some r)"
  using read_members [OF assms(1) subset_refl assms(2)] by (simp add: read_struct_def)

lemma text_back: "plain to_text (JStr s) old = Some s"
  by (simp add: plain_def)

lemma bool_back: "plain to_bool (JBool b) old = Some b"
  by (simp add: plain_def)

lemma int_back: "int64 i \<Longrightarrow> plain to_int (json_int i) old = Some i"
  by (simp add: plain_def int64_def atoi_show_int)

lemma float_back: "float_exact fl x \<Longrightarrow> plain (to_float fl) (float_json fl x) old = Some x"
  by (simp add: plain_def to_float_def float_json_def float_exact_def)

text \<open>The element lists.\<close>

lemma enumerate_those:
  assumes "\<And>x old. x \<in> set xs \<Longrightarrow> rd (f x) old = Some x"
  shows "those (map (\<lambda>(i, x). rd x (h i)) (enumerate n (map f xs))) = Some xs"
  using assms by (induction xs arbitrary: n) simp_all

lemma list_back:
  assumes "\<And>x old. x \<in> set xs \<Longrightarrow> rd (f x) old = Some x"
  shows "read_list rd zero (list_json f xs) old = Some xs"
  using enumerate_those [of xs rd f "\<lambda>i. if i < length old then old ! i else zero" 0] assms
  by (simp add: read_list_def list_json_def)

lemma entries_back:
  assumes "distinct (map fst m @ map fst kvs)"
  shows "fold read_entry (map (\<lambda>(k, v). (k, JStr v)) kvs) (Some m) = Some (m @ kvs)"
  using assms
proof (induction kvs arbitrary: m)
  case (Cons kv kvs)
  obtain k v where kv: "kv = (k, v)" by (cases kv)
  have "AList.update k v m = m @ [(k, v)]"
  proof -
    have "k \<notin> fst ` set m" using Cons.prems kv by auto
    then show ?thesis by (induction m) auto
  qed
  then have "read_entry (k, JStr v) (Some m) = Some (m @ [(k, v)])" by (simp add: read_entry_def plain_def)
  with Cons.IH [of "m @ [(k, v)]"] Cons.prems kv show ?case by auto
qed simp

lemma map_back:
  assumes "sorted (map fst m)" "distinct (map fst m)" "old = []"
  shows "read_text_map (text_map_json m) old = Some m"
  using entries_back [of "[]" m] assms by (simp add: read_text_map_def text_map_json_def sort_key_id_if_sorted)

section \<open>What a configuration must satisfy\<close>

text \<open>Integers and durations fit 64 bits, floats have an exact text, the selector is given by its sorted keys.\<close>

lemma duration_back: "int64 d \<Longrightarrow> read_duration (duration_json d) old = Some d"
  using duration_read [of d] by (simp add: read_duration_def int64_def)

definition file_fits :: "file_config \<Rightarrow> bool" where
  "file_fits c \<longleftrightarrow> list_all int64 [fc_interval c, fc_priority c]"

definition http_fits :: "http_config \<Rightarrow> bool" where
  "http_fits c \<longleftrightarrow> list_all int64 [hc_interval c, hc_timeout c, hc_cache_max_age c, hc_backoff_min c, hc_backoff_max c, hc_priority c]"

definition kube_fits :: "k8s_config \<Rightarrow> bool" where
  "kube_fits c \<longleftrightarrow> list_all int64 [kc_resync c, kc_interval c, kc_debounce c, kc_priority c]"

definition providers_fits :: "providers_config \<Rightarrow> bool" where
  "providers_fits c \<longleftrightarrow> file_fits (pv_file c) \<and> http_fits (pv_http c) \<and> kube_fits (pv_k8s c)"

definition pairings_fits :: "pairings_config \<Rightarrow> bool" where
  "pairings_fits c \<longleftrightarrow> list_all int64 [pc_max_pairings c]"

definition slots_fits :: "float_text \<Rightarrow> slots_config \<Rightarrow> bool" where
  "slots_fits fl c \<longleftrightarrow> list_all int64 [sc_count c, sc_super_hosts c, sc_super_max_targets c]
     \<and> float_exact fl (sc_anchor_ratio c)
     \<and> sorted (map fst (sc_super_selector c)) \<and> distinct (map fst (sc_super_selector c))"

definition health_fits :: "health_config \<Rightarrow> bool" where
  "health_fits c \<longleftrightarrow> list_all int64 [he_unhealthy_after c, he_release_hold c, he_healthy_after c, he_initial_grace c, he_missing_grace c, he_dns_grace c, he_flap_threshold c, he_flap_window c, he_flap_cooldown c, he_pairing_removal_hold c]"

definition icmp_fits :: "icmp_config \<Rightarrow> bool" where
  "icmp_fits c \<longleftrightarrow> list_all int64 [ic_interval c, ic_count c, ic_payload_bytes c, ic_timeout c, ic_ttl c]"

definition udp_fits :: "udp_config \<Rightarrow> bool" where
  "udp_fits c \<longleftrightarrow> list_all int64 [uc_interval c, uc_count c, uc_payload_bytes c, uc_port c, uc_timeout c]"

definition tcp_fits :: "tcp_config \<Rightarrow> bool" where
  "tcp_fits c \<longleftrightarrow> list_all int64 [tc_interval c, tc_count c, tc_payload_bytes c, tc_port c, tc_timeout c]"

definition probes_fits :: "probes_config \<Rightarrow> bool" where
  "probes_fits c \<longleftrightarrow> list_all int64 [pr_cycle c, pr_window c] \<and> icmp_fits (pr_icmp c) \<and> udp_fits (pr_udp c)
     \<and> tcp_fits (pr_tcp c)"

definition meshping_fits :: "meshping_config \<Rightarrow> bool" where
  "meshping_fits c \<longleftrightarrow> list_all int64 [mp_restart_backoff_min c, mp_restart_backoff_max c, mp_hello_timeout c]"

definition persist_fits :: "persist_config \<Rightarrow> bool" where
  "persist_fits c \<longleftrightarrow> list_all int64 [ps_debounce c, ps_max_delay c]"

definition metrics_fits :: "float_text \<Rightarrow> metrics_config \<Rightarrow> bool" where
  "metrics_fits fl c \<longleftrightarrow> list_all int64 [mc_max_series c] \<and> list_all (float_exact fl) (mc_rtt_buckets c)
     \<and> list_all (float_exact fl) (mc_percentiles c)"

definition config_fits :: "float_text \<Rightarrow> config \<Rightarrow> bool" where
  "config_fits fl c \<longleftrightarrow> list_all int64 [cf_reconcile_interval c] \<and> providers_fits (cf_providers c)
     \<and> pairings_fits (cf_pairings c) \<and> slots_fits fl (cf_slots c) \<and> health_fits (cf_health c)
     \<and> probes_fits (cf_probes c) \<and> meshping_fits (cf_meshping c) \<and> persist_fits (cf_persist c)
     \<and> metrics_fits fl (cf_metrics c)"

lemmas reading = read_pair_def at_field_def fst_conv snd_conv option.case option.map id_apply
  zip_Cons_Cons zip.simps(1) fold_simps text_back bool_back int_back duration_back float_back

lemma texts_back: "read_list (plain to_text) [] (list_json JStr xs) old = Some xs"
  by (rule list_back) (rule text_back)

lemma floats_back: "list_all (float_exact fl) xs \<Longrightarrow>
    read_list (plain (to_float fl)) (F64 0 0) (list_json (float_json fl) xs) old = Some xs"
  by (rule list_back) (simp add: list_all_iff float_back)

lemma key_back: "key_of_json (key_json z) old = Some z"
proof -
  have names: "distinct (map (fold_case \<circ> fst) zone_key_fields)"
    by (simp only: zone_key_fields_def list.map comp_apply fst_conv) code_simp
  have "read_struct zone_key_fields (key_json z) r = Some z" for r
    unfolding key_json_def
    by (subst read_object [OF _ names], simp only: zone_key_fields_def list.map fst_conv)
      (simp only: zone_key_fields_def reading, cases z, cases r, hypsubst,
        simp only: zone_key_spec.update_convs zone_key_spec.select_convs)
  then show ?thesis by (simp add: key_of_json_def key_json_def)
qed

lemma keys_back: "read_list key_of_json zero (list_json key_json xs) old = Some xs"
  by (rule list_back) (rule key_back)

lemma file_back:
  assumes "file_fits c"
  shows "read_struct file_fields (file_json c) r = Some c"
proof -
  have names: "distinct (map (fold_case \<circ> fst) file_fields)"
    by (simp only: file_fields_def list.map comp_apply fst_conv) code_simp
  show ?thesis using assms unfolding file_json_def
    by (subst read_object [OF _ names], simp only: file_fields_def list.map fst_conv)
      (cases c, cases r, hypsubst, simp only: file_fields_def reading file_fits_def list.pred_inject
        file_config.update_convs file_config.select_convs)
qed

lemma http_back:
  assumes "http_fits c"
  shows "read_struct http_fields (http_json c) r = Some (c\<lparr>hc_auth_header := hc_auth_header r\<rparr>)"
proof -
  have names: "distinct (map (fold_case \<circ> fst) http_fields)"
    by (simp only: http_fields_def list.map comp_apply fst_conv) code_simp
  show ?thesis using assms unfolding http_json_def
    by (subst read_object [OF _ names], simp only: http_fields_def list.map fst_conv)
      (cases c, cases r, hypsubst, simp only: http_fields_def reading http_fits_def list.pred_inject
        http_config.update_convs http_config.select_convs)
qed

lemma kube_back:
  assumes "kube_fits c"
  shows "read_struct kube_fields (kube_json c) r = Some c"
proof -
  have names: "distinct (map (fold_case \<circ> fst) kube_fields)"
    by (simp only: kube_fields_def list.map comp_apply fst_conv) code_simp
  show ?thesis using assms unfolding kube_json_def
    by (subst read_object [OF _ names], simp only: kube_fields_def list.map fst_conv)
      (cases c, cases r, hypsubst, simp only: kube_fields_def reading kube_fits_def list.pred_inject texts_back
        k8s_config.update_convs k8s_config.select_convs)
qed

lemma providers_back:
  assumes "providers_fits c"
  shows "read_struct providers_fields (providers_json c) r = Some (c\<lparr>pv_http := (pv_http c)\<lparr>hc_auth_header := hc_auth_header (pv_http r)\<rparr>\<rparr>)"
proof -
  have names: "distinct (map (fold_case \<circ> fst) providers_fields)"
    by (simp only: providers_fields_def list.map comp_apply fst_conv) code_simp
  show ?thesis using assms unfolding providers_json_def
    by (subst read_object [OF _ names], simp only: providers_fields_def list.map fst_conv)
      (cases c, cases r, hypsubst, simp only: providers_fields_def reading providers_fits_def list.pred_inject file_back http_back kube_back
        providers_config.update_convs providers_config.select_convs)
qed

lemma zone_back:
  shows "read_struct zone_fields (zone_json c) r = Some c"
proof -
  have names: "distinct (map (fold_case \<circ> fst) zone_fields)"
    by (simp only: zone_fields_def list.map comp_apply fst_conv) code_simp
  show ?thesis using TrueI unfolding zone_json_def
    by (subst read_object [OF _ names], simp only: zone_fields_def list.map fst_conv)
      (cases c, cases r, hypsubst, simp only: zone_fields_def reading list.pred_inject keys_back
        zone_config.update_convs zone_config.select_convs)
qed

lemma pairings_back:
  assumes "pairings_fits c"
  shows "read_struct pairings_fields (pairings_json c) r = Some c"
proof -
  have names: "distinct (map (fold_case \<circ> fst) pairings_fields)"
    by (simp only: pairings_fields_def list.map comp_apply fst_conv) code_simp
  show ?thesis using assms unfolding pairings_json_def
    by (subst read_object [OF _ names], simp only: pairings_fields_def list.map fst_conv)
      (cases c, cases r, hypsubst, simp only: pairings_fields_def reading pairings_fits_def list.pred_inject texts_back
        pairings_config.update_convs pairings_config.select_convs)
qed

lemma slots_back:
  assumes "slots_fits fl c" "sc_super_selector r = []"
  shows "read_struct (slots_fields fl) (slots_json fl c) r = Some c"
proof -
  have names: "distinct (map (fold_case \<circ> fst) (slots_fields fl))"
    by (simp only: slots_fields_def list.map comp_apply fst_conv) code_simp
  show ?thesis using assms unfolding slots_json_def
    by (subst read_object [OF _ names], simp only: slots_fields_def list.map fst_conv)
      (cases c, cases r, hypsubst, simp only: slots_fields_def reading slots_fits_def list.pred_inject map_back
        slots_config.update_convs slots_config.select_convs)
qed

lemma health_back:
  assumes "health_fits c"
  shows "read_struct health_fields (health_json c) r = Some c"
proof -
  have names: "distinct (map (fold_case \<circ> fst) health_fields)"
    by (simp only: health_fields_def list.map comp_apply fst_conv) code_simp
  show ?thesis using assms unfolding health_json_def
    by (subst read_object [OF _ names], simp only: health_fields_def list.map fst_conv)
      (cases c, cases r, hypsubst, simp only: health_fields_def reading health_fits_def list.pred_inject
        health_config.update_convs health_config.select_convs)
qed

lemma icmp_back:
  assumes "icmp_fits c"
  shows "read_struct icmp_fields (icmp_json c) r = Some c"
proof -
  have names: "distinct (map (fold_case \<circ> fst) icmp_fields)"
    by (simp only: icmp_fields_def list.map comp_apply fst_conv) code_simp
  show ?thesis using assms unfolding icmp_json_def
    by (subst read_object [OF _ names], simp only: icmp_fields_def list.map fst_conv)
      (cases c, cases r, hypsubst, simp only: icmp_fields_def reading icmp_fits_def list.pred_inject
        icmp_config.update_convs icmp_config.select_convs)
qed

lemma udp_back:
  assumes "udp_fits c"
  shows "read_struct udp_fields (udp_json c) r = Some c"
proof -
  have names: "distinct (map (fold_case \<circ> fst) udp_fields)"
    by (simp only: udp_fields_def list.map comp_apply fst_conv) code_simp
  show ?thesis using assms unfolding udp_json_def
    by (subst read_object [OF _ names], simp only: udp_fields_def list.map fst_conv)
      (cases c, cases r, hypsubst, simp only: udp_fields_def reading udp_fits_def list.pred_inject
        udp_config.update_convs udp_config.select_convs)
qed

lemma tcp_back:
  assumes "tcp_fits c"
  shows "read_struct tcp_fields (tcp_json c) r = Some c"
proof -
  have names: "distinct (map (fold_case \<circ> fst) tcp_fields)"
    by (simp only: tcp_fields_def list.map comp_apply fst_conv) code_simp
  show ?thesis using assms unfolding tcp_json_def
    by (subst read_object [OF _ names], simp only: tcp_fields_def list.map fst_conv)
      (cases c, cases r, hypsubst, simp only: tcp_fields_def reading tcp_fits_def list.pred_inject
        tcp_config.update_convs tcp_config.select_convs)
qed

lemma probes_back:
  assumes "probes_fits c"
  shows "read_struct probes_fields (probes_json c) r = Some c"
proof -
  have names: "distinct (map (fold_case \<circ> fst) probes_fields)"
    by (simp only: probes_fields_def list.map comp_apply fst_conv) code_simp
  show ?thesis using assms unfolding probes_json_def
    by (subst read_object [OF _ names], simp only: probes_fields_def list.map fst_conv)
      (cases c, cases r, hypsubst, simp only: probes_fields_def reading probes_fits_def list.pred_inject icmp_back tcp_back udp_back
        probes_config.update_convs probes_config.select_convs)
qed

lemma responder_back:
  shows "read_struct responder_fields (responder_json c) r = Some c"
proof -
  have names: "distinct (map (fold_case \<circ> fst) responder_fields)"
    by (simp only: responder_fields_def list.map comp_apply fst_conv) code_simp
  show ?thesis using TrueI unfolding responder_json_def
    by (subst read_object [OF _ names], simp only: responder_fields_def list.map fst_conv)
      (cases c, cases r, hypsubst, simp only: responder_fields_def reading list.pred_inject
        responder_config.update_convs responder_config.select_convs)
qed

lemma meshping_back:
  assumes "meshping_fits c"
  shows "read_struct meshping_fields (meshping_json c) r = Some c"
proof -
  have names: "distinct (map (fold_case \<circ> fst) meshping_fields)"
    by (simp only: meshping_fields_def list.map comp_apply fst_conv) code_simp
  show ?thesis using assms unfolding meshping_json_def
    by (subst read_object [OF _ names], simp only: meshping_fields_def list.map fst_conv)
      (cases c, cases r, hypsubst, simp only: meshping_fields_def reading meshping_fits_def list.pred_inject
        meshping_config.update_convs meshping_config.select_convs)
qed

lemma persist_back:
  assumes "persist_fits c"
  shows "read_struct persist_fields (persist_json c) r = Some c"
proof -
  have names: "distinct (map (fold_case \<circ> fst) persist_fields)"
    by (simp only: persist_fields_def list.map comp_apply fst_conv) code_simp
  show ?thesis using assms unfolding persist_json_def
    by (subst read_object [OF _ names], simp only: persist_fields_def list.map fst_conv)
      (cases c, cases r, hypsubst, simp only: persist_fields_def reading persist_fits_def list.pred_inject
        persist_config.update_convs persist_config.select_convs)
qed

lemma metrics_back:
  assumes "metrics_fits fl c"
  shows "read_struct (metrics_fields fl) (metrics_json fl c) r = Some c"
proof -
  have names: "distinct (map (fold_case \<circ> fst) (metrics_fields fl))"
    by (simp only: metrics_fields_def list.map comp_apply fst_conv) code_simp
  show ?thesis using assms unfolding metrics_json_def
    by (subst read_object [OF _ names], simp only: metrics_fields_def list.map fst_conv)
      (cases c, cases r, hypsubst, simp only: metrics_fields_def reading metrics_fits_def list.pred_inject floats_back
        metrics_config.update_convs metrics_config.select_convs)
qed

lemma log_back:
  shows "read_struct log_fields (log_json c) r = Some c"
proof -
  have names: "distinct (map (fold_case \<circ> fst) log_fields)"
    by (simp only: log_fields_def list.map comp_apply fst_conv) code_simp
  show ?thesis using TrueI unfolding log_json_def
    by (subst read_object [OF _ names], simp only: log_fields_def list.map fst_conv)
      (cases c, cases r, hypsubst, simp only: log_fields_def reading list.pred_inject
        log_config.update_convs log_config.select_convs)
qed

lemma reconcile_back: "int64 d \<Longrightarrow> read_struct reconcile_fields (reconcile_json d) r = Some d"
proof -
  have names: "distinct (map (fold_case \<circ> fst) reconcile_fields)" by (simp add: reconcile_fields_def)
  show "int64 d \<Longrightarrow> ?thesis" unfolding reconcile_json_def
    by (subst read_object [OF _ names], simp only: reconcile_fields_def list.map fst_conv)
      (simp only: reconcile_fields_def reading)
qed

lemma api_back: "read_struct api_fields (api_json s) r = Some s"
proof -
  have names: "distinct (map (fold_case \<circ> fst) api_fields)" by (simp add: api_fields_def)
  show ?thesis unfolding api_json_def
    by (subst read_object [OF _ names], simp only: api_fields_def list.map fst_conv)
      (simp only: api_fields_def reading)
qed

definition with_header :: "string \<Rightarrow> config \<Rightarrow> config" where
  "with_header h c = c\<lparr>cf_providers := (cf_providers c)\<lparr>pv_http := (pv_http (cf_providers c))\<lparr>hc_auth_header := h\<rparr>\<rparr>\<rparr>"

lemma config_back:
  assumes "config_fits fl c" "sc_super_selector (cf_slots r) = []"
  shows "read_struct (config_fields fl) (config_json fl c) r = Some (with_header (hc_auth_header (pv_http (cf_providers r))) c)"
proof -
  have names: "distinct (map (fold_case \<circ> fst) (config_fields fl))"
    by (simp only: config_fields_def list.map comp_apply fst_conv) code_simp
  show ?thesis using assms unfolding config_json_def
    by (subst read_object [OF _ names], simp only: config_fields_def list.map fst_conv)
      (cases c, cases r, hypsubst, simp only: config_fields_def reading config_fits_def list.pred_inject api_back health_back log_back meshping_back metrics_back pairings_back persist_back probes_back providers_back reconcile_back responder_back slots_back zone_back
        config.update_convs config.select_convs with_header_def)
qed

section \<open>The configuration as a document\<close>

definition marshal_config :: "float_text \<Rightarrow> config \<Rightarrow> string" where
  "marshal_config fl c = json_text (config_json fl c)"

text \<open>\<open>json.Unmarshal\<close> of a text into a configuration, as \<open>Parse\<close> uses it on the defaults.\<close>

definition unmarshal_config :: "float_text \<Rightarrow> string \<Rightarrow> config \<Rightarrow> config option" where
  "unmarshal_config fl doc old =
     (case json_parse doc of None \<Rightarrow> None | Some v \<Rightarrow> read_struct (config_fields fl) v old)"

lemma leaf_ok:
  "json_ok (duration_json d)" "json_ok (json_int i)" "float_exact fl x \<Longrightarrow> json_ok (float_json fl x)" "json_ok (key_json z)"
  by (simp_all add: duration_json_def show_int_number float_json_def float_exact_def key_json_def)

lemma list_json_ok: "(\<And>x. x \<in> set xs \<Longrightarrow> json_ok (f x)) \<Longrightarrow> json_ok (list_json f xs)"
  by (simp add: list_json_def list_all_iff)

lemma list_leaf_ok:
  "json_ok (list_json JStr ts)" "json_ok (list_json key_json zs)" "json_ok (text_map_json m)"
  "list_all (float_exact fl) xs \<Longrightarrow> json_ok (list_json (float_json fl) xs)"
  by (simp_all add: list_json_ok leaf_ok list_all_iff text_map_json_def case_prod_beta)

lemmas struct_json = file_json_def http_json_def kube_json_def pairings_json_def zone_json_def health_json_def
  icmp_json_def udp_json_def tcp_json_def responder_json_def meshping_json_def persist_json_def log_json_def
  reconcile_json_def api_json_def

lemma struct_ok:
  "json_ok (file_json a)" "json_ok (http_json b)" "json_ok (kube_json k)" "json_ok (pairings_json p)" "json_ok (zone_json z)"
  "json_ok (health_json h)" "json_ok (icmp_json i)" "json_ok (udp_json u)" "json_ok (tcp_json t)"
  "json_ok (responder_json r)" "json_ok (meshping_json m)" "json_ok (persist_json q)" "json_ok (log_json l)"
  "json_ok (reconcile_json d)" "json_ok (api_json s)"
  by (simp_all only: struct_json json_ok.simps list.pred_inject comp_apply snd_conv leaf_ok list_leaf_ok show_int_number simp_thms)

lemma config_json_ok: "config_fits fl c \<Longrightarrow> json_ok (config_json fl c)"
  unfolding config_fits_def slots_fits_def metrics_fits_def
  by (simp only: config_json_def providers_json_def probes_json_def slots_json_def metrics_json_def json_ok.simps
      list.pred_inject comp_apply snd_conv leaf_ok list_leaf_ok struct_ok show_int_number simp_thms)

text \<open>What is written is read back, over any configuration without a selector, but for the header.\<close>

lemma config_read:
  assumes "config_fits fl c" "sc_super_selector (cf_slots old) = []"
  shows "unmarshal_config fl (marshal_config fl c) old = Some (with_header (hc_auth_header (pv_http (cf_providers old))) c)"
  unfolding unmarshal_config_def marshal_config_def json_roundtrip [OF config_json_ok [OF assms(1)]] option.case
  by (rule config_back [OF assms])

lemma with_header_normalise: "normalise h (with_header x c) = with_header x (normalise h c)"
  by (simp add: normalise_def norm_node_def with_header_def Let_def split: option.split)

lemma with_header_validate: "validate (with_header x c) = validate c"
  by (simp add: validate_def validate_providers_def with_header_def Let_def)

lemma with_header_frame:
  "cf_node_id (with_header h c) = cf_node_id c" "cf_zone (with_header h c) = cf_zone c"
  "cf_pairings (with_header h c) = cf_pairings c" "cf_slots (with_header h c) = cf_slots c"
  "cf_health (with_header h c) = cf_health c" "cf_probes (with_header h c) = cf_probes c"
  "cf_responder (with_header h c) = cf_responder c" "cf_meshping (with_header h c) = cf_meshping c"
  "cf_reconcile_interval (with_header h c) = cf_reconcile_interval c" "cf_persist (with_header h c) = cf_persist c"
  "cf_api_listen (with_header h c) = cf_api_listen c" "cf_metrics (with_header h c) = cf_metrics c"
  "cf_log (with_header h c) = cf_log c" "pv_file (cf_providers (with_header h c)) = pv_file (cf_providers c)"
  "pv_k8s (cf_providers (with_header h c)) = pv_k8s (cf_providers c)"
  "pv_http (cf_providers (with_header h c)) = (pv_http (cf_providers c))\<lparr>hc_auth_header := h\<rparr>"
  by (simp_all add: with_header_def)

lemma header_json: "http_json (c\<lparr>hc_auth_header := h\<rparr>) = http_json c"
  by (cases c, hypsubst, simp only: http_json_def http_config.update_convs http_config.select_convs)

lemma with_header_json: "config_json fl (with_header h c) = config_json fl c"
  by (simp only: config_json_def providers_json_def with_header_frame header_json)

lemma redacted_header: "redacted c = (if hc_auth_header (pv_http (cf_providers c)) \<noteq> [] then with_header ''[redacted]'' c else c)"
  by (simp add: redacted_def with_header_def Let_def)

text \<open>
  C31: the configuration \<open>/config\<close> shows is a configuration file. The JSON text of an effective configuration
  (the endpoint only indents it), redacted or not, loaded as a \<open>.json\<close> file gives that configuration again, every duration, number, list
  and zone key included; only the authentication header of the HTTP source is lost, which has no JSON field: a JSON
  file cannot set it, though a YAML file can.
\<close>

theorem effective_config_reloads:
  assumes "parse_config host d = Inr c" "config_fits fl c" "config_format_of path = FormatJson"
    and "\<And>doc. decode FormatJson doc = unmarshal_config fl doc default_config"
  shows "load_config decode host path (Some (marshal_config fl (redacted c))) = Inr (with_header [] c)
    \<and> marshal_config fl (redacted c) = marshal_config fl c"
proof -
  have red: "marshal_config fl (redacted c) = marshal_config fl c"
    by (simp only: marshal_config_def redacted_header with_header_json split: if_split) simp
  have "sc_super_selector (cf_slots default_config) = []" "hc_auth_header (pv_http (cf_providers default_config)) = []"
    by (simp_all add: default_config_def)
  with config_read [OF assms(2)] have dec: "decode FormatJson (marshal_config fl c) = Some (with_header [] c)"
    by (simp add: assms(4))
  have c: "c = normalise host d" "validate c = []"
    using assms(1) by (auto simp: parse_config_def Let_def split: if_splits)
  then have "normalise host c = c" by (simp add: normalise_idem)
  with c(2) have "parse_config host (with_header [] c) = Inr (with_header [] c)"
    by (simp add: parse_config_def with_header_normalise with_header_validate)
  with red dec assms(3) show ?thesis by (simp add: load_config_def)
qed

definition half_text :: float_text where
  "half_text = \<lparr>ft_show = (\<lambda>_. ''0.5''), ft_read = (\<lambda>t. if t = ''0.5'' then Some half else None)\<rparr>"

lemma half_exact: "float_exact half_text half"
proof -
  have "json_number (''0.5'' @ r) = Some (''0.5'', r)" if "delim r" for r
    using delim_plain [OF that] by (simp add: json_number_def digits_of_def frac_part_def is_digit_def less_eq_char_def)
  then show ?thesis
    by (simp add: float_exact_def half_text_def number_ok_def is_digit_def less_eq_char_def)
qed

text \<open>The defaults with the file source, a header, and one half as the only float.\<close>

definition secret_config :: config where
  "secret_config = with_header ''Bearer x'' (file_only\<lparr>cf_node_id := ''n1'',
     cf_metrics := \<lparr>mc_max_series = 200000, mc_rtt_buckets = [], mc_percentiles = [half]\<rparr>\<rparr>)"

theorem effective_config_reloads_witness:
  "load_config (\<lambda>_ doc. unmarshal_config half_text doc default_config) None ''c.json''
      (Some (marshal_config half_text (redacted secret_config))) = Inr (with_header [] secret_config)"
proof -
  have "validate secret_config = []" "normalise None secret_config = secret_config" by code_simp+
  then have p: "parse_config None secret_config = Inr secret_config" by (simp add: parse_config_def)
  have "config_fits half_text secret_config"
    unfolding secret_config_def with_header_def file_only_def default_config_def default_probes_def second_def
    by (simp add: config_fits_def providers_fits_def file_fits_def http_fits_def kube_fits_def pairings_fits_def
      slots_fits_def health_fits_def probes_fits_def icmp_fits_def udp_fits_def tcp_fits_def meshping_fits_def
      persist_fits_def metrics_fits_def half_exact int64_def min_int64_def max_int64_def)
  moreover have "config_format_of ''c.json'' = FormatJson" by code_simp
  ultimately show ?thesis by (rule conjunct1 [OF effective_config_reloads [OF p]]) (rule refl)
qed

section \<open>Fingerprints\<close>

text \<open>The JSON forms of the three sources are the ones above.\<close>

definition real_json :: "source_env \<Rightarrow> bool" where
  "real_json env \<longleftrightarrow> de_json_file env = (\<lambda>c. Some (json_text (file_json c)))
     \<and> de_json_http env = (\<lambda>c. Some (json_text (http_json c))) \<and> de_json_kube env = (\<lambda>c. Some (json_text (kube_json c)))"

lemma http_text_inject:
  assumes "json_text (http_json a) = json_text (http_json b)" "http_fits a" "http_fits b"
  shows "a\<lparr>hc_auth_header := []\<rparr> = b\<lparr>hc_auth_header := []\<rparr>"
proof -
  have eq: "http_json a = http_json b"
    using json_roundtrip [OF struct_ok(2), of a] json_roundtrip [OF struct_ok(2), of b] assms(1)
    by (metis option.inject)
  let ?r = "a\<lparr>hc_auth_header := []\<rparr>"
  have "Some (a\<lparr>hc_auth_header := hc_auth_header ?r\<rparr>) = Some (b\<lparr>hc_auth_header := hc_auth_header ?r\<rparr>)"
    by (rule trans [OF http_back [OF assms(2), symmetric]]) (subst eq, rule http_back [OF assms(3)])
  moreover have "hc_auth_header ?r = []" by simp
  ultimately show ?thesis unfolding option.inject by metis
qed

lemma registered_http:
  "mg_enabled (register_providers env m) cfg ''http'' = hc_enabled (pv_http (cf_providers cfg))"
  "mg_fingers (register_providers env m) cfg ''http'' = fingerprint (de_json_http env (pv_http (cf_providers cfg)))"
  "map_of (mg_factories (register_providers env m)) ''http''
     = Some (\<lambda>cfg. map_option HttpSource (make_http env (pv_http (cf_providers cfg))))"
  "gm_wf (mg_factories m) \<Longrightarrow> gm_wf (mg_factories (register_providers env m))"
  by (simp_all add: register_providers_def register_file_def register_http_def register_kube_def register_def update_conv' gm_wf_update)

text \<open>
  C39: a new authentication header does not reach the source. The fingerprint of a source is the hash of its
  JSON form: that form tells apart any two settings of the HTTP source that differ in anything but
  the header, and says nothing about the header. So after a reload that changes only the header the manager
  keeps the running source as it is, with the old header, for as long as nothing else of its settings changes.
\<close>

theorem auth_header_change_ignored:
  assumes "real_json env" "m = fst (manager_apply now slow cfg (register_providers env (new_manager store)))"
    and "map_of (mg_active m) ''http'' = Some r" "http_fits (pv_http (cf_providers cfg))" "http_fits other"
  shows "map_of (mg_active (fst (manager_apply now' slow' (with_header h cfg) m))) ''http'' = Some r
    \<and> rn_prov r = HttpSource (new_http_prov (pv_http (cf_providers cfg)))
    \<and> (json_text (http_json other) = json_text (http_json (pv_http (cf_providers cfg)))
       \<longleftrightarrow> other\<lparr>hc_auth_header := []\<rparr> = (pv_http (cf_providers cfg))\<lparr>hc_auth_header := []\<rparr>)"
proof -
  let ?m0 = "register_providers env (new_manager store)"
  have wf: "gm_wf (mg_factories ?m0)" by (rule registered_http(4)) (simp add: new_manager_def gm_wf_def)
  have mem: "''http'' \<in> fst ` set (mg_factories ?m0)"
    using registered_http(3) [of env "new_manager store"] by (metis map_of_eq_None_iff option.distinct(1))
  have act: "mg_active ?m0 = []"
    by (simp add: register_providers_def register_file_def register_http_def register_kube_def register_def new_manager_def)
  note one = manager_apply_spec [OF wf, of now slow cfg, folded assms(2)]
  have "followed ?m0 cfg ''http'' = Some r" using one(4) [of "''http''"] mem assms(3) by simp
  then have r: "hc_enabled (pv_http (cf_providers cfg))" "r = \<lparr>rn_prov = HttpSource (new_http_prov (pv_http (cf_providers cfg))),
      rn_fp = fingerprint (de_json_http env (pv_http (cf_providers cfg)))\<rparr>"
    by (auto simp: followed_def started_def registered_http act make_http_def split: if_splits option.splits)
  have "followed m (with_header h cfg) ''http'' = Some r"
    using assms(1,3) r by (simp add: followed_def one(2,3) registered_http with_header_frame real_json_def header_json)
  moreover have "gm_wf (mg_factories m)" using wf one(1) by simp
  ultimately have "map_of (mg_active (fst (manager_apply now' slow' (with_header h cfg) m))) ''http'' = Some r"
    using mem one(1) by (simp add: manager_apply_spec(4))
  moreover have "http_json other = http_json (pv_http (cf_providers cfg))"
    if "other\<lparr>hc_auth_header := []\<rparr> = (pv_http (cf_providers cfg))\<lparr>hc_auth_header := []\<rparr>"
    using header_json [where c = other and h = "[]"] header_json [where c = "pv_http (cf_providers cfg)" and h = "[]"] by (simp only: that)
  moreover have "rn_prov r = HttpSource (new_http_prov (pv_http (cf_providers cfg)))" by (subst r(2)) (rule running.select_convs)
  ultimately show ?thesis using http_text_inject [OF _ assms(5,4)] by metis
qed

theorem auth_header_change_ignored_witness:
  "\<exists>env cfg m r. m = fst (manager_apply 1 (\<lambda>_. False) cfg (register_providers env (new_manager new_inv_store)))
    \<and> map_of (mg_active m) ''http'' = Some r \<and> real_json env
    \<and> map_of (mg_active (fst (manager_apply 2 (\<lambda>_. False) (with_header ''new'' cfg) m))) ''http'' = Some r"
proof -
  define env where "env = demo_sources\<lparr>de_json_file := \<lambda>c. Some (json_text (file_json c)),
    de_json_http := \<lambda>c. Some (json_text (http_json c)), de_json_kube := \<lambda>c. Some (json_text (kube_json c))\<rparr>"
  define cfg where "cfg = default_config\<lparr>cf_providers := (cf_providers default_config)
    \<lparr>pv_http := (pv_http (cf_providers default_config))\<lparr>hc_enabled := True\<rparr>\<rparr>\<rparr>"
  define m where "m = fst (manager_apply 1 (\<lambda>_. False) cfg (register_providers env (new_manager new_inv_store)))"
  have env: "real_json env" by (simp add: env_def real_json_def)
  have fits: "http_fits (pv_http (cf_providers cfg))"
    by (simp add: cfg_def default_config_def http_fits_def second_def int64_def min_int64_def max_int64_def)
  have "map_of (mg_active m) ''http'' \<noteq> None"
    by (simp add: m_def manager_apply_def apply_next_def apply_source_def start_provider_def register_providers_def
      register_file_def register_http_def register_kube_def register_def new_manager_def make_http_def build_client_def
      cfg_def default_config_def env_def demo_sources_def Let_def split: option.split)
  then obtain r where r: "map_of (mg_active m) ''http'' = Some r" by blast
  with auth_header_change_ignored [OF env m_def r fits fits, of 2 "\<lambda>_. False" "''new''"] m_def env show ?thesis
    by (intro exI [of _ env] exI [of _ cfg] exI [of _ m] exI [of _ r]) blast
qed

end
