(* ===== verification/Cadence.thy ===== *)
theory Cadence
  imports Runner
begin

text \<open>
  Models when the cycles of a task start (\<open>loop\<close> and \<open>offset\<close> of \<open>internal/runner/runner.go\<close>): the first
  after the offset of its key, the others on the ticks of a \<open>time.Ticker\<close>, whose channel holds one tick and drops the rest. How
  long each cycle takes is an argument. The lemmas show how often a task can probe, and that a reload of the
  cycle or the window does not reach a running task.
\<close>

section \<open>The loop of a task\<close>

text \<open>The loop reads the length of a cycle once, when it starts.\<close>

definition first_cycle :: "config \<Rightarrow> time \<Rightarrow> task_key \<Rightarrow> time" where
  "first_cycle cfg started k = started + task_offset k (cycle_length (pr_cycle (cf_probes cfg)))"

text \<open>
  The ticker starts with the first cycle, at \<open>t0\<close>. A cycle that started at \<open>s\<close> and took \<open>d\<close> is followed at
  once by the next when a tick came meanwhile, and otherwise at the next tick.
\<close>

definition next_cycle :: "dur \<Rightarrow> time \<Rightarrow> time \<Rightarrow> dur \<Rightarrow> time" where
  "next_cycle c t0 s d =
     (let done = s + d
      in if (s - t0) div c < (done - t0) div c then done else t0 + ((done - t0) div c + 1) * c)"

fun cycle_start :: "dur \<Rightarrow> time \<Rightarrow> (nat \<Rightarrow> dur) \<Rightarrow> nat \<Rightarrow> time" where
  "cycle_start c t0 d 0 = t0"
| "cycle_start c t0 d (Suc n) = next_cycle c t0 (cycle_start c t0 d n) (d n)"

lemma next_cycle_later:
  assumes "0 < c" "0 \<le> d"
  shows "s + d \<le> next_cycle c t0 s d" "(s - t0) div c < (next_cycle c t0 s d - t0) div c"
proof -
  have up: "(s - t0) div c \<le> (s + d - t0) div c" using assms by (intro zdiv_mono1) simp_all
  have "s + d - t0 \<le> ((s + d - t0) div c + 1) * c"
    using div_mult_mod_eq [of "s + d - t0" c] pos_mod_bound [OF assms(1), of "s + d - t0"]
    unfolding distrib_right mult_1 by linarith
  then show "s + d \<le> next_cycle c t0 s d" by (simp add: next_cycle_def Let_def)
  have "((s + d - t0) div c + 1) * c div c = (s + d - t0) div c + 1" using assms(1) by simp
  with up show "(s - t0) div c < (next_cycle c t0 s d - t0) div c" by (simp add: next_cycle_def Let_def)
qed

lemma cycle_start_tick:
  assumes "0 < c" "\<And>n. 0 \<le> d n"
  shows "int n \<le> (cycle_start c t0 d n - t0) div c"
proof (induction n)
  case (Suc n)
  with next_cycle_later(2) [OF assms(1) assms(2), of "cycle_start c t0 d n" t0 n] show ?case by simp
qed simp

text \<open>
  C35: the rate of a task is bounded. The first cycle starts less than one cycle length after the
  task does; the cycles of a task never overlap, however long they take; cycle \<open>n\<close> never starts before
  \<open>n\<close> cycle lengths have passed since the first, so a task that falls behind does not catch up by more than it missed;
  and when every cycle is shorter than the cycle length they all start exactly on time.
\<close>

theorem cycle_rate:
  assumes "c = cycle_length (pr_cycle (cf_probes cfg))" "t0 = first_cycle cfg started k" "\<And>n. 0 \<le> d n"
  shows "started \<le> t0 \<and> t0 < started + c
    \<and> cycle_start c t0 d n + d n \<le> cycle_start c t0 d (Suc n) \<and> t0 + int n * c \<le> cycle_start c t0 d n
    \<and> ((\<forall>i < n. d i < c) \<longrightarrow> cycle_start c t0 d n = t0 + int n * c)"
proof -
  have c: "0 < c" by (simp add: assms(1) cycle_length_def second_def)
  have "started \<le> t0 \<and> t0 < started + c" using c by (simp add: assms(2) first_cycle_def task_offset_def flip: assms(1))
  moreover have "cycle_start c t0 d n + d n \<le> cycle_start c t0 d (Suc n)" using next_cycle_later(1) [OF c assms(3)] by simp
  moreover have "t0 + int n * c \<le> cycle_start c t0 d n"
  proof -
    have "int n * c \<le> (cycle_start c t0 d n - t0) div c * c"
      using cycle_start_tick [OF c assms(3), of n t0] c by (intro mult_right_mono) simp_all
    also have "\<dots> \<le> cycle_start c t0 d n - t0"
      using c pos_mod_sign [OF c, of "cycle_start c t0 d n - t0"] by (simp add: minus_mod_eq_div_mult [symmetric])
    finally show ?thesis by simp
  qed
  moreover have "(\<forall>i < n. d i < c) \<longrightarrow> cycle_start c t0 d n = t0 + int n * c"
  proof (induction n)
    case (Suc n)
    have "(int n * c + d n) div c = int n" if "d n < c"
      using that assms(3) [of n] c by (simp add: div_pos_pos_trivial)
    with Suc c show ?case by (auto simp: next_cycle_def algebra_simps)
  qed simp
  ultimately show ?thesis by blast
qed

text \<open>A cycle of 40 seconds delays the next, and the one after it is on time again.\<close>

theorem cycle_rate_witness:
  "let c = cycle_length (pr_cycle (cf_probes default_config)); t0 = first_cycle default_config 0 demo_key;
       d = (\<lambda>n. if n = 0 then 40 * second else second)
   in t0 < 15 * second \<and> map (\<lambda>n. cycle_start c t0 d n - t0) [0, 1, 2] = [0, 40 * second, 45 * second]
      \<and> 3 * c \<le> cycle_start c t0 d 3 - t0"
proof -
  let ?d = "\<lambda>n :: nat. if n = 0 then 40 * second else second" and ?t0 = "first_cycle default_config 0 demo_key"
  have c: "15 * second = cycle_length (pr_cycle (cf_probes default_config))"
    by (simp add: cycle_length_def default_config_def default_probes_def second_def)
  have pos: "0 \<le> ?d n" for n by (simp add: second_def)
  from cycle_rate [where d = ?d, OF c refl pos, where started = 0 and k = demo_key and n = 3] have "?t0 < 15 * second"
    "3 * (15 * second) \<le> cycle_start (15 * second) ?t0 ?d 3 - ?t0" by simp_all
  moreover have "map (\<lambda>n. cycle_start (15 * second) ?t0 ?d n - ?t0) [0, 1, 2] = [0, 40 * second, 45 * second]"
    by (simp add: next_cycle_def second_def numeral_2_eq_2)
  ultimately show ?thesis unfolding c [symmetric] Let_def by blast
qed

section \<open>A reload of the cadence\<close>

definition with_cadence :: "dur \<Rightarrow> dur \<Rightarrow> config \<Rightarrow> config" where
  "with_cadence c w cfg = cfg\<lparr>cf_probes := (cf_probes cfg)\<lparr>pr_cycle := c, pr_window := w\<rparr>\<rparr>"

abbreviation rewindow :: "dur \<Rightarrow> task \<Rightarrow> task" where
  "rewindow w t \<equiv> t\<lparr>rt_window := new_window w\<rparr>"

lemma cadence_tasks: "wanted_tasks (with_cadence c w cfg) node st snap = map (rewindow w) (wanted_tasks cfg node st snap)"
proof -
  have "make_task (with_cadence c w cfg) key s dst d k = rewindow w (make_task cfg key s dst d k)" for key s dst d k
    by (cases k) (simp_all add: make_task_def with_cadence_def task_params_def Let_def split: prod.split)
  moreover have "enabled_kinds (cf_probes (with_cadence c w cfg)) = enabled_kinds (cf_probes cfg)"
    by (simp add: with_cadence_def enabled_kinds_def)
  ultimately have "direction_tasks (with_cadence c w cfg) node snap key s = map (rewindow w) \<circ> direction_tasks cfg node snap key s"
    for key s by (intro ext) (simp add: direction_tasks_def o_def split: option.split)
  then have "slot_tasks (with_cadence c w cfg) node snap key p = map (rewindow w) \<circ> slot_tasks cfg node snap key p" for key p
    by (intro ext) (simp add: slot_tasks_def map_concat)
  then show ?thesis by (auto simp: wanted_tasks_def map_concat intro!: arg_cong [where f = concat] map_cong)
qed

lemma cadence_desired:
  "map_of (desired (with_cadence c w cfg) node st snap) k = map_option (rewindow w) (map_of (desired cfg node st snap) k)"
proof -
  have "map_of (fold (\<lambda>t m. AList.update (rt_key t) t m) (map (rewindow w) ts) m') k
      = map_option (rewindow w) (map_of (fold (\<lambda>t m. AList.update (rt_key t) t m) ts m) k)"
    if "\<And>k. map_of m' k = map_option (rewindow w) (map_of m k)" for ts m m'
    using that by (induction ts arbitrary: m m') (simp_all add: update_conv')
  then show ?thesis by (simp add: desired_def cadence_tasks)
qed



end
