(* ===== verification/Spec2Isabelle.thy ===== *)
theory Spec2Isabelle
  imports Measure Api Exposition Session EchoWire ConfigJson Cadence
begin

text \<open>
  A verification library for the mesh measurement daemon \<open>meshd\<close> and its helper \<open>meshping\<close>.

  \<^bold>\<open>The program.\<close> Discovery sources (a file, an HTTP server, the nodes of a Kubernetes cluster) deliver
  host records to an inventory, which merges them into one canonical list. A zone rule sorts the hosts
  into zones, a filter selects pairs of zones, and the pure function \<open>Reconcile\<close> assigns hosts to the
  slots of every pairing, touching nothing that is still valid. A loop runs it on triggers, ticks and health
  deadlines, writes the assignment to a state file and hands it to the runner, which keeps one task for
  every slot side of its own node and probe kind. A task sends UDP, TCP or ICMP probes (ICMP through the
  privileged helper), collects them in a rolling window, tells the health tracker of its target and
  publishes metrics. The tracker releases hosts that fail, which triggers the loop again. Responders on
  every node echo the probes. A watcher reloads the configuration, and an HTTP surface shows and drives
  the whole.

  \<^bold>\<open>Theories and sources\<close>, in dependency order.

  \<^item> \<open>Prelude\<close>, \<open>Numerics\<close>, \<open>PathMatch\<close>: Go's types, maps, time and durations; float64, FNV-1a, SHA-256 and
    \<open>Atoi\<close>; \<open>path.Match\<close>. Generic interfaces: \<open>inv_machine\<close> and \<open>guarded_machine\<close> (an invariant carried along
    a run) and \<open>fixed_codec\<close>.
  \<^item> \<open>Config\<close>, \<open>Watcher\<close>: \<open>internal/config\<close>. Structs, defaults, normalisation and validation; load, reload and
    the subscribers. \<open>Json\<close>, \<open>Durations\<close>: the part of \<open>encoding/json\<close> and of the text of durations that the
    program uses. \<open>ConfigJson\<close>: the tags of \<open>config.go\<close> as tables, each struct read and written.
  \<^item> \<open>Inventory\<close>: \<open>internal/inventory\<close>. Sets by source, the merge, the store with its cached view; \<open>host_view\<close>.
  \<^item> \<open>Provider\<close>, \<open>FileProvider\<close>, \<open>HttpProvider\<close>, \<open>KubeProvider\<close>: \<open>internal/provider\<close> and its sources. Manager, sink
    and retry delay; documents and names; conditional requests, cache and staleness; nodes, labels and
    the debounced loop. \<open>host_source\<close> is what the manager relies on, and each source interprets it.
    \<open>Discovery\<close> (\<open>cmd/meshd/providers.go\<close>) registers them.
  \<^item> \<open>Zone\<close>, \<open>Pairing\<close>, \<open>Slot\<close>: \<open>internal/zone\<close>, \<open>pairing\<close>, \<open>slot\<close>. Rules and index, keys and filters, layout,
    candidates and the ranked scan.
  \<^item> \<open>Health\<close>: \<open>internal/health\<close>. The state machine of a host and every operation of the tracker.
  \<^item> \<open>StateStore\<close>: \<open>internal/state\<close>. The table, \<open>Load\<close>, \<open>Save\<close> as steps on the file system, the debounced writer
    as a step relation.
  \<^item> \<open>Reconcile\<close>: \<open>internal/reconcile/reconcile.go\<close>, all stages. \<open>Stages\<close> and \<open>TableStages\<close> say what a stage does to
    one pairing (with \<open>picker\<close>, the contract of the scanner), \<open>ReconcileProps\<close> what a run does, \<open>ReconcileRuns\<close>
    what sequences of runs do. \<open>ReconLoop\<close>: \<open>internal/reconcile/loop.go\<close>.
  \<^item> \<open>Probe\<close>, \<open>Window\<close>, \<open>Probers\<close>: \<open>internal/probe\<close>. Header, errors and cycles; the rolling window; the UDP and TCP
    probers, with the contract \<open>prober\<close>. \<open>MeshPing\<close>: the jobs of \<open>cmd/meshping\<close>. \<open>IcmpClient\<close>: the requests and
    waiters of \<open>internal/probe/icmp\<close>. \<open>Protocol\<close>: \<open>pkg/pingproto\<close>, the lines between the two, from the scanner
    of the bytes to the messages both read loops handle. \<open>Session\<close>: \<open>main\<close> and \<open>shutdown\<close> of the helper, and
    \<open>Run\<close> and \<open>session\<close> of the client as one step function. \<open>EchoWire\<close>: the packets of the helper
    and their answers. \<open>Responder\<close>: \<open>internal/responder\<close>.
  \<^item> \<open>Runner\<close>: \<open>internal/runner\<close>. Desired tasks, \<open>Apply\<close>, one cycle. \<open>Measure\<close> runs it over the three probers;
    \<open>Cadence\<close> says when the cycles of a task start.
  \<^item> \<open>Metrics\<close>: \<open>internal/metrics\<close>, as the calls made on the Prometheus library, whose contract \<open>prom_ok\<close> is a hypothesis.
    \<open>Exposition\<close>: its declarations (names, kinds, labels, buckets), against which every call is checked.
  \<^item> \<open>Daemon\<close>: \<open>cmd/meshd/main.go\<close>, the components composed in the record \<open>app\<close>, one event for each thing that can
    wake a goroutine. \<open>Api\<close>: \<open>internal/api\<close>, a handler as a function of \<open>app\<close>.

  \<^bold>\<open>Conventions.\<close> A struct is a record whose fields carry a two letter prefix, an enumeration a datatype, an
  error the left side of a sum, a map an association list with distinct keys (\<open>gm_wf\<close>): its order is the order
  in which Go happens to range over the map, so what is proved for every list is proved for every
  order. A time is an integer of nanoseconds and \<open>IsZero\<close> is 0; a duration is an int64 whose sums wrap where the
  code adds without a bound. Counters and generations are words of their width. A call of \<open>time.Now\<close>, a read of a
  socket or a file, the answer of a server and the outcome of a write are arguments or fields of an event.
  A component that goroutines share is its state and a step function on events; an event is one
  critical section or one pass of a loop, so that theorems about all lists of events are about all
  interleavings of these.

  \<^bold>\<open>What is shown.\<close> Discovery: what is accepted is usable, the running sources follow the configuration, no
  event of a source is lost, an outage keeps the hosts, and validators never run ahead of the set
  in force. Assignment: every filled side is valid afterwards, a valid side survives, anchors agree, a second run changes
  nothing, a vanished pairing goes through its hold. The loop and the runner: a change reaches the store and
  the runner, triggers are not lost, applying a table converges to its tasks, windows never mix
  measurements. Measurement: the cycle of a UDP probe is exactly what was sent and received in time, an echo without
  loss counts no loss, an ICMP job counts its own replies, a waiter is always settled, the window is the recent
  part of its history. The helper: messages arrive as they were sent however the pipe cuts them, the answer
  to a packet is counted for it, nothing waits for a helper that is gone, and its shutdown answers every job that ends in time; a task probes at the
  rate of its cycle. Health and state: a host is released only after its hold, eligibility is lost in
  the listed ways only, saving is atomic, no update is lost. The surface: series follow the running
  tasks and stay under the limit, no call on the metrics library panics while the buckets are sorted, a read shows no
  secret, and the configuration it shows loads again as the same configuration. Several theorems show where the
  program departs from its intent: a restart that starts no task, a vanished pairing that stays, super slots that
  never settle, a reload that is accepted and cannot be applied, a failed restart of a source that
  leaves its hosts, a stale mark that survives, series that outlive their task, the reply of \<open>/tasks\<close>
  that arrives empty, ICMP settings that every request fails with, unsorted buckets that panic, a reader that
  stops and blocks ICMP, and a new header or a new cycle that a reload accepts and nothing takes up.

  \<^bold>\<open>Bounds and fuel.\<close> No definition runs on fuel. Recursion is structural over lists (events, bytes, candidates), or
  has a measure (\<open>path.Match\<close> on the rest of the pattern and the name, the parsers of JSON and of durations and
  the line scanner on the bytes that are left). A loop of the program that waits for the
  outside consumes the list of what it sees and is \<open>None\<close>, or not returned, when the list ends first; the
  exponential delays are bounded by the number of attempts.

  \<^bold>\<open>Parameters.\<close> The decoder of YAML and of the documents of the sources, the text of a float, \<open>regexp\<close>,
  the certificates and the transport of HTTP, the Kubernetes client, its informer and its label selector, and the Prometheus library. Where a theorem
  needs something of one of them, it is a hypothesis and the witness gives a concrete function.

  \<^bold>\<open>Not modelled.\<close> The text of the state file, of the documents of the sources, of the replies and of log lines; what
  the kernel does when a socket or a process is opened, signals and the flags of a command; the wait for a
  stopped goroutine and its time limit, except that a source that does not stop in time may still emit; interleavings inside one critical section or one run of
  the loop; NaN, the infinities and the exponent range of float64; case mapping and trimming beyond
  ASCII; the help texts of the metrics and the scrape; the listener of the HTTP surface.
\<close>

end
